(* ===== verification/Sponge_Prelude.thy ===== *)
theory Sponge_Prelude
  imports Main "HOL-Library.Word"
begin

text \<open>
  Shared vocabulary of the development.

  \<^item> Machine integers.  Quantities that travel on the wire or that the code combines bitwise are
    words (\<open>byte\<close>, \<open>u16\<close>, \<open>u32\<close>).  The 64-bit counters and sizes of the code
    (\<^verbatim>\<open>size_t\<close>, \<^verbatim>\<open>uint64_t\<close>) are \<open>nat\<close> with the wrap-around written out: every
    addition and subtraction the code performs on them is \<open>add64\<close> or \<open>sub64\<close>, and the
    rules of the collection \<open>no_wrap\<close> remove the wrap where a bound excludes it.
  \<^item> \<^verbatim>\<open>std::set\<close> as a list in iteration order, with the search that a red-black tree performs
    written over that order (\<open>set_insert_by\<close>, \<open>upper_bound_by\<close>).
  \<^item> Exceptions as values: a method that may throw returns \<open>exn + 'a\<close>, \<open>Inl\<close> being the
    exception.
  \<^item> The generic interface \<open>step_system\<close>: an initial state, a step function and an invariant.
\<close>

named_theorems no_wrap "64-bit operations that do not wrap under a bound"

type_synonym byte = "8 word"
type_synonym u16 = "16 word"
type_synonym u32 = "32 word"
type_synonym bytes = "byte list"

subsection \<open>64-bit arithmetic on natural numbers\<close>

abbreviation U64 :: nat where
  "U64 \<equiv> 18446744073709551616"

abbreviation U32 :: nat where
  "U32 \<equiv> 4294967296"

definition u64 :: "nat \<Rightarrow> nat" where
  "u64 n = n mod U64"

definition add64 :: "nat \<Rightarrow> nat \<Rightarrow> nat" where
  "add64 a b = u64 (a + b)"

definition sub64 :: "nat \<Rightarrow> nat \<Rightarrow> nat" where
  "sub64 a b = u64 (a + U64 - b)"

definition mul64 :: "nat \<Rightarrow> nat \<Rightarrow> nat" where
  "mul64 a b = u64 (a * b)"

subsection \<open>Exceptions\<close>

text \<open>
  \<open>Undefined_behaviour\<close> marks a step to which the C++ standard gives no meaning; \<open>Unix_error\<close> has the name of the
  system call that failed and \<^verbatim>\<open>errno\<close>.
\<close>

datatype exn =
    Out_of_range string
  | Runtime_error string
  | Invalid_argument string
  | Undefined_behaviour string
  | Unix_error string int
  | Length_error string

text \<open>A call that may throw, in the middle of a method of an object in state \<open>s\<close>; and a call that also changes the state.\<close>

definition call :: "'s \<Rightarrow> exn + 'a \<Rightarrow> ('a \<Rightarrow> 's \<times> (exn + 'b)) \<Rightarrow> 's \<times> (exn + 'b)" where
  "call s m f = (case m of Inl e \<Rightarrow> (s, Inl e) | Inr x \<Rightarrow> f x)"

definition call_on :: "'s \<times> (exn + 'a) \<Rightarrow> ('s \<Rightarrow> 'a \<Rightarrow> 's \<times> (exn + 'b)) \<Rightarrow> 's \<times> (exn + 'b)" where
  "call_on m f = (case m of (s, Inl e) \<Rightarrow> (s, Inl e) | (s, Inr x) \<Rightarrow> f s x)"

lemma call_simps [simp]: "call s (Inl e) f = (s, Inl e)" "call s (Inr x) f = f x"
  by (simp_all add: call_def)

lemma call_on_simps [simp]: "call_on (s, Inl e) f = (s, Inl e)" "call_on (s, Inr x) f = f s x"
  by (simp_all add: call_on_def)

lemma call_on_ok: "call_on m f = (s, Inr y) \<longleftrightarrow> (\<exists>t x. m = (t, Inr x) \<and> f t x = (s, Inr y))"
  by (cases m; cases "snd m") (auto simp: call_on_def)

subsection \<open>Ordered containers\<close>

text \<open>
  \<^verbatim>\<open>std::set\<close> keeps its elements in one order; a search compares the key with elements and
  moves left where the comparison \<open>lt k e\<close> holds and right where it does not.  As the answers are
  monotone along the order, the search ends between the last element that answers no and the
  first that answers yes.  An insertion then compares the left neighbour with the key and leaves the
  container alone when neither is smaller than the other.
\<close>

definition upper_bound_by :: "('a \<Rightarrow> 'a \<Rightarrow> bool) \<Rightarrow> 'a \<Rightarrow> 'a list \<Rightarrow> 'a list \<times> 'a list" where
  "upper_bound_by lt k xs = (takeWhile (\<lambda>e. \<not> lt k e) xs, dropWhile (\<lambda>e. \<not> lt k e) xs)"

definition set_insert_by :: "('a \<Rightarrow> 'a \<Rightarrow> bool) \<Rightarrow> 'a \<Rightarrow> 'a list \<Rightarrow> 'a list" where
  "set_insert_by lt k xs =
     (let (ls, rs) = upper_bound_by lt k xs in
      if ls = [] \<or> lt (last ls) k then ls @ k # rs else xs)"

subsection \<open>Lemmas on 64-bit arithmetic\<close>

lemma u64_less [simp]: "u64 n < U64"
  by (simp add: u64_def)

lemma u64_id [no_wrap]: "n < U64 \<Longrightarrow> u64 n = n"
  by (simp add: u64_def)

lemma u64_idem [simp]: "u64 (u64 n) = u64 n"
  by (simp add: u64_def)

lemma add64_less [simp]: "add64 a b < U64"
  by (simp add: add64_def)

lemma sub64_less [simp]: "sub64 a b < U64"
  by (simp add: sub64_def)

lemma add64_id [no_wrap]: "a + b < U64 \<Longrightarrow> add64 a b = a + b"
  by (simp add: add64_def u64_id)

lemma sub64_id [no_wrap]: "b \<le> a \<Longrightarrow> a < U64 \<Longrightarrow> sub64 a b = a - b"
proof -
  assume "b \<le> a" "a < U64"
  then have eq: "a + U64 - b = (a - b) + U64" and less: "a - b < U64" by simp_all
  show ?thesis unfolding sub64_def u64_def eq using less by (simp only: mod_add_self2 mod_less)
qed

lemma sub64_wrap: "a < b \<Longrightarrow> b \<le> U64 \<Longrightarrow> sub64 a b = a + U64 - b"
  by (simp add: sub64_def u64_def)

lemma sub64_self [simp]: "a < U64 \<Longrightarrow> sub64 a a = 0"
  by (simp add: no_wrap)

lemma sub64_0 [simp]: "a < U64 \<Longrightarrow> sub64 a 0 = a"
  by (simp add: no_wrap)

lemma add64_0 [simp]: "a < U64 \<Longrightarrow> add64 a 0 = a"
  by (simp add: no_wrap)

lemma add64_commute: "add64 a b = add64 b a"
  by (simp add: add64_def add.commute)

lemma add64_assoc: "add64 (add64 a b) c = add64 a (add64 b c)"
  by (simp add: add64_def u64_def mod_simps add.assoc)

lemma unat_byte_less: "unat (w :: byte) < 256"
  using unsigned_less [of w, where 'a = nat] by simp

lemma unat_u16_less: "unat (w :: u16) < 65536"
  using unsigned_less [of w, where 'a = nat] by simp

lemma unat_u32_less: "unat (w :: u32) < U32"
  using unsigned_less [of w, where 'a = nat] by simp

subsection \<open>Lemmas on lists\<close>

lemma drop_take_append: "i \<le> j \<Longrightarrow> take i xs @ take (j - i) (drop i xs) = take j xs"
  by (metis le_add_diff_inverse take_add)

lemma take_drop_slice_append:
  "take m (drop i xs) @ take n (drop (i + m) xs) = take (m + n) (drop i xs)"
  by (simp add: take_add add.commute)

lemma takeWhile_upper_bound_split:
  "upper_bound_by lt k xs = (ls, rs) \<Longrightarrow> xs = ls @ rs"
  by (auto simp: upper_bound_by_def)

lemma upper_bound_left: "upper_bound_by lt k xs = (ls, rs) \<Longrightarrow> e \<in> set ls \<Longrightarrow> \<not> lt k e"
  by (auto simp: upper_bound_by_def dest: set_takeWhileD)

lemma upper_bound_right: "upper_bound_by lt k xs = (ls, r # rs) \<Longrightarrow> lt k r"
  by (auto simp: upper_bound_by_def dropWhile_eq_Cons_conv)

subsection \<open>Systems that step\<close>

text \<open>
  A component with a start state and a total step function keeps every invariant that holds at the
  start and that each step keeps.  The theories of the stateful components interpret this locale
  with their own operations.
\<close>

fun run_steps :: "('s \<Rightarrow> 'e \<Rightarrow> 's) \<Rightarrow> 's \<Rightarrow> 'e list \<Rightarrow> 's" where
  "run_steps step s [] = s"
| "run_steps step s (e # es) = run_steps step (step s e) es"

lemma run_steps_append: "run_steps step s (xs @ ys) = run_steps step (run_steps step s xs) ys"
  by (induction xs arbitrary: s) simp_all

fun allowed_run :: "('s \<Rightarrow> 'e \<Rightarrow> 's) \<Rightarrow> ('s \<Rightarrow> 'e \<Rightarrow> bool) \<Rightarrow> 's \<Rightarrow> 'e list \<Rightarrow> bool" where
  "allowed_run step allowed s [] = True"
| "allowed_run step allowed s (e # es) = (allowed s e \<and> allowed_run step allowed (step s e) es)"

lemma allowed_run_append:
  "allowed_run step allowed s (xs @ ys) \<longleftrightarrow> allowed_run step allowed s xs \<and> allowed_run step allowed (run_steps step s xs) ys"
  by (induction xs arbitrary: s) simp_all

lemma allowed_any [simp]: "allowed_run step (\<lambda>s e. True) s es"
  by (induction es arbitrary: s) simp_all

locale step_system =
  fixes start :: "'s \<Rightarrow> bool"
    and step :: "'s \<Rightarrow> 'e \<Rightarrow> 's"
    and allowed :: "'s \<Rightarrow> 'e \<Rightarrow> bool"
    and Inv :: "'s \<Rightarrow> bool"
  assumes start_inv: "start s \<Longrightarrow> Inv s"
    and step_inv: "Inv s \<Longrightarrow> allowed s e \<Longrightarrow> Inv (step s e)"
begin

lemma run_inv: "Inv s \<Longrightarrow> allowed_run step allowed s es \<Longrightarrow> Inv (run_steps step s es)"
proof (induction es arbitrary: s)
  case Nil
  then show ?case by simp
next
  case (Cons e es)
  then have "Inv (step s e)" by (simp add: step_inv)
  with Cons show ?case by simp
qed

lemma reachable_inv: "start s \<Longrightarrow> allowed_run step allowed s es \<Longrightarrow> Inv (run_steps step s es)"
  by (rule run_inv [OF start_inv])

lemma allowed_run_if:
  "(\<And>s e. Inv s \<Longrightarrow> e \<in> set es \<Longrightarrow> allowed s e) \<Longrightarrow> Inv s \<Longrightarrow> allowed_run step allowed s es"
  by (induction es arbitrary: s) (simp_all add: step_inv)

lemma run_preserves:
  assumes "\<And>s e. Inv s \<Longrightarrow> allowed s e \<Longrightarrow> R s (step s e)"
    and refl: "\<And>s. R s s" and trans: "\<And>a b c. R a b \<Longrightarrow> R b c \<Longrightarrow> R a c"
  shows "Inv s \<Longrightarrow> allowed_run step allowed s es \<Longrightarrow> R s (run_steps step s es)"
proof (induction es arbitrary: s)
  case Nil
  show ?case by (simp add: refl)
next
  case (Cons e es)
  then have "R s (step s e)" "Inv (step s e)" by (simp_all add: assms(1) step_inv)
  with Cons show ?case by (auto intro: trans)
qed

end

end
