(* ===== verification/Byte_Stream.thy ===== *)
theory Byte_Stream
  imports Sponge_Prelude
begin

text \<open>
  \<^verbatim>\<open>libsponge/byte_stream.{hh,cc}\<close>: the bounded in-order byte stream between an application
  and the TCP connection.  \<open>byte_stream\<close> has the fields of the class \<^verbatim>\<open>ByteStream\<close>; each
  method is a definition that returns the changed stream, and the value where the method returns one.
  The interface \<open>bounded_fifo\<close> says what the users of the stream rely on (bytes come out in the
  order they were accepted, the room and the content add up to the capacity) and is interpreted by
  the methods \<open>bs_write\<close> and \<open>bs_read\<close>.
\<close>

record byte_stream =
  bs_buffer :: bytes
  bs_capcity :: nat
  bs_size :: nat
  bs_inputEnd :: bool
  bs_totoalWrite :: nat
  bs_totoalRead :: nat
  bs_error_flag :: bool

subsection \<open>The methods\<close>

definition bs_new :: "nat \<Rightarrow> byte_stream" where
  "bs_new capacity =
     \<lparr>bs_buffer = [], bs_capcity = capacity, bs_size = 0, bs_inputEnd = False,
      bs_totoalWrite = 0, bs_totoalRead = 0, bs_error_flag = False\<rparr>"

text \<open>The copy loop of \<^verbatim>\<open>write\<close>: one \<^verbatim>\<open>push_back\<close> for each index below \<open>addsize\<close>.\<close>

function push_back_loop :: "nat \<Rightarrow> nat \<Rightarrow> bytes \<Rightarrow> bytes \<Rightarrow> bytes" where
  "push_back_loop i addsize data buf =
     (if i < addsize then push_back_loop (Suc i) addsize data (buf @ [data ! i]) else buf)"
  by pat_completeness auto
termination
  by (relation "measure (\<lambda>(i, addsize, data, buf). addsize - i)") auto

definition bs_write :: "bytes \<Rightarrow> byte_stream \<Rightarrow> byte_stream \<times> nat" where
  "bs_write data s =
     (let addsize = min (length data) (sub64 (bs_capcity s) (bs_size s)) in
      (s\<lparr>bs_buffer := push_back_loop 0 addsize data (bs_buffer s),
         bs_size := add64 (bs_size s) addsize,
         bs_totoalWrite := add64 (bs_totoalWrite s) addsize\<rparr>, addsize))"

definition bs_peek_output :: "nat \<Rightarrow> byte_stream \<Rightarrow> bytes" where
  "bs_peek_output len s = take (min (bs_size s) len) (bs_buffer s)"

definition bs_pop_output :: "nat \<Rightarrow> byte_stream \<Rightarrow> byte_stream" where
  "bs_pop_output len s =
     (let outsize = min (bs_size s) len in
      s\<lparr>bs_buffer := drop outsize (bs_buffer s),
        bs_size := sub64 (bs_size s) outsize,
        bs_totoalRead := add64 (bs_totoalRead s) outsize\<rparr>)"

definition bs_read :: "nat \<Rightarrow> byte_stream \<Rightarrow> byte_stream \<times> bytes" where
  "bs_read len s =
     (let outsize = min (bs_size s) len;
          res = take outsize (bs_buffer s) in
      (s\<lparr>bs_buffer := drop outsize (bs_buffer s),
         bs_size := sub64 (bs_size s) outsize,
         bs_totoalRead := add64 (bs_totoalRead s) outsize\<rparr>, res))"

definition bs_end_input :: "byte_stream \<Rightarrow> byte_stream" where
  "bs_end_input s = s\<lparr>bs_inputEnd := True\<rparr>"

definition bs_set_error :: "byte_stream \<Rightarrow> byte_stream" where
  "bs_set_error s = s\<lparr>bs_error_flag := True\<rparr>"

definition bs_input_ended :: "byte_stream \<Rightarrow> bool" where
  "bs_input_ended s = bs_inputEnd s"

definition bs_error :: "byte_stream \<Rightarrow> bool" where
  "bs_error s = bs_error_flag s"

definition bs_buffer_size :: "byte_stream \<Rightarrow> nat" where
  "bs_buffer_size s = bs_size s"

definition bs_buffer_empty :: "byte_stream \<Rightarrow> bool" where
  "bs_buffer_empty s \<longleftrightarrow> bs_size s = 0"

definition bs_eof :: "byte_stream \<Rightarrow> bool" where
  "bs_eof s \<longleftrightarrow> bs_inputEnd s \<and> bs_size s = 0"

definition bs_bytes_written :: "byte_stream \<Rightarrow> nat" where
  "bs_bytes_written s = bs_totoalWrite s"

definition bs_bytes_read :: "byte_stream \<Rightarrow> nat" where
  "bs_bytes_read s = bs_totoalRead s"

definition bs_remaining_capacity :: "byte_stream \<Rightarrow> nat" where
  "bs_remaining_capacity s = sub64 (bs_capcity s) (bs_size s)"

lemmas bs_accessors =
  bs_input_ended_def bs_error_def bs_buffer_size_def bs_buffer_empty_def bs_eof_def
  bs_bytes_written_def bs_bytes_read_def

subsection \<open>The invariant\<close>

definition bs_inv :: "byte_stream \<Rightarrow> bool" where
  "bs_inv s \<longleftrightarrow>
     bs_size s = length (bs_buffer s) \<and> bs_size s \<le> bs_capcity s \<and> bs_capcity s < U64 \<and>
     bs_totoalRead s < U64 \<and> bs_totoalWrite s = add64 (bs_totoalRead s) (bs_size s)"

subsection \<open>The interface: a bounded queue of bytes\<close>

text \<open>A run of a queue: accepted input and delivered output are collected.\<close>

datatype 'a fifo_op = Put "'a list" | Get nat

fun fifo_run ::
  "('a list \<Rightarrow> 's \<Rightarrow> 's \<times> nat) \<Rightarrow> (nat \<Rightarrow> 's \<Rightarrow> 's \<times> 'a list) \<Rightarrow>
   's \<Rightarrow> 'a fifo_op list \<Rightarrow> 's \<times> 'a list \<times> 'a list" where
  "fifo_run put get s [] = (s, [], [])"
| "fifo_run put get s (Put d # ops) =
     (case put d s of (s1, k) \<Rightarrow>
      case fifo_run put get s1 ops of (s2, ins, outs) \<Rightarrow> (s2, take k d @ ins, outs))"
| "fifo_run put get s (Get n # ops) =
     (case get n s of (s1, out) \<Rightarrow>
      case fifo_run put get s1 ops of (s2, ins, outs) \<Rightarrow> (s2, ins, out @ outs))"

locale bounded_fifo =
  fixes content :: "'s \<Rightarrow> 'a list"
    and room :: "'s \<Rightarrow> nat"
    and put :: "'a list \<Rightarrow> 's \<Rightarrow> 's \<times> nat"
    and get :: "nat \<Rightarrow> 's \<Rightarrow> 's \<times> 'a list"
    and inv :: "'s \<Rightarrow> bool"
  assumes put_spec: "inv s \<Longrightarrow> put d s = (s', k) \<Longrightarrow>
      inv s' \<and> k = min (length d) (room s) \<and> content s' = content s @ take k d \<and> room s' = room s - k"
    and get_spec: "inv s \<Longrightarrow> get n s = (s', out) \<Longrightarrow>
      inv s' \<and> out = take n (content s) \<and> content s' = drop n (content s) \<and>
      room s' = room s + length out"
begin

lemma run_integrity:
  assumes "inv s" "fifo_run put get s ops = (s', ins, outs)"
  shows "content s @ ins = outs @ content s' \<and> inv s' \<and>
         room s' + length (content s') = room s + length (content s)"
  using assms
proof (induction ops arbitrary: s s' ins outs)
  case Nil
  then show ?case by simp
next
  case (Cons op ops)
  show ?case
  proof (cases op)
    case (Put d)
    obtain s1 k where p: "put d s = (s1, k)" by fastforce
    obtain s2 xi xo where r: "fifo_run put get s1 ops = (s2, xi, xo)" by (metis prod_cases3)
    note spec = put_spec [OF Cons.prems(1) p]
    with Cons.IH [OF _ r] Cons.prems(2) Put p r show ?thesis by auto
  next
    case (Get n)
    obtain s1 out where g: "get n s = (s1, out)" by fastforce
    obtain s2 xi xo where r: "fifo_run put get s1 ops = (s2, xi, xo)" by (metis prod_cases3)
    note spec = get_spec [OF Cons.prems(1) g]
    then have "content s = out @ content s1" by simp
    with spec Cons.IH [OF _ r] Cons.prems(2) Get g r show ?thesis by auto
  qed
qed

lemma run_output_prefix:
  assumes "inv s" "content s = []" "fifo_run put get s ops = (s', ins, outs)"
  shows "ins = outs @ content s'" and "length (content s') \<le> room s"
  using run_integrity [OF assms(1,3)] assms(2) by auto

end

subsection \<open>Lemmas\<close>

lemma push_back_loop_eq:
  "addsize \<le> length data \<Longrightarrow> i \<le> addsize \<Longrightarrow>
   push_back_loop i addsize data buf = buf @ take (addsize - i) (drop i data)"
proof (induction i addsize data buf rule: push_back_loop.induct)
  case (1 i addsize data buf)
  show ?case
  proof (cases "i < addsize")
    case True
    with 1 have "push_back_loop i addsize data buf =
        (buf @ [data ! i]) @ take (addsize - Suc i) (drop (Suc i) data)"
      by (simp add: push_back_loop.simps [of i])
    also have "\<dots> = buf @ take (addsize - i) (drop i data)"
      using True 1 by (simp add: Cons_nth_drop_Suc [symmetric] take_Cons' )
    finally show ?thesis .
  next
    case False
    with 1 show ?thesis by (simp add: push_back_loop.simps [of i])
  qed
qed

declare push_back_loop.simps [simp del]

text \<open>Rules that evaluate the methods on a concrete stream.\<close>

lemmas bs_eval =
  bs_new_def bs_write_def bs_read_def bs_pop_output_def bs_peek_output_def bs_end_input_def
  bs_set_error_def bs_remaining_capacity_def push_back_loop_eq
  add64_def sub64_def mul64_def u64_def Let_def

lemma bs_new_inv [simp]: "capacity < U64 \<Longrightarrow> bs_inv (bs_new capacity)"
  by (simp add: bs_inv_def bs_new_def no_wrap)

lemma bs_inv_bounds:
  "bs_inv s \<Longrightarrow> bs_size s < U64" "bs_inv s \<Longrightarrow> bs_totoalWrite s < U64"
  by (simp_all add: bs_inv_def)

lemma bs_room: "bs_inv s \<Longrightarrow> sub64 (bs_capcity s) (bs_size s) = bs_capcity s - bs_size s"
  by (simp add: bs_inv_def no_wrap)

lemma bs_write_eq:
  assumes "bs_inv s" and k_def: "k = min (length data) (bs_capcity s - bs_size s)"
  shows "bs_write data s =
    (s\<lparr>bs_buffer := bs_buffer s @ take k data, bs_size := bs_size s + k,
       bs_totoalWrite := add64 (bs_totoalWrite s) k\<rparr>, k)"
proof -
  have "bs_size s + k < U64" using assms by (auto simp: bs_inv_def)
  then show ?thesis
    using assms(1) by (simp add: bs_write_def bs_room k_def push_back_loop_eq no_wrap Let_def)
qed

lemma bs_read_eq:
  assumes "bs_inv s"
  shows "bs_read len s =
    (s\<lparr>bs_buffer := drop len (bs_buffer s), bs_size := bs_size s - len,
       bs_totoalRead := add64 (bs_totoalRead s) (min (bs_size s) len)\<rparr>, take len (bs_buffer s))"
proof -
  have "bs_size s = length (bs_buffer s)" "bs_size s < U64"
    using assms by (auto simp: bs_inv_def)
  then show ?thesis
    by (cases "len \<le> bs_size s") (simp_all add: bs_read_def no_wrap Let_def)
qed

lemma bs_pop_output_eq: "bs_pop_output len s = fst (bs_read len s)"
  by (simp add: bs_pop_output_def bs_read_def Let_def)

lemma bs_read_peek: "bs_read len s = (bs_pop_output len s, bs_peek_output len s)"
  by (simp add: bs_pop_output_def bs_read_def bs_peek_output_def Let_def)

lemma bs_write_inv:
  assumes "bs_inv s"
  shows "bs_inv (fst (bs_write data s))"
  using assms by (auto simp: bs_write_eq [OF assms refl] bs_inv_def add64_assoc no_wrap)

lemma bs_read_inv:
  assumes "bs_inv s"
  shows "bs_inv (fst (bs_read len s))"
proof -
  have "min (bs_size s) len + (bs_size s - len) = bs_size s" by simp
  with assms show ?thesis
    by (auto simp: bs_read_eq bs_inv_def add64_assoc no_wrap)
qed

lemma bs_end_input_inv [simp]: "bs_inv (bs_end_input s) = bs_inv s"
  by (simp add: bs_end_input_def bs_inv_def)

lemma bs_set_error_inv [simp]: "bs_inv (bs_set_error s) = bs_inv s"
  by (simp add: bs_set_error_def bs_inv_def)

interpretation bs: bounded_fifo bs_buffer bs_remaining_capacity bs_write bs_read bs_inv
proof unfold_locales
  fix s d s' k
  assume i: "bs_inv s" and w: "bs_write d s = (s', k)"
  then have "bs_inv s'" using bs_write_inv [of s d] by simp
  then have "bs_remaining_capacity s' = bs_capcity s' - bs_size s'"
    by (simp add: bs_remaining_capacity_def bs_room)
  with \<open>bs_inv s'\<close> i w show "bs_inv s' \<and> k = min (length d) (bs_remaining_capacity s) \<and>
      bs_buffer s' = bs_buffer s @ take k d \<and> bs_remaining_capacity s' = bs_remaining_capacity s - k"
    by (auto simp: bs_write_eq [OF _ refl] bs_remaining_capacity_def bs_room)
next
  fix s n s' out
  assume i: "bs_inv s" and r: "bs_read n s = (s', out)"
  then have "bs_inv s'" using bs_read_inv [of s n] by simp
  with i r show "bs_inv s' \<and> out = take n (bs_buffer s) \<and> bs_buffer s' = drop n (bs_buffer s) \<and>
      bs_remaining_capacity s' = bs_remaining_capacity s + length out"
    by (auto simp: bs_read_eq bs_remaining_capacity_def bs_inv_def no_wrap)
qed

subsection \<open>Properties\<close>

text \<open>C40. First-in first-out and flow control: over any sequence of writes and reads on a fresh
  stream, the bytes accepted are exactly the bytes read followed by the bytes still buffered, in
  order, and the stream never holds more than its capacity.\<close>

theorem byte_stream_fifo:
  assumes "capacity < U64"
    and "fifo_run bs_write bs_read (bs_new capacity) ops = (s', ins, outs)"
  shows "ins = outs @ bs_buffer s' \<and> bs_buffer_size s' = length (bs_buffer s') \<and>
         bs_buffer_size s' \<le> capacity \<and> bs_remaining_capacity s' = capacity - bs_buffer_size s'"
proof -
  have inv: "bs_inv (bs_new capacity)" using assms(1) by simp
  have "bs_remaining_capacity (bs_new capacity) = capacity" "bs_buffer (bs_new capacity) = []"
    using assms(1) by (simp_all add: bs_remaining_capacity_def bs_new_def)
  with bs.run_integrity [OF inv assms(2)] show ?thesis
    by (auto simp: bs_inv_def bs_buffer_size_def)
qed

theorem byte_stream_fifo_witness:
  "\<exists>s'. fifo_run bs_write bs_read (bs_new 3) [Put [1, 2], Get 1, Put [3, 4, 5], Get 2] =
     (s', [1, 2, 3, 4], [1, 2, 3]) \<and> [1, 2, 3, 4] = [1, 2, 3] @ bs_buffer s' \<and>
     bs_remaining_capacity s' = 3 - bs_buffer_size s'"
proof -
  have r: "fifo_run bs_write bs_read (bs_new 3) [Put [1, 2], Get 1, Put [3, 4, 5], Get 2] =
     ((bs_new 3)\<lparr>bs_buffer := [4], bs_size := 1, bs_totoalWrite := 4, bs_totoalRead := 3\<rparr>,
      [1, 2, 3, 4], [1, 2, 3])"
    by (simp add: bs_eval cong: prod.case_cong_weak)
  have "(3 :: nat) < U64" by simp
  from r byte_stream_fifo [OF this r] show ?thesis by blast
qed

end
