(* ===== verification/Stream_Reassembler.thy ===== *)
theory Stream_Reassembler
  imports Byte_Stream
begin

text \<open>
  \<^verbatim>\<open>libsponge/stream_reassembler.{hh,cc}\<close>: the reassembler takes excerpts of a byte stream, in
  any order and overlapping, and writes the contiguous prefix to its output stream.
  \<open>stream_reassembler\<close> has the fields of the class, with \<^verbatim>\<open>std::set<node>\<close> as the list of its
  nodes in iteration order; \<open>merge_loop\<close> is the while loop over the set's iterator, and
  \<open>push_substring\<close> the whole method.

  The lemmas relate the reassembler to a stream \<open>S\<close>: if every excerpt pushed is an excerpt of \<open>S\<close>
  then the invariant \<open>sr_inv S\<close> holds (stored segments are disjoint, not adjacent, within the
  window and equal to the bytes of \<open>S\<close>; the output is a prefix of \<open>S\<close>), and the set of indices that the
  reassembler holds grows exactly by the part of the excerpt inside the window.
\<close>

record node =
  start_idx :: nat
  end_idx :: nat
  node_data :: bytes

record stream_reassembler =
  sr_outputStream :: byte_stream
  sr_capacity :: nat
  sr_seg_buffer :: "node list"
  sr_input_end_idx :: nat
  sr_cur_idx :: nat
  sr_unassembled :: nat

subsection \<open>The code\<close>

definition new_node :: "nat \<Rightarrow> bytes \<Rightarrow> node" where
  "new_node index DATA =
     \<lparr>start_idx = index, end_idx = sub64 (add64 index (length DATA)) 1, node_data = DATA\<rparr>"

definition node_less :: "node \<Rightarrow> node \<Rightarrow> bool" where
  "node_less a b =
     (if start_idx a \<noteq> start_idx b then start_idx a < start_idx b else end_idx a < end_idx b)"

definition sr_new :: "nat \<Rightarrow> stream_reassembler" where
  "sr_new capacity =
     \<lparr>sr_outputStream = bs_new capacity, sr_capacity = capacity, sr_seg_buffer = [],
      sr_input_end_idx = 4294967295, sr_cur_idx = 0, sr_unassembled = 0\<rparr>"

definition mergeTo :: "node \<Rightarrow> node \<Rightarrow> node" where
  "mergeTo a b =
     (let b1 = (if start_idx a < start_idx b
                then b\<lparr>node_data := take (sub64 (start_idx b) (start_idx a)) (node_data a) @ node_data b,
                       start_idx := start_idx a\<rparr>
                else b)
      in if end_idx a > end_idx b1
         then b1\<lparr>node_data := node_data b1 @
                   drop (length (node_data a) - sub64 (end_idx a) (end_idx b1)) (node_data a),
                 end_idx := end_idx a\<rparr>
         else b1)"

fun merge_loop :: "node \<Rightarrow> nat \<Rightarrow> node list \<Rightarrow> node \<times> nat \<times> node list" where
  "merge_loop nd unassembled [] = (nd, unassembled, [])"
| "merge_loop nd unassembled (it # its) =
     (if add64 (end_idx it) 1 \<ge> start_idx nd \<and> add64 (end_idx nd) 1 \<ge> start_idx it
      then merge_loop (mergeTo it nd) (sub64 unassembled (length (node_data it))) its
      else if start_idx it > end_idx nd
      then (nd, unassembled, it # its)
      else (case merge_loop nd unassembled its of (nd', un', rest) \<Rightarrow> (nd', un', it # rest)))"

text \<open>Where the loop starts: one before the upper bound of the new node, if there is one.\<close>

definition merge_start :: "node \<Rightarrow> node list \<Rightarrow> node list \<times> node list" where
  "merge_start nd segs =
     (case upper_bound_by node_less nd segs of (ls, rs) \<Rightarrow>
        if ls \<noteq> [] then (butlast ls, last ls # rs) else (ls, rs))"

definition sr_end_if_done :: "stream_reassembler \<Rightarrow> stream_reassembler" where
  "sr_end_if_done r =
     (if sr_cur_idx r \<ge> sr_input_end_idx r
      then r\<lparr>sr_outputStream := bs_end_input (sr_outputStream r)\<rparr> else r)"

text \<open>Cutting the new node to the window between \<open>cur\<close> and \<open>max_idx\<close>.\<close>

definition trim_node :: "nat \<Rightarrow> nat \<Rightarrow> node \<Rightarrow> node" where
  "trim_node cur max_idx nd =
     (let nd1 = (if start_idx nd < cur
                 then nd\<lparr>node_data := drop (sub64 cur (start_idx nd)) (node_data nd), start_idx := cur\<rparr>
                 else nd)
      in if end_idx nd1 > max_idx
         then nd1\<lparr>node_data := take (sub64 (length (node_data nd1)) (sub64 (end_idx nd1) max_idx))
                                    (node_data nd1),
                  end_idx := max_idx\<rparr>
         else nd1)"

text \<open>The part of the method that merges the stored nodes the new node touches, and the part that
  then writes the node to the output stream or stores it.\<close>

definition sr_merge :: "node \<Rightarrow> stream_reassembler \<Rightarrow> node \<times> nat \<times> node list" where
  "sr_merge nd r =
     (let (before, its) =
            (if sr_seg_buffer r \<noteq> [] then merge_start nd (sr_seg_buffer r) else ([], []));
          (nd, unassembled, rest) = merge_loop nd (sr_unassembled r) its
      in (nd, unassembled, before @ rest))"

definition sr_commit :: "node \<Rightarrow> nat \<Rightarrow> node list \<Rightarrow> stream_reassembler \<Rightarrow> stream_reassembler" where
  "sr_commit nd unassembled segs r =
     (if start_idx nd = sr_cur_idx r
      then sr_end_if_done
             (r\<lparr>sr_outputStream := fst (bs_write (node_data nd) (sr_outputStream r)),
                sr_cur_idx := add64 (end_idx nd) 1,
                sr_seg_buffer := segs,
                sr_unassembled := unassembled\<rparr>)
      else r\<lparr>sr_seg_buffer := set_insert_by node_less nd segs,
             sr_unassembled := add64 unassembled (length (node_data nd))\<rparr>)"

definition push_substring :: "bytes \<Rightarrow> nat \<Rightarrow> bool \<Rightarrow> stream_reassembler \<Rightarrow> stream_reassembler" where
  "push_substring data index eof r0 =
     (let cur = sr_cur_idx r0;
          max_idx = sub64 (sub64 (add64 cur (sr_capacity r0)) (bs_buffer_size (sr_outputStream r0))) 1;
          r = (if eof then r0\<lparr>sr_input_end_idx := add64 index (length data)\<rparr> else r0);
          nd = new_node index data
      in if cur > end_idx nd \<or> start_idx nd > max_idx \<or> data = []
         then sr_end_if_done r
         else (case sr_merge (trim_node cur max_idx nd) r of
                 (nd', unassembled, segs) \<Rightarrow> sr_commit nd' unassembled segs r))"

definition sr_unassembled_bytes :: "stream_reassembler \<Rightarrow> nat" where
  "sr_unassembled_bytes r = sr_unassembled r"

definition sr_empty :: "stream_reassembler \<Rightarrow> bool" where
  "sr_empty r \<longleftrightarrow> sr_unassembled r = 0"

text \<open>The application reads from the output stream through \<^verbatim>\<open>stream_out()\<close>.\<close>

definition sr_read :: "nat \<Rightarrow> stream_reassembler \<Rightarrow> stream_reassembler \<times> bytes" where
  "sr_read n r =
     (case bs_read n (sr_outputStream r) of (out, res) \<Rightarrow> (r\<lparr>sr_outputStream := out\<rparr>, res))"

text \<open>A use of the reassembler: excerpts arrive and the application reads; the bytes read are
  collected.\<close>

datatype sr_op = Push bytes nat bool | Read nat

fun sr_exec :: "stream_reassembler \<Rightarrow> sr_op list \<Rightarrow> stream_reassembler \<times> bytes" where
  "sr_exec r [] = (r, [])"
| "sr_exec r (Push data index eof # ops) = sr_exec (push_substring data index eof r) ops"
| "sr_exec r (Read n # ops) =
     (case sr_read n r of (r1, out) \<Rightarrow> case sr_exec r1 ops of (r2, outs) \<Rightarrow> (r2, out @ outs))"

subsection \<open>Specification\<close>

definition chunk :: "'a list \<Rightarrow> nat \<Rightarrow> nat \<Rightarrow> 'a list" where
  "chunk S i j = take (j - i) (drop i S)"

text \<open>An excerpt of the stream \<open>S\<close>; the end mark stands on excerpts that reach the end of \<open>S\<close>.\<close>

definition excerpt :: "bytes \<Rightarrow> bytes \<Rightarrow> nat \<Rightarrow> bool \<Rightarrow> bool" where
  "excerpt S data index eof \<longleftrightarrow>
     index + length data \<le> length S \<and> data = chunk S index (index + length data) \<and>
     (eof \<longrightarrow> index + length data = length S)"

definition node_ok :: "bytes \<Rightarrow> node \<Rightarrow> bool" where
  "node_ok S nd \<longleftrightarrow>
     start_idx nd \<le> Suc (end_idx nd) \<and> end_idx nd < length S \<and>
     node_data nd = chunk S (start_idx nd) (Suc (end_idx nd))"

definition node_span :: "node \<Rightarrow> nat set" where
  "node_span nd = {start_idx nd ..< Suc (end_idx nd)}"

text \<open>\<open>left_of a b\<close>: at least one index lies between the two nodes.\<close>

definition left_of :: "node \<Rightarrow> node \<Rightarrow> bool" where
  "left_of a b \<longleftrightarrow> Suc (end_idx a) < start_idx b"

definition spans :: "node list \<Rightarrow> nat set" where
  "spans nds = (\<Union>nd \<in> set nds. node_span nd)"

definition data_sum :: "node list \<Rightarrow> nat" where
  "data_sum nds = sum_list (map (\<lambda>nd. length (node_data nd)) nds)"

definition sr_room :: "stream_reassembler \<Rightarrow> nat" where
  "sr_room r = sr_capacity r - bs_size (sr_outputStream r)"

text \<open>The indices the reassembler has taken in: those written and those stored.\<close>

definition sr_covered :: "stream_reassembler \<Rightarrow> nat set" where
  "sr_covered r = {..< sr_cur_idx r} \<union> spans (sr_seg_buffer r)"

definition sr_core :: "bytes \<Rightarrow> stream_reassembler \<Rightarrow> bool" where
  "sr_core S r \<longleftrightarrow>
     bs_inv (sr_outputStream r) \<and> bs_capcity (sr_outputStream r) = sr_capacity r \<and>
     0 < sr_capacity r \<and> length S < 4294967295 \<and> length S + sr_capacity r < U64 \<and>
     sr_cur_idx r \<le> length S \<and> bs_totoalWrite (sr_outputStream r) = sr_cur_idx r \<and>
     bs_size (sr_outputStream r) \<le> sr_cur_idx r \<and>
     bs_buffer (sr_outputStream r) =
       chunk S (sr_cur_idx r - bs_size (sr_outputStream r)) (sr_cur_idx r) \<and>
     (\<forall>nd \<in> set (sr_seg_buffer r). node_ok S nd \<and> start_idx nd \<le> end_idx nd \<and>
        sr_cur_idx r < start_idx nd \<and> end_idx nd < sr_cur_idx r + sr_room r) \<and>
     sorted_wrt left_of (sr_seg_buffer r) \<and>
     sr_unassembled r = data_sum (sr_seg_buffer r) \<and>
     sr_input_end_idx r \<in> {length S, 4294967295}"

definition sr_inv :: "bytes \<Rightarrow> stream_reassembler \<Rightarrow> bool" where
  "sr_inv S r \<longleftrightarrow> sr_core S r \<and>
     (bs_inputEnd (sr_outputStream r) \<longleftrightarrow> sr_input_end_idx r \<le> sr_cur_idx r)"

lemma sr_coreD:
  assumes "sr_core S r"
  shows "bs_inv (sr_outputStream r)" "bs_capcity (sr_outputStream r) = sr_capacity r"
    "0 < sr_capacity r" "length S < 4294967295" "length S + sr_capacity r < U64"
    "sr_cur_idx r \<le> length S" "bs_totoalWrite (sr_outputStream r) = sr_cur_idx r"
    "bs_size (sr_outputStream r) \<le> sr_cur_idx r"
    "bs_buffer (sr_outputStream r) = chunk S (sr_cur_idx r - bs_size (sr_outputStream r)) (sr_cur_idx r)"
    "\<forall>nd \<in> set (sr_seg_buffer r). node_ok S nd \<and> start_idx nd \<le> end_idx nd \<and>
        sr_cur_idx r < start_idx nd \<and> end_idx nd < sr_cur_idx r + sr_room r"
    "sorted_wrt left_of (sr_seg_buffer r)" "sr_unassembled r = data_sum (sr_seg_buffer r)"
    "sr_input_end_idx r \<in> {length S, 4294967295}"
    "bs_size (sr_outputStream r) \<le> sr_capacity r"
proof -
  have "bs_inv (sr_outputStream r)" "bs_capcity (sr_outputStream r) = sr_capacity r"
    using assms unfolding sr_core_def by blast+
  then show "bs_size (sr_outputStream r) \<le> sr_capacity r" by (metis bs_inv_def)
qed (use assms in \<open>unfold sr_core_def, blast+\<close>)

subsection \<open>The interface\<close>

text \<open>
  What the receiver relies on: a push of an excerpt takes in exactly the part of it inside the window,
  the contiguous prefix is as long as it can be, and the end of the stream is reported once it is
  known and everything has arrived.
\<close>

definition fed :: "(bytes \<times> nat \<times> bool) list \<Rightarrow> nat set" where
  "fed ps = (\<Union>(d, i, e) \<in> set ps. {i ..< i + length d})"

fun feed :: "(bytes \<Rightarrow> nat \<Rightarrow> bool \<Rightarrow> 'r \<Rightarrow> 'r) \<Rightarrow> (bytes \<times> nat \<times> bool) list \<Rightarrow> 'r \<Rightarrow> 'r" where
  "feed push [] r = r"
| "feed push ((d, i, e) # ps) r = feed push ps (push d i e r)"

locale excerpt_assembler =
  fixes inv :: "bytes \<Rightarrow> 'r \<Rightarrow> bool"
    and push :: "bytes \<Rightarrow> nat \<Rightarrow> bool \<Rightarrow> 'r \<Rightarrow> 'r"
    and covered :: "'r \<Rightarrow> nat set"
    and limit :: "'r \<Rightarrow> nat"
    and cur :: "'r \<Rightarrow> nat"
    and end_known :: "'r \<Rightarrow> bool"
    and ended :: "'r \<Rightarrow> bool"
  assumes push_inv: "inv S r \<Longrightarrow> excerpt S d i e \<Longrightarrow> inv S (push d i e r)"
    and push_covered: "inv S r \<Longrightarrow> excerpt S d i e \<Longrightarrow>
      covered (push d i e r) = covered r \<union> ({i ..< i + length d} \<inter> {..< limit r})"
    and push_limit: "inv S r \<Longrightarrow> excerpt S d i e \<Longrightarrow> limit (push d i e r) = limit r"
    and push_end: "inv S r \<Longrightarrow> excerpt S d i e \<Longrightarrow> end_known (push d i e r) = (end_known r \<or> e)"
    and cur_least: "inv S r \<Longrightarrow> {..< cur r} \<subseteq> covered r \<and> cur r \<notin> covered r"
    and cur_bound: "inv S r \<Longrightarrow> cur r \<le> length S"
    and ended_iff: "inv S r \<Longrightarrow> ended r \<longleftrightarrow> end_known r \<and> cur r = length S"
begin

lemma feed_spec:
  assumes "inv S r" "\<forall>(d, i, e) \<in> set ps. excerpt S d i e"
  shows "inv S (feed push ps r) \<and> covered (feed push ps r) = covered r \<union> (fed ps \<inter> {..< limit r}) \<and>
    limit (feed push ps r) = limit r \<and>
    end_known (feed push ps r) = (end_known r \<or> (\<exists>(d, i, e) \<in> set ps. e))"
  using assms
proof (induction ps arbitrary: r)
  case Nil
  then show ?case by (simp add: fed_def)
next
  case (Cons p ps)
  obtain d i e where p: "p = (d, i, e)" by (metis prod_cases3)
  with Cons.prems have "excerpt S d i e" by simp
  with Cons p show ?case
    by (auto simp: push_inv push_covered push_limit push_end fed_def)
qed

lemma feed_complete:
  assumes "inv S r" "\<forall>(d, i, e) \<in> set ps. excerpt S d i e"
    and "{..< length S} \<subseteq> covered r \<union> fed ps" "length S \<le> limit r"
  shows "cur (feed push ps r) = length S"
proof -
  note f = feed_spec [OF assms(1,2)]
  have "{..< length S} \<subseteq> covered (feed push ps r)" using f assms(3,4) by auto
  then have "\<not> cur (feed push ps r) < length S" using f cur_least [of S] by auto
  with f cur_bound [of S] show ?thesis by (meson le_antisym not_le)
qed

lemma feed_order_irrelevant:
  assumes "inv S r" "\<forall>(d, i, e) \<in> set ps. excerpt S d i e" "\<forall>(d, i, e) \<in> set qs. excerpt S d i e"
    and "fed ps = fed qs"
  shows "cur (feed push ps r) = cur (feed push qs r)"
proof -
  have "covered (feed push ps r) = covered (feed push qs r)"
    using feed_spec [OF assms(1,2)] feed_spec [OF assms(1,3)] assms(4) by simp
  moreover have "cur a = cur b" if "inv S a" "inv S b" "covered a = covered b" for a b
    using cur_least [OF that(1)] cur_least [OF that(2)] that(3)
    by (metis lessThan_iff linorder_neqE_nat subsetD)
  ultimately show ?thesis using feed_spec [OF assms(1,2)] feed_spec [OF assms(1,3)] by blast
qed

end

subsection \<open>Chunks of the stream\<close>

lemma chunk_append: "i \<le> j \<Longrightarrow> j \<le> k \<Longrightarrow> chunk S i j @ chunk S j k = chunk S i k"
proof -
  assume "i \<le> j" "j \<le> k"
  then have "drop (j - i) (drop i S) = drop j S" "k - i = (j - i) + (k - j)" by simp_all
  then show ?thesis unfolding chunk_def by (simp only: take_add)
qed

lemma take_chunk: "take n (chunk S i j) = chunk S i (min (i + n) j)"
proof -
  have "min n (j - i) = min (i + n) j - i" by arith
  then show ?thesis by (simp add: chunk_def)
qed

lemma drop_chunk: "drop n (chunk S i j) = chunk S (i + n) j"
  by (simp add: chunk_def drop_take add.commute diff_diff_eq)

lemma length_chunk: "length (chunk S i j) = min j (length S) - i"
  by (auto simp: chunk_def min_def)

lemma chunk_empty [simp]: "chunk S i i = []"
  by (simp add: chunk_def)

lemma chunk_full: "chunk S 0 (length S) = S"
  by (simp add: chunk_def)

lemma chunk_prefix: "chunk S 0 n = take n S"
  by (simp add: chunk_def)

subsection \<open>Nodes\<close>

lemma node_ok_length:
  "node_ok S nd \<Longrightarrow> length (node_data nd) = Suc (end_idx nd) - start_idx nd"
  by (auto simp: node_ok_def length_chunk)

text \<open>Two nodes touch when no index lies between them.\<close>

definition touching :: "node \<Rightarrow> node \<Rightarrow> bool" where
  "touching a b \<longleftrightarrow> start_idx b \<le> Suc (end_idx a) \<and> start_idx a \<le> Suc (end_idx b)"

lemma touching_iff:
  assumes "end_idx a < length S" "end_idx b < length S" "length S < U64"
  shows "add64 (end_idx a) 1 \<ge> start_idx b \<and> add64 (end_idx b) 1 \<ge> start_idx a \<longleftrightarrow> touching a b"
  using assms by (simp add: touching_def no_wrap)

lemma mergeTo_ok:
  assumes "node_ok S a" "node_ok S b" "touching a b" "length S < U64"
  shows "node_ok S (mergeTo a b)"
    and "start_idx (mergeTo a b) = min (start_idx a) (start_idx b)"
    and "end_idx (mergeTo a b) = max (end_idx a) (end_idx b)"
proof -
  define b1 where "b1 = (if start_idx a < start_idx b
      then b\<lparr>node_data := take (sub64 (start_idx b) (start_idx a)) (node_data a) @ node_data b,
             start_idx := start_idx a\<rparr> else b)"
  have b1: "start_idx b1 = min (start_idx a) (start_idx b)" "end_idx b1 = end_idx b"
    "node_data b1 = chunk S (start_idx b1) (Suc (end_idx b))" "start_idx b1 \<le> Suc (end_idx b)"
    using assms by (auto simp: b1_def node_ok_def touching_def no_wrap take_chunk min_def chunk_append)
  have eq: "mergeTo a b = (if end_idx a > end_idx b1
         then b1\<lparr>node_data := node_data b1 @
                   drop (length (node_data a) - sub64 (end_idx a) (end_idx b1)) (node_data a),
                 end_idx := end_idx a\<rparr> else b1)"
    by (simp add: mergeTo_def b1_def Let_def)
  have len: "length (node_data a) = Suc (end_idx a) - start_idx a"
    by (rule node_ok_length) fact
  show "start_idx (mergeTo a b) = min (start_idx a) (start_idx b)"
    and "end_idx (mergeTo a b) = max (end_idx a) (end_idx b)"
    using b1 by (auto simp: eq)
  show "node_ok S (mergeTo a b)"
  proof (cases "end_idx a > end_idx b")
    case True
    with assms len have "drop (length (node_data a) - sub64 (end_idx a) (end_idx b)) (node_data a)
        = chunk S (Suc (end_idx b)) (Suc (end_idx a))"
      by (simp add: node_ok_def touching_def no_wrap drop_chunk)
    with True b1 assms show ?thesis
      by (auto simp: eq node_ok_def chunk_append)
  next
    case False
    with b1 assms show ?thesis by (auto simp: eq node_ok_def)
  qed
qed

text \<open>The copied ranges of \<^verbatim>\<open>mergeTo\<close> lie inside the other node's data.\<close>

lemma mergeTo_in_bounds:
  assumes "node_ok S a" "node_ok S b" "touching a b" "length S < U64"
  shows "start_idx a < start_idx b \<Longrightarrow> sub64 (start_idx b) (start_idx a) \<le> length (node_data a)"
    and "end_idx a > end_idx b \<Longrightarrow> sub64 (end_idx a) (end_idx b) \<le> length (node_data a)"
  using assms node_ok_length [OF assms(1)] by (auto simp: touching_def node_ok_def no_wrap)

lemma touching_span:
  assumes "touching a b" "start_idx a \<le> Suc (end_idx a)" "start_idx b \<le> Suc (end_idx b)"
  shows "{min (start_idx a) (start_idx b) ..< Suc (max (end_idx a) (end_idx b))} =
         node_span a \<union> node_span b"
  using assms by (auto simp: touching_def node_span_def)

lemma spans_simps [simp]:
  "spans [] = {}" "spans (x # xs) = node_span x \<union> spans xs" "spans (xs @ ys) = spans xs \<union> spans ys"
  by (auto simp: spans_def)

lemma data_sum_simps [simp]:
  "data_sum [] = 0" "data_sum (x # xs) = length (node_data x) + data_sum xs"
  "data_sum (xs @ ys) = data_sum xs + data_sum ys"
  by (auto simp: data_sum_def)

subsection \<open>The merge loop\<close>

text \<open>What the loop returns, given the node \<open>nd\<close> and the stored nodes \<open>its\<close> it walks over: the node
  grown by everything it touches, and the nodes left in the set.\<close>

definition merged :: "bytes \<Rightarrow> node \<Rightarrow> nat \<Rightarrow> node list \<Rightarrow> node \<times> nat \<times> node list \<Rightarrow> bool" where
  "merged S nd un its = (\<lambda>(nd', un', rest).
    node_ok S nd' \<and> node_span nd' \<union> spans rest = node_span nd \<union> spans its \<and>
    un' + data_sum its = un + data_sum rest \<and>
    set rest \<subseteq> set its \<and> sorted_wrt left_of rest \<and>
    (\<forall>x \<in> set rest. left_of x nd' \<or> left_of nd' x) \<and>
    (\<forall>l. l \<le> start_idx nd \<and> (\<forall>x \<in> set its. l \<le> start_idx x) \<longrightarrow> l \<le> start_idx nd') \<and>
    (\<forall>u. end_idx nd < u \<and> (\<forall>x \<in> set its. end_idx x < u) \<longrightarrow> end_idx nd' < u) \<and>
    start_idx nd' \<le> start_idx nd \<and> end_idx nd \<le> end_idx nd')"

lemma merged_touch:
  assumes "merged S m (un - length (node_data it)) its res"
    and "start_idx m = min (start_idx it) (start_idx nd)" "end_idx m = max (end_idx it) (end_idx nd)"
    and "node_span m = node_span it \<union> node_span nd" "length (node_data it) \<le> un"
  shows "merged S nd un (it # its) res"
proof -
  obtain nd' un' rest where res: "res = (nd', un', rest)" by (cases res)
  show ?thesis
    using assms unfolding merged_def res prod.case
    by (intro conjI; (elim conjE)?) (auto simp del: Un_iff)
qed

lemma merged_stop:
  assumes "node_ok S nd" "sorted_wrt left_of its" "\<forall>x \<in> set its. left_of nd x"
  shows "merged S nd un its (nd, un, its)"
  using assms by (auto simp: merged_def)

lemma merged_skip:
  assumes "merged S nd un its (nd', un', rest)" "left_of it nd" "\<forall>x \<in> set its. left_of it x"
  shows "merged S nd un (it # its) (nd', un', it # rest)"
proof -
  have lb: "\<forall>l. l \<le> start_idx nd \<and> (\<forall>x \<in> set its. l \<le> start_idx x) \<longrightarrow> l \<le> start_idx nd'"
    using assms(1) by (simp add: merged_def)
  have "left_of it nd'"
    using lb [rule_format, of "Suc (Suc (end_idx it))"] assms(2,3)
    by (simp add: left_of_def Suc_le_eq)
  with assms show ?thesis unfolding merged_def by auto
qed

lemma left_of_trans:
  "left_of a b \<Longrightarrow> start_idx b \<le> Suc (end_idx b) \<Longrightarrow> left_of b c \<Longrightarrow> left_of a c"
  by (simp add: left_of_def)

lemma merge_loop_spec:
  assumes "length S < U64" "node_ok S nd" "\<forall>x \<in> set its. node_ok S x \<and> start_idx x \<le> end_idx x"
    and "sorted_wrt left_of its" "data_sum its \<le> un" "un < U64"
  shows "merged S nd un its (merge_loop nd un its)"
  using assms
proof (induction nd un its rule: merge_loop.induct)
  case (1 nd un)
  then show ?case by (simp add: merged_stop)
next
  case (2 nd un it its)
  have it: "node_ok S it" "start_idx it \<le> end_idx it" using "2.prems" by auto
  have bounds: "end_idx it < length S" "end_idx nd < length S" "start_idx nd \<le> Suc (end_idx nd)"
    using it "2.prems"(2) by (auto simp: node_ok_def)
  note tch = touching_iff [OF bounds(1,2) \<open>length S < U64\<close>]
  have prems: "\<forall>x \<in> set its. node_ok S x \<and> start_idx x \<le> end_idx x" "sorted_wrt left_of its"
    "\<forall>x \<in> set its. left_of it x" "data_sum its \<le> un - length (node_data it)" "data_sum its \<le> un"
    "length (node_data it) \<le> un"
    using "2.prems" by auto
  show ?case
  proof (cases "touching it nd")
    case True
    note m = mergeTo_ok [OF it(1) \<open>node_ok S nd\<close> True \<open>length S < U64\<close>]
    have un: "sub64 un (length (node_data it)) = un - length (node_data it)"
      using "2.prems"(6) prems(6) by (simp add: no_wrap)
    have "node_span (mergeTo it nd) = node_span it \<union> node_span nd"
      using touching_span [OF True] it bounds unfolding node_span_def m(2,3) by simp
    moreover have "merged S (mergeTo it nd) (un - length (node_data it)) its
        (merge_loop (mergeTo it nd) (un - length (node_data it)) its)"
      using "2.IH"(1) [OF tch [THEN iffD2, OF True], unfolded un] "2.prems"(1,6) m(1) prems by simp
    ultimately show ?thesis
      using merged_touch [OF _ m(2,3)] tch True un prems(6) by simp
  next
    case False
    then have nt: "\<not> (add64 (end_idx it) 1 \<ge> start_idx nd \<and> add64 (end_idx nd) 1 \<ge> start_idx it)"
      using tch by blast
    show ?thesis
    proof (cases "start_idx it > end_idx nd")
      case True
      with False bounds it have "left_of nd it" by (auto simp: touching_def left_of_def)
      then have "\<forall>x \<in> set (it # its). left_of nd x"
        using prems(3) it(2) left_of_trans by (metis le_SucI set_ConsD)
      then have "merged S nd un (it # its) (nd, un, it # its)"
        using "2.prems"(2,4) by (simp add: merged_stop)
      then show ?thesis using nt True by (simp only: merge_loop.simps if_False if_True)
    next
      case right: False
      with False have "left_of it nd" by (auto simp: touching_def left_of_def)
      moreover have "merged S nd un its (merge_loop nd un its)"
        using "2.IH"(2) [OF nt right] "2.prems"(1,2,6) prems by simp
      ultimately show ?thesis
        using merged_skip [OF _ _ prems(3)] nt right by (auto split: prod.split)
    qed
  qed
qed

subsection \<open>The ordered set of nodes\<close>

lemma separated_upper_bound:
  assumes ub: "upper_bound_by node_less nd xs = (ls, rs)"
    and xs: "sorted_wrt left_of xs" "\<forall>x \<in> set xs. start_idx x \<le> end_idx x"
  shows "xs = ls @ rs" "\<forall>x \<in> set ls. start_idx x \<le> start_idx nd"
    "\<forall>x \<in> set rs. start_idx nd \<le> start_idx x"
proof -
  show eq: "xs = ls @ rs" by (rule takeWhile_upper_bound_split [OF ub])
  show "\<forall>x \<in> set ls. start_idx x \<le> start_idx nd"
    using upper_bound_left [OF ub] by (fastforce simp: node_less_def split: if_splits)
  show "\<forall>x \<in> set rs. start_idx nd \<le> start_idx x"
  proof (cases rs)
    case (Cons r rs')
    then have "start_idx nd \<le> start_idx r"
      using upper_bound_right [of node_less nd xs ls r rs'] ub
      by (auto simp: node_less_def split: if_splits)
    with Cons xs eq show ?thesis by (fastforce simp: left_of_def sorted_wrt_append)
  qed simp
qed

lemma set_insert_separated:
  assumes xs: "sorted_wrt left_of xs" "\<forall>x \<in> set xs. start_idx x \<le> end_idx x"
    and nd: "start_idx nd \<le> end_idx nd" "\<forall>x \<in> set xs. left_of x nd \<or> left_of nd x"
  shows "sorted_wrt left_of (set_insert_by node_less nd xs)"
    and "set (set_insert_by node_less nd xs) = insert nd (set xs)"
    and "spans (set_insert_by node_less nd xs) = node_span nd \<union> spans xs"
    and "data_sum (set_insert_by node_less nd xs) = length (node_data nd) + data_sum xs"
proof -
  obtain ls rs where ub: "upper_bound_by node_less nd xs = (ls, rs)" by fastforce
  note u = separated_upper_bound [OF ub xs]
  have l: "\<forall>x \<in> set ls. left_of x nd" and r: "\<forall>x \<in> set rs. left_of nd x"
    using u nd xs(2) by (force simp: left_of_def)+
  have "node_less (last ls) nd" if "ls \<noteq> []"
  proof -
    have "last ls \<in> set ls" using that by simp
    with l xs(2) u(1) have "left_of (last ls) nd" "start_idx (last ls) \<le> end_idx (last ls)" by auto
    then show ?thesis by (simp add: node_less_def left_of_def)
  qed
  then have eq: "set_insert_by node_less nd xs = ls @ nd # rs"
    by (auto simp: set_insert_by_def ub)
  show "sorted_wrt left_of (set_insert_by node_less nd xs)"
    unfolding eq using xs(1) [unfolded u(1)] l r by (auto simp: sorted_wrt_append)
  show "set (set_insert_by node_less nd xs) = insert nd (set xs)"
    and "spans (set_insert_by node_less nd xs) = node_span nd \<union> spans xs"
    and "data_sum (set_insert_by node_less nd xs) = length (node_data nd) + data_sum xs"
    unfolding eq using u(1) by auto
qed

text \<open>The loop starts late enough: nodes before its start stay to the left of the new node.\<close>

lemma merge_start_spec:
  assumes "merge_start nd xs = (before, its)" "xs \<noteq> []"
    and xs: "sorted_wrt left_of xs" "\<forall>x \<in> set xs. start_idx x \<le> end_idx x"
  shows "xs = before @ its" "\<forall>x \<in> set before. left_of x nd"
proof -
  obtain ls rs where ub: "upper_bound_by node_less nd xs = (ls, rs)" by fastforce
  note u = separated_upper_bound [OF ub xs]
  show "xs = before @ its"
    using assms(1) ub u(1) by (auto simp: merge_start_def split: if_splits)
  show "\<forall>x \<in> set before. left_of x nd"
  proof (cases "ls = []")
    case False
    then have b: "before = butlast ls" and sp: "ls = butlast ls @ [last ls]"
      using assms(1) ub by (auto simp: merge_start_def)
    have "sorted_wrt left_of (butlast ls @ [last ls])" using xs(1) u(1) sp
      by (metis sorted_wrt_append)
    then have "\<forall>x \<in> set before. left_of x (last ls)" by (simp add: b sorted_wrt_append)
    moreover have "start_idx (last ls) \<le> start_idx nd" using u(2) False by simp
    ultimately show ?thesis by (fastforce simp: left_of_def)
  qed (use assms(1) ub in \<open>auto simp: merge_start_def\<close>)
qed

subsection \<open>The window\<close>

lemma trim_node_spec:
  assumes "index < Suc e" "cur \<le> e" "index \<le> m" "cur \<le> Suc m" "e < length S" "length S < U64" "m < U64"
    and nd: "nd = \<lparr>start_idx = index, end_idx = e, node_data = chunk S index (Suc e)\<rparr>"
  shows "node_ok S (trim_node cur m nd)"
    and "start_idx (trim_node cur m nd) = max index cur" "end_idx (trim_node cur m nd) = min e m"
proof -
  define nd1 where "nd1 = (if start_idx nd < cur
      then nd\<lparr>node_data := drop (sub64 cur (start_idx nd)) (node_data nd), start_idx := cur\<rparr> else nd)"
  have nd1: "start_idx nd1 = max index cur" "end_idx nd1 = e"
    "node_data nd1 = chunk S (max index cur) (Suc e)"
    using assms by (auto simp: nd1_def no_wrap drop_chunk max_def)
  have len: "length (node_data nd1) = Suc e - max index cur"
    using nd1(3) assms by (simp add: length_chunk)
  have eq: "trim_node cur m nd = (if end_idx nd1 > m
         then nd1\<lparr>node_data := take (sub64 (length (node_data nd1)) (sub64 (end_idx nd1) m)) (node_data nd1),
                  end_idx := m\<rparr> else nd1)"
    by (simp add: trim_node_def nd1_def Let_def)
  show "start_idx (trim_node cur m nd) = max index cur" "end_idx (trim_node cur m nd) = min e m"
    using nd1 by (auto simp: eq)
  have "node_data (trim_node cur m nd) = chunk S (max index cur) (Suc (min e m))"
  proof (cases "e > m")
    case True
    have "sub64 (Suc e - max index cur) (sub64 e m) = Suc m - max index cur"
      using True assms(1-7) by (subst (2) sub64_id) (auto simp: sub64_id max_def)
    with True assms(1-7) nd1 len show ?thesis
      by (simp add: eq take_chunk)
  qed (simp add: eq nd1)
  moreover have "max index cur \<le> Suc (min e m)" using assms by auto
  ultimately show "node_ok S (trim_node cur m nd)"
    unfolding node_ok_def
    using \<open>start_idx (trim_node cur m nd) = max index cur\<close>
      \<open>end_idx (trim_node cur m nd) = min e m\<close> assms by simp
qed

subsection \<open>Counting stored bytes\<close>

lemma finite_spans [simp]: "finite (spans nds)"
  by (auto simp: spans_def node_span_def)

lemma data_sum_card:
  assumes "sorted_wrt left_of nds" "\<forall>x \<in> set nds. node_ok S x \<and> start_idx x \<le> end_idx x"
  shows "data_sum nds = card (spans nds)"
  using assms
proof (induction nds)
  case Nil
  show ?case by simp
next
  case (Cons x xs)
  have "node_span x \<inter> spans xs = {}"
    using Cons.prems by (fastforce simp: spans_def node_span_def left_of_def)
  then have "card (spans (x # xs)) = card (node_span x) + card (spans xs)"
    by (simp add: card_Un_disjoint node_span_def)
  moreover have "card (node_span x) = length (node_data x)"
    using Cons.prems by (simp add: node_span_def node_ok_length [of S])
  ultimately show ?case using Cons by simp
qed

lemma sr_core_data_sum:
  assumes "sr_core S r"
  shows "sr_unassembled r = card (spans (sr_seg_buffer r))" "sr_unassembled r \<le> sr_room r"
proof -
  have c: "data_sum (sr_seg_buffer r) = card (spans (sr_seg_buffer r))"
    using assms by (intro data_sum_card [of _ S]) (auto simp: sr_core_def)
  then show "sr_unassembled r = card (spans (sr_seg_buffer r))"
    using assms by (simp add: sr_core_def)
  have "spans (sr_seg_buffer r) \<subseteq> {sr_cur_idx r ..< sr_cur_idx r + sr_room r}"
    using assms by (fastforce simp: sr_core_def spans_def node_span_def)
  then have "card (spans (sr_seg_buffer r)) \<le> sr_room r"
    using card_mono [of "{sr_cur_idx r ..< sr_cur_idx r + sr_room r}"] by simp
  with c assms show "sr_unassembled r \<le> sr_room r" by (simp add: sr_core_def)
qed

lemma sr_core_room: "sr_core S r \<Longrightarrow> sr_room r < U64"
  by (auto simp: sr_core_def sr_room_def)

lemma merged_skips:
  assumes "merged S nd un its (nd', un', rest)" "\<forall>x \<in> set before. left_of x nd"
    and "sorted_wrt left_of (before @ its)"
  shows "merged S nd un (before @ its) (nd', un', before @ rest)"
  using assms(2,3)
proof (induction before)
  case Nil
  show ?case using assms(1) by simp
next
  case (Cons x before)
  then have "merged S nd un (before @ its) (nd', un', before @ rest)" by simp
  then show ?case using Cons.prems merged_skip [of S nd un "before @ its"] by auto
qed

lemma sr_merge_spec:
  assumes core: "sr_core S r" and nd: "node_ok S nd"
  shows "merged S nd (sr_unassembled r) (sr_seg_buffer r) (sr_merge nd r)"
proof -
  let ?segs = "sr_seg_buffer r"
  have segs: "\<forall>x \<in> set ?segs. node_ok S x \<and> start_idx x \<le> end_idx x" "sorted_wrt left_of ?segs"
    and un: "data_sum ?segs = sr_unassembled r" "sr_unassembled r < U64" and S: "length S < U64"
    using core sr_core_data_sum(2) [OF core] sr_core_room [OF core] by (auto simp: sr_core_def)
  obtain before its where bi:
    "(if ?segs \<noteq> [] then merge_start nd ?segs else ([], [])) = (before, its)" by fastforce
  have b: "?segs = before @ its" "\<forall>x \<in> set before. left_of x nd"
    using merge_start_spec [of nd ?segs before its] bi segs by (cases "?segs = []"; auto)+
  obtain nd' un' rest where m: "merge_loop nd (sr_unassembled r) its = (nd', un', rest)"
    by (metis prod_cases3)
  have "merged S nd (sr_unassembled r) its (nd', un', rest)"
    using merge_loop_spec [OF S nd, of its "sr_unassembled r"] segs un b(1) m
    by (auto simp: sorted_wrt_append)
  then have "merged S nd (sr_unassembled r) (before @ its) (nd', un', before @ rest)"
    using b segs(2) by (intro merged_skips) simp_all
  then show ?thesis using bi m b(1) by (simp add: sr_merge_def)
qed

subsection \<open>Committing the merged node\<close>

lemma sr_end_if_done_inv:
  assumes "sr_core S r" "bs_inputEnd (sr_outputStream r) \<longrightarrow> sr_input_end_idx r \<le> sr_cur_idx r"
  shows "sr_inv S (sr_end_if_done r)" "sr_covered (sr_end_if_done r) = sr_covered r"
    "sr_cur_idx (sr_end_if_done r) = sr_cur_idx r" "sr_room (sr_end_if_done r) = sr_room r"
    "sr_capacity (sr_end_if_done r) = sr_capacity r"
    "sr_input_end_idx (sr_end_if_done r) = sr_input_end_idx r"
proof -
  have end_core: "sr_core S (r\<lparr>sr_outputStream := bs_end_input (sr_outputStream r)\<rparr>) = sr_core S r"
    by (simp add: sr_core_def sr_room_def bs_end_input_def bs_inv_def)
  show "sr_inv S (sr_end_if_done r)"
  proof (cases "sr_input_end_idx r \<le> sr_cur_idx r")
    case True
    then show ?thesis using assms(1) end_core
      by (simp add: sr_inv_def sr_end_if_done_def) (simp add: bs_end_input_def)
  next
    case False
    then show ?thesis using assms by (simp add: sr_inv_def sr_end_if_done_def)
  qed
qed (simp_all add: sr_end_if_done_def sr_covered_def sr_room_def bs_end_input_def)

lemma deliver_core:
  assumes core: "sr_core S r" and nd: "node_ok S nd" "start_idx nd = sr_cur_idx r"
    and M: "end_idx nd < sr_cur_idx r + sr_room r" and un: "un = data_sum segs"
    and segs: "sorted_wrt left_of segs" "\<forall>x \<in> set segs. left_of nd x" "set segs \<subseteq> set (sr_seg_buffer r)"
  defines "r' \<equiv> r\<lparr>sr_outputStream := fst (bs_write (node_data nd) (sr_outputStream r)),
                sr_cur_idx := add64 (end_idx nd) 1, sr_seg_buffer := segs, sr_unassembled := un\<rparr>"
  shows "sr_core S r'" "sr_cur_idx r' = Suc (end_idx nd)"
    "sr_cur_idx r' + sr_room r' = sr_cur_idx r + sr_room r"
    "bs_inputEnd (sr_outputStream r') = bs_inputEnd (sr_outputStream r)"
proof -
  let ?o = "sr_outputStream r" and ?cur = "sr_cur_idx r"
  define k where "k = length (node_data nd)"
  note c = sr_coreD [OF core]
  have bs: "bs_inv ?o" "bs_capcity ?o = sr_capacity r" "bs_size ?o \<le> bs_capcity ?o"
    and cur: "bs_size ?o \<le> ?cur" "bs_totoalWrite ?o = ?cur" "length S + sr_capacity r < U64"
    and buf: "bs_buffer ?o = chunk S (?cur - bs_size ?o) ?cur"
    using c by simp_all
  have k: "k = Suc (end_idx nd) - ?cur" "?cur \<le> Suc (end_idx nd)" "end_idx nd < length S"
    using node_ok_length [OF nd(1)] nd by (auto simp: k_def node_ok_def)
  have kr: "k \<le> bs_capcity ?o - bs_size ?o" using k M bs by (simp add: sr_room_def)
  have w: "fst (bs_write (node_data nd) ?o) =
      ?o\<lparr>bs_buffer := bs_buffer ?o @ node_data nd, bs_size := bs_size ?o + k,
         bs_totoalWrite := Suc (end_idx nd)\<rparr>"
  proof -
    have "min (length (node_data nd)) (bs_capcity ?o - bs_size ?o) = k" using kr by (simp add: k_def)
    moreover have "add64 (bs_totoalWrite ?o) k = Suc (end_idx nd)"
      using k cur by (simp add: no_wrap)
    moreover have "take k (node_data nd) = node_data nd" by (simp add: k_def)
    ultimately show ?thesis unfolding bs_write_eq [OF bs(1) refl] by simp
  qed
  have binv: "bs_inv (fst (bs_write (node_data nd) ?o))" by (rule bs_write_inv [OF bs(1)])
  have cur': "add64 (end_idx nd) 1 = Suc (end_idx nd)" using k(3) cur(3) by (simp add: no_wrap)
  then show "sr_cur_idx r' = Suc (end_idx nd)" by (simp add: r'_def)
  show room: "sr_cur_idx r' + sr_room r' = ?cur + sr_room r"
    using k kr bs cur' by (simp add: r'_def sr_room_def w)
  have "bs_buffer ?o @ node_data nd = chunk S (?cur - bs_size ?o) (Suc (end_idx nd))"
    using buf nd k(2) by (simp add: node_ok_def chunk_append)
  moreover have "Suc (end_idx nd) - (bs_size ?o + k) = ?cur - bs_size ?o" using k cur by simp
  moreover have "\<forall>x \<in> set segs. node_ok S x \<and> start_idx x \<le> end_idx x \<and>
      Suc (end_idx nd) < start_idx x \<and> end_idx x < ?cur + sr_room r"
    using c(10) segs by (auto simp: left_of_def)
  ultimately show "sr_core S r'"
    using c(1-6,13) k(3) cur(1) un segs(1) binv room cur' unfolding sr_core_def
    by (simp add: r'_def w) (simp add: k)
  show "bs_inputEnd (sr_outputStream r') = bs_inputEnd ?o" by (simp add: r'_def w)
qed

lemma sr_commit_spec:
  assumes core: "sr_core S r" "bs_inputEnd (sr_outputStream r) \<longrightarrow> sr_input_end_idx r \<le> sr_cur_idx r"
    and m: "merged S nd (sr_unassembled r) (sr_seg_buffer r) (nd', un, segs)"
    and nd: "sr_cur_idx r \<le> start_idx nd" "end_idx nd < sr_cur_idx r + sr_room r"
      "sr_cur_idx r < start_idx nd \<longrightarrow> start_idx nd \<le> end_idx nd"
  shows "sr_inv S (sr_commit nd' un segs r)"
    and "sr_covered (sr_commit nd' un segs r) = sr_covered r \<union> node_span nd"
    and "sr_cur_idx (sr_commit nd' un segs r) + sr_room (sr_commit nd' un segs r) = sr_cur_idx r + sr_room r"
    and "sr_input_end_idx (sr_commit nd' un segs r) = sr_input_end_idx r"
    and "sr_capacity (sr_commit nd' un segs r) = sr_capacity r"
proof -
  let ?cur = "sr_cur_idx r" and ?M = "sr_cur_idx r + sr_room r"
  have inv: "\<forall>x \<in> set (sr_seg_buffer r). node_ok S x \<and> start_idx x \<le> end_idx x \<and> ?cur < start_idx x \<and>
      end_idx x < ?M"
    and ud: "sr_unassembled r = data_sum (sr_seg_buffer r)"
    and S: "sr_input_end_idx r \<in> {length S, 4294967295}" "length S < 4294967295"
    using sr_coreD [OF core(1)] by simp_all
  have ok: "node_ok S nd'" and span: "node_span nd' \<union> spans segs = node_span nd \<union> spans (sr_seg_buffer r)"
    and un: "un = data_sum segs"
    and segs: "set segs \<subseteq> set (sr_seg_buffer r)" "sorted_wrt left_of segs"
      "\<forall>x \<in> set segs. left_of x nd' \<or> left_of nd' x"
    and lb: "\<And>l. l \<le> start_idx nd \<Longrightarrow> \<forall>x \<in> set (sr_seg_buffer r). l \<le> start_idx x \<Longrightarrow> l \<le> start_idx nd'"
    and ub: "\<And>u. end_idx nd < u \<Longrightarrow> \<forall>x \<in> set (sr_seg_buffer r). end_idx x < u \<Longrightarrow> end_idx nd' < u"
    and grow: "start_idx nd' \<le> start_idx nd" "end_idx nd \<le> end_idx nd'"
    using m ud unfolding merged_def by auto
  have cur: "?cur \<le> start_idx nd'" using lb [of ?cur] nd inv by (simp add: less_imp_le)
  have M: "end_idx nd' < ?M" using ub [of ?M] nd inv by simp
  let ?r' = "sr_commit nd' un segs r"
  have "sr_inv S ?r' \<and> sr_covered ?r' = sr_covered r \<union> node_span nd \<and>
      sr_cur_idx ?r' + sr_room ?r' = ?M \<and> sr_input_end_idx ?r' = sr_input_end_idx r \<and>
      sr_capacity ?r' = sr_capacity r"
  proof (cases "start_idx nd' = ?cur")
    case True
    have right: "\<forall>x \<in> set segs. left_of nd' x"
      using segs inv True by (force simp: left_of_def)
    note d = deliver_core [OF core(1) ok True M un segs(2) right segs(1)]
    have "{..< ?cur} \<union> node_span nd' = {..< Suc (end_idx nd')}"
      using True ok by (auto simp: node_span_def node_ok_def)
    with span have cov: "{..< Suc (end_idx nd')} \<union> spans segs = sr_covered r \<union> node_span nd"
      unfolding sr_covered_def by blast
    let ?d = "r\<lparr>sr_outputStream := fst (bs_write (node_data nd') (sr_outputStream r)),
        sr_cur_idx := add64 (end_idx nd') 1, sr_seg_buffer := segs, sr_unassembled := un\<rparr>"
    have "?cur \<le> Suc (end_idx nd')" using True ok by (simp add: node_ok_def)
    then have "bs_inputEnd (sr_outputStream ?d) \<longrightarrow> sr_input_end_idx ?d \<le> sr_cur_idx ?d"
      using core(2) unfolding d(2,4) by auto
    note e = sr_end_if_done_inv [OF d(1) this]
    have "?r' = sr_end_if_done ?d" by (simp add: sr_commit_def True)
    moreover have "sr_covered ?d = sr_covered r \<union> node_span nd"
      using cov d(2) by (simp add: sr_covered_def)
    ultimately show ?thesis using e d(3) by simp
  next
    case False
    have ne: "start_idx nd' \<le> end_idx nd'" using False cur grow nd by auto
    note ins = set_insert_separated [OF segs(2) _ ne segs(3)]
    have sne: "\<forall>x \<in> set segs. start_idx x \<le> end_idx x" using segs(1) inv by auto
    have "un + length (node_data nd') < U64"
    proof -
      have "data_sum (set_insert_by node_less nd' segs) = card (spans (set_insert_by node_less nd' segs))"
        using ins [OF sne] ok ne segs(1) inv by (intro data_sum_card [of _ S]) auto
      also have "\<dots> \<le> card {..< ?M}"
      proof (intro card_mono)
        have "end_idx x < ?M" if "x \<in> set segs" for x using that segs(1) inv by blast
        then show "spans (set_insert_by node_less nd' segs) \<subseteq> {..< ?M}"
          unfolding ins(3) [OF sne] using M by (fastforce simp: spans_def node_span_def)
      qed simp
      finally show ?thesis
        using ins(4) [OF sne] un sr_coreD(5,6) [OF core(1)] by (simp add: sr_room_def)
    qed
    then have un': "add64 un (length (node_data nd')) = data_sum (set_insert_by node_less nd' segs)"
      using ins(4) [OF sne] un by (simp add: no_wrap)
    have "?cur < sr_input_end_idx r" using S False cur ok ne by (auto simp: node_ok_def)
    moreover have "\<forall>x \<in> set (set_insert_by node_less nd' segs). node_ok S x \<and> start_idx x \<le> end_idx x \<and>
        ?cur < start_idx x \<and> end_idx x < ?M"
      unfolding ins(2) [OF sne] using segs(1) inv ok ne False cur M by auto
    ultimately have "sr_inv S ?r'"
      using core(2) sr_coreD [OF core(1)] ins(1) [OF sne] un' False
      unfolding sr_inv_def sr_core_def by (simp add: sr_commit_def sr_room_def)
    moreover have "sr_covered ?r' = sr_covered r \<union> node_span nd"
      using ins(3) [OF sne] span False by (auto simp: sr_commit_def sr_covered_def)
    ultimately show ?thesis using False by (simp add: sr_commit_def sr_room_def)
  qed
  then show "sr_inv S ?r'" "sr_covered ?r' = sr_covered r \<union> node_span nd"
    "sr_cur_idx ?r' + sr_room ?r' = ?M" "sr_input_end_idx ?r' = sr_input_end_idx r"
    "sr_capacity ?r' = sr_capacity r" by simp_all
qed

subsection \<open>The methods keep the invariant\<close>

text \<open>The window ends before \<open>sr_limit\<close>; bytes from there on are discarded.\<close>

definition sr_limit :: "stream_reassembler \<Rightarrow> nat" where
  "sr_limit r = sr_cur_idx r + sr_room r"

definition sr_end_known :: "stream_reassembler \<Rightarrow> bool" where
  "sr_end_known r \<longleftrightarrow> sr_input_end_idx r \<noteq> 4294967295"

lemma sr_window:
  assumes "sr_core S r"
  shows "sub64 (sub64 (add64 (sr_cur_idx r) (sr_capacity r)) (bs_buffer_size (sr_outputStream r))) 1
         = sr_limit r - 1" "0 < sr_limit r"
proof -
  note c = sr_coreD [OF assms]
  have "sr_limit r = sr_cur_idx r + sr_capacity r - bs_size (sr_outputStream r)"
    using c(14) by (simp add: sr_limit_def sr_room_def)
  moreover show pos: "0 < sr_limit r" using c(3,8,14) by (auto simp: sr_limit_def sr_room_def)
  moreover have "sr_cur_idx r + sr_capacity r < U64" using c(5,6) by simp
  ultimately show "sub64 (sub64 (add64 (sr_cur_idx r) (sr_capacity r))
      (bs_buffer_size (sr_outputStream r))) 1 = sr_limit r - 1"
    using c(14) by (simp add: bs_buffer_size_def no_wrap)
qed

lemma push_end_idx:
  assumes inv: "sr_inv S r" and ex: "excerpt S data index eof"
  defines "r1 \<equiv> (if eof then r\<lparr>sr_input_end_idx := add64 index (length data)\<rparr> else r)"
  shows "sr_core S r1" "bs_inputEnd (sr_outputStream r1) \<longrightarrow> sr_input_end_idx r1 \<le> sr_cur_idx r1"
    "sr_input_end_idx r1 = (if eof then length S else sr_input_end_idx r)"
    "sr_covered r1 = sr_covered r" "sr_limit r1 = sr_limit r" "sr_cur_idx r1 = sr_cur_idx r"
    "sr_room r1 = sr_room r" "sr_seg_buffer r1 = sr_seg_buffer r"
    "sr_unassembled r1 = sr_unassembled r" "sr_capacity r1 = sr_capacity r"
proof -
  have core: "sr_core S r" and e: "bs_inputEnd (sr_outputStream r) \<longleftrightarrow> sr_input_end_idx r \<le> sr_cur_idx r"
    using inv by (simp_all add: sr_inv_def)
  note c = sr_coreD [OF core]
  have e1: "sr_input_end_idx r1 = (if eof then length S else sr_input_end_idx r)"
    using ex c(5) by (simp add: r1_def excerpt_def no_wrap)
  then show "sr_input_end_idx r1 = (if eof then length S else sr_input_end_idx r)" .
  show "sr_core S r1"
    using core e1 unfolding sr_core_def by (cases eof) (simp_all add: r1_def sr_room_def)
  show "bs_inputEnd (sr_outputStream r1) \<longrightarrow> sr_input_end_idx r1 \<le> sr_cur_idx r1"
    using e e1 c(4,6,13) by (auto simp: r1_def)
qed (simp_all add: r1_def sr_covered_def sr_limit_def sr_room_def)

lemma push_substring_eq:
  assumes "sr_core S r"
  shows "push_substring data index eof r =
      (let r1 = (if eof then r\<lparr>sr_input_end_idx := add64 index (length data)\<rparr> else r) in
       if sr_cur_idx r > end_idx (new_node index data) \<or>
          start_idx (new_node index data) > sr_limit r - 1 \<or> data = []
       then sr_end_if_done r1
       else (case sr_merge (trim_node (sr_cur_idx r) (sr_limit r - 1) (new_node index data)) r1 of
          (nd', un, segs) \<Rightarrow> sr_commit nd' un segs r1))"
  unfolding push_substring_def Let_def sr_window [OF assms] ..

lemma excerpt_node:
  assumes "excerpt S data index eof" "data \<noteq> []" "length S < U64" "e = index + length data - 1"
  shows "index < Suc e" "index + length data = Suc e" "e < length S"
    and "new_node index data = \<lparr>start_idx = index, end_idx = e, node_data = chunk S index (Suc e)\<rparr>"
proof -
  have l: "0 < length data" "index + length data \<le> length S" and d: "data = chunk S index (index + length data)"
    using assms by (simp_all add: excerpt_def)
  show e: "index < Suc e" "index + length data = Suc e" "e < length S" using l assms(4) by linarith+
  have "sub64 (add64 index (length data)) 1 = e"
    using e assms(3) by (simp add: no_wrap)
  with d e(2) show "new_node index data = \<lparr>start_idx = index, end_idx = e, node_data = chunk S index (Suc e)\<rparr>"
    by (simp add: new_node_def)
qed

text \<open>The specification of one push.\<close>

definition push_ok :: "bytes \<Rightarrow> bytes \<Rightarrow> nat \<Rightarrow> bool \<Rightarrow> stream_reassembler \<Rightarrow> stream_reassembler \<Rightarrow> bool" where
  "push_ok S data index eof r r' \<longleftrightarrow>
    sr_inv S r' \<and>
    sr_covered r' = sr_covered r \<union> ({index ..< index + length data} \<inter> {..< sr_limit r}) \<and>
    sr_limit r' = sr_limit r \<and>
    sr_input_end_idx r' = (if eof then length S else sr_input_end_idx r) \<and>
    sr_capacity r' = sr_capacity r"

lemma push_discard:
  assumes inv: "sr_inv S r" and ex: "excerpt S data index eof"
    and sub: "{index ..< index + length data} \<inter> {..< sr_limit r} \<subseteq> sr_covered r"
  defines "r1 \<equiv> (if eof then r\<lparr>sr_input_end_idx := add64 index (length data)\<rparr> else r)"
  shows "push_ok S data index eof r (sr_end_if_done r1)"
proof -
  note p = push_end_idx [OF inv ex, folded r1_def]
  show ?thesis
    using sr_end_if_done_inv [OF p(1,2)] p sub by (auto simp: push_ok_def sr_limit_def)
qed

lemma push_accept:
  assumes inv: "sr_inv S r" and ex: "excerpt S data index eof" and ne: "data \<noteq> []"
    and acc: "sr_cur_idx r \<le> e" "index \<le> sr_limit r - 1" and e_def: "e = index + length data - 1"
    and r1_def: "r1 = (if eof then r\<lparr>sr_input_end_idx := add64 index (length data)\<rparr> else r)"
    and m: "sr_merge (trim_node (sr_cur_idx r) (sr_limit r - 1) (new_node index data)) r1 = (nd', un, segs)"
  shows "push_ok S data index eof r (sr_commit nd' un segs r1)"
proof -
  note p = push_end_idx [OF inv ex, folded r1_def]
  note c = sr_coreD [OF p(1)]
  have core: "sr_core S r" using inv by (simp add: sr_inv_def)
  have w: "0 < sr_limit r" by (rule sr_window(2) [OF core])
  have "length S < U64" using c(5) by simp
  note e = excerpt_node(1-3) [OF ex ne this e_def] and nd = excerpt_node(4) [OF ex ne this e_def]
  let ?cur = "sr_cur_idx r" and ?m = "sr_limit r - 1"
  let ?t = "trim_node ?cur ?m (new_node index data)"
  have "?cur \<le> Suc ?m" "?m < U64" using w c(5,6) by (auto simp: sr_limit_def sr_room_def p)
  then have t: "node_ok S ?t" "start_idx ?t = max index ?cur" "end_idx ?t = min e ?m"
    using trim_node_spec [OF e(1) _ _ _ e(3) _ _ nd, of ?cur ?m] acc c(5) by auto
  have cm: "merged S ?t (sr_unassembled r1) (sr_seg_buffer r1) (nd', un, segs)"
    using sr_merge_spec [OF p(1) t(1)] m by simp
  have "sr_cur_idx r1 \<le> start_idx ?t" "end_idx ?t < sr_cur_idx r1 + sr_room r1"
    "sr_cur_idx r1 < start_idx ?t \<longrightarrow> start_idx ?t \<le> end_idx ?t"
    using t p acc w e by (auto simp: sr_limit_def)
  note k = sr_commit_spec [OF p(1,2) cm this]
  have "sr_covered r \<union> node_span ?t = sr_covered r \<union> ({index ..< Suc e} \<inter> {..< sr_limit r})"
    unfolding node_span_def t sr_covered_def using w by auto
  then show ?thesis using k p e(2) by (simp add: push_ok_def sr_limit_def)
qed

lemma push_substring_spec:
  assumes inv: "sr_inv S r" and ex: "excerpt S data index eof"
  shows "push_ok S data index eof r (push_substring data index eof r)"
proof -
  have core: "sr_core S r" using inv by (simp add: sr_inv_def)
  note push = push_substring_eq [OF core, of data index eof]
  define e where "e = index + length data - 1"
  define r1 where "r1 = (if eof then r\<lparr>sr_input_end_idx := add64 index (length data)\<rparr> else r)"
  have S: "length S < U64" using sr_coreD(5) [OF core] by simp
  consider "data = []" | "data \<noteq> []" "sr_cur_idx r > e \<or> index > sr_limit r - 1"
    | "data \<noteq> []" "sr_cur_idx r \<le> e" "index \<le> sr_limit r - 1" by fastforce
  then show ?thesis
  proof cases
    case 1
    with push_discard [OF inv ex] show ?thesis unfolding push Let_def by simp
  next
    case 2
    note nd = excerpt_node(4) [OF ex 2(1) S e_def]
    have "{index ..< index + length data} \<inter> {..< sr_limit r} \<subseteq> sr_covered r"
      using 2 sr_window(2) [OF core] by (auto simp: sr_covered_def e_def)
    from push_discard [OF inv ex this] 2 nd show ?thesis unfolding push Let_def by simp
  next
    case 3
    note nd = excerpt_node(4) [OF ex 3(1) S e_def]
    obtain nd' un segs where
      m: "sr_merge (trim_node (sr_cur_idx r) (sr_limit r - 1) (new_node index data)) r1 = (nd', un, segs)"
      by (metis prod_cases3)
    have "push_substring data index eof r = sr_commit nd' un segs r1"
      unfolding push Let_def r1_def [symmetric] m using 3 nd by simp
    with push_accept [OF inv ex 3 e_def r1_def m] show ?thesis by simp
  qed
qed

lemma sr_new_inv:
  "0 < capacity \<Longrightarrow> length S < 4294967295 \<Longrightarrow> length S + capacity < U64 \<Longrightarrow> sr_inv S (sr_new capacity)"
  by (simp add: sr_inv_def sr_core_def sr_new_def bs_inv_def bs_new_def no_wrap)

lemma sr_read_spec:
  assumes inv: "sr_inv S r" and r': "sr_read n r = (r', out)"
  shows "sr_inv S r'" "sr_covered r' = sr_covered r" "sr_limit r \<le> sr_limit r'"
    "sr_cur_idx r' = sr_cur_idx r" "sr_input_end_idx r' = sr_input_end_idx r"
    "sr_capacity r' = sr_capacity r"
    "bs_buffer (sr_outputStream r) = out @ bs_buffer (sr_outputStream r')"
proof -
  have core: "sr_core S r" using inv by (simp add: sr_inv_def)
  note c = sr_coreD [OF core]
  let ?o = "sr_outputStream r"
  have eq: "r' = r\<lparr>sr_outputStream := fst (bs_read n ?o)\<rparr>" "out = take n (bs_buffer ?o)"
    using r' by (simp_all add: sr_read_def bs_read_eq [OF c(1)])
  have binv: "bs_inv (fst (bs_read n ?o))" by (rule bs_read_inv [OF c(1)])
  have size: "bs_size ?o = length (bs_buffer ?o)" using c(1) by (simp add: bs_inv_def)
  have "drop n (bs_buffer ?o) = chunk S (sr_cur_idx r - (bs_size ?o - n)) (sr_cur_idx r)"
  proof (cases "n \<le> bs_size ?o")
    case True
    then have "sr_cur_idx r - bs_size ?o + n = sr_cur_idx r - (bs_size ?o - n)" using c(8) by simp
    then show ?thesis unfolding c(9) drop_chunk by simp
  next
    case False
    then show ?thesis using size by simp
  qed
  moreover have "sr_room r \<le> sr_room r'" by (simp add: eq sr_room_def bs_read_eq [OF c(1)])
  moreover have "\<forall>nd \<in> set (sr_seg_buffer r). end_idx nd < sr_cur_idx r + sr_room r'"
    using c(10) \<open>sr_room r \<le> sr_room r'\<close> by auto
  ultimately have "sr_core S r'"
    using c(2-14) binv unfolding sr_core_def by (simp add: eq(1) bs_read_eq [OF c(1)])
  then show "sr_inv S r'" using inv by (simp add: sr_inv_def eq(1) bs_read_eq [OF c(1)])
  show "bs_buffer (sr_outputStream r) = out @ bs_buffer (sr_outputStream r')"
    by (simp add: eq bs_read_eq [OF c(1)])
  show "sr_limit r \<le> sr_limit r'" using \<open>sr_room r \<le> sr_room r'\<close> by (simp add: sr_limit_def eq)
qed (use r' in \<open>auto simp: sr_read_def sr_covered_def split: prod.splits\<close>)

subsection \<open>The reassembler is an assembler of excerpts\<close>

lemma sr_cur_least: "sr_inv S r \<Longrightarrow> {..< sr_cur_idx r} \<subseteq> sr_covered r \<and> sr_cur_idx r \<notin> sr_covered r"
  unfolding sr_inv_def using sr_coreD(10)
  by (fastforce simp: sr_covered_def spans_def node_span_def)

lemma sr_ended_iff:
  assumes "sr_inv S r"
  shows "bs_input_ended (sr_outputStream r) \<longleftrightarrow> sr_end_known r \<and> sr_cur_idx r = length S"
proof -
  note c = sr_coreD [of S r]
  show ?thesis
    using assms c(4,6,13) by (auto simp: sr_inv_def bs_input_ended_def sr_end_known_def)
qed

interpretation reasm: excerpt_assembler sr_inv push_substring sr_covered sr_limit sr_cur_idx
  sr_end_known "\<lambda>r. bs_input_ended (sr_outputStream r)"
proof unfold_locales
  fix S r d i e
  assume a: "sr_inv S r" "excerpt S d i e"
  note p = push_substring_spec [OF a, unfolded push_ok_def]
  show "sr_inv S (push_substring d i e r)" using p by blast
  show "sr_covered (push_substring d i e r) = sr_covered r \<union> ({i ..< i + length d} \<inter> {..< sr_limit r})"
    using p by blast
  show "sr_limit (push_substring d i e r) = sr_limit r" using p by blast
  show "sr_end_known (push_substring d i e r) = (sr_end_known r \<or> e)"
    using p a(1) sr_coreD(4) [of S r] by (auto simp: sr_end_known_def sr_inv_def)
next
  fix S r
  assume i: "sr_inv S r"
  show "{..< sr_cur_idx r} \<subseteq> sr_covered r \<and> sr_cur_idx r \<notin> sr_covered r" by (rule sr_cur_least [OF i])
  show "sr_cur_idx r \<le> length S" using i sr_coreD(6) by (auto simp: sr_inv_def)
  show "bs_input_ended (sr_outputStream r) \<longleftrightarrow> sr_end_known r \<and> sr_cur_idx r = length S"
    by (rule sr_ended_iff [OF i])
qed

lemma sr_limit_capacity:
  assumes "sr_inv S r"
  shows "sr_limit r + bs_size (sr_outputStream r) = sr_cur_idx r + sr_capacity r"
  using assms sr_coreD(14) [of S r] by (simp add: sr_inv_def sr_limit_def sr_room_def)

lemma sr_buffer_prefix:
  assumes "sr_inv S r"
  shows "take (sr_cur_idx r - bs_size (sr_outputStream r)) S @ bs_buffer (sr_outputStream r) =
    take (sr_cur_idx r) S"
  using assms sr_coreD(9) [of S r] by (simp add: sr_inv_def chunk_append flip: chunk_prefix)

lemma sr_exec_spec:
  assumes "sr_inv S r" "\<forall>d i e. Push d i e \<in> set ops \<longrightarrow> excerpt S d i e" "sr_exec r ops = (r', outs)"
  shows "sr_inv S r' \<and> sr_capacity r' = sr_capacity r \<and>
    take (sr_cur_idx r - bs_size (sr_outputStream r)) S @ outs @ bs_buffer (sr_outputStream r') =
     take (sr_cur_idx r') S \<and>
    sr_end_known r' = (sr_end_known r \<or> (\<exists>d i. Push d i True \<in> set ops))"
  using assms
proof (induction ops arbitrary: r r' outs)
  case Nil
  then show ?case using sr_buffer_prefix [of S r'] by simp
next
  case (Cons op ops)
  show ?case
  proof (cases op)
    case (Push d i e)
    with Cons.prems have ex: "excerpt S d i e" by simp
    let ?r1 = "push_substring d i e r"
    note p = push_substring_spec [OF Cons.prems(1) ex, unfolded push_ok_def]
    have "sr_cur_idx ?r1 - bs_size (sr_outputStream ?r1) = sr_cur_idx r - bs_size (sr_outputStream r)"
      using sr_limit_capacity [OF Cons.prems(1)] sr_limit_capacity [of S ?r1] p by simp
    moreover have "sr_end_known ?r1 = (sr_end_known r \<or> e)"
      by (rule reasm.push_end [OF Cons.prems(1) ex])
    ultimately show ?thesis
      using Cons.IH [of ?r1 r' outs] Cons.prems Push p by auto
  next
    case (Read n)
    obtain r1 out outs' where r1: "sr_read n r = (r1, out)" "sr_exec r1 ops = (r', outs')"
      "outs = out @ outs'"
      using Cons.prems(3) Read by (auto split: prod.splits)
    note d = sr_read_spec [OF Cons.prems(1) r1(1)]
    have "take (sr_cur_idx r - bs_size (sr_outputStream r)) S @ out =
        take (sr_cur_idx r1 - bs_size (sr_outputStream r1)) S"
      using sr_buffer_prefix [OF Cons.prems(1)] sr_buffer_prefix [OF d(1)] d(4,7)
      by (metis append_assoc append_same_eq)
    with Cons.IH [OF d(1) _ r1(2)] Cons.prems(2) r1(3) d(5,6) Read show ?thesis
      by (simp add: sr_end_known_def) (metis append.assoc)
  qed
qed

lemma sr_storage:
  assumes "sr_inv S r"
  shows "sr_unassembled_bytes r = card (sr_covered r - {..< sr_cur_idx r})"
    and "sr_unassembled_bytes r + bs_buffer_size (sr_outputStream r) \<le> sr_capacity r"
    and "sr_empty r \<longleftrightarrow> sr_seg_buffer r = []"
proof -
  have core: "sr_core S r" using assms by (simp add: sr_inv_def)
  note c = sr_coreD [OF core]
  have "sr_covered r - {..< sr_cur_idx r} = spans (sr_seg_buffer r)"
    using c(10) by (fastforce simp: sr_covered_def spans_def node_span_def)
  with sr_core_data_sum [OF core] c(14)
  show "sr_unassembled_bytes r = card (sr_covered r - {..< sr_cur_idx r})"
    "sr_unassembled_bytes r + bs_buffer_size (sr_outputStream r) \<le> sr_capacity r"
    by (simp_all add: sr_unassembled_bytes_def bs_buffer_size_def sr_room_def)
  show "sr_empty r \<longleftrightarrow> sr_seg_buffer r = []"
  proof (cases "sr_seg_buffer r")
    case Nil
    then show ?thesis using c(12) by (simp add: sr_empty_def)
  next
    case (Cons a as)
    with c(10) have "0 < length (node_data a)" using node_ok_length [of S a] by simp
    with Cons c(12) show ?thesis by (simp add: sr_empty_def)
  qed
qed

lemma sr_exec_pushes:
  "sr_exec r (map (\<lambda>(d, i, e). Push d i e) ps) = (feed push_substring ps r, [])"
proof (induction ps arbitrary: r)
  case (Cons p ps)
  then show ?case by (cases p) simp
qed simp

lemmas sr_eval = new_node_def node_less_def sr_new_def mergeTo_def merge_start_def sr_end_if_done_def
  trim_node_def sr_merge_def sr_commit_def push_substring_def sr_read_def bs_eval bs_accessors Let_def
  upper_bound_by_def set_insert_by_def

subsection \<open>The history as a reference\<close>

text \<open>What has arrived, computed from the calls alone and without the reassembler: the indices of the bytes that came while they were in the window,
  whether the end mark has come, and how many bytes have been read.  The window begins at the bytes read and is as long as the capacity; a read takes
  what is asked for, up to the first index that is missing.\<close>

record arrivals =
  ar_held :: "nat set"
  ar_end :: bool
  ar_read :: nat

definition first_gap :: "nat set \<Rightarrow> nat" where
  "first_gap A = (LEAST n. n \<notin> A)"

definition arrivals_new :: arrivals where
  "arrivals_new = \<lparr>ar_held = {}, ar_end = False, ar_read = 0\<rparr>"

definition ar_push :: "nat \<Rightarrow> bytes \<Rightarrow> nat \<Rightarrow> bool \<Rightarrow> arrivals \<Rightarrow> arrivals" where
  "ar_push capacity data index eof a =
     a\<lparr>ar_held := ar_held a \<union> ({index ..< index + length data} \<inter> {..< ar_read a + capacity}), ar_end := ar_end a \<or> eof\<rparr>"

definition ar_take :: "nat \<Rightarrow> arrivals \<Rightarrow> arrivals" where
  "ar_take n a = a\<lparr>ar_read := ar_read a + min n (first_gap (ar_held a) - ar_read a)\<rparr>"

fun ar_exec :: "nat \<Rightarrow> arrivals \<Rightarrow> sr_op list \<Rightarrow> arrivals" where
  "ar_exec capacity a [] = a"
| "ar_exec capacity a (Push data index eof # ops) = ar_exec capacity (ar_push capacity data index eof a) ops"
| "ar_exec capacity a (Read n # ops) = ar_exec capacity (ar_take n a) ops"

text \<open>The simulation: the reassembler holds what has arrived.\<close>

definition sr_sim :: "bytes \<Rightarrow> stream_reassembler \<Rightarrow> arrivals \<Rightarrow> bool" where
  "sr_sim S r a \<longleftrightarrow>
     sr_inv S r \<and> sr_covered r = ar_held a \<and> sr_limit r = ar_read a + sr_capacity r \<and> sr_end_known r = ar_end a"

lemma first_gap_eq: "{..< n} \<subseteq> A \<Longrightarrow> n \<notin> A \<Longrightarrow> first_gap A = n"
  unfolding first_gap_def by (rule Least_equality) (auto simp: not_less [symmetric])

lemma sr_sim_gap:
  assumes "sr_sim S r a"
  shows "first_gap (ar_held a) = sr_cur_idx r" "ar_read a + bs_size (sr_outputStream r) = sr_cur_idx r"
    "bs_input_ended (sr_outputStream r) \<longleftrightarrow> ar_end a \<and> first_gap (ar_held a) = length S"
proof -
  have inv: "sr_inv S r" using assms by (simp add: sr_sim_def)
  show gap: "first_gap (ar_held a) = sr_cur_idx r"
    using sr_cur_least [OF inv] assms by (intro first_gap_eq) (simp_all add: sr_sim_def)
  show "ar_read a + bs_size (sr_outputStream r) = sr_cur_idx r" using sr_limit_capacity [OF inv] assms by (simp add: sr_sim_def)
  show "bs_input_ended (sr_outputStream r) \<longleftrightarrow> ar_end a \<and> first_gap (ar_held a) = length S"
    using sr_ended_iff [OF inv] assms by (simp add: gap sr_sim_def)
qed

lemma sr_sim_new:
  "0 < capacity \<Longrightarrow> length S < 4294967295 \<Longrightarrow> length S + capacity < U64 \<Longrightarrow> sr_sim S (sr_new capacity) arrivals_new"
  using sr_new_inv [of capacity S]
  by (simp add: sr_sim_def arrivals_new_def)
    (simp add: sr_new_def sr_covered_def sr_limit_def sr_room_def sr_end_known_def bs_new_def spans_def)

lemma sr_sim_push:
  assumes "sr_sim S r a" "excerpt S data index eof"
  shows "sr_sim S (push_substring data index eof r) (ar_push (sr_capacity r) data index eof a)"
    "sr_capacity (push_substring data index eof r) = sr_capacity r"
proof -
  have inv: "sr_inv S r" using assms(1) by (simp add: sr_sim_def)
  note p = push_substring_spec [OF inv assms(2), unfolded push_ok_def]
  show "sr_capacity (push_substring data index eof r) = sr_capacity r" using p by blast
  then show "sr_sim S (push_substring data index eof r) (ar_push (sr_capacity r) data index eof a)"
    using assms(1) p reasm.push_end [OF inv assms(2)] by (simp add: sr_sim_def ar_push_def)
qed

lemma sr_sim_read:
  assumes sim: "sr_sim S r a" and r': "sr_read n r = (r', out)"
  shows "sr_sim S r' (ar_take n a)" "sr_capacity r' = sr_capacity r"
proof -
  have inv: "sr_inv S r" using sim by (simp add: sr_sim_def)
  note d = sr_read_spec [OF inv r']
  show "sr_capacity r' = sr_capacity r" by (rule d(6))
  have bs: "bs_inv (sr_outputStream r)" using inv sr_coreD(1) by (auto simp: sr_inv_def)
  then have "bs_size (sr_outputStream r') = bs_size (sr_outputStream r) - n"
    using r' by (auto simp: sr_read_def bs_read_eq)
  moreover have "sr_limit r' + bs_size (sr_outputStream r') = sr_cur_idx r + sr_capacity r"
    using sr_limit_capacity [OF d(1)] d(4,6) by simp
  ultimately have "sr_limit r' = ar_read (ar_take n a) + sr_capacity r"
    using sr_sim_gap(1,2) [OF sim] by (simp add: ar_take_def)
  then show "sr_sim S r' (ar_take n a)" using sim d(1,2,5,6) by (simp add: sr_sim_def ar_take_def sr_end_known_def)
qed

lemma sr_sim_exec:
  assumes "sr_sim S r a" "\<forall>d i e. Push d i e \<in> set ops \<longrightarrow> excerpt S d i e" "sr_exec r ops = (r', outs)"
  shows "sr_sim S r' (ar_exec (sr_capacity r) a ops)"
  using assms
proof (induction ops arbitrary: r a outs)
  case (Cons op ops)
  show ?case
  proof (cases op)
    case (Push d i e)
    then show ?thesis using Cons.IH [of "push_substring d i e r"] Cons.prems sr_sim_push [OF Cons.prems(1), of d i e] by simp
  next
    case (Read n)
    then obtain r1 out outs' where r1: "sr_read n r = (r1, out)" "sr_exec r1 ops = (r', outs')"
      using Cons.prems(3) by (auto split: prod.splits)
    note d = sr_sim_read [OF Cons.prems(1) r1(1)]
    show ?thesis using Cons.IH [OF d(1) _ r1(2)] Cons.prems(2) d(2) Read by simp
  qed
qed simp

subsection \<open>Properties\<close>

text \<open>C11. Integrity of reassembly: whatever excerpts of a stream arrive, in whatever order and overlap,
  and however the application interleaves its reads, the bytes read so far followed by the bytes
  buffered are the stream up to the first index that has not arrived while it was in the window, as the history of the calls tells;
  the bytes stored beyond it are exactly those that have arrived; and the output is marked as ended exactly when an excerpt with the end
  mark has come and the whole stream has arrived.\<close>

theorem reassembler_integrity:
  assumes "0 < capacity" "length S < 4294967295" "length S + capacity < U64"
    and "\<forall>d i e. Push d i e \<in> set ops \<longrightarrow> excerpt S d i e"
    and "sr_exec (sr_new capacity) ops = (r, outs)"
    and "A = ar_held (ar_exec capacity arrivals_new ops)"
  shows "outs @ bs_buffer (sr_outputStream r) = take (first_gap A) S \<and>
    outs = take (ar_read (ar_exec capacity arrivals_new ops)) S \<and>
    bs_bytes_written (sr_outputStream r) = first_gap A \<and>
    sr_unassembled_bytes r = card (A - {..< first_gap A}) \<and>
    (bs_input_ended (sr_outputStream r) \<longleftrightarrow> (\<exists>d i. Push d i True \<in> set ops) \<and> first_gap A = length S)"
proof -
  let ?a = "ar_exec capacity arrivals_new ops"
  have sim: "sr_sim S r ?a"
    using sr_sim_exec [OF sr_sim_new [OF assms(1-3)] assms(4,5)] by (simp add: sr_new_def)
  then have inv: "sr_inv S r" by (simp add: sr_sim_def)
  note g = sr_sim_gap [OF sim, folded assms(6)]
  have "sr_inv S (sr_new capacity)" by (rule sr_new_inv [OF assms(1-3)])
  note e = sr_exec_spec [OF this assms(4,5)]
  have all: "outs @ bs_buffer (sr_outputStream r) = take (sr_cur_idx r) S" using e by (simp add: sr_new_def bs_new_def)
  have "take (sr_cur_idx r - bs_size (sr_outputStream r)) S @ bs_buffer (sr_outputStream r) = take (sr_cur_idx r) S"
    by (rule sr_buffer_prefix [OF inv])
  moreover have "sr_cur_idx r - bs_size (sr_outputStream r) = ar_read ?a" using g(2) by simp
  ultimately have "outs = take (ar_read ?a) S" using all by (metis append_same_eq)
  moreover have "bs_bytes_written (sr_outputStream r) = sr_cur_idx r"
    using inv sr_coreD(7) [of S r] by (simp add: sr_inv_def bs_bytes_written_def)
  moreover have "sr_unassembled_bytes r = card (A - {..< sr_cur_idx r})"
    using sr_storage(1) [OF inv] sim assms(6) by (simp add: sr_sim_def)
  moreover have "ar_end ?a \<longleftrightarrow> (\<exists>d i. Push d i True \<in> set ops)"
    using sim e by (simp add: sr_sim_def) (simp add: sr_end_known_def sr_new_def)
  ultimately show ?thesis using all g by simp
qed

text \<open>The witness: bytes arrive out of order and one beyond the window, and two are read.\<close>

theorem reassembler_integrity_witness:
  "\<exists>r. sr_exec (sr_new 3) [Push [3, 4] 2 True, Push [1] 0 False, Read 1] = (r, [1]) \<and>
     first_gap (ar_held (ar_exec 3 arrivals_new [Push [3, 4] 2 True, Push [1] 0 False, Read 1])) = 1 \<and>
     bs_bytes_written (sr_outputStream r) = 1 \<and> sr_unassembled_bytes r = 1 \<and> \<not> bs_input_ended (sr_outputStream r)"
proof -
  let ?ops = "[Push [3, 4] 2 True, Push [1] 0 False, Read 1]"
  obtain r where r: "sr_exec (sr_new 3) ?ops = (r, [1])" by (simp add: sr_eval cong: prod.case_cong_weak)
  have ex: "\<forall>d i e. Push d i e \<in> set ?ops \<longrightarrow> excerpt [1, 2, 3, 4] d i e" by (auto simp: excerpt_def chunk_def)
  have A: "ar_held (ar_exec 3 arrivals_new ?ops) = {0, 2}" by (auto simp: ar_push_def ar_take_def arrivals_new_def)
  have g: "first_gap {0, 2 :: nat} = 1" by (rule first_gap_eq) auto
  have "card ({0, 2 :: nat} - {..< 1}) = 1" by (simp add: card_1_singleton_iff) (auto intro!: exI [of _ 2])
  with reassembler_integrity [OF _ _ _ ex r refl] r g show ?thesis unfolding A by auto
qed

text \<open>C14. Refinement of one push: the indices held grow exactly by the part of the excerpt inside the
  window, the window stays where it is, no byte is counted twice among the stored bytes, and stored and
  buffered bytes together stay within the capacity.\<close>

theorem push_substring_refines:
  assumes "sr_inv S r" "excerpt S data index eof" "r' = push_substring data index eof r"
  shows "sr_inv S r' \<and>
    sr_covered r' = sr_covered r \<union> ({index ..< index + length data} \<inter> {..< sr_limit r}) \<and>
    sr_limit r' = sr_limit r \<and>
    sr_unassembled_bytes r' = card (sr_covered r' - {..< sr_cur_idx r'}) \<and>
    sr_unassembled_bytes r' + bs_buffer_size (sr_outputStream r') \<le> sr_capacity r"
proof -
  note p = push_substring_spec [OF assms(1,2), unfolded push_ok_def, folded assms(3)]
  then have inv: "sr_inv S r'" by blast
  with p sr_storage [OF inv] show ?thesis by simp
qed

theorem push_substring_refines_witness:
  "sr_unassembled_bytes (push_substring [3] 2 True (sr_new 4)) =
     card (sr_covered (push_substring [3] 2 True (sr_new 4)) -
       {..< sr_cur_idx (push_substring [3] 2 True (sr_new 4))}) \<and>
   sr_inv [1, 2, 3] (push_substring [3] 2 True (sr_new 4))"
proof -
  have "sr_inv [1, 2, 3] (sr_new 4)" by (rule sr_new_inv) simp_all
  moreover have "excerpt [1, 2, 3] [3] 2 True" by (simp add: excerpt_def chunk_def)
  ultimately show ?thesis using push_substring_refines [OF _ _ refl] by blast
qed

text \<open>C15. Completeness: if the excerpts together cover the stream, one of them carries the end mark and
  the capacity is at least the stream's length, then after all of them, in any order, the output holds the
  whole stream, the input has ended and nothing is left over.\<close>

theorem reassembler_complete:
  assumes "length S \<le> capacity" "0 < capacity" "length S < 4294967295" "length S + capacity < U64"
    and "\<forall>(d, i, e) \<in> set ps. excerpt S d i e" "fed ps = {..< length S}" "\<exists>d i. (d, i, True) \<in> set ps"
  shows "bs_buffer (sr_outputStream (feed push_substring ps (sr_new capacity))) = S \<and>
    bs_input_ended (sr_outputStream (feed push_substring ps (sr_new capacity))) \<and>
    sr_empty (feed push_substring ps (sr_new capacity))"
proof -
  let ?new = "sr_new capacity" and ?r = "feed push_substring ps (sr_new capacity)"
  have new: "sr_inv S ?new" by (rule sr_new_inv [OF assms(2-4)])
  have lim: "sr_limit ?new = capacity" by (simp add: sr_limit_def sr_room_def sr_new_def bs_new_def)
  have f: "sr_inv S ?r \<and> sr_covered ?r = sr_covered ?new \<union> (fed ps \<inter> {..< sr_limit ?new}) \<and>
    sr_limit ?r = sr_limit ?new \<and> sr_end_known ?r = (sr_end_known ?new \<or> (\<exists>(d, i, e) \<in> set ps. e))"
    by (rule reasm.feed_spec [OF new assms(5)])
  from f have inv: "sr_inv S ?r" by (rule conjunct1)
  have cur: "sr_cur_idx ?r = length S"
    using assms(1,6) lim by (intro reasm.feed_complete [OF new assms(5)]) auto
  have "sr_covered ?new = {}" by (simp add: sr_covered_def sr_new_def)
  moreover have "{..< length S} \<inter> {..< capacity} = {..< length S}" using assms(1) by auto
  ultimately have "sr_covered ?r = {..< length S}" using f by (simp add: assms(6) lim)
  then have un: "sr_unassembled_bytes ?r = 0" using sr_storage(1) [OF inv] cur by simp
  have ended: "bs_input_ended (sr_outputStream ?r)"
    using f assms(7) cur sr_ended_iff [OF inv] by auto
  have "\<forall>d i e. Push d i e \<in> set (map (\<lambda>(d, i, e). Push d i e) ps) \<longrightarrow> excerpt S d i e"
    using assms(5) by auto
  from sr_exec_spec [OF new this sr_exec_pushes] cur
  have "bs_buffer (sr_outputStream ?r) = S" by (simp add: sr_new_def bs_new_def)
  with un ended show ?thesis by (simp add: sr_empty_def sr_unassembled_bytes_def)
qed

theorem reassembler_complete_witness:
  "bs_buffer (sr_outputStream (feed push_substring [([3], 2, True), ([1, 2], 0, False)] (sr_new 4))) =
     [1, 2, 3]"
proof -
  have "\<forall>(d, i, e) \<in> set [([3], 2, True), ([1, 2], 0, False)]. excerpt [1, 2, 3] d i e"
    by (simp add: excerpt_def chunk_def)
  moreover have "fed [([3], 2, True), ([1, 2], 0, False)] = {..< length [1, 2, 3 :: byte]}"
    by (auto simp: fed_def)
  moreover have "\<exists>d i. (d, i, True) \<in> set [([3 :: byte], 2 :: nat, True), ([1, 2], 0, False)]" by auto
  ultimately show ?thesis
    using reassembler_complete [of "[1, 2, 3]" 4 "[([3], 2, True), ([1, 2], 0, False)]"] by simp
qed

text \<open>
  The end index of an unfinished stream is the number \<open>2^32 - 1\<close>, and an index that reaches
  it counts as the end: a stream that goes on is closed there, without any end mark having arrived.
\<close>

lemma reassembler_sentinel_ends_stream:
  assumes "sr_cur_idx r = 4294967294" "sr_input_end_idx r = 4294967295" "sr_seg_buffer r = []"
    "sr_capacity r = 65535" "bs_size (sr_outputStream r) = 0"
  shows "bs_input_ended (sr_outputStream (push_substring [b] 4294967294 False r))"
  using assms by (simp add: sr_eval cong: prod.case_cong_weak)

end
