(* ===== verification/Net_Parser.thy ===== *)
theory Net_Parser
  imports Sponge_Prelude
begin

unbundle bit_operations_syntax

text \<open>
  \<^verbatim>\<open>libsponge/util/parser.{hh,cc}\<close>: \<^verbatim>\<open>ParseResult\<close>, \<^verbatim>\<open>NetParser\<close> (big-endian integers from
  a buffer, with a sticky error) and \<^verbatim>\<open>NetUnparser\<close>.  A method of the parser returns its value
  and the changed parser.  The template methods \<^verbatim>\<open>_parse_int\<close> and \<^verbatim>\<open>_unparse_int\<close> are polymorphic in
  the word length, as in the code.
  The interface \<open>field_codec\<close> states that a field that was written can be read back and that
  reading a buffer that is too short sets the error and consumes nothing; the headers of
  all protocols are proved over it.
\<close>

datatype parse_result =
    NoError | BadChecksum | PacketTooShort | WrongIPVersion | HeaderTooShort | TruncatedPacket | Unsupported

text \<open>\<^verbatim>\<open>as_string\<close> indexes an array of six names with the number of the constructor.\<close>

fun parse_result_index :: "parse_result \<Rightarrow> nat" where
  "parse_result_index NoError = 0"
| "parse_result_index BadChecksum = 1"
| "parse_result_index PacketTooShort = 2"
| "parse_result_index WrongIPVersion = 3"
| "parse_result_index HeaderTooShort = 4"
| "parse_result_index TruncatedPacket = 5"
| "parse_result_index Unsupported = 6"

definition parse_result_names :: "string list" where
  "parse_result_names =
     [''NoError'', ''BadChecksum'', ''PacketTooShort'', ''WrongIPVersion'', ''HeaderTooShort'', ''TruncatedPacket'']"

definition as_string :: "parse_result \<Rightarrow> exn + string" where
  "as_string r =
     (if parse_result_index r < length parse_result_names
      then Inr (parse_result_names ! parse_result_index r)
      else Inl (Undefined_behaviour ''array index out of bounds''))"

record net_parser =
  np_buffer :: bytes
  np_error :: parse_result

definition net_parser_new :: "bytes \<Rightarrow> net_parser" where
  "net_parser_new buf = \<lparr>np_buffer = buf, np_error = NoError\<rparr>"

definition np_set_error :: "parse_result \<Rightarrow> net_parser \<Rightarrow> net_parser" where
  "np_set_error res p = p\<lparr>np_error := res\<rparr>"

definition np_is_error :: "net_parser \<Rightarrow> bool" where
  "np_is_error p \<longleftrightarrow> np_error p \<noteq> NoError"

definition np_check_size :: "nat \<Rightarrow> net_parser \<Rightarrow> net_parser" where
  "np_check_size n p = (if n > length (np_buffer p) then np_set_error PacketTooShort p else p)"

definition parse_int :: "net_parser \<Rightarrow> 'a::len word \<times> net_parser" where
  "parse_int p0 =
     (let len = LENGTH('a) div 8;
          p = np_check_size len p0
      in if np_is_error p then (0, p)
         else (foldl (\<lambda>ret b. push_bit 8 ret + ucast (b :: byte)) 0 (take len (np_buffer p)),
               p\<lparr>np_buffer := drop len (np_buffer p)\<rparr>))"

definition np_remove_prefix :: "nat \<Rightarrow> net_parser \<Rightarrow> net_parser" where
  "np_remove_prefix n p0 =
     (let p = np_check_size n p0
      in if np_is_error p then p else p\<lparr>np_buffer := drop n (np_buffer p)\<rparr>)"

definition np_u32 :: "net_parser \<Rightarrow> u32 \<times> net_parser" where
  "np_u32 = parse_int"

definition np_u16 :: "net_parser \<Rightarrow> u16 \<times> net_parser" where
  "np_u16 = parse_int"

definition np_u8 :: "net_parser \<Rightarrow> byte \<times> net_parser" where
  "np_u8 = parse_int"

definition unparse_int :: "bytes \<Rightarrow> 'a::len word \<Rightarrow> bytes" where
  "unparse_int s val =
     (let len = LENGTH('a) div 8
      in foldl (\<lambda>s i. s @ [ucast (drop_bit ((len - i - 1) * 8) val AND 0xff)]) s [0 ..< len])"

definition nu_u32 :: "bytes \<Rightarrow> u32 \<Rightarrow> bytes" where
  "nu_u32 = unparse_int"

definition nu_u16 :: "bytes \<Rightarrow> u16 \<Rightarrow> bytes" where
  "nu_u16 = unparse_int"

definition nu_u8 :: "bytes \<Rightarrow> byte \<Rightarrow> bytes" where
  "nu_u8 = unparse_int"

subsection \<open>The interface: reading back a field\<close>

text \<open>A field is a fixed number of bytes; \<open>put\<close> appends it, \<open>get\<close> takes it off the parser.\<close>

locale field_codec =
  fixes put :: "bytes \<Rightarrow> 'v \<Rightarrow> bytes"
    and get :: "net_parser \<Rightarrow> 'v \<times> net_parser"
    and width :: nat
    and dflt :: 'v
  assumes put_append: "put s v = s @ put [] v"
    and put_width: "length (put [] v) = width"
    and get_put: "get \<lparr>np_buffer = put [] v @ rest, np_error = NoError\<rparr> =
      (v, \<lparr>np_buffer = rest, np_error = NoError\<rparr>)"
    and put_get: "length bs = width \<Longrightarrow> get \<lparr>np_buffer = bs, np_error = NoError\<rparr> = (v, p) \<Longrightarrow> put [] v = bs"
    and get_short: "length (np_buffer p) < width \<Longrightarrow> get p = (dflt, p\<lparr>np_error := PacketTooShort\<rparr>)"
    and get_error: "np_error p \<noteq> NoError \<Longrightarrow> width \<le> length (np_buffer p) \<Longrightarrow> get p = (dflt, p)"
begin

lemma get_cases:
  "get p = (v, p') \<Longrightarrow>
     (if np_error p = NoError \<and> width \<le> length (np_buffer p)
      then np_error p' = NoError \<and> np_buffer p = put [] v @ np_buffer p'
      else np_error p' \<noteq> NoError \<and> np_buffer p' = np_buffer p \<and> v = dflt)"
proof (cases "np_error p = NoError \<and> width \<le> length (np_buffer p)")
  case True
  assume g: "get p = (v, p')"
  let ?bs = "take width (np_buffer p)" and ?rest = "drop width (np_buffer p)"
  obtain w q where w: "get \<lparr>np_buffer = ?bs, np_error = NoError\<rparr> = (w, q)" by fastforce
  with True have put: "put [] w = ?bs" by (intro put_get) auto
  have "p = \<lparr>np_buffer = put [] w @ ?rest, np_error = NoError\<rparr>" using True by (simp add: put)
  with g get_put [of w ?rest] have "v = w" "p' = \<lparr>np_buffer = ?rest, np_error = NoError\<rparr>" by auto
  with True put show ?thesis by simp
next
  case False
  assume g: "get p = (v, p')"
  show ?thesis
  proof (cases "length (np_buffer p) < width")
    case True
    with g get_short show ?thesis by auto
  next
    case 2: False
    with False g get_error show ?thesis by auto
  qed
qed

lemma put_inj: "put [] v = put [] w \<Longrightarrow> v = w"
  using get_put [of v "[]"] get_put [of w "[]"] by simp

end

text \<open>A header or message with its wire format: what was serialized is parsed back and the parser stops
  behind it.\<close>

locale wire_format =
  fixes wf :: "'h \<Rightarrow> bool"
    and ser :: "'h \<Rightarrow> exn + bytes"
    and par :: "net_parser \<Rightarrow> parse_result \<times> 'h \<times> net_parser"
  assumes ser_par: "wf h \<Longrightarrow> \<exists>bs. ser h = Inr bs \<and>
      (\<forall>rest. par (net_parser_new (bs @ rest)) = (NoError, h, net_parser_new rest))"
begin

lemma par_ser: "wf h \<Longrightarrow> ser h = Inr bs \<Longrightarrow> par (net_parser_new (bs @ rest)) = (NoError, h, net_parser_new rest)"
  using ser_par by fastforce

text \<open>No serialized header is a proper prefix of another.\<close>

lemma ser_prefix_free:
  assumes "wf a" "wf b" "ser a = Inr x" "ser b = Inr (x @ y)"
  shows "a = b \<and> y = []"
  using par_ser [OF assms(1,3), of y] par_ser [OF assms(2,4), of "[]"] by (simp add: net_parser_new_def)

lemma ser_inj: "wf a \<Longrightarrow> wf b \<Longrightarrow> ser a = ser b \<Longrightarrow> a = b"
  using ser_prefix_free [of a b _ "[]"] ser_par [of a] by auto

end

text \<open>A whole message, read from a buffer of its own: what was serialized is accepted and is the same message up
  to the fields that serialization fills in (\<open>same\<close>).\<close>

locale message_format =
  fixes wf :: "'m \<Rightarrow> bool"
    and ser :: "'m \<Rightarrow> exn + bytes"
    and par :: "bytes \<Rightarrow> parse_result \<times> 'm"
    and same :: "'m \<Rightarrow> 'm \<Rightarrow> bool"
  assumes deliver: "wf m \<Longrightarrow> \<exists>bs m'. ser m = Inr bs \<and> par bs = (NoError, m') \<and> same m m'"
    and same_join: "same a m \<Longrightarrow> same b m \<Longrightarrow> same a b"
begin

lemma delivered: "wf m \<Longrightarrow> ser m = Inr bs \<Longrightarrow> \<exists>m'. par bs = (NoError, m') \<and> same m m'"
  using deliver by fastforce

lemma ser_ok: "wf m \<Longrightarrow> ser m \<noteq> Inl e"
  using deliver by fastforce

text \<open>Equal bytes come from equal messages.\<close>

lemma ser_same: "wf a \<Longrightarrow> wf b \<Longrightarrow> ser a = Inr bs \<Longrightarrow> ser b = Inr bs \<Longrightarrow> same a b"
proof -
  assume "wf a" "wf b" "ser a = Inr bs" "ser b = Inr bs"
  then obtain a' b' where "par bs = (NoError, a')" "same a a'" "par bs = (NoError, b')" "same b b'"
    using delivered by blast
  then show ?thesis using same_join [of a a' b] by simp
qed

end

subsection \<open>Lemmas\<close>

lemma byte_step:
  fixes v :: "'a::len word"
  shows "push_bit 8 (drop_bit (m + 8) v) + ucast (ucast (drop_bit m v AND 0xff) :: byte) = drop_bit m v"
proof -
  let ?h = "push_bit 8 (drop_bit (m + 8) v)" and ?l = "ucast (ucast (drop_bit m v AND 0xff) :: byte) :: 'a word"
  have l: "bit ?l n \<longleftrightarrow> n < 8 \<and> bit v (m + n)" for n
  proof -
    have "(0xff :: 'a word) = mask 8" by (simp add: mask_eq_exp_minus_1)
    then have eq: "drop_bit m v AND 0xff = take_bit 8 (drop_bit m v)" by (simp only: take_bit_eq_mask)
    show ?thesis
      unfolding eq
      by (auto simp: bit_ucast_iff bit_take_bit_iff bit_drop_bit_eq dest: bit_imp_le_length)
  qed
  have h: "bit ?h n \<longleftrightarrow> 8 \<le> n \<and> bit v (m + n)" for n
    by (auto simp: bit_push_bit_iff bit_drop_bit_eq dest: bit_imp_le_length)
  have "?h AND ?l = 0" by (rule bit_eqI) (auto simp: bit_and_iff h l)
  then have "?h + ?l = ?h OR ?l" by (rule disjunctive_add_eq_or)
  also have "\<dots> = drop_bit m v"
    by (rule bit_eqI) (auto simp: bit_or_iff h l bit_drop_bit_eq)
  finally show ?thesis .
qed

definition be_bytes :: "'a::len word \<Rightarrow> bytes" where
  "be_bytes v = map (\<lambda>i. ucast (drop_bit ((LENGTH('a) div 8 - i - 1) * 8) v AND 0xff)) [0 ..< LENGTH('a) div 8]"

definition be_value :: "bytes \<Rightarrow> 'a::len word" where
  "be_value bs = foldl (\<lambda>ret b. push_bit 8 ret + ucast b) 0 bs"

lemma be_value_prefix:
  fixes v :: "'a::len word"
  assumes "LENGTH('a) = len * 8" "i \<le> len"
  shows "be_value (map (\<lambda>i. ucast (drop_bit ((len - i - 1) * 8) v AND 0xff) :: byte) [0 ..< i]) =
    drop_bit ((len - i) * 8) v"
  using assms(2)
proof (induction i)
  case 0
  then show ?case using assms(1) by (simp add: be_value_def drop_bit_word_beyond)
next
  case (Suc i)
  then have eq: "(len - i) * 8 = (len - Suc i) * 8 + 8" by (simp add: Suc_diff_Suc)
  show ?case
    using Suc byte_step [of "(len - Suc i) * 8" v] by (simp add: be_value_def eq)
qed

lemma be_value_be_bytes:
  assumes "LENGTH('a::len) = len * 8"
  shows "be_value (be_bytes (v :: 'a word)) = v"
  using be_value_prefix [OF assms order_refl, of v] assms by (simp add: be_bytes_def)

lemma length_be_bytes [simp]: "length (be_bytes (v :: 'a::len word)) = LENGTH('a) div 8"
  by (simp add: be_bytes_def)

lemma unparse_int_eq: "unparse_int s v = s @ be_bytes v"
proof -
  have "foldl (\<lambda>s i. s @ [f i]) s xs = s @ map f xs" for f :: "nat \<Rightarrow> byte" and xs
    by (induction xs arbitrary: s) simp_all
  then show ?thesis by (simp add: unparse_int_def be_bytes_def Let_def)
qed

lemma parse_int_eq:
  "parse_int (p :: net_parser) =
    (if length (np_buffer p) < LENGTH('a) div 8 then (0, p\<lparr>np_error := PacketTooShort\<rparr>)
     else if np_error p \<noteq> NoError then (0, p)
     else (be_value (take (LENGTH('a) div 8) (np_buffer p)) :: 'a::len word,
           p\<lparr>np_buffer := drop (LENGTH('a) div 8) (np_buffer p)\<rparr>))"
  by (simp add: parse_int_def be_value_def np_check_size_def np_is_error_def np_set_error_def Let_def)

text \<open>Different byte lists of one length have different values.\<close>

lemma unat_be_value:
  "length bs * 8 \<le> LENGTH('a::len) \<Longrightarrow>
   unat (be_value bs :: 'a word) = foldl (\<lambda>n b. n * 256 + unat b) 0 bs \<and>
   foldl (\<lambda>n b. n * 256 + unat b) 0 bs < 256 ^ length bs"
proof (induction bs rule: rev_induct)
  case Nil
  then show ?case by (simp add: be_value_def)
next
  case (snoc b bs)
  let ?n = "foldl (\<lambda>n b. n * 256 + unat b) 0 bs"
  from snoc have n: "unat (be_value bs :: 'a word) = ?n" "?n < 256 ^ length bs" by simp_all
  have b: "unat b < 256" by (rule unat_byte_less)
  have "?n * 256 + unat b < (?n + 1) * 256" using b by simp
  also have "\<dots> \<le> 256 ^ length bs * 256" using n(2) by (intro mult_le_mono1) simp
  finally have less: "?n * 256 + unat b < 256 ^ Suc (length bs)" by simp
  have "(256 :: nat) ^ Suc (length bs) = 2 ^ (Suc (length bs) * 8)"
    using power_mult [of "2 :: nat" 8 "Suc (length bs)"] by (simp add: mult.commute)
  also have "\<dots> \<le> 2 ^ LENGTH('a)" using snoc.prems by (intro power_increasing) simp_all
  finally have fit: "?n * 256 + unat b < 2 ^ LENGTH('a)" using less by linarith
  have "(be_value bs :: 'a word) = of_nat ?n" by (simp flip: n(1))
  then have "(be_value (bs @ [b]) :: 'a word) = of_nat (?n * 256 + unat b)"
    by (simp add: be_value_def push_bit_eq_mult)
  then have "unat (be_value (bs @ [b]) :: 'a word) = ?n * 256 + unat b"
    using fit by (simp only: unat_of_nat take_bit_eq_mod mod_less)
  with less show ?case by simp
qed

lemma be_value_inj:
  assumes "length as = length bs" "length bs * 8 \<le> LENGTH('a::len)"
    and "be_value as = (be_value bs :: 'a word)"
  shows "as = bs"
proof -
  let ?f = "\<lambda>bs :: bytes. foldl (\<lambda>n b. n * 256 + unat b) 0 bs"
  have inj: "?f as = ?f bs \<Longrightarrow> as = bs" if "length as = length bs" for as bs
    using that
  proof (induction as arbitrary: bs rule: rev_induct)
    case (snoc a as)
    then obtain b bs' where bs: "bs = bs' @ [b]" "length as = length bs'"
      by (metis length_append_singleton length_Suc_conv_rev)
    with snoc.prems(1) have eq: "?f as * 256 + unat a = ?f bs' * 256 + unat b" by simp
    have less: "unat a < 256" "unat b < 256" by (rule unat_byte_less)+
    have "?f as = (?f as * 256 + unat a) div 256" "unat a = (?f as * 256 + unat a) mod 256"
      using less by simp_all
    moreover have "(?f bs' * 256 + unat b) div 256 = ?f bs'" "(?f bs' * 256 + unat b) mod 256 = unat b"
      using less by simp_all
    ultimately have "?f as = ?f bs'" "unat a = unat b" using eq by simp_all
    with snoc.IH bs show ?case by (simp add: word_unat_eq_iff)
  qed simp
  show ?thesis
    using inj [OF assms(1)] unat_be_value [of as, where 'a = 'a] unat_be_value [of bs, where 'a = 'a] assms
    by simp
qed

text \<open>The template methods at any whole number of bytes are a field.\<close>

lemma int_codec:
  assumes "LENGTH('a::len) = len * 8"
  shows "field_codec unparse_int (parse_int :: net_parser \<Rightarrow> 'a word \<times> net_parser) len 0"
proof
  have len: "LENGTH('a) div 8 = len" using assms by simp
  show "unparse_int s v = s @ unparse_int [] v" for s and v :: "'a word" by (simp add: unparse_int_eq)
  show "length (unparse_int [] v) = len" for v :: "'a word" by (simp add: unparse_int_eq len)
  show "parse_int \<lparr>np_buffer = unparse_int [] v @ rest, np_error = NoError\<rparr> =
      (v, \<lparr>np_buffer = rest, np_error = NoError\<rparr>)" for v :: "'a word" and rest
    by (simp add: parse_int_eq unparse_int_eq be_value_be_bytes [OF assms])
  show "unparse_int [] v = bs"
    if "length bs = len" "parse_int \<lparr>np_buffer = bs, np_error = NoError\<rparr> = (v, p)" for bs p and v :: "'a word"
  proof -
    have "v = be_value bs" using that len by (simp add: parse_int_eq)
    then have "be_value (be_bytes v) = (be_value bs :: 'a word)" by (simp add: be_value_be_bytes [OF assms])
    then have "be_bytes v = bs" using that(1) assms len by (intro be_value_inj) simp_all
    then show ?thesis by (simp add: unparse_int_eq)
  qed
  show "parse_int p = (0 :: 'a word, p\<lparr>np_error := PacketTooShort\<rparr>)"
    if "length (np_buffer p) < len" for p :: net_parser
    using that len by (simp add: parse_int_eq)
  show "parse_int p = (0 :: 'a word, p)"
    if "np_error p \<noteq> NoError" "len \<le> length (np_buffer p)" for p :: net_parser
    using that len by (simp add: parse_int_eq)
qed

interpretation u32: field_codec nu_u32 np_u32 4 0
  unfolding nu_u32_def np_u32_def by (rule int_codec) simp

interpretation u16: field_codec nu_u16 np_u16 2 0
  unfolding nu_u16_def np_u16_def by (rule int_codec) simp

interpretation u8: field_codec nu_u8 np_u8 1 0
  unfolding nu_u8_def np_u8_def by (rule int_codec) simp

text \<open>Rules that write fields as bytes and run a parser over fields that were written.\<close>

named_theorems parse_simps "running a parser over written fields"
named_theorems put_simps "writing fields"

lemma put_be_bytes [put_simps]:
  "nu_u32 s a = s @ be_bytes a" "nu_u16 s b = s @ be_bytes b" "nu_u8 s c = s @ be_bytes c"
  by (simp_all add: nu_u32_def nu_u16_def nu_u8_def unparse_int_eq)

lemma get_be_bytes [parse_simps]:
  "np_u32 \<lparr>np_buffer = be_bytes a @ rest, np_error = NoError\<rparr> = (a, \<lparr>np_buffer = rest, np_error = NoError\<rparr>)"
  "np_u16 \<lparr>np_buffer = be_bytes b @ rest, np_error = NoError\<rparr> = (b, \<lparr>np_buffer = rest, np_error = NoError\<rparr>)"
  "np_u8 \<lparr>np_buffer = be_bytes c @ rest, np_error = NoError\<rparr> = (c, \<lparr>np_buffer = rest, np_error = NoError\<rparr>)"
  using u32.get_put [of a rest] u16.get_put [of b rest] u8.get_put [of c rest] by (simp_all add: put_simps)

text \<open>Reading from a buffer that is long enough.\<close>

lemma read_simps:
  "4 \<le> length b \<Longrightarrow> np_u32 \<lparr>np_buffer = b, np_error = NoError\<rparr> =
    (be_value (take 4 b), \<lparr>np_buffer = drop 4 b, np_error = NoError\<rparr>)"
  "2 \<le> length b \<Longrightarrow> np_u16 \<lparr>np_buffer = b, np_error = NoError\<rparr> =
    (be_value (take 2 b), \<lparr>np_buffer = drop 2 b, np_error = NoError\<rparr>)"
  "1 \<le> length b \<Longrightarrow> np_u8 \<lparr>np_buffer = b, np_error = NoError\<rparr> =
    (be_value (take 1 b), \<lparr>np_buffer = drop 1 b, np_error = NoError\<rparr>)"
  by (auto simp: np_u32_def np_u16_def np_u8_def parse_int_eq)

text \<open>\<^verbatim>\<open>string::resize\<close> cuts the string or fills it up with zero bytes.\<close>

definition resize :: "nat \<Rightarrow> bytes \<Rightarrow> bytes" where
  "resize n s = take n s @ replicate (n - length s) 0"

lemma resize_longer: "length s \<le> n \<Longrightarrow> resize n s = s @ replicate (n - length s) 0"
  by (simp add: resize_def)

lemma np_remove_prefix_ok [parse_simps]:
  "n = length pre \<Longrightarrow> np_remove_prefix n \<lparr>np_buffer = pre @ rest, np_error = NoError\<rparr> =
    \<lparr>np_buffer = rest, np_error = NoError\<rparr>"
  by (simp add: np_remove_prefix_def np_check_size_def np_is_error_def)

lemma np_is_error_simps [parse_simps]:
  "np_is_error \<lparr>np_buffer = b, np_error = e\<rparr> = (e \<noteq> NoError)"
  by (simp add: np_is_error_def)

subsection \<open>Properties\<close>

text \<open>Integer fields of 8, 16 and 32 bits in network byte order round-trip between
  \<^verbatim>\<open>NetUnparser\<close> and \<^verbatim>\<open>NetParser\<close>: reading what was appended returns the value and leaves exactly
  the bytes that follow it, and the error flag stays clear.\<close>

theorem net_int_roundtrip:
  "np_u32 (net_parser_new (nu_u32 [] a @ rest)) = (a, net_parser_new rest) \<and>
   np_u16 (net_parser_new (nu_u16 [] b @ rest)) = (b, net_parser_new rest) \<and>
   np_u8 (net_parser_new (nu_u8 [] c @ rest)) = (c, net_parser_new rest)"
  by (simp add: net_parser_new_def parse_simps put_simps)

text \<open>A 32-bit read either consumes exactly the four bytes that encode the value it returns and leaves
  the error clear, or it leaves the buffer alone, returns zero and the parser is in error; it fails exactly when
  the parser was in error or fewer than four bytes were left.\<close>

theorem net_parser_u32_total:
  assumes "np_u32 p = (v, p')"
  shows "(if np_error p = NoError \<and> 4 \<le> length (np_buffer p)
     then np_error p' = NoError \<and> np_buffer p = nu_u32 [] v @ np_buffer p'
     else np_error p' \<noteq> NoError \<and> np_buffer p' = np_buffer p \<and> v = 0)"
  using assms by (rule u32.get_cases)

theorem net_parser_u32_total_witness:
  "np_u32 (net_parser_new [1, 2]) = (0, \<lparr>np_buffer = [1, 2], np_error = PacketTooShort\<rparr>) \<and>
   np_buffer \<lparr>np_buffer = [1, 2], np_error = PacketTooShort\<rparr> = np_buffer (net_parser_new [1, 2])"
proof -
  have r: "np_u32 (net_parser_new [1, 2]) = (0, \<lparr>np_buffer = [1, 2], np_error = PacketTooShort\<rparr>)"
    by (simp add: u32.get_short net_parser_new_def)
  from r net_parser_u32_total [OF r] show ?thesis by (simp add: net_parser_new_def)
qed

end
