(* ===== verification/Internet_Checksum.thy ===== *)
theory Internet_Checksum
  imports Net_Parser
begin

unbundle bit_operations_syntax

text \<open>
  The class \<^verbatim>\<open>InternetChecksum\<close> of \<^verbatim>\<open>libsponge/util/util.{hh,cc}\<close>: a 32-bit sum of 16-bit
  big-endian units that can be fed in pieces, with the parity of the bytes fed so far, and the folding
  loop of \<^verbatim>\<open>value()\<close>.  The lemmas give the value of the loop as a residue modulo \<open>65535\<close> and show
  that storing the value of a message whose checksum field was zero makes the message check.
\<close>

record internet_checksum =
  ic_sum :: u32
  ic_parity :: bool

definition ic_new :: "u32 \<Rightarrow> internet_checksum" where
  "ic_new initial_sum = \<lparr>ic_sum = initial_sum, ic_parity = False\<rparr>"

definition ic_add_byte :: "internet_checksum \<Rightarrow> byte \<Rightarrow> internet_checksum" where
  "ic_add_byte c b =
     (let v0 = (ucast b :: u16);
          val = (if \<not> ic_parity c then push_bit 8 v0 else v0)
      in c\<lparr>ic_sum := ic_sum c + ucast val, ic_parity := \<not> ic_parity c\<rparr>)"

definition ic_add :: "bytes \<Rightarrow> internet_checksum \<Rightarrow> internet_checksum" where
  "ic_add data c = foldl ic_add_byte c data"

lemma fold_step_less:
  fixes ret :: u32
  assumes "0xffff < ret"
  shows "unat (drop_bit 16 ret + (ret AND 0xffff)) = unat ret div 65536 + unat ret mod 65536"
    and "unat (drop_bit 16 ret + (ret AND 0xffff)) < unat ret"
proof -
  have "(0xffff :: u32) = mask 16" by (simp add: mask_eq_exp_minus_1)
  then have lo: "unat (ret AND 0xffff) = unat ret mod 65536"
    by (simp only: flip: take_bit_eq_mask) (simp add: take_bit_eq_mod unat_mod_distrib)
  have hi: "unat (drop_bit 16 ret) = unat ret div 65536"
    by (simp add: drop_bit_eq_div unat_div_distrib)
  have dm: "unat ret = 65536 * (unat ret div 65536) + unat ret mod 65536" by simp
  have "unat ret < U32" by (rule unat_u32_less)
  with dm have "unat ret div 65536 + unat ret mod 65536 < U32" by linarith
  then show eq: "unat (drop_bit 16 ret + (ret AND 0xffff)) = unat ret div 65536 + unat ret mod 65536"
    by (simp add: unat_word_ariths lo hi)
  have "65535 < unat ret" using assms by (simp add: word_less_nat_alt)
  then have "0 < unat ret div 65536" by (simp add: div_greater_zero_iff)
  with dm show "unat (drop_bit 16 ret + (ret AND 0xffff)) < unat ret" unfolding eq by linarith
qed

function fold_carry :: "u32 \<Rightarrow> u32" where
  "fold_carry ret = (if ret > 0xffff then fold_carry (drop_bit 16 ret + (ret AND 0xffff)) else ret)"
  by pat_completeness auto
termination
proof (relation "measure unat")
  show "(drop_bit 16 ret + (ret AND 0xffff), ret) \<in> measure unat" if "0xffff < ret" for ret :: u32
    unfolding in_measure by (rule fold_step_less(2) [OF that])
qed simp

declare fold_carry.simps [simp del]

definition ic_value :: "internet_checksum \<Rightarrow> u16" where
  "ic_value c = ucast (NOT (fold_carry (ic_sum c)))"

subsection \<open>The sum of a message\<close>

fun unit_sum :: "bool \<Rightarrow> bytes \<Rightarrow> nat" where
  "unit_sum par [] = 0"
| "unit_sum par (b # bs) = (if par then unat b else unat b * 256) + unit_sum (\<not> par) bs"

lemma unit_sum_append:
  "unit_sum par (as @ bs) = unit_sum par as + unit_sum (par \<noteq> odd (length as)) bs"
proof (induction as arbitrary: par)
  case (Cons a as)
  have "((\<not> par) \<noteq> odd (length as)) = (par \<noteq> odd (length (a # as)))" by auto
  with Cons [of "\<not> par"] show ?case by simp
qed simp

lemma unit_sum_bound: "unit_sum par bs \<le> 65280 * length bs"
proof (induction bs arbitrary: par)
  case (Cons b bs)
  have "unat b \<le> 255" using unat_byte_less [of b] by simp
  with Cons [of "\<not> par"] show ?case by (cases par) simp_all
qed simp

lemma ic_add_append: "ic_add (as @ bs) c = ic_add bs (ic_add as c)"
  by (simp add: ic_add_def)

lemma ic_add_eq:
  "ic_parity (ic_add bs c) = (ic_parity c \<noteq> odd (length bs)) \<and>
   ic_sum (ic_add bs c) = ic_sum c + of_nat (unit_sum (ic_parity c) bs)"
proof (induction bs arbitrary: c)
  case Nil
  then show ?case by (simp add: ic_add_def)
next
  case (Cons b bs)
  have b: "unat b < 256" by (rule unat_byte_less)
  have "(ucast (push_bit 8 (ucast b :: u16)) :: u32) = of_nat (unat b * 256)"
  proof -
    have "unat (push_bit 8 (ucast b :: u16)) = unat b * 256"
      using b by (simp add: push_bit_eq_mult unat_word_ariths unsigned_ucast_eq take_bit_nat_eq_self mult.commute)
    moreover have "(ucast w :: u32) = of_nat (unat w)" for w :: u16 by simp
    ultimately show ?thesis by metis
  qed
  moreover have "(ucast (ucast b :: u16) :: u32) = of_nat (unat b)"
  proof -
    have "unat (ucast b :: u16) = unat b" using b by (simp add: unsigned_ucast_eq take_bit_nat_eq_self)
    moreover have "(ucast w :: u32) = of_nat (unat w)" for w :: u16 by simp
    ultimately show ?thesis by metis
  qed
  ultimately have "ic_sum (ic_add_byte c b) =
      ic_sum c + of_nat (if ic_parity c then unat b else unat b * 256)"
    by (simp add: ic_add_byte_def Let_def)
  moreover have "ic_parity (ic_add_byte c b) = (\<not> ic_parity c)" by (simp add: ic_add_byte_def Let_def)
  moreover have "ic_add (b # bs) c = ic_add bs (ic_add_byte c b)" by (simp add: ic_add_def)
  ultimately show ?case using Cons [of "ic_add_byte c b"] by simp
qed

subsection \<open>The folding loop\<close>

lemma fold_carry_spec:
  "unat (fold_carry ret) \<le> 65535 \<and> unat (fold_carry ret) mod 65535 = unat ret mod 65535 \<and>
   (fold_carry ret = 0 \<longleftrightarrow> ret = 0)"
proof (induction ret rule: fold_carry.induct)
  case (1 ret)
  show ?case
  proof (cases "0xffff < ret")
    case True
    let ?n = "unat ret"
    have "65535 < ?n" using True by (simp add: word_less_nat_alt)
    have "(?n div 65536 + ?n mod 65536) mod 65535 = ?n mod 65535"
    proof -
      have "?n = 65536 * (?n div 65536) + ?n mod 65536" by simp
      then have "?n = (?n div 65536 + ?n mod 65536) + 65535 * (?n div 65536)" by linarith
      then show ?thesis by (metis mod_mult_self2)
    qed
    moreover have "?n div 65536 \<noteq> 0" using \<open>65535 < ?n\<close> by linarith
    then have "drop_bit 16 ret + (ret AND 0xffff) \<noteq> 0"
      using fold_step_less(1) [OF True] by (simp add: word_unat_eq_iff)
    moreover have "ret \<noteq> 0" using True by auto
    ultimately show ?thesis
      using 1 [OF True] True fold_step_less(1) [OF True] by (simp add: fold_carry.simps [of ret])
  next
    case False
    then have "fold_carry ret = ret" by (simp add: fold_carry.simps [of ret])
    moreover have "unat ret \<le> 65535" using False by (simp add: word_less_nat_alt)
    ultimately show ?thesis by simp
  qed
qed

lemma unat_ic_value: "unat (ic_value c) = 65535 - unat (fold_carry (ic_sum c))"
proof -
  let ?f = "fold_carry (ic_sum c)"
  have f: "unat ?f \<le> 65535" using fold_carry_spec by blast
  have "(ucast (NOT ?f) :: u16) = NOT (ucast ?f)"
    by (rule bit_eqI) (simp add: bit_ucast_iff bit_not_iff)
  also have "\<dots> = - 1 - ucast ?f" by (simp add: not_eq_complement)
  also have "(ucast ?f :: u16) = of_nat (unat ?f)" by simp
  also have "(- 1 :: u16) - of_nat (unat ?f) = of_nat (65535 - unat ?f)"
    using f by (simp add: of_nat_diff)
  finally have "ic_value c = of_nat (65535 - unat ?f)" unfolding ic_value_def .
  then have "unat (ic_value c) = (65535 - unat ?f) mod 2 ^ LENGTH(16)"
    by (simp only: unat_of_nat)
  then show ?thesis by simp
qed

lemma ic_value_0_iff: "ic_value c = 0 \<longleftrightarrow> ic_sum c \<noteq> 0 \<and> 65535 dvd unat (ic_sum c)"
proof -
  let ?f = "unat (fold_carry (ic_sum c))"
  have f: "?f \<le> 65535" "?f mod 65535 = unat (ic_sum c) mod 65535" "?f = 0 \<longleftrightarrow> ic_sum c = 0"
    using fold_carry_spec [of "ic_sum c"] by (simp_all add: word_unat_eq_iff)
  have "ic_value c = 0 \<longleftrightarrow> ?f = 65535"
  proof -
    have "ic_value c = 0 \<longleftrightarrow> unat (ic_value c) = 0" by (simp only: word_unat_eq_iff unsigned_0)
    then show ?thesis using f(1) unfolding unat_ic_value by auto
  qed
  also have "\<dots> \<longleftrightarrow> ?f \<noteq> 0 \<and> 65535 dvd ?f"
    using f(1) by (auto dest: dvd_imp_le)
  finally show ?thesis using f(2,3) by (simp add: dvd_eq_mod_eq_0)
qed

subsection \<open>Storing the checksum\<close>

lemma unit_sum_u16: "unit_sum False (nu_u16 [] v) = unat v"
proof -
  obtain a b where ab: "nu_u16 [] v = [a, b]"
    using u16.put_width [of v] by (auto simp: numeral_2_eq_2 length_Suc_conv)
  have "be_value (nu_u16 [] v) = v" by (simp add: nu_u16_def unparse_int_eq be_value_be_bytes)
  then have "unat v = unat (be_value [a, b] :: u16)" by (simp add: ab)
  also have "\<dots> = unat a * 256 + unat b" using unat_be_value [of "[a, b]", where 'a = 16] by simp
  finally show ?thesis by (simp add: ab)
qed

lemma ic_sum_nat:
  assumes "unat s + unit_sum False bs < U32"
  shows "unat (ic_sum (ic_add bs (ic_new s))) = unat s + unit_sum False bs"
proof -
  have "ic_sum (ic_add bs (ic_new s)) = of_nat (unat s + unit_sum False bs)"
    using ic_add_eq [of bs "ic_new s"] by (simp add: ic_new_def)
  with assms show ?thesis by (simp add: unat_of_nat take_bit_nat_eq_self del: of_nat_add)
qed

text \<open>A message with a zero checksum field, and the same message with the value stored there.\<close>

lemma ic_store_checks:
  assumes bound: "unat s + unit_sum False (pre @ nu_u16 [] 0 @ post) + 65535 < U32"
    and even: "even (length pre)"
    and v: "v = ic_value (ic_add (pre @ nu_u16 [] 0 @ post) (ic_new s))"
  shows "ic_value (ic_add (pre @ nu_u16 [] v @ post) (ic_new s)) = 0"
proof -
  let ?x = "unat s + unit_sum False (pre @ nu_u16 [] 0 @ post)"
  have split: "unit_sum False (pre @ nu_u16 [] w @ post) =
      unit_sum False pre + unat w + unit_sum False post" for w
    using even by (simp add: unit_sum_append unit_sum_u16 u16.put_width)
  have x: "unat (ic_sum (ic_add (pre @ nu_u16 [] 0 @ post) (ic_new s))) = ?x"
    using bound by (intro ic_sum_nat) simp
  let ?f = "unat (fold_carry (ic_sum (ic_add (pre @ nu_u16 [] 0 @ post) (ic_new s))))"
  have f: "?f \<le> 65535" "?f mod 65535 = ?x mod 65535" "?f = 0 \<longleftrightarrow> ?x = 0"
    using fold_carry_spec [of "ic_sum (ic_add (pre @ nu_u16 [] 0 @ post) (ic_new s))"] x
    by (auto simp: word_unat_eq_iff)
  have "unat v = 65535 - ?f" unfolding v by (rule unat_ic_value)
  then have total: "unat s + unit_sum False (pre @ nu_u16 [] v @ post) = ?x + (65535 - ?f)"
    by (simp add: split)
  then have y: "unat (ic_sum (ic_add (pre @ nu_u16 [] v @ post) (ic_new s))) = ?x + (65535 - ?f)"
    using bound by (subst ic_sum_nat) simp_all
  have "?x + (65535 - ?f) \<noteq> 0" using f(1,3) by auto
  moreover have "65535 dvd ?x + (65535 - ?f)"
  proof -
    have "(?x + (65535 - ?f)) mod 65535 = (?f + (65535 - ?f)) mod 65535"
      by (rule mod_add_cong) (simp_all add: f(2))
    also have "\<dots> = 0" using f(1) by simp
    finally show ?thesis by (simp add: dvd_eq_mod_eq_0)
  qed
  moreover have "ic_sum (ic_add (pre @ nu_u16 [] v @ post) (ic_new s)) \<noteq> 0"
    using y calculation(1) by (metis unsigned_0)
  ultimately show ?thesis unfolding ic_value_0_iff y by simp
qed

subsection \<open>Properties\<close>

text \<open>The checksum of a message does not depend on how it is cut into pieces, and a message (of up to
  64 kB) checks, that is \<^verbatim>\<open>value()\<close> is zero, exactly when its sum of 16-bit units is a positive multiple of
  \<open>65535\<close>, the definition of the Internet checksum.\<close>

theorem internet_checksum_value:
  assumes "length as + length bs \<le> 65535" "unat s < 2 ^ 20"
  shows "ic_add bs (ic_add as (ic_new s)) = ic_add (as @ bs) (ic_new s) \<and>
    (ic_value (ic_add (as @ bs) (ic_new s)) = 0 \<longleftrightarrow>
       0 < unat s + unit_sum False (as @ bs) \<and> 65535 dvd unat s + unit_sum False (as @ bs))"
proof -
  have "unit_sum False (as @ bs) \<le> 65280 * 65535"
    using unit_sum_bound [of False "as @ bs"] assms(1) by simp
  with assms(2) have "unat s + unit_sum False (as @ bs) < U32" by simp
  note sum = ic_sum_nat [OF this]
  have "ic_sum (ic_add (as @ bs) (ic_new s)) \<noteq> 0 \<longleftrightarrow> 0 < unat s + unit_sum False (as @ bs)"
    using sum by (simp only: word_unat_eq_iff) simp
  then show ?thesis unfolding ic_value_0_iff sum by (simp add: ic_add_append)
qed

theorem internet_checksum_value_witness:
  "ic_value (ic_add ([0x12, 0x34, 0xed] @ [0xcb]) (ic_new 0)) = 0"
proof -
  have "unit_sum False ([0x12, 0x34, 0xed] @ [0xcb]) = 65535" by simp
  with internet_checksum_value [of "[0x12, 0x34, 0xed]" "[0xcb]" 0] show ?thesis
    by (simp del: append_Cons)
qed

end
