(* ===== verification/Wrapping_Integers.thy ===== *)
theory Wrapping_Integers
  imports Sponge_Prelude
begin

text \<open>
  \<^verbatim>\<open>libsponge/wrapping_integers.{hh,cc}\<close>: 32-bit sequence numbers relative to an initial
  sequence number, and their conversion to and from 64-bit absolute sequence numbers.
  \<^verbatim>\<open>WrappingInt32\<close> wraps one \<^verbatim>\<open>uint32_t\<close> and is a 32-bit word here.
  The lemmas show that \<open>wrap\<close> is addition modulo \<open>2^32\<close>, that \<open>unwrap\<close> returns a number
  that wraps to its argument and is closest to the checkpoint, and that the two are inverse within half
  of the sequence space.  The interface \<open>sequence_space\<close> states what the sender and the
  receiver rely on.
\<close>

type_synonym wrapping_int32 = u32

subsection \<open>The code\<close>

definition wrap :: "nat \<Rightarrow> wrapping_int32 \<Rightarrow> wrapping_int32" where
  "wrap n isn = word_of_nat (add64 (unat isn) n mod U32)"

definition unwrap :: "wrapping_int32 \<Rightarrow> wrapping_int32 \<Rightarrow> nat \<Rightarrow> nat" where
  "unwrap n isn checkpoint =
     (let mid0 = add64 (sub64 U32 (unat isn)) (unat n) mod U32;
          mid = add64 mid0 (mul64 (checkpoint div U32) U32);
          right = add64 mid U32;
          left = sub64 mid U32
      in if mid > checkpoint then
           (if sub64 mid checkpoint < sub64 checkpoint left \<or> mid < U32 then mid else left)
         else
           (if sub64 right checkpoint < sub64 checkpoint mid then right else mid))"

definition wi_diff :: "wrapping_int32 \<Rightarrow> wrapping_int32 \<Rightarrow> int" where
  "wi_diff a b = sint (a - b)"

definition wi_add :: "wrapping_int32 \<Rightarrow> u32 \<Rightarrow> wrapping_int32" where
  "wi_add a b = a + b"

definition wi_sub :: "wrapping_int32 \<Rightarrow> u32 \<Rightarrow> wrapping_int32" where
  "wi_sub a b = wi_add a (- b)"

text \<open>The distance between two absolute sequence numbers.\<close>

definition adist :: "nat \<Rightarrow> nat \<Rightarrow> nat" where
  "adist a b = (a - b) + (b - a)"

subsection \<open>The interface\<close>

locale sequence_space =
  fixes wr :: "nat \<Rightarrow> u32 \<Rightarrow> u32"
    and unwr :: "u32 \<Rightarrow> u32 \<Rightarrow> nat \<Rightarrow> nat"
    and half :: nat
  assumes unwr_bound: "cp < U64 \<Longrightarrow> unwr n isn cp < U64"
    and wr_unwr: "wr (unwr n isn cp) isn = n"
    and unwr_wr: "cp < U64 - U32 \<Longrightarrow> adist x cp < half \<Longrightarrow> unwr (wr x isn) isn cp = x"
begin

lemma wr_inj_near:
  assumes "cp < U64 - U32" "adist x cp < half" "adist y cp < half" "wr x isn = wr y isn"
  shows "x = y"
  using assms unwr_wr by metis

lemma unwr_self: "cp < U64 - U32 \<Longrightarrow> 0 < half \<Longrightarrow> unwr (wr cp isn) isn cp = cp"
  by (rule unwr_wr) (simp_all add: adist_def)

end

subsection \<open>Lemmas\<close>

lemma mod_U64_U32: "(n mod U64) mod U32 = n mod U32"
  by (simp add: mod_mod_cancel)

lemma unat_wrap: "unat (wrap n isn) = (unat isn + n) mod U32"
  by (simp add: wrap_def add64_def u64_def mod_U64_U32 unat_of_nat take_bit_eq_mod)

lemma wrap_alt: "wrap n isn = isn + of_nat n"
  by (rule word_unat_eq_iff [THEN iffD2])
    (simp add: unat_wrap unat_word_ariths unat_of_nat take_bit_eq_mod mod_simps)

lemma unwrap_mid0:
  fixes n isn :: u32
  shows "add64 (sub64 U32 (unat isn)) (unat n) mod U32 = unat (n - isn)"
proof -
  have isn: "unat isn < U32" by (rule unat_u32_less)
  have "sub64 U32 (unat isn) = U32 - unat isn" using isn by (simp add: no_wrap)
  moreover have "unat (n - isn) = (unat n + (U32 - unat isn)) mod U32"
  proof -
    have "n - isn = word_of_nat (unat n + (U32 - unat isn))"
      using isn by (simp add: of_nat_diff)
    then have "unat (n - isn) = unat (word_of_nat (unat n + (U32 - unat isn)) :: u32)"
      by (rule arg_cong)
    then show ?thesis by (simp only: unat_of_nat take_bit_eq_mod) simp
  qed
  ultimately show ?thesis
    by (simp add: add64_def u64_def mod_U64_U32 add.commute)
qed

lemma wrap_eq_iff: "wrap x isn = n \<longleftrightarrow> x mod U32 = unat (n - isn)"
proof -
  have "wrap x isn = n \<longleftrightarrow> (of_nat x :: u32) = n - isn"
    by (auto simp: wrap_alt)
  also have "\<dots> \<longleftrightarrow> x mod U32 = unat (n - isn)"
    by (simp add: word_unat_eq_iff unat_of_nat take_bit_eq_mod)
  finally show ?thesis .
qed

text \<open>Away from the top of the 64-bit range, \<open>unwrap\<close> chooses between three candidates.\<close>

lemma unwrap_cases:
  assumes cp: "cp < U64 - U32"
    and k_def: "k = unat (n - isn)" and q_def: "q = cp div U32" and mid_def: "mid = q * U32 + k"
  shows "unwrap n isn cp =
    (if cp < mid then (if mid - cp < cp + U32 - mid \<or> mid < U32 then mid else mid - U32)
     else (if mid + U32 - cp < cp - mid then mid + U32 else mid))"
proof -
  have k: "k < U32" by (simp add: k_def unat_u32_less)
  have q: "q * U32 \<le> cp" "cp < q * U32 + U32" by (auto simp: q_def)
  have mul: "mul64 (cp div U32) U32 = q * U32"
    using q cp by (simp add: mul64_def u64_id q_def)
  have mid64: "add64 k (q * U32) = mid"
    using k q cp by (simp add: no_wrap mid_def add.commute)
  have midb: "mid < U64" "mid \<le> cp \<Longrightarrow> mid + U32 < U64" "mid < cp + U32"
    using k q cp by (simp_all add: mid_def)
  have eq: "unwrap n isn cp =
     (if mid > cp then
           (if sub64 mid cp < sub64 cp (sub64 mid U32) \<or> mid < U32 then mid else sub64 mid U32)
         else
           (if sub64 (add64 mid U32) cp < sub64 cp mid then add64 mid U32 else mid))"
    unfolding unwrap_def unwrap_mid0 Let_def mul k_def [symmetric] mid64 ..
  show ?thesis
  proof (cases "cp < mid")
    case True
    then have "sub64 mid cp = mid - cp" using midb by (simp add: no_wrap)
    moreover have "\<not> mid < U32 \<Longrightarrow> sub64 mid U32 = mid - U32"
      and "\<not> mid < U32 \<Longrightarrow> sub64 cp (mid - U32) = cp + U32 - mid"
      using midb cp by (simp_all add: no_wrap)
    ultimately show ?thesis using True by (cases "mid < U32") (simp_all add: eq)
  next
    case False
    with midb cp have "add64 mid U32 = mid + U32" "sub64 cp mid = cp - mid"
      by (simp_all add: no_wrap)
    moreover have "sub64 (mid + U32) cp = mid + U32 - cp"
      using False midb q by (intro sub64_id) (simp_all add: mid_def)
    ultimately show ?thesis using False by (simp add: eq)
  qed
qed

lemma unwrap_less [simp]: "cp < U64 \<Longrightarrow> unwrap n isn cp < U64"
  by (simp add: unwrap_def Let_def)

text \<open>Every candidate of \<open>unwrap\<close> wraps to the argument, also where the 64-bit sums wrap.\<close>

lemma u64_mod_U32: "u64 x mod U32 = x mod U32"
  by (simp add: u64_def mod_U64_U32)

lemma sub64_U32_mod: "m < U64 \<Longrightarrow> sub64 m U32 mod U32 = m mod U32"
proof -
  assume "m < U64"
  have "m + U64 - U32 = m + 4294967295 * U32" by simp
  then show ?thesis by (simp only: sub64_def u64_mod_U32 mod_mult_self1)
qed

lemma wrap_cong: "wrap x isn = wrap y isn \<longleftrightarrow> x mod U32 = y mod U32"
  using wrap_eq_iff [of x isn "wrap y isn"] wrap_eq_iff [of y isn "wrap y isn"] by auto

lemma wrap_add64: "wrap (add64 a b) isn = wrap (a + b) isn"
  by (simp add: wrap_cong add64_def u64_mod_U32)

lemma unwrap_congruent: "unwrap n isn cp mod U32 = unat (n - isn)"
proof -
  have "add64 (unat (n - isn)) (mul64 (cp div U32) U32) mod U32
      = (unat (n - isn) + mul64 (cp div U32) U32 mod U32) mod U32"
    by (simp only: add64_def u64_mod_U32 mod_add_right_eq)
  also have "mul64 (cp div U32) U32 mod U32 = 0"
    by (simp only: mul64_def u64_mod_U32 mod_mult_self2_is_0)
  finally have mid: "add64 (unat (n - isn)) (mul64 (cp div U32) U32) mod U32 = unat (n - isn)"
    by (simp add: unat_u32_less)
  have "add64 m U32 mod U32 = m mod U32" for m
    by (simp only: add64_def u64_mod_U32 mod_add_self2)
  with mid show ?thesis
    by (simp add: unwrap_def unwrap_mid0 Let_def sub64_U32_mod)
qed

text \<open>A number congruent to the argument lies a whole number of turns away from \<open>mid\<close>.\<close>

lemma congruent_turns:
  assumes "x mod U32 = k" "x \<noteq> mid" "mid = q * U32 + k"
  shows "x + U32 \<le> mid \<or> mid + U32 \<le> x"
proof -
  have x: "x = (x div U32) * U32 + k" using assms(1) by (metis div_mult_mod_eq)
  with assms consider "x div U32 < q" | "x div U32 > q" by (metis linorder_neqE_nat)
  then show ?thesis
  proof cases
    case 1
    then have "(x div U32 + 1) * U32 \<le> q * U32" by (intro mult_le_mono1) simp
    with x assms show ?thesis by simp
  next
    case 2
    then have "(q + 1) * U32 \<le> (x div U32) * U32" by (intro mult_le_mono1) simp
    with x assms show ?thesis by simp
  qed
qed

lemma unwrap_near:
  assumes cp: "cp < U64 - U32" and x: "x mod U32 = unat (n - isn)"
  shows "adist (unwrap n isn cp) cp \<le> adist x cp"
proof -
  define q where "q = cp div U32"
  define mid where "mid = q * U32 + unat (n - isn)"
  have q: "q * U32 \<le> cp" "cp < q * U32 + U32" by (auto simp: q_def)
  have k: "unat (n - isn) < U32" by (rule unat_u32_less)
  have "x = mid \<or> x + U32 \<le> mid \<or> mid + U32 \<le> x"
    using congruent_turns [OF x _ mid_def] by blast
  moreover have "mid < cp + U32" "cp < mid + U32" using q k by (simp_all add: mid_def)
  ultimately show ?thesis
    unfolding unwrap_cases [OF cp refl q_def mid_def] adist_def by auto
qed

lemma unwrap_wrap_near:
  assumes cp: "cp < U64 - U32" and near: "adist x cp < 2 ^ 31"
  shows "unwrap (wrap x isn) isn cp = x"
proof -
  let ?r = "unwrap (wrap x isn) isn cp"
  have x: "x mod U32 = unat (wrap x isn - isn)" using wrap_eq_iff by blast
  have "adist ?r cp \<le> adist x cp" by (rule unwrap_near [OF cp x])
  moreover have "?r mod U32 = x mod U32" by (simp add: unwrap_congruent x)
  then have "?r = x \<or> ?r + U32 \<le> x \<or> x + U32 \<le> ?r"
    using congruent_turns [of ?r "x mod U32" x "x div U32"] by auto
  ultimately show ?thesis using near by (auto simp: adist_def)
qed

interpretation seqno: sequence_space wrap unwrap "2 ^ 31"
proof unfold_locales
  show "unwrap n isn cp < U64" if "cp < U64" for n isn cp
    using that by (rule unwrap_less)
  show "wrap (unwrap n isn cp) isn = n" for n isn cp
    by (simp add: wrap_eq_iff unwrap_congruent)
  show "unwrap (wrap x isn) isn cp = x" if "cp < U64 - U32" "adist x cp < 2 ^ 31" for x isn cp
    using that by (rule unwrap_wrap_near)
qed

subsection \<open>Properties\<close>

text \<open>C39. \<^verbatim>\<open>unwrap\<close> returns an absolute sequence number that wraps to the given one, and among all
  of them one that is closest to the checkpoint.\<close>

theorem unwrap_closest:
  assumes "checkpoint < U64 - U32"
  shows "wrap (unwrap n isn checkpoint) isn = n \<and> unwrap n isn checkpoint < U64 \<and>
    (\<forall>x. wrap x isn = n \<longrightarrow> adist (unwrap n isn checkpoint) checkpoint \<le> adist x checkpoint)"
  using assms seqno.wr_unwr seqno.unwr_bound [of checkpoint] unwrap_near [OF assms]
  by (simp add: wrap_eq_iff)

theorem unwrap_closest_witness:
  "wrap (unwrap 5 4294967290 4294967296) 4294967290 = 5 \<and> unwrap 5 4294967290 4294967296 = 4294967307"
  using unwrap_closest [of 4294967296 5 4294967290]
  by (simp add: unwrap_def mul64_def add64_def sub64_def u64_def Let_def)

text \<open>Round trip: an absolute sequence number less than \<open>2^31\<close> away from the checkpoint survives
  wrapping and unwrapping, whatever the initial sequence number.\<close>

theorem unwrap_wrap_roundtrip:
  assumes "checkpoint < U64 - U32" "adist x checkpoint < 2 ^ 31"
  shows "unwrap (wrap x isn) isn checkpoint = x"
  using assms by (rule seqno.unwr_wr)

theorem unwrap_wrap_roundtrip_witness: "unwrap (wrap 4294967300 7) 7 4294967200 = 4294967300"
  using unwrap_wrap_roundtrip [of 4294967200 4294967300 7] by (simp add: adist_def)

end
