(* ===== verification/TCP_Segment.thy ===== *)
theory TCP_Segment
  imports Internet_Checksum Wrapping_Integers
begin

unbundle bit_operations_syntax

text \<open>
  \<^verbatim>\<open>libsponge/tcp_helpers/tcp_header.{hh,cc}\<close> and \<^verbatim>\<open>tcp_segment.{hh,cc}\<close>: the TCP header and
  segment with their wire format.  A buffer is modelled by the string it stands for.  The lemmas show
  that serializing and parsing are inverse, that a serialized segment passes the checksum test of
  the parser, and what the parser rejects.
\<close>

record tcp_header =
  th_sport :: u16
  th_dport :: u16
  th_seqno :: wrapping_int32
  th_ackno :: wrapping_int32
  th_doff :: byte
  th_urg :: bool
  th_ack :: bool
  th_psh :: bool
  th_rst :: bool
  th_syn :: bool
  th_fin :: bool
  th_win :: u16
  th_cksum :: u16
  th_uptr :: u16

definition tcp_header_new :: tcp_header where
  "tcp_header_new =
     \<lparr>th_sport = 0, th_dport = 0, th_seqno = 0, th_ackno = 0, th_doff = 5, th_urg = False, th_ack = False,
      th_psh = False, th_rst = False, th_syn = False, th_fin = False, th_win = 0, th_cksum = 0, th_uptr = 0\<rparr>"

definition tcp_header_parse :: "net_parser \<Rightarrow> parse_result \<times> tcp_header \<times> net_parser" where
  "tcp_header_parse p =
     (let (sport, p) = np_u16 p;
          (dport, p) = np_u16 p;
          (seqno, p) = np_u32 p;
          (ackno, p) = np_u32 p;
          (doff_b, p) = np_u8 p;
          doff = drop_bit 4 doff_b;
          (fl_b, p) = np_u8 p;
          (win, p) = np_u16 p;
          (cksum, p) = np_u16 p;
          (uptr, p) = np_u16 p;
          h = \<lparr>th_sport = sport, th_dport = dport, th_seqno = seqno, th_ackno = ackno, th_doff = doff,
               th_urg = (fl_b AND 0b00100000 \<noteq> 0), th_ack = (fl_b AND 0b00010000 \<noteq> 0),
               th_psh = (fl_b AND 0b00001000 \<noteq> 0), th_rst = (fl_b AND 0b00000100 \<noteq> 0),
               th_syn = (fl_b AND 0b00000010 \<noteq> 0), th_fin = (fl_b AND 0b00000001 \<noteq> 0),
               th_win = win, th_cksum = cksum, th_uptr = uptr\<rparr>
      in if doff < 5 then (HeaderTooShort, h, p)
         else
           (let p = np_remove_prefix (unat doff * 4 - 20) p
            in if np_is_error p then (np_error p, h, p) else (NoError, h, p)))"

definition tcp_flags :: "tcp_header \<Rightarrow> byte" where
  "tcp_flags h =
     (if th_urg h then 0b00100000 else 0) OR (if th_ack h then 0b00010000 else 0) OR
     (if th_psh h then 0b00001000 else 0) OR (if th_rst h then 0b00000100 else 0) OR
     (if th_syn h then 0b00000010 else 0) OR (if th_fin h then 0b00000001 else 0)"

definition tcp_header_serialize :: "tcp_header \<Rightarrow> exn + bytes" where
  "tcp_header_serialize h =
     (if th_doff h < 5 then Inl (Runtime_error ''TCP header too short'')
      else
        (let ret = [];
             ret = nu_u16 ret (th_sport h);
             ret = nu_u16 ret (th_dport h);
             ret = nu_u32 ret (th_seqno h);
             ret = nu_u32 ret (th_ackno h);
             ret = nu_u8 ret (push_bit 4 (th_doff h));
             ret = nu_u8 ret (tcp_flags h);
             ret = nu_u16 ret (th_win h);
             ret = nu_u16 ret (th_cksum h);
             ret = nu_u16 ret (th_uptr h)
         in Inr (resize (4 * unat (th_doff h)) ret)))"

text \<open>\<^verbatim>\<open>operator==\<close> leaves out the ports and the checksum.\<close>

definition tcp_header_eq :: "tcp_header \<Rightarrow> tcp_header \<Rightarrow> bool" where
  "tcp_header_eq a b \<longleftrightarrow>
     th_seqno a = th_seqno b \<and> th_ackno a = th_ackno b \<and> th_doff a = th_doff b \<and> th_urg a = th_urg b \<and>
     th_ack a = th_ack b \<and> th_psh a = th_psh b \<and> th_rst a = th_rst b \<and> th_syn a = th_syn b \<and>
     th_fin a = th_fin b \<and> th_win a = th_win b \<and> th_uptr a = th_uptr b"

record tcp_segment =
  sg_header :: tcp_header
  sg_payload :: bytes

definition tcp_segment_new :: tcp_segment where
  "tcp_segment_new = \<lparr>sg_header = tcp_header_new, sg_payload = []\<rparr>"

definition tcp_segment_parse :: "bytes \<Rightarrow> u32 \<Rightarrow> tcp_segment \<Rightarrow> parse_result \<times> tcp_segment" where
  "tcp_segment_parse buf datagram_layer_checksum this =
     (let check = ic_add buf (ic_new datagram_layer_checksum)
      in if ic_value check \<noteq> 0 then (BadChecksum, this)
         else
           (let (_, h, p) = tcp_header_parse (net_parser_new buf)
            in (np_error p, this\<lparr>sg_header := h, sg_payload := np_buffer p\<rparr>)))"

definition length_in_sequence_space :: "tcp_segment \<Rightarrow> nat" where
  "length_in_sequence_space seg =
     length (sg_payload seg) + (if th_syn (sg_header seg) then 1 else 0) +
     (if th_fin (sg_header seg) then 1 else 0)"

definition tcp_segment_serialize :: "u32 \<Rightarrow> tcp_segment \<Rightarrow> exn + bytes" where
  "tcp_segment_serialize datagram_layer_checksum seg =
     (let header_out = (sg_header seg)\<lparr>th_cksum := 0\<rparr>
      in case tcp_header_serialize header_out of
           Inl e \<Rightarrow> Inl e
         | Inr hdr \<Rightarrow>
             (let check = ic_add hdr (ic_new datagram_layer_checksum);
                  check = ic_add (sg_payload seg) check;
                  header_out = header_out\<lparr>th_cksum := ic_value check\<rparr>
              in case tcp_header_serialize header_out of
                   Inl e \<Rightarrow> Inl e
                 | Inr hdr \<Rightarrow> Inr (hdr @ sg_payload seg)))"

subsection \<open>Lemmas\<close>

lemma tcp_flags_bits:
  "(tcp_flags h AND 0b00100000 \<noteq> 0) = th_urg h" "(tcp_flags h AND 0b00010000 \<noteq> 0) = th_ack h"
  "(tcp_flags h AND 0b00001000 \<noteq> 0) = th_psh h" "(tcp_flags h AND 0b00000100 \<noteq> 0) = th_rst h"
  "(tcp_flags h AND 0b00000010 \<noteq> 0) = th_syn h" "(tcp_flags h AND 0b00000001 \<noteq> 0) = th_fin h"
  by (cases "th_urg h"; cases "th_ack h"; cases "th_psh h"; cases "th_rst h"; cases "th_syn h"; cases "th_fin h";
      simp add: tcp_flags_def)+

lemma drop_push_nibble: "d < 16 \<Longrightarrow> drop_bit 4 (push_bit 4 d) = (d :: byte)"
proof -
  assume "d < 16"
  then have "unat d < 16" by (simp add: word_less_nat_alt)
  then show ?thesis
    by (simp add: word_unat_eq_iff drop_bit_eq_div push_bit_eq_mult unat_div_distrib unat_word_ariths)
qed

text \<open>The bytes before and after the checksum field.\<close>

definition tcp_pre :: "tcp_header \<Rightarrow> bytes" where
  "tcp_pre h = be_bytes (th_sport h) @ be_bytes (th_dport h) @ be_bytes (th_seqno h) @ be_bytes (th_ackno h) @
     be_bytes (push_bit 4 (th_doff h)) @ be_bytes (tcp_flags h) @ be_bytes (th_win h)"

definition tcp_post :: "tcp_header \<Rightarrow> bytes" where
  "tcp_post h = be_bytes (th_uptr h) @ replicate (4 * unat (th_doff h) - 20) 0"

lemma tcp_pre_length: "length (tcp_pre h) = 16" "length (tcp_post h) = 2 + (4 * unat (th_doff h) - 20)"
  by (simp_all add: tcp_pre_def tcp_post_def)

lemma tcp_pre_cksum [simp]:
  "tcp_pre (h\<lparr>th_cksum := c\<rparr>) = tcp_pre h" "tcp_post (h\<lparr>th_cksum := c\<rparr>) = tcp_post h"
  by (simp_all add: tcp_pre_def tcp_post_def tcp_flags_def)

lemma tcp_serialize_eq:
  assumes "5 \<le> th_doff h"
  shows "tcp_header_serialize h = Inr (tcp_pre h @ be_bytes (th_cksum h) @ tcp_post h)"
proof -
  have "5 \<le> unat (th_doff h)" using assms by (simp add: word_le_nat_alt)
  with assms show ?thesis
    by (simp add: tcp_header_serialize_def tcp_pre_def tcp_post_def put_simps resize_longer not_less [symmetric])
qed

lemma tcp_parse_serialized:
  assumes "5 \<le> th_doff h" "th_doff h < 16"
  shows "tcp_header_parse (net_parser_new ((tcp_pre h @ be_bytes (th_cksum h) @ tcp_post h) @ rest)) =
    (NoError, h, net_parser_new rest)"
proof -
  have n: "\<not> th_doff h < 5" using assms(1) by simp
  show ?thesis
    using n assms(2)
    by (simp add: tcp_header_parse_def Let_def net_parser_new_def tcp_pre_def tcp_post_def parse_simps
        drop_push_nibble tcp_flags_bits mult.commute cong: prod.case_cong_weak)
qed

definition tcp_header_wf :: "tcp_header \<Rightarrow> bool" where
  "tcp_header_wf h \<longleftrightarrow> 5 \<le> th_doff h \<and> th_doff h < 16"

interpretation tcp_wire: wire_format tcp_header_wf tcp_header_serialize tcp_header_parse
proof unfold_locales
  fix h
  assume h: "tcp_header_wf h"
  let ?bs = "tcp_pre h @ be_bytes (th_cksum h) @ tcp_post h"
  have "tcp_header_serialize h = Inr ?bs" using h by (simp add: tcp_serialize_eq tcp_header_wf_def)
  moreover have "tcp_header_parse (net_parser_new (?bs @ rest)) = (NoError, h, net_parser_new rest)" for rest
    by (rule tcp_parse_serialized) (use h in \<open>simp_all add: tcp_header_wf_def\<close>)
  ultimately show "\<exists>bs. tcp_header_serialize h = Inr bs \<and>
      (\<forall>rest. tcp_header_parse (net_parser_new (bs @ rest)) = (NoError, h, net_parser_new rest))"
    by blast
qed

text \<open>A serialized segment: the checksum field holds the value computed with a zero field.\<close>

lemma tcp_segment_serialize_eq:
  assumes "5 \<le> th_doff (sg_header seg)"
    and c_def: "c = ic_value (ic_add (tcp_pre (sg_header seg) @ nu_u16 [] 0 @ tcp_post (sg_header seg) @
      sg_payload seg) (ic_new s))"
  shows "tcp_segment_serialize s seg =
    Inr ((tcp_pre (sg_header seg) @ be_bytes c @ tcp_post (sg_header seg)) @ sg_payload seg)"
  using assms(1) unfolding tcp_segment_serialize_def c_def
  by (simp add: tcp_serialize_eq ic_add_append Let_def put_simps)

lemma tcp_segment_roundtrip_lemma:
  assumes wf: "tcp_header_wf (sg_header seg)"
    and len: "4 * unat (th_doff (sg_header seg)) + length (sg_payload seg) \<le> 65535"
    and s: "unat s < 2 ^ 20"
  shows "\<exists>bs c. tcp_segment_serialize s seg = Inr bs \<and>
    tcp_segment_parse bs s this = (NoError, this\<lparr>sg_header := (sg_header seg)\<lparr>th_cksum := c\<rparr>,
      sg_payload := sg_payload seg\<rparr>)"
proof -
  let ?h = "sg_header seg"
  define c where "c = ic_value (ic_add (tcp_pre ?h @ nu_u16 [] 0 @ tcp_post ?h @ sg_payload seg) (ic_new s))"
  let ?bs = "(tcp_pre ?h @ be_bytes c @ tcp_post ?h) @ sg_payload seg"
  have doff: "5 \<le> th_doff ?h" "th_doff ?h < 16" using wf by (simp_all add: tcp_header_wf_def)
  have ser: "tcp_segment_serialize s seg = Inr ?bs" by (rule tcp_segment_serialize_eq [OF doff(1) c_def])
  have "5 \<le> unat (th_doff ?h)" using doff(1) by (simp add: word_le_nat_alt)
  then have "length (tcp_pre ?h @ nu_u16 [] 0 @ tcp_post ?h @ sg_payload seg) \<le> 65535"
    using len by (simp add: tcp_pre_length put_simps)
  then have "unit_sum False (tcp_pre ?h @ nu_u16 [] 0 @ tcp_post ?h @ sg_payload seg) \<le> 65280 * 65535"
    using unit_sum_bound [of False "tcp_pre ?h @ nu_u16 [] 0 @ tcp_post ?h @ sg_payload seg"] by simp
  then have "ic_value (ic_add (tcp_pre ?h @ nu_u16 [] c @ tcp_post ?h @ sg_payload seg) (ic_new s)) = 0"
    using s by (intro ic_store_checks [OF _ _ c_def]) (simp_all add: tcp_pre_length)
  then have check: "ic_value (ic_add ?bs (ic_new s)) = 0" by (simp add: put_simps)
  have "tcp_header_parse (net_parser_new ?bs) = (NoError, ?h\<lparr>th_cksum := c\<rparr>, net_parser_new (sg_payload seg))"
    using tcp_parse_serialized [of "?h\<lparr>th_cksum := c\<rparr>" "sg_payload seg"] doff by simp
  then have "tcp_segment_parse ?bs s this =
      (NoError, this\<lparr>sg_header := ?h\<lparr>th_cksum := c\<rparr>, sg_payload := sg_payload seg\<rparr>)"
    unfolding tcp_segment_parse_def Let_def check by (simp add: net_parser_new_def)
  with ser show ?thesis by blast
qed

text \<open>Segments under one pseudo-header sum are an instance of the interface \<open>message_format\<close>: they agree up to the
  checksum.\<close>

definition seg_wf :: "u32 \<Rightarrow> tcp_segment \<Rightarrow> bool" where
  "seg_wf s seg \<longleftrightarrow> tcp_header_wf (sg_header seg) \<and>
     4 * unat (th_doff (sg_header seg)) + length (sg_payload seg) \<le> 65535 \<and> unat s < 2 ^ 20"

definition same_segment :: "tcp_segment \<Rightarrow> tcp_segment \<Rightarrow> bool" where
  "same_segment a b \<longleftrightarrow>
     (sg_header a)\<lparr>th_cksum := 0\<rparr> = (sg_header b)\<lparr>th_cksum := 0\<rparr> \<and> sg_payload a = sg_payload b"

interpretation segm: message_format "seg_wf s" "tcp_segment_serialize s" "\<lambda>bs. tcp_segment_parse bs s tcp_segment_new"
  same_segment for s
proof unfold_locales
  fix seg
  assume "seg_wf s seg"
  then obtain bs c where ser: "tcp_segment_serialize s seg = Inr bs" and par: "tcp_segment_parse bs s tcp_segment_new =
      (NoError, tcp_segment_new\<lparr>sg_header := (sg_header seg)\<lparr>th_cksum := c\<rparr>, sg_payload := sg_payload seg\<rparr>)"
    using tcp_segment_roundtrip_lemma [of seg s tcp_segment_new] by (auto simp: seg_wf_def)
  have "same_segment seg (tcp_segment_new\<lparr>sg_header := (sg_header seg)\<lparr>th_cksum := c\<rparr>, sg_payload := sg_payload seg\<rparr>)"
    by (simp add: same_segment_def)
  with ser par show "\<exists>bs seg'. tcp_segment_serialize s seg = Inr bs \<and>
      tcp_segment_parse bs s tcp_segment_new = (NoError, seg') \<and> same_segment seg seg'" by blast
next
  show "same_segment a m \<Longrightarrow> same_segment b m \<Longrightarrow> same_segment a b" for a b m by (simp add: same_segment_def)
qed

subsection \<open>Properties\<close>

text \<open>C33. Wire round trip of a TCP segment: every segment whose header length is one that the 4-bit field
  can hold and whose payload fits a datagram is serialized, and parsing the bytes under the same
  pseudo-header sum passes the checksum test and returns the same header (with the checksum filled in) and
  payload.\<close>

theorem tcp_segment_roundtrip:
  assumes "5 \<le> th_doff (sg_header seg)" "th_doff (sg_header seg) < 16"
    and "length (sg_payload seg) \<le> 65475" "unat s < 2 ^ 20"
  shows "\<exists>bs c. tcp_segment_serialize s seg = Inr bs \<and>
    tcp_segment_parse bs s tcp_segment_new =
      (NoError, \<lparr>sg_header = (sg_header seg)\<lparr>th_cksum := c\<rparr>, sg_payload = sg_payload seg\<rparr>)"
proof -
  have "unat (th_doff (sg_header seg)) < 16" using assms(2) by (simp add: word_less_nat_alt)
  with tcp_segment_roundtrip_lemma [of seg s tcp_segment_new] assms show ?thesis
    by (simp add: tcp_header_wf_def tcp_segment_new_def)
qed

theorem tcp_segment_roundtrip_witness:
  "\<exists>bs c. tcp_segment_serialize 7 \<lparr>sg_header = tcp_header_new\<lparr>th_syn := True, th_seqno := 9\<rparr>, sg_payload = [1, 2]\<rparr>
       = Inr bs \<and>
     tcp_segment_parse bs 7 tcp_segment_new =
       (NoError, \<lparr>sg_header = tcp_header_new\<lparr>th_syn := True, th_seqno := 9, th_cksum := c\<rparr>, sg_payload = [1, 2]\<rparr>)"
  using tcp_segment_roundtrip [of "\<lparr>sg_header = tcp_header_new\<lparr>th_syn := True, th_seqno := 9\<rparr>, sg_payload = [1, 2]\<rparr>" 7]
  by (simp add: tcp_header_new_def)

text \<open>The header parser: a header that was serialized is read back whatever follows it, and different
  headers have different serializations, none a prefix of another.\<close>

theorem tcp_header_wire:
  assumes "5 \<le> th_doff a" "th_doff a < 16" "5 \<le> th_doff b" "th_doff b < 16"
    and "tcp_header_serialize a = Inr x" "tcp_header_serialize b = Inr (x @ y)"
  shows "a = b \<and> y = [] \<and> tcp_header_parse (net_parser_new (x @ rest)) = (NoError, a, net_parser_new rest)"
  using tcp_wire.ser_prefix_free [OF _ _ assms(5,6)] tcp_wire.par_ser [OF _ assms(5)] assms(1-4)
  by (simp add: tcp_header_wf_def)

theorem tcp_header_wire_witness:
  "\<exists>x. tcp_header_serialize tcp_header_new = Inr x \<and>
     tcp_header_parse (net_parser_new (x @ [1])) = (NoError, tcp_header_new, net_parser_new [1])"
proof -
  have wf: "5 \<le> th_doff tcp_header_new" "th_doff tcp_header_new < 16" by (simp_all add: tcp_header_new_def)
  obtain x where x: "tcp_header_serialize tcp_header_new = Inr x" using tcp_serialize_eq [OF wf(1)] by blast
  then have "tcp_header_serialize tcp_header_new = Inr (x @ [])" by simp
  from tcp_header_wire [OF wf wf x this] x show ?thesis by blast
qed

text \<open>A header whose length field is below the minimum makes the header parser answer
  \<open>HeaderTooShort\<close>, but the segment parser drops that answer: it reports \<open>NoError\<close>.\<close>

lemma tcp_header_too_short_ignored:
  fixes payload :: bytes
  assumes "th_doff h < 5" and len: "length payload \<le> 65475" and s: "unat s < 2 ^ 20"
  shows "\<exists>bs c. bs = tcp_pre h @ be_bytes (c :: u16) @ be_bytes (th_uptr h) @ payload \<and>
    fst (tcp_header_parse (net_parser_new bs)) = HeaderTooShort \<and>
    fst (tcp_segment_parse bs s this) = NoError"
proof -
  let ?post = "be_bytes (th_uptr h) @ payload"
  define c where "c = ic_value (ic_add (tcp_pre h @ nu_u16 [] 0 @ ?post) (ic_new s))"
  let ?bs = "tcp_pre h @ be_bytes c @ ?post"
  have "length (tcp_pre h @ nu_u16 [] 0 @ ?post) \<le> 65535"
    using len by (simp add: tcp_pre_length put_simps)
  then have "unit_sum False (tcp_pre h @ nu_u16 [] 0 @ ?post) \<le> 65280 * 65535"
    using unit_sum_bound [of False "tcp_pre h @ nu_u16 [] 0 @ ?post"] by simp
  then have "ic_value (ic_add (tcp_pre h @ nu_u16 [] c @ ?post) (ic_new s)) = 0"
    using s by (intro ic_store_checks [OF _ _ c_def]) (simp_all add: tcp_pre_length)
  then have check: "ic_value (ic_add ?bs (ic_new s)) = 0" by (simp add: put_simps)
  have "th_doff h < 16" using assms(1) by (rule order_less_trans) simp
  then have parse: "tcp_header_parse (net_parser_new ?bs) =
      (HeaderTooShort, h\<lparr>th_cksum := c\<rparr>, net_parser_new payload)"
    using assms(1)
    by (simp add: tcp_header_parse_def Let_def net_parser_new_def tcp_pre_def parse_simps
        drop_push_nibble tcp_flags_bits cong: prod.case_cong_weak)
  have "fst (tcp_segment_parse ?bs s this) = NoError"
    unfolding tcp_segment_parse_def Let_def check parse by (simp add: net_parser_new_def)
  with parse have "?bs = tcp_pre h @ be_bytes c @ be_bytes (th_uptr h) @ payload \<and>
      fst (tcp_header_parse (net_parser_new ?bs)) = HeaderTooShort \<and> fst (tcp_segment_parse ?bs s this) = NoError"
    by simp
  then show ?thesis by blast
qed

end
