(* ===== verification/TCP_Receiver.thy ===== *)
theory TCP_Receiver
  imports Stream_Reassembler TCP_Segment
begin

text \<open>
  \<^verbatim>\<open>libsponge/tcp_receiver.{hh,cc}\<close>: the receiver places the payload of a segment in the stream by
  unwrapping its sequence number near the first byte not yet reassembled, and answers with an
  acknowledgment number and a window.  The lemmas are stated for the stream \<open>S\<close> that the peer sends with the
  initial sequence number \<open>i\<close>: a segment that carries an excerpt of \<open>S\<close> at the sequence number that belongs
  to it makes the receiver take in exactly the part inside the window.
\<close>

record tcp_receiver =
  rc_reassembler :: stream_reassembler
  rc_capacity :: nat
  rc_recieve_isn :: bool
  rc_isn :: wrapping_int32

definition tcp_receiver_new :: "nat \<Rightarrow> tcp_receiver" where
  "tcp_receiver_new capacity =
     \<lparr>rc_reassembler = sr_new capacity, rc_capacity = capacity, rc_recieve_isn = False, rc_isn = 0\<rparr>"

definition rc_stream_out :: "tcp_receiver \<Rightarrow> byte_stream" where
  "rc_stream_out r = sr_outputStream (rc_reassembler r)"

definition rc_segment_received :: "tcp_segment \<Rightarrow> tcp_receiver \<Rightarrow> tcp_receiver" where
  "rc_segment_received seg r0 =
     (let hdr = sg_header seg;
          r = (if th_syn hdr then r0\<lparr>rc_recieve_isn := True, rc_isn := wrap 1 (th_seqno hdr)\<rparr> else r0)
      in if \<not> rc_recieve_isn r then r
         else
           (let check_point = bs_bytes_written (rc_stream_out r);
                win_left = check_point;
                win_right = sub64 (add64 (sub64 (rc_capacity r) (bs_buffer_size (rc_stream_out r))) win_left) 1;
                seg_start = (if th_syn hdr then 0 else unwrap (th_seqno hdr) (rc_isn r) check_point)
            in if seg_start > win_right \<or> add64 seg_start (length_in_sequence_space seg) \<le> win_left then r
               else r\<lparr>rc_reassembler := push_substring (sg_payload seg) seg_start (th_fin hdr) (rc_reassembler r)\<rparr>))"

definition rc_ackno :: "tcp_receiver \<Rightarrow> wrapping_int32 option" where
  "rc_ackno r =
     (if rc_recieve_isn r then
        (if bs_input_ended (rc_stream_out r)
         then Some (wrap (add64 1 (bs_bytes_written (rc_stream_out r))) (rc_isn r))
         else Some (wrap (bs_bytes_written (rc_stream_out r)) (rc_isn r)))
      else None)"

definition rc_window_size :: "tcp_receiver \<Rightarrow> nat" where
  "rc_window_size r = sub64 (rc_capacity r) (bs_buffer_size (rc_stream_out r))"

definition rc_unassembled_bytes :: "tcp_receiver \<Rightarrow> nat" where
  "rc_unassembled_bytes r = sr_unassembled_bytes (rc_reassembler r)"

text \<open>The application reads through \<^verbatim>\<open>stream_out()\<close>.\<close>

definition rc_read :: "nat \<Rightarrow> tcp_receiver \<Rightarrow> tcp_receiver \<times> bytes" where
  "rc_read n r = (case sr_read n (rc_reassembler r) of (ra, out) \<Rightarrow> (r\<lparr>rc_reassembler := ra\<rparr>, out))"

text \<open>A use of the receiver: segments arrive and the application reads; the state carries what it has read.\<close>

datatype rc_op = Segment tcp_segment | ReadOut nat

fun rc_step :: "tcp_receiver \<times> bytes \<Rightarrow> rc_op \<Rightarrow> tcp_receiver \<times> bytes" where
  "rc_step (r, outs) (Segment seg) = (rc_segment_received seg r, outs)"
| "rc_step (r, outs) (ReadOut n) = (case rc_read n r of (r', out) \<Rightarrow> (r', outs @ out))"

subsection \<open>Specification\<close>

text \<open>A segment of the stream \<open>S\<close> with initial sequence number \<open>i\<close>, its payload starting at index \<open>idx\<close>.\<close>

definition segment_of :: "bytes \<Rightarrow> wrapping_int32 \<Rightarrow> nat \<Rightarrow> tcp_segment \<Rightarrow> bool" where
  "segment_of S i idx seg \<longleftrightarrow>
     excerpt S (sg_payload seg) idx (th_fin (sg_header seg)) \<and>
     (if th_syn (sg_header seg) then idx = 0 \<and> th_seqno (sg_header seg) = i
      else th_seqno (sg_header seg) = wrap (idx + 1) i)"

text \<open>The segments considered: those that occupy no sequence number (they may carry any number), and
  segments of the stream whose index a 32-bit sequence number identifies, less than \<open>2^31\<close> from the next byte
  expected.\<close>

definition rc_allowed :: "bytes \<Rightarrow> wrapping_int32 \<Rightarrow> tcp_receiver \<times> bytes \<Rightarrow> rc_op \<Rightarrow> bool" where
  "rc_allowed S i s op =
     (case op of
        Segment seg \<Rightarrow> length_in_sequence_space seg = 0 \<or>
          (\<exists>idx. segment_of S i idx seg \<and> adist idx (sr_cur_idx (rc_reassembler (fst s))) < 2 ^ 31)
      | ReadOut n \<Rightarrow> True)"

definition rc_core :: "bytes \<Rightarrow> wrapping_int32 \<Rightarrow> tcp_receiver \<Rightarrow> bool" where
  "rc_core S i r \<longleftrightarrow>
     sr_inv S (rc_reassembler r) \<and> sr_capacity (rc_reassembler r) = rc_capacity r \<and>
     (rc_recieve_isn r \<longrightarrow> rc_isn r = i + 1)"

definition rc_inv :: "bytes \<Rightarrow> wrapping_int32 \<Rightarrow> tcp_receiver \<times> bytes \<Rightarrow> bool" where
  "rc_inv S i s \<longleftrightarrow> rc_core S i (fst s) \<and>
     snd s @ bs_buffer (rc_stream_out (fst s)) = take (sr_cur_idx (rc_reassembler (fst s))) S"

definition rc_start :: "bytes \<Rightarrow> nat \<Rightarrow> tcp_receiver \<times> bytes \<Rightarrow> bool" where
  "rc_start S capacity s \<longleftrightarrow>
     s = (tcp_receiver_new capacity, []) \<and> 0 < capacity \<and> length S < 4294967295 \<and> length S + capacity < U64"

subsection \<open>Lemmas\<close>

lemma wrap_Suc: "wrap (Suc n) i = wrap n (i + 1)"
  by (simp add: wrap_alt)

lemma rc_core_window:
  assumes "rc_core S i r"
  shows "bs_bytes_written (rc_stream_out r) = sr_cur_idx (rc_reassembler r)"
    and "sub64 (rc_capacity r) (bs_buffer_size (rc_stream_out r)) = sr_room (rc_reassembler r)"
    and "sub64 (add64 (sr_room (rc_reassembler r)) (sr_cur_idx (rc_reassembler r))) 1 =
      (if sr_limit (rc_reassembler r) = 0 then U64 - 1 else sr_limit (rc_reassembler r) - 1)"
    and "sr_cur_idx (rc_reassembler r) < 4294967295"
proof -
  have core: "sr_core S (rc_reassembler r)" and cap: "sr_capacity (rc_reassembler r) = rc_capacity r"
    using assms by (auto simp: rc_core_def sr_inv_def)
  note c = sr_coreD [OF core]
  show "bs_bytes_written (rc_stream_out r) = sr_cur_idx (rc_reassembler r)"
    by (simp add: bs_bytes_written_def rc_stream_out_def c(7))
  have "rc_capacity r < U64" using c(5) cap by simp
  with c(14) cap show "sub64 (rc_capacity r) (bs_buffer_size (rc_stream_out r)) = sr_room (rc_reassembler r)"
    by (simp add: sr_room_def bs_buffer_size_def rc_stream_out_def no_wrap)
  have "sr_room (rc_reassembler r) \<le> sr_capacity (rc_reassembler r)" by (simp add: sr_room_def)
  then have "sr_room (rc_reassembler r) + sr_cur_idx (rc_reassembler r) < U64" using c(5,6) by simp
  then show "sub64 (add64 (sr_room (rc_reassembler r)) (sr_cur_idx (rc_reassembler r))) 1 =
      (if sr_limit (rc_reassembler r) = 0 then U64 - 1 else sr_limit (rc_reassembler r) - 1)"
    by (simp add: sr_limit_def no_wrap add.commute sub64_wrap)
  show "sr_cur_idx (rc_reassembler r) < 4294967295" using c(4,6) by simp
qed

text \<open>The position computed for a segment of the stream is its index.\<close>

lemma seg_start_eq:
  assumes "segment_of S i idx seg" "cur < 4294967295" "adist idx cur < 2 ^ 31"
  shows "(if th_syn (sg_header seg) then 0 else unwrap (th_seqno (sg_header seg)) (i + 1) cur) = idx"
proof (cases "th_syn (sg_header seg)")
  case False
  then have "th_seqno (sg_header seg) = wrap idx (i + 1)"
    using assms(1) by (simp add: segment_of_def wrap_Suc)
  moreover have "unwrap (wrap idx (i + 1)) (i + 1) cur = idx"
    by (rule seqno.unwr_wr) (use assms in simp_all)
  ultimately show ?thesis using False by simp
qed (use assms(1) in \<open>simp add: segment_of_def\<close>)

text \<open>What one segment does, as a change of the reassembler.\<close>

definition rc_accepts :: "nat \<Rightarrow> tcp_segment \<Rightarrow> tcp_receiver \<Rightarrow> bool" where
  "rc_accepts idx seg r \<longleftrightarrow>
     (rc_recieve_isn r \<or> th_syn (sg_header seg)) \<and> idx < sr_limit (rc_reassembler r) \<and>
     sr_cur_idx (rc_reassembler r) < idx + length_in_sequence_space seg"

lemma rc_segment_received_eq:
  assumes core: "rc_core S i r" and seg: "segment_of S i idx seg"
    and near: "adist idx (sr_cur_idx (rc_reassembler r)) < 2 ^ 31"
  shows "rc_segment_received seg r =
    r\<lparr>rc_recieve_isn := rc_recieve_isn r \<or> th_syn (sg_header seg),
      rc_isn := (if th_syn (sg_header seg) then i + 1 else rc_isn r),
      rc_reassembler := (if rc_accepts idx seg r
        then push_substring (sg_payload seg) idx (th_fin (sg_header seg)) (rc_reassembler r)
        else rc_reassembler r)\<rparr>"
proof (cases "rc_recieve_isn r \<or> th_syn (sg_header seg)")
  case False
  then show ?thesis by (simp add: rc_segment_received_def rc_accepts_def)
next
  case True
  let ?ra = "rc_reassembler r"
  let ?r1 = "if th_syn (sg_header seg)
    then r\<lparr>rc_recieve_isn := True, rc_isn := wrap 1 (th_seqno (sg_header seg))\<rparr> else r"
  have inv: "sr_inv S ?ra" using core by (simp add: rc_core_def)
  have r1: "?r1 = r\<lparr>rc_recieve_isn := True,
      rc_isn := (if th_syn (sg_header seg) then i + 1 else rc_isn r)\<rparr>"
    using True seg by (auto simp: segment_of_def wrap_alt add.commute)
  have isn: "rc_isn ?r1 = i + 1" unfolding r1 using core True by (auto simp: rc_core_def)
  note w = rc_core_window [OF core]
  have "excerpt S (sg_payload seg) idx (th_fin (sg_header seg))" using seg by (simp add: segment_of_def)
  then have idx: "idx + length (sg_payload seg) \<le> length S" by (simp add: excerpt_def)
  moreover have "length S < 4294967295" using inv sr_coreD(4) by (auto simp: sr_inv_def)
  ultimately have len: "add64 idx (length_in_sequence_space seg) = idx + length_in_sequence_space seg"
    by (intro add64_id) (auto simp: length_in_sequence_space_def)
  have lim: "(if sr_limit ?ra = 0 then U64 - 1 else sr_limit ?ra - 1) < idx \<longleftrightarrow> \<not> idx < sr_limit ?ra"
  proof -
    have "sr_limit ?ra \<noteq> 0"
      using inv sr_coreD(3,8) [of S ?ra] sr_limit_capacity [OF inv] by (auto simp: sr_inv_def)
    then show ?thesis by auto
  qed
  have so: "rc_stream_out ?r1 = rc_stream_out r" "rc_capacity ?r1 = rc_capacity r" "rc_recieve_isn ?r1"
    "rc_reassembler ?r1 = ?ra"
    unfolding r1 by (simp_all add: rc_stream_out_def)
  note st = seg_start_eq [OF seg w(4) near]
  have "rc_segment_received seg r = (if \<not> idx < sr_limit ?ra \<or> idx + length_in_sequence_space seg \<le> sr_cur_idx ?ra
      then ?r1 else ?r1\<lparr>rc_reassembler := push_substring (sg_payload seg) idx (th_fin (sg_header seg)) ?ra\<rparr>)"
    unfolding rc_segment_received_def Let_def so isn w st len lim by (simp add: so)
  also have "\<dots> = r\<lparr>rc_recieve_isn := True, rc_isn := (if th_syn (sg_header seg) then i + 1 else rc_isn r),
      rc_reassembler := (if rc_accepts idx seg r
        then push_substring (sg_payload seg) idx (th_fin (sg_header seg)) ?ra else ?ra)\<rparr>"
    unfolding r1 rc_accepts_def using True by (auto simp: not_less)
  finally show ?thesis using True by simp
qed

lemma rc_segment_spec:
  assumes core: "rc_core S i r" and seg: "segment_of S i idx seg"
    and near: "adist idx (sr_cur_idx (rc_reassembler r)) < 2 ^ 31"
    and r': "r' = rc_segment_received seg r"
  shows "rc_core S i r'" "rc_capacity r' = rc_capacity r"
    "sr_limit (rc_reassembler r') = sr_limit (rc_reassembler r)"
    "sr_covered (rc_reassembler r') = sr_covered (rc_reassembler r) \<union>
      (if rc_recieve_isn r \<or> th_syn (sg_header seg)
       then {idx ..< idx + length (sg_payload seg)} \<inter> {..< sr_limit (rc_reassembler r)} else {})"
    "rc_recieve_isn r' \<longleftrightarrow> rc_recieve_isn r \<or> th_syn (sg_header seg)"
proof -
  let ?ra = "rc_reassembler r" and ?t = "{idx ..< idx + length (sg_payload seg)} \<inter> {..< sr_limit (rc_reassembler r)}"
  note eq = rc_segment_received_eq [OF core seg near, folded r']
  have inv: "sr_inv S ?ra" using core by (simp add: rc_core_def)
  have ex: "excerpt S (sg_payload seg) idx (th_fin (sg_header seg))" using seg by (simp add: segment_of_def)
  note p = push_substring_spec [OF inv ex, unfolded push_ok_def]
  show "rc_recieve_isn r' \<longleftrightarrow> rc_recieve_isn r \<or> th_syn (sg_header seg)" by (simp add: eq)
  have "sr_inv S (rc_reassembler r') \<and> sr_capacity (rc_reassembler r') = sr_capacity ?ra \<and>
      sr_limit (rc_reassembler r') = sr_limit ?ra"
    using p inv by (simp add: eq)
  with core show "rc_core S i r'" "rc_capacity r' = rc_capacity r"
    "sr_limit (rc_reassembler r') = sr_limit (rc_reassembler r)"
    by (auto simp: rc_core_def eq)
  have "?t \<subseteq> sr_covered ?ra" if "rc_recieve_isn r \<or> th_syn (sg_header seg)" "\<not> rc_accepts idx seg r"
  proof -
    from that have "\<not> idx < sr_limit ?ra \<or> idx + length (sg_payload seg) \<le> sr_cur_idx ?ra"
      by (auto simp: rc_accepts_def length_in_sequence_space_def)
    then show ?thesis by (auto simp: sr_covered_def)
  qed
  then show "sr_covered (rc_reassembler r') = sr_covered ?ra \<union>
      (if rc_recieve_isn r \<or> th_syn (sg_header seg) then ?t else {})"
    using p by (auto simp: eq rc_accepts_def)
qed

lemma rc_segment_empty:
  assumes core: "rc_core S i r" and empty: "length_in_sequence_space seg = 0"
  shows "rc_segment_received seg r = r"
proof -
  let ?ra = "rc_reassembler r"
  have seg: "sg_payload seg = []" "\<not> th_syn (sg_header seg)" "\<not> th_fin (sg_header seg)"
    using empty by (auto simp: length_in_sequence_space_def split: if_splits)
  have "sr_inv S ?ra" using core by (simp add: rc_core_def)
  then have "sr_end_if_done ?ra = ?ra"
    by (cases "sr_cur_idx ?ra \<ge> sr_input_end_idx ?ra") (simp_all add: sr_end_if_done_def sr_inv_def bs_end_input_def)
  then have "push_substring [] idx False ?ra = ?ra" for idx
    by (simp add: push_substring_def)
  then show ?thesis using seg by (simp add: rc_segment_received_def Let_def)
qed

lemma rc_read_spec:
  assumes core: "rc_core S i r" and r': "rc_read n r = (r', out)"
  shows "rc_core S i r'" "rc_capacity r' = rc_capacity r"
    "sr_limit (rc_reassembler r) \<le> sr_limit (rc_reassembler r')"
    "sr_covered (rc_reassembler r') = sr_covered (rc_reassembler r)"
    "sr_cur_idx (rc_reassembler r') = sr_cur_idx (rc_reassembler r)"
    "rc_recieve_isn r' = rc_recieve_isn r"
    "bs_buffer (rc_stream_out r) = out @ bs_buffer (rc_stream_out r')"
proof -
  obtain ra where ra: "sr_read n (rc_reassembler r) = (ra, out)" "r' = r\<lparr>rc_reassembler := ra\<rparr>"
    using r' by (auto simp: rc_read_def split: prod.splits)
  have inv: "sr_inv S (rc_reassembler r)" using core by (simp add: rc_core_def)
  note d = sr_read_spec [OF inv ra(1)]
  from d core show "rc_core S i r'" "rc_capacity r' = rc_capacity r"
    "sr_limit (rc_reassembler r) \<le> sr_limit (rc_reassembler r')"
    "sr_covered (rc_reassembler r') = sr_covered (rc_reassembler r)"
    "sr_cur_idx (rc_reassembler r') = sr_cur_idx (rc_reassembler r)"
    "rc_recieve_isn r' = rc_recieve_isn r"
    "bs_buffer (rc_stream_out r) = out @ bs_buffer (rc_stream_out r')"
    by (simp_all add: ra(2) rc_core_def rc_stream_out_def)
qed

text \<open>The bytes read so far are the stream up to the start of the buffered bytes.\<close>

lemma rc_inv_alt:
  "rc_inv S i (r, outs) \<longleftrightarrow> rc_core S i r \<and>
     outs = take (sr_cur_idx (rc_reassembler r) - bs_size (rc_stream_out r)) S"
proof (cases "rc_core S i r")
  case True
  then have "take (sr_cur_idx (rc_reassembler r) - bs_size (rc_stream_out r)) S @ bs_buffer (rc_stream_out r) =
      take (sr_cur_idx (rc_reassembler r)) S"
    unfolding rc_stream_out_def by (intro sr_buffer_prefix) (simp add: rc_core_def)
  then show ?thesis using True by (auto simp: rc_inv_def dest: sym)
qed (simp add: rc_inv_def)

lemma rc_start_of_buffer:
  assumes "rc_core S i r"
  shows "sr_cur_idx (rc_reassembler r) - bs_size (rc_stream_out r) =
    sr_limit (rc_reassembler r) - rc_capacity r"
  using assms sr_limit_capacity [of S "rc_reassembler r"] by (simp add: rc_core_def rc_stream_out_def)

lemma rc_step_inv:
  assumes inv: "rc_inv S i s" and allowed: "rc_allowed S i s op"
  shows "rc_inv S i (rc_step s op)"
proof (cases s)
  case s: (Pair r outs)
  have core: "rc_core S i r" using inv s by (simp add: rc_inv_def)
  show ?thesis
  proof (cases op)
    case (Segment seg)
    show ?thesis
    proof (cases "length_in_sequence_space seg = 0")
      case True
      then show ?thesis using inv s Segment rc_segment_empty [OF core] by simp
    next
      case False
      then obtain idx where "segment_of S i idx seg" "adist idx (sr_cur_idx (rc_reassembler r)) < 2 ^ 31"
        using allowed s Segment by (auto simp: rc_allowed_def)
      from rc_segment_spec(1-3) [OF core this refl] inv core Segment s show ?thesis
        by (simp add: rc_inv_alt rc_start_of_buffer [where S = S and i = i])
    qed
  next
    case (ReadOut n)
    obtain r' out where r': "rc_read n r = (r', out)" by fastforce
    from rc_read_spec [OF core r'] inv ReadOut s r' show ?thesis by (simp add: rc_inv_def)
  qed
qed

lemma rc_start_inv: "rc_start S capacity s \<Longrightarrow> rc_inv S i s"
  by (simp add: rc_start_def rc_inv_def rc_core_def tcp_receiver_new_def sr_new_inv rc_stream_out_def)
    (simp add: sr_new_def bs_new_def)

interpretation rcv: step_system "rc_start S capacity" rc_step "rc_allowed S i" "rc_inv S i"
  for S capacity i
  by unfold_locales (auto intro: rc_start_inv rc_step_inv)

text \<open>The next index expected and the right edge of the window only move to the right.\<close>

lemma rc_step_mono:
  assumes inv: "rc_inv S i s" and allowed: "rc_allowed S i s op"
  shows "sr_cur_idx (rc_reassembler (fst s)) \<le> sr_cur_idx (rc_reassembler (fst (rc_step s op))) \<and>
    sr_limit (rc_reassembler (fst s)) \<le> sr_limit (rc_reassembler (fst (rc_step s op))) \<and>
    sr_covered (rc_reassembler (fst s)) \<subseteq> sr_covered (rc_reassembler (fst (rc_step s op)))"
proof -
  obtain r outs where s: "s = (r, outs)" by fastforce
  have core: "rc_core S i r" using inv s by (simp add: rc_inv_def)
  have main: "sr_limit (rc_reassembler r) \<le> sr_limit (rc_reassembler (fst (rc_step s op))) \<and>
      sr_covered (rc_reassembler r) \<subseteq> sr_covered (rc_reassembler (fst (rc_step s op)))"
  proof (cases op)
    case (Segment seg)
    show ?thesis
    proof (cases "length_in_sequence_space seg = 0")
      case True
      then show ?thesis using s Segment rc_segment_empty [OF core] by simp
    next
      case False
      then obtain idx where "segment_of S i idx seg" "adist idx (sr_cur_idx (rc_reassembler r)) < 2 ^ 31"
        using allowed s Segment by (auto simp: rc_allowed_def)
      from rc_segment_spec(3,4) [OF core this refl] Segment s show ?thesis by auto
    qed
  next
    case (ReadOut n)
    obtain r' out where r': "rc_read n r = (r', out)" by fastforce
    from rc_read_spec(3,4) [OF core r'] ReadOut s r' show ?thesis by simp
  qed
  have inv': "rc_inv S i (rc_step s op)" by (rule rc_step_inv [OF inv allowed])
  have "{..< sr_cur_idx (rc_reassembler r)} \<subseteq> sr_covered (rc_reassembler (fst (rc_step s op)))"
    using main sr_cur_least [of S "rc_reassembler r"] core by (auto simp: rc_core_def)
  moreover have "sr_cur_idx (rc_reassembler (fst (rc_step s op))) \<notin> sr_covered (rc_reassembler (fst (rc_step s op)))"
    using sr_cur_least [of S "rc_reassembler (fst (rc_step s op))"] inv' by (simp add: rc_inv_def rc_core_def)
  ultimately have "sr_cur_idx (rc_reassembler r) \<le> sr_cur_idx (rc_reassembler (fst (rc_step s op)))"
    by (meson lessThan_iff not_less subsetD)
  with main s show ?thesis by simp
qed

text \<open>The acknowledgment number is the sequence number of the first byte that has not arrived.\<close>

lemma rc_ackno_eq:
  assumes "rc_core S i r"
  shows "rc_ackno r = (if rc_recieve_isn r
    then Some (wrap (1 + sr_cur_idx (rc_reassembler r) + (if bs_input_ended (rc_stream_out r) then 1 else 0)) i)
    else None)"
proof (cases "rc_recieve_isn r")
  case True
  then have isn: "rc_isn r = i + 1" using assms by (simp add: rc_core_def)
  note w = rc_core_window [OF assms]
  have "add64 1 (sr_cur_idx (rc_reassembler r)) = 1 + sr_cur_idx (rc_reassembler r)"
    using w(4) by (simp add: no_wrap)
  with True isn w(1) show ?thesis by (simp add: rc_ackno_def wrap_Suc)
qed (simp add: rc_ackno_def)

lemma rc_window_size_eq:
  assumes "rc_core S i r"
  shows "rc_window_size r = sr_room (rc_reassembler r)"
    and "sr_cur_idx (rc_reassembler r) + rc_window_size r = sr_limit (rc_reassembler r)"
  using rc_core_window(2) [OF assms] by (simp_all add: rc_window_size_def sr_limit_def)

subsection \<open>Properties\<close>

text \<open>Integrity of the receiver: whatever segments of the peer's stream arrive, reordered, duplicated,
  overlapping or outside the window, interleaved with reads, the bytes the application has read followed by
  the bytes buffered are a prefix of the peer's stream, and if the stream is reported as ended they
  are the whole of it.\<close>

theorem receiver_stream_integrity:
  assumes "rc_start S capacity s" "allowed_run rc_step (rc_allowed S i) s ops"
    and "run_steps rc_step s ops = (r, outs)"
  shows "outs @ bs_buffer (rc_stream_out r) = take (sr_cur_idx (rc_reassembler r)) S \<and>
    (bs_input_ended (rc_stream_out r) \<longrightarrow> outs @ bs_buffer (rc_stream_out r) = S)"
proof -
  have inv: "rc_inv S i (r, outs)" using rcv.reachable_inv [OF assms(1,2)] assms(3) by simp
  then have "sr_inv S (rc_reassembler r)" by (simp add: rc_inv_def rc_core_def)
  with inv sr_ended_iff show ?thesis by (auto simp: rc_inv_def rc_stream_out_def)
qed

theorem receiver_stream_integrity_witness:
  "\<exists>r outs. run_steps rc_step (tcp_receiver_new 4, [])
     [Segment \<lparr>sg_header = tcp_header_new\<lparr>th_syn := True, th_seqno := 100\<rparr>, sg_payload = [1, 2]\<rparr>, ReadOut 1] = (r, outs) \<and>
     outs @ bs_buffer (rc_stream_out r) = take (sr_cur_idx (rc_reassembler r)) [1, 2, 3]"
proof -
  let ?ops = "[Segment \<lparr>sg_header = tcp_header_new\<lparr>th_syn := True, th_seqno := 100\<rparr>, sg_payload = [1, 2]\<rparr>, ReadOut 1]"
  have start: "rc_start [1, 2, 3] 4 (tcp_receiver_new 4, [])" by (simp add: rc_start_def)
  have "segment_of [1, 2, 3] 100 0 \<lparr>sg_header = tcp_header_new\<lparr>th_syn := True, th_seqno := 100\<rparr>, sg_payload = [1, 2]\<rparr>"
    by (simp add: segment_of_def tcp_header_new_def excerpt_def chunk_def)
  then have allowed: "allowed_run rc_step (rc_allowed [1, 2, 3] 100) (tcp_receiver_new 4, []) ?ops"
    by (auto simp: rc_allowed_def tcp_receiver_new_def sr_new_def adist_def)
  obtain r outs where "run_steps rc_step (tcp_receiver_new 4, []) ?ops = (r, outs)" by fastforce
  with receiver_stream_integrity [OF start allowed this] show ?thesis by blast
qed

text \<open>The history of a receiver, computed from the segments and the reads alone: whether a SYN has come, and what has arrived of the stream since.  An
  arrival is a segment with the index of its payload; it counts once there was a SYN and if it begins in the window.\<close>

datatype arrival = Arrive nat tcp_segment | Taken nat

fun event_of :: "arrival \<Rightarrow> rc_op" where
  "event_of (Arrive idx seg) = Segment seg"
| "event_of (Taken n) = ReadOut n"

fun hs_step :: "nat \<Rightarrow> bool \<times> arrivals \<Rightarrow> arrival \<Rightarrow> bool \<times> arrivals" where
  "hs_step capacity (syn, a) (Arrive idx seg) =
     (let syn = (syn \<or> th_syn (sg_header seg))
      in (syn, if syn \<and> idx < ar_read a + capacity then ar_push capacity (sg_payload seg) idx (th_fin (sg_header seg)) a else a))"
| "hs_step capacity (syn, a) (Taken n) = (syn, ar_take n a)"

text \<open>The segments considered, as in \<open>rc_allowed\<close>.\<close>

fun hs_allowed :: "bytes \<Rightarrow> wrapping_int32 \<Rightarrow> bool \<times> arrivals \<Rightarrow> arrival \<Rightarrow> bool" where
  "hs_allowed S i (syn, a) (Arrive idx seg) \<longleftrightarrow>
     length_in_sequence_space seg = 0 \<or> segment_of S i idx seg \<and> adist idx (first_gap (ar_held a)) < 2 ^ 31"
| "hs_allowed S i (syn, a) (Taken n) \<longleftrightarrow> True"

definition rc_sim :: "bytes \<Rightarrow> wrapping_int32 \<Rightarrow> nat \<Rightarrow> tcp_receiver \<Rightarrow> bool \<times> arrivals \<Rightarrow> bool" where
  "rc_sim S i capacity r h \<longleftrightarrow>
     rc_core S i r \<and> rc_capacity r = capacity \<and> rc_recieve_isn r = fst h \<and> sr_sim S (rc_reassembler r) (snd h)"

lemma rc_sim_segment:
  assumes sim: "rc_sim S i capacity r (syn, a)" and seg: "segment_of S i idx seg" "adist idx (first_gap (ar_held a)) < 2 ^ 31"
  shows "rc_sim S i capacity (rc_segment_received seg r) (hs_step capacity (syn, a) (Arrive idx seg))"
proof -
  let ?ra = "rc_reassembler r"
  have core: "rc_core S i r" and cap: "sr_capacity ?ra = capacity" and syn: "rc_recieve_isn r = syn" and s: "sr_sim S ?ra a"
    using sim by (simp_all add: rc_sim_def rc_core_def)
  note g = sr_sim_gap [OF s]
  have near: "adist idx (sr_cur_idx ?ra) < 2 ^ 31" using seg(2) by (simp add: g(1))
  note eq = rc_segment_received_eq [OF core seg(1) near]
  have ex: "excerpt S (sg_payload seg) idx (th_fin (sg_header seg))" using seg(1) by (simp add: segment_of_def)
  have lim: "sr_limit ?ra = ar_read a + capacity" "sr_covered ?ra = ar_held a" "sr_cur_idx ?ra \<le> length S"
    using s cap sr_coreD(6) [of S ?ra] by (simp_all add: sr_sim_def sr_inv_def)
  have push: "sr_sim S (push_substring (sg_payload seg) idx (th_fin (sg_header seg)) ?ra)
      (ar_push capacity (sg_payload seg) idx (th_fin (sg_header seg)) a)" using sr_sim_push(1) [OF s ex] cap by simp
  have skip: "ar_push capacity (sg_payload seg) idx (th_fin (sg_header seg)) a = a"
    if "idx + length_in_sequence_space seg \<le> sr_cur_idx ?ra"
  proof -
    have "\<not> th_fin (sg_header seg)" using that ex lim(3) by (auto simp: excerpt_def length_in_sequence_space_def split: if_splits)
    moreover have "{idx ..< idx + length (sg_payload seg)} \<subseteq> ar_held a"
      using that by (auto simp: lim(2) [symmetric] sr_covered_def length_in_sequence_space_def split: if_splits)
    moreover from this have "ar_held a \<union> ({idx ..< idx + length (sg_payload seg)} \<inter> {..< ar_read a + capacity}) = ar_held a" by blast
    ultimately show ?thesis by (simp add: ar_push_def)
  qed
  have "sr_sim S (rc_reassembler (rc_segment_received seg r)) (snd (hs_step capacity (syn, a) (Arrive idx seg)))"
    using push skip s by (auto simp: eq rc_accepts_def syn lim(1) not_less Let_def)
  then show ?thesis using rc_segment_spec(1,2,5) [OF core seg(1) near refl] sim by (simp add: rc_sim_def syn Let_def)
qed

lemma rc_sim_step:
  assumes sim: "rc_sim S i capacity r h" and ok: "hs_allowed S i h e" and step: "rc_step (r, outs) (event_of e) = (r', outs')"
  shows "rc_sim S i capacity r' (hs_step capacity h e)"
proof -
  obtain syn a where h: "h = (syn, a)" by fastforce
  show ?thesis
  proof (cases e)
    case (Arrive idx seg)
    show ?thesis
    proof (cases "length_in_sequence_space seg = 0")
      case True
      then have "sg_payload seg = []" "\<not> th_syn (sg_header seg)" "\<not> th_fin (sg_header seg)"
        by (auto simp: length_in_sequence_space_def split: if_splits)
      moreover have "r' = r" using step Arrive rc_segment_empty [of S i r seg] True sim by (simp add: rc_sim_def)
      ultimately show ?thesis using sim by (auto simp: Arrive h ar_push_def)
    next
      case False
      then show ?thesis using rc_sim_segment sim ok step by (auto simp: h Arrive)
    qed
  next
    case (Taken n)
    obtain ra out where ra: "sr_read n (rc_reassembler r) = (ra, out)" by fastforce
    have core: "rc_core S i r" using sim by (simp add: rc_sim_def)
    have "rc_read n r = (r\<lparr>rc_reassembler := ra\<rparr>, out)" using ra by (simp add: rc_read_def)
    moreover from this step Taken have "r' = r\<lparr>rc_reassembler := ra\<rparr>" by simp
    ultimately show ?thesis using rc_read_spec(1,2) [OF core] sr_sim_read(1) [OF _ ra] sim by (simp add: rc_sim_def h Taken)
  qed
qed

lemma rc_sim_run:
  assumes "rc_sim S i capacity r h" "allowed_run (hs_step capacity) (hs_allowed S i) h es"
    and "run_steps rc_step (r, outs) (map event_of es) = (r', outs')"
  shows "rc_sim S i capacity r' (run_steps (hs_step capacity) h es)"
  using assms
proof (induction es arbitrary: r outs h)
  case (Cons e es)
  obtain r1 outs1 where 1: "rc_step (r, outs) (event_of e) = (r1, outs1)" by fastforce
  from rc_sim_step [OF Cons.prems(1) _ 1] Cons.prems(2,3) Cons.IH [of r1 "hs_step capacity h e" outs1] 1 show ?case by simp
qed simp

lemma hs_syn: "fst (run_steps (hs_step capacity) h es) \<longleftrightarrow> fst h \<or> (\<exists>idx seg. Arrive idx seg \<in> set es \<and> th_syn (sg_header seg))"
proof (induction es arbitrary: h)
  case (Cons e es)
  then show ?case by (cases h; cases e) (auto simp: Let_def)
qed simp

text \<open>C18. Acknowledgments and flow control.  Segments of the peer's stream arrive in any order and the application reads at any time.  The
  acknowledgment number exists exactly once a SYN has arrived, and it is then the sequence number of the first byte that has not arrived since
  while it was in the window, counting the SYN and, when everything up to a FIN has arrived, the FIN; the window is what the bytes that are in order
  and not yet read leave of the capacity.  What has arrived and what has been read is the history of the calls.\<close>

theorem receiver_ackno_window:
  assumes "0 < capacity" "length S < 4294967295" "length S + capacity < U64"
    and "allowed_run (hs_step capacity) (hs_allowed S i) (False, arrivals_new) es"
    and "run_steps rc_step (tcp_receiver_new capacity, []) (map event_of es) = (r, outs)"
    and "a = snd (run_steps (hs_step capacity) (False, arrivals_new) es)"
  shows "rc_ackno r = (if \<exists>idx seg. Arrive idx seg \<in> set es \<and> th_syn (sg_header seg)
      then Some (wrap (1 + first_gap (ar_held a) + (if ar_end a \<and> first_gap (ar_held a) = length S then 1 else 0)) i) else None) \<and>
    rc_window_size r = capacity - (first_gap (ar_held a) - ar_read a)"
proof -
  let ?h = "run_steps (hs_step capacity) (False, arrivals_new) es"
  have "rc_inv S i (tcp_receiver_new capacity, [])" by (rule rc_start_inv [of _ capacity]) (simp add: rc_start_def assms(1-3))
  then have "rc_sim S i capacity (tcp_receiver_new capacity) (False, arrivals_new)"
    using sr_sim_new [OF assms(1-3)] by (simp add: rc_sim_def rc_inv_def) (simp add: tcp_receiver_new_def)
  from rc_sim_run [OF this assms(4,5)] have sim: "rc_sim S i capacity r ?h" .
  then have core: "rc_core S i r" and s: "sr_sim S (rc_reassembler r) a" and cap: "rc_capacity r = capacity"
    by (simp_all add: rc_sim_def assms(6))
  note g = sr_sim_gap [OF s]
  have "rc_recieve_isn r \<longleftrightarrow> (\<exists>idx seg. Arrive idx seg \<in> set es \<and> th_syn (sg_header seg))"
    using sim hs_syn [of capacity "(False, arrivals_new)" es] by (simp add: rc_sim_def)
  moreover have "rc_window_size r = capacity - (first_gap (ar_held a) - ar_read a)"
    using rc_window_size_eq(1) [OF core] g(1,2) core cap by (simp add: sr_room_def rc_core_def)
  ultimately show ?thesis using rc_ackno_eq [OF core] g by (simp add: rc_stream_out_def)
qed

text \<open>The witness: a SYN with one byte, then the last byte with the FIN, which is acknowledged, and a read.\<close>

theorem receiver_ackno_window_witness:
  "\<exists>r outs. run_steps rc_step (tcp_receiver_new 4, [])
     [Segment \<lparr>sg_header = tcp_header_new\<lparr>th_syn := True, th_seqno := 100\<rparr>, sg_payload = [1]\<rparr>,
      Segment \<lparr>sg_header = tcp_header_new\<lparr>th_fin := True, th_seqno := 102\<rparr>, sg_payload = [2]\<rparr>, ReadOut 1] = (r, outs) \<and>
     rc_ackno r = Some 104 \<and> rc_window_size r = 3"
proof -
  let ?syn = "\<lparr>sg_header = tcp_header_new\<lparr>th_syn := True, th_seqno := 100\<rparr>, sg_payload = [1]\<rparr>"
    and ?fin = "\<lparr>sg_header = tcp_header_new\<lparr>th_fin := True, th_seqno := 102\<rparr>, sg_payload = [2]\<rparr>"
  let ?es = "[Arrive 0 ?syn, Arrive 1 ?fin, Taken 1]"
  have gap: "first_gap {} = 0" "first_gap {0} = 1" "first_gap {0, 1} = 2" "first_gap {Suc 0, 0} = 2" "first_gap {0, Suc 0} = 2" by (auto intro!: first_gap_eq)
  have sets: "{0 ..< Suc 0} \<inter> {..< 4} = {0 :: nat}" "insert 0 ({Suc 0 ..< Suc (Suc 0)} \<inter> {..< 4}) = {0, 1 :: nat}" by auto
  have "segment_of [1, 2] 100 0 ?syn" "segment_of [1, 2] 100 1 ?fin"
    by (simp_all add: segment_of_def tcp_header_new_def excerpt_def chunk_def wrap_alt)
  then have ok: "allowed_run (hs_step 4) (hs_allowed [1, 2] 100) (False, arrivals_new) ?es"
    by (simp add: arrivals_new_def ar_push_def sets gap adist_def tcp_header_new_def)
  have a: "snd (run_steps (hs_step 4) (False, arrivals_new) ?es) = \<lparr>ar_held = {0, 1}, ar_end = True, ar_read = 1\<rparr>"
    by (auto simp: arrivals_new_def ar_push_def ar_take_def sets gap tcp_header_new_def)
  have ex: "\<exists>idx seg. Arrive idx seg \<in> set ?es \<and> th_syn (sg_header seg)" by (intro exI [of _ 0] exI [of _ ?syn]) simp
  obtain r outs where run: "run_steps rc_step (tcp_receiver_new 4, []) (map event_of ?es) = (r, outs)" by fastforce
  from receiver_ackno_window [OF _ _ _ ok run refl] ex have "rc_ackno r = Some 104 \<and> rc_window_size r = 3"
    unfolding a by (simp add: gap wrap_alt)
  with run show ?thesis by auto
qed

text \<open>Progress never goes back: along any allowed run the next byte expected, the right edge of the
  advertised window (its left edge plus its size) and the set of indices taken in only grow.\<close>

theorem receiver_monotone:
  assumes "rc_start S capacity s0" "allowed_run rc_step (rc_allowed S i) s0 ops1"
    and "s = run_steps rc_step s0 ops1" "allowed_run rc_step (rc_allowed S i) s ops2"
    and "s' = run_steps rc_step s ops2"
  shows "sr_cur_idx (rc_reassembler (fst s)) \<le> sr_cur_idx (rc_reassembler (fst s')) \<and>
    sr_cur_idx (rc_reassembler (fst s)) + rc_window_size (fst s) \<le>
      sr_cur_idx (rc_reassembler (fst s')) + rc_window_size (fst s') \<and>
    sr_covered (rc_reassembler (fst s)) \<subseteq> sr_covered (rc_reassembler (fst s'))"
proof -
  let ?R = "\<lambda>a b. sr_cur_idx (rc_reassembler (fst a)) \<le> sr_cur_idx (rc_reassembler (fst b)) \<and>
    sr_limit (rc_reassembler (fst a)) \<le> sr_limit (rc_reassembler (fst b)) \<and>
    sr_covered (rc_reassembler (fst a)) \<subseteq> sr_covered (rc_reassembler (fst b))"
  have inv: "rc_inv S i s" using rcv.reachable_inv [OF assms(1,2)] assms(3) by simp
  have "?R s s'"
    unfolding assms(5)
    by (rule rcv.run_preserves [where R = ?R and S = S and i = i, OF _ _ _ inv assms(4)])
      (use rc_step_mono in blast, simp_all, meson order_trans)
  moreover have "rc_inv S i s'" using rcv.run_inv [OF inv assms(4)] assms(5) by simp
  ultimately show ?thesis
    using inv rc_window_size_eq(2) [of S i] by (simp add: rc_inv_def)
qed

theorem receiver_monotone_witness:
  "sr_cur_idx (rc_reassembler (tcp_receiver_new 4)) \<le>
     sr_cur_idx (rc_reassembler (fst (rc_step (tcp_receiver_new 4, []) (ReadOut 2))))"
proof -
  have start: "rc_start [] 4 (tcp_receiver_new 4, [])" by (simp add: rc_start_def)
  have "allowed_run rc_step (rc_allowed [] 0) (tcp_receiver_new 4, []) []"
    "(tcp_receiver_new 4, []) = run_steps rc_step (tcp_receiver_new 4, []) []"
    "allowed_run rc_step (rc_allowed [] 0) (tcp_receiver_new 4, []) [ReadOut 2]"
    "rc_step (tcp_receiver_new 4, []) (ReadOut 2) = run_steps rc_step (tcp_receiver_new 4, []) [ReadOut 2]"
    by (simp_all add: rc_allowed_def)
  from receiver_monotone [OF start this] show ?thesis by simp
qed

end
