(* ===== verification/TCP_Config.thy ===== *)
theory TCP_Config
  imports Wrapping_Integers
begin

text \<open>
  The constants and the record of \<^verbatim>\<open>libsponge/tcp_helpers/tcp_config.hh\<close>.
\<close>

definition DEFAULT_CAPACITY :: nat where
  "DEFAULT_CAPACITY = 64000"

definition MAX_PAYLOAD_SIZE :: nat where
  "MAX_PAYLOAD_SIZE = 1000"

definition TIMEOUT_DFLT :: u16 where
  "TIMEOUT_DFLT = 1000"

definition MAX_RETX_ATTEMPTS :: nat where
  "MAX_RETX_ATTEMPTS = 8"

record tcp_config =
  cfg_rt_timeout :: u16
  cfg_recv_capacity :: nat
  cfg_send_capacity :: nat
  cfg_fixed_isn :: "wrapping_int32 option"

definition tcp_config_default :: tcp_config where
  "tcp_config_default =
     \<lparr>cfg_rt_timeout = TIMEOUT_DFLT, cfg_recv_capacity = DEFAULT_CAPACITY,
      cfg_send_capacity = DEFAULT_CAPACITY, cfg_fixed_isn = None\<rparr>"

end
