(* ===== verification/TCP_Sender.thy ===== *)
theory TCP_Sender
  imports Byte_Stream TCP_Segment TCP_Config Stream_Reassembler
begin

text \<open>
  \<^verbatim>\<open>libsponge/tcp_sender.{hh,cc}\<close>: the sender cuts the outgoing byte stream into segments inside the
  window the peer advertises, keeps the segments in flight, and retransmits the oldest one when
  the timer runs out.  The record has the fields of the class (the queues are lists), each
  method is a definition.  The lemmas follow the bytes \<open>W\<close> that the application has written: every
  segment that the sender puts out carries the slice of \<open>W\<close> that belongs to its sequence number, the
  segments in flight are contiguous from the acknowledged to the next sequence number, and the
  window is respected and filled.
\<close>

record timer =
  tm_last_flash_time :: nat
  tm_now_time :: nat

definition timer_flash :: "timer \<Rightarrow> timer" where
  "timer_flash t = t\<lparr>tm_last_flash_time := tm_now_time t\<rparr>"

definition timer_tick :: "nat \<Rightarrow> timer \<Rightarrow> timer" where
  "timer_tick pass_time t = t\<lparr>tm_now_time := add64 (tm_now_time t) pass_time\<rparr>"

definition timer_time_out :: "nat \<Rightarrow> timer \<Rightarrow> bool" where
  "timer_time_out RTO t \<longleftrightarrow> sub64 (tm_now_time t) (tm_last_flash_time t) \<ge> RTO"

record seg_node =
  sn_seg :: tcp_segment
  sn_ack_index :: nat

record tcp_sender =
  sd_isn :: wrapping_int32
  sd_segments_out :: "tcp_segment list"
  sd_initial_retransmission_timeout :: nat
  sd_stream :: byte_stream
  sd_next_seqno :: nat
  sd_cur_ack_index :: nat
  sd_fin_ack_index :: nat
  sd_seg_buffer :: "seg_node list"
  sd_wd_right_edge :: nat
  sd_retrans_num :: nat
  sd_RTO :: nat
  sd_timer :: timer

subsection \<open>The code\<close>

text \<open>The random device supplies the initial sequence number when none is fixed: it is a parameter.\<close>

definition tcp_sender_new :: "nat \<Rightarrow> u16 \<Rightarrow> wrapping_int32 option \<Rightarrow> u32 \<Rightarrow> tcp_sender" where
  "tcp_sender_new capacity retx_timeout fixed_isn random_value =
     \<lparr>sd_isn = (case fixed_isn of Some i \<Rightarrow> i | None \<Rightarrow> random_value),
      sd_segments_out = [], sd_initial_retransmission_timeout = unat retx_timeout,
      sd_stream = bs_new capacity, sd_next_seqno = 0, sd_cur_ack_index = 0,
      sd_fin_ack_index = 18446744073709551615, sd_seg_buffer = [], sd_wd_right_edge = 1,
      sd_retrans_num = 0, sd_RTO = unat retx_timeout,
      sd_timer = \<lparr>tm_last_flash_time = 0, tm_now_time = 0\<rparr>\<rparr>"

definition get_init_seg :: "tcp_sender \<Rightarrow> tcp_segment" where
  "get_init_seg s =
     tcp_segment_new\<lparr>sg_header := tcp_header_new\<lparr>th_seqno := wrap (sd_next_seqno s) (sd_isn s)\<rparr>\<rparr>"

definition send_new_seg :: "tcp_segment \<Rightarrow> tcp_sender \<Rightarrow> tcp_sender" where
  "send_new_seg seg s =
     (let next_seqno = add64 (sd_next_seqno s) (length_in_sequence_space seg)
      in s\<lparr>sd_segments_out := sd_segments_out s @ [seg],
           sd_next_seqno := next_seqno,
           sd_seg_buffer := sd_seg_buffer s @ [\<lparr>sn_seg = seg, sn_ack_index = next_seqno\<rparr>]\<rparr>)"

definition sd_bytes_in_flight :: "tcp_sender \<Rightarrow> nat" where
  "sd_bytes_in_flight s = sub64 (sd_next_seqno s) (sd_cur_ack_index s)"

definition sd_next_seqno_wrapped :: "tcp_sender \<Rightarrow> wrapping_int32" where
  "sd_next_seqno_wrapped s = wrap (sd_next_seqno s) (sd_isn s)"

text \<open>The loop that sends full segments; it returns the index where the last part starts.  The index is a \<^verbatim>\<open>uint32_t\<close> in the code; it stays below the
  number of bytes that were taken out for the window, at most \<open>2^16\<close>, so it does not wrap.\<close>

function split_loop :: "nat \<Rightarrow> bytes \<Rightarrow> tcp_sender \<Rightarrow> nat \<times> tcp_sender" where
  "split_loop i total_data s =
     (if i + MAX_PAYLOAD_SIZE < length total_data
      then split_loop (i + MAX_PAYLOAD_SIZE) total_data
             (send_new_seg ((get_init_seg s)\<lparr>sg_payload := take MAX_PAYLOAD_SIZE (drop i total_data)\<rparr>) s)
      else (i, s))"
  by pat_completeness auto
termination
  by (relation "measure (\<lambda>(i, d, s). length d - i)") (auto simp: MAX_PAYLOAD_SIZE_def)

declare split_loop.simps [simp del]

definition fill_window :: "tcp_sender \<Rightarrow> tcp_sender" where
  "fill_window s =
     (if sd_next_seqno s = sd_fin_ack_index s then s
      else if sd_next_seqno s = 0
      then (let syn_seg = get_init_seg s
            in send_new_seg (syn_seg\<lparr>sg_header := (sg_header syn_seg)\<lparr>th_syn := True\<rparr>\<rparr>) s)
      else
        (let fill_size =
               (if sd_wd_right_edge s > sd_next_seqno s then sub64 (sd_wd_right_edge s) (sd_next_seqno s) else 0) mod U32;
             (stream, total_data) = bs_read fill_size (sd_stream s);
             s = s\<lparr>sd_stream := stream\<rparr>;
             fin_flg = (bs_eof (sd_stream s) \<and> length total_data < fill_size);
             (i, s) = split_loop 0 total_data s
         in if i < length total_data \<or> fin_flg
            then (let last_seg = get_init_seg s;
                      last_seg = (if fin_flg
                        then last_seg\<lparr>sg_header := (sg_header last_seg)\<lparr>th_fin := True\<rparr>\<rparr> else last_seg);
                      last_seg = (if i < length total_data
                        then last_seg\<lparr>sg_payload := drop i total_data\<rparr> else last_seg);
                      s = send_new_seg last_seg s
                  in if fin_flg then s\<lparr>sd_fin_ack_index := sd_next_seqno s\<rparr> else s)
            else s))"

text \<open>The loop that drops acknowledged segments: whether there was one, the new acknowledged index and the rest.\<close>

fun ack_loop :: "nat \<Rightarrow> bool \<Rightarrow> nat \<Rightarrow> seg_node list \<Rightarrow> bool \<times> nat \<times> seg_node list" where
  "ack_loop ack new_ack_flg cur [] = (new_ack_flg, cur, [])"
| "ack_loop ack new_ack_flg cur (n # ns) =
     (if sn_ack_index n \<le> ack then ack_loop ack True (sn_ack_index n) ns
      else (new_ack_flg, cur, n # ns))"

definition ack_received :: "wrapping_int32 \<Rightarrow> u16 \<Rightarrow> tcp_sender \<Rightarrow> tcp_sender" where
  "ack_received ackno window_size s =
     (let ack = unwrap ackno (sd_isn s) (sd_next_seqno s)
      in if ack > sd_next_seqno s \<or> ack < sd_cur_ack_index s then s
         else
           (let (new_ack_flg, cur, rest) = ack_loop ack False (sd_cur_ack_index s) (sd_seg_buffer s);
                s = s\<lparr>sd_cur_ack_index := cur, sd_seg_buffer := rest\<rparr>;
                s = (if new_ack_flg
                     then s\<lparr>sd_RTO := sd_initial_retransmission_timeout s, sd_retrans_num := 0,
                            sd_timer := timer_flash (sd_timer s)\<rparr>
                     else s);
                now_wd_right = add64 ack (unat window_size);
                s = (if now_wd_right > sd_wd_right_edge s then s\<lparr>sd_wd_right_edge := now_wd_right\<rparr> else s);
                s = (if window_size = 0 then s\<lparr>sd_wd_right_edge := add64 (sd_wd_right_edge s) 1\<rparr> else s);
                s = fill_window s
            in if window_size = 0 then s\<lparr>sd_wd_right_edge := sub64 (sd_wd_right_edge s) 1\<rparr> else s))"

definition sd_tick :: "nat \<Rightarrow> tcp_sender \<Rightarrow> tcp_sender" where
  "sd_tick ms_since_last_tick s =
     (case sd_seg_buffer s of
        [] \<Rightarrow> s
      | n # ns \<Rightarrow>
          (let s = s\<lparr>sd_timer := timer_tick ms_since_last_tick (sd_timer s)\<rparr>
           in if \<not> timer_time_out (sd_RTO s) (sd_timer s) then s
              else
                (let s = s\<lparr>sd_segments_out := sd_segments_out s @ [sn_seg n]\<rparr>;
                     wind_size = sub64 (sd_wd_right_edge s) (sd_cur_ack_index s);
                     s = (if wind_size \<noteq> 0
                          then s\<lparr>sd_retrans_num := add64 (sd_retrans_num s) 1, sd_RTO := mul64 (sd_RTO s) 2\<rparr>
                          else s)
                 in s\<lparr>sd_timer := timer_flash (sd_timer s)\<rparr>)))"

definition consecutive_retransmissions :: "tcp_sender \<Rightarrow> nat" where
  "consecutive_retransmissions s = sd_retrans_num s mod U32"

definition send_empty_ack :: "tcp_sender \<Rightarrow> tcp_sender" where
  "send_empty_ack s =
     (let seg = get_init_seg s
      in if sd_next_seqno s = 0
         then send_new_seg (seg\<lparr>sg_header := (sg_header seg)\<lparr>th_syn := True\<rparr>\<rparr>) s
         else s\<lparr>sd_segments_out := sd_segments_out s @ [seg]\<rparr>)"

subsection \<open>Specification\<close>

text \<open>A segment that starts at the absolute sequence number \<open>a\<close> and carries the bytes of \<open>W\<close> that
  belong there; \<open>e\<close> says whether the application has ended the stream.\<close>

definition sent_seg :: "bytes \<Rightarrow> bool \<Rightarrow> wrapping_int32 \<Rightarrow> nat \<Rightarrow> tcp_segment \<Rightarrow> bool" where
  "sent_seg W e isn a seg \<longleftrightarrow>
     th_seqno (sg_header seg) = wrap a isn \<and> length (sg_payload seg) \<le> MAX_PAYLOAD_SIZE \<and>
     (if th_syn (sg_header seg) then a = 0 \<and> sg_payload seg = [] \<and> \<not> th_fin (sg_header seg)
      else 0 < a \<and> excerpt W (sg_payload seg) (a - 1) (th_fin (sg_header seg)) \<and>
        (th_fin (sg_header seg) \<longrightarrow> e))"

text \<open>Segments in flight follow one another from \<open>a\<close> to \<open>b\<close>.\<close>

fun chained :: "bytes \<Rightarrow> bool \<Rightarrow> wrapping_int32 \<Rightarrow> nat \<Rightarrow> seg_node list \<Rightarrow> nat \<Rightarrow> bool" where
  "chained W e isn a [] b \<longleftrightarrow> a = b"
| "chained W e isn a (n # ns) b \<longleftrightarrow>
     sent_seg W e isn a (sn_seg n) \<and> 0 < length_in_sequence_space (sn_seg n) \<and>
     sn_ack_index n = a + length_in_sequence_space (sn_seg n) \<and>
     chained W e isn (a + length_in_sequence_space (sn_seg n)) ns b"

definition pend_ok :: "bytes \<Rightarrow> nat \<Rightarrow> bytes \<Rightarrow> bool" where
  "pend_ok W rd pend \<longleftrightarrow> length pend \<le> rd \<and> excerpt W pend (rd - length pend) False"

text \<open>The sender while it holds the bytes \<open>pend\<close>, taken from the stream and not yet sent.\<close>

definition sd_core :: "bytes \<Rightarrow> bytes \<Rightarrow> tcp_sender \<Rightarrow> bool" where
  "sd_core W pend s \<longleftrightarrow>
     bs_inv (sd_stream s) \<and> length W < 2 ^ 62 \<and> bs_totoalWrite (sd_stream s) = length W \<and>
     bs_buffer (sd_stream s) = drop (bs_totoalRead (sd_stream s)) W \<and>
     bs_totoalRead (sd_stream s) \<le> length W \<and> pend_ok W (bs_totoalRead (sd_stream s)) pend \<and>
     chained W (bs_inputEnd (sd_stream s)) (sd_isn s) (sd_cur_ack_index s) (sd_seg_buffer s) (sd_next_seqno s) \<and>
     (if sd_fin_ack_index s = 18446744073709551615
      then sd_next_seqno s =
        (if sd_next_seqno s = 0 then bs_totoalRead (sd_stream s)
         else 1 + bs_totoalRead (sd_stream s) - length pend)
      else sd_next_seqno s = sd_fin_ack_index s \<and> sd_next_seqno s = 2 + bs_totoalRead (sd_stream s) \<and>
        pend = [] \<and> bs_inputEnd (sd_stream s) \<and> bs_totoalRead (sd_stream s) = length W)"

definition emitted_ok :: "bytes \<Rightarrow> bool \<Rightarrow> wrapping_int32 \<Rightarrow> tcp_segment \<Rightarrow> bool" where
  "emitted_ok W e isn seg \<longleftrightarrow> length_in_sequence_space seg = 0 \<or> (\<exists>a. sent_seg W e isn a seg)"

definition sd_out :: "bytes \<Rightarrow> tcp_sender \<Rightarrow> bool" where
  "sd_out W s \<longleftrightarrow>
     (\<forall>seg \<in> set (sd_segments_out s). emitted_ok W (bs_inputEnd (sd_stream s)) (sd_isn s) seg)"

text \<open>The window: at most the one byte of a zero-window probe lies beyond the right edge.\<close>

definition sd_win :: "tcp_sender \<Rightarrow> bool" where
  "sd_win s \<longleftrightarrow>
     1 \<le> sd_wd_right_edge s \<and> sd_cur_ack_index s \<le> sd_wd_right_edge s \<and>
     sd_wd_right_edge s \<le> sd_next_seqno s + 65535 \<and> sd_next_seqno s \<le> sd_wd_right_edge s + 1"

text \<open>The retransmission timeout backs off exponentially.\<close>

definition sd_rto :: "tcp_sender \<Rightarrow> bool" where
  "sd_rto s \<longleftrightarrow>
     sd_initial_retransmission_timeout s < 65536 \<and>
     sd_RTO s = u64 (sd_initial_retransmission_timeout s * 2 ^ sd_retrans_num s) \<and> sd_retrans_num s < 2 ^ 63"

subsection \<open>Lemmas on segments in flight\<close>

lemma chained_snoc:
  "chained W e isn a ns b \<Longrightarrow> sent_seg W e isn b seg \<Longrightarrow> 0 < length_in_sequence_space seg \<Longrightarrow>
   chained W e isn a (ns @ [\<lparr>sn_seg = seg, sn_ack_index = b + length_in_sequence_space seg\<rparr>])
     (b + length_in_sequence_space seg)"
  by (induction ns arbitrary: a) simp_all

lemma chained_le: "chained W e isn a ns b \<Longrightarrow> a \<le> b"
  by (induction ns arbitrary: a) fastforce+

lemma chained_sum:
  "chained W e isn a ns b \<Longrightarrow> b = a + sum_list (map (\<lambda>n. length_in_sequence_space (sn_seg n)) ns)"
proof (induction ns arbitrary: a)
  case (Cons n ns)
  then have "b = a + length_in_sequence_space (sn_seg n) + sum_list (map (\<lambda>n. length_in_sequence_space (sn_seg n)) ns)"
    by auto
  then show ?case by simp
qed simp

lemma chained_sent: "chained W e isn a ns b \<Longrightarrow> n \<in> set ns \<Longrightarrow> \<exists>a'. sent_seg W e isn a' (sn_seg n)"
  by (induction ns arbitrary: a) auto

lemma excerpt_split: "excerpt W d i e \<longleftrightarrow> (\<exists>p q. W = p @ d @ q \<and> length p = i \<and> (e \<longrightarrow> q = []))"
proof
  assume x: "excerpt W d i e"
  then have "take (length d) (drop i W) = d" "i + length d \<le> length W" by (simp_all add: excerpt_def chunk_def)
  then have "W = take i W @ d @ drop (i + length d) W" "length (take i W) = i"
    by (metis append_take_drop_id drop_drop add.commute) (use \<open>i + length d \<le> length W\<close> in simp)
  moreover have "e \<longrightarrow> drop (i + length d) W = []" using x by (simp add: excerpt_def)
  ultimately show "\<exists>p q. W = p @ d @ q \<and> length p = i \<and> (e \<longrightarrow> q = [])" by blast
next
  assume "\<exists>p q. W = p @ d @ q \<and> length p = i \<and> (e \<longrightarrow> q = [])"
  then show "excerpt W d i e" by (auto simp: excerpt_def chunk_def)
qed

lemma excerpt_mono: "excerpt W p i False \<Longrightarrow> excerpt (W @ d) p i False"
  unfolding excerpt_split by (metis append.assoc)

lemma excerpt_take: "excerpt W d i e \<Longrightarrow> excerpt W (take k d) i False"
  unfolding excerpt_split by (metis append.assoc append_take_drop_id)

lemma excerpt_drop:
  assumes "excerpt W d i e" "k \<le> length d"
  shows "excerpt W (drop k d) (i + k) False"
proof -
  obtain p q where "W = p @ d @ q" "length p = i" using assms(1) by (auto simp: excerpt_split)
  then have "W = (p @ take k d) @ drop k d @ q" "length (p @ take k d) = i + k" using assms(2) by simp_all
  then show ?thesis unfolding excerpt_split by blast
qed

lemma excerpt_end: "excerpt W d i False \<Longrightarrow> i + length d = length W \<Longrightarrow> excerpt W d i e"
  by (simp add: excerpt_def)

lemma pend_ok_take: "pend_ok W rd pend \<Longrightarrow> k \<le> length pend \<Longrightarrow> excerpt W (take k pend) (rd - length pend) False"
  by (auto simp: pend_ok_def intro: excerpt_take)

lemma pend_ok_drop:
  assumes "pend_ok W rd pend" "k \<le> length pend"
  shows "pend_ok W rd (drop k pend)"
proof -
  have le: "length pend \<le> rd" and ex: "excerpt W pend (rd - length pend) False"
    using assms by (simp_all add: pend_ok_def)
  have "rd - length (drop k pend) = rd - length pend + k" using assms(2) le by simp
  with excerpt_drop [OF ex assms(2)] le show ?thesis unfolding pend_ok_def by simp
qed

lemma pend_ok_Nil [simp]: "pend_ok W rd [] \<longleftrightarrow> rd \<le> length W"
  by (simp add: pend_ok_def excerpt_def)

text \<open>More bytes written do not change the segments, as long as no FIN has been sent.\<close>

lemma sent_seg_append: "sent_seg W False isn a seg \<Longrightarrow> sent_seg (W @ d) e isn a seg"
  using excerpt_mono [of W "sg_payload seg" "a - 1" d] by (auto simp: sent_seg_def)

lemma chained_append_W: "chained W False isn a ns b \<Longrightarrow> chained (W @ d) e isn a ns b"
  by (induction ns arbitrary: a) (auto intro: sent_seg_append)

lemma sent_seg_end: "sent_seg W False isn a seg \<Longrightarrow> sent_seg W e isn a seg"
  using sent_seg_append [of W isn a seg "[]"] by simp

lemma ack_loop_spec:
  "chained W e isn a ns b \<Longrightarrow> a \<le> ack \<Longrightarrow> ack_loop ack f a ns = (f', a', rest) \<Longrightarrow>
   chained W e isn a' rest b \<and> a \<le> a' \<and> a' \<le> ack \<and>
   (\<exists>popped. ns = popped @ rest \<and> (\<forall>n \<in> set popped. sn_ack_index n \<le> ack) \<and> f' = (f \<or> popped \<noteq> [])) \<and>
   (rest \<noteq> [] \<longrightarrow> ack < sn_ack_index (hd rest))"
proof (induction ns arbitrary: a f)
  case Nil
  then show ?case by auto
next
  case (Cons n ns)
  show ?case
  proof (cases "sn_ack_index n \<le> ack")
    case True
    with Cons.prems have c: "chained W e isn (sn_ack_index n) ns b" "a < sn_ack_index n"
      "ack_loop ack True (sn_ack_index n) ns = (f', a', rest)" by auto
    from Cons.IH [OF c(1) True c(3)] c(2) obtain popped where
      "ns = popped @ rest" "\<forall>n \<in> set popped. sn_ack_index n \<le> ack" "f'" by blast
    then have "n # ns = (n # popped) @ rest" "\<forall>m \<in> set (n # popped). sn_ack_index m \<le> ack"
      "f' = (f \<or> n # popped \<noteq> [])" using True by auto
    then have "\<exists>popped. n # ns = popped @ rest \<and> (\<forall>m \<in> set popped. sn_ack_index m \<le> ack) \<and> f' = (f \<or> popped \<noteq> [])"
      by blast
    with Cons.IH [OF c(1) True c(3)] c(2) show ?thesis by auto
  next
    case False
    with Cons.prems show ?thesis by auto
  qed
qed

text \<open>An acknowledgment of everything sent leaves nothing in flight.\<close>

lemma chained_all_acked:
  assumes "chained W e isn a rest b" "a \<le> ack" "ack \<le> b" "rest \<noteq> [] \<longrightarrow> ack < sn_ack_index (hd rest)"
  shows "a = ack \<or> ack < b"
proof (cases rest)
  case (Cons n ns)
  then have "ack < sn_ack_index n" "chained W e isn (sn_ack_index n) ns b" using assms by auto
  then show ?thesis using chained_le by fastforce
qed (use assms in auto)

subsection \<open>Sending one segment\<close>

lemma sd_coreD:
  assumes "sd_core W pend s"
  shows "bs_inv (sd_stream s)" "length W < 2 ^ 62" "bs_totoalWrite (sd_stream s) = length W"
    "bs_buffer (sd_stream s) = drop (bs_totoalRead (sd_stream s)) W"
    "bs_totoalRead (sd_stream s) \<le> length W" "length pend \<le> bs_totoalRead (sd_stream s)"
    "pend_ok W (bs_totoalRead (sd_stream s)) pend"
    "chained W (bs_inputEnd (sd_stream s)) (sd_isn s) (sd_cur_ack_index s) (sd_seg_buffer s) (sd_next_seqno s)"
    "sd_next_seqno s \<le> 2 + length W" "sd_cur_ack_index s \<le> sd_next_seqno s"
    "bs_size (sd_stream s) = length W - bs_totoalRead (sd_stream s)"
proof -
  note d = assms [unfolded sd_core_def]
  from d show "bs_inv (sd_stream s)" "length W < 2 ^ 62" "bs_totoalWrite (sd_stream s) = length W"
    "bs_buffer (sd_stream s) = drop (bs_totoalRead (sd_stream s)) W"
    "bs_totoalRead (sd_stream s) \<le> length W" by blast+
  from d show pd: "pend_ok W (bs_totoalRead (sd_stream s)) pend" by blast
  then show "length pend \<le> bs_totoalRead (sd_stream s)" by (simp add: pend_ok_def)
  from d show ch: "chained W (bs_inputEnd (sd_stream s)) (sd_isn s) (sd_cur_ack_index s) (sd_seg_buffer s)
    (sd_next_seqno s)" by blast
  then show "sd_cur_ack_index s \<le> sd_next_seqno s" by (rule chained_le)
  show "sd_next_seqno s \<le> 2 + length W" using d by (auto split: if_splits)
  show "bs_size (sd_stream s) = length W - bs_totoalRead (sd_stream s)"
    using d by (metis bs_inv_def length_drop)
qed

lemma sd_core_cong:
  assumes core: "sd_core W pend s"
    and eq: "sd_stream s' = sd_stream s" "sd_isn s' = sd_isn s" "sd_next_seqno s' = sd_next_seqno s"
      "sd_fin_ack_index s' = sd_fin_ack_index s"
    and ch: "chained W (bs_inputEnd (sd_stream s)) (sd_isn s) (sd_cur_ack_index s') (sd_seg_buffer s') (sd_next_seqno s)"
  shows "sd_core W pend s'"
  using core ch unfolding sd_core_def eq by blast

lemma send_new_seg_eq:
  assumes "sd_core W pend s" "length_in_sequence_space seg \<le> 2 ^ 62"
  shows "send_new_seg seg s =
    s\<lparr>sd_segments_out := sd_segments_out s @ [seg],
      sd_next_seqno := sd_next_seqno s + length_in_sequence_space seg,
      sd_seg_buffer := sd_seg_buffer s @
        [\<lparr>sn_seg = seg, sn_ack_index = sd_next_seqno s + length_in_sequence_space seg\<rparr>]\<rparr>"
proof -
  have "add64 (sd_next_seqno s) (length_in_sequence_space seg) = sd_next_seqno s + length_in_sequence_space seg"
    using sd_coreD(2,9) [OF assms(1)] assms(2) by (intro add64_id) simp
  then show ?thesis by (simp add: send_new_seg_def Let_def)
qed

lemma get_init_seg_simps [simp]:
  "sg_payload (get_init_seg s) = []" "th_seqno (sg_header (get_init_seg s)) = wrap (sd_next_seqno s) (sd_isn s)"
  "\<not> th_syn (sg_header (get_init_seg s))" "\<not> th_fin (sg_header (get_init_seg s))"
  "\<not> th_rst (sg_header (get_init_seg s))" "\<not> th_ack (sg_header (get_init_seg s))"
  by (simp_all add: get_init_seg_def tcp_segment_new_def tcp_header_new_def)

text \<open>A segment with the next bytes that are held; with \<open>fin\<close> it ends the stream.\<close>

definition data_seg :: "bytes \<Rightarrow> bool \<Rightarrow> tcp_sender \<Rightarrow> tcp_segment" where
  "data_seg d fin s =
     (get_init_seg s)\<lparr>sg_header := (sg_header (get_init_seg s))\<lparr>th_fin := fin\<rparr>, sg_payload := d\<rparr>"

lemma data_seg_simps [simp]:
  "sg_payload (data_seg d f s) = d" "th_seqno (sg_header (data_seg d f s)) = wrap (sd_next_seqno s) (sd_isn s)"
  "\<not> th_syn (sg_header (data_seg d f s))" "th_fin (sg_header (data_seg d f s)) = f"
  "length_in_sequence_space (data_seg d f s) = length d + (if f then 1 else 0)"
  by (simp_all add: data_seg_def length_in_sequence_space_def)

lemma data_seg_sent:
  assumes core: "sd_core W pend s" and unsent: "sd_fin_ack_index s = 18446744073709551615" "0 < sd_next_seqno s"
    and d: "d = take (length d) pend" "length d \<le> MAX_PAYLOAD_SIZE"
    and f: "f \<longrightarrow> d = pend \<and> bs_inputEnd (sd_stream s) \<and> bs_totoalRead (sd_stream s) = length W"
  shows "sent_seg W (bs_inputEnd (sd_stream s)) (sd_isn s) (sd_next_seqno s) (data_seg d f s)"
proof -
  note c = sd_coreD [OF core]
  let ?rd = "bs_totoalRead (sd_stream s)"
  have "sd_next_seqno s = 1 + ?rd - length pend"
    using core unsent by (simp add: sd_core_def)
  then have next': "sd_next_seqno s - 1 = ?rd - length pend" by simp
  have ld: "length d \<le> length pend" using d(1) by (metis length_take min.cobounded1)
  have "excerpt W d (sd_next_seqno s - 1) False"
    unfolding next' using pend_ok_take [OF c(7) ld] d(1) by simp
  moreover have "f \<longrightarrow> sd_next_seqno s - 1 + length d = length W" using f next' c(6) by auto
  ultimately have "excerpt W d (sd_next_seqno s - 1) f" by (cases f) (auto intro: excerpt_end)
  then show ?thesis unfolding sent_seg_def using d(2) f unsent(2) by auto
qed

lemma send_data_core:
  assumes core: "sd_core W pend s" and unsent: "sd_fin_ack_index s = 18446744073709551615" "0 < sd_next_seqno s"
    and d: "d = take (length d) pend" "0 < length d" "length d \<le> MAX_PAYLOAD_SIZE"
  shows "sd_core W (drop (length d) pend) (send_new_seg (data_seg d False s) s)"
proof -
  note c = sd_coreD [OF core]
  let ?rd = "bs_totoalRead (sd_stream s)"
  have eq: "send_new_seg (data_seg d False s) s =
      s\<lparr>sd_segments_out := sd_segments_out s @ [data_seg d False s], sd_next_seqno := sd_next_seqno s + length d,
        sd_seg_buffer := sd_seg_buffer s @ [\<lparr>sn_seg = data_seg d False s, sn_ack_index = sd_next_seqno s + length d\<rparr>]\<rparr>"
    using send_new_seg_eq [OF core, of "data_seg d False s"] d(3) by (simp add: MAX_PAYLOAD_SIZE_def)
  have next': "sd_next_seqno s = 1 + ?rd - length pend" using core unsent by (simp add: sd_core_def)
  have ld: "length d \<le> length pend" using d(1) by (metis length_take min.cobounded1)
  have sent: "sent_seg W (bs_inputEnd (sd_stream s)) (sd_isn s) (sd_next_seqno s) (data_seg d False s)"
    by (rule data_seg_sent [OF core unsent d(1,3)]) simp
  have "chained W (bs_inputEnd (sd_stream s)) (sd_isn s) (sd_cur_ack_index s)
      (sd_seg_buffer s @ [\<lparr>sn_seg = data_seg d False s, sn_ack_index = sd_next_seqno s + length d\<rparr>])
      (sd_next_seqno s + length d)"
    using chained_snoc [OF c(8) sent] d(2) by simp
  moreover have "pend_ok W ?rd (drop (length d) pend)" by (rule pend_ok_drop [OF c(7) ld])
  moreover have "sd_next_seqno s + length d = 1 + ?rd - length (drop (length d) pend)"
    using next' ld c(6) by simp
  ultimately show ?thesis
    using c(1-6) unsent unfolding sd_core_def eq by simp
qed

text \<open>What sending leaves alone.\<close>

definition sd_same :: "tcp_sender \<Rightarrow> tcp_sender \<Rightarrow> bool" where
  "sd_same s s' \<longleftrightarrow>
     sd_isn s' = sd_isn s \<and> sd_initial_retransmission_timeout s' = sd_initial_retransmission_timeout s \<and>
     sd_cur_ack_index s' = sd_cur_ack_index s \<and> sd_wd_right_edge s' = sd_wd_right_edge s \<and>
     sd_retrans_num s' = sd_retrans_num s \<and> sd_RTO s' = sd_RTO s \<and> sd_timer s' = sd_timer s \<and>
     bs_inputEnd (sd_stream s') = bs_inputEnd (sd_stream s) \<and>
     bs_capcity (sd_stream s') = bs_capcity (sd_stream s) \<and>
     bs_error_flag (sd_stream s') = bs_error_flag (sd_stream s) \<and>
     (\<exists>ns. sd_seg_buffer s' = sd_seg_buffer s @ ns \<and> sd_segments_out s' = sd_segments_out s @ map sn_seg ns)"

lemma sd_same_refl [simp]: "sd_same s s"
  by (auto simp: sd_same_def)

lemma sd_same_trans: "sd_same a b \<Longrightarrow> sd_same b c \<Longrightarrow> sd_same a c"
  unfolding sd_same_def by auto

lemma send_new_seg_same: "sd_same s (send_new_seg seg s)"
  by (auto simp: sd_same_def send_new_seg_def Let_def)

lemma send_new_seg_stream [simp]:
  "sd_stream (send_new_seg seg s) = sd_stream s" "sd_fin_ack_index (send_new_seg seg s) = sd_fin_ack_index s"
  by (simp_all add: send_new_seg_def Let_def)

text \<open>Whatever was appended to both queues is in order because the segments in flight are.\<close>

lemma sd_out_same:
  assumes "sd_core W pend s'" "sd_out W s" "sd_same s s'"
  shows "sd_out W s'"
proof -
  obtain ns where ns: "sd_seg_buffer s' = sd_seg_buffer s @ ns" "sd_segments_out s' = sd_segments_out s @ map sn_seg ns"
    using assms(3) by (auto simp: sd_same_def)
  have "emitted_ok W (bs_inputEnd (sd_stream s')) (sd_isn s') (sn_seg n)" if "n \<in> set ns" for n
    using chained_sent [OF sd_coreD(8) [OF assms(1)]] that ns(1) by (auto simp: emitted_ok_def)
  with assms(2,3) ns(2) show ?thesis by (auto simp: sd_out_def sd_same_def)
qed

lemma data_seg_eq: "(get_init_seg s)\<lparr>sg_payload := d\<rparr> = data_seg d False s"
  by (simp add: data_seg_def get_init_seg_def tcp_header_new_def)

lemma split_loop_spec:
  "sd_core W (drop i d) s \<Longrightarrow> sd_fin_ack_index s = 18446744073709551615 \<Longrightarrow> 0 < sd_next_seqno s \<Longrightarrow>
   i \<le> length d \<Longrightarrow> split_loop i d s = (j, s') \<Longrightarrow>
   sd_core W (drop j d) s' \<and> sd_same s s' \<and> sd_stream s' = sd_stream s \<and>
   sd_fin_ack_index s' = 18446744073709551615 \<and> 0 < sd_next_seqno s' \<and>
   sd_next_seqno s' = sd_next_seqno s + (j - i) \<and>
   i \<le> j \<and> j \<le> length d \<and> length d - j \<le> MAX_PAYLOAD_SIZE \<and> (i < length d \<longrightarrow> j < length d)"
proof (induction i d s rule: split_loop.induct)
  case (1 i d s)
  show ?case
  proof (cases "i + MAX_PAYLOAD_SIZE < length d")
    case True
    let ?d = "take MAX_PAYLOAD_SIZE (drop i d)"
    let ?s = "send_new_seg (data_seg ?d False s) s"
    have len: "length ?d = MAX_PAYLOAD_SIZE" "0 < MAX_PAYLOAD_SIZE" using True by (simp_all add: MAX_PAYLOAD_SIZE_def)
    have "sd_core W (drop (length ?d) (drop i d)) ?s"
      by (rule send_data_core) (use "1.prems" len in simp_all)
    then have core: "sd_core W (drop (i + MAX_PAYLOAD_SIZE) d) ?s" using len by (simp add: add.commute)
    have next': "sd_next_seqno ?s = sd_next_seqno s + MAX_PAYLOAD_SIZE"
      using send_new_seg_eq [OF "1.prems"(1), of "data_seg ?d False s"] len by (simp add: MAX_PAYLOAD_SIZE_def)
    have loop: "split_loop (i + MAX_PAYLOAD_SIZE) d ?s = (j, s')"
      using "1.prems"(5) True by (simp add: split_loop.simps [of i] data_seg_eq)
    note ih = "1.IH" [OF True, unfolded data_seg_eq, OF core _ _ _ loop]
    from ih "1.prems" True next' have "sd_same ?s s'" by simp
    then have "sd_same s s'" by (rule sd_same_trans [OF send_new_seg_same])
    with ih "1.prems" True next' show ?thesis by simp
  next
    case False
    then have "j = i" "s' = s" using "1.prems"(5) by (simp_all add: split_loop.simps [of i])
    with False "1.prems" show ?thesis by auto
  qed
qed

subsection \<open>Filling the window\<close>

lemma read_core:
  assumes core: "sd_core W [] s" and unsent: "sd_fin_ack_index s = 18446744073709551615" "0 < sd_next_seqno s"
    and rd: "bs_read n (sd_stream s) = (st, d)"
  shows "sd_core W d (s\<lparr>sd_stream := st\<rparr>)" "d = take n (bs_buffer (sd_stream s))"
    "bs_buffer st = drop n (bs_buffer (sd_stream s))" "bs_inputEnd st = bs_inputEnd (sd_stream s)"
    "bs_capcity st = bs_capcity (sd_stream s)" "bs_error_flag st = bs_error_flag (sd_stream s)"
    "bs_totoalRead st = bs_totoalRead (sd_stream s) + length d"
proof -
  note c = sd_coreD [OF core]
  let ?st = "sd_stream s" and ?rd = "bs_totoalRead (sd_stream s)"
  have eq: "st = ?st\<lparr>bs_buffer := drop n (bs_buffer ?st), bs_size := bs_size ?st - n,
      bs_totoalRead := add64 ?rd (min (bs_size ?st) n)\<rparr>" and d: "d = take n (bs_buffer ?st)"
    using rd bs_read_eq [OF c(1), of n] by simp_all
  have ld: "length d = min (bs_size ?st) n" using d c(4,11) by simp
  then have "?rd + min (bs_size ?st) n \<le> length W" using c(5,11) by simp
  then have add: "add64 ?rd (min (bs_size ?st) n) = ?rd + length d"
    using c(2) ld by (simp add: no_wrap)
  have inv: "bs_inv st" using bs_read_inv [OF c(1), of n] rd by simp
  have rdle: "?rd + length d \<le> length W" using ld c(5,11) by simp
  have "W = take ?rd W @ d @ drop n (drop ?rd W)" using d c(4) by (metis append_take_drop_id)
  moreover have "length (take ?rd W) = ?rd" using c(5) by simp
  ultimately have "excerpt W d ?rd False" unfolding excerpt_split by blast
  then have pend: "pend_ok W (?rd + length d) d" by (simp add: pend_ok_def)
  have dr: "drop n (drop ?rd W) = drop (?rd + length d) W"
  proof (cases "n \<le> bs_size ?st")
    case True
    then show ?thesis using ld by (simp add: add.commute)
  next
    case False
    then show ?thesis using ld c(5,11) by simp
  qed
  have eq2: "st = ?st\<lparr>bs_buffer := drop (?rd + length d) W, bs_size := bs_size ?st - n,
      bs_totoalRead := ?rd + length d\<rparr>"
    using eq unfolding add dr [symmetric] c(4) .
  have "sd_next_seqno s = 1 + ?rd" using core unsent by (simp add: sd_core_def)
  then show "sd_core W d (s\<lparr>sd_stream := st\<rparr>)"
    using c(2,3,8) inv pend rdle unsent unfolding sd_core_def by (simp add: eq2)
  show "d = take n (bs_buffer ?st)" by (rule d)
  show "bs_buffer st = drop n (bs_buffer (sd_stream s))" "bs_inputEnd st = bs_inputEnd (sd_stream s)"
    "bs_capcity st = bs_capcity (sd_stream s)" "bs_error_flag st = bs_error_flag (sd_stream s)"
    "bs_totoalRead st = bs_totoalRead (sd_stream s) + length d"
    by (simp_all add: eq add)
qed

lemma send_syn_core:
  assumes core: "sd_core W [] s" and z: "sd_next_seqno s = 0"
    and s': "s' = send_new_seg ((get_init_seg s)\<lparr>sg_header := (sg_header (get_init_seg s))\<lparr>th_syn := True\<rparr>\<rparr>) s"
  shows "sd_core W [] s'" "sd_next_seqno s' = 1" "sd_fin_ack_index s' = 18446744073709551615"
    "sd_stream s' = sd_stream s"
proof -
  let ?seg = "(get_init_seg s)\<lparr>sg_header := (sg_header (get_init_seg s))\<lparr>th_syn := True\<rparr>\<rparr>"
  note c = sd_coreD [OF core]
  have len: "length_in_sequence_space ?seg = 1" by (simp add: length_in_sequence_space_def)
  have fin: "sd_fin_ack_index s = 18446744073709551615" and rd: "bs_totoalRead (sd_stream s) = 0"
    using core z by (auto simp: sd_core_def split: if_splits)
  have sent: "sent_seg W (bs_inputEnd (sd_stream s)) (sd_isn s) (sd_next_seqno s) ?seg"
    by (simp add: sent_seg_def z)
  note eq = send_new_seg_eq [OF core, of ?seg, folded s', unfolded len]
  have "chained W (bs_inputEnd (sd_stream s)) (sd_isn s) (sd_cur_ack_index s)
      (sd_seg_buffer s @ [\<lparr>sn_seg = ?seg, sn_ack_index = 1\<rparr>]) 1"
    using chained_snoc [OF c(8) sent] len z by simp
  with c(1-7) fin rd show "sd_core W [] s'" unfolding sd_core_def using eq z by simp
  show "sd_next_seqno s' = 1" "sd_fin_ack_index s' = 18446744073709551615" "sd_stream s' = sd_stream s"
    using eq z fin by simp_all
qed

lemma send_fin_core:
  assumes core: "sd_core W pend s" and unsent: "sd_fin_ack_index s = 18446744073709551615" "0 < sd_next_seqno s"
    and pend: "length pend \<le> MAX_PAYLOAD_SIZE"
    and eof: "bs_inputEnd (sd_stream s)" "bs_totoalRead (sd_stream s) = length W"
    and s1: "s1 = send_new_seg (data_seg pend True s) s"
  shows "sd_core W [] (s1\<lparr>sd_fin_ack_index := sd_next_seqno s1\<rparr>)"
    "sd_next_seqno s1 = sd_next_seqno s + length pend + 1"
proof -
  note c = sd_coreD [OF core]
  have len: "length_in_sequence_space (data_seg pend True s) = length pend + 1" by simp
  have "length pend + 1 \<le> 2 ^ 62" using pend by (simp add: MAX_PAYLOAD_SIZE_def)
  note eq = send_new_seg_eq [OF core, of "data_seg pend True s", folded s1, unfolded len, OF this]
  have next': "sd_next_seqno s = 1 + length W - length pend" using core unsent eof by (simp add: sd_core_def)
  have sent: "sent_seg W (bs_inputEnd (sd_stream s)) (sd_isn s) (sd_next_seqno s) (data_seg pend True s)"
    by (rule data_seg_sent [OF core unsent]) (use pend eof in simp_all)
  note ch = chained_snoc [OF c(8) sent, unfolded len]
  show n: "sd_next_seqno s1 = sd_next_seqno s + length pend + 1" using eq by simp
  moreover have "sd_next_seqno s + length pend + 1 = 2 + length W" using next' c(6) eof by simp
  ultimately show "sd_core W [] (s1\<lparr>sd_fin_ack_index := sd_next_seqno s1\<rparr>)"
    using c(1-5) ch eof unfolding sd_core_def by (simp add: eq)
qed

lemma send_last_core:
  assumes "sd_core W pend s" "sd_fin_ack_index s = 18446744073709551615" "0 < sd_next_seqno s"
    and "0 < length pend" "length pend \<le> MAX_PAYLOAD_SIZE"
    and s1: "s1 = send_new_seg (data_seg pend False s) s"
  shows "sd_core W [] s1" "sd_next_seqno s1 = sd_next_seqno s + length pend"
  using send_data_core [OF assms(1-3), of pend] send_new_seg_eq [OF assms(1), of "data_seg pend False s"] assms(4-6)
  by (simp_all add: MAX_PAYLOAD_SIZE_def)

lemma data_seg_last:
  "(get_init_seg s)\<lparr>sg_header := (sg_header (get_init_seg s))\<lparr>th_fin := True\<rparr>, sg_payload := d\<rparr> = data_seg d True s"
  "(get_init_seg s)\<lparr>sg_header := (sg_header (get_init_seg s))\<lparr>th_fin := True\<rparr>\<rparr> = data_seg [] True s"
  "(data_seg [] True s)\<lparr>sg_payload := d\<rparr> = data_seg d True s"
  by (simp_all add: data_seg_def get_init_seg_def tcp_header_new_def tcp_segment_new_def)

text \<open>The number of bytes the window leaves.\<close>

definition sd_room :: "tcp_sender \<Rightarrow> nat" where
  "sd_room s = sd_wd_right_edge s - sd_next_seqno s"

lemma fill_window_eq:
  assumes core: "sd_core W [] s" and unsent: "sd_fin_ack_index s = 18446744073709551615" "0 < sd_next_seqno s"
    and edge: "sd_wd_right_edge s \<le> sd_next_seqno s + 65536"
    and rd: "bs_read (sd_room s) (sd_stream s) = (st, d)"
    and f: "f = (bs_eof st \<and> length d < sd_room s)"
    and loop: "split_loop 0 d (s\<lparr>sd_stream := st\<rparr>) = (j, s2)"
    and s3: "s3 = send_new_seg (data_seg (drop j d) f s2) s2"
  shows "fill_window s =
    (if j < length d \<or> f then if f then s3\<lparr>sd_fin_ack_index := sd_next_seqno s3\<rparr> else s3 else s2)"
proof -
  have "sd_next_seqno s < 18446744073709551615" using sd_coreD(2,9) [OF core] by simp
  then have ne: "sd_next_seqno s \<noteq> sd_fin_ack_index s" "sd_next_seqno s \<noteq> 0" using unsent by simp_all
  have "sd_wd_right_edge s < U64" using edge sd_coreD(2,9) [OF core] by simp
  then have fs: "(if sd_wd_right_edge s > sd_next_seqno s then sub64 (sd_wd_right_edge s) (sd_next_seqno s) else 0) mod U32 =
      sd_room s"
    using edge by (simp add: sd_room_def no_wrap)
  show ?thesis
    unfolding fill_window_def fs rd Let_def [of "sd_room s"] Let_def [of "(st, d)"] prod.case
    using ne loop
    by (cases f; cases "j < length d") (simp_all add: f [symmetric] data_seg_last data_seg_eq s3 Let_def)
qed

definition fill_ok :: "bytes \<Rightarrow> tcp_sender \<Rightarrow> tcp_sender \<Rightarrow> bool" where
  "fill_ok W s s' \<longleftrightarrow>
     sd_core W [] s' \<and> sd_same s s' \<and> sd_next_seqno s \<le> sd_next_seqno s' \<and>
     sd_next_seqno s' \<le> max (max 1 (sd_next_seqno s)) (sd_wd_right_edge s) \<and> 0 < sd_next_seqno s' \<and>
     (0 < sd_next_seqno s \<longrightarrow> sd_wd_right_edge s \<le> sd_next_seqno s' \<or>
        bs_buffer (sd_stream s') = [] \<and>
        (bs_inputEnd (sd_stream s') \<longrightarrow> sd_fin_ack_index s' = sd_next_seqno s'))"

lemma fill_window_data:
  assumes core: "sd_core W [] s" and unsent: "sd_fin_ack_index s = 18446744073709551615" "0 < sd_next_seqno s"
    and edge: "sd_wd_right_edge s \<le> sd_next_seqno s + 65536"
  shows "fill_ok W s (fill_window s)"
proof -
  obtain st d where rd: "bs_read (sd_room s) (sd_stream s) = (st, d)" by fastforce
  define f where "f = (bs_eof st \<and> length d < sd_room s)"
  obtain j s2 where loop: "split_loop 0 d (s\<lparr>sd_stream := st\<rparr>) = (j, s2)" by fastforce
  define s3 where "s3 = send_new_seg (data_seg (drop j d) f s2) s2"
  note r = read_core [OF core unsent rd]
  note eq = fill_window_eq [OF core unsent edge rd f_def loop s3_def]
  let ?s1 = "s\<lparr>sd_stream := st\<rparr>"
  have l: "sd_core W (drop j d) s2" "sd_same ?s1 s2" "sd_stream s2 = st"
    "sd_fin_ack_index s2 = 18446744073709551615" "0 < sd_next_seqno s2"
    "sd_next_seqno s2 = sd_next_seqno s + j" "j \<le> length d" "length d - j \<le> MAX_PAYLOAD_SIZE"
    "0 < length d \<longrightarrow> j < length d"
    using split_loop_spec [OF _ _ _ _ loop, of W] r(1) unsent by auto
  have same2: "sd_same s s2" using l(2) r(4-6) by (auto simp: sd_same_def)
  have same3: "sd_same s s3" unfolding s3_def by (rule sd_same_trans [OF same2 send_new_seg_same])
  have ld: "length d \<le> sd_room s" using r(2) by simp
  have drained: "bs_buffer st = []" if "length d < sd_room s" using that r(2,3) by simp
  show ?thesis
  proof (cases f)
    case True
    have c2: "bs_inv st" "bs_totoalRead st \<le> length W" "bs_size st = length W - bs_totoalRead st"
      using sd_coreD(1,5,11) [OF l(1)] l(3) by simp_all
    have "bs_inputEnd st" "bs_totoalRead st = length W"
      using True c2 by (simp_all add: f_def bs_eof_def)
    then have "sd_core W [] (s3\<lparr>sd_fin_ack_index := sd_next_seqno s3\<rparr>)"
      "sd_next_seqno s3 = sd_next_seqno s2 + length (drop j d) + 1"
      using send_fin_core [OF l(1,4,5), of s3] l(3,8) s3_def True by simp_all
    moreover have "sd_next_seqno s + length d + 1 \<le> sd_wd_right_edge s"
      using True unfolding f_def sd_room_def by linarith
    moreover have "sd_stream s3 = st" using l(3) by (simp add: s3_def)
    moreover have "sd_same s (s3\<lparr>sd_fin_ack_index := sd_next_seqno s3\<rparr>)" using same3 by (simp add: sd_same_def)
    ultimately show ?thesis
      using True drained l(6,7) eq by (simp add: fill_ok_def f_def)
  next
    case False
    have "fill_window s = (if j < length d then s3 else s2)" using eq False by simp
    moreover have "sd_core W [] s3" "sd_next_seqno s3 = sd_next_seqno s + length d" if "j < length d"
      using send_last_core [OF l(1,4,5), of s3] that l(6-8) s3_def False by simp_all
    moreover have "sd_core W [] s2" "sd_next_seqno s2 = sd_next_seqno s + length d" if "\<not> j < length d"
      using l(1,6,7) that by simp_all
    ultimately have w: "sd_core W [] (fill_window s)" "sd_next_seqno (fill_window s) = sd_next_seqno s + length d"
      "sd_same s (fill_window s)" "sd_stream (fill_window s) = st"
      using same2 same3 l(3) s3_def by (simp_all split: if_splits)
    have "sd_next_seqno s + length d \<le> max (sd_next_seqno s) (sd_wd_right_edge s)"
      using ld unfolding sd_room_def by auto
    moreover have "sd_wd_right_edge s \<le> sd_next_seqno s + length d \<or>
        bs_buffer st = [] \<and> \<not> bs_inputEnd st"
    proof (cases "length d < sd_room s")
      case True
      with False have "\<not> bs_eof st" by (simp add: f_def)
      moreover have "bs_size st = 0"
        using drained [OF True] sd_coreD(1) [OF l(1)] l(3) by (simp add: bs_inv_def)
      ultimately show ?thesis using drained [OF True] by (simp add: bs_eof_def)
    qed (auto simp: sd_room_def)
    ultimately show ?thesis unfolding fill_ok_def w using w(1,3) unsent(2) by auto
  qed
qed

lemma fill_window_spec:
  assumes core: "sd_core W [] s" and edge: "sd_wd_right_edge s \<le> sd_next_seqno s + 65536"
  shows "fill_ok W s (fill_window s)"
proof -
  consider "sd_next_seqno s = sd_fin_ack_index s"
    | "sd_next_seqno s = 0" "sd_next_seqno s \<noteq> sd_fin_ack_index s"
    | "0 < sd_next_seqno s" "sd_next_seqno s \<noteq> sd_fin_ack_index s" by fastforce
  then show ?thesis
  proof cases
    case 1
    have "sd_next_seqno s < 18446744073709551615" using sd_coreD(2,9) [OF core] by simp
    then have "bs_totoalRead (sd_stream s) = length W" "0 < sd_next_seqno s"
      using 1 core by (auto simp: sd_core_def split: if_splits)
    then show ?thesis using 1 core sd_coreD(4) [OF core] by (simp add: fill_window_def fill_ok_def)
  next
    case 2
    let ?s' = "send_new_seg ((get_init_seg s)\<lparr>sg_header := (sg_header (get_init_seg s))\<lparr>th_syn := True\<rparr>\<rparr>) s"
    have "fill_window s = ?s'" using 2 by (simp add: fill_window_def Let_def)
    with send_syn_core [OF core 2(1) refl] send_new_seg_same 2(1) show ?thesis
      by (simp add: fill_ok_def)
  next
    case 3
    then have "sd_fin_ack_index s = 18446744073709551615" using core by (auto simp: sd_core_def split: if_splits)
    with 3 show ?thesis by (intro fill_window_data [OF core _ _ edge]) simp_all
  qed
qed

subsection \<open>The invariant and the operations\<close>

definition sd_inv :: "bytes \<Rightarrow> tcp_sender \<Rightarrow> bool" where
  "sd_inv W s \<longleftrightarrow> sd_core W [] s \<and> sd_out W s \<and> sd_win s \<and> sd_rto s"

lemma tcp_sender_new_inv: "capacity < U64 \<Longrightarrow> sd_inv [] (tcp_sender_new capacity rto isn rnd)"
  using unat_u16_less [of rto]
  by (simp add: sd_inv_def sd_core_def sd_out_def sd_win_def sd_rto_def tcp_sender_new_def bs_inv_def bs_new_def
      no_wrap)

lemma fill_window_inv:
  assumes "sd_inv W s"
  shows "sd_inv W (fill_window s)" "fill_ok W s (fill_window s)"
proof -
  have "sd_core W [] s" "sd_wd_right_edge s \<le> sd_next_seqno s + 65536" "sd_out W s" "sd_win s" "sd_rto s"
    using assms by (simp_all add: sd_inv_def sd_win_def)
  note i = this
  show ok: "fill_ok W s (fill_window s)" by (rule fill_window_spec [OF i(1,2)])
  then have "sd_core W [] (fill_window s)" "sd_same s (fill_window s)" by (simp_all add: fill_ok_def)
  moreover have "sd_out W (fill_window s)" by (rule sd_out_same [OF calculation(1) i(3) calculation(2)])
  ultimately show "sd_inv W (fill_window s)"
    using i(4,5) ok by (auto simp: sd_inv_def sd_win_def sd_rto_def fill_ok_def sd_same_def)
qed

text \<open>The state in which \<^verbatim>\<open>ack_received\<close> calls \<^verbatim>\<open>fill_window\<close>, without the extra byte of a probe.\<close>

definition ack_state :: "nat \<Rightarrow> u16 \<Rightarrow> bool \<Rightarrow> nat \<Rightarrow> seg_node list \<Rightarrow> tcp_sender \<Rightarrow> tcp_sender" where
  "ack_state ack win flg cur rest s =
     s\<lparr>sd_cur_ack_index := cur, sd_seg_buffer := rest,
       sd_RTO := (if flg then sd_initial_retransmission_timeout s else sd_RTO s),
       sd_retrans_num := (if flg then 0 else sd_retrans_num s),
       sd_timer := (if flg then timer_flash (sd_timer s) else sd_timer s),
       sd_wd_right_edge := max (sd_wd_right_edge s) (ack + unat win)\<rparr>"

lemma ack_received_eq:
  assumes inv: "sd_inv W s" and ack: "ack = unwrap ackno (sd_isn s) (sd_next_seqno s)"
    and ok: "ack \<le> sd_next_seqno s" "sd_cur_ack_index s \<le> ack"
    and loop: "ack_loop ack False (sd_cur_ack_index s) (sd_seg_buffer s) = (flg, cur, rest)"
    and s1: "s1 = ack_state ack win flg cur rest s"
  shows "ack_received ackno win s =
    (if win = 0
     then (let s2 = fill_window (s1\<lparr>sd_wd_right_edge := sd_wd_right_edge s1 + 1\<rparr>)
           in s2\<lparr>sd_wd_right_edge := sub64 (sd_wd_right_edge s2) 1\<rparr>)
     else fill_window s1)"
proof -
  have core: "sd_core W [] s" and win: "sd_win s" using inv by (simp_all add: sd_inv_def)
  have "sd_next_seqno s < 2 ^ 63" using sd_coreD(2,9) [OF core] by simp
  then have b: "ack + unat win < 2 ^ 63 + 65536" "sd_wd_right_edge s + 65537 < U64"
    using ok(1) unat_u16_less [of win] win by (simp_all add: sd_win_def)
  then have add: "add64 ack (unat win) = ack + unat win" by (intro add64_id) simp
  have add1: "add64 (sd_wd_right_edge s) (Suc 0) = Suc (sd_wd_right_edge s)"
    "add64 (ack + unat win) (Suc 0) = Suc (ack + unat win)"
    using b by (simp_all add: no_wrap)
  have "\<not> (sd_next_seqno s < ack \<or> ack < sd_cur_ack_index s)" using ok by simp
  then show ?thesis
    unfolding ack_received_def ack [symmetric] Let_def loop prod.case add s1 ack_state_def
    using add1 by (cases flg; cases "win = 0"; cases "sd_wd_right_edge s < ack + unat win") (simp_all add: max_def)
qed

lemma ack_state_core:
  assumes inv: "sd_inv W s" and ok: "ack \<le> sd_next_seqno s" "sd_cur_ack_index s \<le> ack"
    and loop: "ack_loop ack False (sd_cur_ack_index s) (sd_seg_buffer s) = (flg, cur, rest)"
    and s1: "s1 = ack_state ack win flg cur rest s"
  shows "sd_core W [] s1" "sd_out W s1" "sd_win s1" "sd_rto s1"
proof -
  have i: "sd_core W [] s" "sd_out W s" "sd_win s" "sd_rto s" using inv by (simp_all add: sd_inv_def)
  note c = sd_coreD [OF i(1)]
  note l = ack_loop_spec [OF c(8) ok(2) loop]
  show "sd_core W [] s1" by (rule sd_core_cong [OF i(1)]) (use l in \<open>simp_all add: s1 ack_state_def\<close>)
  show "sd_out W s1" using i(2) by (simp add: sd_out_def s1 ack_state_def)
  have "ack + unat win \<le> sd_next_seqno s + 65535" using ok(1) unat_u16_less [of win] by simp
  then show "sd_win s1" using i(3) l by (auto simp: sd_win_def s1 ack_state_def max_def)
  show "sd_rto s1" using i(4) by (simp add: sd_rto_def s1 ack_state_def no_wrap)
qed

text \<open>What an acknowledgment does when it is acceptable.\<close>

definition ack_ok :: "bytes \<Rightarrow> nat \<Rightarrow> u16 \<Rightarrow> tcp_sender \<Rightarrow> tcp_sender \<Rightarrow> bool" where
  "ack_ok W ack win s s' \<longleftrightarrow>
     sd_isn s' = sd_isn s \<and> bs_inputEnd (sd_stream s') = bs_inputEnd (sd_stream s) \<and>
     bs_error_flag (sd_stream s') = bs_error_flag (sd_stream s) \<and> (sd_cur_ack_index s' = ack \<or> ack < sd_next_seqno s) \<and>
     sd_cur_ack_index s \<le> sd_cur_ack_index s' \<and> sd_cur_ack_index s' \<le> ack \<and>
     sd_wd_right_edge s' = max (sd_wd_right_edge s) (ack + unat win) \<and>
     sd_next_seqno s \<le> sd_next_seqno s' \<and>
     sd_next_seqno s' \<le> max (max 1 (sd_next_seqno s)) (sd_wd_right_edge s' + (if win = 0 then 1 else 0)) \<and>
     (\<exists>popped rest new. sd_seg_buffer s = popped @ rest \<and> sd_seg_buffer s' = rest @ new \<and>
        sd_segments_out s' = sd_segments_out s @ map sn_seg new \<and>
        (\<forall>n \<in> set popped. sn_ack_index n \<le> ack) \<and> (rest \<noteq> [] \<longrightarrow> ack < sn_ack_index (hd rest)) \<and>
        (if popped = [] then sd_RTO s' = sd_RTO s \<and> sd_retrans_num s' = sd_retrans_num s \<and> sd_timer s' = sd_timer s
         else sd_RTO s' = sd_initial_retransmission_timeout s \<and> sd_retrans_num s' = 0 \<and>
           sd_timer s' = timer_flash (sd_timer s)))"

lemma ack_received_spec:
  assumes inv: "sd_inv W s" and ack: "ack = unwrap ackno (sd_isn s) (sd_next_seqno s)"
    and ok: "ack \<le> sd_next_seqno s" "sd_cur_ack_index s \<le> ack" and s': "s' = ack_received ackno win s"
  shows "sd_inv W s' \<and> ack_ok W ack win s s'"
proof -
  obtain flg cur rest where loop: "ack_loop ack False (sd_cur_ack_index s) (sd_seg_buffer s) = (flg, cur, rest)"
    by (metis prod_cases3)
  define s1 where "s1 = ack_state ack win flg cur rest s"
  define k where "k = (if win = 0 then 1 else 0 :: nat)"
  define s2 where "s2 = s1\<lparr>sd_wd_right_edge := sd_wd_right_edge s1 + k\<rparr>"
  note i1 = ack_state_core [OF inv ok loop s1_def]
  have core: "sd_core W [] s" using inv by (simp add: sd_inv_def)
  note l = ack_loop_spec [OF sd_coreD(8) [OF core] ok(2) loop]
  have core2: "sd_core W [] s2"
    by (rule sd_core_cong [OF i1(1)]) (use sd_coreD(8) [OF i1(1)] in \<open>simp_all add: s2_def\<close>)
  have "sd_wd_right_edge s2 \<le> sd_next_seqno s2 + 65536" using i1(3) by (simp add: s2_def k_def sd_win_def)
  note f = fill_window_spec [OF core2 this, unfolded fill_ok_def]
  let ?f = "fill_window s2"
  have same: "sd_same s2 ?f" using f by blast
  then have edge: "sd_wd_right_edge ?f = sd_wd_right_edge s1 + k" by (simp add: sd_same_def s2_def)
  have "sd_wd_right_edge s1 + 1 < U64"
    using i1(3) sd_coreD(2,9) [OF i1(1)] by (simp add: sd_win_def)
  then have "sub64 (sd_wd_right_edge s1 + 1) 1 = sd_wd_right_edge s1" by (simp add: no_wrap)
  then have eq: "s' = ?f\<lparr>sd_wd_right_edge := sd_wd_right_edge s1\<rparr>"
  proof (cases "win = 0")
    case True
    with \<open>sub64 _ 1 = _\<close> ack_received_eq [OF inv ack ok loop s1_def] edge show ?thesis
      by (simp add: s' s2_def k_def Let_def)
  next
    case False
    then have "s2 = s1" "sd_wd_right_edge s1 = sd_wd_right_edge ?f" using edge by (simp_all add: s2_def k_def)
    with False ack_received_eq [OF inv ack ok loop s1_def] show ?thesis by (simp add: s')
  qed
  have coref: "sd_core W [] ?f" using f by blast
  have core': "sd_core W [] s'"
    by (rule sd_core_cong [OF coref]) (use sd_coreD(8) [OF coref] in \<open>simp_all add: eq\<close>)
  have "sd_out W ?f" using f i1(2) by (intro sd_out_same [OF _ _ same]) (auto simp: sd_out_def s2_def)
  then have out': "sd_out W s'" by (simp add: eq sd_out_def)
  have win': "sd_win s'"
    using i1(3) f same by (auto simp: eq sd_win_def sd_same_def s2_def k_def)
  have rto': "sd_rto s'" using i1(4) same by (simp add: eq sd_rto_def sd_same_def s2_def)
  obtain ns where ns: "sd_seg_buffer ?f = rest @ ns" "sd_segments_out ?f = sd_segments_out s @ map sn_seg ns"
    using same by (auto simp: sd_same_def s2_def s1_def ack_state_def)
  obtain popped where popped: "sd_seg_buffer s = popped @ rest" "\<forall>n \<in> set popped. sn_ack_index n \<le> ack"
    and flg: "flg \<longleftrightarrow> popped \<noteq> []"
    using l by blast
  have "cur = ack \<or> ack < sd_next_seqno s"
    using l ok(1) by (intro chained_all_acked [where rest = rest]) blast+
  moreover have "sd_isn s' = sd_isn s" "bs_inputEnd (sd_stream s') = bs_inputEnd (sd_stream s)"
    "bs_error_flag (sd_stream s') = bs_error_flag (sd_stream s)"
    using same by (simp_all add: eq sd_same_def s2_def s1_def ack_state_def)
  moreover note id_fields = calculation
  have fields: "sd_cur_ack_index s' = cur" "sd_wd_right_edge s' = max (sd_wd_right_edge s) (ack + unat win)"
    "sd_next_seqno s' = sd_next_seqno ?f" "sd_next_seqno s2 = sd_next_seqno s"
    "sd_wd_right_edge s2 = sd_wd_right_edge s' + k"
    using same by (simp_all add: eq sd_same_def s2_def s1_def ack_state_def)
  have "sd_RTO ?f = sd_RTO s2" "sd_retrans_num ?f = sd_retrans_num s2" "sd_timer ?f = sd_timer s2"
    using same by (simp_all add: sd_same_def)
  moreover have "if popped = [] then sd_RTO s2 = sd_RTO s \<and> sd_retrans_num s2 = sd_retrans_num s \<and> sd_timer s2 = sd_timer s
         else sd_RTO s2 = sd_initial_retransmission_timeout s \<and> sd_retrans_num s2 = 0 \<and>
           sd_timer s2 = timer_flash (sd_timer s)"
    using flg by (simp add: s2_def s1_def ack_state_def)
  ultimately have rto: "if popped = [] then sd_RTO s' = sd_RTO s \<and> sd_retrans_num s' = sd_retrans_num s \<and> sd_timer s' = sd_timer s
         else sd_RTO s' = sd_initial_retransmission_timeout s \<and> sd_retrans_num s' = 0 \<and>
           sd_timer s' = timer_flash (sd_timer s)"
    by (simp add: eq)
  have "sd_seg_buffer s' = rest @ ns" "sd_segments_out s' = sd_segments_out s @ map sn_seg ns"
    using ns by (simp_all add: eq)
  then have "\<exists>popped rest new. sd_seg_buffer s = popped @ rest \<and> sd_seg_buffer s' = rest @ new \<and>
        sd_segments_out s' = sd_segments_out s @ map sn_seg new \<and>
        (\<forall>n \<in> set popped. sn_ack_index n \<le> ack) \<and> (rest \<noteq> [] \<longrightarrow> ack < sn_ack_index (hd rest)) \<and>
        (if popped = [] then sd_RTO s' = sd_RTO s \<and> sd_retrans_num s' = sd_retrans_num s \<and> sd_timer s' = sd_timer s
         else sd_RTO s' = sd_initial_retransmission_timeout s \<and> sd_retrans_num s' = 0 \<and>
           sd_timer s' = timer_flash (sd_timer s))"
    using popped l rto by blast
  moreover have "sd_next_seqno s \<le> sd_next_seqno s'"
    "sd_next_seqno s' \<le> max (max 1 (sd_next_seqno s)) (sd_wd_right_edge s' + k)"
    using f fields by simp_all
  ultimately have "ack_ok W ack win s s'"
    unfolding ack_ok_def using fields l k_def id_fields by simp
  with core' out' win' rto' show ?thesis by (simp add: sd_inv_def)
qed

lemma ack_received_inv: "sd_inv W s \<Longrightarrow> sd_inv W (ack_received ackno win s)"
  using ack_received_spec [of W s _ ackno _ win, OF _ refl _ _ refl]
  by (cases "unwrap ackno (sd_isn s) (sd_next_seqno s) > sd_next_seqno s \<or>
      unwrap ackno (sd_isn s) (sd_next_seqno s) < sd_cur_ack_index s")
    (auto simp: ack_received_def Let_def)

lemma sd_tick_eq:
  assumes inv: "sd_inv W s" and s': "s' = sd_tick ms s"
  shows "sd_seg_buffer s = [] \<Longrightarrow> s' = s"
    and "sd_seg_buffer s \<noteq> [] \<Longrightarrow> \<not> timer_time_out (sd_RTO s) (timer_tick ms (sd_timer s)) \<Longrightarrow>
      s' = s\<lparr>sd_timer := timer_tick ms (sd_timer s)\<rparr>"
    and "sd_seg_buffer s \<noteq> [] \<Longrightarrow> timer_time_out (sd_RTO s) (timer_tick ms (sd_timer s)) \<Longrightarrow>
      s' = s\<lparr>sd_segments_out := sd_segments_out s @ [sn_seg (hd (sd_seg_buffer s))],
        sd_retrans_num := (if sd_wd_right_edge s \<noteq> sd_cur_ack_index s then add64 (sd_retrans_num s) 1
          else sd_retrans_num s),
        sd_RTO := (if sd_wd_right_edge s \<noteq> sd_cur_ack_index s then mul64 (sd_RTO s) 2 else sd_RTO s),
        sd_timer := timer_flash (timer_tick ms (sd_timer s))\<rparr>"
proof -
  have w: "sd_cur_ack_index s \<le> sd_wd_right_edge s" "sd_wd_right_edge s < U64"
    using inv sd_coreD(2,9) [of W "[]" s] by (auto simp: sd_inv_def sd_win_def)
  then have ws: "sub64 (sd_wd_right_edge s) (sd_cur_ack_index s) \<noteq> 0 \<longleftrightarrow> sd_wd_right_edge s \<noteq> sd_cur_ack_index s"
    by (simp add: no_wrap)
  show "sd_seg_buffer s = [] \<Longrightarrow> s' = s" by (simp add: s' sd_tick_def)
  show "sd_seg_buffer s \<noteq> [] \<Longrightarrow> \<not> timer_time_out (sd_RTO s) (timer_tick ms (sd_timer s)) \<Longrightarrow>
      s' = s\<lparr>sd_timer := timer_tick ms (sd_timer s)\<rparr>"
    by (cases "sd_seg_buffer s") (simp_all add: s' sd_tick_def)
  show "sd_seg_buffer s \<noteq> [] \<Longrightarrow> timer_time_out (sd_RTO s) (timer_tick ms (sd_timer s)) \<Longrightarrow>
      s' = s\<lparr>sd_segments_out := sd_segments_out s @ [sn_seg (hd (sd_seg_buffer s))],
        sd_retrans_num := (if sd_wd_right_edge s \<noteq> sd_cur_ack_index s then add64 (sd_retrans_num s) 1
          else sd_retrans_num s),
        sd_RTO := (if sd_wd_right_edge s \<noteq> sd_cur_ack_index s then mul64 (sd_RTO s) 2 else sd_RTO s),
        sd_timer := timer_flash (timer_tick ms (sd_timer s))\<rparr>"
    using ws by (cases "sd_seg_buffer s") (simp_all add: s' sd_tick_def Let_def)
qed

lemma sd_rto_backoff:
  assumes "sd_rto s" "sd_retrans_num s < 2 ^ 62"
  shows "add64 (sd_retrans_num s) 1 = sd_retrans_num s + 1"
    and "mul64 (sd_RTO s) 2 = u64 (sd_initial_retransmission_timeout s * 2 ^ (sd_retrans_num s + 1))"
proof -
  show "add64 (sd_retrans_num s) 1 = sd_retrans_num s + 1" using assms(2) by (simp add: no_wrap)
  have "mul64 (u64 a) 2 = u64 (a * 2)" for a by (simp add: mul64_def u64_def mod_mult_left_eq)
  then show "mul64 (sd_RTO s) 2 = u64 (sd_initial_retransmission_timeout s * 2 ^ (sd_retrans_num s + 1))"
    using assms(1) by (simp add: sd_rto_def mult_ac)
qed

lemma sd_tick_inv:
  assumes inv: "sd_inv W s" and n: "sd_retrans_num s < 2 ^ 62"
  shows "sd_inv W (sd_tick ms s)"
proof (cases "sd_seg_buffer s \<noteq> [] \<and> timer_time_out (sd_RTO s) (timer_tick ms (sd_timer s))")
  case False
  then have "sd_tick ms s = s \<or> sd_tick ms s = s\<lparr>sd_timer := timer_tick ms (sd_timer s)\<rparr>"
    using sd_tick_eq(1,2) [OF inv refl] by blast
  moreover have "sd_inv W (s\<lparr>sd_timer := timer_tick ms (sd_timer s)\<rparr>)"
    using inv sd_core_cong [of W "[]" s "s\<lparr>sd_timer := timer_tick ms (sd_timer s)\<rparr>"] sd_coreD(8) [of W "[]" s]
    by (simp add: sd_inv_def sd_out_def sd_win_def sd_rto_def)
  ultimately show ?thesis using inv by auto
next
  case True
  let ?s' = "sd_tick ms s"
  note eq = sd_tick_eq(3) [OF inv refl, of ms] True
  have i: "sd_core W [] s" "sd_out W s" "sd_win s" "sd_rto s" using inv by (simp_all add: sd_inv_def)
  have "sd_core W [] ?s'" by (rule sd_core_cong [OF i(1)]) (use eq sd_coreD(8) [OF i(1)] in simp_all)
  moreover have "emitted_ok W (bs_inputEnd (sd_stream s)) (sd_isn s) (sn_seg (hd (sd_seg_buffer s)))"
    using chained_sent [OF sd_coreD(8) [OF i(1)], of "hd (sd_seg_buffer s)"] True by (auto simp: emitted_ok_def)
  then have "sd_out W ?s'" using i(2) eq by (auto simp: sd_out_def)
  moreover have "sd_win ?s'" using i(3) eq by (simp add: sd_win_def)
  moreover have "sd_rto ?s'" using i(4) eq sd_rto_backoff [OF i(4) n] n by (simp add: sd_rto_def)
  ultimately show ?thesis by (simp add: sd_inv_def)
qed

lemma send_empty_ack_inv:
  assumes inv: "sd_inv W s"
  shows "sd_inv W (send_empty_ack s)"
proof -
  have i: "sd_core W [] s" "sd_out W s" "sd_win s" "sd_rto s" using inv by (simp_all add: sd_inv_def)
  show ?thesis
  proof (cases "sd_next_seqno s = 0")
    case True
    let ?s' = "send_new_seg ((get_init_seg s)\<lparr>sg_header := (sg_header (get_init_seg s))\<lparr>th_syn := True\<rparr>\<rparr>) s"
    have eq: "send_empty_ack s = ?s'" using True by (simp add: send_empty_ack_def Let_def)
    note y = send_syn_core [OF i(1) True refl]
    have same: "sd_same s ?s'" by (rule send_new_seg_same)
    have "sd_out W ?s'" by (rule sd_out_same [OF y(1) i(2) same])
    moreover have "sd_win ?s'" using i(3) same y(2) True by (simp add: sd_win_def sd_same_def)
    moreover have "sd_rto ?s'" using i(4) same by (simp add: sd_rto_def sd_same_def)
    ultimately show ?thesis using y(1) by (simp add: eq sd_inv_def)
  next
    case False
    let ?s' = "s\<lparr>sd_segments_out := sd_segments_out s @ [get_init_seg s]\<rparr>"
    have eq: "send_empty_ack s = ?s'" using False by (simp add: send_empty_ack_def Let_def)
    have "sd_core W [] ?s'" by (rule sd_core_cong [OF i(1)]) (use sd_coreD(8) [OF i(1)] in simp_all)
    then show ?thesis
      using i by (simp add: eq sd_inv_def sd_out_def sd_win_def sd_rto_def emitted_ok_def length_in_sequence_space_def)
  qed
qed

lemma sd_write_inv:
  assumes inv: "sd_inv W s" and opn: "\<not> bs_inputEnd (sd_stream s)" "length W + length d < 2 ^ 62"
    and w: "bs_write d (sd_stream s) = (st, k)"
  shows "sd_inv (W @ take k d) (s\<lparr>sd_stream := st\<rparr>)"
proof -
  have i: "sd_core W [] s" "sd_out W s" "sd_win s" "sd_rto s" using inv by (simp_all add: sd_inv_def)
  note c = sd_coreD [OF i(1)]
  have k: "k = min (length d) (bs_capcity (sd_stream s) - bs_size (sd_stream s))"
    using w bs_write_eq [OF c(1) refl, of d] by simp
  have eq: "st = (sd_stream s)\<lparr>bs_buffer := bs_buffer (sd_stream s) @ take k d, bs_size := bs_size (sd_stream s) + k,
      bs_totoalWrite := add64 (bs_totoalWrite (sd_stream s)) k\<rparr>"
    using w bs_write_eq [OF c(1) k] by simp
  have "add64 (bs_totoalWrite (sd_stream s)) k = length W + k"
    using c(3) opn(2) k by (simp add: no_wrap)
  note eq2 = eq [unfolded this]
  have st: "bs_inv st" using bs_write_inv [OF c(1), of d] w by simp
  have "length (take k d) = k" using k by simp
  moreover have "sd_fin_ack_index s = 18446744073709551615"
    using i(1) opn(1) by (auto simp: sd_core_def split: if_splits)
  moreover have "bs_inputEnd st = bs_inputEnd (sd_stream s)" by (simp add: eq2)
  moreover have "chained (W @ take k d) False (sd_isn s) (sd_cur_ack_index s) (sd_seg_buffer s) (sd_next_seqno s)"
    using c(8) opn(1) by (auto intro: chained_append_W)
  moreover have "length W + k < 2 ^ 62" using opn(2) k by simp
  moreover have "sd_next_seqno s = 0 \<longrightarrow> bs_totoalRead (sd_stream s) = 0"
    "0 < sd_next_seqno s \<longrightarrow> sd_next_seqno s = Suc (bs_totoalRead (sd_stream s))"
    using i(1) calculation(2) by (auto simp: sd_core_def split: if_splits)
  ultimately have "sd_core (W @ take k d) [] (s\<lparr>sd_stream := st\<rparr>)"
    using c(4,5) st opn(1) unfolding sd_core_def by (simp add: eq2)
  moreover have "sd_out (W @ take k d) (s\<lparr>sd_stream := st\<rparr>)"
    using i(2) opn(1) by (auto simp: sd_out_def eq2 emitted_ok_def intro: sent_seg_append)
  ultimately show ?thesis using i(3,4) by (simp add: sd_inv_def sd_win_def sd_rto_def)
qed

lemma sent_seg_e: "sent_seg W e isn a seg \<Longrightarrow> sent_seg W True isn a seg"
  by (auto simp: sent_seg_def)

lemma chained_e: "chained W e isn a ns b \<Longrightarrow> chained W True isn a ns b"
  by (induction ns arbitrary: a) (auto intro: sent_seg_e)

lemma sd_end_inv:
  assumes inv: "sd_inv W s"
  shows "sd_inv W (s\<lparr>sd_stream := bs_end_input (sd_stream s)\<rparr>)"
proof -
  have i: "sd_core W [] s" "sd_out W s" "sd_win s" "sd_rto s" using inv by (simp_all add: sd_inv_def)
  note c = sd_coreD [OF i(1)]
  have "sd_core W [] (s\<lparr>sd_stream := bs_end_input (sd_stream s)\<rparr>)"
    using i(1) chained_e [OF c(8)] unfolding sd_core_def
    by (simp only: bs_end_input_inv tcp_sender.simps bs_end_input_def byte_stream.simps) (auto simp: bs_inv_def)
  moreover have "sd_out W (s\<lparr>sd_stream := bs_end_input (sd_stream s)\<rparr>)"
    using i(2) by (auto simp: sd_out_def bs_end_input_def emitted_ok_def intro: sent_seg_e)
  ultimately show ?thesis using i(3,4) by (simp add: sd_inv_def sd_win_def sd_rto_def)
qed

subsection \<open>Runs of the sender\<close>

text \<open>The calls the sender gets: the application writes or ends its stream (through \<^verbatim>\<open>stream_in()\<close>), the owner
  fills the window, hands over acknowledgments and time, asks for an empty segment, or takes the queued segments.
  The state carries the bytes accepted so far.\<close>

datatype sd_op = SWrite bytes | SEnd | SFill | SAck wrapping_int32 u16 | STick nat | SEmptyAck | STake

fun sd_step :: "tcp_sender \<times> bytes \<Rightarrow> sd_op \<Rightarrow> tcp_sender \<times> bytes" where
  "sd_step (s, W) (SWrite d) = (case bs_write d (sd_stream s) of (st, k) \<Rightarrow> (s\<lparr>sd_stream := st\<rparr>, W @ take k d))"
| "sd_step (s, W) SEnd = (s\<lparr>sd_stream := bs_end_input (sd_stream s)\<rparr>, W)"
| "sd_step (s, W) SFill = (fill_window s, W)"
| "sd_step (s, W) (SAck ackno win) = (ack_received ackno win s, W)"
| "sd_step (s, W) (STick ms) = (sd_tick ms s, W)"
| "sd_step (s, W) SEmptyAck = (send_empty_ack s, W)"
| "sd_step (s, W) STake = (s\<lparr>sd_segments_out := []\<rparr>, W)"

text \<open>The application does not write after it has ended the stream, and the stream stays below
  \<open>2^62\<close> bytes and the number of retransmissions in a row below \<open>2^62\<close>.\<close>

definition sd_allowed :: "tcp_sender \<times> bytes \<Rightarrow> sd_op \<Rightarrow> bool" where
  "sd_allowed s op =
     (case op of
        SWrite d \<Rightarrow> \<not> bs_inputEnd (sd_stream (fst s)) \<and> length (snd s) + length d < 2 ^ 62
      | STick ms \<Rightarrow> sd_retrans_num (fst s) < 2 ^ 62
      | _ \<Rightarrow> True)"

definition sd_start :: "tcp_sender \<times> bytes \<Rightarrow> bool" where
  "sd_start s \<longleftrightarrow> (\<exists>capacity rto isn rnd. capacity < U64 \<and> s = (tcp_sender_new capacity rto isn rnd, []))"

lemma sd_step_inv:
  assumes "sd_inv (snd x) (fst x)" "sd_allowed x op"
  shows "sd_inv (snd (sd_step x op)) (fst (sd_step x op))"
proof (cases x)
  case x: (Pair s W)
  with assms have inv: "sd_inv W s" by simp
  show ?thesis
  proof (cases op)
    case (SWrite d)
    obtain st k where w: "bs_write d (sd_stream s) = (st, k)" by fastforce
    show ?thesis using sd_write_inv [OF inv _ _ w] assms(2) x SWrite w by (simp add: sd_allowed_def)
  next
    case STake
    have core: "sd_core W [] s" using inv by (simp add: sd_inv_def)
    have "sd_core W [] (s\<lparr>sd_segments_out := []\<rparr>)"
      by (rule sd_core_cong [OF core]) (use sd_coreD(8) [OF core] in simp_all)
    then show ?thesis using inv x STake by (simp add: sd_inv_def sd_out_def sd_win_def sd_rto_def)
  qed (use inv x assms(2) in \<open>simp_all add: sd_end_inv fill_window_inv ack_received_inv sd_tick_inv
      send_empty_ack_inv sd_allowed_def\<close>)
qed

interpretation snd_sys: step_system sd_start sd_step sd_allowed "\<lambda>x. sd_inv (snd x) (fst x)"
  by unfold_locales (auto simp: sd_start_def tcp_sender_new_inv intro: sd_step_inv)

lemma sd_reachable:
  assumes "sd_start s0" "allowed_run sd_step sd_allowed s0 ops" "run_steps sd_step s0 ops = (s, W)"
  shows "sd_inv W s"
  using snd_sys.reachable_inv [OF assms(1,2)] assms(3) by simp

subsection \<open>Properties\<close>

text \<open>C12. Faithful segments: in every reachable state, each segment that the sender has queued for transmission is either
  empty or starts at some absolute sequence number \<open>a\<close> such that its header carries the wrapped \<open>a\<close> and its payload (at
  most 1000 bytes) is exactly the slice of the application's bytes that belongs there; a SYN only at 0, a FIN only where
  the ended stream ends.  The segments in flight are contiguous, and \<^verbatim>\<open>bytes_in_flight\<close> is the sum of their
  lengths.\<close>

theorem sender_segments_faithful:
  assumes "sd_start s0" "allowed_run sd_step sd_allowed s0 ops" "run_steps sd_step s0 ops = (s, W)"
  shows "(\<forall>seg \<in> set (sd_segments_out s). length_in_sequence_space seg = 0 \<or>
      (\<exists>a. sent_seg W (bs_inputEnd (sd_stream s)) (sd_isn s) a seg)) \<and>
    chained W (bs_inputEnd (sd_stream s)) (sd_isn s) (sd_cur_ack_index s) (sd_seg_buffer s) (sd_next_seqno s) \<and>
    sd_bytes_in_flight s = sum_list (map (\<lambda>n. length_in_sequence_space (sn_seg n)) (sd_seg_buffer s))"
proof -
  have inv: "sd_core W [] s" "sd_out W s" using sd_reachable [OF assms] by (simp_all add: sd_inv_def)
  note c = sd_coreD [OF inv(1)]
  have "sd_bytes_in_flight s = sd_next_seqno s - sd_cur_ack_index s"
    unfolding sd_bytes_in_flight_def using c(2,9,10) by (intro sub64_id) simp_all
  with chained_sum [OF c(8)] c(8) inv(2) show ?thesis by (simp add: sd_out_def emitted_ok_def)
qed

theorem sender_segments_faithful_witness:
  "\<exists>s W. run_steps sd_step (tcp_sender_new 10 1000 (Some 7) 0, []) [SFill, SWrite [1, 2]] = (s, W) \<and>
     sd_bytes_in_flight s = sum_list (map (\<lambda>n. length_in_sequence_space (sn_seg n)) (sd_seg_buffer s))"
proof -
  let ?s = "(tcp_sender_new 10 1000 (Some 7) 0, []) :: tcp_sender \<times> bytes"
  have start: "sd_start ?s" unfolding sd_start_def by (intro exI conjI) (auto intro: refl)
  have "bs_inputEnd (sd_stream (fill_window (tcp_sender_new 10 1000 (Some 7) 0))) = False"
    using fill_window_inv(2) [OF tcp_sender_new_inv, of 10 1000 "Some 7" 0]
    by (simp add: fill_ok_def sd_same_def tcp_sender_new_def bs_new_def)
  then have allowed: "allowed_run sd_step sd_allowed ?s [SFill, SWrite [1, 2]]" by (simp add: sd_allowed_def)
  obtain s W where "run_steps sd_step ?s [SFill, SWrite [1, 2]] = (s, W)" by fastforce
  with sender_segments_faithful [OF start allowed this] show ?thesis by blast
qed

text \<open>C16. The window: \<^verbatim>\<open>fill_window\<close> never sends beyond the right edge of the window (except the SYN that opens the stream),
  and after it there is nothing left that could be sent: the window is full, or the stream is drained and, if the
  application has ended it, the FIN has been sent.  Between calls at most the one byte of a zero-window probe lies
  beyond the edge.\<close>

theorem sender_fills_window:
  assumes "sd_start s0" "allowed_run sd_step sd_allowed s0 ops" "run_steps sd_step s0 ops = (s, W)"
    and "s' = fill_window s"
  shows "sd_next_seqno s \<le> sd_wd_right_edge s + 1 \<and>
    sd_next_seqno s' \<le> max (max 1 (sd_next_seqno s)) (sd_wd_right_edge s) \<and>
    (sd_next_seqno s = 0 \<longrightarrow> sd_next_seqno s' = 1) \<and>
    (0 < sd_next_seqno s \<longrightarrow> sd_wd_right_edge s \<le> sd_next_seqno s' \<or>
       bs_buffer (sd_stream s') = [] \<and> (bs_input_ended (sd_stream s') \<longrightarrow> sd_fin_ack_index s' = sd_next_seqno s'))"
proof -
  have inv: "sd_inv W s" by (rule sd_reachable [OF assms(1-3)])
  have core: "sd_core W [] s" using inv by (simp add: sd_inv_def)
  have "sd_next_seqno s = 0 \<longrightarrow> sd_next_seqno s' = 1"
  proof
    assume z: "sd_next_seqno s = 0"
    moreover have "sd_fin_ack_index s \<noteq> 0" using core z by (auto simp: sd_core_def split: if_splits)
    ultimately show "sd_next_seqno s' = 1"
      using send_syn_core(2) [OF core z refl] by (simp add: assms(4) fill_window_def Let_def)
  qed
  with fill_window_inv(2) [OF inv] inv show ?thesis
    by (simp add: assms(4) fill_ok_def bs_input_ended_def sd_inv_def sd_win_def)
qed

theorem sender_fills_window_witness:
  "sd_next_seqno (fill_window (tcp_sender_new 10 1000 (Some 7) 0)) = 1"
proof -
  have start: "sd_start (tcp_sender_new 10 1000 (Some 7) 0, [])"
    unfolding sd_start_def by (intro exI conjI) (auto intro: refl)
  have "allowed_run sd_step sd_allowed (tcp_sender_new 10 1000 (Some 7) 0, []) []"
    "run_steps sd_step (tcp_sender_new 10 1000 (Some 7) 0, []) [] = (tcp_sender_new 10 1000 (Some 7) 0, [])" by simp_all
  from sender_fills_window [OF start this refl] show ?thesis by (simp add: tcp_sender_new_def)
qed

text \<open>C17. Acknowledgments: an acknowledgment of data never sent or below the one already known changes nothing; any other drops
  exactly the segments it covers completely, moves the acknowledged index and the window's right edge forward only, and
  resets the timeout, the count of retransmissions and the timer if and only if a segment was dropped.\<close>

theorem sender_ack_received:
  assumes "sd_start s0" "allowed_run sd_step sd_allowed s0 ops" "run_steps sd_step s0 ops = (s, W)"
    and "s' = ack_received ackno win s" "ack = unwrap ackno (sd_isn s) (sd_next_seqno s)"
  shows "if ack > sd_next_seqno s \<or> ack < sd_cur_ack_index s then s' = s
    else sd_cur_ack_index s \<le> sd_cur_ack_index s' \<and> sd_cur_ack_index s' \<le> ack \<and>
     sd_wd_right_edge s' = max (sd_wd_right_edge s) (ack + unat win) \<and>
     (\<exists>popped rest new. sd_seg_buffer s = popped @ rest \<and> sd_seg_buffer s' = rest @ new \<and>
        sd_segments_out s' = sd_segments_out s @ map sn_seg new \<and>
        (\<forall>n \<in> set popped. sn_ack_index n \<le> ack) \<and> (rest \<noteq> [] \<longrightarrow> ack < sn_ack_index (hd rest)) \<and>
        (if popped = [] then sd_RTO s' = sd_RTO s \<and> sd_retrans_num s' = sd_retrans_num s \<and> sd_timer s' = sd_timer s
         else sd_RTO s' = sd_initial_retransmission_timeout s \<and> sd_retrans_num s' = 0 \<and>
           sd_timer s' = timer_flash (sd_timer s)))"
proof (cases "ack > sd_next_seqno s \<or> ack < sd_cur_ack_index s")
  case True
  then show ?thesis by (simp add: assms(4,5) ack_received_def Let_def)
next
  case False
  then have "ack \<le> sd_next_seqno s" "sd_cur_ack_index s \<le> ack" by simp_all
  from ack_received_spec [OF sd_reachable [OF assms(1-3)] assms(5) this assms(4)]
  have "ack_ok W ack win s s'" by blast
  then show ?thesis unfolding if_not_P [OF False] ack_ok_def by (elim conjE) (intro conjI)
qed

theorem sender_ack_received_witness:
  "ack_received 9 5 (tcp_sender_new 10 1000 (Some 7) 0) = tcp_sender_new 10 1000 (Some 7) 0"
proof -
  have start: "sd_start (tcp_sender_new 10 1000 (Some 7) 0, [])"
    unfolding sd_start_def by (intro exI conjI) (auto intro: refl)
  have run: "allowed_run sd_step sd_allowed (tcp_sender_new 10 1000 (Some 7) 0, []) []"
    "run_steps sd_step (tcp_sender_new 10 1000 (Some 7) 0, []) [] = (tcp_sender_new 10 1000 (Some 7) 0, [])" by simp_all
  have "unwrap 9 7 0 = 2" by (simp add: unwrap_def add64_def sub64_def mul64_def u64_def Let_def)
  with sender_ack_received [OF start run refl refl, of 9 5] show ?thesis by (simp add: tcp_sender_new_def)
qed

text \<open>Retransmission: time passing changes nothing while no segment is in flight; before the timeout only the timer
  moves; at the timeout exactly the oldest segment in flight is sent again, the timer restarts and, when the window is
  not empty, the count of retransmissions goes up by one and the timeout doubles, so that it always is the initial timeout times
  two to the number of retransmissions (modulo \<open>2^64\<close>).\<close>

theorem sender_retransmission:
  assumes "sd_start s0" "allowed_run sd_step sd_allowed s0 ops" "run_steps sd_step s0 ops = (s, W)"
    and "s' = sd_tick ms s" "sd_retrans_num s < 2 ^ 62"
  shows "sd_RTO s' = u64 (sd_initial_retransmission_timeout s' * 2 ^ sd_retrans_num s') \<and>
    (if sd_seg_buffer s = [] then s' = s
     else if \<not> timer_time_out (sd_RTO s) (timer_tick ms (sd_timer s)) then s' = s\<lparr>sd_timer := timer_tick ms (sd_timer s)\<rparr>
     else sd_segments_out s' = sd_segments_out s @ [sn_seg (hd (sd_seg_buffer s))] \<and>
       sd_seg_buffer s' = sd_seg_buffer s \<and> sd_next_seqno s' = sd_next_seqno s \<and>
       tm_last_flash_time (sd_timer s') = tm_now_time (sd_timer s') \<and>
       sd_retrans_num s' = sd_retrans_num s + (if sd_wd_right_edge s = sd_cur_ack_index s then 0 else 1))"
proof -
  have inv: "sd_inv W s" by (rule sd_reachable [OF assms(1-3)])
  have "sd_inv W s'" using sd_tick_inv [OF inv assms(5)] assms(4) by simp
  then have "sd_RTO s' = u64 (sd_initial_retransmission_timeout s' * 2 ^ sd_retrans_num s')"
    by (simp add: sd_inv_def sd_rto_def)
  moreover have "sd_rto s" using inv by (simp add: sd_inv_def)
  note b = sd_rto_backoff(1) [OF this assms(5)]
  ultimately show ?thesis
    using sd_tick_eq [OF inv assms(4)] b by (auto simp: timer_flash_def)
qed

theorem sender_retransmission_witness:
  "sd_tick 5 (tcp_sender_new 10 1000 (Some 7) 0) = tcp_sender_new 10 1000 (Some 7) 0"
proof -
  have start: "sd_start (tcp_sender_new 10 1000 (Some 7) 0, [])"
    unfolding sd_start_def by (intro exI conjI) (auto intro: refl)
  have "allowed_run sd_step sd_allowed (tcp_sender_new 10 1000 (Some 7) 0, []) []"
    "run_steps sd_step (tcp_sender_new 10 1000 (Some 7) 0, []) [] = (tcp_sender_new 10 1000 (Some 7) 0, [])" by simp_all
  from sender_retransmission [OF start this refl, of 5] show ?thesis by (simp add: tcp_sender_new_def)
qed

end
