(* ===== verification/TCP_State.thy ===== *)
theory TCP_State
  imports TCP_Receiver TCP_Sender
begin

text \<open>
  \<^verbatim>\<open>libsponge/tcp_helpers/tcp_state.{hh,cc}\<close>: the summary of a connection as the names of the states of its
  sender and receiver, and the summaries that stand for the official states of the TCP specification.
\<close>

record tcp_state =
  st_sender :: string
  st_receiver :: string
  st_active :: bool
  st_linger_after_streams_finish :: bool

datatype official_state =
    LISTEN | SYN_RCVD | SYN_SENT | ESTABLISHED | CLOSE_WAIT | LAST_ACK | FIN_WAIT_1 | FIN_WAIT_2
  | CLOSING | TIME_WAIT | CLOSED | RESET

text \<open>The constants of the namespaces \<^verbatim>\<open>TCPReceiverStateSummary\<close> and \<^verbatim>\<open>TCPSenderStateSummary\<close>.\<close>

definition rs_ERROR :: string where
  "rs_ERROR = ''error (connection was reset)''"

definition rs_LISTEN :: string where
  "rs_LISTEN = ''waiting for SYN: ackno is empty''"

definition rs_SYN_RECV :: string where
  "rs_SYN_RECV = ''SYN received (ackno exists), and input to stream hasn't ended''"

definition rs_FIN_RECV :: string where
  "rs_FIN_RECV = ''input to stream has ended''"

definition ss_ERROR :: string where
  "ss_ERROR = ''error (connection was reset)''"

definition ss_CLOSED :: string where
  "ss_CLOSED = ''waiting for stream to begin (no SYN sent)''"

definition ss_SYN_SENT :: string where
  "ss_SYN_SENT = ''stream started but nothing acknowledged''"

definition ss_SYN_ACKED :: string where
  "ss_SYN_ACKED = ''stream ongoing''"

definition ss_FIN_SENT :: string where
  "ss_FIN_SENT = ''stream finished (FIN sent) but not fully acknowledged''"

definition ss_FIN_ACKED :: string where
  "ss_FIN_ACKED = ''stream finished and fully acknowledged''"

lemmas summary_defs =
  rs_ERROR_def rs_LISTEN_def rs_SYN_RECV_def rs_FIN_RECV_def
  ss_ERROR_def ss_CLOSED_def ss_SYN_SENT_def ss_SYN_ACKED_def ss_FIN_SENT_def ss_FIN_ACKED_def

definition tcp_state_eq :: "tcp_state \<Rightarrow> tcp_state \<Rightarrow> bool" where
  "tcp_state_eq a b \<longleftrightarrow>
     st_active a = st_active b \<and> st_linger_after_streams_finish a = st_linger_after_streams_finish b \<and>
     st_sender a = st_sender b \<and> st_receiver a = st_receiver b"

definition bool_to_string :: "bool \<Rightarrow> string" where
  "bool_to_string b = (if b then ''1'' else ''0'')"

definition tcp_state_name :: "tcp_state \<Rightarrow> string" where
  "tcp_state_name s =
     ''sender=`'' @ st_sender s @ ''`, receiver=`'' @ st_receiver s @ ''`, active='' @ bool_to_string (st_active s) @
     '', linger_after_streams_finish='' @ bool_to_string (st_linger_after_streams_finish s)"

fun tcp_state_of :: "official_state \<Rightarrow> tcp_state" where
  "tcp_state_of LISTEN =
     \<lparr>st_sender = ss_CLOSED, st_receiver = rs_LISTEN, st_active = True, st_linger_after_streams_finish = True\<rparr>"
| "tcp_state_of SYN_RCVD =
     \<lparr>st_sender = ss_SYN_SENT, st_receiver = rs_SYN_RECV, st_active = True, st_linger_after_streams_finish = True\<rparr>"
| "tcp_state_of SYN_SENT =
     \<lparr>st_sender = ss_SYN_SENT, st_receiver = rs_LISTEN, st_active = True, st_linger_after_streams_finish = True\<rparr>"
| "tcp_state_of ESTABLISHED =
     \<lparr>st_sender = ss_SYN_ACKED, st_receiver = rs_SYN_RECV, st_active = True, st_linger_after_streams_finish = True\<rparr>"
| "tcp_state_of CLOSE_WAIT =
     \<lparr>st_sender = ss_SYN_ACKED, st_receiver = rs_FIN_RECV, st_active = True, st_linger_after_streams_finish = False\<rparr>"
| "tcp_state_of LAST_ACK =
     \<lparr>st_sender = ss_FIN_SENT, st_receiver = rs_FIN_RECV, st_active = True, st_linger_after_streams_finish = False\<rparr>"
| "tcp_state_of CLOSING =
     \<lparr>st_sender = ss_FIN_SENT, st_receiver = rs_FIN_RECV, st_active = True, st_linger_after_streams_finish = True\<rparr>"
| "tcp_state_of FIN_WAIT_1 =
     \<lparr>st_sender = ss_FIN_SENT, st_receiver = rs_SYN_RECV, st_active = True, st_linger_after_streams_finish = True\<rparr>"
| "tcp_state_of FIN_WAIT_2 =
     \<lparr>st_sender = ss_FIN_ACKED, st_receiver = rs_SYN_RECV, st_active = True, st_linger_after_streams_finish = True\<rparr>"
| "tcp_state_of TIME_WAIT =
     \<lparr>st_sender = ss_FIN_ACKED, st_receiver = rs_FIN_RECV, st_active = True, st_linger_after_streams_finish = True\<rparr>"
| "tcp_state_of RESET =
     \<lparr>st_sender = ss_ERROR, st_receiver = rs_ERROR, st_active = False, st_linger_after_streams_finish = False\<rparr>"
| "tcp_state_of CLOSED =
     \<lparr>st_sender = ss_FIN_ACKED, st_receiver = rs_FIN_RECV, st_active = False, st_linger_after_streams_finish = False\<rparr>"

definition receiver_summary :: "tcp_receiver \<Rightarrow> string" where
  "receiver_summary r =
     (if bs_error (rc_stream_out r) then rs_ERROR
      else if rc_ackno r = None then rs_LISTEN
      else if bs_input_ended (rc_stream_out r) then rs_FIN_RECV
      else rs_SYN_RECV)"

definition sender_summary :: "tcp_sender \<Rightarrow> string" where
  "sender_summary s =
     (if bs_error (sd_stream s) then ss_ERROR
      else if sd_next_seqno s = 0 then ss_CLOSED
      else if sd_next_seqno s = sd_bytes_in_flight s then ss_SYN_SENT
      else if \<not> bs_eof (sd_stream s) then ss_SYN_ACKED
      else if sd_next_seqno s < add64 (bs_bytes_written (sd_stream s)) 2 then ss_SYN_ACKED
      else if sd_bytes_in_flight s \<noteq> 0 then ss_FIN_SENT
      else ss_FIN_ACKED)"

definition tcp_state_make :: "tcp_sender \<Rightarrow> tcp_receiver \<Rightarrow> bool \<Rightarrow> bool \<Rightarrow> tcp_state" where
  "tcp_state_make sender receiver active linger =
     \<lparr>st_sender = sender_summary sender, st_receiver = receiver_summary receiver, st_active = active,
      st_linger_after_streams_finish = (if active then linger else False)\<rparr>"

subsection \<open>Lemmas\<close>

lemma summary_distinct [simp]:
  "distinct [ss_ERROR, ss_CLOSED, ss_SYN_SENT, ss_SYN_ACKED, ss_FIN_SENT, ss_FIN_ACKED]"
  "distinct [rs_ERROR, rs_LISTEN, rs_SYN_RECV, rs_FIN_RECV]"
  by (simp_all add: summary_defs)

lemma tcp_state_eq_iff: "tcp_state_eq a b \<longleftrightarrow> a = b"
  by (auto simp: tcp_state_eq_def)

lemma tcp_state_of_inj: "tcp_state_of a = tcp_state_of b \<Longrightarrow> a = b"
  using summary_distinct by (cases a; cases b) auto

text \<open>The summary of a sender that keeps its invariant, in terms of what has been sent and acknowledged.\<close>

lemma sender_summary_eq:
  assumes "sd_core W [] s" "\<not> bs_error (sd_stream s)"
  shows "sender_summary s =
    (if sd_next_seqno s = 0 then ss_CLOSED
     else if sd_cur_ack_index s = 0 then ss_SYN_SENT
     else if sd_fin_ack_index s = 18446744073709551615 then ss_SYN_ACKED
     else if sd_cur_ack_index s < sd_next_seqno s then ss_FIN_SENT
     else ss_FIN_ACKED)"
proof -
  note c = sd_coreD [OF assms(1)]
  have fl: "sd_bytes_in_flight s = sd_next_seqno s - sd_cur_ack_index s"
    unfolding sd_bytes_in_flight_def using c(2,9,10) by (intro sub64_id) simp_all
  have written: "add64 (bs_bytes_written (sd_stream s)) 2 = length W + 2"
    using c(2,3) by (simp add: bs_bytes_written_def no_wrap)
  have fin: "sd_fin_ack_index s \<noteq> 18446744073709551615 \<Longrightarrow> bs_eof (sd_stream s) \<and> sd_next_seqno s = length W + 2"
    using assms(1) c(11) by (auto simp: sd_core_def bs_eof_def split: if_splits)
  have nofin: "sd_fin_ack_index s = 18446744073709551615 \<Longrightarrow> sd_next_seqno s < length W + 2"
    using assms(1) by (auto simp: sd_core_def split: if_splits)
  have "sd_next_seqno s = sd_next_seqno s - sd_cur_ack_index s \<longleftrightarrow> sd_cur_ack_index s = 0" if "sd_next_seqno s \<noteq> 0"
    using that c(10) by auto
  then show ?thesis
    using fin nofin assms(2) unfolding sender_summary_def written fl by auto
qed

subsection \<open>Properties\<close>

text \<open>The twelve official states are told apart: the summaries that stand for them are different from one another.\<close>

theorem official_states_distinct: "tcp_state_eq (tcp_state_of a) (tcp_state_of b) \<longleftrightarrow> a = b"
  using tcp_state_of_inj by (auto simp: tcp_state_eq_iff)

end
