(* ===== verification/TCP_Connection.thy ===== *)
theory TCP_Connection
  imports TCP_State
begin

text \<open>
  \<^verbatim>\<open>libsponge/tcp_connection.{hh,cc}\<close>: one endpoint of a connection, with its sender, its receiver, the clock and the
  outgoing queue.  Each method is a definition on the record; \<open>clean\<close> is the loop that stamps the sender's segments with
  the receiver's acknowledgment number and window and moves them to the outgoing queue.  The lemmas show
  that every method keeps the invariants of the sender and the receiver, that outgoing segments carry the receiver's answer, how the
  connection opens, when it closes and when it is reset.
\<close>

record tcp_connection =
  cn_cfg :: tcp_config
  cn_receiver :: tcp_receiver
  cn_sender :: tcp_sender
  cn_last_recive_time :: u32
  cn_now_time :: u32
  cn_close :: bool
  cn_segments_out :: "tcp_segment list"
  cn_linger_after_streams_finish :: bool

subsection \<open>The code\<close>

definition tcp_connection_new :: "tcp_config \<Rightarrow> u32 \<Rightarrow> tcp_connection" where
  "tcp_connection_new cfg random_value =
     \<lparr>cn_cfg = cfg, cn_receiver = tcp_receiver_new (cfg_recv_capacity cfg),
      cn_sender = tcp_sender_new (cfg_send_capacity cfg) (cfg_rt_timeout cfg) (cfg_fixed_isn cfg) random_value,
      cn_last_recive_time = 0, cn_now_time = 0, cn_close = False, cn_segments_out = [],
      cn_linger_after_streams_finish = True\<rparr>"

definition rc_set_error :: "tcp_receiver \<Rightarrow> tcp_receiver" where
  "rc_set_error r =
     r\<lparr>rc_reassembler := (rc_reassembler r)
        \<lparr>sr_outputStream := bs_set_error (sr_outputStream (rc_reassembler r))\<rparr>\<rparr>"

definition bad_shutdown :: "bool \<Rightarrow> tcp_connection \<Rightarrow> tcp_connection" where
  "bad_shutdown send_rst c =
     (let c = c\<lparr>cn_close := True, cn_receiver := rc_set_error (cn_receiver c),
                cn_sender := (cn_sender c)\<lparr>sd_stream := bs_set_error (sd_stream (cn_sender c))\<rparr>\<rparr>
      in if send_rst
         then (let seg = tcp_segment_new;
                   seg = seg\<lparr>sg_header := (sg_header seg)\<lparr>th_rst := True\<rparr>\<rparr>;
                   seg = seg\<lparr>sg_header := (sg_header seg)\<lparr>th_seqno := sd_next_seqno_wrapped (cn_sender c)\<rparr>\<rparr>
               in c\<lparr>cn_segments_out := cn_segments_out c @ [seg]\<rparr>)
         else c)"

definition stream_both_eof :: "tcp_connection \<Rightarrow> bool" where
  "stream_both_eof c \<longleftrightarrow>
     bs_input_ended (rc_stream_out (cn_receiver c)) \<and> bs_eof (sd_stream (cn_sender c)) \<and>
     sd_bytes_in_flight (cn_sender c) = 0"

definition check_close :: "tcp_connection \<Rightarrow> tcp_connection" where
  "check_close c =
     (if stream_both_eof c then
        (if \<not> cn_linger_after_streams_finish c \<or>
            cn_now_time c - cn_last_recive_time c \<ge> 10 * ucast (cfg_rt_timeout (cn_cfg c))
         then c\<lparr>cn_close := True\<rparr> else c)
      else c)"

text \<open>One segment of the sender's queue, stamped.\<close>

definition stamp :: "tcp_receiver \<Rightarrow> tcp_segment \<Rightarrow> tcp_segment" where
  "stamp r seg =
     (let seg = (case rc_ackno r of
                   Some a \<Rightarrow> seg\<lparr>sg_header := (sg_header seg)\<lparr>th_ack := True, th_ackno := a\<rparr>\<rparr>
                 | None \<Rightarrow> seg)
      in seg\<lparr>sg_header := (sg_header seg)\<lparr>th_win :=
           word_of_nat (if 65535 > rc_window_size r then rc_window_size r else 65535)\<rparr>\<rparr>)"

fun clean_loop :: "tcp_segment list \<Rightarrow> tcp_connection \<Rightarrow> tcp_connection" where
  "clean_loop [] c = c\<lparr>cn_sender := (cn_sender c)\<lparr>sd_segments_out := []\<rparr>\<rparr>"
| "clean_loop (seg # buf) c =
     clean_loop buf (c\<lparr>cn_segments_out := cn_segments_out c @ [stamp (cn_receiver c) seg],
                       cn_sender := (cn_sender c)\<lparr>sd_segments_out := buf\<rparr>\<rparr>)"

definition clean :: "tcp_connection \<Rightarrow> tcp_connection" where
  "clean c = check_close (clean_loop (sd_segments_out (cn_sender c)) c)"

definition cn_remaining_outbound_capacity :: "tcp_connection \<Rightarrow> nat" where
  "cn_remaining_outbound_capacity c = bs_remaining_capacity (sd_stream (cn_sender c))"

definition cn_bytes_in_flight :: "tcp_connection \<Rightarrow> nat" where
  "cn_bytes_in_flight c = sd_bytes_in_flight (cn_sender c)"

definition cn_unassembled_bytes :: "tcp_connection \<Rightarrow> nat" where
  "cn_unassembled_bytes c = rc_unassembled_bytes (cn_receiver c)"

definition time_since_last_segment_received :: "tcp_connection \<Rightarrow> nat" where
  "time_since_last_segment_received c = unat (cn_now_time c - cn_last_recive_time c)"

definition cn_segment_received :: "tcp_segment \<Rightarrow> tcp_connection \<Rightarrow> tcp_connection" where
  "cn_segment_received seg c =
     (let c = c\<lparr>cn_last_recive_time := cn_now_time c\<rparr>
      in if th_rst (sg_header seg) then bad_shutdown False c
         else
           (let c = c\<lparr>cn_receiver := rc_segment_received seg (cn_receiver c)\<rparr>;
                c = (if bs_input_ended (rc_stream_out (cn_receiver c)) \<and> \<not> bs_eof (sd_stream (cn_sender c))
                     then c\<lparr>cn_linger_after_streams_finish := False\<rparr> else c);
                c = (if th_ack (sg_header seg)
                     then c\<lparr>cn_sender := ack_received (th_ackno (sg_header seg)) (th_win (sg_header seg)) (cn_sender c)\<rparr>
                     else c);
                c = (if length_in_sequence_space seg > 0
                     then c\<lparr>cn_sender := send_empty_ack (cn_sender c)\<rparr> else c)
            in clean c))"

definition cn_active :: "tcp_connection \<Rightarrow> bool" where
  "cn_active c \<longleftrightarrow> \<not> cn_close c"

definition cn_write :: "bytes \<Rightarrow> tcp_connection \<Rightarrow> tcp_connection \<times> nat" where
  "cn_write data c =
     (let (stream, size) = bs_write data (sd_stream (cn_sender c));
          c = c\<lparr>cn_sender := fill_window ((cn_sender c)\<lparr>sd_stream := stream\<rparr>)\<rparr>
      in (clean c, size))"

definition cn_tick :: "nat \<Rightarrow> tcp_connection \<Rightarrow> tcp_connection" where
  "cn_tick ms_since_last_tick c =
     (let c = c\<lparr>cn_now_time := cn_now_time c + word_of_nat ms_since_last_tick\<rparr>
      in if consecutive_retransmissions (cn_sender c) \<ge> MAX_RETX_ATTEMPTS then bad_shutdown True c
         else clean (c\<lparr>cn_sender := sd_tick ms_since_last_tick (cn_sender c)\<rparr>))"

definition cn_end_input_stream :: "tcp_connection \<Rightarrow> tcp_connection" where
  "cn_end_input_stream c =
     (let s = (cn_sender c)\<lparr>sd_stream := bs_end_input (sd_stream (cn_sender c))\<rparr>
      in clean (c\<lparr>cn_sender := fill_window s\<rparr>))"

definition cn_connect :: "tcp_connection \<Rightarrow> tcp_connection" where
  "cn_connect c = clean (c\<lparr>cn_sender := fill_window (cn_sender c)\<rparr>)"

text \<open>The destructor.\<close>

definition cn_destroy :: "tcp_connection \<Rightarrow> tcp_connection" where
  "cn_destroy c = (if cn_active c then bad_shutdown True c else c)"

definition cn_state :: "tcp_connection \<Rightarrow> tcp_state" where
  "cn_state c = tcp_state_make (cn_sender c) (cn_receiver c) (cn_active c) (cn_linger_after_streams_finish c)"

subsection \<open>Lemmas\<close>

lemma clean_loop_eq:
  "clean_loop buf c =
    c\<lparr>cn_segments_out := cn_segments_out c @ map (stamp (cn_receiver c)) buf,
      cn_sender := (cn_sender c)\<lparr>sd_segments_out := []\<rparr>\<rparr>"
  by (induction buf arbitrary: c) simp_all

lemma check_close_eq:
  "check_close c = c\<lparr>cn_close := cn_close c \<or> stream_both_eof c \<and>
     (\<not> cn_linger_after_streams_finish c \<or>
      cn_now_time c - cn_last_recive_time c \<ge> 10 * ucast (cfg_rt_timeout (cn_cfg c)))\<rparr>"
  by (simp add: check_close_def)

lemma clean_eq:
  "clean c =
    c\<lparr>cn_segments_out := cn_segments_out c @ map (stamp (cn_receiver c)) (sd_segments_out (cn_sender c)),
      cn_sender := (cn_sender c)\<lparr>sd_segments_out := []\<rparr>,
      cn_close := cn_close c \<or> stream_both_eof c \<and>
        (\<not> cn_linger_after_streams_finish c \<or>
         cn_now_time c - cn_last_recive_time c \<ge> 10 * ucast (cfg_rt_timeout (cn_cfg c)))\<rparr>"
  by (simp add: clean_def clean_loop_eq check_close_eq stream_both_eof_def sd_bytes_in_flight_def)

text \<open>A stamped segment is the same segment in sequence space and carries the receiver's answer.\<close>

lemma stamp_simps [simp]:
  "sg_payload (stamp r seg) = sg_payload seg" "th_syn (sg_header (stamp r seg)) = th_syn (sg_header seg)"
  "th_fin (sg_header (stamp r seg)) = th_fin (sg_header seg)"
  "th_seqno (sg_header (stamp r seg)) = th_seqno (sg_header seg)"
  "th_rst (sg_header (stamp r seg)) = th_rst (sg_header seg)"
  "length_in_sequence_space (stamp r seg) = length_in_sequence_space seg"
  by (simp_all add: stamp_def Let_def length_in_sequence_space_def split: option.splits)

lemma stamp_answer:
  "th_win (sg_header (stamp r seg)) = word_of_nat (min 65535 (rc_window_size r))"
  "rc_ackno r = Some a \<Longrightarrow> th_ack (sg_header (stamp r seg)) \<and> th_ackno (sg_header (stamp r seg)) = a"
  "rc_ackno r = None \<Longrightarrow> th_ack (sg_header (stamp r seg)) = th_ack (sg_header seg)"
  by (simp_all add: stamp_def Let_def min_def split: option.splits)

subsection \<open>The invariant\<close>

text \<open>\<open>S\<close> is the peer's stream with initial sequence number \<open>i\<close>, \<open>W\<close> the bytes the application has written.\<close>

definition cn_inv :: "bytes \<Rightarrow> wrapping_int32 \<Rightarrow> tcp_connection \<times> bytes \<Rightarrow> bool" where
  "cn_inv S i x \<longleftrightarrow>
     sd_inv (snd x) (cn_sender (fst x)) \<and> rc_core S i (cn_receiver (fst x)) \<and>
     sd_segments_out (cn_sender (fst x)) = [] \<and> sd_retrans_num (cn_sender (fst x)) \<le> MAX_RETX_ATTEMPTS \<and>
     (\<forall>seg \<in> set (cn_segments_out (fst x)). th_rst (sg_header seg) \<or>
        emitted_ok (snd x) (bs_inputEnd (sd_stream (cn_sender (fst x)))) (sd_isn (cn_sender (fst x))) seg)"

lemma sent_seg_stamp [simp]: "sent_seg W e isn a (stamp r seg) = sent_seg W e isn a seg"
  by (simp add: sent_seg_def)

lemma emitted_ok_stamp [simp]: "emitted_ok W e isn (stamp r seg) = emitted_ok W e isn seg"
  by (simp add: emitted_ok_def)

text \<open>What is needed before \<open>clean\<close>: the sender may have queued segments.\<close>

definition cn_pre :: "bytes \<Rightarrow> wrapping_int32 \<Rightarrow> bytes \<Rightarrow> tcp_connection \<Rightarrow> bool" where
  "cn_pre S i W c \<longleftrightarrow>
     sd_inv W (cn_sender c) \<and> rc_core S i (cn_receiver c) \<and>
     sd_retrans_num (cn_sender c) \<le> MAX_RETX_ATTEMPTS \<and>
     (\<forall>seg \<in> set (cn_segments_out c). th_rst (sg_header seg) \<or>
        emitted_ok W (bs_inputEnd (sd_stream (cn_sender c))) (sd_isn (cn_sender c)) seg)"

lemma sd_inv_take:
  assumes "sd_inv W s"
  shows "sd_inv W (s\<lparr>sd_segments_out := []\<rparr>)"
  using sd_step_inv [of "(s, W)" STake] assms by (simp add: sd_allowed_def)

lemma clean_inv:
  assumes "cn_pre S i W c"
  shows "cn_inv S i (clean c, W)"
proof -
  have "\<forall>seg \<in> set (sd_segments_out (cn_sender c)).
      emitted_ok W (bs_inputEnd (sd_stream (cn_sender c))) (sd_isn (cn_sender c)) seg"
    using assms by (simp add: cn_pre_def sd_inv_def sd_out_def)
  then show ?thesis using assms sd_inv_take by (auto simp: cn_pre_def cn_inv_def clean_eq)
qed

lemma sd_inv_set_error:
  assumes "sd_inv W s"
  shows "sd_inv W (s\<lparr>sd_stream := bs_set_error (sd_stream s)\<rparr>)"
proof -
  have "sd_core W [] s \<Longrightarrow> sd_core W [] (s\<lparr>sd_stream := bs_set_error (sd_stream s)\<rparr>)"
    unfolding sd_core_def bs_set_error_def by (simp only: tcp_sender.simps byte_stream.simps) (auto simp: bs_inv_def)
  then show ?thesis using assms
    by (simp add: sd_inv_def sd_out_def sd_win_def sd_rto_def bs_set_error_def)
qed

lemma sr_inv_set_error:
  assumes "sr_inv S r"
  shows "sr_inv S (r\<lparr>sr_outputStream := bs_set_error (sr_outputStream r)\<rparr>)"
proof -
  have core: "sr_core S r" using assms by (simp add: sr_inv_def)
  have "sr_room (r\<lparr>sr_outputStream := bs_set_error (sr_outputStream r)\<rparr>) = sr_room r"
    by (simp add: sr_room_def bs_set_error_def)
  then have "sr_core S (r\<lparr>sr_outputStream := bs_set_error (sr_outputStream r)\<rparr>)"
    using sr_coreD [OF core] unfolding sr_core_def by (simp add: bs_set_error_inv) (simp add: bs_set_error_def)
  then show ?thesis using assms by (simp add: sr_inv_def bs_set_error_def)
qed

lemma rc_core_set_error: "rc_core S i r \<Longrightarrow> rc_core S i (rc_set_error r)"
  by (simp add: rc_core_def rc_set_error_def sr_inv_set_error)

lemma bad_shutdown_inv:
  assumes "cn_inv S i (c, W)"
  shows "cn_inv S i (bad_shutdown f c, W)"
proof -
  have "sd_segments_out (cn_sender c) = []" using assms by (simp add: cn_inv_def)
  then show ?thesis
    using assms sd_inv_set_error [of W "cn_sender c"] rc_core_set_error [of S i "cn_receiver c"]
    by (auto simp: cn_inv_def bad_shutdown_def Let_def bs_set_error_def)
qed

text \<open>Filling the window and acknowledgments do not raise the count of retransmissions.\<close>

lemma fill_window_retrans: "sd_inv W s \<Longrightarrow> sd_retrans_num (fill_window s) = sd_retrans_num s"
  using fill_window_inv(2) [of W s] by (simp add: fill_ok_def sd_same_def)

lemma fill_window_stream:
  "sd_inv W s \<Longrightarrow> bs_inputEnd (sd_stream (fill_window s)) = bs_inputEnd (sd_stream s) \<and> sd_isn (fill_window s) = sd_isn s"
  using fill_window_inv(2) [of W s] by (simp add: fill_ok_def sd_same_def)

lemma ack_received_fields:
  assumes inv: "sd_inv W s" and s': "s' = ack_received ackno win s"
  shows "sd_isn s' = sd_isn s" "bs_inputEnd (sd_stream s') = bs_inputEnd (sd_stream s)"
    "sd_retrans_num s' \<le> sd_retrans_num s"
proof -
  let ?ack = "unwrap ackno (sd_isn s) (sd_next_seqno s)"
  have "s' = s \<or> ack_ok W ?ack win s s'"
  proof (cases "?ack > sd_next_seqno s \<or> ?ack < sd_cur_ack_index s")
    case True
    then show ?thesis by (simp add: s' ack_received_def Let_def)
  next
    case False
    then show ?thesis using ack_received_spec [OF inv refl _ _ s'] by auto
  qed
  then have "sd_isn s' = sd_isn s \<and> bs_inputEnd (sd_stream s') = bs_inputEnd (sd_stream s) \<and>
      (sd_retrans_num s' = sd_retrans_num s \<or> sd_retrans_num s' = 0)"
    unfolding ack_ok_def by metis
  then show "sd_isn s' = sd_isn s" "bs_inputEnd (sd_stream s') = bs_inputEnd (sd_stream s)"
    "sd_retrans_num s' \<le> sd_retrans_num s" by auto
qed

lemma sd_tick_fields:
  assumes inv: "sd_inv W s" and n: "sd_retrans_num s < 2 ^ 62"
  shows "sd_retrans_num (sd_tick ms s) \<le> sd_retrans_num s + 1" "sd_isn (sd_tick ms s) = sd_isn s"
    "sd_stream (sd_tick ms s) = sd_stream s"
proof -
  have b: "add64 (sd_retrans_num s) 1 = sd_retrans_num s + 1"
    using inv by (intro sd_rto_backoff(1) [OF _ n]) (simp add: sd_inv_def)
  note t = sd_tick_eq [OF inv refl, of ms]
  consider "sd_tick ms s = s" | "sd_tick ms s = s\<lparr>sd_timer := timer_tick ms (sd_timer s)\<rparr>"
    | "sd_seg_buffer s \<noteq> []" "timer_time_out (sd_RTO s) (timer_tick ms (sd_timer s))" using t(1,2) by blast
  then have "sd_retrans_num (sd_tick ms s) \<le> sd_retrans_num s + 1 \<and> sd_isn (sd_tick ms s) = sd_isn s \<and>
      sd_stream (sd_tick ms s) = sd_stream s"
    by cases (use b in \<open>simp_all add: t(3)\<close>)
  then show "sd_retrans_num (sd_tick ms s) \<le> sd_retrans_num s + 1" "sd_isn (sd_tick ms s) = sd_isn s"
    "sd_stream (sd_tick ms s) = sd_stream s" by simp_all
qed

lemma send_empty_ack_fields [simp]:
  "sd_isn (send_empty_ack s) = sd_isn s" "sd_stream (send_empty_ack s) = sd_stream s"
  "sd_retrans_num (send_empty_ack s) = sd_retrans_num s"
  by (simp_all add: send_empty_ack_def send_new_seg_def Let_def)

subsection \<open>Runs of a connection\<close>

text \<open>The calls of the owner: opening, writing, ending the stream, segments from the network, time, reading the inbound
  stream, taking the outgoing segments, and the destructor.\<close>

datatype cn_op = CConnect | CWrite bytes | CEnd | CSegment tcp_segment | CTick nat | CRead nat | CTake | CDestroy

fun cn_step :: "tcp_connection \<times> bytes \<Rightarrow> cn_op \<Rightarrow> tcp_connection \<times> bytes" where
  "cn_step (c, W) CConnect = (cn_connect c, W)"
| "cn_step (c, W) (CWrite d) = (case cn_write d c of (c', k) \<Rightarrow> (c', W @ take k d))"
| "cn_step (c, W) CEnd = (cn_end_input_stream c, W)"
| "cn_step (c, W) (CSegment seg) = (cn_segment_received seg c, W)"
| "cn_step (c, W) (CTick ms) = (cn_tick ms c, W)"
| "cn_step (c, W) (CRead n) = (case rc_read n (cn_receiver c) of (r, out) \<Rightarrow> (c\<lparr>cn_receiver := r\<rparr>, W))"
| "cn_step (c, W) CTake = (c\<lparr>cn_segments_out := []\<rparr>, W)"
| "cn_step (c, W) CDestroy = (cn_destroy c, W)"

text \<open>The application does not write to a stream it has ended; the network delivers segments of the peer, or resets.\<close>

definition cn_allowed :: "bytes \<Rightarrow> wrapping_int32 \<Rightarrow> tcp_connection \<times> bytes \<Rightarrow> cn_op \<Rightarrow> bool" where
  "cn_allowed S i x op =
     (case op of
        CWrite d \<Rightarrow> \<not> bs_inputEnd (sd_stream (cn_sender (fst x))) \<and> length (snd x) + length d < 2 ^ 62
      | CSegment seg \<Rightarrow> th_rst (sg_header seg) \<or> rc_allowed S i (cn_receiver (fst x), []) (Segment seg)
      | _ \<Rightarrow> True)"

definition cn_start :: "bytes \<Rightarrow> tcp_connection \<times> bytes \<Rightarrow> bool" where
  "cn_start S x \<longleftrightarrow>
     (\<exists>cfg rnd. x = (tcp_connection_new cfg rnd, []) \<and> 0 < cfg_recv_capacity cfg \<and> cfg_send_capacity cfg < U64 \<and>
        length S < 4294967295 \<and> length S + cfg_recv_capacity cfg < U64)"

lemma cn_start_inv: "cn_start S x \<Longrightarrow> cn_inv S i x"
proof -
  assume "cn_start S x"
  then obtain cfg rnd where x: "x = (tcp_connection_new cfg rnd, [])" and b: "0 < cfg_recv_capacity cfg"
    "cfg_send_capacity cfg < U64" "length S < 4294967295" "length S + cfg_recv_capacity cfg < U64"
    by (auto simp: cn_start_def)
  let ?s = "tcp_sender_new (cfg_send_capacity cfg) (cfg_rt_timeout cfg) (cfg_fixed_isn cfg) rnd"
  have "rc_core S i (tcp_receiver_new (cfg_recv_capacity cfg))"
    using sr_new_inv [OF b(1,3,4)] by (simp add: rc_core_def tcp_receiver_new_def) (simp add: sr_new_def)
  moreover have "sd_segments_out ?s = []" "sd_retrans_num ?s = 0" by (simp_all add: tcp_sender_new_def)
  ultimately show ?thesis
    using tcp_sender_new_inv [OF b(2)] by (simp add: cn_inv_def x tcp_connection_new_def)
qed

lemma rc_segment_core:
  assumes "rc_core S i r" "rc_allowed S i (r, []) (Segment seg)"
  shows "rc_core S i (rc_segment_received seg r)"
proof (cases "length_in_sequence_space seg = 0")
  case True
  then show ?thesis using assms(1) rc_segment_empty by simp
next
  case False
  with assms(2) obtain idx where "segment_of S i idx seg" "adist idx (sr_cur_idx (rc_reassembler r)) < 2 ^ 31"
    by (auto simp: rc_allowed_def)
  from rc_segment_spec(1) [OF assms(1) this refl] show ?thesis .
qed

lemma cn_inv_pre:
  assumes "cn_inv S i (c, W)" "sd_inv W s'" "rc_core S i r'" "sd_retrans_num s' \<le> MAX_RETX_ATTEMPTS"
    and "sd_isn s' = sd_isn (cn_sender c)" "bs_inputEnd (sd_stream s') = bs_inputEnd (sd_stream (cn_sender c))"
    and "cn_sender c' = s'" "cn_receiver c' = r'" "cn_segments_out c' = cn_segments_out c"
  shows "cn_pre S i W c'"
  using assms by (auto simp: cn_inv_def cn_pre_def)

text \<open>The sender and the linger flag after a segment without RST.\<close>

definition seg_sender :: "tcp_segment \<Rightarrow> tcp_sender \<Rightarrow> tcp_sender" where
  "seg_sender seg s =
     (let s1 = (if th_ack (sg_header seg) then ack_received (th_ackno (sg_header seg)) (th_win (sg_header seg)) s else s)
      in if length_in_sequence_space seg > 0 then send_empty_ack s1 else s1)"

definition seg_linger :: "tcp_segment \<Rightarrow> tcp_connection \<Rightarrow> bool" where
  "seg_linger seg c \<longleftrightarrow>
     \<not> (bs_input_ended (rc_stream_out (rc_segment_received seg (cn_receiver c))) \<and> \<not> bs_eof (sd_stream (cn_sender c))) \<and>
     cn_linger_after_streams_finish c"

lemma cn_segment_received_eq:
  "\<not> th_rst (sg_header seg) \<Longrightarrow> cn_segment_received seg c =
    clean (c\<lparr>cn_last_recive_time := cn_now_time c, cn_receiver := rc_segment_received seg (cn_receiver c),
      cn_linger_after_streams_finish := seg_linger seg c, cn_sender := seg_sender seg (cn_sender c)\<rparr>)"
  by (simp add: cn_segment_received_def seg_sender_def seg_linger_def Let_def)

lemma seg_sender_inv:
  assumes "sd_inv W s" "sd_retrans_num s \<le> MAX_RETX_ATTEMPTS"
  shows "sd_inv W (seg_sender seg s)" "sd_isn (seg_sender seg s) = sd_isn s"
    "bs_inputEnd (sd_stream (seg_sender seg s)) = bs_inputEnd (sd_stream s)"
    "sd_retrans_num (seg_sender seg s) \<le> MAX_RETX_ATTEMPTS"
proof -
  let ?s1 = "if th_ack (sg_header seg) then ack_received (th_ackno (sg_header seg)) (th_win (sg_header seg)) s else s"
  have "sd_inv W ?s1" "sd_isn ?s1 = sd_isn s" "bs_inputEnd (sd_stream ?s1) = bs_inputEnd (sd_stream s)"
    "sd_retrans_num ?s1 \<le> MAX_RETX_ATTEMPTS"
    using assms ack_received_inv ack_received_fields [OF assms(1) refl]
      order_trans [OF ack_received_fields(3) [OF assms(1) refl] assms(2)]
    by auto
  then show "sd_inv W (seg_sender seg s)" "sd_isn (seg_sender seg s) = sd_isn s"
    "bs_inputEnd (sd_stream (seg_sender seg s)) = bs_inputEnd (sd_stream s)"
    "sd_retrans_num (seg_sender seg s) \<le> MAX_RETX_ATTEMPTS"
    using send_empty_ack_inv by (auto simp: seg_sender_def Let_def)
qed

lemma cn_segment_inv:
  assumes inv: "cn_inv S i (c, W)" and allowed: "cn_allowed S i (c, W) (CSegment seg)"
  shows "cn_inv S i (cn_segment_received seg c, W)"
proof (cases "th_rst (sg_header seg)")
  case True
  have "cn_inv S i (c\<lparr>cn_last_recive_time := cn_now_time c\<rparr>, W)" using inv by (simp add: cn_inv_def)
  then show ?thesis using True bad_shutdown_inv by (simp add: cn_segment_received_def Let_def)
next
  case False
  let ?r = "rc_segment_received seg (cn_receiver c)"
  have core: "rc_core S i ?r"
    using inv allowed False by (intro rc_segment_core) (simp_all add: cn_inv_def cn_allowed_def)
  have "sd_inv W (cn_sender c)" "sd_retrans_num (cn_sender c) \<le> MAX_RETX_ATTEMPTS"
    using inv by (simp_all add: cn_inv_def)
  note s = seg_sender_inv [OF this, of seg]
  show ?thesis unfolding cn_segment_received_eq [OF False]
    by (rule clean_inv, rule cn_inv_pre [OF inv s(1) core s(4,2,3)]) simp_all
qed

lemma cn_tick_inv:
  assumes inv: "cn_inv S i (c, W)"
  shows "cn_inv S i (cn_tick ms c, W)"
proof -
  have s0: "sd_inv W (cn_sender c)" "sd_retrans_num (cn_sender c) \<le> MAX_RETX_ATTEMPTS" "rc_core S i (cn_receiver c)"
    using inv by (simp_all add: cn_inv_def)
  then have retx: "consecutive_retransmissions (cn_sender c) = sd_retrans_num (cn_sender c)"
    by (simp add: consecutive_retransmissions_def MAX_RETX_ATTEMPTS_def)
  show ?thesis
  proof (cases "sd_retrans_num (cn_sender c) \<ge> MAX_RETX_ATTEMPTS")
    case True
    have "cn_inv S i (c\<lparr>cn_now_time := cn_now_time c + word_of_nat ms\<rparr>, W)" using inv by (simp add: cn_inv_def)
    with True retx show ?thesis using bad_shutdown_inv by (simp add: cn_tick_def Let_def)
  next
    case False
    let ?s = "sd_tick ms (cn_sender c)"
    have n: "sd_retrans_num (cn_sender c) < 2 ^ 62" using s0(2) by (simp add: MAX_RETX_ATTEMPTS_def)
    have "sd_retrans_num ?s \<le> sd_retrans_num (cn_sender c) + 1" "sd_isn ?s = sd_isn (cn_sender c)"
      "bs_inputEnd (sd_stream ?s) = bs_inputEnd (sd_stream (cn_sender c))"
      using sd_tick_fields [OF s0(1) n] by simp_all
    with False have "cn_pre S i W (c\<lparr>cn_now_time := cn_now_time c + word_of_nat ms, cn_sender := ?s\<rparr>)"
      by (intro cn_inv_pre [OF inv sd_tick_inv [OF s0(1) n] s0(3)]) simp_all
    with False retx show ?thesis by (simp add: cn_tick_def Let_def clean_inv)
  qed
qed

lemma cn_fill_inv:
  assumes inv: "cn_inv S i (c, W)" and s: "sd_inv W' s" "sd_retrans_num s = sd_retrans_num (cn_sender c)"
    and out: "\<forall>seg \<in> set (cn_segments_out c). th_rst (sg_header seg) \<or> emitted_ok W' (bs_inputEnd (sd_stream s)) (sd_isn s) seg"
  shows "cn_inv S i (clean (c\<lparr>cn_sender := fill_window s\<rparr>), W')"
  using inv out fill_window_inv(1) [OF s(1)] fill_window_retrans [OF s(1)] fill_window_stream [OF s(1)] s(2)
  by (intro clean_inv) (simp add: cn_pre_def cn_inv_def)

lemma emitted_ok_end: "emitted_ok W e isn seg \<Longrightarrow> emitted_ok W True isn seg"
  by (auto simp: emitted_ok_def intro: sent_seg_e)

lemma emitted_ok_write: "emitted_ok W False isn seg \<Longrightarrow> emitted_ok (W @ d) e isn seg"
  by (auto simp: emitted_ok_def intro: sent_seg_append)

lemma cn_step_inv:
  assumes "cn_inv S i x" "cn_allowed S i x op"
  shows "cn_inv S i (cn_step x op)"
proof (cases x)
  case x: (Pair c W)
  with assms have inv: "cn_inv S i (c, W)" and allowed: "cn_allowed S i (c, W) op" by simp_all
  have s: "sd_inv W (cn_sender c)" and out: "\<forall>seg \<in> set (cn_segments_out c). th_rst (sg_header seg) \<or>
      emitted_ok W (bs_inputEnd (sd_stream (cn_sender c))) (sd_isn (cn_sender c)) seg"
    using inv by (simp_all add: cn_inv_def)
  show ?thesis
  proof (cases op)
    case CConnect
    then show ?thesis using cn_fill_inv [OF inv s refl out] x by (simp add: cn_connect_def)
  next
    case (CWrite d)
    obtain st k where w: "bs_write d (sd_stream (cn_sender c)) = (st, k)" by fastforce
    have opn: "\<not> bs_inputEnd (sd_stream (cn_sender c))" "length W + length d < 2 ^ 62"
      using allowed CWrite by (simp_all add: cn_allowed_def)
    have "bs_inputEnd st = bs_inputEnd (sd_stream (cn_sender c))" using w by (auto simp: bs_write_def Let_def)
    then have "cn_inv S i (clean (c\<lparr>cn_sender := fill_window ((cn_sender c)\<lparr>sd_stream := st\<rparr>)\<rparr>), W @ take k d)"
      using out opn by (intro cn_fill_inv [OF inv sd_write_inv [OF s opn w]]) (auto intro: emitted_ok_write)
    then show ?thesis using x CWrite w by (simp add: cn_write_def)
  next
    case CEnd
    have "cn_inv S i (clean (c\<lparr>cn_sender := fill_window ((cn_sender c)\<lparr>sd_stream := bs_end_input (sd_stream (cn_sender c))\<rparr>)\<rparr>), W)"
      using out by (intro cn_fill_inv [OF inv sd_end_inv [OF s]]) (auto simp: bs_end_input_def intro: emitted_ok_end)
    then show ?thesis using x CEnd by (simp add: cn_end_input_stream_def)
  next
    case (CRead n)
    obtain r out where r: "rc_read n (cn_receiver c) = (r, out)" by fastforce
    then have "rc_core S i r" using rc_read_spec(1) inv by (auto simp: cn_inv_def)
    then show ?thesis using inv x CRead r by (simp add: cn_inv_def)
  next
    case CTake
    then show ?thesis using inv x by (simp add: cn_inv_def)
  qed (use inv allowed x in \<open>simp_all add: cn_segment_inv cn_tick_inv cn_destroy_def bad_shutdown_inv\<close>)
qed

interpretation cn_sys: step_system "cn_start S" cn_step "cn_allowed S i" "cn_inv S i" for S i
  by unfold_locales (auto intro: cn_start_inv cn_step_inv)

subsection \<open>Opening a connection\<close>

definition syn_segment :: "wrapping_int32 \<Rightarrow> tcp_segment" where
  "syn_segment isn = \<lparr>sg_header = tcp_header_new\<lparr>th_seqno := isn, th_syn := True\<rparr>, sg_payload = []\<rparr>"

text \<open>A sender that has sent its SYN, and one whose SYN has been acknowledged.\<close>

definition sender_opened :: "nat \<Rightarrow> u16 \<Rightarrow> wrapping_int32 \<Rightarrow> tcp_segment list \<Rightarrow> tcp_sender" where
  "sender_opened cap rto isn out =
     (tcp_sender_new cap rto (Some isn) 0)\<lparr>sd_segments_out := out, sd_next_seqno := 1,
        sd_seg_buffer := [\<lparr>sn_seg = syn_segment isn, sn_ack_index = 1\<rparr>]\<rparr>"

definition sender_acked :: "nat \<Rightarrow> u16 \<Rightarrow> wrapping_int32 \<Rightarrow> nat \<Rightarrow> tcp_segment list \<Rightarrow> tcp_sender" where
  "sender_acked cap rto isn edge out =
     (tcp_sender_new cap rto (Some isn) 0)\<lparr>sd_segments_out := out, sd_next_seqno := 1, sd_cur_ack_index := 1,
        sd_seg_buffer := [], sd_wd_right_edge := edge\<rparr>"

lemma length_syn_segment [simp]: "length_in_sequence_space (syn_segment isn) = 1"
  by (simp add: length_in_sequence_space_def syn_segment_def tcp_header_new_def)

lemma tcp_sender_new_isn:
  "tcp_sender_new cap rto isn rnd = tcp_sender_new cap rto (Some (sd_isn (tcp_sender_new cap rto isn rnd))) 0"
  by (simp add: tcp_sender_new_def)

lemma syn_of_new:
  "(get_init_seg (tcp_sender_new cap rto (Some isn) rnd))
     \<lparr>sg_header := (sg_header (get_init_seg (tcp_sender_new cap rto (Some isn) rnd)))\<lparr>th_syn := True\<rparr>\<rparr> = syn_segment isn"
  by (simp add: get_init_seg_def syn_segment_def tcp_sender_new_def tcp_segment_new_def tcp_header_new_def wrap_alt)

lemma send_syn_new:
  "send_new_seg (syn_segment isn) (tcp_sender_new cap rto (Some isn) 0) = sender_opened cap rto isn [syn_segment isn]"
  by (simp add: send_new_seg_def sender_opened_def tcp_sender_new_def add64_def u64_def)

lemma fill_window_new:
  "fill_window (tcp_sender_new cap rto (Some isn) 0) = sender_opened cap rto isn [syn_segment isn]"
proof -
  have "sd_next_seqno (tcp_sender_new cap rto (Some isn) 0) = 0"
    "sd_fin_ack_index (tcp_sender_new cap rto (Some isn) 0) = 18446744073709551615"
    by (simp_all add: tcp_sender_new_def)
  then show ?thesis by (simp add: fill_window_def syn_of_new send_syn_new)
qed

lemma send_empty_ack_new:
  "send_empty_ack (tcp_sender_new cap rto (Some isn) 0) = sender_opened cap rto isn [syn_segment isn]"
proof -
  have "sd_next_seqno (tcp_sender_new cap rto (Some isn) 0) = 0" by (simp add: tcp_sender_new_def)
  then show ?thesis by (simp add: send_empty_ack_def syn_of_new send_syn_new)
qed

lemma unwrap_first: "unwrap (isn + 1) isn (Suc 0) = Suc 0"
  using seqno.unwr_self [of 1 isn] by (simp add: wrap_alt)

text \<open>With nothing written, an acknowledgment of the SYN only moves the window.\<close>

lemma fill_window_idle:
  assumes "cap < U64" "edge \<le> 65536"
  shows "fill_window (sender_acked cap rto isn edge out) = sender_acked cap rto isn edge out"
proof -
  let ?s = "sender_acked cap rto isn edge out"
  have rd: "bs_read n (bs_new cap) = (bs_new cap, [])" for n
    by (simp add: bs_read_def bs_new_def Let_def add64_def sub64_def u64_def)
  have f: "sd_stream ?s = bs_new cap" "sd_next_seqno ?s = 1" "sd_fin_ack_index ?s = 18446744073709551615"
    by (simp_all add: sender_acked_def tcp_sender_new_def)
  have eof: "\<not> bs_eof (bs_new cap)" by (simp add: bs_eof_def bs_new_def)
  have same: "?s\<lparr>sd_stream := bs_new cap\<rparr> = ?s" using f(1) by (metis tcp_sender.surjective tcp_sender.update_convs(4) tcp_sender.select_convs(4))
  show ?thesis unfolding fill_window_def f rd Let_def prod.case same by (simp add: eof split_loop.simps)
qed

lemma ack_received_first:
  assumes "cap < U64" "0 < win"
  shows "ack_received (isn + 1) win (sender_opened cap rto isn out) = sender_acked cap rto isn (1 + unat win) out"
proof -
  have w: "unat win < 65536" "0 < unat win" using unat_u16_less [of win] assms(2) by (simp_all add: word_less_nat_alt)
  have add: "add64 1 (unat win) = 1 + unat win" using w by (simp add: no_wrap)
  have "ack_received (isn + 1) win (sender_opened cap rto isn out) =
      fill_window (sender_acked cap rto isn (1 + unat win) out)"
    using w assms(2) add
    by (simp add: ack_received_def sender_opened_def sender_acked_def tcp_sender_new_def unwrap_first timer_flash_def Let_def)
  with fill_window_idle [OF assms(1)] w show ?thesis by simp
qed

definition receiver_opened :: "nat \<Rightarrow> wrapping_int32 \<Rightarrow> tcp_receiver" where
  "receiver_opened cap isn = (tcp_receiver_new cap)\<lparr>rc_recieve_isn := True, rc_isn := isn + 1\<rparr>"

lemma rc_new_stream [simp]:
  "rc_stream_out (tcp_receiver_new cap) = bs_new cap" "rc_stream_out (receiver_opened cap isn) = bs_new cap"
  "rc_capacity (receiver_opened cap isn) = cap"
  by (simp_all add: rc_stream_out_def receiver_opened_def tcp_receiver_new_def sr_new_def)

lemma bs_new_accessors [simp]:
  "\<not> bs_input_ended (bs_new cap)" "\<not> bs_error (bs_new cap)" "\<not> bs_eof (bs_new cap)"
  "bs_bytes_written (bs_new cap) = 0" "bs_buffer_size (bs_new cap) = 0"
  by (simp_all add: bs_accessors bs_new_def)

lemma receiver_opens:
  assumes "0 < cap" "cap < U64" "th_syn (sg_header seg)" "th_seqno (sg_header seg) = isn"
    "sg_payload seg = []" "\<not> th_fin (sg_header seg)"
  shows "rc_segment_received seg (tcp_receiver_new cap) = receiver_opened cap isn"
proof -
  have push: "push_substring [] 0 False (sr_new cap) = sr_new cap"
    by (simp add: push_substring_def sr_end_if_done_def sr_new_def)
  have "sub64 (add64 (sub64 cap 0) 0) 1 = cap - 1" using assms(1,2) by (simp add: no_wrap)
  moreover have "rc_stream_out ((tcp_receiver_new cap)\<lparr>rc_recieve_isn := True, rc_isn := isn + 1\<rparr>) = bs_new cap"
    by (simp add: rc_stream_out_def tcp_receiver_new_def sr_new_def)
  ultimately show ?thesis
    using assms push
    by (simp add: rc_segment_received_def Let_def wrap_alt length_in_sequence_space_def add64_def u64_def
        tcp_receiver_new_def receiver_opened_def add.commute)
qed

lemma receiver_opened_core:
  assumes "0 < cap" "cap < U64"
  shows "rc_core [] isn (receiver_opened cap isn)"
  using sr_new_inv [of cap "[]"] assms
  by (simp add: rc_core_def receiver_opened_def tcp_receiver_new_def) (simp add: sr_new_def)

lemma receiver_opened_answer:
  assumes "cap < U64"
  shows "rc_ackno (receiver_opened cap isn) = Some (isn + 1)" "rc_window_size (receiver_opened cap isn) = cap"
    "rc_ackno (tcp_receiver_new cap) = None" "rc_window_size (tcp_receiver_new cap) = cap"
  using assms
  by (simp_all add: rc_ackno_def rc_window_size_def)
    (simp_all add: receiver_opened_def tcp_receiver_new_def wrap_alt)

lemma window_word: "0 < cap \<Longrightarrow> 0 < (word_of_nat (min 65535 cap) :: u16)"
proof -
  assume "0 < cap"
  have "min 65535 cap < 65536" by simp
  then have "unat (word_of_nat (min 65535 cap) :: u16) = min 65535 cap" by (simp add: unat_of_nat take_bit_nat_eq_self)
  with \<open>0 < cap\<close> show ?thesis by (simp add: word_less_nat_alt)
qed

text \<open>The connection before it opens, with its SYN sent, and established.\<close>

definition conn_with :: "tcp_config \<Rightarrow> u32 \<Rightarrow> tcp_receiver \<Rightarrow> tcp_sender \<Rightarrow> tcp_segment list \<Rightarrow> tcp_connection" where
  "conn_with cfg rnd r s out = (tcp_connection_new cfg rnd)\<lparr>cn_receiver := r, cn_sender := s, cn_segments_out := out\<rparr>"

definition cfg_isn :: "tcp_config \<Rightarrow> u32 \<Rightarrow> wrapping_int32" where
  "cfg_isn cfg rnd = (case cfg_fixed_isn cfg of Some i \<Rightarrow> i | None \<Rightarrow> rnd)"

lemma tcp_connection_new_conn:
  "tcp_connection_new cfg rnd = conn_with cfg rnd (tcp_receiver_new (cfg_recv_capacity cfg))
     (tcp_sender_new (cfg_send_capacity cfg) (cfg_rt_timeout cfg) (Some (cfg_isn cfg rnd)) 0) []"
  by (simp add: conn_with_def tcp_connection_new_def tcp_sender_new_def cfg_isn_def)

lemma conn_with_simps [simp]:
  "cn_receiver (conn_with cfg rnd r s out) = r" "cn_sender (conn_with cfg rnd r s out) = s"
  "cn_segments_out (conn_with cfg rnd r s out) = out" "\<not> cn_close (conn_with cfg rnd r s out)"
  "cn_linger_after_streams_finish (conn_with cfg rnd r s out)" "cn_last_recive_time (conn_with cfg rnd r s out) = 0"
  "cn_now_time (conn_with cfg rnd r s out) = 0"
  "(conn_with cfg rnd r s out)\<lparr>cn_receiver := r'\<rparr> = conn_with cfg rnd r' s out"
  "(conn_with cfg rnd r s out)\<lparr>cn_sender := s'\<rparr> = conn_with cfg rnd r s' out"
  "(conn_with cfg rnd r s out)\<lparr>cn_segments_out := out'\<rparr> = conn_with cfg rnd r s out'"
  "(conn_with cfg rnd r s out)\<lparr>cn_last_recive_time := 0\<rparr> = conn_with cfg rnd r s out"
  "(conn_with cfg rnd r s out)\<lparr>cn_close := False\<rparr> = conn_with cfg rnd r s out"
  by (simp_all add: conn_with_def tcp_connection_new_def)

lemma clean_conn:
  assumes "\<not> bs_input_ended (rc_stream_out r)"
  shows "clean (conn_with cfg rnd r s out) =
    conn_with cfg rnd r (s\<lparr>sd_segments_out := []\<rparr>) (out @ map (stamp r) (sd_segments_out s))"
  using assms by (simp add: clean_eq stream_both_eof_def)

lemma sender_take [simp]:
  "sd_segments_out (sender_opened cap rto isn out) = out" "sd_segments_out (sender_acked cap rto isn e out) = out"
  "(sender_opened cap rto isn out)\<lparr>sd_segments_out := out'\<rparr> = sender_opened cap rto isn out'"
  "(sender_acked cap rto isn e out)\<lparr>sd_segments_out := out'\<rparr> = sender_acked cap rto isn e out'"
  "sd_stream (sender_opened cap rto isn out) = bs_new cap" "sd_stream (sender_acked cap rto isn e out) = bs_new cap"
  "sd_stream (tcp_sender_new cap rto i rnd) = bs_new cap"
  "sd_next_seqno (sender_acked cap rto isn e out) = 1"
  by (simp_all add: sender_opened_def sender_acked_def tcp_sender_new_def)

lemma send_empty_ack_acked:
  "send_empty_ack (sender_acked cap rto isn e out) =
     sender_acked cap rto isn e (out @ [get_init_seg (sender_acked cap rto isn e out)])"
  by (simp add: send_empty_ack_def)

lemma conn_states:
  assumes "0 < cap" "cap < U64"
  shows "cn_state (conn_with cfg rnd (tcp_receiver_new cap) (tcp_sender_new scap rto i rn) out) = tcp_state_of LISTEN"
    "cn_state (conn_with cfg rnd (tcp_receiver_new cap) (sender_opened scap rto isn o1) out) = tcp_state_of SYN_SENT"
    "cn_state (conn_with cfg rnd (receiver_opened cap pisn) (sender_opened scap rto isn o1) out) = tcp_state_of SYN_RCVD"
    "cn_state (conn_with cfg rnd (receiver_opened cap pisn) (sender_acked scap rto isn e o1) out) = tcp_state_of ESTABLISHED"
proof -
  have "sd_next_seqno (tcp_sender_new scap rto i rn) = 0" by (simp add: tcp_sender_new_def)
  moreover have "sd_next_seqno (sender_opened scap rto isn o1) = 1" "sd_bytes_in_flight (sender_opened scap rto isn o1) = 1"
    "sd_bytes_in_flight (sender_acked scap rto isn e o1) = 0"
    by (simp_all add: sd_bytes_in_flight_def sender_opened_def sender_acked_def tcp_sender_new_def)
  ultimately show
    "cn_state (conn_with cfg rnd (tcp_receiver_new cap) (tcp_sender_new scap rto i rn) out) = tcp_state_of LISTEN"
    "cn_state (conn_with cfg rnd (tcp_receiver_new cap) (sender_opened scap rto isn o1) out) = tcp_state_of SYN_SENT"
    "cn_state (conn_with cfg rnd (receiver_opened cap pisn) (sender_opened scap rto isn o1) out) = tcp_state_of SYN_RCVD"
    "cn_state (conn_with cfg rnd (receiver_opened cap pisn) (sender_acked scap rto isn e o1) out) = tcp_state_of ESTABLISHED"
    using receiver_opened_answer [OF assms(2)]
    by (simp_all add: cn_state_def tcp_state_make_def cn_active_def sender_summary_def receiver_summary_def)
qed

subsection \<open>Properties\<close>

text \<open>C13. The three-way handshake: for any configurations (with room to receive), a fresh connection is in LISTEN; calling
  \<^verbatim>\<open>connect\<close> sends one segment and enters SYN_SENT; the peer that gets the segment answers with one
  segment in SYN_RCVD; the first side becomes ESTABLISHED with one acknowledgment, and the peer becomes
  ESTABLISHED on it and sends nothing more.\<close>

theorem three_way_handshake:
  assumes "0 < cfg_recv_capacity A" "cfg_recv_capacity A < U64" "cfg_send_capacity A < U64"
    and "0 < cfg_recv_capacity B" "cfg_recv_capacity B < U64" "cfg_send_capacity B < U64"
    and "a1 = cn_connect (tcp_connection_new A ra)"
    and "b1 = cn_segment_received (hd (cn_segments_out a1)) (tcp_connection_new B rb)"
    and "a2 = cn_segment_received (hd (cn_segments_out b1)) (a1\<lparr>cn_segments_out := []\<rparr>)"
    and "b2 = cn_segment_received (hd (cn_segments_out a2)) (b1\<lparr>cn_segments_out := []\<rparr>)"
  shows "cn_state (tcp_connection_new A ra) = tcp_state_of LISTEN \<and>
    cn_state a1 = tcp_state_of SYN_SENT \<and> length (cn_segments_out a1) = 1 \<and>
    cn_state b1 = tcp_state_of SYN_RCVD \<and> length (cn_segments_out b1) = 1 \<and>
    cn_state a2 = tcp_state_of ESTABLISHED \<and> length (cn_segments_out a2) = 1 \<and>
    cn_state b2 = tcp_state_of ESTABLISHED \<and> cn_segments_out b2 = []"
proof -
  let ?ia = "cfg_isn A ra" and ?ib = "cfg_isn B rb"
  let ?rA = "tcp_receiver_new (cfg_recv_capacity A)" and ?oA = "receiver_opened (cfg_recv_capacity A) ?ib"
  let ?oB = "receiver_opened (cfg_recv_capacity B) ?ia"
  let ?sA = "sender_opened (cfg_send_capacity A) (cfg_rt_timeout A) ?ia"
  let ?sB = "sender_opened (cfg_send_capacity B) (cfg_rt_timeout B) ?ib"
  let ?wA = "word_of_nat (min 65535 (cfg_recv_capacity A)) :: u16" and ?wB = "word_of_nat (min 65535 (cfg_recv_capacity B)) :: u16"
  let ?kA = "sender_acked (cfg_send_capacity A) (cfg_rt_timeout A) ?ia (1 + unat ?wB)"
  let ?kB = "sender_acked (cfg_send_capacity B) (cfg_rt_timeout B) ?ib (1 + unat ?wA)"
  note ans = receiver_opened_answer [OF assms(2)] receiver_opened_answer [OF assms(5)]
  have syn: "th_syn (sg_header (syn_segment i))" "th_seqno (sg_header (syn_segment i)) = i" "\<not> th_fin (sg_header (syn_segment i))"
    "sg_payload (syn_segment i) = []" "\<not> th_rst (sg_header (syn_segment i))" "\<not> th_ack (sg_header (syn_segment i))" for i
    by (simp_all add: syn_segment_def tcp_header_new_def)
  have a1: "a1 = conn_with A ra ?rA (?sA []) [stamp ?rA (syn_segment ?ia)]"
    using assms(7) by (simp add: cn_connect_def tcp_connection_new_conn fill_window_new clean_conn)
  have b1: "b1 = conn_with B rb ?oB (?sB []) [stamp ?oB (syn_segment ?ib)]"
    using assms(4,5) ans syn
    by (simp add: assms(8) a1 cn_segment_received_def tcp_connection_new_conn receiver_opens send_empty_ack_new
        clean_conn stamp_answer)
  have a2: "a2 = conn_with A ra ?oA (?kA []) [stamp ?oA (get_init_seg (?kA []))]"
    using assms(1-3) ans syn window_word [OF assms(4)]
    by (simp add: assms(9) a1 b1 cn_segment_received_def receiver_opens stamp_answer ack_received_first
        send_empty_ack_acked clean_conn del: One_nat_def add_0_left plus_1_eq_Suc)
  have empty: "length_in_sequence_space (stamp ?oA (get_init_seg (?kA []))) = 0"
    by (simp add: length_in_sequence_space_def)
  have b2: "b2 = conn_with B rb ?oB (?kB []) []"
    using assms(4-6) ans window_word [OF assms(1)] empty rc_segment_empty [OF receiver_opened_core [OF assms(4,5)] empty]
    by (simp add: assms(10) a2 b1 cn_segment_received_def stamp_answer ack_received_first clean_conn
        del: One_nat_def plus_1_eq_Suc)
  show ?thesis
    unfolding a1 b1 a2 b2 using conn_states [OF assms(1,2)] conn_states [OF assms(4,5)]
    by (simp add: tcp_connection_new_conn)
qed

theorem three_way_handshake_witness:
  "cn_state (cn_connect (tcp_connection_new tcp_config_default 5)) = tcp_state_of SYN_SENT"
  using three_way_handshake [of tcp_config_default tcp_config_default _ 5, OF _ _ _ _ _ _ refl refl refl refl]
  by (simp add: tcp_config_default_def DEFAULT_CAPACITY_def)

text \<open>Retransmissions in a row, counted from what the connection does: a tick that queues a segment which occupies sequence numbers (nothing else in a
  tick does) while the peer's window is open beyond what it has acknowledged counts one; an acknowledgment that moves the acknowledged index starts again.
  Segments sent again into a closed window, its probes, are not counted.\<close>

definition retransmits :: "cn_op \<Rightarrow> tcp_connection \<Rightarrow> tcp_connection \<Rightarrow> bool" where
  "retransmits op c c' \<longleftrightarrow>
     (case op of
        CTick ms \<Rightarrow> list_ex (\<lambda>seg. 0 < length_in_sequence_space seg) (drop (length (cn_segments_out c)) (cn_segments_out c'))
      | _ \<Rightarrow> False)"

definition window_open :: "tcp_sender \<Rightarrow> bool" where
  "window_open s \<longleftrightarrow> sd_wd_right_edge s \<noteq> sd_cur_ack_index s"

definition retx_count :: "cn_op \<Rightarrow> tcp_connection \<Rightarrow> tcp_connection \<Rightarrow> nat \<Rightarrow> nat" where
  "retx_count op c c' n =
     (if sd_cur_ack_index (cn_sender c) < sd_cur_ack_index (cn_sender c') then 0
      else if retransmits op c c' \<and> window_open (cn_sender c) then n + 1 else n)"

fun retx_since_ack :: "tcp_connection \<times> bytes \<Rightarrow> nat \<Rightarrow> cn_op list \<Rightarrow> nat" where
  "retx_since_ack x n [] = n"
| "retx_since_ack x n (op # ops) = retx_since_ack (cn_step x op) (retx_count op (fst x) (fst (cn_step x op)) n) ops"

lemma split_loop_counts:
  "split_loop i d s = (j, s') \<Longrightarrow> sd_cur_ack_index s' = sd_cur_ack_index s \<and> sd_retrans_num s' = sd_retrans_num s"
proof (induction i d s rule: split_loop.induct)
  case (1 i d s)
  then show ?case
    by (cases "i + MAX_PAYLOAD_SIZE < length d") (simp_all add: split_loop.simps [of i d s] send_new_seg_def Let_def)
qed

lemma fill_window_counts [simp]:
  "sd_cur_ack_index (fill_window s) = sd_cur_ack_index s" "sd_retrans_num (fill_window s) = sd_retrans_num s"
proof -
  have "sd_cur_ack_index (fill_window s) = sd_cur_ack_index s \<and> sd_retrans_num (fill_window s) = sd_retrans_num s"
    by (auto simp: fill_window_def Let_def send_new_seg_def split: prod.splits dest!: split_loop_counts)
  then show "sd_cur_ack_index (fill_window s) = sd_cur_ack_index s" "sd_retrans_num (fill_window s) = sd_retrans_num s" by simp_all
qed

lemma ack_loop_advances:
  "chained W e isn a ns b \<Longrightarrow> ack_loop ack f a ns = (f', a', rest) \<Longrightarrow> a' = a \<and> f' = f \<or> a < a' \<and> f'"
proof (induction ns arbitrary: a f)
  case (Cons n ns)
  let ?a = "a + length_in_sequence_space (sn_seg n)"
  have n: "0 < length_in_sequence_space (sn_seg n)" "sn_ack_index n = ?a" "chained W e isn ?a ns b" using Cons.prems(1) by auto
  show ?case
  proof (cases "?a \<le> ack")
    case True
    then have "ack_loop ack True ?a ns = (f', a', rest)" using Cons.prems(2) n(2) by simp
    from Cons.IH [OF n(3) this] n(1) show ?thesis by auto
  qed (use Cons.prems(2) n(2) in auto)
qed simp

lemma ack_received_count:
  assumes "sd_inv W s" "s' = ack_received ackno win s"
  shows "sd_retrans_num s' = (if sd_cur_ack_index s < sd_cur_ack_index s' then 0 else sd_retrans_num s)"
proof -
  let ?ack = "unwrap ackno (sd_isn s) (sd_next_seqno s)"
  obtain f a rest where l: "ack_loop ?ack False (sd_cur_ack_index s) (sd_seg_buffer s) = (f, a, rest)" by (metis prod_cases3)
  have "chained W (bs_inputEnd (sd_stream s)) (sd_isn s) (sd_cur_ack_index s) (sd_seg_buffer s) (sd_next_seqno s)"
    using assms(1) sd_coreD(8) [of W "[]" s] by (simp add: sd_inv_def)
  from ack_loop_advances [OF this l] show ?thesis by (auto simp: assms(2) ack_received_def Let_def l)
qed

lemma tick_counts:
  assumes inv: "cn_inv S i (c, W)" and c': "c' = cn_tick ms c"
  shows "sd_retrans_num (cn_sender c') = retx_count (CTick ms) c c' (sd_retrans_num (cn_sender c))"
proof (cases "consecutive_retransmissions (cn_sender c) \<ge> MAX_RETX_ATTEMPTS")
  case True
  then show ?thesis
    by (simp add: c' cn_tick_def retx_count_def retransmits_def bad_shutdown_def Let_def length_in_sequence_space_def tcp_segment_new_def tcp_header_new_def)
next
  case False
  let ?s = "cn_sender c" and ?t = "timer_tick ms (sd_timer (cn_sender c))"
  have s: "sd_inv W ?s" "sd_segments_out ?s = []" "sd_retrans_num ?s \<le> 8" using inv by (simp_all add: cn_inv_def MAX_RETX_ATTEMPTS_def)
  note t = sd_tick_eq [OF s(1) refl, of ms]
  have c'': "cn_sender c' = (sd_tick ms ?s)\<lparr>sd_segments_out := []\<rparr>"
    "\<exists>r. cn_segments_out c' = cn_segments_out c @ map (stamp r) (sd_segments_out (sd_tick ms ?s))"
    using False by (auto simp: c' cn_tick_def clean_eq Let_def)
  show ?thesis
  proof (cases "sd_seg_buffer ?s \<noteq> [] \<and> timer_time_out (sd_RTO ?s) ?t")
    case False
    then have "sd_tick ms ?s = ?s \<or> sd_tick ms ?s = ?s\<lparr>sd_timer := ?t\<rparr>" using t(1,2) by blast
    then show ?thesis using c'' s(2) by (auto simp: retx_count_def retransmits_def)
  next
    case True
    have "chained W (bs_inputEnd (sd_stream ?s)) (sd_isn ?s) (sd_cur_ack_index ?s) (sd_seg_buffer ?s) (sd_next_seqno ?s)"
      using s(1) sd_coreD(8) [of W "[]" ?s] by (simp add: sd_inv_def)
    then have "0 < length_in_sequence_space (sn_seg (hd (sd_seg_buffer ?s)))" using True by (cases "sd_seg_buffer ?s") auto
    moreover have "add64 (sd_retrans_num ?s) 1 = sd_retrans_num ?s + 1" using s(3) by (simp add: no_wrap)
    ultimately show ?thesis using c'' t(3) True s(2)
      by (auto simp: retx_count_def retransmits_def window_open_def)
  qed
qed

lemma cn_step_counts:
  assumes inv: "cn_inv S i (c, W)" and c': "cn_step (c, W) op = (c', W')"
  shows "sd_retrans_num (cn_sender c') = retx_count op c c' (sd_retrans_num (cn_sender c))"
proof -
  have s: "sd_inv W (cn_sender c)" using inv by (simp add: cn_inv_def)
  have bad: "sd_cur_ack_index (cn_sender (bad_shutdown f d)) = sd_cur_ack_index (cn_sender d)"
    "sd_retrans_num (cn_sender (bad_shutdown f d)) = sd_retrans_num (cn_sender d)" for f d
    by (simp_all add: bad_shutdown_def Let_def)
  have ack: "sd_cur_ack_index (send_empty_ack d) = sd_cur_ack_index d" for d by (simp add: send_empty_ack_def send_new_seg_def Let_def)
  show ?thesis
  proof (cases op)
    case (CTick ms)
    then show ?thesis using tick_counts [OF inv, of c' ms] c' by simp
  next
    case (CSegment seg)
    show ?thesis
    proof (cases "th_rst (sg_header seg)")
      case True
      then show ?thesis using c' by (auto simp: CSegment cn_segment_received_def Let_def bad retx_count_def retransmits_def)
    next
      case False
      have "cn_sender c' = (seg_sender seg (cn_sender c))\<lparr>sd_segments_out := []\<rparr>"
        using c' by (auto simp: CSegment cn_segment_received_eq [OF False] clean_eq)
      moreover have "sd_retrans_num (seg_sender seg (cn_sender c)) =
          (if sd_cur_ack_index (cn_sender c) < sd_cur_ack_index (seg_sender seg (cn_sender c)) then 0 else sd_retrans_num (cn_sender c))"
        using ack_received_count [OF s refl, of "th_ackno (sg_header seg)" "th_win (sg_header seg)"] by (simp add: seg_sender_def Let_def ack)
      ultimately show ?thesis by (simp add: retx_count_def retransmits_def CSegment)
    qed
  qed (use c' in \<open>auto simp: retx_count_def retransmits_def cn_connect_def cn_write_def cn_end_input_stream_def cn_destroy_def clean_eq Let_def bad
        split: prod.splits if_splits\<close>)
qed

lemma retx_since_ack_eq:
  assumes "cn_inv S i x" "allowed_run cn_step (cn_allowed S i) x ops" "run_steps cn_step x ops = (c, W)"
  shows "sd_retrans_num (cn_sender c) = retx_since_ack x (sd_retrans_num (cn_sender (fst x))) ops"
  using assms
proof (induction ops arbitrary: x)
  case (Cons op ops)
  obtain c1 W1 c2 W2 where x: "x = (c1, W1)" "cn_step x op = (c2, W2)" by (metis prod.exhaust)
  have "cn_inv S i (cn_step x op)" using cn_step_inv Cons.prems(1,2) by simp
  from Cons.IH [OF this] Cons.prems(2,3) cn_step_counts [of S i c1 W1 op c2 W2] Cons.prems(1) x show ?case by simp
qed simp

text \<open>C19. The connection keeps the invariants of its parts: in every reachable state each outgoing segment is a reset, is
  empty, or carries the slice of the application's bytes that belongs to its sequence number; the count of retransmissions is the number of
  segments sent again into an open window since the acknowledged index last moved, it never exceeds eight, and the retransmission timeout is exactly the
  configured one doubled for each of them.  Segments sent again into a closed window are not counted and do not back off.\<close>

theorem connection_outgoing_segments:
  assumes "cn_start S x0" "allowed_run cn_step (cn_allowed S i) x0 ops" "run_steps cn_step x0 ops = (c, W)"
  shows "(\<forall>seg \<in> set (cn_segments_out c). th_rst (sg_header seg) \<or> length_in_sequence_space seg = 0 \<or>
      (\<exists>a. sent_seg W (bs_input_ended (sd_stream (cn_sender c))) (sd_isn (cn_sender c)) a seg)) \<and>
    consecutive_retransmissions (cn_sender c) = retx_since_ack x0 0 ops \<and> retx_since_ack x0 0 ops \<le> MAX_RETX_ATTEMPTS \<and>
    sd_RTO (cn_sender c) = sd_initial_retransmission_timeout (cn_sender c) * 2 ^ retx_since_ack x0 0 ops"
proof -
  have inv: "cn_inv S i (c, W)" using cn_sys.reachable_inv [OF assms(1,2)] assms(3) by simp
  let ?s = "cn_sender c"
  have n: "sd_retrans_num ?s \<le> 8" "sd_rto ?s"
    using inv by (simp_all add: cn_inv_def sd_inv_def MAX_RETX_ATTEMPTS_def)
  have "sd_retrans_num (cn_sender (fst x0)) = 0" using assms(1) by (auto simp: cn_start_def tcp_connection_new_def tcp_sender_new_def)
  then have count: "sd_retrans_num ?s = retx_since_ack x0 0 ops"
    using retx_since_ack_eq [OF cn_sys.start_inv [OF assms(1)] assms(2,3)] by simp
  have "(2 :: nat) ^ sd_retrans_num ?s \<le> 2 ^ 8" using n(1) by (intro power_increasing) simp_all
  then have "sd_initial_retransmission_timeout ?s * 2 ^ sd_retrans_num ?s \<le> 65536 * 2 ^ 8"
    using n(2) by (intro mult_le_mono) (simp_all add: sd_rto_def)
  then have "sd_RTO ?s = sd_initial_retransmission_timeout ?s * 2 ^ sd_retrans_num ?s"
    using n(2) by (simp add: sd_rto_def no_wrap)
  with inv n(1) count show ?thesis
    by (auto simp: cn_inv_def emitted_ok_def bs_input_ended_def MAX_RETX_ATTEMPTS_def consecutive_retransmissions_def)
qed

text \<open>The witness: a SYN that is sent again once after the timeout.\<close>

theorem connection_outgoing_segments_witness:
  "\<exists>c. run_steps cn_step (tcp_connection_new tcp_config_default 5, []) [CConnect, CTick 1000] = (c, []) \<and>
     length (cn_segments_out c) = 2 \<and> consecutive_retransmissions (cn_sender c) = 1 \<and> sd_RTO (cn_sender c) = 2000"
proof -
  let ?x = "(tcp_connection_new tcp_config_default 5, [])" and ?ops = "[CConnect, CTick 1000]"
  have start: "cn_start [] ?x"
    unfolding cn_start_def by (intro exI conjI, rule refl) (simp_all add: tcp_config_default_def DEFAULT_CAPACITY_def)
  have ok: "allowed_run cn_step (cn_allowed [] 0) ?x ?ops" by (simp add: cn_allowed_def)
  obtain c W where run: "run_steps cn_step ?x ?ops = (c, W)" by fastforce
  have W: "W = []" using run by simp
  note eval = cn_connect_def fill_window_def tcp_connection_new_def tcp_sender_new_def get_init_seg_def send_new_seg_def clean_eq cn_tick_def
    consecutive_retransmissions_def MAX_RETX_ATTEMPTS_def sd_tick_def timer_tick_def timer_time_out_def timer_flash_def tcp_config_default_def TIMEOUT_DFLT_def
    add64_def sub64_def u64_def
  have "length (cn_segments_out c) = 2" "sd_initial_retransmission_timeout (cn_sender c) = 1000"
    using run by (auto simp: eval Let_def)
  moreover have "retx_since_ack ?x 0 ?ops = 1"
    by (simp add: retx_count_def retransmits_def window_open_def eval Let_def) (simp add: length_in_sequence_space_def)
  ultimately show ?thesis using connection_outgoing_segments [OF start ok run] run W by auto
qed

text \<open>What a call adds to the outgoing queue answers for the receiver: it is a reset, or it carries the receiver's current window and,
  once there is one, its acknowledgment number.\<close>

definition answers :: "tcp_receiver \<Rightarrow> tcp_segment \<Rightarrow> bool" where
  "answers r seg \<longleftrightarrow>
     th_win (sg_header seg) = word_of_nat (min 65535 (rc_window_size r)) \<and>
     (\<forall>a. rc_ackno r = Some a \<longrightarrow> th_ack (sg_header seg) \<and> th_ackno (sg_header seg) = a)"

lemma answers_stamp: "answers r (stamp r seg)"
  by (auto simp: answers_def stamp_answer)

lemma clean_answers:
  "\<exists>new. cn_segments_out (clean c) = cn_segments_out c @ new \<and>
     (\<forall>seg \<in> set new. answers (cn_receiver (clean c)) seg)"
  by (auto simp: clean_eq answers_stamp)

lemma bad_shutdown_out:
  "\<exists>new. cn_segments_out (bad_shutdown f c) = cn_segments_out c @ new \<and> (\<forall>seg \<in> set new. th_rst (sg_header seg))"
  by (cases f) (simp_all add: bad_shutdown_def Let_def)

text \<open>Every call of the owner (other than taking the queue) only appends to the outgoing queue, and every segment it appends is a
  reset or carries the receiver's current acknowledgment number and window, the window capped at 65535.\<close>

theorem connection_segments_answer:
  assumes "op \<noteq> CTake" "cn_step (c, W) op = (c', W')"
  shows "\<exists>new. cn_segments_out c' = cn_segments_out c @ new \<and>
    (\<forall>seg \<in> set new. th_rst (sg_header seg) \<or> answers (cn_receiver c') seg)"
proof -
  have cl: "\<exists>new. cn_segments_out c' = cn_segments_out c @ new \<and>
      (\<forall>seg \<in> set new. th_rst (sg_header seg) \<or> answers (cn_receiver c') seg)"
    if "c' = clean d" "cn_segments_out d = cn_segments_out c" for d
    using clean_answers [of d] that by auto
  have bs: "\<exists>new. cn_segments_out c' = cn_segments_out c @ new \<and>
      (\<forall>seg \<in> set new. th_rst (sg_header seg) \<or> answers (cn_receiver c') seg)"
    if "c' = bad_shutdown f d" "cn_segments_out d = cn_segments_out c" for f d
    using bad_shutdown_out [of f d] that by auto
  show ?thesis
  proof (cases op)
    case (CSegment seg)
    then show ?thesis using assms(2) cl bs
      by (cases "th_rst (sg_header seg)") (auto simp: cn_segment_received_def Let_def)
  next
    case (CTick ms)
    then show ?thesis using assms(2) cl bs
      by (cases "consecutive_retransmissions (cn_sender c) \<ge> MAX_RETX_ATTEMPTS") (auto simp: cn_tick_def Let_def)
  next
    case CDestroy
    then show ?thesis using assms(2) bs by (cases "cn_active c") (auto simp: cn_destroy_def)
  qed (use assms cl in \<open>auto simp: cn_connect_def cn_write_def cn_end_input_stream_def Let_def split: prod.splits\<close>)
qed

theorem connection_segments_answer_witness:
  "\<exists>new. cn_segments_out (cn_connect (tcp_connection_new tcp_config_default 5)) = [] @ new \<and>
     (\<forall>seg \<in> set new. th_rst (sg_header seg) \<or>
        answers (cn_receiver (cn_connect (tcp_connection_new tcp_config_default 5))) seg)"
  using connection_segments_answer [of CConnect "tcp_connection_new tcp_config_default 5" "[]"]
  by (simp add: tcp_connection_new_def)

lemma conn_listen: "cn_state (tcp_connection_new cfg rnd) = tcp_state_of LISTEN"
  by (simp add: cn_state_def tcp_state_make_def tcp_connection_new_def cn_active_def sender_summary_def receiver_summary_def
      tcp_sender_new_def tcp_receiver_new_def rc_ackno_def rc_stream_out_def sr_new_def bs_new_def bs_error_def)

text \<open>C21. Unclean shutdown: a segment with the RST flag puts the connection into RESET whatever its state and sends nothing, also a connection
  that is still listening and, as \<^verbatim>\<open>tests/fsm_ack_rst_relaxed.cc\<close> has it, should ignore every RST; a tick
  when eight retransmissions in a row have failed, and the destructor of an active connection, put it into RESET and queue one RST
  segment at the sender's next sequence number.\<close>

theorem connection_reset:
  assumes "th_rst (sg_header seg)" "consecutive_retransmissions (cn_sender d) \<ge> MAX_RETX_ATTEMPTS" "cn_active e"
  shows "cn_state (cn_segment_received seg c) = tcp_state_of RESET \<and>
    cn_segments_out (cn_segment_received seg c) = cn_segments_out c \<and>
    cn_state (tcp_connection_new cfg rnd) = tcp_state_of LISTEN \<and>
    cn_state (cn_segment_received seg (tcp_connection_new cfg rnd)) = tcp_state_of RESET \<and>
    cn_state (cn_tick ms d) = tcp_state_of RESET \<and>
    cn_segments_out (cn_tick ms d) = cn_segments_out d @
      [tcp_segment_new\<lparr>sg_header := tcp_header_new\<lparr>th_rst := True, th_seqno := sd_next_seqno_wrapped (cn_sender d)\<rparr>\<rparr>] \<and>
    cn_state (cn_destroy e) = tcp_state_of RESET \<and>
    cn_segments_out (cn_destroy e) = cn_segments_out e @
      [tcp_segment_new\<lparr>sg_header := tcp_header_new\<lparr>th_rst := True, th_seqno := sd_next_seqno_wrapped (cn_sender e)\<rparr>\<rparr>]"
proof -
  have st: "cn_state (bad_shutdown f x) = tcp_state_of RESET" for f x
    by (simp add: cn_state_def tcp_state_make_def cn_active_def bad_shutdown_def Let_def sender_summary_def
        receiver_summary_def rc_set_error_def rc_stream_out_def bs_error_def bs_set_error_def)
  have out: "cn_segments_out (bad_shutdown f x) = cn_segments_out x @ (if f then
      [tcp_segment_new\<lparr>sg_header := tcp_header_new\<lparr>th_rst := True, th_seqno := sd_next_seqno_wrapped (cn_sender x)\<rparr>\<rparr>]
      else [])" for f x
    by (simp add: bad_shutdown_def Let_def tcp_segment_new_def sd_next_seqno_wrapped_def)
  show ?thesis
    using assms st out conn_listen by (simp add: cn_segment_received_def cn_tick_def cn_destroy_def Let_def)
qed

theorem connection_reset_witness:
  "cn_state (cn_destroy (tcp_connection_new tcp_config_default 5)) = tcp_state_of RESET \<and>
   cn_state (cn_segment_received \<lparr>sg_header = tcp_header_new\<lparr>th_rst := True\<rparr>, sg_payload = []\<rparr> (tcp_connection_new tcp_config_default 5)) =
     tcp_state_of RESET"
  using connection_reset [of "\<lparr>sg_header = tcp_header_new\<lparr>th_rst := True\<rparr>, sg_payload = []\<rparr>"
    "(tcp_connection_new tcp_config_default 5)\<lparr>cn_sender := (tcp_sender_new 1 1 None 0)\<lparr>sd_retrans_num := 8\<rparr>\<rparr>"
    "tcp_connection_new tcp_config_default 5"]
  by (simp add: cn_active_def tcp_connection_new_def consecutive_retransmissions_def MAX_RETX_ATTEMPTS_def)

text \<open>C22. Clean shutdown: opening, writing, ending the stream, a segment without RST, and a tick before the limit of retransmissions close
  an open connection exactly when, after the call, the inbound stream has ended, the outbound stream has been sent and acknowledged
  completely, and the connection need not linger or ten times the retransmission timeout has passed since the last
  segment.  A closed connection is never reopened.\<close>

theorem connection_close_condition:
  assumes "op = CConnect \<or> (\<exists>d. op = CWrite d) \<or> op = CEnd \<or> (\<exists>seg. op = CSegment seg \<and> \<not> th_rst (sg_header seg)) \<or>
      (\<exists>ms. op = CTick ms \<and> consecutive_retransmissions (cn_sender c) < MAX_RETX_ATTEMPTS)"
    and "cn_step (c, W) op = (c', W')"
  shows "cn_active c' \<longleftrightarrow> cn_active c \<and>
    \<not> (bs_input_ended (rc_stream_out (cn_receiver c')) \<and> bs_eof (sd_stream (cn_sender c')) \<and>
       sd_bytes_in_flight (cn_sender c') = 0 \<and>
       (\<not> cn_linger_after_streams_finish c' \<or>
        time_since_last_segment_received c' \<ge> 10 * unat (cfg_rt_timeout (cn_cfg c'))))"
proof -
  have "unat (ucast w :: u32) = unat w" for w :: u16
    using unat_u16_less [of w] by (simp add: unsigned_ucast_eq take_bit_nat_eq_self)
  then have ten: "unat (10 * ucast w :: u32) = 10 * unat w" for w :: u16
    using unat_u16_less [of w] by (simp add: unat_word_ariths)
  have cl: "cn_active (clean d) \<longleftrightarrow> cn_active d \<and> \<not> (bs_input_ended (rc_stream_out (cn_receiver (clean d))) \<and>
       bs_eof (sd_stream (cn_sender (clean d))) \<and> sd_bytes_in_flight (cn_sender (clean d)) = 0 \<and>
       (\<not> cn_linger_after_streams_finish (clean d) \<or>
        time_since_last_segment_received (clean d) \<ge> 10 * unat (cfg_rt_timeout (cn_cfg (clean d)))))" for d
    by (auto simp: clean_eq cn_active_def stream_both_eof_def time_since_last_segment_received_def
        sd_bytes_in_flight_def word_le_nat_alt ten)
  have ex: "\<exists>d. c' = clean d \<and> cn_active d = cn_active c" if "c' = clean d'" "cn_close d' = cn_close c" for d'
    using that by (auto simp: cn_active_def)
  from assms(1) have "\<exists>d. c' = clean d \<and> cn_active d = cn_active c"
  proof (elim disjE exE conjE)
    fix seg
    assume "op = CSegment seg" "\<not> th_rst (sg_header seg)"
    with assms(2) have "c' = clean (c\<lparr>cn_last_recive_time := cn_now_time c,
        cn_receiver := rc_segment_received seg (cn_receiver c),
        cn_linger_after_streams_finish := seg_linger seg c, cn_sender := seg_sender seg (cn_sender c)\<rparr>)"
      by (simp add: cn_segment_received_eq)
    then show ?thesis by (rule ex) simp
  next
    fix ms
    assume "op = CTick ms" "consecutive_retransmissions (cn_sender c) < MAX_RETX_ATTEMPTS"
    with assms(2) show ?thesis
      by (intro ex [of "c\<lparr>cn_now_time := cn_now_time c + word_of_nat ms, cn_sender := sd_tick ms (cn_sender c)\<rparr>"])
        (auto simp: cn_tick_def Let_def)
  next
    fix d
    assume op: "op = CWrite d"
    obtain st k where "bs_write d (sd_stream (cn_sender c)) = (st, k)" by fastforce
    with op assms(2) show ?thesis
      by (intro ex [of "c\<lparr>cn_sender := fill_window ((cn_sender c)\<lparr>sd_stream := st\<rparr>)\<rparr>"]) (auto simp: cn_write_def Let_def)
  next
    assume "op = CConnect"
    with assms(2) show ?thesis
      by (intro ex [of "c\<lparr>cn_sender := fill_window (cn_sender c)\<rparr>"]) (auto simp: cn_connect_def)
  next
    assume "op = CEnd"
    with assms(2) show ?thesis
      by (intro ex [of "c\<lparr>cn_sender := fill_window ((cn_sender c)\<lparr>sd_stream := bs_end_input (sd_stream (cn_sender c))\<rparr>)\<rparr>"])
        (auto simp: cn_end_input_stream_def)
  qed
  then obtain d where "c' = clean d" "cn_active d = cn_active c" by blast
  with cl [of d] show ?thesis by simp
qed

theorem connection_close_condition_witness:
  "cn_active (cn_connect (tcp_connection_new tcp_config_default 5)) \<longleftrightarrow>
   \<not> (bs_input_ended (rc_stream_out (cn_receiver (cn_connect (tcp_connection_new tcp_config_default 5)))) \<and>
      bs_eof (sd_stream (cn_sender (cn_connect (tcp_connection_new tcp_config_default 5)))) \<and>
      sd_bytes_in_flight (cn_sender (cn_connect (tcp_connection_new tcp_config_default 5))) = 0 \<and>
      (\<not> cn_linger_after_streams_finish (cn_connect (tcp_connection_new tcp_config_default 5)) \<or>
       time_since_last_segment_received (cn_connect (tcp_connection_new tcp_config_default 5)) \<ge>
         10 * unat (cfg_rt_timeout (cn_cfg (cn_connect (tcp_connection_new tcp_config_default 5))))))"
proof -
  have "cn_active (tcp_connection_new tcp_config_default 5)" by (simp add: cn_active_def tcp_connection_new_def)
  with connection_close_condition [of CConnect "tcp_connection_new tcp_config_default 5" "[]"] show ?thesis by simp
qed

end
