(* ===== verification/Connection_Link.thy ===== *)
theory Connection_Link
  imports TCP_Connection "HOL-Library.Sublist"
begin

text \<open>
  A \<^verbatim>\<open>TCPConnection\<close> as its users see it: the bytes written to it, the bytes read from its inbound stream, and the segments that go
  in and out.  \<open>link_ok\<close> joins the invariants of sender and receiver; the lemmas show that every operation keeps it.  The theories
  \<open>Sponge_Socket\<close> and \<open>TCP_Pair\<close> build on it.
\<close>

definition cn_inbound_stream :: "tcp_connection \<Rightarrow> byte_stream" where
  "cn_inbound_stream c = rc_stream_out (cn_receiver c)"

definition set_inbound :: "byte_stream \<Rightarrow> tcp_connection \<Rightarrow> tcp_connection" where
  "set_inbound b c =
     c\<lparr>cn_receiver := (cn_receiver c)\<lparr>rc_reassembler := (rc_reassembler (cn_receiver c))\<lparr>sr_outputStream := b\<rparr>\<rparr>\<rparr>"

text \<open>
  \<open>W\<close> is what the owner has written so far, \<open>out\<close> what has been given to it, \<open>S\<close> the stream of the peer with initial sequence
  number \<open>i\<close>; \<open>ended\<close> says that the outbound stream may have ended.
\<close>

definition link_ok :: "bytes \<Rightarrow> wrapping_int32 \<Rightarrow> tcp_connection \<Rightarrow> bytes \<Rightarrow> bytes \<Rightarrow> bool \<Rightarrow> bool" where
  "link_ok S i c W out ended \<longleftrightarrow>
     cn_inv S i (c, W) \<and> rc_inv S i (cn_receiver c, out) \<and> (bs_inputEnd (sd_stream (cn_sender c)) \<longrightarrow> ended)"

text \<open>A segment of the stream \<open>S\<close>, one that occupies no sequence number, or a reset.\<close>

definition incoming :: "bytes \<Rightarrow> wrapping_int32 \<Rightarrow> tcp_segment \<Rightarrow> bool" where
  "incoming S i seg \<longleftrightarrow> th_rst (sg_header seg) \<or> length_in_sequence_space seg = 0 \<or> (\<exists>idx. segment_of S i idx seg)"

lemma rc_inv_set_error: "rc_inv S i (r, out) \<Longrightarrow> rc_inv S i (rc_set_error r, out)"
  using rc_core_set_error [of S i r] by (simp add: rc_inv_def) (simp add: rc_set_error_def rc_stream_out_def bs_set_error_def)

lemma clean_keeps [simp]:
  "cn_receiver (clean c) = cn_receiver c" "sd_stream (cn_sender (clean c)) = sd_stream (cn_sender c)"
  by (simp_all add: clean_eq)

lemma bad_shutdown_keeps [simp]:
  "cn_receiver (bad_shutdown b c) = rc_set_error (cn_receiver c)"
  "bs_inputEnd (sd_stream (cn_sender (bad_shutdown b c))) = bs_inputEnd (sd_stream (cn_sender c))"
  by (simp_all add: bad_shutdown_def Let_def bs_set_error_def)

lemma incoming_allowed:
  assumes "rc_core S i r" "length S < 2147483647" "incoming S i seg" "\<not> th_rst (sg_header seg)"
  shows "rc_allowed S i (r, out) (Segment seg)"
proof (cases "length_in_sequence_space seg = 0")
  case False
  then obtain idx where seg: "segment_of S i idx seg" using assms by (auto simp: incoming_def)
  have "sr_cur_idx (rc_reassembler r) \<le> length S"
    using assms(1) sr_coreD(6) [of S "rc_reassembler r"] by (auto simp: rc_core_def sr_inv_def)
  moreover have "idx \<le> length S" using seg by (auto simp: segment_of_def excerpt_def)
  ultimately have "adist idx (sr_cur_idx (rc_reassembler r)) < 2 ^ 31" using assms(2) by (auto simp: adist_def)
  with seg show ?thesis by (auto simp: rc_allowed_def)
qed (simp add: rc_allowed_def)

lemma link_segment:
  assumes l: "link_ok S i c W out e" and seg: "incoming S i seg" "length S < 2147483647"
  shows "link_ok S i (cn_segment_received seg c) W out e"
proof -
  have inv: "cn_inv S i (c, W)" "rc_inv S i (cn_receiver c, out)" and core: "rc_core S i (cn_receiver c)"
    using l by (auto simp: link_ok_def cn_inv_def)
  show ?thesis
  proof (cases "th_rst (sg_header seg)")
    case True
    have "cn_inv S i (cn_segment_received seg c, W)" using inv True by (intro cn_segment_inv) (simp_all add: cn_allowed_def)
    then show ?thesis using l True rc_inv_set_error by (simp add: link_ok_def cn_segment_received_def Let_def)
  next
    case False
    have al: "rc_allowed S i (cn_receiver c, x) (Segment seg)" for x
      using incoming_allowed [OF core seg(2,1) False] by simp
    have "cn_inv S i (cn_segment_received seg c, W)" using inv al by (intro cn_segment_inv) (simp_all add: cn_allowed_def)
    moreover have "rc_inv S i (rc_segment_received seg (cn_receiver c), out)" using rc_step_inv [OF inv(2) al] by simp
    moreover have "sd_inv W (cn_sender c)" "sd_retrans_num (cn_sender c) \<le> MAX_RETX_ATTEMPTS"
      using inv by (simp_all add: cn_inv_def)
    note seg_sender_inv(3) [OF this, of seg]
    ultimately show ?thesis using l by (simp add: link_ok_def cn_segment_received_eq [OF False])
  qed
qed

lemma link_write:
  assumes l: "link_ok S i c W out False" and d: "length W + length d < 2 ^ 62" "length d \<le> cn_remaining_outbound_capacity c"
    and w: "cn_write d c = (c', n)"
  shows "n = length d" "link_ok S i c' (W @ d) out e"
proof -
  have inv: "cn_inv S i (c, W)" and opn: "\<not> bs_inputEnd (sd_stream (cn_sender c))" using l by (auto simp: link_ok_def)
  obtain st where st: "bs_write d (sd_stream (cn_sender c)) = (st, n)" "c' = clean (c\<lparr>cn_sender := fill_window ((cn_sender c)\<lparr>sd_stream := st\<rparr>)\<rparr>)"
    using w by (auto simp: cn_write_def Let_def split: prod.splits)
  show n: "n = length d" using st(1) d(2) by (auto simp: bs_write_def Let_def cn_remaining_outbound_capacity_def bs_remaining_capacity_def)
  have "cn_inv S i (c', W @ d)" using cn_step_inv [OF inv, of "CWrite d"] opn d(1) w n by (simp add: cn_allowed_def)
  moreover have "bs_inputEnd (sd_stream (cn_sender c')) = bs_inputEnd st"
    using fill_window_stream [OF sd_write_inv [OF _ opn d(1) st(1)]] inv by (simp add: st(2) cn_inv_def)
  moreover have "bs_inputEnd st = bs_inputEnd (sd_stream (cn_sender c))" using st(1) by (auto simp: bs_write_def Let_def)
  ultimately show "link_ok S i c' (W @ d) out e" using l opn by (simp add: link_ok_def st(2))
qed

lemma link_end: "link_ok S i c W out e \<Longrightarrow> link_ok S i (cn_end_input_stream c) W out True"
  using cn_step_inv [of S i "(c, W)" CEnd] by (simp add: link_ok_def cn_allowed_def) (simp add: cn_end_input_stream_def Let_def)

lemma link_tick:
  assumes "link_ok S i c W out e"
  shows "link_ok S i (cn_tick ms c) W out e"
proof -
  have s: "sd_inv W (cn_sender c)" "sd_retrans_num (cn_sender c) < 2 ^ 62"
    using assms by (simp_all add: link_ok_def cn_inv_def MAX_RETX_ATTEMPTS_def)
  show ?thesis using assms cn_tick_inv [of S i c W ms] rc_inv_set_error sd_tick_fields(3) [OF s]
    by (auto simp: link_ok_def cn_tick_def Let_def)
qed

lemma link_connect:
  assumes "link_ok S i c W out e"
  shows "link_ok S i (cn_connect c) W out e"
proof -
  have "sd_inv W (cn_sender c)" using assms by (simp add: link_ok_def cn_inv_def)
  then show ?thesis using assms cn_step_inv [of S i "(c, W)" CConnect] fill_window_stream
    by (simp add: link_ok_def cn_allowed_def) (simp add: cn_connect_def)
qed

lemma link_read:
  assumes l: "link_ok S i c W out e"
  shows "link_ok S i (set_inbound (bs_pop_output n (cn_inbound_stream c)) c) W (out @ bs_peek_output n (cn_inbound_stream c)) e"
proof -
  let ?c = "set_inbound (bs_pop_output n (cn_inbound_stream c)) c"
  have r: "rc_read n (cn_receiver c) = (cn_receiver ?c, bs_peek_output n (cn_inbound_stream c))"
    by (simp add: rc_read_def sr_read_def set_inbound_def cn_inbound_stream_def rc_stream_out_def bs_read_peek)
  have "rc_inv S i (cn_receiver ?c, out @ bs_peek_output n (cn_inbound_stream c))"
    using rc_step_inv [of S i "(cn_receiver c, out)" "ReadOut n"] l r by (simp add: link_ok_def rc_allowed_def)
  moreover have "?c = c\<lparr>cn_receiver := cn_receiver ?c\<rparr>" by (simp add: set_inbound_def)
  then have "cn_inv S i (?c, W)" using cn_step_inv [of S i "(c, W)" "CRead n"] l r by (simp add: link_ok_def cn_allowed_def)
  ultimately show ?thesis using l by (simp add: link_ok_def set_inbound_def)
qed

lemma cn_connect_new:
  "cn_connect (tcp_connection_new cfg rnd) = conn_with cfg rnd (tcp_receiver_new (cfg_recv_capacity cfg))
     (sender_opened (cfg_send_capacity cfg) (cfg_rt_timeout cfg) (cfg_isn cfg rnd) [])
     [stamp (tcp_receiver_new (cfg_recv_capacity cfg)) (syn_segment (cfg_isn cfg rnd))]"
  by (simp add: cn_connect_def tcp_connection_new_conn fill_window_new clean_conn)

subsection \<open>What a segment carries\<close>

text \<open>What a segment says about the byte stream.  The connection stamps acknowledgment number and window on a
  segment and the adapters fill in ports and checksum; none of this changes what it carries.\<close>

definition carries :: "tcp_segment \<Rightarrow> tcp_segment \<Rightarrow> bool" where
  "carries seg seg' \<longleftrightarrow> th_seqno (sg_header seg') = th_seqno (sg_header seg) \<and>
     th_syn (sg_header seg') = th_syn (sg_header seg) \<and> th_fin (sg_header seg') = th_fin (sg_header seg) \<and>
     sg_payload seg' = sg_payload seg"

lemma carries_refl: "carries seg seg"
  by (simp add: carries_def)

lemma sent_segment_of:
  assumes "sent_seg W e isn a seg" "carries seg seg'"
  shows "\<exists>idx \<le> length W. segment_of W isn idx seg'"
proof (cases "th_syn (sg_header seg)")
  case True
  with assms show ?thesis
    by (intro exI [of _ 0]) (simp add: sent_seg_def carries_def segment_of_def excerpt_def chunk_def wrap_alt)
next
  case False
  with assms show ?thesis
    by (intro exI [of _ "a - 1"]) (auto simp: sent_seg_def carries_def segment_of_def excerpt_def)
qed

lemma carries_length: "carries seg seg' \<Longrightarrow> length_in_sequence_space seg' = length_in_sequence_space seg"
  by (simp add: carries_def length_in_sequence_space_def)

end
