(* ===== verification/TCP_Pair.thy ===== *)
theory TCP_Pair
  imports Connection_Link
begin

text \<open>
  Two connections and the network between them.  An endpoint is a connection with what its application has written and
  read and all segments that it has handed to the network.  The step relation lets either side make any call at any time, and lets the
  network deliver any segment that was ever handed to it, in any order and any number of times, or never.
\<close>

record endpoint =
  ep_tcp :: tcp_connection
  ep_wrote :: bytes
  ep_read :: bytes
  ep_net :: "tcp_segment list"

definition endpoint_new :: "tcp_config \<Rightarrow> u32 \<Rightarrow> endpoint" where
  "endpoint_new cfg rnd = \<lparr>ep_tcp = tcp_connection_new cfg rnd, ep_wrote = [], ep_read = [], ep_net = []\<rparr>"

definition ep_isn :: "endpoint \<Rightarrow> wrapping_int32" where
  "ep_isn e = sd_isn (cn_sender (ep_tcp e))"

definition ep_ended :: "endpoint \<Rightarrow> bool" where
  "ep_ended e = bs_inputEnd (sd_stream (cn_sender (ep_tcp e)))"

text \<open>One call: the step of the connection, with what a read returns and what a take removes recorded.\<close>

definition ep_step :: "cn_op \<Rightarrow> endpoint \<Rightarrow> endpoint" where
  "ep_step op e =
     (let (c, W) = cn_step (ep_tcp e, ep_wrote e) op
      in e\<lparr>ep_tcp := c, ep_wrote := W,
           ep_read := ep_read e @ (case op of CRead n \<Rightarrow> snd (rc_read n (cn_receiver (ep_tcp e))) | _ \<Rightarrow> []),
           ep_net := ep_net e @ (case op of CTake \<Rightarrow> cn_segments_out (ep_tcp e) | _ \<Rightarrow> [])\<rparr>)"

text \<open>The calls that do not depend on the network; an application does not write to a stream it has ended.\<close>

definition ep_local :: "cn_op \<Rightarrow> endpoint \<Rightarrow> bool" where
  "ep_local op e =
     (case op of CSegment seg \<Rightarrow> False
      | CWrite d \<Rightarrow> \<not> ep_ended e \<and> length (ep_wrote e) + length d < 2 ^ 62
      | _ \<Rightarrow> True)"

inductive pair_step :: "endpoint \<times> endpoint \<Rightarrow> endpoint \<times> endpoint \<Rightarrow> bool" where
  Local: "ep_local op e \<Longrightarrow> pair_step (e, f) (ep_step op e, f)"
| Deliver: "seg \<in> set (ep_net f) \<Longrightarrow> carries seg seg' \<Longrightarrow> th_rst (sg_header seg) = th_rst (sg_header seg') \<Longrightarrow>
    pair_step (e, f) (ep_step (CSegment seg') e, f)"
| Swap: "pair_step (f, e) (f', e') \<Longrightarrow> pair_step (e, f) (e', f')"

inductive_cases pair_stepE: "pair_step (e, f) (e', f')"

subsection \<open>One step of one side\<close>

text \<open>The initial sequence number never changes, and the end of the stream is set by \<^verbatim>\<open>end_input_stream\<close> only.\<close>

definition sender_tag :: "tcp_sender \<Rightarrow> wrapping_int32 \<times> bool" where
  "sender_tag s = (sd_isn s, bs_inputEnd (sd_stream s))"

lemma sender_tag_update [simp]:
  "sender_tag (s\<lparr>sd_segments_out := a\<rparr>) = sender_tag s" "sender_tag (s\<lparr>sd_next_seqno := b\<rparr>) = sender_tag s"
  "sender_tag (s\<lparr>sd_seg_buffer := c\<rparr>) = sender_tag s" "sender_tag (s\<lparr>sd_fin_ack_index := b\<rparr>) = sender_tag s"
  "sender_tag (s\<lparr>sd_cur_ack_index := b\<rparr>) = sender_tag s" "sender_tag (s\<lparr>sd_wd_right_edge := b\<rparr>) = sender_tag s"
  "sender_tag (s\<lparr>sd_RTO := b\<rparr>) = sender_tag s" "sender_tag (s\<lparr>sd_retrans_num := b\<rparr>) = sender_tag s"
  "sender_tag (s\<lparr>sd_timer := t\<rparr>) = sender_tag s"
  "sender_tag (s\<lparr>sd_stream := bs_set_error (sd_stream s)\<rparr>) = sender_tag s"
  "sender_tag (s\<lparr>sd_stream := fst (bs_read n (sd_stream s))\<rparr>) = sender_tag s"
  "sender_tag (s\<lparr>sd_stream := fst (bs_write d (sd_stream s))\<rparr>) = sender_tag s"
  by (simp_all add: sender_tag_def bs_set_error_def bs_read_def bs_write_def Let_def)

lemma sender_tag_send [simp]:
  "sender_tag (send_new_seg seg s) = sender_tag s" "sender_tag (send_empty_ack s) = sender_tag s"
  by (simp_all add: send_new_seg_def send_empty_ack_def Let_def)

lemma sender_tag_split [simp]: "sender_tag (snd (split_loop i d s)) = sender_tag s"
  by (induction i d s rule: split_loop.induct) (subst split_loop.simps, simp)

lemma sender_tag_fill [simp]: "sender_tag (fill_window s) = sender_tag s"
  by (simp add: fill_window_def Let_def case_prod_beta)

lemma sender_tag_ack [simp]: "sender_tag (ack_received a w s) = sender_tag s"
  by (simp add: ack_received_def Let_def split: prod.split)

lemma sender_tag_tick [simp]: "sender_tag (sd_tick ms s) = sender_tag s"
  by (simp add: sd_tick_def Let_def split: list.split)

lemma sender_tag_connection [simp]:
  "sender_tag (cn_sender (clean c)) = sender_tag (cn_sender c)"
  "sender_tag (cn_sender (bad_shutdown b c)) = sender_tag (cn_sender c)"
  by (simp_all add: clean_eq bad_shutdown_def Let_def)

lemma cn_segment_received_rst:
  "th_rst (sg_header seg) \<Longrightarrow> cn_segment_received seg c = bad_shutdown False (c\<lparr>cn_last_recive_time := cn_now_time c\<rparr>)"
  by (simp add: cn_segment_received_def)

lemma cn_step_sender:
  assumes "cn_step (c, W) op = (c', W')"
  shows "sender_tag (cn_sender c') =
    (sd_isn (cn_sender c), bs_inputEnd (sd_stream (cn_sender c)) \<or> op = CEnd)"
proof (cases op)
  case (CWrite d)
  have "sender_tag (cn_sender (fst (cn_write d c))) = sender_tag (cn_sender c)"
    by (simp add: cn_write_def Let_def case_prod_beta)
  then show ?thesis using CWrite assms by (auto simp: sender_tag_def split: prod.splits)
next
  case (CSegment seg)
  have "sender_tag (cn_sender (cn_segment_received seg c)) = sender_tag (cn_sender c)"
    by (cases "th_rst (sg_header seg)") (simp_all add: cn_segment_received_rst cn_segment_received_eq seg_sender_def Let_def)
  then show ?thesis using CSegment assms by (auto simp: sender_tag_def)
next
  case (CTick ms)
  have "sender_tag (cn_sender (cn_tick ms c)) = sender_tag (cn_sender c)" by (simp add: cn_tick_def Let_def)
  then show ?thesis using CTick assms by (auto simp: sender_tag_def)
next
  case CEnd
  then show ?thesis using assms by (auto simp: cn_end_input_stream_def Let_def) (simp add: sender_tag_def bs_end_input_def)
next
  case CDestroy
  then show ?thesis using assms by (auto simp: cn_destroy_def) (simp_all add: sender_tag_def)
next
  case CConnect
  then show ?thesis using assms by (auto simp: cn_connect_def) (simp add: sender_tag_def)
qed (use assms in \<open>auto simp: sender_tag_def split: prod.splits\<close>)

text \<open>What was written only grows, and not once the stream has ended.\<close>

lemma cn_step_wrote:
  assumes "cn_step (c, W) op = (c', W')"
  shows "prefix W W'" "(\<forall>d. op \<noteq> CWrite d) \<Longrightarrow> W' = W"
  using assms by (cases op; auto split: prod.splits)+

text \<open>The receiver's part.\<close>

lemma cn_step_receiver:
  assumes inv: "rc_inv S i (cn_receiver c, out)" and al: "cn_allowed S i (c, W) op"
    and seg: "\<forall>seg. op = CSegment seg \<longrightarrow> incoming S i seg" "length S < 2147483647"
    and run: "cn_step (c, W) op = (c', W')"
  shows "rc_inv S i (cn_receiver c', out @ (case op of CRead n \<Rightarrow> snd (rc_read n (cn_receiver c)) | _ \<Rightarrow> []))"
proof (cases op)
  case (CSegment seg)
  have core: "rc_core S i (cn_receiver c)" using inv by (simp add: rc_inv_def)
  show ?thesis
  proof (cases "th_rst (sg_header seg)")
    case True
    then show ?thesis using CSegment run inv rc_inv_set_error by (auto simp: cn_segment_received_def Let_def)
  next
    case False
    then have "rc_allowed S i (cn_receiver c, out) (Segment seg)" using seg CSegment incoming_allowed [OF core] by blast
    from rc_step_inv [OF inv this] show ?thesis using CSegment run False by (auto simp: cn_segment_received_eq)
  qed
next
  case (CRead n)
  obtain r d where r: "rc_read n (cn_receiver c) = (r, d)" by fastforce
  have "rc_inv S i (rc_step (cn_receiver c, out) (ReadOut n))" by (rule rc_step_inv [OF inv]) (simp add: rc_allowed_def)
  then show ?thesis using CRead run r by auto
next
  case (CWrite d)
  then show ?thesis using run inv by (auto simp: cn_write_def Let_def split: prod.splits)
next
  case (CTick ms)
  then show ?thesis using run inv rc_inv_set_error by (auto simp: cn_tick_def Let_def)
next
  case CDestroy
  then show ?thesis using run inv rc_inv_set_error by (auto simp: cn_destroy_def)
qed (use run inv in \<open>auto simp: cn_connect_def cn_end_input_stream_def Let_def\<close>)

subsection \<open>The invariant\<close>

text \<open>
  \<open>T\<close> is all that this side will have written in the end, \<open>S\<close> the same of the other side, with initial sequence number \<open>i\<close>.
\<close>

definition ep_inv :: "bytes \<Rightarrow> wrapping_int32 \<Rightarrow> bytes \<Rightarrow> endpoint \<Rightarrow> bool" where
  "ep_inv S i T e \<longleftrightarrow>
     cn_inv S i (ep_tcp e, ep_wrote e) \<and> rc_inv S i (cn_receiver (ep_tcp e), ep_read e) \<and>
     prefix (ep_wrote e) T \<and> (ep_ended e \<longrightarrow> ep_wrote e = T) \<and>
     (\<forall>seg \<in> set (ep_net e). th_rst (sg_header seg) \<or> emitted_ok (ep_wrote e) (ep_ended e) (ep_isn e) seg)"

lemma ep_step_fields:
  "ep_isn (ep_step op e) = ep_isn e" "ep_ended (ep_step op e) = (ep_ended e \<or> op = CEnd)"
  "prefix (ep_wrote e) (ep_wrote (ep_step op e))" "ep_local op e \<Longrightarrow> ep_ended e \<Longrightarrow> ep_wrote (ep_step op e) = ep_wrote e"
proof -
  obtain c W where r: "cn_step (ep_tcp e, ep_wrote e) op = (c, W)" by fastforce
  from cn_step_sender [OF r] r show "ep_isn (ep_step op e) = ep_isn e" "ep_ended (ep_step op e) = (ep_ended e \<or> op = CEnd)"
    by (simp_all add: ep_step_def ep_isn_def ep_ended_def sender_tag_def)
  from cn_step_wrote [OF r] r show "prefix (ep_wrote e) (ep_wrote (ep_step op e))" by (simp add: ep_step_def)
  show "ep_wrote (ep_step op e) = ep_wrote e" if "ep_local op e" "ep_ended e"
    using cn_step_wrote(2) [OF r] r that by (cases op) (simp_all add: ep_step_def ep_local_def)
qed

lemma ep_step_segment [simp]: "ep_wrote (ep_step (CSegment seg) e) = ep_wrote e"
  by (simp add: ep_step_def)

lemma emitted_ok_mono:
  "emitted_ok W e isn seg \<Longrightarrow> prefix W W' \<Longrightarrow> (e \<Longrightarrow> e' \<and> W' = W) \<Longrightarrow> emitted_ok W' e' isn seg"
  by (cases e) (auto simp: prefix_def intro: emitted_ok_write)

lemma ep_allowed:
  assumes inv: "ep_inv S i T e" and op: "ep_local op e \<or> (\<exists>seg. op = CSegment seg \<and> incoming S i seg)" and len: "length S < 2147483647"
  shows "cn_allowed S i (ep_tcp e, ep_wrote e) op"
proof (cases "\<exists>seg. op = CSegment seg")
  case True
  then obtain seg where seg: "op = CSegment seg" "incoming S i seg" using op by (auto simp: ep_local_def)
  have "rc_core S i (cn_receiver (ep_tcp e))" using inv by (simp add: ep_inv_def cn_inv_def)
  then show ?thesis using incoming_allowed [OF _ len seg(2)] seg(1) by (auto simp: cn_allowed_def)
next
  case False
  then show ?thesis using op by (auto simp: ep_local_def cn_allowed_def ep_ended_def split: cn_op.splits)
qed

lemma ep_step_inv:
  assumes inv: "ep_inv S i T e" and op: "ep_local op e \<or> (\<exists>seg. op = CSegment seg \<and> incoming S i seg)" and len: "length S < 2147483647"
    and T: "prefix (ep_wrote (ep_step op e)) T" "ep_ended (ep_step op e) \<longrightarrow> ep_wrote (ep_step op e) = T"
  shows "ep_inv S i T (ep_step op e)"
proof -
  obtain c W where r: "cn_step (ep_tcp e, ep_wrote e) op = (c, W)" by fastforce
  let ?e = "ep_step op e"
  have tcp: "ep_tcp ?e = c" "ep_wrote ?e = W" using r by (simp_all add: ep_step_def)
  have al: "cn_allowed S i (ep_tcp e, ep_wrote e) op" by (rule ep_allowed [OF inv op len])
  have cn: "cn_inv S i (c, W)" using cn_step_inv [OF _ al] inv r by (simp add: ep_inv_def)
  have rc: "rc_inv S i (cn_receiver c, ep_read ?e)"
  proof -
    have "\<forall>seg. op = CSegment seg \<longrightarrow> incoming S i seg" using op by (auto simp: ep_local_def)
    then show ?thesis using cn_step_receiver [OF _ al _ len r, of "ep_read e"] inv r by (simp add: ep_inv_def ep_step_def)
  qed
  have mono: "ep_ended ?e \<and> W = ep_wrote e" if "ep_ended e"
    using ep_step_fields(2,4) [where op = op and e = e] that op tcp by auto
  have "th_rst (sg_header seg) \<or> emitted_ok W (ep_ended ?e) (ep_isn ?e) seg" if "seg \<in> set (ep_net ?e)" for seg
  proof -
    have "seg \<in> set (ep_net e) \<or> seg \<in> set (cn_segments_out (ep_tcp e))"
      using that r by (auto simp: ep_step_def split: cn_op.splits)
    then have "th_rst (sg_header seg) \<or> emitted_ok (ep_wrote e) (ep_ended e) (ep_isn e) seg"
      using inv by (auto simp: ep_inv_def cn_inv_def ep_ended_def ep_isn_def)
    then show ?thesis using emitted_ok_mono [OF _ _ mono] ep_step_fields(1,3) [where op = op and e = e] tcp by auto
  qed
  then show ?thesis using cn rc T tcp by (simp add: ep_inv_def)
qed

lemma ep_net_incoming:
  assumes inv: "ep_inv S i T e" and seg: "seg \<in> set (ep_net e)" "carries seg seg'" "th_rst (sg_header seg) = th_rst (sg_header seg')"
  shows "incoming T (ep_isn e) seg'"
proof -
  have "th_rst (sg_header seg) \<or> emitted_ok (ep_wrote e) (ep_ended e) (ep_isn e) seg" using inv seg(1) by (simp add: ep_inv_def)
  then have "th_rst (sg_header seg) \<or> emitted_ok T True (ep_isn e) seg"
    using inv emitted_ok_mono [of "ep_wrote e" "ep_ended e" "ep_isn e" seg T True] by (auto simp: ep_inv_def)
  then show ?thesis
    using seg(3) sent_segment_of [OF _ seg(2)] carries_length [OF seg(2)] unfolding incoming_def emitted_ok_def by metis
qed

subsection \<open>Both sides\<close>

definition pair_inv :: "bytes \<Rightarrow> wrapping_int32 \<Rightarrow> bytes \<Rightarrow> wrapping_int32 \<Rightarrow> endpoint \<times> endpoint \<Rightarrow> bool" where
  "pair_inv S i T j p \<longleftrightarrow>
     ep_isn (fst p) = i \<and> ep_isn (snd p) = j \<and> ep_inv T j S (fst p) \<and> ep_inv S i T (snd p)"

text \<open>Later states have written more, and nothing more once they have ended.\<close>

definition pair_le :: "endpoint \<times> endpoint \<Rightarrow> endpoint \<times> endpoint \<Rightarrow> bool" where
  "pair_le p q \<longleftrightarrow>
     (\<forall>g \<in> {fst, snd}. prefix (ep_wrote (g p)) (ep_wrote (g q)) \<and>
        (ep_ended (g p) \<longrightarrow> ep_ended (g q) \<and> ep_wrote (g q) = ep_wrote (g p)))"

lemma pair_step_le: "pair_step p q \<Longrightarrow> pair_le p q"
proof (induction rule: pair_step.induct)
  case (Local op e f)
  then show ?case using ep_step_fields [where op = op and e = e] by (simp add: pair_le_def)
next
  case (Deliver seg f seg' e)
  then show ?case using ep_step_fields [where op = "CSegment seg'" and e = e] by (simp add: pair_le_def)
qed (simp add: pair_le_def)

lemma pair_le_trans: "pair_le p q \<Longrightarrow> pair_le q r \<Longrightarrow> pair_le p r"
  unfolding pair_le_def by (auto intro: prefix_order.trans)

lemma pair_steps_le: "pair_step\<^sup>*\<^sup>* p q \<Longrightarrow> pair_le p q"
proof (induction rule: rtranclp_induct)
  case (step q r)
  then show ?case using pair_le_trans pair_step_le by blast
qed (simp add: pair_le_def)

lemma pair_step_inv:
  assumes "pair_step p q" "pair_inv S i T j p" "length S < 2147483647" "length T < 2147483647"
    and "prefix (ep_wrote (fst q)) S" "ep_ended (fst q) \<longrightarrow> ep_wrote (fst q) = S"
    and "prefix (ep_wrote (snd q)) T" "ep_ended (snd q) \<longrightarrow> ep_wrote (snd q) = T"
  shows "pair_inv S i T j q"
  using assms
proof (induction arbitrary: S i T j rule: pair_step.induct)
  case (Local op e f)
  then show ?case using ep_step_inv [of T j S e op] ep_step_fields(1) [where op = op and e = e] by (simp add: pair_inv_def)
next
  case (Deliver seg f seg' e)
  then have "incoming T j seg'" using ep_net_incoming [of S i T f seg seg'] by (auto simp: pair_inv_def)
  then show ?case using Deliver ep_step_inv [of T j S e "CSegment seg'"] ep_step_fields(1) [where op = "CSegment seg'" and e = e]
    by (simp add: pair_inv_def)
next
  case (Swap f e f' e')
  then show ?case using Swap.IH [of T j S i] by (simp add: pair_inv_def)
qed

text \<open>A run, seen from its end: \<open>S\<close> and \<open>T\<close> are any streams that continue what has been written in the last state.\<close>

definition continues :: "bytes \<Rightarrow> endpoint \<Rightarrow> bool" where
  "continues S e \<longleftrightarrow> prefix (ep_wrote e) S \<and> (ep_ended e \<longrightarrow> ep_wrote e = S)"

lemma pair_le_continues:
  assumes "pair_le p q"
  shows "continues S (fst q) \<Longrightarrow> continues S (fst p)" "continues T (snd q) \<Longrightarrow> continues T (snd p)"
  using assms unfolding pair_le_def continues_def by (auto intro: prefix_order.trans)

lemma pair_steps_inv:
  assumes "pair_step\<^sup>*\<^sup>* p q" "pair_inv S i T j p" "length S < 2147483647" "length T < 2147483647"
    and "continues S (fst q)" "continues T (snd q)"
  shows "pair_inv S i T j q"
  using assms
proof (induction rule: rtranclp_induct)
  case (step q r)
  have "pair_inv S i T j q" using step pair_le_continues [OF pair_step_le [OF step.hyps(2)]] by blast
  then show ?case using pair_step_inv [OF step.hyps(2)] step.prems by (simp add: continues_def)
qed blast

subsection \<open>From one application to the other\<close>

definition cfg_ok :: "tcp_config \<Rightarrow> bool" where
  "cfg_ok cfg \<longleftrightarrow> 0 < cfg_recv_capacity cfg \<and> cfg_recv_capacity cfg < 2 ^ 63 \<and> cfg_send_capacity cfg < U64"

lemma endpoint_new_inv:
  assumes "cfg_ok cfg" "length S < 2147483647"
  shows "ep_inv S i T (endpoint_new cfg rnd)"
proof -
  have "cn_start S (tcp_connection_new cfg rnd, [])"
    using assms by (auto simp: cn_start_def cfg_ok_def)
  then have cn: "cn_inv S i (tcp_connection_new cfg rnd, [])" by (rule cn_start_inv)
  then have "rc_core S i (tcp_receiver_new (cfg_recv_capacity cfg))" by (simp add: cn_inv_def tcp_connection_new_def)
  then show ?thesis using cn
    by (simp add: ep_inv_def endpoint_new_def rc_inv_def ep_ended_def tcp_connection_new_def tcp_sender_new_def tcp_receiver_new_def
        rc_stream_out_def sr_new_def bs_new_def)
qed

lemma connections_run:
  assumes "pair_step\<^sup>*\<^sup>* (endpoint_new cx rx, endpoint_new cy ry) (x, y)" "cfg_ok cx" "cfg_ok cy"
    and "continues S x" "continues T y" "length S < 2147483647" "length T < 2147483647"
  shows "ep_inv T (ep_isn y) S x" "ep_inv S (ep_isn x) T y"
proof -
  let ?p = "(endpoint_new cx rx, endpoint_new cy ry)"
  have "pair_inv S (ep_isn (fst ?p)) T (ep_isn (snd ?p)) ?p"
    using endpoint_new_inv assms(2,3,6,7) by (simp add: pair_inv_def)
  from pair_steps_inv [OF assms(1) this assms(6,7)] assms(4,5)
  show "ep_inv T (ep_isn y) S x" "ep_inv S (ep_isn x) T y" by (auto simp: pair_inv_def)
qed

lemma ep_inv_delivered:
  assumes "ep_inv S i T y"
  shows "ep_read y @ bs_buffer (cn_inbound_stream (ep_tcp y)) = take (sr_cur_idx (rc_reassembler (cn_receiver (ep_tcp y)))) S"
    "bs_input_ended (cn_inbound_stream (ep_tcp y)) \<Longrightarrow> ep_read y @ bs_buffer (cn_inbound_stream (ep_tcp y)) = S"
proof -
  have "sr_inv S (rc_reassembler (cn_receiver (ep_tcp y)))" using assms by (simp add: ep_inv_def rc_inv_def rc_core_def)
  from sr_ended_iff [OF this] assms
  show "ep_read y @ bs_buffer (cn_inbound_stream (ep_tcp y)) = take (sr_cur_idx (rc_reassembler (cn_receiver (ep_tcp y)))) S"
    "bs_input_ended (cn_inbound_stream (ep_tcp y)) \<Longrightarrow> ep_read y @ bs_buffer (cn_inbound_stream (ep_tcp y)) = S"
    by (auto simp: ep_inv_def rc_inv_def cn_inbound_stream_def rc_stream_out_def)
qed

lemma two_connections:
  assumes run: "pair_step\<^sup>*\<^sup>* (endpoint_new cx rx, endpoint_new cy ry) (x, y)" and cfg: "cfg_ok cx" "cfg_ok cy"
    and len: "length (ep_wrote x) < 2 ^ 31 - 2" "length (ep_wrote y) < 2 ^ 31 - 1"
  shows "prefix (ep_read y @ bs_buffer (cn_inbound_stream (ep_tcp y))) (ep_wrote x) \<and>
    (bs_input_ended (cn_inbound_stream (ep_tcp y)) \<longrightarrow>
       ep_ended x \<and> ep_read y @ bs_buffer (cn_inbound_stream (ep_tcp y)) = ep_wrote x)"
proof -
  let ?out = "ep_read y @ bs_buffer (cn_inbound_stream (ep_tcp y))"
  have y: "continues (ep_wrote y) y" by (simp add: continues_def)
  have inv: "ep_inv S (ep_isn x) (ep_wrote y) y" if "continues S x" "length S < 2147483647" for S
    using connections_run(2) [OF run cfg that(1) y that(2)] len(2) by simp
  note own = ep_inv_delivered [OF inv [of "ep_wrote x"]]
  have "prefix ?out (ep_wrote x)" using own(1) len(1) take_is_prefix by (auto simp: continues_def)
  moreover have "ep_ended x" if ended: "bs_input_ended (cn_inbound_stream (ep_tcp y))"
  proof (rule ccontr)
    assume "\<not> ep_ended x"
    then have "?out = ep_wrote x @ [b]" for b
      using ep_inv_delivered(2) [OF inv [of "ep_wrote x @ [b]"] ended] len(1) by (simp add: continues_def)
    from this [of 0] this [of 1] show False by simp
  qed
  moreover have "?out = ep_wrote x" if "bs_input_ended (cn_inbound_stream (ep_tcp y))"
    using own(2) that len(1) by (simp add: continues_def)
  ultimately show ?thesis by blast
qed

lemma two_connections_buffer:
  assumes run: "pair_step\<^sup>*\<^sup>* (endpoint_new cx rx, endpoint_new cy ry) (x, y)" and cfg: "cfg_ok cx" "cfg_ok cy"
    and len: "length (ep_wrote x) < 2 ^ 31 - 2" "length (ep_wrote y) < 2 ^ 31 - 1"
  shows "bs_size (cn_inbound_stream (ep_tcp y)) = length (bs_buffer (cn_inbound_stream (ep_tcp y)))"
proof -
  have "ep_inv (ep_wrote x) (ep_isn x) (ep_wrote y) y"
    using connections_run(2) [OF run cfg, of "ep_wrote x" "ep_wrote y"] len by (simp add: continues_def)
  then have "sr_inv (ep_wrote x) (rc_reassembler (cn_receiver (ep_tcp y)))" by (simp add: ep_inv_def rc_inv_def rc_core_def)
  then show ?thesis using sr_coreD [of "ep_wrote x" "rc_reassembler (cn_receiver (ep_tcp y))"]
    by (auto simp: sr_inv_def cn_inbound_stream_def rc_stream_out_def bs_inv_def)
qed

text \<open>C1. Two connections, whatever calls both applications make and in whatever order, and whatever the network loses, repeats and
  reorders: what one application has read, followed by what it can still read, is a prefix of what the other has written; and
  when the inbound stream is reported ended, the other has ended its stream and all of it has arrived.\<close>

theorem connections_integrity:
  assumes run: "pair_step\<^sup>*\<^sup>* (endpoint_new cx rx, endpoint_new cy ry) (x, y)" and cfg: "cfg_ok cx" "cfg_ok cy"
    and len: "length (ep_wrote x) < 2 ^ 31 - 2" "length (ep_wrote y) < 2 ^ 31 - 1"
  shows "prefix (ep_read y @ bs_buffer (cn_inbound_stream (ep_tcp y))) (ep_wrote x) \<and>
    (bs_input_ended (cn_inbound_stream (ep_tcp y)) \<longrightarrow>
       ep_ended x \<and> ep_read y @ bs_buffer (cn_inbound_stream (ep_tcp y)) = ep_wrote x)"
  by (rule two_connections [OF assms])

theorem connections_integrity_witness:
  "\<exists>x y. pair_step\<^sup>*\<^sup>* (endpoint_new tcp_config_default 7, endpoint_new tcp_config_default 9) (x, y) \<and> ep_net x \<noteq> [] \<and>
     prefix (ep_read y @ bs_buffer (cn_inbound_stream (ep_tcp y))) (ep_wrote x)"
proof -
  let ?a = "endpoint_new tcp_config_default 7" and ?b = "endpoint_new tcp_config_default 9"
  let ?x = "ep_step CTake (ep_step CConnect ?a)"
  have cfg: "cfg_ok tcp_config_default" by (simp add: cfg_ok_def tcp_config_default_def DEFAULT_CAPACITY_def)
  obtain seg where net: "ep_net ?x = [seg]" and w: "ep_wrote ?x = []"
    by (simp add: ep_step_def endpoint_new_def cn_connect_new)
  let ?y = "ep_step (CSegment seg) ?b"
  have "pair_step (?a, ?b) (ep_step CConnect ?a, ?b)" "pair_step (ep_step CConnect ?a, ?b) (?x, ?b)"
    by (rule pair_step.Local, simp add: ep_local_def)+
  moreover have "pair_step (?x, ?b) (?x, ?y)"
    by (rule pair_step.Swap, rule pair_step.Deliver [of seg]) (simp_all add: net carries_refl)
  ultimately have run: "pair_step\<^sup>*\<^sup>* (?a, ?b) (?x, ?y)" by (meson r_into_rtranclp rtranclp_trans)
  have "ep_wrote ?y = []" by (simp add: endpoint_new_def)
  with connections_integrity [OF run cfg cfg] w run net show ?thesis by fastforce
qed

end
