(* ===== verification/Number_Text.thy ===== *)
theory Number_Text
  imports Sponge_Prelude
begin

text \<open>
  Numbers as text, as the C++ library writes and reads them: \<^verbatim>\<open>std::to_string\<close>, \<^verbatim>\<open>std::stoi\<close>, and \<^verbatim>\<open>operator<<\<close> on streams in
  hexadecimal, with a width and a fill character.
\<close>

text \<open>\<^verbatim>\<open>std::to_string\<close> on unsigned numbers and \<^verbatim>\<open>std::stoi\<close>.\<close>

definition digit_char :: "nat \<Rightarrow> char" where
  "digit_char d = char_of (48 + d)"

fun to_string :: "nat \<Rightarrow> string" where
  "to_string n = (if n < 10 then [digit_char n] else to_string (n div 10) @ [digit_char (n mod 10)])"

declare to_string.simps [simp del]

definition is_digit :: "char \<Rightarrow> bool" where
  "is_digit c \<longleftrightarrow> 48 \<le> (of_char c :: nat) \<and> (of_char c :: nat) \<le> 57"

definition digits_value :: "string \<Rightarrow> nat" where
  "digits_value s = foldl (\<lambda>n c. 10 * n + (of_char c - 48)) 0 s"

definition is_space :: "char \<Rightarrow> bool" where
  "is_space c \<longleftrightarrow> (of_char c :: nat) \<in> {9, 10, 11, 12, 13, 32}"

definition stoi :: "string \<Rightarrow> exn + int" where
  "stoi s =
     (let s = dropWhile is_space s;
          neg = (s \<noteq> [] \<and> hd s = CHR ''-'');
          s = (if neg \<or> s \<noteq> [] \<and> hd s = CHR ''+'' then tl s else s);
          ds = takeWhile is_digit s;
          v = (if neg then - int (digits_value ds) else int (digits_value ds))
      in if ds = [] then Inl (Invalid_argument ''stoi'')
         else if v < - (2 ^ 31) \<or> v \<ge> 2 ^ 31 then Inl (Out_of_range ''stoi'')
         else Inr v)"

definition int_to_string :: "int \<Rightarrow> string" where
  "int_to_string n = (if n < 0 then CHR ''-'' # to_string (nat (- n)) else to_string (nat n))"

text \<open>\<^verbatim>\<open>std::hex\<close>, \<^verbatim>\<open>std::setw\<close> with \<^verbatim>\<open>std::setfill\<close>, and \<^verbatim>\<open>std::boolalpha\<close>.\<close>

definition hex_char :: "nat \<Rightarrow> char" where
  "hex_char d = char_of (if d < 10 then 48 + d else 87 + d)"

fun to_hex :: "nat \<Rightarrow> string" where
  "to_hex n = (if n < 16 then [hex_char n] else to_hex (n div 16) @ [hex_char (n mod 16)])"

declare to_hex.simps [simp del]

definition setw :: "nat \<Rightarrow> char \<Rightarrow> string \<Rightarrow> string" where
  "setw n fill s = replicate (n - length s) fill @ s"

lemma digit_chars:
  "digit_char 0 = CHR ''0''" "digit_char 1 = CHR ''1''" "digit_char (Suc 0) = CHR ''1''" "digit_char 2 = CHR ''2''"
  "digit_char 3 = CHR ''3''" "digit_char 4 = CHR ''4''" "digit_char 5 = CHR ''5''" "digit_char 6 = CHR ''6''"
  "digit_char 7 = CHR ''7''" "digit_char 8 = CHR ''8''" "digit_char 9 = CHR ''9''"
  by (simp_all add: digit_char_def char_of_def bit_0)

text \<open>Decimal numbers: what \<^verbatim>\<open>std::to_string\<close> writes consists of digits and has the value it came from.\<close>

lemma of_char_digit: "d < 10 \<Longrightarrow> (of_char (digit_char d) :: nat) = 48 + d"
  by (simp add: digit_char_def)

lemma to_string_digits: "\<forall>c \<in> set (to_string n). is_digit c"
proof (induction n rule: to_string.induct)
  case (1 n)
  have "is_digit (digit_char d)" if "d < 10" for d using that by (simp add: is_digit_def of_char_digit)
  with 1 show ?case by (subst to_string.simps) auto
qed

lemma to_string_Nil [simp]: "to_string n \<noteq> []"
  by (subst to_string.simps) simp

lemma digits_value_to_string [simp]: "digits_value (to_string n) = n"
proof (induction n rule: to_string.induct)
  case (1 n)
  then show ?case
    by (cases "n < 10"; subst to_string.simps) (simp_all add: digits_value_def of_char_digit)
qed

lemma to_string_inject [simp]: "to_string m = to_string n \<longleftrightarrow> m = n"
  by (metis digits_value_to_string)

lemma stoi_to_string:
  assumes "n < 2 ^ 31"
  shows "stoi (to_string n) = Inr (int n)"
proof -
  obtain c r where cr: "to_string n = c # r" by (cases "to_string n") simp_all
  then have c: "is_digit c" using to_string_digits [of n] by simp
  then have "\<not> is_space c" "c \<noteq> CHR ''-''" "c \<noteq> CHR ''+''" by (auto simp: is_digit_def is_space_def)
  moreover have tw: "takeWhile is_digit r = r"
    using to_string_digits [of n] by (simp add: cr)
  moreover have "digits_value (c # r) = n" using digits_value_to_string [of n] by (simp add: cr)
  ultimately show ?thesis
    using assms c by (simp add: stoi_def cr Let_def tw)
qed

lemma int_to_string_inject: "int_to_string m = int_to_string n \<longleftrightarrow> m = n"
proof -
  have "CHR ''-'' \<noteq> hd (to_string k)" for k
    using to_string_digits [of k] by (cases "to_string k") (auto simp: is_digit_def)
  then have "CHR ''-'' # s \<noteq> to_string k" "to_string k \<noteq> CHR ''-'' # s" for s k by (metis list.sel(1))+
  then show ?thesis by (auto simp: int_to_string_def)
qed

text \<open>Hexadecimal numbers are read back, whatever zeros are in front.\<close>

definition hex_value :: "string \<Rightarrow> nat" where
  "hex_value s = foldl (\<lambda>n c. 16 * n + (if of_char c < (58 :: nat) then of_char c - 48 else of_char c - 87)) 0 s"

lemma of_char_hex: "d < 16 \<Longrightarrow> (of_char (hex_char d) :: nat) = (if d < 10 then 48 + d else 87 + d)"
  by (simp add: hex_char_def)

lemma hex_value_to_hex [simp]: "hex_value (to_hex n) = n"
proof (induction n rule: to_hex.induct)
  case (1 n)
  then show ?case by (cases "n < 16"; subst to_hex.simps) (auto simp: hex_value_def of_char_hex)
qed

lemma hex_value_setw [simp]: "hex_value (setw w CHR ''0'' s) = hex_value s"
proof -
  have "hex_value (replicate m CHR ''0'' @ s) = hex_value s" for m by (induction m) (simp_all add: hex_value_def)
  then show ?thesis by (simp add: setw_def)
qed

lemma to_hex_length: "0 < k \<Longrightarrow> n < 16 ^ k \<Longrightarrow> length (to_hex n) \<le> k"
proof (induction n arbitrary: k rule: to_hex.induct)
  case (1 n)
  show ?case
  proof (cases "n < 16")
    case False
    then obtain j where k: "k = Suc j" "0 < j" using 1(2,3) by (cases k; cases "k - 1") auto
    then have "n div 16 < 16 ^ j" using 1(3) by (simp add: div_less_iff_less_mult)
    then show ?thesis using 1(1) [OF False k(2)] False k by (subst to_hex.simps) simp
  qed (use 1(2) in \<open>subst to_hex.simps; simp\<close>)
qed

lemma setw_length: "length s \<le> n \<Longrightarrow> length (setw n c s) = n"
  by (simp add: setw_def)

end
