(* ===== verification/TCP_Benchmark.thy ===== *)
theory TCP_Benchmark
  imports TCP_Pair Number_Text
begin

text \<open>
  \<^verbatim>\<open>apps/tcp_benchmark.cc\<close>: a client \<^verbatim>\<open>x\<close> sends a string to a server \<^verbatim>\<open>y\<close> over a network in the program that delivers every segment,
  in order or in reverse order.  The string is a parameter, as are the random numbers for the initial sequence numbers; the clock and the
  report of the throughput are left out.
\<close>

definition bench_len :: nat where
  "bench_len = 100 * 1024 * 1024"

text \<open>Taking all segments of one side and giving them to the other.\<close>

fun take_segments :: "tcp_segment list \<Rightarrow> tcp_segment list \<Rightarrow> tcp_segment list" where
  "take_segments [] segments = segments"
| "take_segments (seg # segs) segments = take_segments segs (segments @ [seg])"

definition move_segments :: "bool \<Rightarrow> tcp_segment list \<Rightarrow> tcp_connection \<times> tcp_connection \<Rightarrow> tcp_segment list \<times> tcp_connection \<times> tcp_connection" where
  "move_segments reorder segments xy =
     (let (x, y) = xy;
          segments = take_segments (cn_segments_out x) segments;
          x = x\<lparr>cn_segments_out := []\<rparr>;
          y = foldl (\<lambda>y seg. cn_segment_received seg y) y (if reorder then rev segments else segments)
      in ([], x, y))"

record bench =
  bn_x :: tcp_connection
  bn_y :: tcp_connection
  bn_to_send :: bytes
  bn_x_closed :: bool
  bn_received :: bytes

text \<open>The loop that writes into \<^verbatim>\<open>x\<close>.\<close>

function write_input :: "bytes \<Rightarrow> tcp_connection \<Rightarrow> (bytes \<times> tcp_connection) \<times> (exn + unit)" where
  "write_input bytes_to_send x =
     (if length bytes_to_send \<noteq> 0 \<and> cn_remaining_outbound_capacity x \<noteq> 0
      then (let want = min (cn_remaining_outbound_capacity x) (length bytes_to_send);
                (x', written) = cn_write (take want bytes_to_send) x
            in if want \<noteq> written
               then ((bytes_to_send, x'), Inl (Runtime_error (''want = '' @ to_string want @ '', written = '' @ to_string written)))
               else write_input (drop written bytes_to_send) x')
      else ((bytes_to_send, x), Inr ()))"
  by pat_completeness auto
termination
  by (relation "measure (\<lambda>(d, x). length d)") auto

declare write_input.simps [simp del]

text \<open>One round.\<close>

definition bench_round :: "bool \<Rightarrow> bench \<Rightarrow> bench \<times> (exn + unit)" where
  "bench_round reorder s =
     (let ((to_send, x), r) = write_input (bn_to_send s) (bn_x s);
          s = s\<lparr>bn_to_send := to_send, bn_x := x\<rparr>
      in call s r (\<lambda>_.
         let s = (if length (bn_to_send s) = 0 \<and> \<not> bn_x_closed s
                  then s\<lparr>bn_x := cn_end_input_stream (bn_x s), bn_x_closed := True\<rparr> else s);
             (segments, x, y) = move_segments reorder [] (bn_x s, bn_y s);
             (segments, y, x) = move_segments False segments (y, x);
             available_output = bs_buffer_size (cn_inbound_stream y);
             (y, received) =
               (if available_output > 0
                then (let (inbound, d) = bs_read available_output (cn_inbound_stream y) in (set_inbound inbound y, bn_received s @ d))
                else (y, bn_received s));
             x = cn_tick 1000 x;
             y = cn_tick 1000 y
         in (s\<lparr>bn_x := x, bn_y := y, bn_received := received\<rparr>, Inr ())))"

partial_function (option) bench_while :: "bool \<Rightarrow> (bench \<Rightarrow> bool) \<Rightarrow> bench \<Rightarrow> (bench \<times> (exn + unit)) option" where
  "bench_while reorder condition s =
     (if condition s
      then (case bench_round reorder s of
              (s, Inl e) \<Rightarrow> Some (s, Inl e)
            | (s, Inr _) \<Rightarrow> bench_while reorder condition s)
      else Some (s, Inr ()))"

definition bench_start :: "bytes \<Rightarrow> tcp_config \<Rightarrow> u32 \<Rightarrow> u32 \<Rightarrow> bench" where
  "bench_start string_to_send config rnd_x rnd_y =
     \<lparr>bn_x = cn_connect (tcp_connection_new config rnd_x), bn_y = cn_end_input_stream (tcp_connection_new config rnd_y),
      bn_to_send = string_to_send, bn_x_closed = False, bn_received = []\<rparr>"

definition main_loop :: "bool \<Rightarrow> bytes \<Rightarrow> u32 \<Rightarrow> u32 \<Rightarrow> (bench \<times> (exn + unit)) option" where
  "main_loop reorder string_to_send rnd_x rnd_y =
     (case bench_while reorder (\<lambda>s. \<not> bs_eof (cn_inbound_stream (bn_y s))) (bench_start string_to_send tcp_config_default rnd_x rnd_y) of
        None \<Rightarrow> None
      | Some (s, Inl e) \<Rightarrow> Some (s, Inl e)
      | Some (s, Inr _) \<Rightarrow>
          if bn_received s \<noteq> string_to_send then Some (s, Inl (Runtime_error ''strings sent vs. received don't match''))
          else bench_while reorder (\<lambda>s. cn_active (bn_x s) \<or> cn_active (bn_y s)) s)"

subsection \<open>A round as steps of the two connections\<close>

text \<open>The state of the benchmark is that of a reachable pair of endpoints; what is left to send completes what was written.\<close>

definition bench_inv :: "bytes \<Rightarrow> u32 \<Rightarrow> u32 \<Rightarrow> bench \<Rightarrow> endpoint \<times> endpoint \<Rightarrow> bool" where
  "bench_inv data rx ry s p \<longleftrightarrow>
     pair_step\<^sup>*\<^sup>* (endpoint_new tcp_config_default rx, endpoint_new tcp_config_default ry) p \<and>
     ep_tcp (fst p) = bn_x s \<and> ep_tcp (snd p) = bn_y s \<and> ep_wrote (fst p) @ bn_to_send s = data \<and>
     (ep_ended (fst p) \<longrightarrow> bn_to_send s = []) \<and> ep_read (snd p) = bn_received s \<and> ep_wrote (snd p) = []"

lemma take_segments_append [simp]: "take_segments segs segments = segments @ segs"
  by (induction segs arbitrary: segments) simp_all

lemma pair_local_fst: "ep_local op x \<Longrightarrow> pair_step\<^sup>*\<^sup>* p (x, y) \<Longrightarrow> pair_step\<^sup>*\<^sup>* p (ep_step op x, y)"
  by (rule rtranclp.rtrancl_into_rtrancl, assumption, rule pair_step.Local)

lemma pair_local_snd: "ep_local op y \<Longrightarrow> pair_step\<^sup>*\<^sup>* p (x, y) \<Longrightarrow> pair_step\<^sup>*\<^sup>* p (x, ep_step op y)"
  by (rule rtranclp.rtrancl_into_rtrancl, assumption, rule pair_step.Swap, rule pair_step.Local)

lemma pair_swap_steps: "pair_step\<^sup>*\<^sup>* p q \<Longrightarrow> pair_step\<^sup>*\<^sup>* (prod.swap p) (prod.swap q)"
proof (induction rule: rtranclp_induct)
  case (step q r)
  then show ?case using pair_step.Swap [of "fst q" "snd q" "fst r" "snd r"]
    by (auto simp: prod.swap_def intro: rtranclp.rtrancl_into_rtrancl)
qed simp

text \<open>Delivering segments that the other side has sent.\<close>

lemma deliver_all:
  assumes "set segs \<subseteq> set (ep_net x)"
  shows "\<exists>y'. pair_step\<^sup>*\<^sup>* (x, y) (x, y') \<and> ep_tcp y' = foldl (\<lambda>y seg. cn_segment_received seg y) (ep_tcp y) segs \<and>
    ep_wrote y' = ep_wrote y \<and> ep_read y' = ep_read y \<and> ep_ended y' = ep_ended y"
  using assms
proof (induction segs arbitrary: y)
  case Nil
  then show ?case by auto
next
  case (Cons seg segs)
  have "pair_step (x, y) (x, ep_step (CSegment seg) y)"
    by (rule pair_step.Swap, rule pair_step.Deliver [of seg]) (use Cons.prems in \<open>simp_all add: carries_refl\<close>)
  moreover have "ep_tcp (ep_step (CSegment seg) y) = cn_segment_received seg (ep_tcp y)" "ep_read (ep_step (CSegment seg) y) = ep_read y"
    by (simp_all add: ep_step_def)
  ultimately show ?case using Cons.IH [of "ep_step (CSegment seg) y"] Cons.prems ep_step_fields(2) [where e = y and op = "CSegment seg"]
    by (auto intro: converse_rtranclp_into_rtranclp)
qed

lemma move_segments_steps:
  assumes "move_segments reorder [] (ep_tcp x, ep_tcp y) = (segs, cx, cy)"
  shows "segs = [] \<and> (\<exists>x' y'. pair_step\<^sup>*\<^sup>* (x, y) (x', y') \<and> ep_tcp x' = cx \<and> ep_tcp y' = cy \<and> ep_wrote x' = ep_wrote x \<and>
    ep_wrote y' = ep_wrote y \<and> ep_read x' = ep_read x \<and> ep_read y' = ep_read y \<and> ep_ended x' = ep_ended x \<and> ep_ended y' = ep_ended y)"
proof -
  let ?x = "ep_step CTake x" and ?segs = "if reorder then rev (cn_segments_out (ep_tcp x)) else cn_segments_out (ep_tcp x)"
  have x: "ep_tcp ?x = (ep_tcp x)\<lparr>cn_segments_out := []\<rparr>" "ep_wrote ?x = ep_wrote x" "ep_read ?x = ep_read x"
    "ep_net ?x = ep_net x @ cn_segments_out (ep_tcp x)" "ep_ended ?x = ep_ended x"
    by (simp_all add: ep_step_def ep_ended_def)
  have "set ?segs \<subseteq> set (ep_net ?x)" by (simp add: x)
  from deliver_all [OF this, of y] obtain y' where y: "pair_step\<^sup>*\<^sup>* (?x, y) (?x, y')"
    "ep_tcp y' = foldl (\<lambda>y seg. cn_segment_received seg y) (ep_tcp y) ?segs" "ep_wrote y' = ep_wrote y" "ep_read y' = ep_read y"
    "ep_ended y' = ep_ended y" by blast
  have "pair_step (x, y) (?x, y)" by (rule pair_step.Local) (simp add: ep_local_def)
  then have "pair_step\<^sup>*\<^sup>* (x, y) (?x, y')" using y(1) by (rule converse_rtranclp_into_rtranclp)
  then show ?thesis using assms x y(2-)
    by (intro conjI exI [of _ ?x] exI [of _ y']) (auto simp: move_segments_def Let_def)
qed

lemma cn_write_all: "length d \<le> cn_remaining_outbound_capacity c \<Longrightarrow> cn_write d c = (c', n) \<Longrightarrow> n = length d"
  by (auto simp: cn_write_def bs_write_def Let_def cn_remaining_outbound_capacity_def bs_remaining_capacity_def)

lemma write_input_steps:
  assumes "write_input d (ep_tcp x) = ((d', c), r)" "ep_ended x \<longrightarrow> d = []" "length (ep_wrote x) + length d < 2 ^ 62"
  shows "r = Inr () \<and> (\<exists>x'. pair_step\<^sup>*\<^sup>* (x, y) (x', y) \<and> ep_tcp x' = c \<and> ep_wrote x' @ d' = ep_wrote x @ d \<and>
    ep_ended x' = ep_ended x \<and> (ep_ended x' \<longrightarrow> d' = []))"
  using assms
proof (induction "length d" arbitrary: d x rule: less_induct)
  case less
  show ?case
  proof (cases "length d \<noteq> 0 \<and> cn_remaining_outbound_capacity (ep_tcp x) \<noteq> 0")
    case False
    then have "d' = d" "c = ep_tcp x" "r = Inr ()" using less.prems(1) by (auto simp: write_input.simps [of d])
    then show ?thesis using less.prems(2) by (intro conjI exI [of _ x]) auto
  next
    case True
    define want where "want = min (cn_remaining_outbound_capacity (ep_tcp x)) (length d)"
    obtain x1 n where w: "cn_write (take want d) (ep_tcp x) = (x1, n)" by fastforce
    have n: "n = want" using cn_write_all [OF _ w] by (simp add: want_def)
    have want: "0 < want" "want \<le> length d" using True by (auto simp: want_def)
    let ?x = "ep_step (CWrite (take want d)) x"
    have x1: "ep_tcp ?x = x1" "ep_wrote ?x = ep_wrote x @ take want d" using w n by (simp_all add: ep_step_def)
    have ended: "\<not> ep_ended x" "\<not> ep_ended ?x"
      using True less.prems(2) ep_step_fields(2) [where op = "CWrite (take want d)" and e = x] by auto
    have "ep_local (CWrite (take want d)) x" using ended less.prems(3) by (simp add: ep_local_def)
    then have step: "pair_step (x, y) (?x, y)" by (rule pair_step.Local)
    have rec: "write_input (drop want d) (ep_tcp ?x) = ((d', c), r)"
      using less.prems(1) True w n x1 by (simp add: write_input.simps [of d] Let_def flip: want_def)
    have "length (ep_wrote ?x) + length (drop want d) < 2 ^ 62" using less.prems(3) want by (simp add: x1)
    moreover have "length (drop want d) < length d" using want by simp
    ultimately obtain x' where x': "r = Inr ()" "pair_step\<^sup>*\<^sup>* (?x, y) (x', y)"
      "ep_tcp x' = c" "ep_wrote x' @ d' = ep_wrote ?x @ drop want d" "ep_ended x' = ep_ended ?x" "ep_ended x' \<longrightarrow> d' = []"
      using less.hyps [OF _ rec] ended by blast
    then show ?thesis using converse_rtranclp_into_rtranclp [where r = pair_step, OF step x'(2)] ended x1(2)
      by (intro conjI exI [of _ x']) auto
  qed
qed

text \<open>Reading what is available, and time.\<close>

lemma read_step:
  assumes "bs_read n (cn_inbound_stream (ep_tcp y)) = (b, d)"
  shows "ep_tcp (ep_step (CRead n) y) = set_inbound b (ep_tcp y)" "ep_read (ep_step (CRead n) y) = ep_read y @ d"
    "ep_wrote (ep_step (CRead n) y) = ep_wrote y"
  using assms by (simp_all add: ep_step_def rc_read_def sr_read_def set_inbound_def cn_inbound_stream_def rc_stream_out_def Let_def split: prod.splits)

lemma call_step_tcp [simp]:
  "ep_tcp (ep_step (CTick ms) y) = cn_tick ms (ep_tcp y)" "ep_tcp (ep_step CEnd y) = cn_end_input_stream (ep_tcp y)"
  "ep_read (ep_step (CTick ms) y) = ep_read y" "ep_read (ep_step CEnd y) = ep_read y"
  "ep_wrote (ep_step (CTick ms) y) = ep_wrote y" "ep_wrote (ep_step CEnd y) = ep_wrote y"
  "ep_ended (ep_step (CTick ms) y) = ep_ended y"
  using ep_step_fields(2) [where op = "CTick ms" and e = y] by (simp_all add: ep_step_def)

lemma ep_local_simps [simp]: "ep_local (CTick ms) x" "ep_local CEnd x" "ep_local (CRead n) x" "ep_local CConnect x" "ep_local CTake x"
  by (simp_all add: ep_local_def)

lemma bench_round_inv:
  assumes inv: "bench_inv data rx ry s p" and len: "length data < 2 ^ 62"
  shows "\<exists>s' p'. bench_round reorder s = (s', Inr ()) \<and> bench_inv data rx ry s' p'"
proof -
  obtain x y where p: "p = (x, y)" by (cases p)
  let ?start = "(endpoint_new tcp_config_default rx, endpoint_new tcp_config_default ry)"
  have i: "pair_step\<^sup>*\<^sup>* ?start (x, y)" "ep_tcp x = bn_x s" "ep_tcp y = bn_y s" "ep_wrote x @ bn_to_send s = data"
    "ep_ended x \<longrightarrow> bn_to_send s = []" "ep_read y = bn_received s" "ep_wrote y = []" using inv p by (simp_all add: bench_inv_def)
  obtain d1 c1 r1 where w: "write_input (bn_to_send s) (bn_x s) = ((d1, c1), r1)" by (metis prod.exhaust)
  have "length (ep_wrote x) + length (bn_to_send s) < 2 ^ 62" using arg_cong [OF i(4), of length] len by simp
  from write_input_steps [OF _ i(5) this, of d1 c1 r1 y] w i(2) obtain x1 where x1: "r1 = Inr ()" "pair_step\<^sup>*\<^sup>* (x, y) (x1, y)"
    "ep_tcp x1 = c1" "ep_wrote x1 @ d1 = data" "ep_ended x1 \<longrightarrow> d1 = []" using i(4) by auto
  define closing where "closing = (length d1 = 0 \<and> \<not> bn_x_closed s)"
  define x2 where "x2 = (if closing then ep_step CEnd x1 else x1)"
  have x2: "pair_step\<^sup>*\<^sup>* (x1, y) (x2, y)" "ep_tcp x2 = (if closing then cn_end_input_stream c1 else c1)" "ep_wrote x2 = ep_wrote x1"
    "ep_ended x2 \<longrightarrow> d1 = []"
    using x1 pair_local_fst [of CEnd x1 "(x1, y)" y] by (auto simp: x2_def closing_def)
  obtain segs3 c3 e3 where m3: "move_segments reorder [] (ep_tcp x2, ep_tcp y) = (segs3, c3, e3)" by (metis prod.exhaust)
  from move_segments_steps [OF m3] obtain x3 y3 where s3: "segs3 = []" "pair_step\<^sup>*\<^sup>* (x2, y) (x3, y3)" "ep_tcp x3 = c3" "ep_tcp y3 = e3"
    "ep_wrote x3 = ep_wrote x2" "ep_wrote y3 = []" "ep_read y3 = ep_read y" "ep_ended x3 = ep_ended x2" using i(7) by auto
  obtain segs4 e4 c4 where m4: "move_segments False [] (ep_tcp y3, ep_tcp x3) = (segs4, e4, c4)" by (metis prod.exhaust)
  from move_segments_steps [OF m4] obtain x4 y4 where s4: "pair_step\<^sup>*\<^sup>* (y3, x3) (y4, x4)" "ep_tcp x4 = c4" "ep_tcp y4 = e4"
    "ep_wrote x4 = ep_wrote x3" "ep_wrote y4 = []" "ep_read y4 = ep_read y" "ep_ended x4 = ep_ended x3" using s3(6,7) by auto
  define n where "n = bs_buffer_size (cn_inbound_stream e4)"
  obtain b d where rd: "bs_read n (cn_inbound_stream e4) = (b, d)" by fastforce
  define y5 where "y5 = (if n > 0 then ep_step (CRead n) y4 else y4)"
  have y5: "pair_step\<^sup>*\<^sup>* (x4, y4) (x4, y5)" "ep_tcp y5 = (if n > 0 then set_inbound b e4 else e4)" "ep_wrote y5 = []"
    "ep_read y5 = (if n > 0 then bn_received s @ d else bn_received s)"
    using pair_local_snd [of "CRead n" y4 "(x4, y4)" x4] read_step [of n y4 b d] rd s4 i(6) by (auto simp: y5_def)
  let ?x = "ep_step (CTick 1000) x4" and ?y = "ep_step (CTick 1000) y5"
  have "pair_step\<^sup>*\<^sup>* (x3, y3) (x4, y4)" using pair_swap_steps [OF s4(1)] by simp
  then have "pair_step\<^sup>*\<^sup>* ?start (x4, y5)"
    using i(1) x1(2) x2(1) s3(2) y5(1) by (meson rtranclp_trans)
  then have run: "pair_step\<^sup>*\<^sup>* ?start (?x, ?y)" by (intro pair_local_snd pair_local_fst) simp_all
  let ?s = "s\<lparr>bn_to_send := d1, bn_x := cn_tick 1000 c4, bn_x_closed := bn_x_closed s \<or> closing, bn_y := cn_tick 1000 (ep_tcp y5),
    bn_received := ep_read y5\<rparr>"
  have "bench_round reorder s = (?s, Inr ())"
    using w x1(1) m3 m4 s3(1) rd x2(2) y5(2,4) i(3) s3(3,4)
    by (auto simp: bench_round_def call_def Let_def closing_def n_def)
  moreover have "bench_inv data rx ry ?s (?x, ?y)"
    using run x1(4) x2(3,4) s3(5,8) s4(2,4,7) y5(3) by (simp add: bench_inv_def)
  ultimately show ?thesis by blast
qed

lemma bench_start_inv:
  "\<exists>p. bench_inv data rx ry (bench_start data tcp_config_default rx ry) p"
proof -
  let ?a = "endpoint_new tcp_config_default rx" and ?b = "endpoint_new tcp_config_default ry"
  have "pair_step\<^sup>*\<^sup>* (?a, ?b) (ep_step CConnect ?a, ep_step CEnd ?b)" by (intro pair_local_snd pair_local_fst) simp_all
  moreover have "\<not> ep_ended (ep_step CConnect ?a)"
    using ep_step_fields(2) [where op = CConnect and e = ?a]
    by (simp add: endpoint_new_def ep_ended_def tcp_connection_new_def tcp_sender_new_def bs_new_def)
  ultimately show ?thesis
    by (intro exI [of _ "(ep_step CConnect ?a, ep_step CEnd ?b)"]) (simp add: bench_inv_def bench_start_def, simp add: ep_step_def endpoint_new_def)
qed

text \<open>What the invariant says of the bytes.\<close>

lemma bench_inv_received:
  assumes inv: "bench_inv data rx ry s p" and len: "length data < 2 ^ 31 - 2"
  shows "prefix (bn_received s) data" "bs_eof (cn_inbound_stream (bn_y s)) \<Longrightarrow> bn_received s = data"
proof -
  obtain x y where p: "p = (x, y)" by (cases p)
  have i: "pair_step\<^sup>*\<^sup>* (endpoint_new tcp_config_default rx, endpoint_new tcp_config_default ry) (x, y)"
    "ep_tcp y = bn_y s" "ep_wrote x @ bn_to_send s = data" "ep_ended x \<longrightarrow> bn_to_send s = []" "ep_read y = bn_received s" "ep_wrote y = []"
    using inv p by (simp_all add: bench_inv_def)
  have cfg: "cfg_ok tcp_config_default" by (simp add: cfg_ok_def tcp_config_default_def DEFAULT_CAPACITY_def)
  have l: "length (ep_wrote x) < 2 ^ 31 - 2" "length (ep_wrote y) < 2 ^ 31 - 1" using len i(3,6) by auto
  note integrity = two_connections [OF i(1) cfg cfg l]
  then show "prefix (bn_received s) data" using i(3,5) by (auto simp: prefix_def)
  assume eof: "bs_eof (cn_inbound_stream (bn_y s))"
  have "bs_buffer (cn_inbound_stream (ep_tcp y)) = []" using two_connections_buffer [OF i(1) cfg cfg l] eof i(2) by (simp add: bs_eof_def)
  then show "bn_received s = data" using integrity eof i by (auto simp: bs_eof_def bs_input_ended_def)
qed

lemma bench_while_inv:
  assumes "bench_while reorder condition s = Some r" "bench_inv data rx ry s p" "length data < 2 ^ 62"
  shows "\<exists>s' p'. r = (s', Inr ()) \<and> bench_inv data rx ry s' p' \<and> \<not> condition s'"
proof -
  have "\<forall>p. bench_inv data rx ry s p \<longrightarrow> (\<exists>s' p'. r = (s', Inr ()) \<and> bench_inv data rx ry s' p' \<and> \<not> condition s')"
  proof (rule bench_while.raw_induct [where P = "\<lambda>reorder condition s r. \<forall>p. bench_inv data rx ry s p \<longrightarrow>
        (\<exists>s' p'. r = (s', Inr ()) \<and> bench_inv data rx ry s' p' \<and> \<not> condition s')"
        and reorder = reorder and condition = condition and s = s and y = r])
    fix loop reorder condition s r
    assume IH: "\<And>reorder condition s r. loop reorder condition s = Some r \<Longrightarrow>
        \<forall>p. bench_inv data rx ry s p \<longrightarrow> (\<exists>s' p'. r = (s', Inr ()) \<and> bench_inv data rx ry s' p' \<and> \<not> condition s')"
      and eq: "(if condition s then (case bench_round reorder s of (s, Inl e) \<Rightarrow> Some (s, Inl e) | (s, Inr _) \<Rightarrow> loop reorder condition s)
        else Some (s, Inr ())) = Some r"
    show "\<forall>p. bench_inv data rx ry s p \<longrightarrow> (\<exists>s' p'. r = (s', Inr ()) \<and> bench_inv data rx ry s' p' \<and> \<not> condition s')"
    proof (intro allI impI)
      fix p assume p: "bench_inv data rx ry s p"
      obtain s' p' where s': "bench_round reorder s = (s', Inr ())" "bench_inv data rx ry s' p'"
        using bench_round_inv [OF p assms(3)] by blast
      have "loop reorder condition s' = Some r" if "condition s" using eq s'(1) that by simp
      moreover have "r = (s, Inr ())" if "\<not> condition s" using eq that by simp
      ultimately show "\<exists>s' p'. r = (s', Inr ()) \<and> bench_inv data rx ry s' p' \<and> \<not> condition s'"
        using IH p s'(2) by (cases "condition s") blast+
    qed
  qed (fact assms(1))
  then show ?thesis using assms(2) by blast
qed

text \<open>Any number of rounds.\<close>

fun bench_rounds :: "nat \<Rightarrow> bool \<Rightarrow> bench \<Rightarrow> bench \<times> (exn + unit)" where
  "bench_rounds 0 reorder s = (s, Inr ())"
| "bench_rounds (Suc n) reorder s = (case bench_round reorder s of (s, Inl e) \<Rightarrow> (s, Inl e) | (s, Inr _) \<Rightarrow> bench_rounds n reorder s)"

lemma bench_rounds_inv:
  "bench_inv data rx ry s p \<Longrightarrow> length data < 2 ^ 62 \<Longrightarrow>
   \<exists>s' p'. bench_rounds n reorder s = (s', Inr ()) \<and> bench_inv data rx ry s' p'"
proof (induction n arbitrary: s p)
  case (Suc n)
  then obtain s' p' where "bench_round reorder s = (s', Inr ())" "bench_inv data rx ry s' p'" using bench_round_inv by blast
  then show ?case using Suc.IH Suc.prems(2) by auto
qed auto

text \<open>C5. The benchmark, in order or reordered, with the number of bytes it sends: no round throws, what \<^verbatim>\<open>y\<close> has received after any
  number of rounds is a prefix of the string, and the whole string at the end of the stream; so \<^verbatim>\<open>main_loop\<close> never ends with an exception.\<close>

theorem benchmark_transfers:
  assumes "length string_to_send = bench_len"
  shows "(\<exists>s. bench_rounds n reorder (bench_start string_to_send tcp_config_default rnd_x rnd_y) = (s, Inr ()) \<and>
      prefix (bn_received s) string_to_send \<and> (bs_eof (cn_inbound_stream (bn_y s)) \<longrightarrow> bn_received s = string_to_send)) \<and>
    (\<forall>s r. main_loop reorder string_to_send rnd_x rnd_y = Some (s, r) \<longrightarrow> r = Inr ())"
proof -
  have len: "length string_to_send < 2 ^ 31 - 2" "length string_to_send < 2 ^ 62" using assms by (simp_all add: bench_len_def)
  obtain p where p: "bench_inv string_to_send rnd_x rnd_y (bench_start string_to_send tcp_config_default rnd_x rnd_y) p"
    using bench_start_inv by blast
  have "r = Inr ()" if m: "main_loop reorder string_to_send rnd_x rnd_y = Some (s, r)" for s r
  proof -
    obtain s1 p1 where s1: "bench_while reorder (\<lambda>s. \<not> bs_eof (cn_inbound_stream (bn_y s)))
        (bench_start string_to_send tcp_config_default rnd_x rnd_y) = Some (s1, Inr ())"
      "bench_inv string_to_send rnd_x rnd_y s1 p1" "bs_eof (cn_inbound_stream (bn_y s1))"
      using m bench_while_inv [OF _ p len(2)] by (fastforce simp: main_loop_def split: option.splits)
    then show ?thesis using m bench_inv_received(2) [OF s1(2) len(1) s1(3)] bench_while_inv [OF _ s1(2) len(2)]
      by (auto simp: main_loop_def)
  qed
  moreover obtain s' p' where "bench_rounds n reorder (bench_start string_to_send tcp_config_default rnd_x rnd_y) = (s', Inr ())"
    "bench_inv string_to_send rnd_x rnd_y s' p'" using bench_rounds_inv [OF p len(2)] by blast
  ultimately show ?thesis using bench_inv_received [OF _ len(1)] by auto
qed

theorem benchmark_transfers_witness:
  "length (replicate bench_len (120 :: byte)) = bench_len \<and>
   (\<exists>s. bench_rounds 5 True (bench_start (replicate bench_len 120) tcp_config_default 7 9) = (s, Inr ()) \<and>
      prefix (bn_received s) (replicate bench_len 120))"
  using benchmark_transfers [of "replicate bench_len 120" 5 True 7 9] by auto

end
