(* ===== verification/IPv4.thy ===== *)
theory IPv4
  imports Internet_Checksum
begin

unbundle bit_operations_syntax

text \<open>
  \<^verbatim>\<open>libsponge/tcp_helpers/ipv4_header.{hh,cc}\<close> and \<^verbatim>\<open>ipv4_datagram.{hh,cc}\<close>: the IPv4 header and datagram with their
  wire format.  A parse mutates the object it is called on, so the object before the call is an argument.  The lemmas show
  that a serialized datagram is parsed back with a correct header checksum, and what \<^verbatim>\<open>IPv4Datagram::parse\<close> accepts although
  the header parser rejects it.
\<close>

record ipv4_header =
  ih_ver :: byte
  ih_hlen :: byte
  ih_tos :: byte
  ih_len :: u16
  ih_id :: u16
  ih_df :: bool
  ih_mf :: bool
  ih_offset :: u16
  ih_ttl :: byte
  ih_proto :: byte
  ih_cksum :: u16
  ih_src :: u32
  ih_dst :: u32

definition IPv4_LENGTH :: nat where
  "IPv4_LENGTH = 20"

definition DEFAULT_TTL :: byte where
  "DEFAULT_TTL = 128"

definition PROTO_TCP :: byte where
  "PROTO_TCP = 6"

definition ipv4_header_new :: ipv4_header where
  "ipv4_header_new =
     \<lparr>ih_ver = 4, ih_hlen = 5, ih_tos = 0, ih_len = 0, ih_id = 0, ih_df = True, ih_mf = False, ih_offset = 0,
      ih_ttl = DEFAULT_TTL, ih_proto = PROTO_TCP, ih_cksum = 0, ih_src = 0, ih_dst = 0\<rparr>"

text \<open>The fields are read one after the other; the checks follow in the order of the code.\<close>

definition ipv4_read_fields :: "net_parser \<Rightarrow> ipv4_header \<times> net_parser" where
  "ipv4_read_fields p =
     (let (first_byte, p) = np_u8 p;
          (tos, p) = np_u8 p;
          (len, p) = np_u16 p;
          (id, p) = np_u16 p;
          (fo_val, p) = np_u16 p;
          (ttl, p) = np_u8 p;
          (proto, p) = np_u8 p;
          (cksum, p) = np_u16 p;
          (src, p) = np_u32 p;
          (dst, p) = np_u32 p
      in (\<lparr>ih_ver = drop_bit 4 first_byte, ih_hlen = first_byte AND 0x0f, ih_tos = tos, ih_len = len, ih_id = id,
           ih_df = (fo_val AND 0x4000 \<noteq> 0), ih_mf = (fo_val AND 0x2000 \<noteq> 0), ih_offset = fo_val AND 0x1fff,
           ih_ttl = ttl, ih_proto = proto, ih_cksum = cksum, ih_src = src, ih_dst = dst\<rparr>, p))"

definition ipv4_header_parse :: "net_parser \<Rightarrow> ipv4_header \<Rightarrow> parse_result \<times> ipv4_header \<times> net_parser" where
  "ipv4_header_parse p0 this =
     (let original_serialized_version = np_buffer p0;
          data_size = length (np_buffer p0)
      in if data_size < IPv4_LENGTH then (PacketTooShort, this, p0)
         else
           (let (h, p) = ipv4_read_fields p0
            in if data_size < 4 * unat (ih_hlen h) then (PacketTooShort, h, p)
               else if ih_ver h \<noteq> 4 then (WrongIPVersion, h, p)
               else if ih_hlen h < 5 then (HeaderTooShort, h, p)
               else if data_size \<noteq> unat (ih_len h) then (TruncatedPacket, h, p)
               else
                 (let p = np_remove_prefix (unat (ih_hlen h) * 4 - IPv4_LENGTH) p
                  in if np_is_error p then (np_error p, h, p)
                     else
                       (let check = ic_add (take (4 * unat (ih_hlen h)) original_serialized_version) (ic_new 0)
                        in if ic_value check \<noteq> 0 then (BadChecksum, h, p) else (NoError, h, p)))))"

definition ipv4_fo_val :: "ipv4_header \<Rightarrow> u16" where
  "ipv4_fo_val h = (if ih_df h then 0x4000 else 0) OR (if ih_mf h then 0x2000 else 0) OR (ih_offset h AND 0x1fff)"

definition ipv4_header_serialize :: "ipv4_header \<Rightarrow> exn + bytes" where
  "ipv4_header_serialize h =
     (if ih_ver h \<noteq> 4 then Inl (Runtime_error ''wrong IP version'')
      else if 4 * unat (ih_hlen h) < IPv4_LENGTH then Inl (Runtime_error ''IP header too short'')
      else
        (let ret = [];
             ret = nu_u8 ret (push_bit 4 (ih_ver h) OR (ih_hlen h AND 0xf));
             ret = nu_u8 ret (ih_tos h);
             ret = nu_u16 ret (ih_len h);
             ret = nu_u16 ret (ih_id h);
             ret = nu_u16 ret (ipv4_fo_val h);
             ret = nu_u8 ret (ih_ttl h);
             ret = nu_u8 ret (ih_proto h);
             ret = nu_u16 ret (ih_cksum h);
             ret = nu_u32 ret (ih_src h);
             ret = nu_u32 ret (ih_dst h)
         in Inr (resize (4 * unat (ih_hlen h)) ret)))"

definition payload_length :: "ipv4_header \<Rightarrow> u16" where
  "payload_length h = ih_len h - 4 * ucast (ih_hlen h)"

definition pseudo_cksum :: "ipv4_header \<Rightarrow> u32" where
  "pseudo_cksum h =
     (let pcksum = drop_bit 16 (ih_src h) + (ih_src h AND 0xffff);
          pcksum = pcksum + (drop_bit 16 (ih_dst h) + (ih_dst h AND 0xffff));
          pcksum = pcksum + ucast (ih_proto h);
          pcksum = pcksum + ucast (payload_length h)
      in pcksum)"

text \<open>The payload, a \<^verbatim>\<open>BufferList\<close>, is modelled by the string it stands for.\<close>

record ipv4_datagram =
  dg_header :: ipv4_header
  dg_payload :: bytes

definition ipv4_datagram_new :: ipv4_datagram where
  "ipv4_datagram_new = \<lparr>dg_header = ipv4_header_new, dg_payload = []\<rparr>"

definition ipv4_datagram_parse :: "bytes \<Rightarrow> ipv4_datagram \<Rightarrow> parse_result \<times> ipv4_datagram" where
  "ipv4_datagram_parse buf this =
     (let (_, h, p) = ipv4_header_parse (net_parser_new buf) (dg_header this);
          this = this\<lparr>dg_header := h, dg_payload := np_buffer p\<rparr>
      in if length (dg_payload this) \<noteq> unat (payload_length h) then (PacketTooShort, this)
         else (np_error p, this))"

definition ipv4_datagram_serialize :: "ipv4_datagram \<Rightarrow> exn + bytes" where
  "ipv4_datagram_serialize d =
     (if length (dg_payload d) \<noteq> unat (payload_length (dg_header d))
      then Inl (Runtime_error ''IPv4Datagram::serialize: payload is wrong size'')
      else
        (let header_out = (dg_header d)\<lparr>ih_cksum := 0\<rparr>
         in case ipv4_header_serialize header_out of
              Inl e \<Rightarrow> Inl e
            | Inr header_zero_checksum \<Rightarrow>
                (let check = ic_add header_zero_checksum (ic_new 0);
                     header_out = header_out\<lparr>ih_cksum := ic_value check\<rparr>
                 in case ipv4_header_serialize header_out of
                      Inl e \<Rightarrow> Inl e
                    | Inr hdr \<Rightarrow> Inr (hdr @ dg_payload d))))"

subsection \<open>Lemmas\<close>

text \<open>The fields a header can hold: a 4-bit header length and a 13-bit offset.\<close>

definition ipv4_wf :: "ipv4_header \<Rightarrow> bool" where
  "ipv4_wf h \<longleftrightarrow> ih_ver h = 4 \<and> 5 \<le> ih_hlen h \<and> ih_hlen h < 16 \<and> ih_offset h < 0x2000"

lemma word_and_mask:
  fixes w :: "'a::len word"
  assumes "unat w < 2 ^ k"
  shows "w AND mask k = w"
proof -
  have "unat (take_bit k w) = unat w" using assms by (simp add: unsigned_take_bit_eq take_bit_nat_eq_self)
  then show ?thesis by (simp add: take_bit_eq_mask [symmetric] word_unat_eq_iff)
qed
lemma nibble_or:
  fixes a b :: "byte"
  assumes "b < 16" "a < 16"
  shows "drop_bit 4 (push_bit 4 a OR (b AND 0xf)) = a" "(push_bit 4 a OR (b AND 0xf)) AND 0xf = b"
proof -
  have m: "(0xf :: byte) = mask 4" by (simp add: mask_eq_exp_minus_1)
  have bb: "b AND mask 4 = b" "a AND mask 4 = a" using assms by (auto intro!: word_and_mask simp: word_less_nat_alt)
  have "bit b n \<Longrightarrow> n < 4" "bit a n \<Longrightarrow> n < 4" for n
    using bit_and_iff [of b "mask 4" n] bit_and_iff [of a "mask 4" n] bb by (simp_all add: bit_mask_iff)
  note hb = this
  show "drop_bit 4 (push_bit 4 a OR (b AND 0xf)) = a"
    unfolding m bb by (rule bit_eqI) (auto simp: bit_simps dest: hb)
  show "(push_bit 4 a OR (b AND 0xf)) AND 0xf = b"
    unfolding m bb by (rule bit_eqI) (auto simp: bit_simps dest: hb)
qed
lemma ipv4_fo_bits:
  assumes "ih_offset h < 0x2000"
  shows "(ipv4_fo_val h AND 0x4000 \<noteq> 0) = ih_df h" "(ipv4_fo_val h AND 0x2000 \<noteq> 0) = ih_mf h"
    "ipv4_fo_val h AND 0x1fff = ih_offset h"
proof -
  let ?o = "ih_offset h"
  have m: "(0x1fff :: u16) = mask 13" by (simp add: mask_eq_exp_minus_1)
  have o: "?o AND 0x1fff = ?o" unfolding m using assms by (intro word_and_mask) (simp add: word_less_nat_alt)
  have "?o AND 0x4000 = (?o AND 0x1fff) AND 0x4000" "?o AND 0x2000 = (?o AND 0x1fff) AND 0x2000" by (simp_all only: o)
  then have z: "?o AND 0x4000 = 0" "?o AND 0x2000 = 0" by (simp_all add: and.assoc)
  show "(ipv4_fo_val h AND 0x4000 \<noteq> 0) = ih_df h" "(ipv4_fo_val h AND 0x2000 \<noteq> 0) = ih_mf h"
    "ipv4_fo_val h AND 0x1fff = ?o"
    unfolding ipv4_fo_val_def o
    by (cases "ih_df h"; cases "ih_mf h"; simp add: bit.conj_disj_distrib2 z o)+
qed

text \<open>The bytes before and after the checksum field.\<close>

definition ipv4_pre :: "ipv4_header \<Rightarrow> bytes" where
  "ipv4_pre h = be_bytes (push_bit 4 (ih_ver h) OR (ih_hlen h AND 0xf)) @ be_bytes (ih_tos h) @ be_bytes (ih_len h) @
     be_bytes (ih_id h) @ be_bytes (ipv4_fo_val h) @ be_bytes (ih_ttl h) @ be_bytes (ih_proto h)"

definition ipv4_post :: "ipv4_header \<Rightarrow> bytes" where
  "ipv4_post h = be_bytes (ih_src h) @ be_bytes (ih_dst h) @ replicate (4 * unat (ih_hlen h) - 20) 0"

lemma ipv4_pre_length: "length (ipv4_pre h) = 10" "length (ipv4_post h) = 8 + (4 * unat (ih_hlen h) - 20)"
  by (simp_all add: ipv4_pre_def ipv4_post_def)

lemma ipv4_pre_cksum [simp]:
  "ipv4_pre (h\<lparr>ih_cksum := c\<rparr>) = ipv4_pre h" "ipv4_post (h\<lparr>ih_cksum := c\<rparr>) = ipv4_post h"
  by (simp_all add: ipv4_pre_def ipv4_post_def ipv4_fo_val_def)

lemma ipv4_serialize_eq:
  assumes "ipv4_wf h"
  shows "ipv4_header_serialize h = Inr (ipv4_pre h @ be_bytes (ih_cksum h) @ ipv4_post h)"
proof -
  have "5 \<le> unat (ih_hlen h)" "ih_ver h = 4" using assms by (simp_all add: ipv4_wf_def word_le_nat_alt)
  then show ?thesis
    by (simp add: ipv4_header_serialize_def ipv4_pre_def ipv4_post_def put_simps resize_longer IPv4_LENGTH_def)
qed

lemma ipv4_read_fields_serialized:
  assumes "ipv4_wf h"
  shows "ipv4_read_fields \<lparr>np_buffer = (ipv4_pre h @ be_bytes (ih_cksum h) @ ipv4_post h) @ rest, np_error = NoError\<rparr> =
    (h, \<lparr>np_buffer = replicate (4 * unat (ih_hlen h) - 20) 0 @ rest, np_error = NoError\<rparr>)"
proof -
  have w: "ih_hlen h < 16" "ih_ver h = 4" "ih_offset h < 0x2000" using assms by (simp_all add: ipv4_wf_def)
  have "(4 :: byte) < 16" by simp
  then have fb: "drop_bit 4 (push_bit 4 (ih_ver h) OR (ih_hlen h AND 0xf)) = ih_ver h"
    "(push_bit 4 (ih_ver h) OR (ih_hlen h AND 0xf)) AND 0xf = ih_hlen h"
    using nibble_or [OF w(1), of "ih_ver h"] w(2) by simp_all
  define b where "b = push_bit 4 (ih_ver h) OR (ih_hlen h AND 0xf)"
  show ?thesis
    using fb [folded b_def] ipv4_fo_bits [OF w(3)]
    by (simp add: ipv4_read_fields_def ipv4_pre_def ipv4_post_def b_def [symmetric] Let_def parse_simps
        cong: prod.case_cong_weak)
qed

lemma ipv4_parse_serialized:
  assumes wf: "ipv4_wf h" and len: "unat (ih_len h) = 4 * unat (ih_hlen h) + length payload"
    and bs: "bs = ipv4_pre h @ be_bytes (ih_cksum h) @ ipv4_post h"
    and check: "ic_value (ic_add bs (ic_new 0)) = 0"
  shows "ipv4_header_parse (net_parser_new (bs @ payload)) this = (NoError, h, net_parser_new payload)"
proof -
  have h5: "5 \<le> unat (ih_hlen h)" "\<not> ih_hlen h < 5" "ih_ver h = 4"
    using wf by (simp_all add: ipv4_wf_def word_le_nat_alt not_less)
  have lbs: "length bs = 4 * unat (ih_hlen h)" using h5(1) by (simp add: bs ipv4_pre_length)
  have total: "length (bs @ payload) = unat (ih_len h)" "\<not> length (bs @ payload) < IPv4_LENGTH"
    "\<not> length (bs @ payload) < 4 * unat (ih_hlen h)"
    using lbs len h5(1) by (simp_all add: IPv4_LENGTH_def)
  have rd: "ipv4_read_fields (net_parser_new (bs @ payload)) =
      (h, \<lparr>np_buffer = replicate (4 * unat (ih_hlen h) - 20) 0 @ payload, np_error = NoError\<rparr>)"
    unfolding bs net_parser_new_def by (rule ipv4_read_fields_serialized [OF wf])
  have rp: "np_remove_prefix (unat (ih_hlen h) * 4 - IPv4_LENGTH)
      \<lparr>np_buffer = replicate (4 * unat (ih_hlen h) - 20) 0 @ payload, np_error = NoError\<rparr> = net_parser_new payload"
    by (simp add: np_remove_prefix_ok net_parser_new_def IPv4_LENGTH_def mult.commute)
  have tk: "take (4 * unat (ih_hlen h)) (bs @ payload) = bs" using lbs by simp
  have buf: "np_buffer (net_parser_new (bs @ payload)) = bs @ payload" "\<not> np_is_error (net_parser_new payload)"
    by (simp_all add: net_parser_new_def np_is_error_def)
  show ?thesis
    unfolding ipv4_header_parse_def Let_def buf rd prod.case rp tk using total h5 check buf by simp
qed

lemma payload_length_eq:
  assumes "unat (ih_len h) = 4 * unat (ih_hlen h) + n"
  shows "unat (payload_length h) = n"
proof -
  have "payload_length h = word_of_nat (4 * unat (ih_hlen h) + n) - 4 * word_of_nat (unat (ih_hlen h))"
    using assms by (simp add: payload_length_def flip: assms)
  then have "payload_length h = word_of_nat n" by simp
  moreover have "n < 65536" using assms unat_u16_less [of "ih_len h"] by simp
  ultimately show ?thesis by (simp add: unat_of_nat take_bit_nat_eq_self)
qed

lemma ipv4_datagram_roundtrip_lemma:
  assumes wf: "ipv4_wf (dg_header d)"
    and len: "unat (ih_len (dg_header d)) = 4 * unat (ih_hlen (dg_header d)) + length (dg_payload d)"
  shows "\<exists>bs c. ipv4_datagram_serialize d = Inr bs \<and>
    ipv4_header_parse (net_parser_new bs) (dg_header this) =
      (NoError, (dg_header d)\<lparr>ih_cksum := c\<rparr>, net_parser_new (dg_payload d)) \<and>
    ipv4_datagram_parse bs this =
      (NoError, this\<lparr>dg_header := (dg_header d)\<lparr>ih_cksum := c\<rparr>, dg_payload := dg_payload d\<rparr>)"
proof -
  let ?h = "dg_header d"
  define c where "c = ic_value (ic_add (ipv4_pre ?h @ nu_u16 [] 0 @ ipv4_post ?h) (ic_new 0))"
  let ?hdr = "ipv4_pre ?h @ be_bytes c @ ipv4_post ?h"
  have wfc: "ipv4_wf (?h\<lparr>ih_cksum := k\<rparr>)" for k using wf by (simp add: ipv4_wf_def)
  have pl: "unat (payload_length ?h) = length (dg_payload d)" using len by (rule payload_length_eq)
  have z: "nu_u16 [] 0 = be_bytes (0 :: u16)" by (simp add: put_simps)
  have ser: "ipv4_datagram_serialize d = Inr (?hdr @ dg_payload d)"
    unfolding ipv4_datagram_serialize_def c_def z
    by (simp add: pl ipv4_serialize_eq [OF wfc] Let_def)
  have "ih_hlen ?h < 16" using wf by (simp add: ipv4_wf_def)
  then have "unat (ih_hlen ?h) < 16" by (simp add: word_less_nat_alt)
  then have "length (ipv4_pre ?h @ nu_u16 [] 0 @ ipv4_post ?h) \<le> 60"
    by (simp add: ipv4_pre_length put_simps)
  then have "unit_sum False (ipv4_pre ?h @ nu_u16 [] 0 @ ipv4_post ?h) \<le> 65280 * 60"
    using unit_sum_bound [of False "ipv4_pre ?h @ nu_u16 [] 0 @ ipv4_post ?h"] by simp
  then have "ic_value (ic_add (ipv4_pre ?h @ nu_u16 [] c @ ipv4_post ?h) (ic_new 0)) = 0"
    by (intro ic_store_checks [OF _ _ c_def]) (simp_all add: ipv4_pre_length)
  then have check: "ic_value (ic_add ?hdr (ic_new 0)) = 0" by (simp add: put_simps)
  have par: "ipv4_header_parse (net_parser_new (?hdr @ dg_payload d)) (dg_header this) =
      (NoError, ?h\<lparr>ih_cksum := c\<rparr>, net_parser_new (dg_payload d))"
    by (rule ipv4_parse_serialized [OF wfc _ _ check]) (simp_all add: len)
  have plc: "payload_length (?h\<lparr>ih_cksum := c\<rparr>) = payload_length ?h" by (simp add: payload_length_def)
  have "ipv4_datagram_parse (?hdr @ dg_payload d) this =
      (NoError, this\<lparr>dg_header := ?h\<lparr>ih_cksum := c\<rparr>, dg_payload := dg_payload d\<rparr>)"
    unfolding ipv4_datagram_parse_def Let_def par by (simp add: plc pl net_parser_new_def)
  with ser par show ?thesis by blast
qed

text \<open>Datagrams are an instance of the interface \<open>message_format\<close>: they agree up to the checksum.\<close>

definition dg_wf :: "ipv4_datagram \<Rightarrow> bool" where
  "dg_wf d \<longleftrightarrow> ipv4_wf (dg_header d) \<and>
     unat (ih_len (dg_header d)) = 4 * unat (ih_hlen (dg_header d)) + length (dg_payload d)"

definition same_datagram :: "ipv4_datagram \<Rightarrow> ipv4_datagram \<Rightarrow> bool" where
  "same_datagram a b \<longleftrightarrow>
     (dg_header a)\<lparr>ih_cksum := 0\<rparr> = (dg_header b)\<lparr>ih_cksum := 0\<rparr> \<and> dg_payload a = dg_payload b"

lemma ipv4_datagram_serialize_length:
  assumes "dg_wf d" "ipv4_datagram_serialize d = Inr bs"
  shows "length bs = unat (ih_len (dg_header d))"
proof -
  let ?h = "dg_header d"
  have wf: "ipv4_wf (?h\<lparr>ih_cksum := k\<rparr>)" for k using assms(1) by (simp add: dg_wf_def ipv4_wf_def)
  have len: "unat (ih_len ?h) = 4 * unat (ih_hlen ?h) + length (dg_payload d)" and "5 \<le> unat (ih_hlen ?h)"
    using assms(1) by (simp_all add: dg_wf_def ipv4_wf_def word_le_nat_alt)
  moreover have "unat (payload_length ?h) = length (dg_payload d)" using len by (rule payload_length_eq)
  ultimately show ?thesis using assms(2)
    by (auto simp: ipv4_datagram_serialize_def ipv4_serialize_eq [OF wf] Let_def ipv4_pre_length)
qed

interpretation dgram: message_format dg_wf ipv4_datagram_serialize "\<lambda>bs. ipv4_datagram_parse bs ipv4_datagram_new"
  same_datagram
proof unfold_locales
  fix d
  assume "dg_wf d"
  then obtain bs c where ser: "ipv4_datagram_serialize d = Inr bs" and par: "ipv4_datagram_parse bs ipv4_datagram_new =
      (NoError, ipv4_datagram_new\<lparr>dg_header := (dg_header d)\<lparr>ih_cksum := c\<rparr>, dg_payload := dg_payload d\<rparr>)"
    using ipv4_datagram_roundtrip_lemma [of d ipv4_datagram_new] by (auto simp: dg_wf_def)
  have "same_datagram d (ipv4_datagram_new\<lparr>dg_header := (dg_header d)\<lparr>ih_cksum := c\<rparr>, dg_payload := dg_payload d\<rparr>)"
    by (simp add: same_datagram_def)
  with ser par show "\<exists>bs d'. ipv4_datagram_serialize d = Inr bs \<and>
      ipv4_datagram_parse bs ipv4_datagram_new = (NoError, d') \<and> same_datagram d d'" by blast
next
  show "same_datagram a m \<Longrightarrow> same_datagram b m \<Longrightarrow> same_datagram a b" for a b m by (simp add: same_datagram_def)
qed

text \<open>The pseudo-header sum stays far below the width of the checksum's accumulator.\<close>

lemma unat_drop_16_less: "unat (drop_bit 16 (w :: u32)) < 65536"
  using unat_u32_less [of w] by (simp add: drop_bit_eq_div unat_div_distrib less_mult_imp_div_less)

lemma unat_and_16_less: "unat (w AND 0xffff :: u32) < 65536"
proof -
  have "(0xffff :: u32) = mask 16" by (simp add: mask_eq_exp_minus_1)
  then have "w AND 0xffff = take_bit 16 w" by (simp only: take_bit_eq_mask)
  moreover have "unat (take_bit 16 w) < 2 ^ 16" by (simp only: unsigned_take_bit_eq take_bit_nat_less_exp)
  ultimately show ?thesis by simp
qed

lemma unat_add_less:
  fixes a b :: u32
  assumes "unat a < m" "unat b < n"
  shows "unat (a + b) < m + n"
  using assms by (simp add: unat_word_ariths)

lemma pseudo_cksum_less: "unat (pseudo_cksum h) < 2 ^ 20"
proof -
  have "unat (ucast (ih_proto h) :: u32) < 256" "unat (ucast (payload_length h) :: u32) < 65536"
    using unat_byte_less [of "ih_proto h"] unat_u16_less [of "payload_length h"]
    by (simp_all add: unsigned_ucast_eq take_bit_nat_eq_self)
  then have "unat (pseudo_cksum h) < ((65536 + 65536) + (65536 + 65536)) + 256 + 65536"
    unfolding pseudo_cksum_def Let_def
    by (intro unat_add_less unat_drop_16_less unat_and_16_less)
  then show ?thesis by simp
qed

text \<open>Reading the fixed part of a header takes twenty bytes off the parser.\<close>

lemma ipv4_read_fields_rest:
  assumes "20 \<le> length buf" "ipv4_read_fields (net_parser_new buf) = (h, p)"
  shows "p = net_parser_new (drop 20 buf)"
  using assms by (auto simp: ipv4_read_fields_def read_simps net_parser_new_def)

subsection \<open>Properties\<close>

text \<open>C34. Wire round trip of an IPv4 datagram: every datagram whose header fields fit their places (version
  four, a header length of five to fifteen words, a 13-bit offset) and whose length field counts header and payload is
  serialized, the bytes pass the checks of the header parser, the checksum included, and parsing returns the same header
  (with the checksum filled in) and payload.\<close>

theorem ipv4_datagram_roundtrip:
  assumes "ih_ver (dg_header d) = 4" "5 \<le> ih_hlen (dg_header d)" "ih_hlen (dg_header d) < 16"
    and "ih_offset (dg_header d) < 0x2000"
    and "unat (ih_len (dg_header d)) = 4 * unat (ih_hlen (dg_header d)) + length (dg_payload d)"
  shows "\<exists>bs c. ipv4_datagram_serialize d = Inr bs \<and>
    ipv4_header_parse (net_parser_new bs) ipv4_header_new =
      (NoError, (dg_header d)\<lparr>ih_cksum := c\<rparr>, net_parser_new (dg_payload d)) \<and>
    ipv4_datagram_parse bs ipv4_datagram_new =
      (NoError, \<lparr>dg_header = (dg_header d)\<lparr>ih_cksum := c\<rparr>, dg_payload = dg_payload d\<rparr>)"
  using ipv4_datagram_roundtrip_lemma [of d ipv4_datagram_new] assms
  by (simp add: ipv4_wf_def ipv4_datagram_new_def)

theorem ipv4_datagram_roundtrip_witness:
  "\<exists>bs c. ipv4_datagram_serialize \<lparr>dg_header = ipv4_header_new\<lparr>ih_len := 23, ih_dst := 9\<rparr>, dg_payload = [1, 2, 3]\<rparr>
      = Inr bs \<and>
    ipv4_datagram_parse bs ipv4_datagram_new =
      (NoError, \<lparr>dg_header = ipv4_header_new\<lparr>ih_len := 23, ih_dst := 9, ih_cksum := c\<rparr>, dg_payload = [1, 2, 3]\<rparr>)"
  using ipv4_datagram_roundtrip [of "\<lparr>dg_header = ipv4_header_new\<lparr>ih_len := 23, ih_dst := 9\<rparr>, dg_payload = [1, 2, 3]\<rparr>"]
  by (auto simp: ipv4_header_new_def)

text \<open>What \<^verbatim>\<open>IPv4Header::parse\<close> answers and what \<^verbatim>\<open>IPv4Datagram::parse\<close> makes of it, for a buffer that holds
  a header without options and as many bytes as its length field says: the header parser checks the version and then the
  checksum, and the datagram parser drops that answer, so that it accepts the datagram in every case.\<close>

theorem ipv4_datagram_parse_drops_answer:
  assumes "20 \<le> length buf" "ipv4_read_fields (net_parser_new buf) = (h, p)"
    and "ih_hlen h = 5" "unat (ih_len h) = length buf"
  shows "fst (ipv4_header_parse (net_parser_new buf) this) =
      (if ih_ver h \<noteq> 4 then WrongIPVersion
       else if ic_value (ic_add (take 20 buf) (ic_new 0)) \<noteq> 0 then BadChecksum else NoError) \<and>
    ipv4_datagram_parse buf d = (NoError, d\<lparr>dg_header := h, dg_payload := drop 20 buf\<rparr>)"
proof -
  have p: "p = net_parser_new (drop 20 buf)"
    by (rule ipv4_read_fields_rest [OF assms(1,2)])
  have pl: "unat (payload_length h) = length buf - 20"
    by (rule payload_length_eq) (use assms in simp)
  let ?r = "if ih_ver h \<noteq> 4 then WrongIPVersion
    else if ic_value (ic_add (take 20 buf) (ic_new 0)) \<noteq> 0 then BadChecksum else NoError"
  have "ipv4_header_parse (net_parser_new buf) this = (?r, h, p)" for this
    unfolding ipv4_header_parse_def Let_def assms(2) prod.case
    using assms(1,3,4) by (simp add: p net_parser_new_def np_remove_prefix_def np_check_size_def np_is_error_def IPv4_LENGTH_def)
  note hp = this
  have "ipv4_datagram_parse buf d = (NoError, d\<lparr>dg_header := h, dg_payload := drop 20 buf\<rparr>)"
    unfolding ipv4_datagram_parse_def Let_def hp using pl by (simp add: p net_parser_new_def)
  with hp show ?thesis by simp
qed

theorem ipv4_datagram_parse_drops_answer_witness:
  "fst (ipv4_header_parse (net_parser_new (0x65 # 0 # 0 # 20 # replicate 16 0)) ipv4_header_new) = WrongIPVersion \<and>
   fst (ipv4_datagram_parse (0x65 # 0 # 0 # 20 # replicate 16 0) ipv4_datagram_new) = NoError"
proof -
  obtain h p where r: "ipv4_read_fields (net_parser_new (0x65 # 0 # 0 # 20 # replicate 16 0)) = (h, p)" by fastforce
  then have "ih_hlen h = 5" "ih_len h = 20" "ih_ver h = 6"
    by (auto simp: ipv4_read_fields_def read_simps net_parser_new_def be_value_def)
  with ipv4_datagram_parse_drops_answer [OF _ r] show ?thesis by simp
qed

end
