(* ===== verification/Ethernet.thy ===== *)
theory Ethernet
  imports Net_Parser
begin

text \<open>
  \<^verbatim>\<open>libsponge/tcp_helpers/ethernet_header.{hh,cc}\<close> and \<^verbatim>\<open>ethernet_frame.{hh,cc}\<close>: Ethernet addresses (arrays of six
  bytes), the frame header and the frame.  A parse mutates the object it is called on, so the object before the call is an
  argument.  The header is an instance of the interface \<open>wire_format\<close>, the frame of \<open>message_format\<close>.
\<close>

datatype ethernet_address = EthernetAddress byte byte byte byte byte byte

fun ea_bytes :: "ethernet_address \<Rightarrow> bytes" where
  "ea_bytes (EthernetAddress a b c d e f) = [a, b, c, d, e, f]"

definition ETHERNET_BROADCAST :: ethernet_address where
  "ETHERNET_BROADCAST = EthernetAddress 0xff 0xff 0xff 0xff 0xff 0xff"

definition ethernet_zero :: ethernet_address where
  "ethernet_zero = EthernetAddress 0 0 0 0 0 0"

record ethernet_header =
  eh_dst :: ethernet_address
  eh_src :: ethernet_address
  eh_type :: u16

definition ETHERNET_LENGTH :: nat where
  "ETHERNET_LENGTH = 14"

definition TYPE_IPv4 :: u16 where
  "TYPE_IPv4 = 0x800"

definition TYPE_ARP :: u16 where
  "TYPE_ARP = 0x806"

text \<open>The loop over the bytes of an address, reading and writing.\<close>

definition read_address :: "net_parser \<Rightarrow> ethernet_address \<times> net_parser" where
  "read_address p =
     (let (a, p) = np_u8 p; (b, p) = np_u8 p; (c, p) = np_u8 p;
          (d, p) = np_u8 p; (e, p) = np_u8 p; (f, p) = np_u8 p
      in (EthernetAddress a b c d e f, p))"

definition write_address :: "bytes \<Rightarrow> ethernet_address \<Rightarrow> bytes" where
  "write_address ret a = foldl nu_u8 ret (ea_bytes a)"

definition ethernet_header_parse ::
    "net_parser \<Rightarrow> ethernet_header \<Rightarrow> parse_result \<times> ethernet_header \<times> net_parser" where
  "ethernet_header_parse p this =
     (if length (np_buffer p) < ETHERNET_LENGTH then (PacketTooShort, this, p)
      else
        (let (dst, p) = read_address p;
             (src, p) = read_address p;
             (type, p) = np_u16 p
         in (np_error p, \<lparr>eh_dst = dst, eh_src = src, eh_type = type\<rparr>, p)))"

definition ethernet_header_serialize :: "ethernet_header \<Rightarrow> bytes" where
  "ethernet_header_serialize h =
     (let ret = [];
          ret = write_address ret (eh_dst h);
          ret = write_address ret (eh_src h);
          ret = nu_u16 ret (eh_type h)
      in ret)"

text \<open>The payload, a \<^verbatim>\<open>BufferList\<close>, is modelled by the string it stands for.\<close>

record ethernet_frame =
  ef_header :: ethernet_header
  ef_payload :: bytes

definition ethernet_frame_new :: ethernet_frame where
  "ethernet_frame_new =
     \<lparr>ef_header = \<lparr>eh_dst = ethernet_zero, eh_src = ethernet_zero, eh_type = 0\<rparr>, ef_payload = []\<rparr>"

definition ethernet_frame_parse :: "bytes \<Rightarrow> ethernet_frame \<Rightarrow> parse_result \<times> ethernet_frame" where
  "ethernet_frame_parse buf this =
     (let (_, h, p) = ethernet_header_parse (net_parser_new buf) (ef_header this)
      in (np_error p, this\<lparr>ef_header := h, ef_payload := np_buffer p\<rparr>))"

definition ethernet_frame_serialize :: "ethernet_frame \<Rightarrow> bytes" where
  "ethernet_frame_serialize f = ethernet_header_serialize (ef_header f) @ ef_payload f"

subsection \<open>Lemmas\<close>

lemma ea_bytes_length [simp]: "length (ea_bytes a) = 6"
  by (cases a) simp

lemma ea_bytes_inject [simp]: "ea_bytes a = ea_bytes b \<longleftrightarrow> a = b"
  by (cases a; cases b) simp

lemma be_bytes_byte [simp]: "be_bytes (b :: byte) = [b]"
proof -
  have "(0xff :: byte) = mask 8" by (simp add: mask_eq_exp_minus_1)
  then have "b AND 0xff = b" by (simp only: take_bit_eq_mask [symmetric] take_bit_length_eq [of b, simplified])
  then show ?thesis by (simp add: be_bytes_def)
qed

lemma write_address_eq [put_simps]: "write_address ret a = ret @ ea_bytes a"
  by (cases a) (simp add: write_address_def put_simps)

lemma get_byte [parse_simps]:
  "np_u8 \<lparr>np_buffer = b # rest, np_error = NoError\<rparr> = (b, \<lparr>np_buffer = rest, np_error = NoError\<rparr>)"
  using get_be_bytes(3) [of b rest] by simp

lemma read_address_eq [parse_simps]:
  "read_address \<lparr>np_buffer = ea_bytes a @ rest, np_error = NoError\<rparr> = (a, \<lparr>np_buffer = rest, np_error = NoError\<rparr>)"
  by (cases a) (simp add: read_address_def parse_simps)

text \<open>An address takes part in the same interface as the integers: it is a field of six bytes.\<close>

lemma ethernet_header_serialize_eq:
  "ethernet_header_serialize h = ea_bytes (eh_dst h) @ ea_bytes (eh_src h) @ be_bytes (eh_type h)"
  by (simp add: ethernet_header_serialize_def put_simps)

lemma ethernet_header_parse_serialized:
  "ethernet_header_parse (net_parser_new (ethernet_header_serialize h @ rest)) this = (NoError, h, net_parser_new rest)"
  by (simp add: ethernet_header_parse_def ethernet_header_serialize_eq net_parser_new_def parse_simps ETHERNET_LENGTH_def
      cong: prod.case_cong_weak)

interpretation eth_wire: wire_format "\<lambda>_. True" "\<lambda>h. Inr (ethernet_header_serialize h)"
  "\<lambda>p. ethernet_header_parse p this" for this
  by unfold_locales (simp add: ethernet_header_parse_serialized)

lemma ethernet_frame_parse_serialized:
  "ethernet_frame_parse (ethernet_frame_serialize f) ethernet_frame_new = (NoError, f)"
  by (simp add: ethernet_frame_parse_def ethernet_frame_serialize_def ethernet_header_parse_serialized
      ethernet_frame_new_def) (simp add: net_parser_new_def)

interpretation eth_frame: message_format "\<lambda>_. True" "\<lambda>f. Inr (ethernet_frame_serialize f)"
  "\<lambda>bs. ethernet_frame_parse bs ethernet_frame_new" "(=)"
  by unfold_locales (simp_all add: ethernet_frame_parse_serialized)

text \<open>A frame after it has been on the wire: its payload is one buffer again, which is what \<^verbatim>\<open>recv_frame\<close> needs.\<close>

definition wire_frame :: "ethernet_frame \<Rightarrow> ethernet_frame" where
  "wire_frame f = snd (ethernet_frame_parse (ethernet_frame_serialize f) ethernet_frame_new)"

lemma wire_frame_id [simp]: "wire_frame f = f"
  by (simp add: wire_frame_def ethernet_frame_parse_serialized)

lemma two_bytes: "\<exists>v :: u16. be_bytes v = [x, y]"
proof -
  obtain v p where "np_u16 \<lparr>np_buffer = [x, y], np_error = NoError\<rparr> = (v, p)" by fastforce
  then have "nu_u16 [] v = [x, y]" by (intro u16.put_get) simp_all
  then show ?thesis by (auto simp: put_simps)
qed

lemma ethernet_frame_cover:
  assumes "14 \<le> length buf"
  shows "\<exists>f. buf = ethernet_frame_serialize f"
proof -
  obtain a b c d e f g h i j k l x y rest where buf:
      "buf = a # b # c # d # e # f # g # h # i # j # k # l # x # y # rest"
    using assms by (auto simp: numeral_eq_Suc Suc_le_length_iff)
  obtain v :: u16 where "be_bytes v = [x, y]" using two_bytes by blast
  then have "buf = ethernet_frame_serialize
      \<lparr>ef_header = \<lparr>eh_dst = EthernetAddress a b c d e f, eh_src = EthernetAddress g h i j k l, eh_type = v\<rparr>,
       ef_payload = rest\<rparr>"
    by (simp add: buf ethernet_frame_serialize_def ethernet_header_serialize_eq)
  then show ?thesis by blast
qed

subsection \<open>Properties\<close>

text \<open>Wire format of an Ethernet frame: a serialized frame is parsed back whole; every buffer of at least
  fourteen bytes is the serialization of exactly the frame that parsing it returns; and a shorter buffer is accepted as well,
  with the header the object had before and the whole buffer as payload.\<close>

theorem ethernet_frame_roundtrip:
  "ethernet_frame_parse (ethernet_frame_serialize f) ethernet_frame_new = (NoError, f) \<and>
   (if 14 \<le> length buf
    then \<exists>g. ethernet_frame_parse buf ethernet_frame_new = (NoError, g) \<and> ethernet_frame_serialize g = buf
    else ethernet_frame_parse buf ethernet_frame_new = (NoError, ethernet_frame_new\<lparr>ef_payload := buf\<rparr>))"
proof (cases "14 \<le> length buf")
  case True
  then obtain g where "buf = ethernet_frame_serialize g" using ethernet_frame_cover by blast
  with True show ?thesis by (auto simp: ethernet_frame_parse_serialized)
next
  case False
  have "ethernet_frame_parse buf ethernet_frame_new = (NoError, ethernet_frame_new\<lparr>ef_payload := buf\<rparr>)"
    using False
    by (simp add: ethernet_frame_parse_def ethernet_header_parse_def ETHERNET_LENGTH_def net_parser_new_def
        ethernet_frame_new_def)
  with False show ?thesis by (simp add: ethernet_frame_parse_serialized)
qed

end
