(* ===== verification/ARP_Message.thy ===== *)
theory ARP_Message
  imports Ethernet
begin

text \<open>
  \<^verbatim>\<open>libsponge/tcp_helpers/arp_message.{hh,cc}\<close>: the ARP message with its wire format.  A parse mutates the object it
  is called on, so the object before the call is an argument; an unsupported message leaves it with the first five
  fields overwritten.
\<close>

record arp_message =
  am_hardware_type :: u16
  am_protocol_type :: u16
  am_hardware_address_size :: byte
  am_protocol_address_size :: byte
  am_opcode :: u16
  am_sender_ethernet_address :: ethernet_address
  am_sender_ip_address :: u32
  am_target_ethernet_address :: ethernet_address
  am_target_ip_address :: u32

definition ARP_LENGTH :: nat where
  "ARP_LENGTH = 28"

definition TYPE_ETHERNET :: u16 where
  "TYPE_ETHERNET = 1"

definition OPCODE_REQUEST :: u16 where
  "OPCODE_REQUEST = 1"

definition OPCODE_REPLY :: u16 where
  "OPCODE_REPLY = 2"

definition arp_message_new :: arp_message where
  "arp_message_new =
     \<lparr>am_hardware_type = TYPE_ETHERNET, am_protocol_type = TYPE_IPv4, am_hardware_address_size = 6,
      am_protocol_address_size = 4, am_opcode = 0, am_sender_ethernet_address = ethernet_zero, am_sender_ip_address = 0,
      am_target_ethernet_address = ethernet_zero, am_target_ip_address = 0\<rparr>"

definition arp_supported :: "arp_message \<Rightarrow> bool" where
  "arp_supported m \<longleftrightarrow>
     am_hardware_type m = TYPE_ETHERNET \<and> am_protocol_type m = TYPE_IPv4 \<and>
     am_hardware_address_size m = 6 \<and> am_protocol_address_size m = 4 \<and>
     (am_opcode m = OPCODE_REQUEST \<or> am_opcode m = OPCODE_REPLY)"

definition arp_message_parse :: "bytes \<Rightarrow> arp_message \<Rightarrow> parse_result \<times> arp_message" where
  "arp_message_parse buf this =
     (let p = net_parser_new buf
      in if length (np_buffer p) < ARP_LENGTH then (PacketTooShort, this)
         else
           (let (ht, p) = np_u16 p;
                (pt, p) = np_u16 p;
                (hs, p) = np_u8 p;
                (ps, p) = np_u8 p;
                (oc, p) = np_u16 p;
                this = this\<lparr>am_hardware_type := ht, am_protocol_type := pt, am_hardware_address_size := hs,
                            am_protocol_address_size := ps, am_opcode := oc\<rparr>
            in if \<not> arp_supported this then (Unsupported, this)
               else
                 (let (sea, p) = read_address p;
                      (sip, p) = np_u32 p;
                      (tea, p) = read_address p;
                      (tip, p) = np_u32 p
                  in (np_error p, this\<lparr>am_sender_ethernet_address := sea, am_sender_ip_address := sip,
                                       am_target_ethernet_address := tea, am_target_ip_address := tip\<rparr>))))"

definition arp_message_serialize :: "arp_message \<Rightarrow> exn + bytes" where
  "arp_message_serialize m =
     (if \<not> arp_supported m
      then Inl (Runtime_error
        ''ARPMessage::serialize(): unsupported field combination (must be Ethernet/IP, and request or reply)'')
      else
        (let ret = [];
             ret = nu_u16 ret (am_hardware_type m);
             ret = nu_u16 ret (am_protocol_type m);
             ret = nu_u8 ret (am_hardware_address_size m);
             ret = nu_u8 ret (am_protocol_address_size m);
             ret = nu_u16 ret (am_opcode m);
             ret = write_address ret (am_sender_ethernet_address m);
             ret = nu_u32 ret (am_sender_ip_address m);
             ret = write_address ret (am_target_ethernet_address m);
             ret = nu_u32 ret (am_target_ip_address m)
         in Inr ret))"

subsection \<open>Lemmas\<close>

text \<open>The bytes of a message, whatever its fields.\<close>

definition arp_bytes :: "arp_message \<Rightarrow> bytes" where
  "arp_bytes m =
     be_bytes (am_hardware_type m) @ be_bytes (am_protocol_type m) @ am_hardware_address_size m #
     am_protocol_address_size m # be_bytes (am_opcode m) @ ea_bytes (am_sender_ethernet_address m) @
     be_bytes (am_sender_ip_address m) @ ea_bytes (am_target_ethernet_address m) @ be_bytes (am_target_ip_address m)"

lemma arp_serialize_eq: "arp_supported m \<Longrightarrow> arp_message_serialize m = Inr (arp_bytes m)"
  by (simp add: arp_message_serialize_def arp_bytes_def put_simps)

lemma arp_supported_fields [simp]:
  "arp_supported (m\<lparr>am_sender_ethernet_address := a\<rparr>) = arp_supported m"
  "arp_supported (m\<lparr>am_sender_ip_address := b\<rparr>) = arp_supported m"
  "arp_supported (m\<lparr>am_target_ethernet_address := c\<rparr>) = arp_supported m"
  "arp_supported (m\<lparr>am_target_ip_address := d\<rparr>) = arp_supported m"
  by (simp_all add: arp_supported_def)

lemma arp_supported_head:
  "arp_supported (this\<lparr>am_hardware_type := am_hardware_type m, am_protocol_type := am_protocol_type m,
      am_hardware_address_size := am_hardware_address_size m, am_protocol_address_size := am_protocol_address_size m,
      am_opcode := am_opcode m\<rparr>) = arp_supported m"
  by (simp add: arp_supported_def)

lemma arp_parse_bytes:
  "arp_message_parse (arp_bytes m @ rest) this =
    (if arp_supported m then (NoError, m)
     else (Unsupported, this\<lparr>am_hardware_type := am_hardware_type m, am_protocol_type := am_protocol_type m,
      am_hardware_address_size := am_hardware_address_size m, am_protocol_address_size := am_protocol_address_size m,
      am_opcode := am_opcode m\<rparr>))"
  by (simp add: arp_message_parse_def arp_bytes_def net_parser_new_def parse_simps ARP_LENGTH_def arp_supported_head
      cong: prod.case_cong_weak)

lemma arp_message_parse_serialized:
  "arp_supported m \<Longrightarrow> arp_message_serialize m = Inr bs \<Longrightarrow> arp_message_parse (bs @ rest) this = (NoError, m)"
  by (simp add: arp_serialize_eq) (use arp_parse_bytes in auto)

interpretation arp_format: message_format arp_supported arp_message_serialize
  "\<lambda>bs. arp_message_parse bs arp_message_new" "(=)"
proof unfold_locales
  fix m
  assume "arp_supported m"
  then show "\<exists>bs m'. arp_message_serialize m = Inr bs \<and> arp_message_parse bs arp_message_new = (NoError, m') \<and> m = m'"
    using arp_parse_bytes [of m "[]" arp_message_new] by (simp add: arp_serialize_eq)
qed simp

lemma four_bytes: "\<exists>v :: u32. be_bytes v = [w, x, y, z]"
proof -
  obtain v p where "np_u32 \<lparr>np_buffer = [w, x, y, z], np_error = NoError\<rparr> = (v, p)" by fastforce
  then have "nu_u32 [] v = [w, x, y, z]" by (intro u32.put_get) simp_all
  then show ?thesis by (auto simp: put_simps)
qed

lemma six_bytes: "length bs = 6 \<Longrightarrow> \<exists>a. ea_bytes a = bs"
  by (auto simp: numeral_eq_Suc length_Suc_conv) (metis ea_bytes.simps)

lemma field_u16: "length bs = 2 \<Longrightarrow> \<exists>v :: u16. be_bytes v = bs"
  using two_bytes by (auto simp: numeral_eq_Suc length_Suc_conv)

lemma field_u32: "length bs = 4 \<Longrightarrow> \<exists>v :: u32. be_bytes v = bs"
  using four_bytes by (auto simp: numeral_eq_Suc length_Suc_conv)

lemma cut_field:
  assumes "n + k \<le> length buf"
  obtains x rest where "buf = x @ rest" "length x = n" "k \<le> length rest"
  using that [of "take n buf" "drop n buf"] assms by simp

text \<open>Every buffer that is long enough starts with the bytes of some message.\<close>

lemma arp_cover:
  assumes "28 \<le> length buf"
  shows "\<exists>m rest. buf = arp_bytes m @ rest"
proof -
  obtain x1 r1 where 1: "buf = x1 @ r1" "length x1 = 2" "26 \<le> length r1" by (rule cut_field [of 2 26 buf, simplified, OF assms])
  obtain x2 r2 where 2: "r1 = x2 @ r2" "length x2 = 2" "24 \<le> length r2" by (rule cut_field [of 2 24 r1, simplified, OF 1(3)])
  obtain b3 b4 r4 where 4: "r2 = b3 # b4 # r4" "22 \<le> length r4"
    using 2(3) by (cases r2; cases "tl r2"; auto)
  obtain x5 r5 where 5: "r4 = x5 @ r5" "length x5 = 2" "20 \<le> length r5" by (rule cut_field [of 2 20 r4, simplified, OF 4(2)])
  obtain x6 r6 where 6: "r5 = x6 @ r6" "length x6 = 6" "14 \<le> length r6" by (rule cut_field [of 6 14 r5, simplified, OF 5(3)])
  obtain x7 r7 where 7: "r6 = x7 @ r7" "length x7 = 4" "10 \<le> length r7" by (rule cut_field [of 4 10 r6, simplified, OF 6(3)])
  obtain x8 r8 where 8: "r7 = x8 @ r8" "length x8 = 6" "4 \<le> length r8" by (rule cut_field [of 6 4 r7, simplified, OF 7(3)])
  obtain x9 r9 where 9: "r8 = x9 @ r9" "length x9 = 4" by (rule cut_field [of 4 0 r8, simplified, OF 8(3)])
  obtain ht pt oc :: u16 where h: "be_bytes ht = x1" "be_bytes pt = x2" "be_bytes oc = x5"
    using field_u16 1(2) 2(2) 5(2) by blast
  obtain sip tip :: u32 where ip: "be_bytes sip = x7" "be_bytes tip = x9" using field_u32 7(2) 9(2) by blast
  obtain sea tea where ea: "ea_bytes sea = x6" "ea_bytes tea = x8" using six_bytes 6(2) 8(2) by blast
  have "buf = arp_bytes \<lparr>am_hardware_type = ht, am_protocol_type = pt, am_hardware_address_size = b3,
      am_protocol_address_size = b4, am_opcode = oc, am_sender_ethernet_address = sea, am_sender_ip_address = sip,
      am_target_ethernet_address = tea, am_target_ip_address = tip\<rparr> @ r9"
    by (simp add: arp_bytes_def h ip ea 1(1) 2(1) 4(1) 5(1) 6(1) 7(1) 8(1) 9(1))
  then show ?thesis by blast
qed

lemma arp_bytes_length: "length (arp_bytes m) = 28"
  by (simp add: arp_bytes_def)

subsection \<open>Properties\<close>

text \<open>Wire format of an ARP message: a supported message (Ethernet and IPv4, request or reply) is
  serialized and read back whatever follows it, any other is refused by an exception.  Conversely \<^verbatim>\<open>parse\<close> answers
  \<open>PacketTooShort\<close> exactly below 28 bytes, and a message it accepts is supported and serializes to the first 28 bytes
  of the buffer.\<close>

theorem arp_message_roundtrip:
  assumes "arp_message_parse buf this = (r, m')"
  shows "(if arp_supported m
      then \<exists>bs. arp_message_serialize m = Inr bs \<and> arp_message_parse (bs @ rest) this = (NoError, m)
      else \<exists>e. arp_message_serialize m = Inl (Runtime_error e)) \<and>
    (r = PacketTooShort \<longleftrightarrow> length buf < 28) \<and>
    (r = NoError \<longrightarrow> arp_supported m' \<and> arp_message_serialize m' = Inr (take 28 buf)) \<and>
    (r = NoError \<or> r = PacketTooShort \<or> r = Unsupported)"
proof -
  have ser: "if arp_supported m
      then \<exists>bs. arp_message_serialize m = Inr bs \<and> arp_message_parse (bs @ rest) this = (NoError, m)
      else \<exists>e. arp_message_serialize m = Inl (Runtime_error e)"
    using arp_parse_bytes [of m rest this] by (simp add: arp_serialize_eq) (simp add: arp_message_serialize_def)
  show ?thesis
  proof (cases "28 \<le> length buf")
    case True
    then obtain n tail where buf: "buf = arp_bytes n @ tail" using arp_cover by blast
    with assms True ser show ?thesis
      by (auto simp: arp_parse_bytes arp_serialize_eq arp_bytes_length split: if_splits)
  next
    case False
    with assms have "r = PacketTooShort" by (simp add: arp_message_parse_def ARP_LENGTH_def net_parser_new_def)
    with ser False show ?thesis by simp
  qed
qed

theorem arp_message_roundtrip_witness:
  "\<exists>bs. arp_message_serialize (arp_message_new\<lparr>am_opcode := OPCODE_REPLY\<rparr>) = Inr bs \<and>
     arp_message_parse (bs @ [7]) arp_message_new = (NoError, arp_message_new\<lparr>am_opcode := OPCODE_REPLY\<rparr>)"
proof -
  have s: "arp_supported (arp_message_new\<lparr>am_opcode := OPCODE_REPLY\<rparr>)" by (simp add: arp_supported_def arp_message_new_def)
  have "arp_message_parse [1, 2] arp_message_new = (PacketTooShort, arp_message_new)"
    by (simp add: arp_message_parse_def ARP_LENGTH_def net_parser_new_def)
  from arp_message_roundtrip [OF this, of "arp_message_new\<lparr>am_opcode := OPCODE_REPLY\<rparr>" "[7]"] s show ?thesis by simp
qed

end
