(* ===== verification/Address.thy ===== *)
theory Address
  imports Net_Parser Number_Text
begin

unbundle bit_operations_syntax

text \<open>
  \<^verbatim>\<open>libsponge/util/address.{hh,cc}\<close>: socket addresses.  The storage is the byte string that the kernel interface
  lays out for \<^verbatim>\<open>sockaddr_storage\<close> and \<^verbatim>\<open>sockaddr_in\<close> on x86-64 Linux (the family in host order, little-endian; port and
  address in network order).  The two functions of the C library that resolve names, \<^verbatim>\<open>getaddrinfo\<close> and \<^verbatim>\<open>getnameinfo\<close>,
  are parameters; what the code relies on is their documented behaviour on numeric hosts and services, stated by
  \<open>numeric_resolver\<close> and \<open>numeric_namer\<close>.  A concrete resolver that parses numbers satisfies both.
\<close>

record address =
  ad_size :: nat
  ad_storage :: bytes

definition SIZEOF_STORAGE :: nat where
  "SIZEOF_STORAGE = 128"

definition SIZEOF_SOCKADDR_IN :: nat where
  "SIZEOF_SOCKADDR_IN = 16"

definition AF_INET :: nat where
  "AF_INET = 2"

definition address_of_sockaddr :: "bytes \<Rightarrow> exn + address" where
  "address_of_sockaddr addr =
     (if length addr > SIZEOF_STORAGE then Inl (Runtime_error ''invalid sockaddr size'')
      else Inr \<lparr>ad_size = length addr, ad_storage = resize SIZEOF_STORAGE addr\<rparr>)"

text \<open>\<^verbatim>\<open>struct sockaddr_in\<close> and its fields.\<close>

definition sockaddr_in :: "u32 \<Rightarrow> u16 \<Rightarrow> bytes" where
  "sockaddr_in ip port = [2, 0] @ be_bytes port @ be_bytes ip @ replicate 8 0"

definition ss_family :: "bytes \<Rightarrow> nat" where
  "ss_family s = unat (s ! 0) + 256 * unat (s ! 1)"

definition ipv4_numeric :: "address \<Rightarrow> exn + u32" where
  "ipv4_numeric a =
     (if ss_family (ad_storage a) \<noteq> AF_INET \<or> ad_size a \<noteq> SIZEOF_SOCKADDR_IN
      then Inl (Runtime_error ''ipv4_numeric called on non-IPV4 address'')
      else Inr (be_value (take 4 (drop 4 (ad_storage a)))))"

definition from_ipv4_numeric :: "u32 \<Rightarrow> exn + address" where
  "from_ipv4_numeric ip_address = address_of_sockaddr (sockaddr_in ip_address 0)"

definition address_eq :: "address \<Rightarrow> address \<Rightarrow> bool" where
  "address_eq a b \<longleftrightarrow> ad_size a = ad_size b \<and> take (ad_size a) (ad_storage a) = take (ad_size a) (ad_storage b)"

subsection \<open>Resolving\<close>

record addrinfo_hints =
  ai_flags :: int
  ai_family :: nat

definition AI_NUMERICHOST :: int where
  "AI_NUMERICHOST = 4"

definition AI_NUMERICSERV :: int where
  "AI_NUMERICSERV = 0x400"

definition AI_ALL :: int where
  "AI_ALL = 0x10"

definition make_hints :: "int \<Rightarrow> nat \<Rightarrow> addrinfo_hints" where
  "make_hints flags family = \<lparr>ai_flags = flags, ai_family = family\<rparr>"

text \<open>The return value of \<^verbatim>\<open>getaddrinfo\<close> and the address of the first entry of its result list, if there is one; the
  return value of \<^verbatim>\<open>getnameinfo\<close> with the host and service strings.\<close>

type_synonym resolver = "string \<Rightarrow> string \<Rightarrow> addrinfo_hints \<Rightarrow> int \<times> bytes option"
type_synonym namer = "bytes \<Rightarrow> int \<times> string \<times> string"

definition address_resolve :: "resolver \<Rightarrow> string \<Rightarrow> string \<Rightarrow> addrinfo_hints \<Rightarrow> exn + address" where
  "address_resolve gai node service hints =
     (let (gai_ret, resolved_address) = gai node service hints
      in if gai_ret \<noteq> 0 then Inl (Runtime_error (''getaddrinfo('' @ node @ '', '' @ service @ '')''))
         else case resolved_address of
                None \<Rightarrow> Inl (Runtime_error ''getaddrinfo returned successfully but with no results'')
              | Some ai_addr \<Rightarrow> address_of_sockaddr ai_addr)"

definition address_of_host :: "resolver \<Rightarrow> string \<Rightarrow> string \<Rightarrow> exn + address" where
  "address_of_host gai hostname service = address_resolve gai hostname service (make_hints AI_ALL AF_INET)"

definition address_of_ip :: "resolver \<Rightarrow> string \<Rightarrow> u16 \<Rightarrow> exn + address" where
  "address_of_ip gai ip port =
     address_resolve gai ip (to_string (unat port)) (make_hints (AI_NUMERICHOST OR AI_NUMERICSERV) AF_INET)"

definition ip_port :: "namer \<Rightarrow> address \<Rightarrow> exn + string \<times> u16" where
  "ip_port gni a =
     (let (gni_ret, ip, port) = gni (take (ad_size a) (ad_storage a))
      in if gni_ret \<noteq> 0 then Inl (Runtime_error ''getnameinfo'')
         else case stoi port of Inl e \<Rightarrow> Inl e | Inr v \<Rightarrow> Inr (ip, word_of_int v))"

definition address_ip :: "namer \<Rightarrow> address \<Rightarrow> exn + string" where
  "address_ip gni a = (case ip_port gni a of Inl e \<Rightarrow> Inl e | Inr (ip, _) \<Rightarrow> Inr ip)"

definition address_port :: "namer \<Rightarrow> address \<Rightarrow> exn + u16" where
  "address_port gni a = (case ip_port gni a of Inl e \<Rightarrow> Inl e | Inr (_, port) \<Rightarrow> Inr port)"

definition address_to_string :: "namer \<Rightarrow> address \<Rightarrow> exn + string" where
  "address_to_string gni a =
     (case ip_port gni a of Inl e \<Rightarrow> Inl e | Inr (ip, port) \<Rightarrow> Inr (ip @ '':'' @ to_string (unat port)))"

text \<open>\<^verbatim>\<open>inet_ntoa\<close>: the dotted quad of an address.\<close>

fun join_dots :: "string list \<Rightarrow> string" where
  "join_dots [] = ''''"
| "join_dots [x] = x"
| "join_dots (x # xs) = x @ ''.'' @ join_dots xs"

definition inet_ntoa :: "u32 \<Rightarrow> string" where
  "inet_ntoa ip = join_dots (map (\<lambda>b. to_string (unat b)) (be_bytes ip))"

text \<open>
  What the manual pages promise on numeric arguments: \<^verbatim>\<open>getaddrinfo\<close> takes a host in the notation of
  \<^verbatim>\<open>inet_aton\<close>, which reads a dotted quad and also a single number as a 32-bit address, and a service that is a decimal port;
  \<^verbatim>\<open>getnameinfo\<close> with the numeric flags returns the dotted quad and the decimal port.
\<close>

definition numeric_resolver :: "resolver \<Rightarrow> bool" where
  "numeric_resolver gai \<longleftrightarrow>
     (\<forall>(ip :: u32) (port :: u16) flags. ai_family flags = AF_INET \<longrightarrow>
        gai (inet_ntoa ip) (to_string (unat port)) flags = (0, Some (sockaddr_in ip port)) \<and>
        gai (to_string (unat ip)) (to_string (unat port)) flags = (0, Some (sockaddr_in ip port)))"

definition numeric_namer :: "namer \<Rightarrow> bool" where
  "numeric_namer gni \<longleftrightarrow>
     (\<forall>(ip :: u32) (port :: u16). gni (sockaddr_in ip port) = (0, inet_ntoa ip, to_string (unat port)))"

text \<open>The address of an IPv4 endpoint.\<close>

definition ipv4_endpoint :: "u32 \<Rightarrow> u16 \<Rightarrow> address" where
  "ipv4_endpoint ip port = \<lparr>ad_size = SIZEOF_SOCKADDR_IN, ad_storage = resize SIZEOF_STORAGE (sockaddr_in ip port)\<rparr>"

subsection \<open>Lemmas\<close>

lemma sockaddr_in_length [simp]: "length (sockaddr_in ip port) = 16"
  by (simp add: sockaddr_in_def)

lemma address_of_sockaddr_in: "address_of_sockaddr (sockaddr_in ip port) = Inr (ipv4_endpoint ip port)"
  by (simp add: address_of_sockaddr_def ipv4_endpoint_def SIZEOF_STORAGE_def SIZEOF_SOCKADDR_IN_def)

lemma ipv4_numeric_endpoint [simp]: "ipv4_numeric (ipv4_endpoint ip port) = Inr ip"
proof -
  have s: "ad_storage (ipv4_endpoint ip port) = [2, 0] @ be_bytes port @ be_bytes ip @ replicate 120 0"
    unfolding ipv4_endpoint_def by (simp add: resize_def sockaddr_in_def SIZEOF_STORAGE_def replicate_add [symmetric])
  have "ss_family (ad_storage (ipv4_endpoint ip port)) = AF_INET" by (simp add: s ss_family_def AF_INET_def)
  moreover have "ad_size (ipv4_endpoint ip port) = SIZEOF_SOCKADDR_IN" by (simp add: ipv4_endpoint_def)
  moreover have "take 4 (drop 4 (ad_storage (ipv4_endpoint ip port))) = be_bytes ip" by (simp add: s)
  ultimately show ?thesis by (simp add: ipv4_numeric_def be_value_be_bytes)
qed

lemma from_ipv4_numeric_endpoint: "from_ipv4_numeric ip = Inr (ipv4_endpoint ip 0)"
  by (simp add: from_ipv4_numeric_def address_of_sockaddr_in)

subsection \<open>Numeric hosts and services\<close>

lemma address_of_ip_dotted:
  "numeric_resolver gai \<Longrightarrow> address_of_ip gai (inet_ntoa ip) port = Inr (ipv4_endpoint ip port)"
  by (simp add: address_of_ip_def address_resolve_def numeric_resolver_def make_hints_def address_of_sockaddr_in)

lemma address_of_ip_number:
  "numeric_resolver gai \<Longrightarrow> address_of_ip gai (to_string (unat ip)) port = Inr (ipv4_endpoint ip port)"
  by (simp add: address_of_ip_def address_resolve_def numeric_resolver_def make_hints_def address_of_sockaddr_in)

lemma endpoint_bytes [simp]:
  "take (ad_size (ipv4_endpoint ip port)) (ad_storage (ipv4_endpoint ip port)) = sockaddr_in ip port"
  by (simp add: ipv4_endpoint_def resize_def SIZEOF_SOCKADDR_IN_def SIZEOF_STORAGE_def)

lemma ip_port_endpoint:
  assumes "numeric_namer gni"
  shows "ip_port gni (ipv4_endpoint ip port) = Inr (inet_ntoa ip, port)"
proof -
  have "stoi (to_string (unat port)) = Inr (int (unat port))"
    using unat_u16_less [of port] by (intro stoi_to_string) simp
  then show ?thesis using assms by (simp add: ip_port_def numeric_namer_def)
qed

lemma address_port_endpoint [simp]:
  "numeric_namer gni \<Longrightarrow> address_port gni (ipv4_endpoint ip port) = Inr port"
  by (simp add: address_port_def ip_port_endpoint)

lemma sockaddr_in_inject: "sockaddr_in ip port = sockaddr_in ip' port' \<longleftrightarrow> ip = ip' \<and> port = port'"
proof
  assume eq: "sockaddr_in ip port = sockaddr_in ip' port'"
  then have "take 2 (drop 2 (sockaddr_in ip port)) = take 2 (drop 2 (sockaddr_in ip' port'))"
    "take 4 (drop 4 (sockaddr_in ip port)) = take 4 (drop 4 (sockaddr_in ip' port'))" by simp_all
  then have "be_bytes port = be_bytes port'" "be_bytes ip = be_bytes ip'" by (simp_all add: sockaddr_in_def)
  then show "ip = ip' \<and> port = port'"
    using u16.put_inj [of port port'] u32.put_inj [of ip ip'] by (simp add: put_simps)
qed simp

lemma address_eq_endpoint: "address_eq (ipv4_endpoint ip port) (ipv4_endpoint ip' port') \<longleftrightarrow> ip = ip' \<and> port = port'"
proof -
  have "ad_size (ipv4_endpoint ip port) = ad_size (ipv4_endpoint ip' port')" by (simp add: ipv4_endpoint_def)
  then show ?thesis
    using endpoint_bytes [of ip port] endpoint_bytes [of ip' port'] by (simp add: address_eq_def sockaddr_in_inject)
qed

text \<open>A resolver that only knows numbers, and the namer that goes with it.\<close>

fun split_dots :: "string \<Rightarrow> string list" where
  "split_dots [] = [[]]"
| "split_dots (c # s) = (if c = CHR ''.'' then [] # split_dots s
                         else case split_dots s of [] \<Rightarrow> [[c]] | x # xs \<Rightarrow> (c # x) # xs)"

definition inet_aton :: "string \<Rightarrow> u32" where
  "inet_aton s =
     (case map digits_value (split_dots s) of
        [n] \<Rightarrow> word_of_nat n
      | ns \<Rightarrow> be_value (map word_of_nat ns))"

definition number_resolver :: resolver where
  "number_resolver node service hints =
     (0, Some (sockaddr_in (inet_aton node) (word_of_nat (digits_value service))))"

definition number_namer :: namer where
  "number_namer bs = (0, inet_ntoa (be_value (take 4 (drop 4 bs))), to_string (unat (be_value (take 2 (drop 2 bs)) :: u16)))"

lemma split_dots_plain: "CHR ''.'' \<notin> set x \<Longrightarrow> split_dots x = [x]"
  by (induction x) auto

lemma split_dots_append: "CHR ''.'' \<notin> set x \<Longrightarrow> split_dots (x @ ''.'' @ s) = x # split_dots s"
  by (induction x) auto

lemma to_string_no_dot: "CHR ''.'' \<notin> set (to_string n)"
  using to_string_digits [of n] by (auto simp: is_digit_def)

lemma split_dots_join: "xs \<noteq> [] \<Longrightarrow> split_dots (join_dots (map to_string xs)) = map to_string xs"
proof (induction xs rule: induct_list012)
  case (3 x y zs)
  then show ?case
    using split_dots_append [OF to_string_no_dot, of x "join_dots (map to_string (y # zs))"] by simp
qed (simp_all add: split_dots_plain to_string_no_dot)

lemma inet_aton_ntoa: "inet_aton (inet_ntoa ip) = ip"
proof -
  obtain a b c d where ip: "be_bytes ip = [a, b, c, d]"
  proof -
    have "length (be_bytes ip) = Suc (Suc (Suc (Suc 0)))" by simp
    then show ?thesis using that by (auto simp only: length_Suc_conv length_0_conv)
  qed
  have "be_value [a, b, c, d] = ip" using be_value_be_bytes [of 4 ip] by (simp add: ip)
  moreover have "split_dots (inet_ntoa ip) = map to_string (map unat [a, b, c, d])"
    using split_dots_join [of "map unat [a, b, c, d]"] by (simp add: inet_ntoa_def ip)
  ultimately show ?thesis by (simp add: inet_aton_def)
qed

lemma number_resolver_numeric: "numeric_resolver number_resolver"
  by (simp add: numeric_resolver_def number_resolver_def inet_aton_ntoa)
    (simp add: inet_aton_def split_dots_plain to_string_no_dot)

lemma number_namer_numeric: "numeric_namer number_namer"
  by (simp add: numeric_namer_def number_namer_def sockaddr_in_def be_value_be_bytes)

subsection \<open>Properties\<close>

text \<open>Addresses round-trip: with a resolver and a namer that treat numeric hosts and services as their manual
  pages say, the address made from a dotted quad (or from the number, as the router writes it) and a port has that IPv4
  number, prints as that quad and port, and is equal to another such address exactly when number and port agree; an address
  made from a number has port zero; and bytes that are not an IPv4 socket address are refused.\<close>

theorem address_roundtrip:
  assumes "numeric_resolver gai" "numeric_namer gni"
  shows "(\<exists>a b. address_of_ip gai (inet_ntoa ip) port = Inr a \<and>
      address_of_ip gai (to_string (unat ip)) port = Inr a \<and>
      ipv4_numeric a = Inr ip \<and> ip_port gni a = Inr (inet_ntoa ip, port) \<and>
      address_to_string gni a = Inr (inet_ntoa ip @ '':'' @ to_string (unat port)) \<and>
      address_of_ip gai (inet_ntoa ip') port' = Inr b \<and> (address_eq a b \<longleftrightarrow> ip = ip' \<and> port = port')) \<and>
    from_ipv4_numeric ip = address_of_ip gai (inet_ntoa ip) 0 \<and>
    (if ad_size c = SIZEOF_SOCKADDR_IN \<and> ss_family (ad_storage c) = AF_INET
     then \<exists>n. ipv4_numeric c = Inr n else \<exists>e. ipv4_numeric c = Inl (Runtime_error e))"
proof -
  have "address_to_string gni (ipv4_endpoint ip port) = Inr (inet_ntoa ip @ '':'' @ to_string (unat port))"
    by (simp add: address_to_string_def ip_port_endpoint [OF assms(2)])
  moreover have "if ad_size c = SIZEOF_SOCKADDR_IN \<and> ss_family (ad_storage c) = AF_INET
      then \<exists>n. ipv4_numeric c = Inr n else \<exists>e. ipv4_numeric c = Inl (Runtime_error e)"
    by (auto simp: ipv4_numeric_def)
  moreover have "from_ipv4_numeric ip = address_of_ip gai (inet_ntoa ip) 0"
    by (simp add: address_of_ip_dotted [OF assms(1)] from_ipv4_numeric_endpoint)
  ultimately show ?thesis
    using address_of_ip_dotted [OF assms(1)] address_of_ip_number [OF assms(1)] ip_port_endpoint [OF assms(2)]
      ipv4_numeric_endpoint address_eq_endpoint by blast
qed

theorem address_roundtrip_witness:
  "address_of_ip number_resolver (inet_ntoa 0x0a000001) 80 = address_of_ip number_resolver (to_string (unat (0x0a000001 :: u32))) 80 \<and>
   from_ipv4_numeric 7 = address_of_ip number_resolver (inet_ntoa 7) 0"
proof -
  note rt = address_roundtrip [OF number_resolver_numeric number_namer_numeric]
  have "address_of_ip number_resolver (inet_ntoa 0x0a000001) 80 =
      address_of_ip number_resolver (to_string (unat (0x0a000001 :: u32))) 80"
    using rt [THEN conjunct1, of "0x0a000001" 80 0 0] by force
  moreover have "from_ipv4_numeric 7 = address_of_ip number_resolver (inet_ntoa 7) 0"
    using rt [THEN conjunct2, THEN conjunct1, of 7] .
  ultimately show ?thesis by (rule conjI)
qed

end
