(* ===== verification/Network_Interface.thy ===== *)
theory Network_Interface
  imports IPv4 ARP_Message Address "HOL-Library.AList"
begin

text \<open>
  \<^verbatim>\<open>libsponge/network_interface.{hh,cc}\<close>: the interface that sends IPv4 datagrams in Ethernet frames and resolves next
  hops with ARP.  The four hash maps are association lists with one entry per key; the code only looks up, inserts and
  erases by key, except in \<^verbatim>\<open>tick\<close>, where the order does not matter.  The clock is a 32-bit number that wraps.  A method
  returns the state it leaves, also when it throws, and its outcome.  In \<^verbatim>\<open>tick\<close> the range-for loop goes on from an element
  that its body has erased, a step without a meaning in C++: the outcome is then \<open>Undefined_behaviour\<close>, and the state beside it is the one that
  is left where the loop does go on to the elements behind, as \<^verbatim>\<open>tests/net_interface.cc\<close> expects of it.
  A payload is modelled by its bytes.  The code turns the payload of a received frame into one buffer and throws if it has
  several parts; a frame that has been on the wire has one, so the theorems hand over frames through \<open>wire_frame\<close>.
\<close>

record network_interface =
  ni_ethernet_address :: ethernet_address
  ni_ip_address :: address
  ni_frames_out :: "ethernet_frame list"
  ni_ip_address_map :: "(u32 \<times> ethernet_address) list"
  ni_map_time :: "(u32 \<times> u32) list"
  ni_unsend_frame :: "(u32 \<times> ethernet_frame list) list"
  ni_latest_arp_time :: "(u32 \<times> u32) list"
  ni_now_time :: u32

definition network_interface_new :: "ethernet_address \<Rightarrow> address \<Rightarrow> network_interface" where
  "network_interface_new ethernet_address ip_address =
     \<lparr>ni_ethernet_address = ethernet_address, ni_ip_address = ip_address, ni_frames_out = [], ni_ip_address_map = [],
      ni_map_time = [], ni_unsend_frame = [], ni_latest_arp_time = [], ni_now_time = 0\<rparr>"

text \<open>\<^verbatim>\<open>operator[]\<close> of the map of pending frames creates an empty vector.\<close>

definition unsend_of :: "network_interface \<Rightarrow> u32 \<Rightarrow> ethernet_frame list" where
  "unsend_of ni ip = (case map_of (ni_unsend_frame ni) ip of None \<Rightarrow> [] | Some fs \<Rightarrow> fs)"

definition arp_recently_sent :: "network_interface \<Rightarrow> u32 \<Rightarrow> bool" where
  "arp_recently_sent ni ip =
     (case map_of (ni_latest_arp_time ni) ip of None \<Rightarrow> False | Some t \<Rightarrow> ni_now_time ni - t < 5000)"

definition frame_to :: "ethernet_address \<Rightarrow> ethernet_frame \<Rightarrow> ethernet_frame" where
  "frame_to dst f = f\<lparr>ef_header := (ef_header f)\<lparr>eh_dst := dst\<rparr>\<rparr>"

definition push_frame :: "ethernet_frame \<Rightarrow> network_interface \<Rightarrow> network_interface" where
  "push_frame f ni = ni\<lparr>ni_frames_out := ni_frames_out ni @ [f]\<rparr>"

definition send_datagram :: "network_interface \<Rightarrow> ipv4_datagram \<Rightarrow> address \<Rightarrow> network_interface \<times> (exn + unit)" where
  "send_datagram ni dgram next_hop =
     (case ipv4_datagram_serialize dgram of
        Inl e \<Rightarrow> (ni, Inl e)
      | Inr payload \<Rightarrow>
          (let frame = \<lparr>ef_header = \<lparr>eh_dst = ethernet_zero, eh_src = ni_ethernet_address ni, eh_type = TYPE_IPv4\<rparr>,
                        ef_payload = payload\<rparr>
           in case ipv4_numeric next_hop of
                Inl e \<Rightarrow> (ni, Inl e)
              | Inr next_hop_ip \<Rightarrow>
                  (case map_of (ni_ip_address_map ni) next_hop_ip of
                     Some mac \<Rightarrow> (push_frame (frame_to mac frame) ni, Inr ())
                   | None \<Rightarrow>
                       (let ni = ni\<lparr>ni_unsend_frame :=
                                      AList.update next_hop_ip (unsend_of ni next_hop_ip @ [frame]) (ni_unsend_frame ni)\<rparr>
                        in if arp_recently_sent ni next_hop_ip then (ni, Inr ())
                           else case ipv4_numeric (ni_ip_address ni) of
                                  Inl e \<Rightarrow> (ni, Inl e)
                                | Inr my_ip \<Rightarrow>
                                    (let arp = arp_message_new\<lparr>am_opcode := OPCODE_REQUEST,
                                           am_sender_ip_address := my_ip,
                                           am_sender_ethernet_address := ni_ethernet_address ni,
                                           am_target_ethernet_address := ethernet_zero,
                                           am_target_ip_address := next_hop_ip\<rparr>
                                     in case arp_message_serialize arp of
                                          Inl e \<Rightarrow> (ni, Inl e)
                                        | Inr arp_payload \<Rightarrow>
                                            (let arp_frame = \<lparr>ef_header = \<lparr>eh_dst = ETHERNET_BROADCAST,
                                                   eh_src = ni_ethernet_address ni, eh_type = TYPE_ARP\<rparr>,
                                                   ef_payload = arp_payload\<rparr>;
                                                 ni = push_frame arp_frame ni
                                             in (ni\<lparr>ni_latest_arp_time :=
                                                      AList.update next_hop_ip (ni_now_time ni) (ni_latest_arp_time ni)\<rparr>,
                                                 Inr ())))))))"

fun is_equal_loop :: "bytes \<Rightarrow> bytes \<Rightarrow> bool" where
  "is_equal_loop (a # as) (b # bs) = (if a \<noteq> b then False else is_equal_loop as bs)"
| "is_equal_loop as bs = True"

definition is_equal :: "ethernet_address \<Rightarrow> ethernet_address \<Rightarrow> bool" where
  "is_equal a b = is_equal_loop (ea_bytes a) (ea_bytes b)"

text \<open>The branch of \<^verbatim>\<open>recv_frame\<close> for ARP messages.\<close>

definition recv_arp :: "network_interface \<Rightarrow> arp_message \<Rightarrow> network_interface \<times> (exn + unit)" where
  "recv_arp ni msg =
     (let sip = am_sender_ip_address msg;
          sea = am_sender_ethernet_address msg;
          ni = ni\<lparr>ni_ip_address_map := AList.update sip sea (ni_ip_address_map ni),
                  ni_map_time := AList.update sip (ni_now_time ni) (ni_map_time ni)\<rparr>;
          answer = (if am_opcode msg = OPCODE_REQUEST
                    then (case ipv4_numeric (ni_ip_address ni) of
                            Inl e \<Rightarrow> Inl e
                          | Inr my_ip \<Rightarrow> Inr (if am_target_ip_address msg = my_ip then Some my_ip else None))
                    else Inr None)
      in case answer of
           Inl e \<Rightarrow> (ni, Inl e)
         | Inr (Some my_ip) \<Rightarrow>
             (let arp = arp_message_new\<lparr>am_sender_ip_address := my_ip,
                    am_sender_ethernet_address := ni_ethernet_address ni,
                    am_target_ip_address := sip,
                    am_target_ethernet_address := sea,
                    am_opcode := OPCODE_REPLY\<rparr>
              in case arp_message_serialize arp of
                   Inl e \<Rightarrow> (ni, Inl e)
                 | Inr payload \<Rightarrow>
                     (push_frame \<lparr>ef_header = \<lparr>eh_dst = sea, eh_src = ni_ethernet_address ni, eh_type = TYPE_ARP\<rparr>,
                                  ef_payload = payload\<rparr> ni, Inr ()))
         | Inr None \<Rightarrow>
             (case map_of (ni_unsend_frame ni) sip of
                None \<Rightarrow> (ni, Inr ())
              | Some fs \<Rightarrow>
                  (let ni = foldl (\<lambda>ni x. push_frame (frame_to sea x) ni) ni fs
                   in (ni\<lparr>ni_unsend_frame := AList.delete sip (ni_unsend_frame ni),
                          ni_latest_arp_time := AList.delete sip (ni_latest_arp_time ni)\<rparr>, Inr ()))))"

definition recv_frame ::
    "network_interface \<Rightarrow> ethernet_frame \<Rightarrow> network_interface \<times> (exn + ipv4_datagram option)" where
  "recv_frame ni frame =
     (if \<not> is_equal (eh_dst (ef_header frame)) (ni_ethernet_address ni) \<and>
         \<not> is_equal (eh_dst (ef_header frame)) ETHERNET_BROADCAST
      then (ni, Inr None)
      else if eh_type (ef_header frame) = TYPE_IPv4
      then (let (res, ipdata) = ipv4_datagram_parse (ef_payload frame) ipv4_datagram_new
            in if res = NoError then (ni, Inr (Some ipdata)) else (ni, Inr None))
      else (let (res, msg) = arp_message_parse (ef_payload frame) arp_message_new
            in if res = NoError
               then (case recv_arp ni msg of (ni, Inl e) \<Rightarrow> (ni, Inl e) | (ni, Inr _) \<Rightarrow> (ni, Inr None))
               else (ni, Inr None)))"

definition expired :: "u32 \<Rightarrow> u32 \<Rightarrow> bool" where
  "expired now t \<longleftrightarrow> now - t \<ge> 30000"

text \<open>The loop of \<^verbatim>\<open>tick\<close> over the elements that the map has at the start.\<close>

definition erase_mapping :: "u32 \<Rightarrow> network_interface \<Rightarrow> network_interface" where
  "erase_mapping ip ni =
     ni\<lparr>ni_map_time := AList.delete ip (ni_map_time ni), ni_ip_address_map := AList.delete ip (ni_ip_address_map ni)\<rparr>"

fun tick_loop :: "(u32 \<times> u32) list \<Rightarrow> network_interface \<Rightarrow> network_interface" where
  "tick_loop [] ni = ni"
| "tick_loop ((ip, t) # xs) ni = tick_loop xs (if expired (ni_now_time ni) t then erase_mapping ip ni else ni)"

definition ni_tick :: "network_interface \<Rightarrow> nat \<Rightarrow> network_interface \<times> (exn + unit)" where
  "ni_tick ni ms_since_last_tick =
     (let ni = ni\<lparr>ni_now_time := ni_now_time ni + word_of_nat ms_since_last_tick\<rparr>
      in (tick_loop (ni_map_time ni) ni,
          if \<exists>(ip, t) \<in> set (ni_map_time ni). expired (ni_now_time ni) t
          then Inl (Undefined_behaviour ''range-for loop over map_time continues from an erased element'') else Inr ()))"

subsection \<open>Lemmas\<close>

lemma is_equal_loop_eq: "length as = length bs \<Longrightarrow> is_equal_loop as bs \<longleftrightarrow> as = bs"
  by (induction as bs rule: list_induct2) simp_all

lemma is_equal_iff [simp]: "is_equal a b \<longleftrightarrow> a = b"
  by (simp add: is_equal_def is_equal_loop_eq)

lemma push_frame_simps [simp]:
  "ni_frames_out (push_frame f ni) = ni_frames_out ni @ [f]"
  "ni_ethernet_address (push_frame f ni) = ni_ethernet_address ni"
  "ni_ip_address (push_frame f ni) = ni_ip_address ni"
  "ni_ip_address_map (push_frame f ni) = ni_ip_address_map ni"
  "ni_map_time (push_frame f ni) = ni_map_time ni"
  "ni_unsend_frame (push_frame f ni) = ni_unsend_frame ni"
  "ni_latest_arp_time (push_frame f ni) = ni_latest_arp_time ni"
  "ni_now_time (push_frame f ni) = ni_now_time ni"
  by (simp_all add: push_frame_def)

lemma push_frames_eq:
  "foldl (\<lambda>ni x. push_frame (g x) ni) ni fs = ni\<lparr>ni_frames_out := ni_frames_out ni @ map g fs\<rparr>"
  by (induction fs arbitrary: ni) (simp_all add: push_frame_def)

text \<open>The two messages an interface sends.\<close>

definition arp_request :: "u32 \<Rightarrow> ethernet_address \<Rightarrow> u32 \<Rightarrow> arp_message" where
  "arp_request my_ip mac nh = arp_message_new\<lparr>am_opcode := OPCODE_REQUEST, am_sender_ip_address := my_ip,
     am_sender_ethernet_address := mac, am_target_ethernet_address := ethernet_zero, am_target_ip_address := nh\<rparr>"

definition arp_reply :: "u32 \<Rightarrow> ethernet_address \<Rightarrow> u32 \<Rightarrow> ethernet_address \<Rightarrow> arp_message" where
  "arp_reply my_ip mac sip sea = arp_message_new\<lparr>am_sender_ip_address := my_ip, am_sender_ethernet_address := mac,
     am_target_ip_address := sip, am_target_ethernet_address := sea, am_opcode := OPCODE_REPLY\<rparr>"

lemma arp_messages_supported [simp]: "arp_supported (arp_request a b c)" "arp_supported (arp_reply a b d e)"
  by (simp_all add: arp_supported_def arp_request_def arp_reply_def arp_message_new_def)

lemma arp_message_fields [simp]:
  "am_opcode (arp_request a b c) = OPCODE_REQUEST" "am_sender_ip_address (arp_request a b c) = a"
  "am_sender_ethernet_address (arp_request a b c) = b" "am_target_ip_address (arp_request a b c) = c"
  "am_opcode (arp_reply a b d e) = OPCODE_REPLY" "am_sender_ip_address (arp_reply a b d e) = a"
  "am_sender_ethernet_address (arp_reply a b d e) = b" "am_target_ip_address (arp_reply a b d e) = d"
  by (simp_all add: arp_request_def arp_reply_def)

lemma opcodes_differ [simp]: "OPCODE_REPLY \<noteq> OPCODE_REQUEST" "TYPE_ARP \<noteq> TYPE_IPv4"
  by (simp_all add: OPCODE_REPLY_def OPCODE_REQUEST_def TYPE_ARP_def TYPE_IPv4_def)

text \<open>A frame of each kind.\<close>

definition ip_frame :: "ethernet_address \<Rightarrow> ethernet_address \<Rightarrow> bytes \<Rightarrow> ethernet_frame" where
  "ip_frame dst src pl = \<lparr>ef_header = \<lparr>eh_dst = dst, eh_src = src, eh_type = TYPE_IPv4\<rparr>, ef_payload = pl\<rparr>"

definition arp_frame :: "ethernet_address \<Rightarrow> ethernet_address \<Rightarrow> arp_message \<Rightarrow> ethernet_frame" where
  "arp_frame dst src m = \<lparr>ef_header = \<lparr>eh_dst = dst, eh_src = src, eh_type = TYPE_ARP\<rparr>, ef_payload = arp_bytes m\<rparr>"

lemma frame_simps [simp]:
  "eh_dst (ef_header (ip_frame d s p)) = d" "eh_src (ef_header (ip_frame d s p)) = s"
  "eh_type (ef_header (ip_frame d s p)) = TYPE_IPv4" "ef_payload (ip_frame d s p) = p"
  "eh_dst (ef_header (arp_frame d s m)) = d" "eh_src (ef_header (arp_frame d s m)) = s"
  "eh_type (ef_header (arp_frame d s m)) = TYPE_ARP" "ef_payload (arp_frame d s m) = arp_bytes m"
  "frame_to x (ip_frame d s p) = ip_frame x s p"
  by (simp_all add: ip_frame_def arp_frame_def frame_to_def)

subsection \<open>What each method does\<close>

text \<open>The three branches of \<^verbatim>\<open>send_datagram\<close> for a datagram that serializes and an IPv4 next hop.\<close>

definition queue_datagram :: "u32 \<Rightarrow> bytes \<Rightarrow> network_interface \<Rightarrow> network_interface" where
  "queue_datagram nh pl ni = ni\<lparr>ni_unsend_frame := AList.update nh
     (unsend_of ni nh @ [ip_frame ethernet_zero (ni_ethernet_address ni) pl]) (ni_unsend_frame ni)\<rparr>"

lemma queue_datagram_simps [simp]:
  "ni_frames_out (queue_datagram nh pl ni) = ni_frames_out ni"
  "ni_ethernet_address (queue_datagram nh pl ni) = ni_ethernet_address ni"
  "ni_ip_address (queue_datagram nh pl ni) = ni_ip_address ni"
  "ni_ip_address_map (queue_datagram nh pl ni) = ni_ip_address_map ni"
  "ni_map_time (queue_datagram nh pl ni) = ni_map_time ni"
  "ni_latest_arp_time (queue_datagram nh pl ni) = ni_latest_arp_time ni"
  "ni_now_time (queue_datagram nh pl ni) = ni_now_time ni"
  "arp_recently_sent (queue_datagram nh pl ni) ip = arp_recently_sent ni ip"
  "unsend_of (queue_datagram nh pl ni) ip =
     (if ip = nh then unsend_of ni nh @ [ip_frame ethernet_zero (ni_ethernet_address ni) pl] else unsend_of ni ip)"
  by (simp_all add: queue_datagram_def arp_recently_sent_def unsend_of_def update_conv cong: option.case_cong)

lemma send_datagram_eq:
  assumes "ipv4_datagram_serialize d = Inr pl" "ipv4_numeric hop = Inr nh" "ipv4_numeric (ni_ip_address ni) = Inr me"
  shows "send_datagram ni d hop =
    (case map_of (ni_ip_address_map ni) nh of
       Some mac \<Rightarrow> (push_frame (ip_frame mac (ni_ethernet_address ni) pl) ni, Inr ())
     | None \<Rightarrow>
         if arp_recently_sent ni nh then (queue_datagram nh pl ni, Inr ())
         else ((push_frame (arp_frame ETHERNET_BROADCAST (ni_ethernet_address ni)
                   (arp_request me (ni_ethernet_address ni) nh)) (queue_datagram nh pl ni))
                 \<lparr>ni_latest_arp_time := AList.update nh (ni_now_time ni) (ni_latest_arp_time ni)\<rparr>, Inr ()))"
proof -
  have fr: "\<lparr>ef_header = \<lparr>eh_dst = ethernet_zero, eh_src = ni_ethernet_address ni, eh_type = TYPE_IPv4\<rparr>,
      ef_payload = pl\<rparr> = ip_frame ethernet_zero (ni_ethernet_address ni) pl" by (simp add: ip_frame_def)
  show ?thesis
    unfolding send_datagram_def assms(1) sum.case Let_def fr assms(2) queue_datagram_def [symmetric]
    using assms(3)
    by (simp add: arp_request_def [symmetric] arp_serialize_eq arp_frame_def [symmetric] split: option.splits)
qed

lemma send_datagram_throws:
  "ipv4_datagram_serialize d = Inl e \<Longrightarrow> send_datagram ni d hop = (ni, Inl e)"
  "ipv4_datagram_serialize d = Inr pl \<Longrightarrow> ipv4_numeric hop = Inl e \<Longrightarrow> send_datagram ni d hop = (ni, Inl e)"
  by (simp_all add: send_datagram_def)

text \<open>With a known address the interface's own address does not matter.\<close>

lemma send_known:
  assumes "ipv4_datagram_serialize d = Inr pl" "ipv4_numeric hop = Inr nh" "map_of (ni_ip_address_map a) nh = Some mac"
  shows "send_datagram a d hop = (push_frame (ip_frame mac (ni_ethernet_address a) pl) a, Inr ())"
proof -
  have fr: "\<lparr>ef_header = \<lparr>eh_dst = ethernet_zero, eh_src = ni_ethernet_address a, eh_type = TYPE_IPv4\<rparr>, ef_payload = pl\<rparr> =
      ip_frame ethernet_zero (ni_ethernet_address a) pl" by (simp add: ip_frame_def)
  show ?thesis unfolding send_datagram_def assms(1) sum.case Let_def fr assms(2,3) by simp
qed

text \<open>Learning a mapping, and sending what waits for it.\<close>

definition learn :: "u32 \<Rightarrow> ethernet_address \<Rightarrow> network_interface \<Rightarrow> network_interface" where
  "learn sip sea ni = ni\<lparr>ni_ip_address_map := AList.update sip sea (ni_ip_address_map ni),
     ni_map_time := AList.update sip (ni_now_time ni) (ni_map_time ni)\<rparr>"

definition flush_pending :: "u32 \<Rightarrow> ethernet_address \<Rightarrow> network_interface \<Rightarrow> network_interface" where
  "flush_pending sip sea ni =
     (case map_of (ni_unsend_frame ni) sip of
        None \<Rightarrow> ni
      | Some fs \<Rightarrow> ni\<lparr>ni_frames_out := ni_frames_out ni @ map (frame_to sea) fs,
          ni_unsend_frame := AList.delete sip (ni_unsend_frame ni),
          ni_latest_arp_time := AList.delete sip (ni_latest_arp_time ni)\<rparr>)"

lemma learn_simps [simp]:
  "ni_frames_out (learn sip sea ni) = ni_frames_out ni"
  "ni_ethernet_address (learn sip sea ni) = ni_ethernet_address ni"
  "ni_ip_address (learn sip sea ni) = ni_ip_address ni"
  "ni_unsend_frame (learn sip sea ni) = ni_unsend_frame ni"
  "ni_latest_arp_time (learn sip sea ni) = ni_latest_arp_time ni"
  "ni_now_time (learn sip sea ni) = ni_now_time ni"
  "ni_ip_address_map (learn sip sea ni) = AList.update sip sea (ni_ip_address_map ni)"
  "ni_map_time (learn sip sea ni) = AList.update sip (ni_now_time ni) (ni_map_time ni)"
  "unsend_of (learn sip sea ni) ip = unsend_of ni ip"
  by (simp_all add: learn_def unsend_of_def)

lemma flush_simps [simp]:
  "ni_ethernet_address (flush_pending sip sea ni) = ni_ethernet_address ni"
  "ni_ip_address (flush_pending sip sea ni) = ni_ip_address ni"
  "ni_now_time (flush_pending sip sea ni) = ni_now_time ni"
  "ni_ip_address_map (flush_pending sip sea ni) = ni_ip_address_map ni"
  "ni_map_time (flush_pending sip sea ni) = ni_map_time ni"
  "ni_frames_out (flush_pending sip sea ni) = ni_frames_out ni @ map (frame_to sea) (unsend_of ni sip)"
  "unsend_of (flush_pending sip sea ni) ip = (if ip = sip then [] else unsend_of ni ip)"
  by (auto simp: flush_pending_def unsend_of_def delete_conv split: option.splits)

lemma recv_arp_eq:
  assumes "ipv4_numeric (ni_ip_address ni) = Inr me"
  shows "recv_arp ni msg =
    (let sip = am_sender_ip_address msg; sea = am_sender_ethernet_address msg; ni' = learn sip sea ni
     in if am_opcode msg = OPCODE_REQUEST \<and> am_target_ip_address msg = me
        then (push_frame (arp_frame sea (ni_ethernet_address ni) (arp_reply me (ni_ethernet_address ni) sip sea)) ni', Inr ())
        else (flush_pending sip sea ni', Inr ()))"
proof -
  let ?sip = "am_sender_ip_address msg" and ?sea = "am_sender_ethernet_address msg"
  let ?ni = "learn ?sip ?sea ni"
  have me: "ipv4_numeric (ni_ip_address ?ni) = Inr me" using assms by simp
  show ?thesis
    unfolding recv_arp_def Let_def learn_def [symmetric] me
    by (cases "map_of (ni_unsend_frame ni) ?sip")
      (simp_all add: arp_reply_def [symmetric] arp_serialize_eq arp_frame_def [symmetric] push_frames_eq flush_pending_def)
qed

text \<open>What \<^verbatim>\<open>recv_frame\<close> does with a frame that is for this interface.\<close>

definition for_me :: "network_interface \<Rightarrow> ethernet_frame \<Rightarrow> bool" where
  "for_me ni f \<longleftrightarrow> eh_dst (ef_header f) = ni_ethernet_address ni \<or> eh_dst (ef_header f) = ETHERNET_BROADCAST"

lemma recv_frame_other: "\<not> for_me ni f \<Longrightarrow> recv_frame ni f = (ni, Inr None)"
  by (simp add: recv_frame_def for_me_def)

lemma recv_frame_ip:
  assumes "for_me ni f" "eh_type (ef_header f) = TYPE_IPv4"
  shows "recv_frame ni f = (ni, Inr (case ipv4_datagram_parse (ef_payload f) ipv4_datagram_new of
    (res, d) \<Rightarrow> if res = NoError then Some d else None))"
  using assms by (auto simp: recv_frame_def for_me_def split: prod.splits)

lemma recv_frame_arp:
  assumes "for_me ni f" "eh_type (ef_header f) \<noteq> TYPE_IPv4" "ipv4_numeric (ni_ip_address ni) = Inr me"
  shows "recv_frame ni f = (case arp_message_parse (ef_payload f) arp_message_new of
    (res, msg) \<Rightarrow> if res = NoError then (fst (recv_arp ni msg), Inr None) else (ni, Inr None))"
  using assms by (auto simp: recv_frame_def for_me_def recv_arp_eq Let_def split: prod.splits)

lemma recv_arp_frame:
  assumes "for_me ni (arp_frame dst src m)" "arp_supported m" "ipv4_numeric (ni_ip_address ni) = Inr me"
  shows "recv_frame ni (arp_frame dst src m) = (fst (recv_arp ni m), Inr None)"
  using recv_frame_arp [OF assms(1) _ assms(3)] assms(2) arp_parse_bytes [of m "[]" arp_message_new] by simp

lemma recv_ip_frame:
  assumes "dst = ni_ethernet_address ni \<or> dst = ETHERNET_BROADCAST" "dg_wf d" "ipv4_datagram_serialize d = Inr pl"
  shows "\<exists>d'. recv_frame ni (ip_frame dst src pl) = (ni, Inr (Some d')) \<and> same_datagram d d'"
  using dgram.delivered [OF assms(2,3)] recv_frame_ip [of ni "ip_frame dst src pl"] assms(1)
  by (auto simp: for_me_def)

subsection \<open>Runs of an interface\<close>

datatype ni_event = NSend ipv4_datagram address | NRecv ethernet_frame | NTick nat

fun ni_step :: "network_interface \<Rightarrow> ni_event \<Rightarrow> network_interface" where
  "ni_step ni (NSend d hop) = fst (send_datagram ni d hop)"
| "ni_step ni (NRecv f) = fst (recv_frame ni f)"
| "ni_step ni (NTick n) = fst (ni_tick ni n)"

definition frame_ok :: "ethernet_address \<Rightarrow> ethernet_frame \<Rightarrow> bool" where
  "frame_ok mac f \<longleftrightarrow>
     (\<exists>dst pl. f = ip_frame dst mac pl) \<or> (\<exists>dst m. f = arp_frame dst mac m \<and> arp_supported m)"

definition ni_inv :: "ethernet_address \<Rightarrow> u32 \<Rightarrow> network_interface \<Rightarrow> bool" where
  "ni_inv mac me ni \<longleftrightarrow>
     ni_ethernet_address ni = mac \<and> ipv4_numeric (ni_ip_address ni) = Inr me \<and>
     (\<forall>f \<in> set (ni_frames_out ni). frame_ok mac f) \<and>
     (\<forall>nh. \<forall>f \<in> set (unsend_of ni nh). \<exists>pl. f = ip_frame ethernet_zero mac pl) \<and>
     fst ` set (ni_unsend_frame ni) = fst ` set (ni_latest_arp_time ni) \<and>
     fst ` set (ni_ip_address_map ni) = fst ` set (ni_map_time ni) \<and>
     (\<forall>(ip, t) \<in> set (ni_map_time ni). \<not> expired (ni_now_time ni) t)"

lemma frame_okI [simp]: "frame_ok mac (ip_frame dst mac pl)" "arp_supported m \<Longrightarrow> frame_ok mac (arp_frame dst mac m)"
  unfolding frame_ok_def by blast+

lemma dom_delete: "fst ` set (AList.delete k al) = fst ` set al - {k}"
  by (auto simp: AList.delete_eq image_iff)

lemma set_update_cases: "x \<in> set (AList.update k v al) \<Longrightarrow> x = (k, v) \<or> x \<in> set al"
  by (induction al) (auto split: if_splits)

lemma unsend_of_latest [simp]: "unsend_of (ni\<lparr>ni_latest_arp_time := l\<rparr>) ip = unsend_of ni ip"
  "unsend_of (push_frame f ni) ip = unsend_of ni ip"
  by (simp_all add: unsend_of_def push_frame_def)

lemma not_expired_self [simp]: "\<not> expired t t"
  by (simp add: expired_def)

lemma ni_inv_push: "ni_inv mac me ni \<Longrightarrow> frame_ok mac f \<Longrightarrow> ni_inv mac me (push_frame f ni)"
  by (auto simp: ni_inv_def)

lemma recently_in_dom: "arp_recently_sent ni nh \<Longrightarrow> nh \<in> fst ` set (ni_latest_arp_time ni)"
  by (auto simp: arp_recently_sent_def split: option.splits dest!: map_of_SomeD intro: rev_image_eqI)

lemma ni_unsend_queue [simp]:
  "fst ` set (ni_unsend_frame (queue_datagram nh pl ni)) = insert nh (fst ` set (ni_unsend_frame ni))"
  by (simp add: queue_datagram_def dom_update)

lemma ni_inv_send:
  assumes inv: "ni_inv mac me ni"
  shows "ni_inv mac me (fst (send_datagram ni d hop))"
proof (cases "ipv4_datagram_serialize d")
  case (Inl e)
  then show ?thesis using inv by (simp add: send_datagram_throws)
next
  case pl: (Inr pl)
  show ?thesis
  proof (cases "ipv4_numeric hop")
    case (Inl e)
    then show ?thesis using inv pl by (simp add: send_datagram_throws)
  next
    case nh: (Inr nh)
    have "ipv4_numeric (ni_ip_address ni) = Inr me" "ni_ethernet_address ni = mac" using inv by (simp_all add: ni_inv_def)
    then show ?thesis
      using send_datagram_eq [OF pl nh, of ni me] inv recently_in_dom [of ni nh]
      by (cases "map_of (ni_ip_address_map ni) nh"; cases "arp_recently_sent ni nh")
        (auto simp: ni_inv_def dom_update insert_absorb)
  qed
qed

lemma ni_inv_learn: "ni_inv mac me ni \<Longrightarrow> ni_inv mac me (learn sip sea ni)"
  by (auto simp: ni_inv_def dom_update dest!: set_update_cases)

lemma flush_keys:
  "fst ` set (ni_unsend_frame ni) = fst ` set (ni_latest_arp_time ni) \<Longrightarrow>
   fst ` set (ni_unsend_frame (flush_pending sip sea ni)) = fst ` set (ni_latest_arp_time (flush_pending sip sea ni))"
  by (simp add: flush_pending_def dom_delete split: option.splits)

lemma ni_inv_flush:
  assumes "ni_inv mac me ni"
  shows "ni_inv mac me (flush_pending sip sea ni)"
proof -
  have "frame_ok mac (frame_to sea f)" if "f \<in> set (unsend_of ni sip)" for f
    using assms that by (fastforce simp: ni_inv_def frame_ok_def)
  then show ?thesis using assms flush_keys [of ni sip sea] by (auto simp: ni_inv_def split: if_splits)
qed

lemma ni_inv_recv_arp: "ni_inv mac me ni \<Longrightarrow> ni_inv mac me (fst (recv_arp ni msg))"
proof -
  assume inv: "ni_inv mac me ni"
  have "ipv4_numeric (ni_ip_address ni) = Inr me" "ni_ethernet_address ni = mac" using inv by (simp_all add: ni_inv_def)
  then show ?thesis
    using inv by (simp add: recv_arp_eq Let_def ni_inv_push ni_inv_learn ni_inv_flush)
qed

lemma ni_inv_recv:
  assumes inv: "ni_inv mac me ni"
  shows "ni_inv mac me (fst (recv_frame ni f))"
proof (cases "for_me ni f \<and> eh_type (ef_header f) \<noteq> TYPE_IPv4")
  case True
  have "ipv4_numeric (ni_ip_address ni) = Inr me" using inv by (simp add: ni_inv_def)
  with True inv show ?thesis by (simp add: recv_frame_arp ni_inv_recv_arp split: prod.splits)
next
  case False
  then show ?thesis using inv by (cases "for_me ni f") (simp_all add: recv_frame_ip recv_frame_other)
qed

text \<open>A tick erases the mappings that have expired and nothing else.\<close>

definition stale :: "u32 \<Rightarrow> (u32 \<times> u32) list \<Rightarrow> u32 set" where
  "stale now xs = {ip. \<exists>t. (ip, t) \<in> set xs \<and> expired now t}"

lemma delete_filter: "AList.delete k al = filter (\<lambda>x. fst x \<noteq> k) al"
  by (auto simp: AList.delete_eq case_prod_beta intro!: filter_cong)

lemma tick_loop_eq:
  "tick_loop xs ni = ni\<lparr>ni_map_time := filter (\<lambda>(ip, t). ip \<notin> stale (ni_now_time ni) xs) (ni_map_time ni),
     ni_ip_address_map := filter (\<lambda>(ip, a). ip \<notin> stale (ni_now_time ni) xs) (ni_ip_address_map ni)\<rparr>"
proof (induction xs ni rule: tick_loop.induct)
  case (2 ip t xs ni)
  have st: "stale (ni_now_time ni) ((ip, t) # xs) =
      (if expired (ni_now_time ni) t then insert ip (stale (ni_now_time ni) xs) else stale (ni_now_time ni) xs)"
    by (auto simp: stale_def)
  show ?case
    using 2 by (simp add: st erase_mapping_def delete_filter case_prod_beta)
qed (simp add: stale_def case_prod_beta)

lemma ni_tick_eq:
  "fst (ni_tick ni n) =
     (let now = ni_now_time ni + word_of_nat n; gone = stale now (ni_map_time ni)
      in ni\<lparr>ni_now_time := now, ni_map_time := filter (\<lambda>(ip, t). ip \<notin> gone) (ni_map_time ni),
           ni_ip_address_map := filter (\<lambda>(ip, a). ip \<notin> gone) (ni_ip_address_map ni)\<rparr>)"
  by (simp add: ni_tick_def Let_def tick_loop_eq)

lemma ni_tick_simps [simp]:
  "ni_frames_out (fst (ni_tick ni n)) = ni_frames_out ni" "ni_ethernet_address (fst (ni_tick ni n)) = ni_ethernet_address ni"
  "ni_ip_address (fst (ni_tick ni n)) = ni_ip_address ni" "ni_unsend_frame (fst (ni_tick ni n)) = ni_unsend_frame ni"
  "ni_latest_arp_time (fst (ni_tick ni n)) = ni_latest_arp_time ni" "unsend_of (fst (ni_tick ni n)) ip = unsend_of ni ip"
  by (simp_all add: ni_tick_eq Let_def unsend_of_def)

lemma ni_tick_quiet:
  "\<not> (\<exists>(ip, t) \<in> set (ni_map_time ni). expired (ni_now_time ni + word_of_nat n) t) \<Longrightarrow>
   ni_tick ni n = (ni\<lparr>ni_now_time := ni_now_time ni + word_of_nat n\<rparr>, Inr ())"
proof -
  assume h: "\<not> (\<exists>(ip, t) \<in> set (ni_map_time ni). expired (ni_now_time ni + word_of_nat n) t)"
  then have "stale (ni_now_time ni + word_of_nat n) (ni_map_time ni) = {}" by (auto simp: stale_def)
  with h show ?thesis by (simp add: ni_tick_def Let_def tick_loop_eq case_prod_beta)
qed

lemma dom_filter: "fst ` set (filter (\<lambda>(k, v). k \<notin> A) al) = fst ` set al - A"
  by (auto simp: image_iff)

lemma ni_tick_keys:
  "fst ` set (ni_map_time (fst (ni_tick ni n))) = fst ` set (ni_map_time ni) - stale (ni_now_time ni + word_of_nat n) (ni_map_time ni)"
  "fst ` set (ni_ip_address_map (fst (ni_tick ni n))) = fst ` set (ni_ip_address_map ni) - stale (ni_now_time ni + word_of_nat n) (ni_map_time ni)"
  unfolding ni_tick_eq Let_def dom_filter [symmetric] by simp_all

lemma ni_tick_fresh: "(ip, t) \<in> set (ni_map_time (fst (ni_tick ni n))) \<Longrightarrow> \<not> expired (ni_now_time (fst (ni_tick ni n))) t"
  by (auto simp: ni_tick_eq Let_def stale_def)

lemma ni_inv_tick: "ni_inv mac me ni \<Longrightarrow> ni_inv mac me (fst (ni_tick ni n))"
  using ni_tick_fresh [of _ _ ni n] unfolding ni_inv_def ni_tick_simps ni_tick_keys by auto

definition ni_start :: "ethernet_address \<Rightarrow> u32 \<Rightarrow> network_interface \<Rightarrow> bool" where
  "ni_start mac me ni \<longleftrightarrow> (\<exists>port. ni = network_interface_new mac (ipv4_endpoint me port))"

interpretation ni_sys: step_system "ni_start mac me" ni_step "\<lambda>ni e. True" "ni_inv mac me" for mac me
proof unfold_locales
  show "ni_start mac me ni \<Longrightarrow> ni_inv mac me ni" for ni
    by (auto simp: ni_start_def ni_inv_def network_interface_new_def unsend_of_def)
  show "ni_inv mac me ni \<Longrightarrow> ni_inv mac me (ni_step ni e)" for ni e
    by (cases e) (simp_all add: ni_inv_send ni_inv_recv ni_inv_tick)
qed

lemma ni_run_inv: "ni_inv mac me ni \<Longrightarrow> ni_inv mac me (run_steps ni_step ni es)"
  by (rule ni_sys.run_inv [OF _ allowed_any])

text \<open>A datagram that was accepted is in a frame that was queued, or waits for the address of its next hop.\<close>

definition sent_or_waiting :: "bytes \<Rightarrow> u32 \<Rightarrow> network_interface \<Rightarrow> bool" where
  "sent_or_waiting pl nh ni \<longleftrightarrow>
     (\<exists>dst. ip_frame dst (ni_ethernet_address ni) pl \<in> set (ni_frames_out ni)) \<or>
     ip_frame ethernet_zero (ni_ethernet_address ni) pl \<in> set (unsend_of ni nh)"

lemma sent_or_waiting_push [simp]:
  "sent_or_waiting pl nh ni \<Longrightarrow> sent_or_waiting pl nh (push_frame f ni)"
  by (auto simp: sent_or_waiting_def)

lemma sent_or_waiting_update [simp]:
  "sent_or_waiting pl nh (ni\<lparr>ni_latest_arp_time := l\<rparr>) = sent_or_waiting pl nh ni"
  "sent_or_waiting pl nh (learn sip sea ni) = sent_or_waiting pl nh ni"
  by (simp_all add: sent_or_waiting_def)

lemma sent_or_waiting_queue [simp]:
  "sent_or_waiting pl nh ni \<Longrightarrow> sent_or_waiting pl nh (queue_datagram nh' pl' ni)"
  by (auto simp: sent_or_waiting_def)

lemma sent_or_waiting_flush [simp]:
  "sent_or_waiting pl nh ni \<Longrightarrow> sent_or_waiting pl nh (flush_pending sip sea ni)"
proof (cases "nh = sip \<and> ip_frame ethernet_zero (ni_ethernet_address ni) pl \<in> set (unsend_of ni nh)")
  case True
  then have "ip_frame sea (ni_ethernet_address ni) pl \<in> frame_to sea ` set (unsend_of ni sip)"
    by (metis frame_simps(9) imageI)
  then show ?thesis by (auto simp: sent_or_waiting_def)
qed (auto simp: sent_or_waiting_def)

lemma sent_or_waiting_step:
  assumes inv: "ni_inv mac me ni" and h: "sent_or_waiting pl nh ni"
  shows "sent_or_waiting pl nh (ni_step ni e)"
proof (cases e)
  case (NSend d hop)
  have me: "ipv4_numeric (ni_ip_address ni) = Inr me" using inv by (simp add: ni_inv_def)
  show ?thesis
    using h by (cases "ipv4_datagram_serialize d"; cases "ipv4_numeric hop")
      (auto simp: NSend send_datagram_throws send_datagram_eq [OF _ _ me] split: option.splits)
next
  case (NRecv f)
  have me: "ipv4_numeric (ni_ip_address ni) = Inr me" using inv by (simp add: ni_inv_def)
  have arp: "sent_or_waiting pl nh (fst (recv_arp ni msg))" for msg
    using h me by (simp add: recv_arp_eq Let_def)
  then show ?thesis
    using h recv_frame_arp [OF _ _ me, of f] recv_frame_ip [of ni f] recv_frame_other [of ni f]
    by (cases "for_me ni f"; cases "eh_type (ef_header f) = TYPE_IPv4") (simp_all add: NRecv split: prod.splits)
next
  case (NTick n)
  then show ?thesis using h by (simp add: sent_or_waiting_def)
qed

lemma send_datagram_accepts:
  assumes "ni_inv mac me ni" "ipv4_datagram_serialize d = Inr pl" "ipv4_numeric hop = Inr nh"
  shows "sent_or_waiting pl nh (ni_step ni (NSend d hop))"
  using assms send_datagram_eq [OF assms(2,3), of ni me]
  by (auto simp: ni_inv_def sent_or_waiting_def split: option.splits)

lemma sent_or_waiting_run:
  "ni_inv mac me ni \<Longrightarrow> sent_or_waiting pl nh ni \<Longrightarrow> sent_or_waiting pl nh (run_steps ni_step ni es)"
proof (induction es arbitrary: ni)
  case (Cons e es)
  then show ?case using sent_or_waiting_step [of mac me ni] ni_sys.step_inv [OF Cons.prems(1)] by simp
qed simp

lemma accepted_datagrams_kept:
  assumes inv: "ni_inv mac me ni" and e: "NSend d hop \<in> set es"
    and pl: "ipv4_datagram_serialize d = Inr pl" "ipv4_numeric hop = Inr nh"
  shows "sent_or_waiting pl nh (run_steps ni_step ni es)"
proof -
  obtain xs ys where es: "es = xs @ NSend d hop # ys" using e by (auto simp: in_set_conv_decomp)
  let ?s = "run_steps ni_step ni xs"
  have s: "ni_inv mac me ?s" using inv by (rule ni_run_inv)
  then have "ni_inv mac me (ni_step ?s (NSend d hop))" by (simp add: ni_inv_send)
  then show ?thesis
    using sent_or_waiting_run send_datagram_accepts [OF s pl] by (simp add: es run_steps_append)
qed

subsection \<open>Properties\<close>

text \<open>The mappings that an interface should know, from the events alone: an ARP message that is addressed to it teaches the sender's address, and
  a mapping is forgotten when it has become thirty seconds old.\<close>

definition cache_step :: "ethernet_address \<Rightarrow> (u32 \<rightharpoonup> ethernet_address \<times> nat) \<Rightarrow> ni_event \<Rightarrow> (u32 \<rightharpoonup> ethernet_address \<times> nat)" where
  "cache_step mac m e =
     (case e of
        NSend d hop \<Rightarrow> m
      | NRecv f \<Rightarrow>
          (if (eh_dst (ef_header f) = mac \<or> eh_dst (ef_header f) = ETHERNET_BROADCAST) \<and> eh_type (ef_header f) \<noteq> TYPE_IPv4
           then (case arp_message_parse (ef_payload f) arp_message_new of
                   (res, msg) \<Rightarrow> if res = NoError then m(am_sender_ip_address msg \<mapsto> (am_sender_ethernet_address msg, 0)) else m)
           else m)
      | NTick n \<Rightarrow> (\<lambda>ip. case m ip of Some (a, age) \<Rightarrow> if age + n < 30000 then Some (a, age + n) else None | None \<Rightarrow> None))"

definition cache_sim :: "(u32 \<rightharpoonup> ethernet_address \<times> nat) \<Rightarrow> network_interface \<Rightarrow> bool" where
  "cache_sim m ni \<longleftrightarrow>
     distinct (map fst (ni_map_time ni)) \<and> (\<forall>ip. map_of (ni_ip_address_map ni) ip = map_option fst (m ip)) \<and>
     (\<forall>ip. map_of (ni_map_time ni) ip = map_option (\<lambda>(a, age). ni_now_time ni - word_of_nat age) (m ip)) \<and>
     (\<forall>ip a age. m ip = Some (a, age) \<longrightarrow> age < 30000)"

lemma map_of_filter_key: "map_of (filter (\<lambda>(k, v). k \<notin> A) al) k = (if k \<in> A then None else map_of al k)"
  by (induction al) auto

lemma cache_sim_tick:
  assumes sim: "cache_sim m ni" and n: "n < 2 ^ 32 - 30000"
  shows "cache_sim (cache_step mac m (NTick n)) (fst (ni_tick ni n))"
proof -
  let ?now = "ni_now_time ni + word_of_nat n"
  have old: "ip \<in> stale ?now (ni_map_time ni) \<longleftrightarrow> (\<exists>a age. m ip = Some (a, age) \<and> 30000 \<le> age + n)" for ip
  proof -
    have "ip \<in> stale ?now (ni_map_time ni) \<longleftrightarrow> (\<exists>t. map_of (ni_map_time ni) ip = Some t \<and> expired ?now t)"
      using sim map_of_eq_Some_iff [of "ni_map_time ni" ip] unfolding stale_def cache_sim_def by blast
    also have "\<dots> \<longleftrightarrow> (\<exists>a age. m ip = Some (a, age) \<and> 30000 \<le> age + n)"
    proof (cases "m ip")
      case (Some p)
      obtain a age where p: "p = (a, age)" by fastforce
      have age: "age < 30000" using sim Some p by (auto simp: cache_sim_def)
      have "unat (word_of_nat (age + n) :: u32) = age + n" using age n by (simp add: unat_of_nat take_bit_nat_eq_self del: of_nat_add)
      then have "(30000 :: u32) \<le> word_of_nat (age + n) \<longleftrightarrow> 30000 \<le> age + n" by (simp add: word_le_nat_alt)
      moreover have "?now - (ni_now_time ni - word_of_nat age) = word_of_nat (age + n)" by simp
      moreover have "map_of (ni_map_time ni) ip = Some (ni_now_time ni - word_of_nat age)" using sim Some p by (simp add: cache_sim_def)
      ultimately show ?thesis using Some p by (simp add: expired_def add.commute)
    qed (use sim in \<open>simp add: cache_sim_def\<close>)
    finally show ?thesis .
  qed
  have "map_of (ni_map_time (fst (ni_tick ni n))) ip =
      map_option (\<lambda>(a, age). ni_now_time (fst (ni_tick ni n)) - word_of_nat age) (cache_step mac m (NTick n) ip)" for ip
    using sim old [of ip] by (cases "m ip") (auto simp: ni_tick_eq Let_def map_of_filter_key cache_step_def cache_sim_def)
  moreover have "map_of (ni_ip_address_map (fst (ni_tick ni n))) ip = map_option fst (cache_step mac m (NTick n) ip)" for ip
    using sim old [of ip] by (cases "m ip") (auto simp: ni_tick_eq Let_def map_of_filter_key cache_step_def cache_sim_def)
  moreover have "distinct (map fst (ni_map_time (fst (ni_tick ni n))))"
    using sim by (simp add: ni_tick_eq Let_def cache_sim_def distinct_map_filter)
  ultimately show ?thesis by (auto simp: cache_sim_def [of "cache_step mac m (NTick n)"]) (auto simp: cache_step_def split: option.splits if_splits)
qed

lemma cache_sim_learn: "cache_sim m ni \<Longrightarrow> cache_sim (m(sip \<mapsto> (sea, 0))) (learn sip sea ni)"
  by (auto simp: cache_sim_def learn_def update_conv distinct_update)

lemma cache_sim_same:
  "cache_sim m ni \<Longrightarrow> ni_map_time ni' = ni_map_time ni \<Longrightarrow> ni_ip_address_map ni' = ni_ip_address_map ni \<Longrightarrow> ni_now_time ni' = ni_now_time ni \<Longrightarrow>
   cache_sim m ni'"
  by (simp add: cache_sim_def)

lemma cache_sim_step:
  assumes sim: "cache_sim m ni" and inv: "ni_inv mac me ni" and e: "\<forall>n. e = NTick n \<longrightarrow> n < 2 ^ 32 - 30000"
  shows "cache_sim (cache_step mac m e) (ni_step ni e)"
proof (cases e)
  case (NSend d hop)
  have me: "ipv4_numeric (ni_ip_address ni) = Inr me" using inv by (simp add: ni_inv_def)
  have "ni_map_time (ni_step ni e) = ni_map_time ni \<and> ni_ip_address_map (ni_step ni e) = ni_ip_address_map ni \<and>
      ni_now_time (ni_step ni e) = ni_now_time ni"
    by (cases "ipv4_datagram_serialize d"; cases "ipv4_numeric hop")
      (auto simp: NSend send_datagram_throws send_datagram_eq [OF _ _ me] queue_datagram_def split: option.splits)
  then show ?thesis using cache_sim_same [OF sim] by (simp add: NSend cache_step_def)
next
  case (NRecv f)
  have me: "ipv4_numeric (ni_ip_address ni) = Inr me" "ni_ethernet_address ni = mac" using inv by (simp_all add: ni_inv_def)
  have arp: "cache_sim (m(am_sender_ip_address msg \<mapsto> (am_sender_ethernet_address msg, 0))) (fst (recv_arp ni msg))" for msg
    by (rule cache_sim_same [OF cache_sim_learn [OF sim]])
      (simp_all add: recv_arp_eq [OF me(1)] Let_def push_frame_def flush_pending_def split: option.split)
  show ?thesis
  proof (cases "for_me ni f \<and> eh_type (ef_header f) \<noteq> TYPE_IPv4")
    case True
    then show ?thesis using sim arp me(2)
      by (auto simp: NRecv cache_step_def for_me_def recv_frame_arp [OF _ _ me(1)] split: prod.split)
  next
    case False
    then have "fst (recv_frame ni f) = ni"
      by (cases "for_me ni f") (simp_all add: recv_frame_ip recv_frame_other)
    then show ?thesis using sim False me(2) by (auto simp: NRecv cache_step_def for_me_def)
  qed
next
  case (NTick n)
  then show ?thesis using cache_sim_tick [OF sim] e by simp
qed

lemma cache_sim_run:
  "cache_sim m ni \<Longrightarrow> ni_inv mac me ni \<Longrightarrow> \<forall>n. NTick n \<in> set es \<longrightarrow> n < 2 ^ 32 - 30000 \<Longrightarrow>
   cache_sim (run_steps (cache_step mac) m es) (run_steps ni_step ni es)"
proof (induction es arbitrary: m ni)
  case (Cons e es)
  have "cache_sim (cache_step mac m e) (ni_step ni e)" using Cons.prems by (intro cache_sim_step) auto
  moreover have "ni_inv mac me (ni_step ni e)" using ni_sys.step_inv [OF Cons.prems(2)] by blast
  ultimately show ?case using Cons by simp
qed simp


text \<open>A datagram without payload, for the witnesses.\<close>

definition small_datagram :: ipv4_datagram where
  "small_datagram = \<lparr>dg_header = ipv4_header_new\<lparr>ih_len := 20\<rparr>, dg_payload = []\<rparr>"

lemma small_datagram_wf: "dg_wf small_datagram"
  by (simp add: dg_wf_def small_datagram_def ipv4_wf_def ipv4_header_new_def)


text \<open>C25. Address resolution end to end.  Interface \<open>a\<close> sends a datagram to a next hop whose Ethernet address it does
  not know and has not asked for recently; \<open>b\<close> is the interface with that IP address.  Then \<open>a\<close> queues one frame, an ARP
  request; given it, \<open>b\<close> learns the address of \<open>a\<close> and queues one frame, the reply; given that, \<open>a\<close> learns the address of
  \<open>b\<close> and queues everything that waited for it, the datagram last, and nothing waits any more; and \<open>b\<close>, given that last
  frame, returns the datagram.\<close>

theorem arp_resolution:
  assumes a: "ipv4_numeric (ni_ip_address a) = Inr ipa" and b: "ipv4_numeric (ni_ip_address b) = Inr ipb"
    and d: "dg_wf d" and hop: "ipv4_numeric hop = Inr ipb"
    and unknown: "map_of (ni_ip_address_map a) ipb = None" "\<not> arp_recently_sent a ipb"
  shows "\<exists>req a1 b1 rep a2 fr d'.
    send_datagram a d hop = (a1, Inr ()) \<and> ni_frames_out a1 = ni_frames_out a @ [req] \<and>
    eh_dst (ef_header req) = ETHERNET_BROADCAST \<and> eh_type (ef_header req) = TYPE_ARP \<and>
    recv_frame b (wire_frame req) = (b1, Inr None) \<and> ni_frames_out b1 = ni_frames_out b @ [rep] \<and>
    map_of (ni_ip_address_map b1) ipa = Some (ni_ethernet_address a) \<and>
    recv_frame a1 (wire_frame rep) = (a2, Inr None) \<and> map_of (ni_ip_address_map a2) ipb = Some (ni_ethernet_address b) \<and>
    ni_frames_out a2 = ni_frames_out a1 @ map (frame_to (ni_ethernet_address b)) (unsend_of a ipb) @ [fr] \<and>
    unsend_of a2 ipb = [] \<and>
    recv_frame b1 (wire_frame fr) = (b1, Inr (Some d')) \<and> same_datagram d d'"
proof -
  let ?A = "ni_ethernet_address a" and ?B = "ni_ethernet_address b"
  obtain pl where pl: "ipv4_datagram_serialize d = Inr pl" using dgram.deliver [OF d] by blast
  define req where "req = arp_frame ETHERNET_BROADCAST ?A (arp_request ipa ?A ipb)"
  define a1 where "a1 = (push_frame req (queue_datagram ipb pl a))
    \<lparr>ni_latest_arp_time := AList.update ipb (ni_now_time a) (ni_latest_arp_time a)\<rparr>"
  define rep where "rep = arp_frame ?A ?B (arp_reply ipb ?B ipa ?A)"
  define b1 where "b1 = push_frame rep (learn ipa ?A b)"
  define a2 where "a2 = flush_pending ipb ?B (learn ipb ?B a1)"
  have 1: "send_datagram a d hop = (a1, Inr ())"
    using send_datagram_eq [OF pl hop a] unknown by (simp add: a1_def req_def)
  have "for_me b req" by (simp add: for_me_def req_def)
  then have 2: "recv_frame b req = (b1, Inr None)"
    using recv_arp_frame [OF _ _ b] b by (simp add: req_def b1_def rep_def recv_arp_eq Let_def)
  have "for_me a1 rep" "ipv4_numeric (ni_ip_address a1) = Inr ipa" using a by (simp_all add: for_me_def rep_def a1_def)
  then have 3: "recv_frame a1 rep = (a2, Inr None)"
    using recv_arp_frame [of a1] by (simp add: rep_def a2_def recv_arp_eq Let_def)
  obtain d' where 4: "recv_frame b1 (ip_frame ?B ?A pl) = (b1, Inr (Some d'))" "same_datagram d d'"
    using recv_ip_frame [of ?B b1 d pl ?A] d pl by (auto simp: b1_def)
  have frames: "ni_frames_out a1 = ni_frames_out a @ [req]" "ni_frames_out b1 = ni_frames_out b @ [rep]"
    "ni_frames_out a2 = ni_frames_out a1 @ map (frame_to ?B) (unsend_of a ipb) @ [ip_frame ?B ?A pl]"
    by (simp_all add: a1_def b1_def a2_def)
  have maps: "map_of (ni_ip_address_map b1) ipa = Some ?A" "map_of (ni_ip_address_map a2) ipb = Some ?B"
    "unsend_of a2 ipb = []" by (simp_all add: b1_def a2_def update_conv)
  have kind: "eh_dst (ef_header req) = ETHERNET_BROADCAST" "eh_type (ef_header req) = TYPE_ARP" by (simp_all add: req_def)
  show ?thesis unfolding wire_frame_id using 1 2 3 4 frames maps kind by blast
qed

theorem arp_resolution_witness:
  "\<exists>req a1 b1.
    send_datagram (network_interface_new ethernet_zero (ipv4_endpoint 5 0)) small_datagram (ipv4_endpoint 9 0) = (a1, Inr ()) \<and>
    ni_frames_out a1 = [req] \<and>
    recv_frame (network_interface_new (EthernetAddress 2 0 0 0 0 1) (ipv4_endpoint 9 0)) (wire_frame req) = (b1, Inr None) \<and>
    map_of (ni_ip_address_map b1) 5 = Some ethernet_zero"
proof -
  let ?a = "network_interface_new ethernet_zero (ipv4_endpoint 5 0)"
    and ?b = "network_interface_new (EthernetAddress 2 0 0 0 0 1) (ipv4_endpoint 9 0)"
  have "ipv4_numeric (ni_ip_address ?a) = Inr 5" "ipv4_numeric (ni_ip_address ?b) = Inr 9"
    "map_of (ni_ip_address_map ?a) 9 = None" "\<not> arp_recently_sent ?a 9" "ni_frames_out ?a = []"
    "ni_ethernet_address ?a = ethernet_zero"
    by (simp_all add: network_interface_new_def arp_recently_sent_def)
  with arp_resolution [of ?a 5 ?b 9 small_datagram "ipv4_endpoint 9 0"] small_datagram_wf show ?thesis
    by (metis append_Nil ipv4_numeric_endpoint)
qed

text \<open>A datagram for a next hop with a known Ethernet address goes out at once in one frame addressed to it; the
  interface that owns that address returns the datagram and its state does not change, and an interface with another
  address ignores the frame.\<close>

theorem known_hop_delivery:
  assumes "dg_wf d" "ipv4_numeric hop = Inr nh" "map_of (ni_ip_address_map a) nh = Some (ni_ethernet_address b)"
    and "ni_ethernet_address b \<noteq> ni_ethernet_address c" "ni_ethernet_address b \<noteq> ETHERNET_BROADCAST"
  shows "\<exists>fr d'. send_datagram a d hop = (a\<lparr>ni_frames_out := ni_frames_out a @ [fr]\<rparr>, Inr ()) \<and>
    recv_frame b (wire_frame fr) = (b, Inr (Some d')) \<and> same_datagram d d' \<and> recv_frame c (wire_frame fr) = (c, Inr None)"
proof -
  obtain pl where pl: "ipv4_datagram_serialize d = Inr pl" using dgram.deliver [OF assms(1)] by blast
  let ?f = "ip_frame (ni_ethernet_address b) (ni_ethernet_address a) pl"
  have send: "send_datagram a d hop = (push_frame ?f a, Inr ())" by (rule send_known [OF pl assms(2,3)])
  obtain d' where "recv_frame b ?f = (b, Inr (Some d'))" "same_datagram d d'"
    using recv_ip_frame [OF _ assms(1) pl] by blast
  moreover have "recv_frame c ?f = (c, Inr None)" by (rule recv_frame_other) (use assms(4,5) in \<open>simp add: for_me_def\<close>)
  ultimately show ?thesis using send by (auto simp: push_frame_def)
qed

theorem known_hop_delivery_witness:
  "\<exists>fr d'. recv_frame (network_interface_new (EthernetAddress 2 0 0 0 0 1) (ipv4_endpoint 9 0)) fr =
      (network_interface_new (EthernetAddress 2 0 0 0 0 1) (ipv4_endpoint 9 0), Inr (Some d')) \<and>
    same_datagram small_datagram d'"
proof -
  let ?a = "(network_interface_new ethernet_zero (ipv4_endpoint 5 0))\<lparr>ni_ip_address_map := [(9, EthernetAddress 2 0 0 0 0 1)]\<rparr>"
    and ?b = "network_interface_new (EthernetAddress 2 0 0 0 0 1) (ipv4_endpoint 9 0)"
  have "map_of (ni_ip_address_map ?a) 9 = Some (ni_ethernet_address ?b)" "ni_ethernet_address ?b \<noteq> ni_ethernet_address ?a"
    "ni_ethernet_address ?b \<noteq> ETHERNET_BROADCAST"
    by (simp_all add: network_interface_new_def ethernet_zero_def ETHERNET_BROADCAST_def)
  with known_hop_delivery [OF small_datagram_wf, of "ipv4_endpoint 9 0" 9 ?a ?b ?a] show ?thesis by auto
qed

text \<open>The mapping cache does not survive its thirty seconds: after any ARP message that the interface accepts, a tick
  by thirty seconds or more (below the wrap of the clock) makes the loop of \<^verbatim>\<open>tick\<close> erase the element it stands on, which has
  no meaning in C++; a shorter tick from a cache without older entries only moves the clock.\<close>

theorem tick_expiry_undefined:
  assumes "ipv4_numeric (ni_ip_address ni) = Inr me" "arp_supported m"
    and "dst = ni_ethernet_address ni \<or> dst = ETHERNET_BROADCAST" "n < U32"
    and "\<forall>(ip, t) \<in> set (ni_map_time ni). \<not> expired (ni_now_time ni + word_of_nat n) t"
    and "recv_frame ni (arp_frame dst src m) = (ni', r)"
  shows "if 30000 \<le> n then \<exists>e. snd (ni_tick ni' n) = Inl (Undefined_behaviour e)
    else ni_tick ni' n = (ni'\<lparr>ni_now_time := ni_now_time ni + word_of_nat n\<rparr>, Inr ())"
proof -
  have "for_me ni (arp_frame dst src m)" using assms(3) by (simp add: for_me_def)
  then have ni': "ni' = fst (recv_arp ni m)" using recv_arp_frame [OF _ assms(2,1)] assms(6) by simp
  have mt: "ni_map_time ni' = AList.update (am_sender_ip_address m) (ni_now_time ni) (ni_map_time ni)"
    "ni_now_time ni' = ni_now_time ni"
    using recv_arp_eq [OF assms(1)] by (simp_all add: ni' Let_def)
  have "unat (word_of_nat n :: u32) = n" using assms(4) by (simp add: unat_of_nat take_bit_nat_eq_self)
  then have exp: "expired (ni_now_time ni + word_of_nat n) (ni_now_time ni) \<longleftrightarrow> 30000 \<le> n"
    by (simp add: expired_def word_le_nat_alt)
  have mem: "(am_sender_ip_address m, ni_now_time ni) \<in> set (ni_map_time ni')"
    unfolding mt by (rule map_of_SomeD) (simp add: update_conv)
  have "x \<in> set (ni_map_time ni') \<Longrightarrow> x = (am_sender_ip_address m, ni_now_time ni) \<or> x \<in> set (ni_map_time ni)" for x
    unfolding mt(1) by (rule set_update_cases)
  then have "(\<exists>(ip, t) \<in> set (ni_map_time ni'). expired (ni_now_time ni + word_of_nat n) t) \<longleftrightarrow> 30000 \<le> n"
    using exp assms(5) mem by fast
  then show ?thesis using ni_tick_quiet [of ni' n] by (auto simp: mt ni_tick_def Let_def)
qed

theorem tick_expiry_undefined_witness:
  "\<exists>ni' e. fst (recv_frame (network_interface_new ethernet_zero (ipv4_endpoint 5 0))
       (arp_frame ETHERNET_BROADCAST ethernet_zero (arp_request 9 ethernet_zero 5))) = ni' \<and>
     snd (ni_tick ni' 30000) = Inl (Undefined_behaviour e)"
proof -
  let ?n = "network_interface_new ethernet_zero (ipv4_endpoint 5 0)"
    and ?f = "arp_frame ETHERNET_BROADCAST ethernet_zero (arp_request 9 ethernet_zero 5)"
  have n: "ipv4_numeric (ni_ip_address ?n) = Inr 5" "\<forall>(ip, t) \<in> set (ni_map_time ?n). \<not> expired x t" for x
    by (simp_all add: network_interface_new_def)
  obtain ni' r where r: "recv_frame ?n ?f = (ni', r)" by fastforce
  have "\<exists>e. snd (ni_tick ni' 30000) = Inl (Undefined_behaviour e)"
    using tick_expiry_undefined [OF n(1) _ _ _ n(2) r, of 30000] by simp
  with r show ?thesis by simp
qed

text \<open>An ARP request for this interface teaches it the sender's address but leaves the datagrams that wait for that
  address where they are.\<close>

lemma arp_request_leaves_waiting:
  assumes "ipv4_numeric (ni_ip_address ni) = Inr me"
  shows "map_of (ni_ip_address_map (fst (recv_arp ni (arp_request sip sea me)))) sip = Some sea \<and>
    unsend_of (fst (recv_arp ni (arp_request sip sea me))) sip = unsend_of ni sip"
  using assms by (simp add: recv_arp_eq Let_def update_conv)

end
