(* ===== verification/Adapters.thy ===== *)
theory Adapters
  imports TCP_Segment TCP_Config Network_Interface
begin

text \<open>
  The adapters between TCP segments and what carries them:
  \<^verbatim>\<open>libsponge/tcp_helpers/fd_adapter.{hh,cc}\<close> (segments in UDP payloads), \<^verbatim>\<open>tcp_over_ip.{hh,cc}\<close> (segments in IPv4
  datagrams), \<^verbatim>\<open>tuntap_adapter.{hh,cc}\<close> (datagrams on a TUN device, frames on a TAP device), \<^verbatim>\<open>lossy_fd_adapter.hh\<close> and
  the record \<^verbatim>\<open>FdAdapterConfig\<close> of \<^verbatim>\<open>tcp_config.hh\<close>.  The devices and sockets are left out: a read takes the bytes that the device
  delivers as an argument and a write returns the bytes that it hands over.  \<^verbatim>\<open>getaddrinfo\<close>, \<^verbatim>\<open>getnameinfo\<close> and the random number
  generator are parameters.  The interface \<open>segment_link\<close> states that a segment written at one end is read at the other;
  the TUN and UDP adapters are instances.
\<close>

record fd_adapter_config =
  fa_source :: address
  fa_destination :: address
  fa_loss_rate_dn :: u16
  fa_loss_rate_up :: u16

record fd_adapter_base =
  ab_cfg :: fd_adapter_config
  ab_listen :: bool

definition fd_adapter_config_new :: "resolver \<Rightarrow> exn + fd_adapter_config" where
  "fd_adapter_config_new gai =
     (case address_of_ip gai ''0'' 0 of
        Inl e \<Rightarrow> Inl e
      | Inr s \<Rightarrow>
          (case address_of_ip gai ''0'' 0 of
             Inl e \<Rightarrow> Inl e
           | Inr d \<Rightarrow> Inr \<lparr>fa_source = s, fa_destination = d, fa_loss_rate_dn = 0, fa_loss_rate_up = 0\<rparr>))"

definition set_listening :: "bool \<Rightarrow> fd_adapter_base \<Rightarrow> fd_adapter_base" where
  "set_listening l ad = ad\<lparr>ab_listen := l\<rparr>"

definition set_source :: "address \<Rightarrow> fd_adapter_base \<Rightarrow> fd_adapter_base" where
  "set_source a ad = ad\<lparr>ab_cfg := (ab_cfg ad)\<lparr>fa_source := a\<rparr>\<rparr>"

definition set_destination :: "address \<Rightarrow> fd_adapter_base \<Rightarrow> fd_adapter_base" where
  "set_destination a ad = ad\<lparr>ab_cfg := (ab_cfg ad)\<lparr>fa_destination := a\<rparr>\<rparr>"

subsection \<open>Segments in IPv4 datagrams\<close>

text \<open>The last two tests of \<^verbatim>\<open>unwrap_tcp_in_ip\<close>: adopting the peer of a listening adapter, and the source port.\<close>

definition unwrap_peer ::
    "resolver \<Rightarrow> namer \<Rightarrow> fd_adapter_base \<Rightarrow> ipv4_datagram \<Rightarrow> tcp_segment \<Rightarrow>
     fd_adapter_base \<times> (exn + tcp_segment option)" where
  "unwrap_peer gai gni ad ip_dgram tcp_seg =
     (let finish = (\<lambda>ad. call ad (address_port gni (fa_destination (ab_cfg ad))) (\<lambda>dp.
                      if th_sport (sg_header tcp_seg) \<noteq> dp then (ad, Inr None) else (ad, Inr (Some tcp_seg))))
      in if ab_listen ad
         then if th_syn (sg_header tcp_seg) \<and> \<not> th_rst (sg_header tcp_seg)
              then call ad (address_port gni (fa_source (ab_cfg ad))) (\<lambda>sp.
                   call ad (address_of_ip gai (inet_ntoa (ih_dst (dg_header ip_dgram))) sp) (\<lambda>src.
                   let ad = set_source src ad
                   in call ad (address_of_ip gai (inet_ntoa (ih_src (dg_header ip_dgram))) (th_sport (sg_header tcp_seg)))
                        (\<lambda>dst. finish (set_listening False (set_destination dst ad)))))
              else (ad, Inr None)
         else finish ad)"

definition unwrap_tcp_in_ip ::
    "resolver \<Rightarrow> namer \<Rightarrow> fd_adapter_base \<Rightarrow> ipv4_datagram \<Rightarrow> fd_adapter_base \<times> (exn + tcp_segment option)" where
  "unwrap_tcp_in_ip gai gni ad ip_dgram =
     (let payload_checks =
            (if ih_proto (dg_header ip_dgram) \<noteq> PROTO_TCP then (ad, Inr None)
             else
               (let (res, tcp_seg) = tcp_segment_parse (dg_payload ip_dgram) (pseudo_cksum (dg_header ip_dgram)) tcp_segment_new
                in if res \<noteq> NoError then (ad, Inr None)
                   else call ad (address_port gni (fa_source (ab_cfg ad))) (\<lambda>sp.
                          if th_dport (sg_header tcp_seg) \<noteq> sp then (ad, Inr None)
                          else unwrap_peer gai gni ad ip_dgram tcp_seg)))
      in if ab_listen ad then payload_checks
         else call ad (ipv4_numeric (fa_source (ab_cfg ad))) (\<lambda>s.
                if ih_dst (dg_header ip_dgram) \<noteq> s then (ad, Inr None)
                else call ad (ipv4_numeric (fa_destination (ab_cfg ad))) (\<lambda>d.
                       if ih_src (dg_header ip_dgram) \<noteq> d then (ad, Inr None) else payload_checks)))"

text \<open>\<^verbatim>\<open>wrap_tcp_in_ip\<close> sets the ports in the segment it is given; the length is computed modulo two to the sixteen.\<close>

definition wrap_tcp_in_ip :: "namer \<Rightarrow> fd_adapter_base \<Rightarrow> tcp_segment \<Rightarrow> tcp_segment \<times> (exn + ipv4_datagram)" where
  "wrap_tcp_in_ip gni ad seg =
     call seg (address_port gni (fa_source (ab_cfg ad))) (\<lambda>sp.
     let seg = seg\<lparr>sg_header := (sg_header seg)\<lparr>th_sport := sp\<rparr>\<rparr>
     in call seg (address_port gni (fa_destination (ab_cfg ad))) (\<lambda>dp.
     let seg = seg\<lparr>sg_header := (sg_header seg)\<lparr>th_dport := dp\<rparr>\<rparr>
     in call seg (ipv4_numeric (fa_source (ab_cfg ad))) (\<lambda>s.
        call seg (ipv4_numeric (fa_destination (ab_cfg ad))) (\<lambda>d.
     let h = ipv4_header_new\<lparr>ih_src := s, ih_dst := d\<rparr>;
         h = h\<lparr>ih_len := word_of_nat (unat (ih_hlen h) * 4 + unat (th_doff (sg_header seg)) * 4 + length (sg_payload seg))\<rparr>
     in call seg (tcp_segment_serialize (pseudo_cksum h) seg) (\<lambda>pl.
        (seg, Inr \<lparr>dg_header = h, dg_payload = pl\<rparr>))))))"

subsection \<open>The TUN adapter\<close>

definition tun_read :: "resolver \<Rightarrow> namer \<Rightarrow> fd_adapter_base \<Rightarrow> bytes \<Rightarrow> fd_adapter_base \<times> (exn + tcp_segment option)" where
  "tun_read gai gni ad bs =
     (let (res, ip_dgram) = ipv4_datagram_parse bs ipv4_datagram_new
      in if res \<noteq> NoError then (ad, Inr None) else unwrap_tcp_in_ip gai gni ad ip_dgram)"

definition tun_write :: "namer \<Rightarrow> fd_adapter_base \<Rightarrow> tcp_segment \<Rightarrow> tcp_segment \<times> (exn + bytes)" where
  "tun_write gni ad seg =
     (case wrap_tcp_in_ip gni ad seg of
        (seg, Inl e) \<Rightarrow> (seg, Inl e)
      | (seg, Inr d) \<Rightarrow> call seg (ipv4_datagram_serialize d) (\<lambda>bs. (seg, Inr bs)))"

subsection \<open>The UDP adapter\<close>

text \<open>A UDP datagram comes with the address of its sender; one to be sent goes with the address of its destination.\<close>

definition udp_read :: "fd_adapter_base \<Rightarrow> address \<times> bytes \<Rightarrow> fd_adapter_base \<times> (exn + tcp_segment option)" where
  "udp_read ad datagram =
     (let (source_address, payload) = datagram
      in if \<not> ab_listen ad \<and> \<not> address_eq source_address (fa_destination (ab_cfg ad)) then (ad, Inr None)
         else
           (let (res, seg) = tcp_segment_parse payload 0 tcp_segment_new
            in if res \<noteq> NoError then (ad, Inr None)
               else if ab_listen ad
               then if th_syn (sg_header seg) \<and> \<not> th_rst (sg_header seg)
                    then (set_listening False (set_destination source_address ad), Inr (Some seg))
                    else (ad, Inr None)
               else (ad, Inr (Some seg))))"

definition udp_write :: "namer \<Rightarrow> fd_adapter_base \<Rightarrow> tcp_segment \<Rightarrow> tcp_segment \<times> (exn + address \<times> bytes)" where
  "udp_write gni ad seg =
     call seg (address_port gni (fa_source (ab_cfg ad))) (\<lambda>sp.
     let seg = seg\<lparr>sg_header := (sg_header seg)\<lparr>th_sport := sp\<rparr>\<rparr>
     in call seg (address_port gni (fa_destination (ab_cfg ad))) (\<lambda>dp.
     let seg = seg\<lparr>sg_header := (sg_header seg)\<lparr>th_dport := dp\<rparr>\<rparr>
     in call seg (tcp_segment_serialize 0 seg) (\<lambda>pl. (seg, Inr (fa_destination (ab_cfg ad), pl)))))"

subsection \<open>The TAP adapter\<close>

record ethernet_adapter =
  ead_base :: fd_adapter_base
  ead_interface :: network_interface
  ead_next_hop :: address

text \<open>The constructor writes a dummy frame to the device.\<close>

definition ethernet_adapter_new ::
    "fd_adapter_config \<Rightarrow> ethernet_address \<Rightarrow> address \<Rightarrow> address \<Rightarrow> ethernet_adapter \<times> bytes list" where
  "ethernet_adapter_new cfg eth_address ip_address next_hop =
     (\<lparr>ead_base = \<lparr>ab_cfg = cfg, ab_listen = False\<rparr>, ead_interface = network_interface_new eth_address ip_address,
       ead_next_hop = next_hop\<rparr>,
      [ethernet_frame_serialize ethernet_frame_new])"

definition send_pending :: "ethernet_adapter \<Rightarrow> ethernet_adapter \<times> bytes list" where
  "send_pending ea =
     (ea\<lparr>ead_interface := (ead_interface ea)\<lparr>ni_frames_out := []\<rparr>\<rparr>,
      map ethernet_frame_serialize (ni_frames_out (ead_interface ea)))"

definition ead_read ::
    "resolver \<Rightarrow> namer \<Rightarrow> ethernet_adapter \<Rightarrow> bytes \<Rightarrow> ethernet_adapter \<times> bytes list \<times> (exn + tcp_segment option)" where
  "ead_read gai gni ea bs =
     (let (res, frame) = ethernet_frame_parse bs ethernet_frame_new
      in if res \<noteq> NoError then (ea, [], Inr None)
         else
           (let (ni, ip_dgram) = recv_frame (ead_interface ea) frame;
                ea = ea\<lparr>ead_interface := ni\<rparr>
            in case ip_dgram of
                 Inl e \<Rightarrow> (ea, [], Inl e)
               | Inr od \<Rightarrow>
                   (let (ea, out) = send_pending ea
                    in case od of
                         None \<Rightarrow> (ea, out, Inr None)
                       | Some d \<Rightarrow>
                           (let (base, r) = unwrap_tcp_in_ip gai gni (ead_base ea) d
                            in (ea\<lparr>ead_base := base\<rparr>, out, r)))))"

definition ead_write ::
    "namer \<Rightarrow> ethernet_adapter \<Rightarrow> tcp_segment \<Rightarrow> ethernet_adapter \<times> bytes list \<times> (exn + tcp_segment)" where
  "ead_write gni ea seg =
     (case wrap_tcp_in_ip gni (ead_base ea) seg of
        (_, Inl e) \<Rightarrow> (ea, [], Inl e)
      | (seg, Inr d) \<Rightarrow>
          (let (ni, r) = send_datagram (ead_interface ea) d (ead_next_hop ea);
               ea = ea\<lparr>ead_interface := ni\<rparr>
           in case r of
                Inl e \<Rightarrow> (ea, [], Inl e)
              | Inr _ \<Rightarrow> (let (ea, out) = send_pending ea in (ea, out, Inr seg))))"

definition ead_tick :: "ethernet_adapter \<Rightarrow> nat \<Rightarrow> ethernet_adapter \<times> bytes list \<times> (exn + unit)" where
  "ead_tick ea ms =
     (let (ni, r) = ni_tick (ead_interface ea) ms;
          ea = ea\<lparr>ead_interface := ni\<rparr>
      in case r of
           Inl e \<Rightarrow> (ea, [], Inl e)
         | Inr _ \<Rightarrow> (let (ea, out) = send_pending ea in (ea, out, Inr ())))"

subsection \<open>The lossy adapter\<close>

text \<open>\<open>rand\<close> is the generator: it returns a number and its next state.  It is asked only for a loss rate that is not zero.\<close>

definition should_drop :: "('g \<Rightarrow> u32 \<times> 'g) \<Rightarrow> fd_adapter_config \<Rightarrow> bool \<Rightarrow> 'g \<Rightarrow> bool \<times> 'g" where
  "should_drop rand cfg uplink g =
     (let loss = (if uplink then fa_loss_rate_up cfg else fa_loss_rate_dn cfg)
      in if loss \<noteq> 0 then (let (x, g) = rand g in ((ucast x :: u16) < loss, g)) else (False, g))"

definition lossy_read ::
    "('g \<Rightarrow> u32 \<times> 'g) \<Rightarrow> ('a \<Rightarrow> fd_adapter_config) \<Rightarrow> ('a \<Rightarrow> 'p \<Rightarrow> 'a \<times> (exn + tcp_segment option)) \<Rightarrow>
     'a \<times> 'g \<Rightarrow> 'p \<Rightarrow> ('a \<times> 'g) \<times> (exn + tcp_segment option)" where
  "lossy_read rand cfg rd s pkt =
     (let (ad, g) = s; (ad, ret) = rd ad pkt
      in case ret of
           Inl e \<Rightarrow> ((ad, g), Inl e)
         | Inr seg \<Rightarrow> (let (drop, g) = should_drop rand (cfg ad) False g
                       in if drop then ((ad, g), Inr None) else ((ad, g), Inr seg)))"

definition lossy_write ::
    "('g \<Rightarrow> u32 \<times> 'g) \<Rightarrow> ('a \<Rightarrow> fd_adapter_config) \<Rightarrow> ('a \<Rightarrow> tcp_segment \<Rightarrow> tcp_segment \<times> (exn + 'p)) \<Rightarrow>
     'a \<times> 'g \<Rightarrow> tcp_segment \<Rightarrow> ('a \<times> 'g) \<times> tcp_segment \<times> (exn + 'p option)" where
  "lossy_write rand cfg wr s seg =
     (let (ad, g) = s; (drop, g) = should_drop rand (cfg ad) True g
      in if drop then ((ad, g), seg, Inr None)
         else (case wr ad seg of (seg, Inl e) \<Rightarrow> ((ad, g), seg, Inl e) | (seg, Inr pkt) \<Rightarrow> ((ad, g), seg, Inr (Some pkt))))"

subsection \<open>Lemmas\<close>

definition with_ports :: "u16 \<Rightarrow> u16 \<Rightarrow> tcp_segment \<Rightarrow> tcp_segment" where
  "with_ports sp dp seg = seg\<lparr>sg_header := (sg_header seg)\<lparr>th_sport := sp, th_dport := dp\<rparr>\<rparr>"

lemma with_ports_simps [simp]:
  "th_sport (sg_header (with_ports sp dp seg)) = sp" "th_dport (sg_header (with_ports sp dp seg)) = dp"
  "th_doff (sg_header (with_ports sp dp seg)) = th_doff (sg_header seg)"
  "th_syn (sg_header (with_ports sp dp seg)) = th_syn (sg_header seg)"
  "th_rst (sg_header (with_ports sp dp seg)) = th_rst (sg_header seg)"
  "sg_payload (with_ports sp dp seg) = sg_payload seg"
  by (simp_all add: with_ports_def)

text \<open>The two ends an adapter is configured with, as address and port.\<close>

definition endpoints :: "fd_adapter_base \<Rightarrow> u32 \<times> u16 \<Rightarrow> u32 \<times> u16 \<Rightarrow> bool" where
  "endpoints ad here there \<longleftrightarrow> fa_source (ab_cfg ad) = ipv4_endpoint (fst here) (snd here) \<and>
     fa_destination (ab_cfg ad) = ipv4_endpoint (fst there) (snd there)"

text \<open>A segment that fits a datagram.\<close>

definition sendable :: "tcp_segment \<Rightarrow> bool" where
  "sendable seg \<longleftrightarrow> tcp_header_wf (sg_header seg) \<and>
     20 + 4 * unat (th_doff (sg_header seg)) + length (sg_payload seg) \<le> 65535"

lemma same_datagram_fields:
  assumes "same_datagram a b"
  shows "ih_src (dg_header b) = ih_src (dg_header a)" "ih_dst (dg_header b) = ih_dst (dg_header a)"
    "ih_proto (dg_header b) = ih_proto (dg_header a)" "pseudo_cksum (dg_header b) = pseudo_cksum (dg_header a)"
    "dg_payload b = dg_payload a"
proof -
  have eq: "(dg_header b)\<lparr>ih_cksum := 0\<rparr> = (dg_header a)\<lparr>ih_cksum := 0\<rparr>" and "dg_payload b = dg_payload a"
    using assms by (simp_all add: same_datagram_def)
  have f: "f (dg_header b) = f (dg_header a)" if "\<And>h. f (h\<lparr>ih_cksum := 0\<rparr>) = f h" for f :: "ipv4_header \<Rightarrow> 'x"
    using eq that by metis
  show "ih_src (dg_header b) = ih_src (dg_header a)" "ih_dst (dg_header b) = ih_dst (dg_header a)"
    "ih_proto (dg_header b) = ih_proto (dg_header a)" "pseudo_cksum (dg_header b) = pseudo_cksum (dg_header a)"
    by (rule f; simp add: pseudo_cksum_def payload_length_def Let_def)+
  show "dg_payload b = dg_payload a" by fact
qed

lemma same_segment_fields:
  assumes "same_segment a b"
  shows "th_sport (sg_header b) = th_sport (sg_header a)" "th_dport (sg_header b) = th_dport (sg_header a)"
    "th_syn (sg_header b) = th_syn (sg_header a)" "th_rst (sg_header b) = th_rst (sg_header a)"
proof -
  have eq: "(sg_header b)\<lparr>th_cksum := 0\<rparr> = (sg_header a)\<lparr>th_cksum := 0\<rparr>" using assms by (simp add: same_segment_def)
  have f: "f (sg_header b) = f (sg_header a)" if "\<And>h. f (h\<lparr>th_cksum := 0\<rparr>) = f h" for f :: "tcp_header \<Rightarrow> 'x"
    using eq that by metis
  show "th_sport (sg_header b) = th_sport (sg_header a)" "th_dport (sg_header b) = th_dport (sg_header a)"
    "th_syn (sg_header b) = th_syn (sg_header a)" "th_rst (sg_header b) = th_rst (sg_header a)"
    by (rule f; simp)+
qed

lemma tcp_segment_serialize_length:
  assumes "tcp_header_wf (sg_header seg)" "tcp_segment_serialize s seg = Inr pl"
  shows "length pl = 4 * unat (th_doff (sg_header seg)) + length (sg_payload seg)"
proof -
  have d: "5 \<le> th_doff (sg_header seg)" using assms(1) by (simp add: tcp_header_wf_def)
  then have "5 \<le> unat (th_doff (sg_header seg))" by (simp add: word_le_nat_alt)
  then show ?thesis using tcp_segment_serialize_eq [OF d refl, of s] assms(2) by (auto simp: tcp_pre_length)
qed

lemma sendable_wf: "sendable seg \<Longrightarrow> unat s < 2 ^ 20 \<Longrightarrow> seg_wf s (with_ports sp dp seg)"
  by (simp add: seg_wf_def sendable_def tcp_header_wf_def)

lemma wrap_ok:
  assumes gni: "numeric_namer gni" and ad: "endpoints ad (s, sp) (d, dp)" and seg: "sendable seg"
  shows "\<exists>dg. wrap_tcp_in_ip gni ad seg = (with_ports sp dp seg, Inr dg) \<and> dg_wf dg \<and>
    ih_src (dg_header dg) = s \<and> ih_dst (dg_header dg) = d \<and> ih_proto (dg_header dg) = PROTO_TCP \<and>
    tcp_segment_serialize (pseudo_cksum (dg_header dg)) (with_ports sp dp seg) = Inr (dg_payload dg)"
proof -
  let ?seg = "with_ports sp dp seg"
  let ?h0 = "ipv4_header_new\<lparr>ih_src := s, ih_dst := d\<rparr>"
  define n where "n = unat (ih_hlen ?h0) * 4 + unat (th_doff (sg_header ?seg)) * 4 + length (sg_payload ?seg)"
  let ?h = "?h0\<lparr>ih_len := word_of_nat n\<rparr>"
  obtain pl where pl: "tcp_segment_serialize (pseudo_cksum ?h) ?seg = Inr pl"
    using segm.deliver [OF sendable_wf [OF seg pseudo_cksum_less]] by blast
  have wrap: "wrap_tcp_in_ip gni ad seg = (?seg, Inr \<lparr>dg_header = ?h, dg_payload = pl\<rparr>)"
    using ad gni pl unfolding wrap_tcp_in_ip_def Let_def n_def by (simp add: endpoints_def with_ports_def)
  have hlen: "unat (ih_hlen ipv4_header_new) = 5" by (simp add: ipv4_header_new_def)
  have wf: "tcp_header_wf (sg_header ?seg)" using seg by (simp add: sendable_def tcp_header_wf_def)
  have "n < 65536" using seg by (simp add: n_def hlen sendable_def)
  then have "unat (word_of_nat n :: u16) = n" by (simp add: unat_of_nat take_bit_nat_eq_self)
  then have "dg_wf \<lparr>dg_header = ?h, dg_payload = pl\<rparr>"
    using tcp_segment_serialize_length [OF wf pl] by (simp add: dg_wf_def ipv4_wf_def ipv4_header_new_def n_def)
  then show ?thesis using wrap pl by (intro exI [of _ "\<lparr>dg_header = ?h, dg_payload = pl\<rparr>"]) (simp add: ipv4_header_new_def)
qed

text \<open>The datagram at the other end: the receiving adapter may have parsed it, so it is given up to the checksum.\<close>

lemma unwrap_ok:
  assumes gni: "numeric_namer gni" and ad: "endpoints ad (d, dp) (s, sp)" "\<not> ab_listen ad"
    and dg: "ih_src (dg_header dg) = s" "ih_dst (dg_header dg) = d" "ih_proto (dg_header dg) = PROTO_TCP"
    and seg: "sendable seg" "tcp_segment_serialize (pseudo_cksum (dg_header dg)) (with_ports sp dp seg) = Inr (dg_payload dg)"
    and same: "same_datagram dg dg'"
  shows "\<exists>seg'. unwrap_tcp_in_ip gai gni ad dg' = (ad, Inr (Some seg')) \<and> same_segment (with_ports sp dp seg) seg'"
proof -
  note f = same_datagram_fields [OF same]
  obtain seg' where seg': "tcp_segment_parse (dg_payload dg) (pseudo_cksum (dg_header dg)) tcp_segment_new = (NoError, seg')"
    "same_segment (with_ports sp dp seg) seg'"
    using segm.delivered [OF sendable_wf [OF seg(1) pseudo_cksum_less] seg(2)] by blast
  have "unwrap_tcp_in_ip gai gni ad dg' = (ad, Inr (Some seg'))"
    using ad gni dg seg'(1) f same_segment_fields [OF seg'(2)]
    by (simp add: unwrap_tcp_in_ip_def unwrap_peer_def endpoints_def Let_def)
  with seg'(2) show ?thesis by blast
qed

subsection \<open>The interface: a link that carries segments\<close>

text \<open>
  Two adapters that are linked under a pair of ports: what one writes, the other reads, up to the ports that writing
  fills in and the checksum, and neither changes.
\<close>

locale segment_link =
  fixes linked :: "'a \<Rightarrow> 'b \<Rightarrow> u16 \<Rightarrow> u16 \<Rightarrow> bool"
    and wr :: "'a \<Rightarrow> tcp_segment \<Rightarrow> tcp_segment \<times> (exn + 'p)"
    and rd :: "'b \<Rightarrow> 'p \<Rightarrow> 'b \<times> (exn + tcp_segment option)"
  assumes carry: "linked a b sp dp \<Longrightarrow> sendable seg \<Longrightarrow> \<exists>pkt seg'. wr a seg = (with_ports sp dp seg, Inr pkt) \<and>
      rd b pkt = (b, Inr (Some seg')) \<and> same_segment (with_ports sp dp seg) seg'"
begin

lemma carry_list:
  "linked a b sp dp \<Longrightarrow> \<forall>seg \<in> set segs. sendable seg \<Longrightarrow>
   \<exists>pkts segs'. map (\<lambda>seg. snd (wr a seg)) segs = map Inr pkts \<and>
     map (rd b) pkts = map (\<lambda>seg. (b, Inr (Some seg))) segs' \<and>
     list_all2 same_segment (map (with_ports sp dp) segs) segs'"
proof (induction segs)
  case (Cons seg segs)
  then obtain pkts segs' where IH: "map (\<lambda>seg. snd (wr a seg)) segs = map Inr pkts"
    "map (rd b) pkts = map (\<lambda>seg. (b, Inr (Some seg))) segs'" "list_all2 same_segment (map (with_ports sp dp) segs) segs'"
    by auto
  obtain pkt seg' where "wr a seg = (with_ports sp dp seg, Inr pkt)" "rd b pkt = (b, Inr (Some seg'))"
    "same_segment (with_ports sp dp seg) seg'" using carry [of a b sp dp seg] Cons.prems by auto
  with IH show ?case by (intro exI [of _ "pkt # pkts"] exI [of _ "seg' # segs'"]) simp
qed simp

text \<open>With random losses on both sides the segment is read as before or not at all.\<close>

lemma lossy_carry:
  assumes "linked a b sp dp" "sendable seg"
  shows "\<exists>g' seg1. lossy_write rand cfg wr (a, g) seg = ((a, g'), seg1, Inr None) \<and> fa_loss_rate_up (cfg a) \<noteq> 0 \<or>
    (\<exists>pkt. lossy_write rand cfg wr (a, g) seg = ((a, g'), seg1, Inr (Some pkt)) \<and>
      (\<exists>h' r. lossy_read rand cfg' rd (b, h) pkt = ((b, h'), Inr r) \<and>
        (case r of None \<Rightarrow> fa_loss_rate_dn (cfg' b) \<noteq> 0 | Some seg' \<Rightarrow> same_segment (with_ports sp dp seg) seg')))"
proof -
  obtain pkt seg' where wr: "wr a seg = (with_ports sp dp seg, Inr pkt)" "rd b pkt = (b, Inr (Some seg'))"
    "same_segment (with_ports sp dp seg) seg'" using carry [OF assms] by blast
  obtain dr g' where up: "should_drop rand (cfg a) True g = (dr, g')" by fastforce
  obtain dn h' where dn: "should_drop rand (cfg' b) False h = (dn, h')" by fastforce
  have loss: "dr \<Longrightarrow> fa_loss_rate_up (cfg a) \<noteq> 0" "dn \<Longrightarrow> fa_loss_rate_dn (cfg' b) \<noteq> 0"
    using up dn by (auto simp: should_drop_def Let_def split: if_splits)
  have "lossy_read rand cfg' rd (b, h) pkt = ((b, h'), Inr (if dn then None else Some seg'))"
    using wr dn by (simp add: lossy_read_def)
  moreover have "lossy_write rand cfg wr (a, g) seg =
      (if dr then ((a, g'), seg, Inr None) else ((a, g'), with_ports sp dp seg, Inr (Some pkt)))"
    using wr up by (simp add: lossy_write_def)
  ultimately show ?thesis using loss wr(3) by (cases dr; cases dn) auto
qed

end

text \<open>Two TUN adapters whose configurations mirror each other.\<close>

definition tun_linked :: "namer \<Rightarrow> fd_adapter_base \<Rightarrow> fd_adapter_base \<Rightarrow> u16 \<Rightarrow> u16 \<Rightarrow> bool" where
  "tun_linked gni a b sp dp \<longleftrightarrow> numeric_namer gni \<and> \<not> ab_listen b \<and>
     (\<exists>s d. endpoints a (s, sp) (d, dp) \<and> endpoints b (d, dp) (s, sp))"

interpretation tun: segment_link "tun_linked gni" "tun_write gni" "tun_read gai gni" for gai gni
proof unfold_locales
  fix a b sp dp seg
  assume l: "tun_linked gni a b sp dp" and seg: "sendable seg"
  then obtain s d where e: "endpoints a (s, sp) (d, dp)" "endpoints b (d, dp) (s, sp)" "\<not> ab_listen b" "numeric_namer gni"
    by (auto simp: tun_linked_def)
  obtain dg where dg: "wrap_tcp_in_ip gni a seg = (with_ports sp dp seg, Inr dg)" "dg_wf dg"
    "ih_src (dg_header dg) = s" "ih_dst (dg_header dg) = d" "ih_proto (dg_header dg) = PROTO_TCP"
    "tcp_segment_serialize (pseudo_cksum (dg_header dg)) (with_ports sp dp seg) = Inr (dg_payload dg)"
    using wrap_ok [OF e(4,1) seg] by blast
  obtain bs dg' where bs: "ipv4_datagram_serialize dg = Inr bs" "ipv4_datagram_parse bs ipv4_datagram_new = (NoError, dg')"
    "same_datagram dg dg'" using dgram.deliver [OF dg(2)] by blast
  obtain seg' where "unwrap_tcp_in_ip gai gni b dg' = (b, Inr (Some seg'))" "same_segment (with_ports sp dp seg) seg'"
    using unwrap_ok [OF e(4,2,3) dg(3-5) seg dg(6) bs(3)] by blast
  with dg(1) bs show "\<exists>pkt seg'. tun_write gni a seg = (with_ports sp dp seg, Inr pkt) \<and>
      tun_read gai gni b pkt = (b, Inr (Some seg')) \<and> same_segment (with_ports sp dp seg) seg'"
    by (auto simp: tun_write_def tun_read_def)
qed

text \<open>Two UDP adapters; the network delivers a datagram with the address of its sender.\<close>

definition udp_linked :: "namer \<Rightarrow> fd_adapter_base \<Rightarrow> fd_adapter_base \<Rightarrow> u16 \<Rightarrow> u16 \<Rightarrow> bool" where
  "udp_linked gni a b sp dp \<longleftrightarrow> numeric_namer gni \<and> \<not> ab_listen b \<and> (\<exists>s d. endpoints a (s, sp) (d, dp))"

interpretation udp: segment_link "udp_linked gni" "udp_write gni" "\<lambda>b pkt. udp_read b (fa_destination (ab_cfg b), snd pkt)" for gni
proof unfold_locales
  fix a b sp dp seg
  assume l: "udp_linked gni a b sp dp" and seg: "sendable seg"
  then obtain s d where e: "endpoints a (s, sp) (d, dp)" "\<not> ab_listen b" "numeric_namer gni" by (auto simp: udp_linked_def)
  have wf: "seg_wf 0 (with_ports sp dp seg)" by (rule sendable_wf [OF seg]) simp
  obtain pl seg' where pl: "tcp_segment_serialize 0 (with_ports sp dp seg) = Inr pl"
    "tcp_segment_parse pl 0 tcp_segment_new = (NoError, seg')" "same_segment (with_ports sp dp seg) seg'"
    using segm.deliver [OF wf] by blast
  have "udp_write gni a seg = (with_ports sp dp seg, Inr (fa_destination (ab_cfg a), pl))"
    using e pl(1) by (simp add: udp_write_def endpoints_def with_ports_def)
  moreover have "udp_read b (fa_destination (ab_cfg b), pl) = (b, Inr (Some seg'))"
    using e(2) pl(2) by (simp add: udp_read_def address_eq_def)
  ultimately show "\<exists>pkt seg'. udp_write gni a seg = (with_ports sp dp seg, Inr pkt) \<and>
      udp_read b (fa_destination (ab_cfg b), snd pkt) = (b, Inr (Some seg')) \<and> same_segment (with_ports sp dp seg) seg'"
    using pl(3) by auto
qed

subsection \<open>Properties\<close>

text \<open>Adapters for the witnesses: the host \<open>10.0.0.1\<close> port 1000 and the host \<open>10.0.0.2\<close> port 80.\<close>

definition adapter_of :: "u32 \<times> u16 \<Rightarrow> u32 \<times> u16 \<Rightarrow> fd_adapter_base" where
  "adapter_of here there = \<lparr>ab_cfg = \<lparr>fa_source = ipv4_endpoint (fst here) (snd here),
     fa_destination = ipv4_endpoint (fst there) (snd there), fa_loss_rate_dn = 0, fa_loss_rate_up = 0\<rparr>, ab_listen = False\<rparr>"

lemma adapter_of_endpoints: "endpoints (adapter_of here there) here there" "\<not> ab_listen (adapter_of here there)"
  by (simp_all add: endpoints_def adapter_of_def)

lemma new_segment_sendable: "sendable tcp_segment_new"
  by (simp add: sendable_def tcp_segment_new_def tcp_header_new_def tcp_header_wf_def)

text \<open>C31. Segments over IPv4: between two TUN adapters whose configurations mirror each other, every sequence of
  segments that fit a datagram is carried: each is wrapped and serialized without an exception, and the bytes, given to the
  other adapter, pass the IPv4 and TCP checks and the address and port filters and yield the same segments in the same order,
  with the configured ports filled in, up to the checksum.\<close>

theorem tun_adapter_delivers:
  assumes "numeric_namer gni" "endpoints a (s, sp) (d, dp)" "endpoints b (d, dp) (s, sp)" "\<not> ab_listen b"
    and "\<forall>seg \<in> set segs. sendable seg"
  shows "\<exists>pkts segs'. map (\<lambda>seg. snd (tun_write gni a seg)) segs = map Inr pkts \<and>
    map (tun_read gai gni b) pkts = map (\<lambda>seg. (b, Inr (Some seg))) segs' \<and>
    list_all2 same_segment (map (with_ports sp dp) segs) segs'"
  by (rule tun.carry_list) (use assms in \<open>auto simp: tun_linked_def\<close>)

theorem tun_adapter_delivers_witness:
  "\<exists>pkt seg'. snd (tun_write number_namer (adapter_of (1, 1000) (2, 80)) tcp_segment_new) = Inr pkt \<and>
     tun_read number_resolver number_namer (adapter_of (2, 80) (1, 1000)) pkt =
       (adapter_of (2, 80) (1, 1000), Inr (Some seg')) \<and> same_segment (with_ports 1000 80 tcp_segment_new) seg'"
proof -
  have all: "\<forall>seg \<in> set [tcp_segment_new]. sendable seg" using new_segment_sendable by simp
  obtain pkts segs' where w: "map (\<lambda>seg. snd (tun_write number_namer (adapter_of (1, 1000) (2, 80)) seg)) [tcp_segment_new] = map Inr pkts"
    "map (tun_read number_resolver number_namer (adapter_of (2, 80) (1, 1000))) pkts =
      map (\<lambda>seg. (adapter_of (2, 80) (1, 1000), Inr (Some seg))) segs'"
    "list_all2 same_segment (map (with_ports 1000 80) [tcp_segment_new]) segs'"
    using tun_adapter_delivers [OF number_namer_numeric adapter_of_endpoints(1) adapter_of_endpoints all] by blast
  then obtain pkt seg' where "pkts = [pkt]" "segs' = [seg']" by (cases pkts; cases segs'; auto)
  with w show ?thesis by auto
qed

text \<open>C32. The filter: an adapter that is not listening passes a segment up only if the datagram comes from the
  configured peer and is for the configured host, carries TCP and a valid checksum, and the ports are the configured ones;
  whatever it answers, the adapter does not change.\<close>

theorem adapter_accepts_only_peer:
  assumes "numeric_namer gni" "endpoints ad (s, sp) (d, dp)" "\<not> ab_listen ad"
    and "unwrap_tcp_in_ip gai gni ad dg = (ad', r)"
  shows "ad' = ad \<and> (\<exists>o'. r = Inr o') \<and> (\<forall>seg. r = Inr (Some seg) \<longrightarrow>
    ih_src (dg_header dg) = d \<and> ih_dst (dg_header dg) = s \<and> ih_proto (dg_header dg) = PROTO_TCP \<and>
    th_sport (sg_header seg) = dp \<and> th_dport (sg_header seg) = sp \<and>
    tcp_segment_parse (dg_payload dg) (pseudo_cksum (dg_header dg)) tcp_segment_new = (NoError, seg))"
  using assms
  by (auto simp: unwrap_tcp_in_ip_def unwrap_peer_def endpoints_def Let_def split: if_splits prod.splits)

theorem adapter_accepts_only_peer_witness:
  "fst (unwrap_tcp_in_ip number_resolver number_namer (adapter_of (2, 80) (1, 1000)) small_datagram) = adapter_of (2, 80) (1, 1000) \<and>
   snd (unwrap_tcp_in_ip number_resolver number_namer (adapter_of (2, 80) (1, 1000)) small_datagram) \<noteq> Inr (Some tcp_segment_new)"
proof -
  obtain ad' r where u: "unwrap_tcp_in_ip number_resolver number_namer (adapter_of (2, 80) (1, 1000)) small_datagram = (ad', r)"
    by fastforce
  note f = adapter_accepts_only_peer [OF number_namer_numeric adapter_of_endpoints u]
  have "ih_src (dg_header small_datagram) \<noteq> 1" by (simp add: small_datagram_def ipv4_header_new_def)
  with f u show ?thesis by auto
qed

text \<open>Listening: an adapter that listens on a port and receives, in a datagram that parses, a SYN for that port
  passes the segment up, takes the destination and source of the datagram as its own and its peer's address, with the
  segment's source port, and stops listening; so from then on it is linked with that peer.  A segment without SYN, or with
  RST, is dropped and leaves it listening.\<close>

theorem listening_adapter_adopts_peer:
  assumes "numeric_resolver gai" "numeric_namer gni" "ab_listen ad" "fa_source (ab_cfg ad) = ipv4_endpoint any_ip port"
    and "ih_proto (dg_header dg) = PROTO_TCP"
    and "tcp_segment_parse (dg_payload dg) (pseudo_cksum (dg_header dg)) tcp_segment_new = (NoError, seg)"
    and "th_dport (sg_header seg) = port"
  shows "if th_syn (sg_header seg) \<and> \<not> th_rst (sg_header seg)
    then \<exists>ad'. unwrap_tcp_in_ip gai gni ad dg = (ad', Inr (Some seg)) \<and> \<not> ab_listen ad' \<and>
      endpoints ad' (ih_dst (dg_header dg), port) (ih_src (dg_header dg), th_sport (sg_header seg))
    else unwrap_tcp_in_ip gai gni ad dg = (ad, Inr None)"
  using assms
  by (simp add: unwrap_tcp_in_ip_def unwrap_peer_def endpoints_def Let_def address_of_ip_dotted set_source_def
      set_destination_def set_listening_def)

theorem listening_adapter_adopts_peer_witness:
  "\<exists>dg ad' seg. unwrap_tcp_in_ip number_resolver number_namer ((adapter_of (0, 80) (0, 0))\<lparr>ab_listen := True\<rparr>) dg =
     (ad', Inr (Some seg)) \<and> endpoints ad' (2, 80) (1, 1000)"
proof -
  let ?s = "tcp_segment_new\<lparr>sg_header := tcp_header_new\<lparr>th_syn := True\<rparr>\<rparr>"
    and ?ad = "(adapter_of (0, 80) (0, 0))\<lparr>ab_listen := True\<rparr>"
  have ok: "sendable ?s" by (simp add: sendable_def tcp_segment_new_def tcp_header_new_def tcp_header_wf_def)
  obtain dg :: ipv4_datagram where dg: "ih_src (dg_header dg) = 1" "ih_dst (dg_header dg) = 2" "ih_proto (dg_header dg) = PROTO_TCP"
    "tcp_segment_serialize (pseudo_cksum (dg_header dg)) (with_ports 1000 80 ?s) = Inr (dg_payload dg)"
    using wrap_ok [OF number_namer_numeric adapter_of_endpoints(1) ok, of 1 1000 2 80] by blast
  obtain seg where seg: "tcp_segment_parse (dg_payload dg) (pseudo_cksum (dg_header dg)) tcp_segment_new = (NoError, seg)"
    "same_segment (with_ports 1000 80 ?s) seg"
    using segm.delivered [OF sendable_wf [OF ok pseudo_cksum_less] dg(4)] by blast
  note f = same_segment_fields [OF seg(2)]
  have ports: "th_dport (sg_header seg) = 80" "th_sport (sg_header seg) = 1000" "th_syn (sg_header seg)" "\<not> th_rst (sg_header seg)"
    using f by (simp_all add: tcp_header_new_def)
  have "ab_listen ?ad" "fa_source (ab_cfg ?ad) = ipv4_endpoint 0 80" by (simp_all add: adapter_of_def)
  from listening_adapter_adopts_peer [OF number_resolver_numeric number_namer_numeric this dg(3) seg(1) ports(1)]
  show ?thesis using ports dg(1,2) by auto
qed

text \<open>Random losses: a segment given to a lossy TUN adapter is not written, which happens only with a loss rate above
  zero, or it is written as without losses; read at the other end through a lossy adapter it is dropped, again only with a loss
  rate above zero, or it is the segment that was sent.  No exception is thrown, and losses never change a segment.\<close>

theorem lossy_adapter_delivers_or_drops:
  assumes "numeric_namer gni" "endpoints a (s, sp) (d, dp)" "endpoints b (d, dp) (s, sp)" "\<not> ab_listen b" "sendable seg"
  shows "\<exists>g' seg1. lossy_write rand ab_cfg (tun_write gni) (a, g) seg = ((a, g'), seg1, Inr None) \<and>
      fa_loss_rate_up (ab_cfg a) \<noteq> 0 \<or>
    (\<exists>pkt. lossy_write rand ab_cfg (tun_write gni) (a, g) seg = ((a, g'), seg1, Inr (Some pkt)) \<and>
      (\<exists>h' r. lossy_read rand ab_cfg (tun_read gai gni) (b, h) pkt = ((b, h'), Inr r) \<and>
        (case r of None \<Rightarrow> fa_loss_rate_dn (ab_cfg b) \<noteq> 0 | Some seg' \<Rightarrow> same_segment (with_ports sp dp seg) seg')))"
  by (rule tun.lossy_carry) (use assms in \<open>auto simp: tun_linked_def\<close>)

theorem lossy_adapter_delivers_or_drops_witness:
  "\<exists>pkt g' seg1. lossy_write (\<lambda>g. (g, g + 1)) ab_cfg (tun_write number_namer) (adapter_of (1, 1000) (2, 80), 5) tcp_segment_new =
     ((adapter_of (1, 1000) (2, 80), g'), seg1, Inr (Some pkt))"
proof -
  let ?a = "adapter_of (1, 1000) (2, 80)"
  have "fa_loss_rate_up (ab_cfg ?a) = 0" by (simp add: adapter_of_def)
  with lossy_adapter_delivers_or_drops [OF number_namer_numeric adapter_of_endpoints(1) adapter_of_endpoints new_segment_sendable,
      where rand = "\<lambda>g. (g, g + 1)" and g = 5]
  show ?thesis by blast
qed

text \<open>The whole stack on one link: a segment written to a TAP adapter whose interface knows the Ethernet address of
  the next hop goes out as the bytes of one frame; the TAP adapter that owns that address, with the mirrored configuration,
  reads them as the same segment up to the checksum, writes nothing in answer and does not change.\<close>

theorem ethernet_adapter_delivers:
  assumes "numeric_namer gni" "endpoints (ead_base a) (s, sp) (d, dp)" "endpoints (ead_base b) (d, dp) (s, sp)"
    and "\<not> ab_listen (ead_base b)" "sendable seg"
    and "ipv4_numeric (ead_next_hop a) = Inr nh"
    and "map_of (ni_ip_address_map (ead_interface a)) nh = Some (ni_ethernet_address (ead_interface b))"
    and "ni_frames_out (ead_interface a) = []" "ni_frames_out (ead_interface b) = []"
  shows "\<exists>bs seg'. ead_write gni a seg = (a, [bs], Inr (with_ports sp dp seg)) \<and>
    ead_read gai gni b bs = (b, [], Inr (Some seg')) \<and> same_segment (with_ports sp dp seg) seg'"
proof -
  obtain dg where dg: "wrap_tcp_in_ip gni (ead_base a) seg = (with_ports sp dp seg, Inr dg)" "dg_wf dg"
    "ih_src (dg_header dg) = s" "ih_dst (dg_header dg) = d" "ih_proto (dg_header dg) = PROTO_TCP"
    "tcp_segment_serialize (pseudo_cksum (dg_header dg)) (with_ports sp dp seg) = Inr (dg_payload dg)"
    using wrap_ok [OF assms(1,2,5)] by blast
  obtain pl where pl: "ipv4_datagram_serialize dg = Inr pl" using dgram.deliver [OF dg(2)] by blast
  let ?fr = "ip_frame (ni_ethernet_address (ead_interface b)) (ni_ethernet_address (ead_interface a)) pl"
  have send: "send_datagram (ead_interface a) dg (ead_next_hop a) = (push_frame ?fr (ead_interface a), Inr ())"
    by (rule send_known [OF pl assms(6,7)])
  have idle: "(ead_interface a)\<lparr>ni_frames_out := []\<rparr> = ead_interface a" "(ead_interface b)\<lparr>ni_frames_out := []\<rparr> = ead_interface b"
    using assms(8,9) by (metis network_interface.surjective network_interface.update_convs(3))+
  have w: "ead_write gni a seg = (a, [ethernet_frame_serialize ?fr], Inr (with_ports sp dp seg))"
    using assms(8) idle by (simp add: ead_write_def dg(1) send send_pending_def push_frame_def)
  obtain dg' where dg': "recv_frame (ead_interface b) ?fr = (ead_interface b, Inr (Some dg'))" "same_datagram dg dg'"
    using recv_ip_frame [OF _ dg(2) pl] by blast
  obtain seg' where seg': "unwrap_tcp_in_ip gai gni (ead_base b) dg' = (ead_base b, Inr (Some seg'))"
    "same_segment (with_ports sp dp seg) seg'"
    using unwrap_ok [OF assms(1,3,4) dg(3-5) assms(5) dg(6) dg'(2)] by blast
  have "ead_read gai gni b (ethernet_frame_serialize ?fr) = (b, [], Inr (Some seg'))"
    using assms(9) idle seg'(1)
    by (simp add: ead_read_def ethernet_frame_parse_serialized dg'(1) send_pending_def)
  with w seg'(2) show ?thesis by blast
qed

theorem ethernet_adapter_delivers_witness:
  "\<exists>a b bs seg'. ead_write number_namer a tcp_segment_new = (a, [bs], Inr (with_ports 1000 80 tcp_segment_new)) \<and>
     ead_read number_resolver number_namer b bs = (b, [], Inr (Some seg')) \<and>
     same_segment (with_ports 1000 80 tcp_segment_new) seg'"
proof -
  let ?nb = "network_interface_new (EthernetAddress 2 0 0 0 0 1) (ipv4_endpoint 2 0)"
  let ?na = "(network_interface_new ethernet_zero (ipv4_endpoint 1 0))\<lparr>ni_ip_address_map := [(2, EthernetAddress 2 0 0 0 0 1)]\<rparr>"
  let ?a = "\<lparr>ead_base = adapter_of (1, 1000) (2, 80), ead_interface = ?na, ead_next_hop = ipv4_endpoint 2 0\<rparr>"
    and ?b = "\<lparr>ead_base = adapter_of (2, 80) (1, 1000), ead_interface = ?nb, ead_next_hop = ipv4_endpoint 1 0\<rparr>"
  have "endpoints (ead_base ?a) (1, 1000) (2, 80)" "endpoints (ead_base ?b) (2, 80) (1, 1000)" "\<not> ab_listen (ead_base ?b)"
    using adapter_of_endpoints by simp_all
  moreover have "ipv4_numeric (ead_next_hop ?a) = Inr 2"
    "map_of (ni_ip_address_map (ead_interface ?a)) 2 = Some (ni_ethernet_address (ead_interface ?b))"
    "ni_frames_out (ead_interface ?a) = []" "ni_frames_out (ead_interface ?b) = []"
    by (simp_all add: network_interface_new_def)
  ultimately show ?thesis
    using ethernet_adapter_delivers [OF number_namer_numeric _ _ _ new_segment_sendable] by blast
qed

end
