(* ===== verification/Buffers.thy ===== *)
theory Buffers
  imports Sponge_Prelude
begin

text \<open>
  \<^verbatim>\<open>libsponge/util/buffer.{hh,cc}\<close>: \<^verbatim>\<open>Buffer\<close> (a shared string with a starting offset),
  \<^verbatim>\<open>BufferList\<close> (a queue of buffers) and \<^verbatim>\<open>BufferViewList\<close> (a queue of string views).
  The interface \<open>byte_source\<close> says that discarding a prefix drops bytes from the string that
  the object stands for and throws exactly when there are too few; the three classes
  interpret it.  The other theories work with the string a buffer stands for.
\<close>

subsection \<open>Buffer\<close>

record buffer =
  storage :: "bytes option"
  starting_offset :: nat

definition buffer_empty :: buffer where
  "buffer_empty = \<lparr>storage = None, starting_offset = 0\<rparr>"

definition buffer_of :: "bytes \<Rightarrow> buffer" where
  "buffer_of s = \<lparr>storage = Some s, starting_offset = 0\<rparr>"

definition buffer_str :: "buffer \<Rightarrow> bytes" where
  "buffer_str b = (case storage b of None \<Rightarrow> [] | Some s \<Rightarrow> drop (starting_offset b) s)"

definition buffer_at :: "nat \<Rightarrow> buffer \<Rightarrow> exn + byte" where
  "buffer_at n b =
     (if n < length (buffer_str b) then Inr (buffer_str b ! n) else Inl (Out_of_range ''string_view::at''))"

definition buffer_size :: "buffer \<Rightarrow> nat" where
  "buffer_size b = length (buffer_str b)"

definition buffer_remove_prefix :: "nat \<Rightarrow> buffer \<Rightarrow> exn + buffer" where
  "buffer_remove_prefix n b =
     (if n > length (buffer_str b) then Inl (Out_of_range ''Buffer::remove_prefix'')
      else
        (let off = add64 (starting_offset b) n in
         Inr (case storage b of
                None \<Rightarrow> b\<lparr>starting_offset := off\<rparr>
              | Some s \<Rightarrow>
                  if off = length s then b\<lparr>starting_offset := off, storage := None\<rparr>
                  else b\<lparr>starting_offset := off\<rparr>)))"

text \<open>The offset stays inside the string, and a string fits the address space.\<close>

definition buffer_inv :: "buffer \<Rightarrow> bool" where
  "buffer_inv b = (case storage b of None \<Rightarrow> True | Some s \<Rightarrow> starting_offset b \<le> length s \<and> length s < U64)"

subsection \<open>BufferList\<close>

type_synonym buffer_list = "buffer list"

definition bl_append :: "buffer_list \<Rightarrow> buffer_list \<Rightarrow> buffer_list" where
  "bl_append this other = foldl (\<lambda>bufs buf. bufs @ [buf]) this other"

definition bl_to_buffer :: "buffer_list \<Rightarrow> exn + buffer" where
  "bl_to_buffer bl =
     (case bl of
        [] \<Rightarrow> Inr buffer_empty
      | [b] \<Rightarrow> Inr b
      | _ \<Rightarrow> Inl (Runtime_error ''BufferList: please use concatenate() to combine a multi-Buffer BufferList into one Buffer''))"

definition bl_concatenate :: "buffer_list \<Rightarrow> bytes" where
  "bl_concatenate bl = foldl (\<lambda>ret buf. ret @ buffer_str buf) [] bl"

definition bl_size :: "buffer_list \<Rightarrow> nat" where
  "bl_size bl = foldl (\<lambda>ret buf. add64 ret (buffer_size buf)) 0 bl"

fun bl_remove_prefix :: "nat \<Rightarrow> buffer_list \<Rightarrow> exn + buffer_list" where
  "bl_remove_prefix n [] =
     (if n > 0 then Inl (Out_of_range ''BufferList::remove_prefix'') else Inr [])"
| "bl_remove_prefix n (b # bs) =
     (if n > 0 then
        if n < length (buffer_str b)
        then (case buffer_remove_prefix n b of Inl e \<Rightarrow> Inl e | Inr b' \<Rightarrow> Inr (b' # bs))
        else bl_remove_prefix (sub64 n (length (buffer_str b))) bs
      else Inr (b # bs))"

definition bl_inv :: "buffer_list \<Rightarrow> bool" where
  "bl_inv bl \<longleftrightarrow> (\<forall>b \<in> set bl. buffer_inv b)"

subsection \<open>BufferViewList\<close>

type_synonym buffer_view_list = "bytes list"

definition bvl_of_buffer_list :: "buffer_list \<Rightarrow> buffer_view_list" where
  "bvl_of_buffer_list bl = foldl (\<lambda>views x. views @ [buffer_str x]) [] bl"

fun bvl_remove_prefix :: "nat \<Rightarrow> buffer_view_list \<Rightarrow> exn + buffer_view_list" where
  "bvl_remove_prefix n [] =
     (if n > 0 then Inl (Out_of_range ''BufferListView::remove_prefix'') else Inr [])"
| "bvl_remove_prefix n (v # vs) =
     (if n > 0 then
        if n < length v then Inr (drop n v # vs)
        else bvl_remove_prefix (sub64 n (length v)) vs
      else Inr (v # vs))"

definition bvl_size :: "buffer_view_list \<Rightarrow> nat" where
  "bvl_size vs = foldl (\<lambda>ret buf. add64 ret (length buf)) 0 vs"

text \<open>An \<^verbatim>\<open>iovec\<close> is a pointer to bytes with their number; the pointer is modelled by the bytes.\<close>

definition as_iovecs :: "buffer_view_list \<Rightarrow> (bytes \<times> nat) list" where
  "as_iovecs vs = foldl (\<lambda>ret x. ret @ [(x, length x)]) [] vs"

subsection \<open>The interface: a source of bytes\<close>

locale byte_source =
  fixes inv :: "'s \<Rightarrow> bool"
    and string_of :: "'s \<Rightarrow> bytes"
    and discard :: "nat \<Rightarrow> 's \<Rightarrow> exn + 's"
  assumes discard_ok: "inv s \<Longrightarrow> n \<le> length (string_of s) \<Longrightarrow> n < U64 \<Longrightarrow>
      \<exists>s'. discard n s = Inr s' \<and> inv s' \<and> string_of s' = drop n (string_of s)"
    and discard_error: "inv s \<Longrightarrow> length (string_of s) < n \<Longrightarrow> n < U64 \<Longrightarrow> \<exists>e. discard n s = Inl e"
begin

lemma discard_iff:
  assumes "inv s" "n < U64"
  shows "(\<exists>s'. discard n s = Inr s') \<longleftrightarrow> n \<le> length (string_of s)"
  using discard_ok [of s n] discard_error [of s n] assms by (metis Inl_Inr_False not_le)

lemma discard_twice:
  assumes "inv s" "m + n \<le> length (string_of s)" "m + n < U64" "discard m s = Inr s1"
  shows "\<exists>s2. discard n s1 = Inr s2 \<and> string_of s2 = drop (m + n) (string_of s)"
proof -
  have "inv s1" "string_of s1 = drop m (string_of s)" using discard_ok [of s m] assms by auto
  moreover have "n \<le> length (string_of s1)" "n < U64" using assms calculation by simp_all
  ultimately show ?thesis using discard_ok [of s1 n] by (auto simp: add.commute)
qed

end

subsection \<open>Lemmas\<close>

lemma foldl_snoc_map: "foldl (\<lambda>acc x. acc @ [f x]) acc xs = acc @ map f xs"
  by (induction xs arbitrary: acc) simp_all

lemma foldl_append_concat: "foldl (\<lambda>acc x. acc @ f x) acc xs = acc @ concat (map f xs)"
  by (induction xs arbitrary: acc) simp_all

lemma foldl_add64_sum:
  "acc < U64 \<Longrightarrow> foldl (\<lambda>r x. add64 r (f x)) acc xs = (acc + sum_list (map f xs)) mod U64"
proof (induction xs arbitrary: acc)
  case Nil
  then show ?case by simp
next
  case (Cons x xs)
  then show ?case by (simp add: add64_def u64_def mod_simps add.assoc)
qed

lemma bl_append_eq: "bl_append a b = a @ b"
  using foldl_snoc_map [of id a b] by (simp add: bl_append_def)

lemma bl_concatenate_eq: "bl_concatenate bl = concat (map buffer_str bl)"
  by (simp add: bl_concatenate_def foldl_append_concat)

lemma bl_concatenate_Cons [simp]:
  "bl_concatenate [] = []" "bl_concatenate (b # bl) = buffer_str b @ bl_concatenate bl"
  by (simp_all add: bl_concatenate_eq)

lemma bl_size_eq: "bl_size bl = length (bl_concatenate bl) mod U64"
proof -
  have "map buffer_size bl = map (\<lambda>x. length (buffer_str x)) bl" by (simp add: buffer_size_def)
  then show ?thesis
    using foldl_add64_sum [of 0 buffer_size bl]
    by (simp add: bl_size_def bl_concatenate_eq length_concat comp_def del: map_eq_conv)
qed

lemma bvl_of_buffer_list_eq: "bvl_of_buffer_list bl = map buffer_str bl"
  by (simp add: bvl_of_buffer_list_def foldl_snoc_map)

lemma bvl_size_eq: "bvl_size vs = length (concat vs) mod U64"
  using foldl_add64_sum [of 0 length vs] by (simp add: bvl_size_def length_concat)

lemma as_iovecs_eq: "as_iovecs vs = map (\<lambda>x. (x, length x)) vs"
  by (simp add: as_iovecs_def foldl_snoc_map)

lemma buffer_remove_prefix_ok:
  assumes "buffer_inv b" "n \<le> length (buffer_str b)" "n < U64"
  shows "\<exists>b'. buffer_remove_prefix n b = Inr b' \<and> buffer_inv b' \<and> buffer_str b' = drop n (buffer_str b)"
proof (cases "storage b")
  case None
  with assms show ?thesis
    by (simp add: buffer_remove_prefix_def buffer_inv_def buffer_str_def Let_def)
next
  case (Some s)
  with assms have "starting_offset b + n \<le> length s" "length s < U64"
    by (auto simp: buffer_inv_def buffer_str_def)
  with Some show ?thesis
    by (auto simp: buffer_remove_prefix_def buffer_inv_def buffer_str_def Let_def no_wrap add.commute)
qed

lemma bl_remove_prefix_ok:
  "bl_inv bl \<Longrightarrow> n \<le> length (bl_concatenate bl) \<Longrightarrow> n < U64 \<Longrightarrow>
   \<exists>bl'. bl_remove_prefix n bl = Inr bl' \<and> bl_inv bl' \<and> bl_concatenate bl' = drop n (bl_concatenate bl)"
proof (induction n bl rule: bl_remove_prefix.induct)
  case (1 n)
  then show ?case by (simp add: bl_inv_def)
next
  case (2 n b bs)
  consider "n = 0" | "0 < n" "n < length (buffer_str b)" | "0 < n" "length (buffer_str b) \<le> n" by linarith
  then show ?case
  proof cases
    case 2
    with "2.prems" buffer_remove_prefix_ok [of b n] show ?thesis by (auto simp: bl_inv_def)
  next
    case 3
    then have "bl_remove_prefix n (b # bs) = bl_remove_prefix (n - length (buffer_str b)) bs"
      "sub64 n (length (buffer_str b)) = n - length (buffer_str b)"
      using "2.prems" by (simp_all add: no_wrap)
    with 3 "2.IH" "2.prems" show ?thesis by (auto simp: bl_inv_def)
  qed (use "2.prems" in simp)
qed

lemma bl_remove_prefix_error:
  "length (bl_concatenate bl) < n \<Longrightarrow> n < U64 \<Longrightarrow> \<exists>e. bl_remove_prefix n bl = Inl e"
  by (induction n bl rule: bl_remove_prefix.induct) (auto simp: no_wrap)

lemma bvl_remove_prefix_ok:
  "n \<le> length (concat vs) \<Longrightarrow> n < U64 \<Longrightarrow>
   \<exists>vs'. bvl_remove_prefix n vs = Inr vs' \<and> concat vs' = drop n (concat vs)"
  by (induction n vs rule: bvl_remove_prefix.induct) (auto simp: no_wrap)

lemma bvl_remove_prefix_error:
  "length (concat vs) < n \<Longrightarrow> n < U64 \<Longrightarrow> \<exists>e. bvl_remove_prefix n vs = Inl e"
  by (induction n vs rule: bvl_remove_prefix.induct) (auto simp: no_wrap)

interpretation buf: byte_source buffer_inv buffer_str buffer_remove_prefix
  by unfold_locales (rule buffer_remove_prefix_ok, auto simp: buffer_remove_prefix_def)

interpretation bl: byte_source bl_inv bl_concatenate bl_remove_prefix
  by unfold_locales (rule bl_remove_prefix_ok, auto intro: bl_remove_prefix_error)

interpretation bvl: byte_source "\<lambda>_. True" concat bvl_remove_prefix
  by unfold_locales (auto intro: bvl_remove_prefix_ok bvl_remove_prefix_error)

subsection \<open>Properties\<close>

text \<open>Discarding a prefix of a list of buffers succeeds exactly when the list holds that many bytes,
  and then leaves the buffers well formed and standing for the remaining bytes.\<close>

theorem buffer_list_remove_prefix:
  assumes "bl_inv bl" "n < U64"
  shows "((\<exists>bl'. bl_remove_prefix n bl = Inr bl') \<longleftrightarrow> n \<le> length (bl_concatenate bl)) \<and>
    (\<forall>bl'. bl_remove_prefix n bl = Inr bl' \<longrightarrow>
       bl_inv bl' \<and> bl_concatenate bl' = drop n (bl_concatenate bl))"
  using bl.discard_iff [OF assms] bl.discard_ok [OF assms(1) _ assms(2)] by auto

theorem buffer_list_remove_prefix_witness:
  "\<exists>bl'. bl_remove_prefix 3 [buffer_of [1, 2], buffer_of [3, 4]] = Inr bl' \<and> bl_concatenate bl' = [4]"
proof -
  have inv: "bl_inv [buffer_of [1, 2], buffer_of [3, 4]]"
    by (simp add: bl_inv_def buffer_inv_def buffer_of_def)
  have c: "bl_concatenate [buffer_of [1, 2], buffer_of [3, 4]] = [1, 2, 3, 4]"
    by (simp add: buffer_str_def buffer_of_def)
  have "(3 :: nat) < U64" by simp
  from buffer_list_remove_prefix [OF inv this]
  show ?thesis unfolding c by (auto simp del: bl_remove_prefix.simps)
qed

end
