(* ===== verification/File_Descriptor.thy ===== *)
theory File_Descriptor
  imports Buffers Number_Text
begin

text \<open>
  \<^verbatim>\<open>libsponge/util/file_descriptor.{hh,cc}\<close> and \<^verbatim>\<open>SystemCall\<close> of \<^verbatim>\<open>util.cc\<close>.  A \<^verbatim>\<open>FileDescriptor\<close> is a handle
  on a shared \<^verbatim>\<open>FDWrapper\<close>; the operations are on the wrapper.  The operating system is a parameter: the record \<open>kernel\<close> has one
  function for each system call, which takes the state \<open>'k\<close> of the system and returns the new state and the answer, a
  return value with \<^verbatim>\<open>errno\<close>.  What the manual pages say of the calls is stated as \<open>read_spec\<close> and \<open>writev_spec\<close>.
  The lemmas show that \<^verbatim>\<open>write\<close> ends and passes on a prefix of its input in order, and how \<^verbatim>\<open>read\<close> detects the end of the file.
\<close>

unbundle bit_operations_syntax

type_synonym sys_result = "int \<times> int"

record 'k kernel =
  k_close :: "int \<Rightarrow> 'k \<Rightarrow> 'k \<times> sys_result"
  k_read :: "int \<Rightarrow> nat \<Rightarrow> 'k \<Rightarrow> 'k \<times> sys_result \<times> bytes"
  k_writev :: "int \<Rightarrow> (bytes \<times> nat) list \<Rightarrow> 'k \<Rightarrow> 'k \<times> sys_result"
  k_getfl :: "int \<Rightarrow> 'k \<Rightarrow> 'k \<times> sys_result"
  k_setfl :: "int \<Rightarrow> int \<Rightarrow> 'k \<Rightarrow> 'k \<times> sys_result"

text \<open>The return value is converted to a 32-bit \<^verbatim>\<open>int\<close> when it is passed to \<^verbatim>\<open>SystemCall\<close>.\<close>

definition SystemCall :: "string \<Rightarrow> sys_result \<Rightarrow> int \<Rightarrow> exn + int" where
  "SystemCall attempt res errno_mask =
     (let (v, errno) = res; return_value = signed_take_bit 31 v
      in if return_value \<ge> 0 \<or> errno = errno_mask then Inr return_value else Inl (Unix_error attempt errno))"

text \<open>A signed number of bytes as \<^verbatim>\<open>size_t\<close>.\<close>

definition to_size :: "int \<Rightarrow> nat" where
  "to_size n = nat (n mod 18446744073709551616)"

subsection \<open>The wrapper\<close>

record fd_wrapper =
  fw_fd :: int
  fw_eof :: bool
  fw_closed :: bool
  fw_read_count :: u32
  fw_write_count :: u32

definition fd_new :: "int \<Rightarrow> exn + fd_wrapper" where
  "fd_new fd =
     (if fd < 0 then Inl (Runtime_error (''invalid fd number:'' @ int_to_string fd))
      else Inr \<lparr>fw_fd = fd, fw_eof = False, fw_closed = False, fw_read_count = 0, fw_write_count = 0\<rparr>)"

definition register_read :: "fd_wrapper \<Rightarrow> fd_wrapper" where
  "register_read f = f\<lparr>fw_read_count := fw_read_count f + 1\<rparr>"

definition register_write :: "fd_wrapper \<Rightarrow> fd_wrapper" where
  "register_write f = f\<lparr>fw_write_count := fw_write_count f + 1\<rparr>"

definition fd_close :: "('k, 'z) kernel_scheme \<Rightarrow> fd_wrapper \<times> 'k \<Rightarrow> (fd_wrapper \<times> 'k) \<times> (exn + unit)" where
  "fd_close K s =
     (let (f, k) = s; (k, r) = k_close K (fw_fd f) k
      in call (f, k) (SystemCall ''close'' r 0) (\<lambda>_. ((f\<lparr>fw_closed := True, fw_eof := True\<rparr>, k), Inr ())))"

text \<open>The destructor prints an exception and goes on.\<close>

definition fd_destroy :: "('k, 'z) kernel_scheme \<Rightarrow> fd_wrapper \<times> 'k \<Rightarrow> fd_wrapper \<times> 'k" where
  "fd_destroy K s = (if fw_closed (fst s) then s else fst (fd_close K s))"

subsection \<open>Reading\<close>

definition BUFFER_SIZE :: nat where
  "BUFFER_SIZE = 1024 * 1024"

text \<open>
  The buffer has \<open>size_to_read\<close> bytes; the kernel fills a prefix.  A negative value that \<^verbatim>\<open>SystemCall\<close> lets pass would be
  a length beyond what a string can have.
\<close>

definition fd_read :: "('k, 'z) kernel_scheme \<Rightarrow> nat \<Rightarrow> fd_wrapper \<times> 'k \<Rightarrow> (fd_wrapper \<times> 'k) \<times> (exn + bytes)" where
  "fd_read K limit s =
     (let (f, k) = s; size_to_read = min BUFFER_SIZE limit; (k, r, data) = k_read K (fw_fd f) size_to_read k;
          str = take size_to_read (data @ replicate (size_to_read - length data) 0)
      in call (f, k) (SystemCall ''read'' r 0) (\<lambda>bytes_read.
         let f = (if limit > 0 \<and> bytes_read = 0 then f\<lparr>fw_eof := True\<rparr> else f)
         in if bytes_read > int size_to_read then ((f, k), Inl (Runtime_error ''read() read more than requested''))
            else if bytes_read < 0 then ((f, k), Inl (Length_error ''basic_string::resize''))
            else ((register_read f, k), Inr (take (nat bytes_read) str))))"

subsection \<open>Writing\<close>

function fd_write_loop ::
    "('k, 'z) kernel_scheme \<Rightarrow> bool \<Rightarrow> nat \<Rightarrow> buffer_view_list \<Rightarrow> fd_wrapper \<Rightarrow> 'k \<Rightarrow> (fd_wrapper \<times> 'k) \<times> (exn + nat)" where
  "fd_write_loop K write_all total_bytes buffer f k =
     (let (k, r) = k_writev K (fw_fd f) (as_iovecs buffer) k
      in case SystemCall ''writev'' r 0 of
           Inl e \<Rightarrow> ((f, k), Inl e)
         | Inr bytes_written \<Rightarrow>
             if bytes_written = 0 \<and> bvl_size buffer \<noteq> 0
             then ((f, k), Inl (Runtime_error ''write returned 0 given non-empty input buffer''))
             else if bytes_written > signed_take_bit 63 (int (bvl_size buffer))
             then ((f, k), Inl (Runtime_error ''write wrote more than length of input buffer''))
             else
               (let f = register_write f
                in case bvl_remove_prefix (to_size bytes_written) buffer of
                     Inl e \<Rightarrow> ((f, k), Inl e)
                   | Inr buffer' \<Rightarrow>
                       (let total_bytes = add64 total_bytes (to_size bytes_written)
                        in if write_all \<and> bvl_size buffer' \<noteq> 0 then fd_write_loop K write_all total_bytes buffer' f k
                           else ((f, k), Inr total_bytes))))"
  by pat_completeness auto

definition fd_write :: "('k, 'z) kernel_scheme \<Rightarrow> buffer_view_list \<Rightarrow> bool \<Rightarrow> fd_wrapper \<times> 'k \<Rightarrow> (fd_wrapper \<times> 'k) \<times> (exn + nat)" where
  "fd_write K buffer write_all s = fd_write_loop K write_all 0 buffer (fst s) (snd s)"

text \<open>The overload for a string makes a list of one view.\<close>

definition fd_write_string :: "('k, 'z) kernel_scheme \<Rightarrow> bytes \<Rightarrow> bool \<Rightarrow> fd_wrapper \<times> 'k \<Rightarrow> (fd_wrapper \<times> 'k) \<times> (exn + nat)" where
  "fd_write_string K str write_all = fd_write K [str] write_all"

subsection \<open>Blocking mode\<close>

definition O_NONBLOCK :: int where
  "O_NONBLOCK = 2048"

definition set_blocking :: "('k, 'z) kernel_scheme \<Rightarrow> bool \<Rightarrow> fd_wrapper \<times> 'k \<Rightarrow> (fd_wrapper \<times> 'k) \<times> (exn + unit)" where
  "set_blocking K blocking_state s =
     (let (f, k) = s; (k, r) = k_getfl K (fw_fd f) k
      in call (f, k) (SystemCall ''fcntl'' r 0) (\<lambda>flags.
         let flags = (if blocking_state then flags XOR (flags AND O_NONBLOCK) else flags OR O_NONBLOCK);
             (k, r) = k_setfl K (fw_fd f) flags k
         in call (f, k) (SystemCall ''fcntl'' r 0) (\<lambda>_. ((f, k), Inr ()))))"

subsection \<open>Lemmas\<close>

lemma system_call_range: "SystemCall a r m = Inr v \<Longrightarrow> - 2147483648 \<le> v \<and> v < 2147483648"
  using signed_take_bit_int_greater_eq_minus_exp [of 31] signed_take_bit_int_less_exp [of 31]
  by (auto simp: SystemCall_def Let_def split: prod.splits if_splits)

lemma to_size_less: "to_size n < U64"
  by (simp add: to_size_def nat_less_iff)

lemma to_size_nonneg: "0 \<le> n \<Longrightarrow> n < 18446744073709551616 \<Longrightarrow> to_size n = nat n"
  by (simp add: to_size_def)

lemma to_size_negative: "- 2147483648 \<le> n \<Longrightarrow> n < 0 \<Longrightarrow> to_size n = nat (n + 18446744073709551616)"
proof -
  assume "- 2147483648 \<le> n" "n < 0"
  then have "(n + 18446744073709551616) mod 18446744073709551616 = n + 18446744073709551616" by (intro mod_pos_pos_trivial) simp_all
  then show ?thesis by (simp add: to_size_def)
qed

lemma to_size_zero: "- 2147483648 \<le> n \<Longrightarrow> n < 2147483648 \<Longrightarrow> to_size n = 0 \<longleftrightarrow> n = 0"
  by (cases "0 \<le> n") (simp_all add: to_size_nonneg to_size_negative)

lemma bvl_remove_prefix_concat:
  assumes "bvl_remove_prefix n vs = Inr vs'" "n < U64"
  shows "n \<le> length (concat vs)" "concat vs' = drop n (concat vs)"
proof -
  show n: "n \<le> length (concat vs)" using bvl_remove_prefix_error [of vs n] assms by force
  show "concat vs' = drop n (concat vs)" using bvl_remove_prefix_ok [OF n assms(2)] assms(1) by auto
qed

text \<open>Each round of the loop that is followed by another one has written something.\<close>

lemma write_round_shrinks:
  assumes "SystemCall a r 0 = Inr n" "\<not> (n = 0 \<and> bvl_size buffer \<noteq> 0)" "bvl_remove_prefix (to_size n) buffer = Inr buffer'"
    and "bvl_size buffer' \<noteq> 0"
  shows "length (concat buffer') < length (concat buffer)"
proof -
  note c = bvl_remove_prefix_concat [OF assms(3) to_size_less]
  have "to_size n \<noteq> 0"
  proof
    assume "to_size n = 0"
    then have "n = 0" "concat buffer' = concat buffer" using to_size_zero [of n] system_call_range [OF assms(1)] c(2) by simp_all
    then show False using assms(2,4) by (simp add: bvl_size_eq)
  qed
  then show ?thesis using c by simp
qed

termination fd_write_loop
  by (relation "measure (\<lambda>(K, write_all, total_bytes, buffer, f, k). length (concat buffer))")
    (auto dest: write_round_shrinks)

declare fd_write_loop.simps [simp del]

subsection \<open>What the system calls promise\<close>

text \<open>
  \<open>sent fd k\<close> is what the system has accepted for the descriptor \<open>fd\<close>.  \<^verbatim>\<open>writev(2)\<close> returns the number of bytes
  it has taken from the front of the data, or -1 with \<^verbatim>\<open>errno\<close> set and takes nothing.  One call transfers less than two to the
  31 bytes.
\<close>

definition writev_spec :: "('k, 'z) kernel_scheme \<Rightarrow> (int \<Rightarrow> 'k \<Rightarrow> bytes) \<Rightarrow> bool" where
  "writev_spec K sent \<longleftrightarrow>
     (\<forall>fd iov k k' v e. k_writev K fd iov k = (k', v, e) \<longrightarrow>
        - 1 \<le> v \<and> v < 2147483648 \<and> v \<le> int (length (concat (map fst iov))) \<and> (v = - 1 \<longrightarrow> e > 0) \<and>
        (\<forall>fd'. sent fd' k' = sent fd' k @ (if fd' = fd then take (nat v) (concat (map fst iov)) else [])))"

text \<open>A descriptor in blocking mode, on which a write takes at least one byte.\<close>

definition writev_takes :: "('k, 'z) kernel_scheme \<Rightarrow> bool" where
  "writev_takes K \<longleftrightarrow> (\<forall>fd iov k. 0 \<le> fst (snd (k_writev K fd iov k)) \<and> (concat (map fst iov) \<noteq> [] \<longrightarrow> fst (snd (k_writev K fd iov k)) > 0))"

text \<open>\<^verbatim>\<open>read(2)\<close> returns the number of bytes it has put into the buffer, at most as many as it was asked for.\<close>

definition read_spec :: "('k, 'z) kernel_scheme \<Rightarrow> bool" where
  "read_spec K \<longleftrightarrow>
     (\<forall>fd n k k' v e data. k_read K fd n k = (k', (v, e), data) \<longrightarrow>
        - 1 \<le> v \<and> v \<le> int n \<and> length data = nat v \<and> (v = - 1 \<longrightarrow> e > 0))"

lemma system_call_small:
  "- 1 \<le> v \<Longrightarrow> v < 2147483648 \<Longrightarrow> (v = - 1 \<longrightarrow> e > 0) \<Longrightarrow>
   SystemCall a (v, e) 0 = (if v = - 1 then Inl (Unix_error a e) else Inr v)"
proof -
  assume v: "- 1 \<le> v" "v < 2147483648" "v = - 1 \<longrightarrow> e > 0"
  then have eq: "signed_take_bit 31 v = v" by (intro signed_take_bit_int_eq_self) simp_all
  show ?thesis unfolding SystemCall_def Let_def prod.case eq using v by auto
qed

lemma concat_iovecs [simp]: "concat (map fst (as_iovecs vs)) = concat vs"
  by (simp add: as_iovecs_eq comp_def)

lemma bvl_size_small: "length (concat vs) < 2 ^ 62 \<Longrightarrow> bvl_size vs = length (concat vs)"
  by (simp add: bvl_size_eq)

text \<open>A round of the loop on such a kernel.\<close>

lemma fd_write_round:
  assumes spec: "writev_spec K sent" and len: "length (concat buffer) < 2 ^ 62"
  obtains (fail) k' e where "fd_write_loop K write_all total_bytes buffer f k = ((f, k'), Inl e)" "sent (fw_fd f) k' = sent (fw_fd f) k"
    "\<And>fd. fd \<noteq> fw_fd f \<Longrightarrow> sent fd k' = sent fd k" "\<not> writev_takes K"
  | (round) n k' buffer' where "n \<le> length (concat buffer)" "concat buffer' = drop n (concat buffer)"
    "sent (fw_fd f) k' = sent (fw_fd f) k @ take n (concat buffer)" "\<And>fd. fd \<noteq> fw_fd f \<Longrightarrow> sent fd k' = sent fd k"
    "n = 0 \<Longrightarrow> concat buffer = []"
    "fd_write_loop K write_all total_bytes buffer f k =
       (if write_all \<and> n < length (concat buffer)
        then fd_write_loop K write_all (add64 total_bytes n) buffer' (register_write f) k'
        else ((register_write f, k'), Inr (add64 total_bytes n)))"
proof -
  obtain k' v e where w: "k_writev K (fw_fd f) (as_iovecs buffer) k = (k', v, e)" by (metis prod.exhaust)
  from spec w have v: "- 1 \<le> v" "v < 2147483648" "v \<le> int (length (concat buffer))" "v = - 1 \<longrightarrow> e > 0"
    and sent: "\<And>fd. sent fd k' = sent fd k @ (if fd = fw_fd f then take (nat v) (concat buffer) else [])"
    unfolding writev_spec_def by (metis concat_iovecs)+
  note sc = system_call_small [OF v(1,2,4)]
  have takes: "0 \<le> v" "concat buffer \<noteq> [] \<Longrightarrow> 0 < v" if "writev_takes K"
    using that w unfolding writev_takes_def by (metis concat_iovecs fst_conv snd_conv)+
  show ?thesis
  proof (cases "v = - 1 \<or> v = 0 \<and> concat buffer \<noteq> []")
    case True
    then have "\<exists>e'. fd_write_loop K write_all total_bytes buffer f k = ((f, k'), Inl e')"
      using w sc len by (auto simp: fd_write_loop.simps [of K write_all total_bytes buffer] bvl_size_small)
    moreover have "sent fd k' = sent fd k" for fd using True sent by auto
    moreover have "\<not> writev_takes K" using takes True by auto
    ultimately show ?thesis using fail by blast
  next
    case False
    then have v0: "0 \<le> v" "v = 0 \<Longrightarrow> concat buffer = []" using v(1) by auto
    have n: "nat v \<le> length (concat buffer)" "nat v < U64" "to_size v = nat v" using v(2,3) v0 by (auto simp: to_size_nonneg)
    obtain buffer' where b: "bvl_remove_prefix (nat v) buffer = Inr buffer'" "concat buffer' = drop (nat v) (concat buffer)"
      using bvl_remove_prefix_ok [OF n(1,2)] by blast
    have size: "bvl_size buffer = length (concat buffer)" "bvl_size buffer' = length (concat buffer) - nat v"
      using bvl_size_small [of buffer'] len b(2) by (simp_all add: bvl_size_small)
    have "signed_take_bit 63 (int (length (concat buffer))) = int (length (concat buffer))"
      using len by (simp add: signed_take_bit_int_eq_self)
    then have "fd_write_loop K write_all total_bytes buffer f k =
       (if write_all \<and> nat v < length (concat buffer)
        then fd_write_loop K write_all (add64 total_bytes (nat v)) buffer' (register_write f) k'
        else ((register_write f, k'), Inr (add64 total_bytes (nat v))))"
      using w sc False v(3) n b(1) size v0 by (auto simp: fd_write_loop.simps [of K write_all total_bytes buffer] Let_def)
    then show ?thesis using round [OF n(1) b(2), of k'] sent v0 by simp
  qed
qed

lemma register_write_fd [simp]: "fw_fd (register_write f) = fw_fd f" "fw_eof (register_write f) = fw_eof f"
  "fw_closed (register_write f) = fw_closed f" "fw_read_count (register_write f) = fw_read_count f"
  by (simp_all add: register_write_def)

lemma fd_write_loop_spec:
  assumes spec: "writev_spec K sent" and len: "length (concat buffer) < 2 ^ 62" and t: "total_bytes < U64"
    and run: "fd_write_loop K write_all total_bytes buffer f k = ((f', k'), res)"
  shows "\<exists>n \<le> length (concat buffer). sent (fw_fd f) k' = sent (fw_fd f) k @ take n (concat buffer) \<and>
    (\<forall>fd. fd \<noteq> fw_fd f \<longrightarrow> sent fd k' = sent fd k) \<and> fw_fd f' = fw_fd f \<and>
    (\<forall>m. res = Inr m \<longrightarrow> m = add64 total_bytes n \<and> (write_all \<longrightarrow> n = length (concat buffer))) \<and>
    (writev_takes K \<longrightarrow> (\<exists>m. res = Inr m))"
  using len t run
proof (induction "length (concat buffer)" arbitrary: total_bytes buffer f k rule: less_induct)
  case less
  show ?case
  proof (rule fd_write_round [OF spec less.prems(1), where write_all = write_all and total_bytes = total_bytes and f = f and k = k], goal_cases)
    case (1 k1 e)
    then show ?case using less.prems(3) by (intro exI [of _ 0]) auto
  next
    case (2 n k1 buffer1)
    show ?case
    proof (cases "write_all \<and> n < length (concat buffer)")
      case False
      then show ?thesis using 2 less.prems(3) by (intro exI [of _ n]) (auto split: if_splits)
    next
      case True
      then have "0 < n" using 2(5) by (cases n) auto
      then have sh: "length (concat buffer1) < length (concat buffer)" using 2(2) True by auto
      from less.hyps [OF sh, of "add64 total_bytes n" "register_write f" k1] sh less.prems 2(6) True
      obtain m where m: "m \<le> length (concat buffer1)" "sent (fw_fd f) k' = sent (fw_fd f) k1 @ take m (concat buffer1)"
        "\<forall>fd. fd \<noteq> fw_fd f \<longrightarrow> sent fd k' = sent fd k1" "fw_fd f' = fw_fd f"
        "\<forall>j. res = Inr j \<longrightarrow> j = add64 (add64 total_bytes n) m \<and> (write_all \<longrightarrow> m = length (concat buffer1))"
        "writev_takes K \<longrightarrow> (\<exists>j. res = Inr j)"
        by auto
      have le: "n + m \<le> length (concat buffer)" using m(1) 2(2) True by auto
      have "add64 (add64 total_bytes n) m = add64 total_bytes (n + m)"
        unfolding add64_assoc using le less.prems(1) by (simp add: add64_id)
      moreover have "sent (fw_fd f) k' = sent (fw_fd f) k @ take (n + m) (concat buffer)"
        using m(2) 2(2,3) by (simp add: take_add)
      ultimately show ?thesis
        using le m(3-6) 2(2,4) True by (intro exI [of _ "n + m"]) auto
    qed
  qed
qed

text \<open>What one round does not touch, the loop does not touch.\<close>

lemma fd_write_loop_frame:
  assumes "\<And>iov k k' r. k_writev K (fw_fd f) iov k = (k', r) \<Longrightarrow> P k' = P k"
  shows "fd_write_loop K write_all total_bytes buffer f k = ((f', k'), res) \<Longrightarrow> P k' = P k \<and> fw_fd f' = fw_fd f"
  using assms
proof (induction K write_all total_bytes buffer f k arbitrary: f' k' res rule: fd_write_loop.induct)
  case (1 K write_all total_bytes buffer f k)
  obtain k1 r where w: "k_writev K (fw_fd f) (as_iovecs buffer) k = (k1, r)" by (metis prod.exhaust)
  have P: "P k1 = P k" by (rule 1(3) [OF w])
  show ?case
  proof (cases "\<exists>f1 res1. fd_write_loop K write_all total_bytes buffer f k = ((f1, k1), res1) \<and> fw_fd f1 = fw_fd f")
    case True
    then show ?thesis using 1(2) P by auto
  next
    case False
    then obtain n b t where n: "SystemCall ''writev'' r 0 = Inr n" "\<not> (n = 0 \<and> bvl_size buffer \<noteq> 0)"
        "\<not> n > signed_take_bit 63 (int (bvl_size buffer))" "bvl_remove_prefix (to_size n) buffer = Inr b"
        "write_all \<and> bvl_size b \<noteq> 0" "t = add64 total_bytes (to_size n)"
      using w unfolding fd_write_loop.simps [of K write_all total_bytes buffer f k]
      by (auto simp: Let_def split: sum.splits if_splits)
    have "fd_write_loop K write_all total_bytes buffer f k = fd_write_loop K write_all t b (register_write f) k1"
      unfolding fd_write_loop.simps [of K write_all total_bytes buffer f k] using w n by (auto simp: Let_def)
    with 1(2) have run: "fd_write_loop K write_all t b (register_write f) k1 = ((f', k'), res)" by simp
    have "P k' = P k1 \<and> fw_fd f' = fw_fd (register_write f)"
    proof (rule "1.IH" [OF w [symmetric] refl n(1,2,3) refl n(4) n(6) n(5) run])
      show "P k2 = P k3" if "k_writev K (fw_fd (register_write f)) iov k3 = (k2, v)" for iov k2 k3 v
        using that unfolding register_write_fd by (rule 1(3))
    qed
    then show ?thesis using P by simp
  qed
qed

lemma fd_write_once:
  assumes spec: "writev_spec K sent" and len: "length str < 2 ^ 62"
  obtains (fail) k' e where "fd_write_string K str False (f, k) = ((f, k'), Inl e)" "\<And>fd. sent fd k' = sent fd k"
  | (wrote) n k' where "n \<le> length str" "n = 0 \<Longrightarrow> str = []" "fd_write_string K str False (f, k) = ((register_write f, k'), Inr n)"
    "sent (fw_fd f) k' = sent (fw_fd f) k @ take n str" "\<And>fd. fd \<noteq> fw_fd f \<Longrightarrow> sent fd k' = sent fd k"
proof -
  have len': "length (concat [str]) < 2 ^ 62" using len by simp
  show ?thesis
  proof (rule fd_write_round [OF spec len', where write_all = False and total_bytes = 0 and f = f and k = k], goal_cases)
    case (1 k1 e)
    show ?case
    proof (rule fail)
      show "fd_write_string K str False (f, k) = ((f, k1), Inl e)" using 1(1) by (simp add: fd_write_string_def fd_write_def)
      show "sent fd k1 = sent fd k" for fd using 1(2,3) by (cases "fd = fw_fd f") auto
    qed
  next
    case (2 n k1 b1)
    then show ?case using len by (intro wrote [of n k1]) (simp_all add: fd_write_string_def fd_write_def no_wrap)
  qed
qed

lemma fd_read_spec:
  assumes spec: "read_spec K" and run: "fd_read K limit (f, k) = ((f', k'), res)"
  shows "(\<exists>e. res = Inl (Unix_error ''read'' e) \<and> f' = f \<and> k_read K (fw_fd f) (min BUFFER_SIZE limit) k = (k', (- 1, e), [])) \<or>
    (\<exists>str. res = Inr str \<and> length str \<le> min BUFFER_SIZE limit \<and>
       f' = register_read (f\<lparr>fw_eof := fw_eof f \<or> 0 < limit \<and> str = []\<rparr>) \<and>
       (\<exists>v e. k_read K (fw_fd f) (min BUFFER_SIZE limit) k = (k', (v, e), str)))"
proof -
  let ?n = "min BUFFER_SIZE limit"
  obtain k1 v e data where r: "k_read K (fw_fd f) ?n k = (k1, (v, e), data)" by (metis prod.exhaust)
  from spec r have v: "- 1 \<le> v" "v \<le> int ?n" "length data = nat v" "v = - 1 \<longrightarrow> e > 0"
    unfolding read_spec_def by blast+
  have "v < 2147483648" using v(2) by (simp add: BUFFER_SIZE_def)
  note sc = system_call_small [OF v(1) this v(4)]
  show ?thesis
  proof (cases "v = - 1")
    case True
    then show ?thesis using run r sc v(3) by (auto simp: fd_read_def)
  next
    case False
    then have "0 \<le> v" using v(1) by simp
    then have "take ?n data = data" "v = 0 \<longleftrightarrow> data = []" using v(2,3) by (auto simp: min_def)
    then show ?thesis using run r sc False \<open>0 \<le> v\<close> v(2,3)
      by (cases f) (auto simp: fd_read_def Let_def register_read_def split: if_splits)
  qed
qed

subsection \<open>Properties\<close>

text \<open>A kernel for examples: a list of bytes to be read by anyone, and a log of what was written; it takes \<open>c\<close> bytes at a time.\<close>

definition pipe_kernel :: "nat \<Rightarrow> (bytes \<times> (int \<times> bytes) list) kernel" where
  "pipe_kernel c =
     \<lparr>k_close = (\<lambda>fd k. (k, 0, 0)),
      k_read = (\<lambda>fd n k. ((drop (min 1000 n) (fst k), snd k), (int (length (take (min 1000 n) (fst k))), 0), take (min 1000 n) (fst k))),
      k_writev = (\<lambda>fd iov k. let d = take (min 1000 c) (concat (map fst iov)) in ((fst k, snd k @ [(fd, d)]), int (length d), 0)),
      k_getfl = (\<lambda>fd k. (k, 2050, 0)),
      k_setfl = (\<lambda>fd fl k. ((fst k, snd k @ [(fl, [])]), 0, 0))\<rparr>"

definition log_of :: "int \<Rightarrow> bytes \<times> (int \<times> bytes) list \<Rightarrow> bytes" where
  "log_of fd k = concat (map snd (filter (\<lambda>x. fst x = fd) (snd k)))"

lemma take_min_length: "take (min (length xs) n) xs = take n xs"
  by (simp add: min_def)

lemma pipe_kernel_spec: "writev_spec (pipe_kernel c) log_of" "read_spec (pipe_kernel c)" "0 < c \<Longrightarrow> writev_takes (pipe_kernel c)"
  by (auto simp: writev_spec_def read_spec_def writev_takes_def pipe_kernel_def log_of_def Let_def take_min_length)

text \<open>C24. \<^verbatim>\<open>FileDescriptor::write\<close> always ends.  However the system splits the data, what it has accepted
  afterwards is what it had accepted before followed by a prefix of the data, on this descriptor only; a normal return gives the length of the prefix, which
  is all the data when \<^verbatim>\<open>write_all\<close> is set; and if the system takes some byte at each call the return is normal.\<close>

theorem fd_write_delivers:
  assumes "writev_spec K sent" and "length (concat buffer) < 2 ^ 62"
    and "fd_write K buffer write_all (f, k) = ((f', k'), res)"
  shows "\<exists>n \<le> length (concat buffer). sent (fw_fd f) k' = sent (fw_fd f) k @ take n (concat buffer) \<and>
    (\<forall>fd. fd \<noteq> fw_fd f \<longrightarrow> sent fd k' = sent fd k) \<and>
    (\<forall>m. res = Inr m \<longrightarrow> m = n \<and> (write_all \<longrightarrow> n = length (concat buffer))) \<and>
    (writev_takes K \<longrightarrow> res = Inr n)"
proof -
  have run: "fd_write_loop K write_all 0 buffer f k = ((f', k'), res)" using assms(3) by (simp add: fd_write_def)
  have "add64 0 n = n" if "n \<le> length (concat buffer)" for n using that assms(2) by (simp add: no_wrap)
  then show ?thesis using fd_write_loop_spec [OF assms(1,2) _ run] by fastforce
qed

theorem fd_write_delivers_witness:
  "\<exists>f' k'. fd_write (pipe_kernel 2) [[1, 2, 3], [4, 5]] True
     (\<lparr>fw_fd = 7, fw_eof = False, fw_closed = False, fw_read_count = 0, fw_write_count = 0\<rparr>, ([], [])) = ((f', k'), Inr 5) \<and>
     log_of 7 k' = [1, 2, 3, 4, 5]"
proof -
  let ?f = "\<lparr>fw_fd = 7, fw_eof = False, fw_closed = False, fw_read_count = 0, fw_write_count = 0\<rparr>"
  let ?b = "[[1, 2, 3], [4, 5]] :: bytes list"
  obtain f' k' res where run: "fd_write (pipe_kernel 2) ?b True (?f, ([], [])) = ((f', k'), res)" by (metis prod.exhaust)
  have len: "length (concat ?b) < 2 ^ 62" by simp
  have t: "writev_takes (pipe_kernel 2)" by (simp add: pipe_kernel_spec)
  from fd_write_delivers [OF pipe_kernel_spec(1) len run] t
  obtain n where n: "log_of 7 k' = log_of 7 ([], []) @ take n [1, 2, 3, 4, 5]" "res = Inr n" "n = 5" by fastforce
  from n(1) have "log_of 7 k' = [1, 2, 3, 4, 5]" unfolding n(3) by (simp add: log_of_def)
  with run n(2,3) show ?thesis by auto
qed

text \<open>\<^verbatim>\<open>set_blocking\<close> asks the system for the flags it reported with the bit for non-blocking mode cleared or set as
  asked and every other bit as it was.\<close>

theorem set_blocking_flags:
  assumes "k_getfl K (fw_fd f) k = (k1, v, e)" and "0 \<le> v" "v < 2147483648"
  shows "\<exists>flags. set_blocking K b (f, k) =
      (case k_setfl K (fw_fd f) flags k1 of (k2, r) \<Rightarrow> ((f, k2), map_sum id (\<lambda>_. ()) (SystemCall ''fcntl'' r 0))) \<and>
    (\<forall>i. bit flags i \<longleftrightarrow> (if i = 11 then \<not> b else bit v i))"
proof -
  have sc: "SystemCall ''fcntl'' (v, e) 0 = Inr v" using system_call_small [of v e "''fcntl''"] assms by simp
  define flags where "flags = (if b then v XOR (v AND O_NONBLOCK) else v OR O_NONBLOCK)"
  have o: "O_NONBLOCK = 2 ^ 11" by (simp add: O_NONBLOCK_def)
  have nb: "bit O_NONBLOCK i \<longleftrightarrow> i = 11" for i unfolding o bit_exp_iff by (auto simp: possible_bit_def)
  have "bit flags i \<longleftrightarrow> (if i = 11 then \<not> b else bit v i)" for i
    by (auto simp: flags_def bit_and_iff bit_or_iff bit_xor_iff nb)
  moreover have "set_blocking K b (f, k) =
      (case k_setfl K (fw_fd f) flags k1 of (k2, r) \<Rightarrow> ((f, k2), map_sum id (\<lambda>_. ()) (SystemCall ''fcntl'' r 0)))"
    using assms(1) sc by (auto simp: set_blocking_def flags_def Let_def call_def split: prod.split sum.split)
  ultimately show ?thesis by blast
qed

theorem set_blocking_flags_witness:
  "\<exists>flags. set_blocking (pipe_kernel 2) True
     (\<lparr>fw_fd = 7, fw_eof = False, fw_closed = False, fw_read_count = 0, fw_write_count = 0\<rparr>, ([], [])) =
     ((\<lparr>fw_fd = 7, fw_eof = False, fw_closed = False, fw_read_count = 0, fw_write_count = 0\<rparr>, ([], [(flags, [])])), Inr ()) \<and>
     \<not> bit flags 11 \<and> bit flags 1"
proof -
  let ?f = "\<lparr>fw_fd = 7, fw_eof = False, fw_closed = False, fw_read_count = 0, fw_write_count = 0\<rparr>"
  have k: "k_getfl (pipe_kernel 2) (fw_fd ?f) ([], []) = (([], []), 2050, 0)" by (simp add: pipe_kernel_def)
  have b: "bit (2050 :: int) 1" by simp
  obtain flags where "set_blocking (pipe_kernel 2) True (?f, ([], [])) =
      (case k_setfl (pipe_kernel 2) 7 flags ([], []) of (k2, r) \<Rightarrow> ((?f, k2), map_sum id (\<lambda>_. ()) (SystemCall ''fcntl'' r 0)))"
    "\<forall>i. bit flags i \<longleftrightarrow> (if i = 11 then \<not> True else bit (2050 :: int) i)"
    using set_blocking_flags [OF k, of True] by auto
  with b show ?thesis by (auto simp: pipe_kernel_def SystemCall_def)
qed

end
