(* ===== verification/Sockets.thy ===== *)
theory Sockets
  imports File_Descriptor Address
begin

text \<open>
  \<^verbatim>\<open>libsponge/util/socket.{hh,cc}\<close> and \<^verbatim>\<open>libsponge/util/tun.{hh,cc}\<close>: the classes derived from \<^verbatim>\<open>FileDescriptor\<close> and the
  system calls they use, which extend the record \<open>kernel\<close>.  A socket is its wrapper; an address given to the
  system is its bytes.  The last system call is \<^verbatim>\<open>ioctl\<close> with the flags and the name of a TUN or TAP device.
\<close>

record 'k net_kernel = "'k kernel" +
  k_socket :: "int \<Rightarrow> int \<Rightarrow> 'k \<Rightarrow> 'k \<times> sys_result"
  k_getsockopt :: "int \<Rightarrow> int \<Rightarrow> int \<Rightarrow> 'k \<Rightarrow> 'k \<times> sys_result \<times> int \<times> nat"
  k_setsockopt :: "int \<Rightarrow> int \<Rightarrow> int \<Rightarrow> int \<Rightarrow> 'k \<Rightarrow> 'k \<times> sys_result"
  k_getsockname :: "int \<Rightarrow> 'k \<Rightarrow> 'k \<times> sys_result \<times> bytes"
  k_getpeername :: "int \<Rightarrow> 'k \<Rightarrow> 'k \<times> sys_result \<times> bytes"
  k_bind :: "int \<Rightarrow> bytes \<Rightarrow> 'k \<Rightarrow> 'k \<times> sys_result"
  k_connect :: "int \<Rightarrow> bytes \<Rightarrow> 'k \<Rightarrow> 'k \<times> sys_result"
  k_shutdown :: "int \<Rightarrow> int \<Rightarrow> 'k \<Rightarrow> 'k \<times> sys_result"
  k_recvfrom :: "int \<Rightarrow> nat \<Rightarrow> 'k \<Rightarrow> 'k \<times> sys_result \<times> bytes \<times> bytes"
  k_sendmsg :: "int \<Rightarrow> bytes option \<Rightarrow> (bytes \<times> nat) list \<Rightarrow> 'k \<Rightarrow> 'k \<times> sys_result"
  k_listen :: "int \<Rightarrow> int \<Rightarrow> 'k \<Rightarrow> 'k \<times> sys_result"
  k_accept :: "int \<Rightarrow> 'k \<Rightarrow> 'k \<times> sys_result"
  k_socketpair :: "int \<Rightarrow> int \<Rightarrow> 'k \<Rightarrow> 'k \<times> sys_result \<times> int \<times> int"
  k_open :: "string \<Rightarrow> int \<Rightarrow> 'k \<Rightarrow> 'k \<times> sys_result"
  k_tunsetiff :: "int \<Rightarrow> int \<Rightarrow> bytes \<Rightarrow> 'k \<Rightarrow> 'k \<times> sys_result"

definition SOL_SOCKET :: int where "SOL_SOCKET = 1"
definition SO_REUSEADDR :: int where "SO_REUSEADDR = 2"
definition SO_TYPE :: int where "SO_TYPE = 3"
definition SO_DOMAIN :: int where "SO_DOMAIN = 39"
definition AF_UNIX :: int where "AF_UNIX = 1"
definition SOCK_STREAM :: int where "SOCK_STREAM = 1"
definition SOCK_DGRAM :: int where "SOCK_DGRAM = 2"
definition SHUT_RD :: int where "SHUT_RD = 0"
definition SHUT_WR :: int where "SHUT_WR = 1"
definition SHUT_RDWR :: int where "SHUT_RDWR = 2"

subsection \<open>Socket\<close>

definition socket_new :: "('k, 'z) net_kernel_scheme \<Rightarrow> int \<Rightarrow> int \<Rightarrow> 'k \<Rightarrow> 'k \<times> (exn + fd_wrapper)" where
  "socket_new K domain type k =
     (let (k, r) = k_socket K domain type k in call k (SystemCall ''socket'' r 0) (\<lambda>fd. (k, fd_new fd)))"

text \<open>One of the two checks of the constructor from a descriptor: an option of the socket has the expected value.\<close>

definition check_sockopt :: "('k, 'z) net_kernel_scheme \<Rightarrow> int \<Rightarrow> int \<Rightarrow> string \<Rightarrow> fd_wrapper \<times> 'k \<Rightarrow> (fd_wrapper \<times> 'k) \<times> (exn + unit)" where
  "check_sockopt K option expected what s =
     (let (f, k) = s; (k, r, actual_value, len) = k_getsockopt K (fw_fd f) SOL_SOCKET option k
      in call (f, k) (SystemCall ''getsockopt'' r 0) (\<lambda>_.
         if len \<noteq> 4 \<or> actual_value \<noteq> expected then ((f, k), Inl (Runtime_error what)) else ((f, k), Inr ())))"

definition socket_of_fd :: "('k, 'z) net_kernel_scheme \<Rightarrow> int \<Rightarrow> int \<Rightarrow> fd_wrapper \<times> 'k \<Rightarrow> (fd_wrapper \<times> 'k) \<times> (exn + unit)" where
  "socket_of_fd K domain type s =
     call_on (check_sockopt K SO_DOMAIN domain ''socket domain mismatch'' s) (\<lambda>s _.
       check_sockopt K SO_TYPE type ''socket type mismatch'' s)"

definition get_address :: "(int \<Rightarrow> 'k \<Rightarrow> 'k \<times> sys_result \<times> bytes) \<Rightarrow> string \<Rightarrow> fd_wrapper \<times> 'k \<Rightarrow> (fd_wrapper \<times> 'k) \<times> (exn + address)" where
  "get_address fn name_of_function s =
     (let (f, k) = s; (k, r, addr) = fn (fw_fd f) k
      in call (f, k) (SystemCall name_of_function r 0) (\<lambda>_. ((f, k), address_of_sockaddr addr)))"

definition local_address :: "('k, 'z) net_kernel_scheme \<Rightarrow> fd_wrapper \<times> 'k \<Rightarrow> (fd_wrapper \<times> 'k) \<times> (exn + address)" where
  "local_address K = get_address (k_getsockname K) ''getsockname''"

definition peer_address :: "('k, 'z) net_kernel_scheme \<Rightarrow> fd_wrapper \<times> 'k \<Rightarrow> (fd_wrapper \<times> 'k) \<times> (exn + address)" where
  "peer_address K = get_address (k_getpeername K) ''getpeername''"

text \<open>The bytes of an address as they are passed to the system.\<close>

definition raw_address :: "address \<Rightarrow> bytes" where
  "raw_address a = take (ad_size a) (ad_storage a)"

definition socket_bind :: "('k, 'z) net_kernel_scheme \<Rightarrow> address \<Rightarrow> fd_wrapper \<times> 'k \<Rightarrow> (fd_wrapper \<times> 'k) \<times> (exn + unit)" where
  "socket_bind K address s =
     (let (f, k) = s; (k, r) = k_bind K (fw_fd f) (raw_address address) k
      in call (f, k) (SystemCall ''bind'' r 0) (\<lambda>_. ((f, k), Inr ())))"

definition socket_connect :: "('k, 'z) net_kernel_scheme \<Rightarrow> address \<Rightarrow> fd_wrapper \<times> 'k \<Rightarrow> (fd_wrapper \<times> 'k) \<times> (exn + unit)" where
  "socket_connect K address s =
     (let (f, k) = s; (k, r) = k_connect K (fw_fd f) (raw_address address) k
      in call (f, k) (SystemCall ''connect'' r 0) (\<lambda>_. ((f, k), Inr ())))"

definition socket_shutdown :: "('k, 'z) net_kernel_scheme \<Rightarrow> int \<Rightarrow> fd_wrapper \<times> 'k \<Rightarrow> (fd_wrapper \<times> 'k) \<times> (exn + unit)" where
  "socket_shutdown K how s =
     (let (f, k) = s; (k, r) = k_shutdown K (fw_fd f) how k
      in call (f, k) (SystemCall ''shutdown'' r 0) (\<lambda>_.
         if how = SHUT_RD then ((register_read f, k), Inr ())
         else if how = SHUT_WR then ((register_write f, k), Inr ())
         else if how = SHUT_RDWR then ((register_write (register_read f), k), Inr ())
         else ((f, k), Inl (Runtime_error ''Socket::shutdown() called with invalid `how`''))))"

definition socket_setsockopt :: "('k, 'z) net_kernel_scheme \<Rightarrow> int \<Rightarrow> int \<Rightarrow> int \<Rightarrow> fd_wrapper \<times> 'k \<Rightarrow> (fd_wrapper \<times> 'k) \<times> (exn + unit)" where
  "socket_setsockopt K level option option_value s =
     (let (f, k) = s; (k, r) = k_setsockopt K (fw_fd f) level option option_value k
      in call (f, k) (SystemCall ''setsockopt'' r 0) (\<lambda>_. ((f, k), Inr ())))"

definition set_reuseaddr :: "('k, 'z) net_kernel_scheme \<Rightarrow> fd_wrapper \<times> 'k \<Rightarrow> (fd_wrapper \<times> 'k) \<times> (exn + unit)" where
  "set_reuseaddr K = socket_setsockopt K SOL_SOCKET SO_REUSEADDR 1"

subsection \<open>UDPSocket\<close>

definition udp_socket_new :: "('k, 'z) net_kernel_scheme \<Rightarrow> 'k \<Rightarrow> 'k \<times> (exn + fd_wrapper)" where
  "udp_socket_new K = socket_new K (int AF_INET) SOCK_DGRAM"

definition udp_socket_of_fd :: "('k, 'z) net_kernel_scheme \<Rightarrow> fd_wrapper \<times> 'k \<Rightarrow> (fd_wrapper \<times> 'k) \<times> (exn + unit)" where
  "udp_socket_of_fd K = socket_of_fd K (int AF_INET) SOCK_DGRAM"

text \<open>
  With \<^verbatim>\<open>MSG_TRUNC\<close> the system returns the length of the datagram even if the buffer is shorter; it fills a prefix of the
  buffer of \<open>mtu\<close> bytes.
\<close>

definition udp_recv :: "('k, 'z) net_kernel_scheme \<Rightarrow> nat \<Rightarrow> fd_wrapper \<times> 'k \<Rightarrow> (fd_wrapper \<times> 'k) \<times> (exn + address \<times> bytes)" where
  "udp_recv K mtu s =
     (let (f, k) = s; (k, r, data, from_addr) = k_recvfrom K (fw_fd f) mtu k;
          payload = take mtu (data @ replicate (mtu - length data) 0)
      in call (f, k) (SystemCall ''recvfrom'' r 0) (\<lambda>recv_len.
         if recv_len > int mtu then ((f, k), Inl (Runtime_error ''recvfrom (oversized datagram)''))
         else call (register_read f, k) (address_of_sockaddr from_addr) (\<lambda>source_address.
           if recv_len < 0 then ((register_read f, k), Inl (Length_error ''basic_string::resize''))
           else ((register_read f, k), Inr (source_address, take (nat recv_len) payload)))))"

definition sendmsg_helper ::
    "('k, 'z) net_kernel_scheme \<Rightarrow> int \<Rightarrow> bytes option \<Rightarrow> buffer_view_list \<Rightarrow> 'k \<Rightarrow> 'k \<times> (exn + unit)" where
  "sendmsg_helper K fd_num destination_address payload k =
     (let (k, r) = k_sendmsg K fd_num destination_address (as_iovecs payload) k
      in call k (SystemCall ''sendmsg'' r 0) (\<lambda>bytes_sent.
         if to_size bytes_sent \<noteq> bvl_size payload then (k, Inl (Runtime_error ''datagram payload too big for sendmsg()''))
         else (k, Inr ())))"

definition udp_sendto :: "('k, 'z) net_kernel_scheme \<Rightarrow> address \<Rightarrow> buffer_view_list \<Rightarrow> fd_wrapper \<times> 'k \<Rightarrow> (fd_wrapper \<times> 'k) \<times> (exn + unit)" where
  "udp_sendto K destination payload s =
     (let (f, k) = s; (k, r) = sendmsg_helper K (fw_fd f) (Some (raw_address destination)) payload k
      in call (f, k) r (\<lambda>_. ((register_write f, k), Inr ())))"

definition udp_send :: "('k, 'z) net_kernel_scheme \<Rightarrow> buffer_view_list \<Rightarrow> fd_wrapper \<times> 'k \<Rightarrow> (fd_wrapper \<times> 'k) \<times> (exn + unit)" where
  "udp_send K payload s =
     (let (f, k) = s; (k, r) = sendmsg_helper K (fw_fd f) None payload k
      in call (f, k) r (\<lambda>_. ((register_write f, k), Inr ())))"

subsection \<open>TCPSocket and LocalStreamSocket\<close>

definition tcp_socket_new :: "('k, 'z) net_kernel_scheme \<Rightarrow> 'k \<Rightarrow> 'k \<times> (exn + fd_wrapper)" where
  "tcp_socket_new K = socket_new K (int AF_INET) SOCK_STREAM"

definition tcp_socket_of_fd :: "('k, 'z) net_kernel_scheme \<Rightarrow> fd_wrapper \<times> 'k \<Rightarrow> (fd_wrapper \<times> 'k) \<times> (exn + unit)" where
  "tcp_socket_of_fd K = socket_of_fd K (int AF_INET) SOCK_STREAM"

definition local_stream_socket_of_fd :: "('k, 'z) net_kernel_scheme \<Rightarrow> fd_wrapper \<times> 'k \<Rightarrow> (fd_wrapper \<times> 'k) \<times> (exn + unit)" where
  "local_stream_socket_of_fd K = socket_of_fd K AF_UNIX SOCK_STREAM"

text \<open>A descriptor whose owner's constructor throws is closed.\<close>

definition tcp_listen :: "('k, 'z) net_kernel_scheme \<Rightarrow> int \<Rightarrow> fd_wrapper \<times> 'k \<Rightarrow> (fd_wrapper \<times> 'k) \<times> (exn + unit)" where
  "tcp_listen K backlog s =
     (let (f, k) = s; (k, r) = k_listen K (fw_fd f) backlog k
      in call (f, k) (SystemCall ''listen'' r 0) (\<lambda>_. ((f, k), Inr ())))"

definition tcp_accept :: "('k, 'z) net_kernel_scheme \<Rightarrow> fd_wrapper \<times> 'k \<Rightarrow> (fd_wrapper \<times> 'k) \<times> (exn + fd_wrapper)" where
  "tcp_accept K s =
     (let (f, k) = s; f = register_read f; (k, r) = k_accept K (fw_fd f) k
      in call (f, k) (SystemCall ''accept'' r 0) (\<lambda>fd.
         call (f, k) (fd_new fd) (\<lambda>g.
         case tcp_socket_of_fd K (g, k) of
           ((g, k), Inl e) \<Rightarrow> ((f, snd (fd_destroy K (g, k))), Inl e)
         | ((g, k), Inr _) \<Rightarrow> ((f, k), Inr g))))"

subsection \<open>TunTapFD\<close>

definition IFF_TUN :: int where "IFF_TUN = 1"
definition IFF_TAP :: int where "IFF_TAP = 2"
definition IFF_NO_PI :: int where "IFF_NO_PI = 4096"
definition IFNAMSIZ :: nat where "IFNAMSIZ = 16"
definition O_RDWR :: int where "O_RDWR = 2"

text \<open>\<^verbatim>\<open>strncpy\<close>: the bytes up to the first NUL, at most \<open>n\<close>, padded with NULs to \<open>n\<close>.  The string is given without its final NUL.\<close>

definition strncpy :: "bytes \<Rightarrow> nat \<Rightarrow> bytes" where
  "strncpy src n = (let s = take n (takeWhile (\<lambda>b. b \<noteq> 0) src) in s @ replicate (n - length s) 0)"

definition ifr_name :: "bytes \<Rightarrow> bytes" where
  "ifr_name devname = strncpy devname (IFNAMSIZ - 1) @ [0]"

definition tun_tap_new :: "('k, 'z) net_kernel_scheme \<Rightarrow> bytes \<Rightarrow> bool \<Rightarrow> 'k \<Rightarrow> 'k \<times> (exn + fd_wrapper)" where
  "tun_tap_new K devname is_tun k =
     (let (k, r) = k_open K ''/dev/net/tun'' O_RDWR k
      in call k (SystemCall ''open'' r 0) (\<lambda>fd.
         call k (fd_new fd) (\<lambda>f.
         let (k, r) = k_tunsetiff K (fw_fd f) ((if is_tun then IFF_TUN else IFF_TAP) OR IFF_NO_PI) (ifr_name devname) k
         in call (snd (fd_destroy K (f, k))) (SystemCall ''ioctl'' r 0) (\<lambda>_. (k, Inr f)))))"

subsection \<open>Lemmas\<close>

lemma ifr_name_terminated:
  "length (ifr_name devname) = IFNAMSIZ" "takeWhile (\<lambda>b. b \<noteq> 0) (ifr_name devname) = take 15 (takeWhile (\<lambda>b. b \<noteq> 0) devname)"
proof -
  let ?s = "take 15 (takeWhile (\<lambda>b. b \<noteq> 0) devname)"
  show "length (ifr_name devname) = IFNAMSIZ" by (simp add: ifr_name_def strncpy_def IFNAMSIZ_def Let_def min_def)
  have "b \<noteq> 0" if "b \<in> set ?s" for b using set_takeWhileD [OF in_set_takeD [OF that]] by simp
  then have "takeWhile (\<lambda>b. b \<noteq> 0) (?s @ t) = ?s @ takeWhile (\<lambda>b. b \<noteq> 0) t" for t by (rule takeWhile_append2)
  moreover have "takeWhile (\<lambda>b. b \<noteq> 0) (replicate n 0 @ [0]) = ([] :: bytes)" for n by (cases n) simp_all
  ultimately show "takeWhile (\<lambda>b. b \<noteq> 0) (ifr_name devname) = ?s"
    by (simp add: ifr_name_def strncpy_def IFNAMSIZ_def Let_def)
qed

lemma socket_shutdown_wrapper:
  "socket_shutdown K how (f, k) = ((f', k'), res) \<Longrightarrow>
   k' = fst (k_shutdown K (fw_fd f) how k) \<and> fw_fd f' = fw_fd f \<and> fw_eof f' = fw_eof f \<and> fw_closed f' = fw_closed f"
  by (auto simp: socket_shutdown_def call_def register_read_def register_write_def split: prod.splits sum.splits if_splits)

end
