(* ===== verification/Devices.thy ===== *)
theory Devices
  imports Adapters Sockets
begin

text \<open>
  The adapters of the theory \<open>Adapters\<close> joined to their devices, as the classes \<^verbatim>\<open>TCPOverUDPSocketAdapter\<close>,
  \<^verbatim>\<open>TCPOverIPv4OverTunFdAdapter\<close>, \<^verbatim>\<open>TCPOverIPv4OverEthernetAdapter\<close> and \<^verbatim>\<open>LossyFdAdapter\<close> do: a read takes a packet from the
  descriptor, a write puts one there.  \<^verbatim>\<open>TCPSpongeSocket\<close> is a template over such a class; the record \<open>adapter_ops\<close> has
  the operations it uses.
\<close>

record ('a, 'k) adapter_ops =
  at_fd :: "'a \<Rightarrow> fd_wrapper"
  at_config :: "'a \<Rightarrow> fd_adapter_config"
  at_set_config :: "fd_adapter_config \<Rightarrow> 'a \<Rightarrow> 'a"
  at_set_listening :: "bool \<Rightarrow> 'a \<Rightarrow> 'a"
  at_read :: "'a \<times> 'k \<Rightarrow> ('a \<times> 'k) \<times> (exn + tcp_segment option)"
  at_write :: "tcp_segment \<Rightarrow> 'a \<times> 'k \<Rightarrow> tcp_segment \<times> ('a \<times> 'k) \<times> (exn + unit)"
  at_tick :: "nat \<Rightarrow> 'a \<times> 'k \<Rightarrow> ('a \<times> 'k) \<times> (exn + unit)"

text \<open>\<^verbatim>\<open>size_t\<close>'s greatest value, the default limit of a read.\<close>

definition SIZE_MAX :: nat where
  "SIZE_MAX = 18446744073709551615"

definition tun_adapter_read :: "('k, 'z) net_kernel_scheme \<Rightarrow> resolver \<Rightarrow> namer \<Rightarrow>
    (fd_wrapper \<times> fd_adapter_base) \<times> 'k \<Rightarrow> ((fd_wrapper \<times> fd_adapter_base) \<times> 'k) \<times> (exn + tcp_segment option)" where
  "tun_adapter_read K gai gni x =
     (let ((f, ad), k) = x; ((f, k), r) = fd_read K SIZE_MAX (f, k)
      in call ((f, ad), k) r (\<lambda>bs. let (ad, seg) = tun_read gai gni ad bs in (((f, ad), k), seg)))"

definition tun_adapter_write :: "('k, 'z) net_kernel_scheme \<Rightarrow> namer \<Rightarrow> tcp_segment \<Rightarrow>
    (fd_wrapper \<times> fd_adapter_base) \<times> 'k \<Rightarrow> tcp_segment \<times> ((fd_wrapper \<times> fd_adapter_base) \<times> 'k) \<times> (exn + unit)" where
  "tun_adapter_write K gni seg x =
     (let ((f, ad), k) = x; (seg, r) = tun_write gni ad seg
      in case r of
           Inl e \<Rightarrow> (seg, x, Inl e)
         | Inr bs \<Rightarrow> (let ((f, k), r) = fd_write K [bs] True (f, k) in (seg, ((f, ad), k), map_sum id (\<lambda>_. ()) r)))"

definition udp_adapter_read :: "('k, 'z) net_kernel_scheme \<Rightarrow>
    (fd_wrapper \<times> fd_adapter_base) \<times> 'k \<Rightarrow> ((fd_wrapper \<times> fd_adapter_base) \<times> 'k) \<times> (exn + tcp_segment option)" where
  "udp_adapter_read K x =
     (let ((f, ad), k) = x; ((f, k), r) = udp_recv K 65536 (f, k)
      in call ((f, ad), k) r (\<lambda>datagram. let (ad, seg) = udp_read ad datagram in (((f, ad), k), seg)))"

definition udp_adapter_write :: "('k, 'z) net_kernel_scheme \<Rightarrow> namer \<Rightarrow> tcp_segment \<Rightarrow>
    (fd_wrapper \<times> fd_adapter_base) \<times> 'k \<Rightarrow> tcp_segment \<times> ((fd_wrapper \<times> fd_adapter_base) \<times> 'k) \<times> (exn + unit)" where
  "udp_adapter_write K gni seg x =
     (let ((f, ad), k) = x; (seg, r) = udp_write gni ad seg
      in case r of
           Inl e \<Rightarrow> (seg, x, Inl e)
         | Inr (dst, pl) \<Rightarrow> (let ((f, k), r) = udp_sendto K dst [pl] (f, k) in (seg, ((f, ad), k), r)))"

definition base_ops :: "((fd_wrapper \<times> fd_adapter_base) \<times> 'k \<Rightarrow> ((fd_wrapper \<times> fd_adapter_base) \<times> 'k) \<times> (exn + tcp_segment option)) \<Rightarrow>
    (tcp_segment \<Rightarrow> (fd_wrapper \<times> fd_adapter_base) \<times> 'k \<Rightarrow>
      tcp_segment \<times> ((fd_wrapper \<times> fd_adapter_base) \<times> 'k) \<times> (exn + unit)) \<Rightarrow>
    (fd_wrapper \<times> fd_adapter_base, 'k) adapter_ops" where
  "base_ops rd wr =
     \<lparr>at_fd = fst, at_config = (\<lambda>a. ab_cfg (snd a)), at_set_config = (\<lambda>cfg a. (fst a, (snd a)\<lparr>ab_cfg := cfg\<rparr>)),
      at_set_listening = (\<lambda>l a. (fst a, set_listening l (snd a))), at_read = rd, at_write = wr, at_tick = (\<lambda>ms x. (x, Inr ()))\<rparr>"

definition tun_ops :: "('k, 'z) net_kernel_scheme \<Rightarrow> resolver \<Rightarrow> namer \<Rightarrow> (fd_wrapper \<times> fd_adapter_base, 'k) adapter_ops" where
  "tun_ops K gai gni = base_ops (tun_adapter_read K gai gni) (tun_adapter_write K gni)"

definition udp_ops :: "('k, 'z) net_kernel_scheme \<Rightarrow> namer \<Rightarrow> (fd_wrapper \<times> fd_adapter_base, 'k) adapter_ops" where
  "udp_ops K gni = base_ops (udp_adapter_read K) (udp_adapter_write K gni)"

text \<open>The TAP adapter writes its frames one by one and pops a frame once it is written.\<close>

fun send_frames :: "('k, 'z) net_kernel_scheme \<Rightarrow> ethernet_frame list \<Rightarrow> fd_wrapper \<times> 'k \<Rightarrow>
    ethernet_frame list \<times> (fd_wrapper \<times> 'k) \<times> (exn + unit)" where
  "send_frames K [] s = ([], s, Inr ())"
| "send_frames K (fr # frs) s =
     (case fd_write K [ethernet_frame_serialize fr] True s of
        (s, Inl e) \<Rightarrow> (fr # frs, s, Inl e)
      | (s, Inr _) \<Rightarrow> send_frames K frs s)"

definition tap_send_pending :: "('k, 'z) net_kernel_scheme \<Rightarrow> (fd_wrapper \<times> ethernet_adapter) \<times> 'k \<Rightarrow>
    ((fd_wrapper \<times> ethernet_adapter) \<times> 'k) \<times> (exn + unit)" where
  "tap_send_pending K x =
     (let ((f, ea), k) = x; (frs, (f, k), r) = send_frames K (ni_frames_out (ead_interface ea)) (f, k)
      in (((f, ea\<lparr>ead_interface := (ead_interface ea)\<lparr>ni_frames_out := frs\<rparr>\<rparr>), k), r))"

definition tap_adapter_read :: "('k, 'z) net_kernel_scheme \<Rightarrow> resolver \<Rightarrow> namer \<Rightarrow>
    (fd_wrapper \<times> ethernet_adapter) \<times> 'k \<Rightarrow> ((fd_wrapper \<times> ethernet_adapter) \<times> 'k) \<times> (exn + tcp_segment option)" where
  "tap_adapter_read K gai gni x =
     (let ((f, ea), k) = x; ((f, k), r) = fd_read K SIZE_MAX (f, k)
      in call ((f, ea), k) r (\<lambda>bs.
         let (res, frame) = ethernet_frame_parse bs ethernet_frame_new
         in if res \<noteq> NoError then (((f, ea), k), Inr None)
            else
              (let (ni, ip_dgram) = recv_frame (ead_interface ea) frame;
                   ea = ea\<lparr>ead_interface := ni\<rparr>
               in call ((f, ea), k) ip_dgram (\<lambda>od.
                  call_on (tap_send_pending K ((f, ea), k)) (\<lambda>x _.
                  case od of
                    None \<Rightarrow> (x, Inr None)
                  | Some d \<Rightarrow> (let ((f, ea), k) = x; (base, seg) = unwrap_tcp_in_ip gai gni (ead_base ea) d
                               in (((f, ea\<lparr>ead_base := base\<rparr>), k), seg)))))))"

definition tap_adapter_write :: "('k, 'z) net_kernel_scheme \<Rightarrow> namer \<Rightarrow> tcp_segment \<Rightarrow>
    (fd_wrapper \<times> ethernet_adapter) \<times> 'k \<Rightarrow> tcp_segment \<times> ((fd_wrapper \<times> ethernet_adapter) \<times> 'k) \<times> (exn + unit)" where
  "tap_adapter_write K gni seg x =
     (let ((f, ea), k) = x
      in case wrap_tcp_in_ip gni (ead_base ea) seg of
           (seg, Inl e) \<Rightarrow> (seg, x, Inl e)
         | (seg, Inr d) \<Rightarrow>
             (let (ni, r) = send_datagram (ead_interface ea) d (ead_next_hop ea);
                  ea = ea\<lparr>ead_interface := ni\<rparr>
              in (seg, call ((f, ea), k) r (\<lambda>_. tap_send_pending K ((f, ea), k)))))"

definition tap_adapter_tick :: "('k, 'z) net_kernel_scheme \<Rightarrow> nat \<Rightarrow>
    (fd_wrapper \<times> ethernet_adapter) \<times> 'k \<Rightarrow> ((fd_wrapper \<times> ethernet_adapter) \<times> 'k) \<times> (exn + unit)" where
  "tap_adapter_tick K ms x =
     (let ((f, ea), k) = x; (ni, r) = ni_tick (ead_interface ea) ms;
          ea = ea\<lparr>ead_interface := ni\<rparr>
      in call ((f, ea), k) r (\<lambda>_. tap_send_pending K ((f, ea), k)))"

definition tap_ops :: "('k, 'z) net_kernel_scheme \<Rightarrow> resolver \<Rightarrow> namer \<Rightarrow> (fd_wrapper \<times> ethernet_adapter, 'k) adapter_ops" where
  "tap_ops K gai gni =
     \<lparr>at_fd = fst, at_config = (\<lambda>a. ab_cfg (ead_base (snd a))),
      at_set_config = (\<lambda>cfg a. (fst a, (snd a)\<lparr>ead_base := (ead_base (snd a))\<lparr>ab_cfg := cfg\<rparr>\<rparr>)),
      at_set_listening = (\<lambda>l a. (fst a, (snd a)\<lparr>ead_base := set_listening l (ead_base (snd a))\<rparr>)),
      at_read = tap_adapter_read K gai gni, at_write = tap_adapter_write K gni, at_tick = tap_adapter_tick K\<rparr>"

text \<open>The constructors take a device that is open; that of the TAP adapter writes a frame with an empty header.\<close>

definition tun_adapter_new :: "resolver \<Rightarrow> fd_wrapper \<Rightarrow> exn + (fd_wrapper \<times> fd_adapter_base)" where
  "tun_adapter_new gai f = map_sum id (\<lambda>cfg. (f, \<lparr>ab_cfg = cfg, ab_listen = False\<rparr>)) (fd_adapter_config_new gai)"

definition tap_adapter_new :: "('k, 'z) net_kernel_scheme \<Rightarrow> resolver \<Rightarrow> ethernet_address \<Rightarrow> address \<Rightarrow> address \<Rightarrow> fd_wrapper \<times> 'k \<Rightarrow>
    (fd_wrapper \<times> 'k) \<times> (exn + (fd_wrapper \<times> ethernet_adapter))" where
  "tap_adapter_new K gai eth_address ip_address next_hop x =
     call x (fd_adapter_config_new gai) (\<lambda>cfg.
     call_on (fd_write K [ethernet_frame_serialize ethernet_frame_new] True x) (\<lambda>(f, k) _.
     ((f, k), Inr (f, \<lparr>ead_base = \<lparr>ab_cfg = cfg, ab_listen = False\<rparr>,
        ead_interface = network_interface_new eth_address ip_address, ead_next_hop = next_hop\<rparr>))))"

text \<open>\<^verbatim>\<open>LossyFdAdapter\<close> around another adapter.\<close>

definition lossy_ops :: "('g \<Rightarrow> u32 \<times> 'g) \<Rightarrow> ('a, 'k) adapter_ops \<Rightarrow> ('a \<times> 'g, 'k) adapter_ops" where
  "lossy_ops rand A =
     \<lparr>at_fd = (\<lambda>a. at_fd A (fst a)), at_config = (\<lambda>a. at_config A (fst a)),
      at_set_config = (\<lambda>cfg a. (at_set_config A cfg (fst a), snd a)),
      at_set_listening = (\<lambda>l a. (at_set_listening A l (fst a), snd a)),
      at_read = (\<lambda>((a, g), k). let ((a, k), ret) = at_read A (a, k) in call ((a, g), k) ret (\<lambda>seg.
         let (drop, g) = should_drop rand (at_config A a) False g in (((a, g), k), Inr (if drop then None else seg)))),
      at_write = (\<lambda>seg ((a, g), k). let (drop, g) = should_drop rand (at_config A a) True g
         in if drop then (seg, ((a, g), k), Inr ())
            else (let (seg, (a, k), r) = at_write A seg (a, k) in (seg, ((a, g), k), r))),
      at_tick = (\<lambda>ms ((a, g), k). let ((a, k), r) = at_tick A ms (a, k) in (((a, g), k), r))\<rparr>"

subsection \<open>What the environment promises\<close>

text \<open>
  \<open>got fd k\<close> is what has been read from a descriptor, \<open>sent fd k\<close> what has been accepted on it.  A system call touches
  the descriptor it is given only; only \<^verbatim>\<open>read\<close> and \<^verbatim>\<open>writev\<close> move bytes of a stream.
\<close>

definition quiet :: "(int \<Rightarrow> 'k \<Rightarrow> bytes) \<Rightarrow> (int \<Rightarrow> 'k \<Rightarrow> bytes) \<Rightarrow> 'k \<Rightarrow> 'k \<Rightarrow> bool" where
  "quiet got sent k k' \<longleftrightarrow> (\<forall>g. got g k' = got g k \<and> sent g k' = sent g k)"

definition quiet_but :: "int \<Rightarrow> (int \<Rightarrow> 'k \<Rightarrow> bytes) \<Rightarrow> (int \<Rightarrow> 'k \<Rightarrow> bytes) \<Rightarrow> 'k \<Rightarrow> 'k \<Rightarrow> bool" where
  "quiet_but fd got sent k k' \<longleftrightarrow> (\<forall>g. g \<noteq> fd \<longrightarrow> got g k' = got g k \<and> sent g k' = sent g k)"

definition io_spec :: "('k, 'z) net_kernel_scheme \<Rightarrow> (int \<Rightarrow> 'k \<Rightarrow> bytes) \<Rightarrow> (int \<Rightarrow> 'k \<Rightarrow> bytes) \<Rightarrow> bool" where
  "io_spec K got sent \<longleftrightarrow>
     writev_spec K sent \<and> read_spec K \<and>
     (\<forall>fd n k g. sent g (fst (k_read K fd n k)) = sent g k \<and>
        got g (fst (k_read K fd n k)) = got g k @ (if g = fd then snd (snd (k_read K fd n k)) else [])) \<and>
     (\<forall>fd iov k g. got g (fst (k_writev K fd iov k)) = got g k) \<and>
     (\<forall>fd how k. quiet got sent k (fst (k_shutdown K fd how k))) \<and>
     (\<forall>fd n k. quiet got sent k (fst (k_recvfrom K fd n k))) \<and>
     (\<forall>fd dst iov k. quiet got sent k (fst (k_sendmsg K fd dst iov k)))"

text \<open>An adapter stays on its descriptor and sets at most the ports of a segment that it writes.\<close>

definition adapter_spec :: "('a, 'k) adapter_ops \<Rightarrow> (int \<Rightarrow> 'k \<Rightarrow> bytes) \<Rightarrow> (int \<Rightarrow> 'k \<Rightarrow> bytes) \<Rightarrow> bool" where
  "adapter_spec A got sent \<longleftrightarrow>
     (\<forall>a k a' k' r. at_read A (a, k) = ((a', k'), r) \<longrightarrow>
        fw_fd (at_fd A a') = fw_fd (at_fd A a) \<and> quiet_but (fw_fd (at_fd A a)) got sent k k') \<and>
     (\<forall>a k a' k' seg seg' r. at_write A seg (a, k) = (seg', (a', k'), r) \<longrightarrow>
        fw_fd (at_fd A a') = fw_fd (at_fd A a) \<and> quiet_but (fw_fd (at_fd A a)) got sent k k' \<and> (\<exists>sp dp. seg' = with_ports sp dp seg)) \<and>
     (\<forall>a k a' k' ms r. at_tick A ms (a, k) = ((a', k'), r) \<longrightarrow>
        fw_fd (at_fd A a') = fw_fd (at_fd A a) \<and> quiet_but (fw_fd (at_fd A a)) got sent k k')"

subsection \<open>Lemmas\<close>

lemma io_specD:
  assumes "io_spec K got sent"
  shows "writev_spec K sent" "read_spec K"
    "sent g (fst (k_read K fd n k)) = sent g k"
    "got g (fst (k_read K fd n k)) = got g k @ (if g = fd then snd (snd (k_read K fd n k)) else [])"
    "got g (fst (k_writev K fd iov k)) = got g k"
    "quiet got sent k (fst (k_shutdown K fd how k))" "quiet got sent k (fst (k_recvfrom K fd n k))"
    "quiet got sent k (fst (k_sendmsg K fd dst iov k))"
  using assms unfolding io_spec_def by simp_all

lemma quiet_but_refl [simp]: "quiet_but fd got sent k k"
  by (simp add: quiet_but_def)

lemma quiet_but_trans: "quiet_but fd got sent k k1 \<Longrightarrow> quiet_but fd got sent k1 k2 \<Longrightarrow> quiet_but fd got sent k k2"
  by (simp add: quiet_but_def)

lemma register_read_fd [simp]: "fw_fd (register_read f) = fw_fd f" "fw_eof (register_read f) = fw_eof f"
  "fw_closed (register_read f) = fw_closed f"
  by (simp_all add: register_read_def)

lemma fd_read_io:
  assumes "io_spec K got sent" "fd_read K limit (f, k) = ((f', k'), r)"
  shows "fw_fd f' = fw_fd f" "sent g k' = sent g k"
    "got g k' = got g k @ (if g = fw_fd f then (case r of Inl _ \<Rightarrow> [] | Inr d \<Rightarrow> d) else [])"
proof -
  have spec: "read_spec K" using assms(1) by (simp add: io_spec_def)
  from fd_read_spec [OF spec assms(2)] have fd: "fw_fd f' = fw_fd f"
    and "\<exists>a. k_read K (fw_fd f) (min BUFFER_SIZE limit) k = (k', a, case r of Inl _ \<Rightarrow> [] | Inr d \<Rightarrow> d)" by auto
  then obtain a where "k_read K (fw_fd f) (min BUFFER_SIZE limit) k = (k', a, case r of Inl _ \<Rightarrow> [] | Inr d \<Rightarrow> d)" by blast
  then show "sent g k' = sent g k" "got g k' = got g k @ (if g = fw_fd f then (case r of Inl _ \<Rightarrow> [] | Inr d \<Rightarrow> d) else [])"
    using io_specD(3,4) [OF assms(1), of g "fw_fd f" "min BUFFER_SIZE limit" k] by simp_all
  show "fw_fd f' = fw_fd f" by (rule fd)
qed

lemma fd_read_quiet:
  assumes "io_spec K got sent" "fd_read K limit (f, k) = ((f', k'), r)"
  shows "fw_fd f' = fw_fd f" "quiet_but (fw_fd f) got sent k k'"
  using fd_read_io [OF assms] by (simp_all add: quiet_but_def)

lemma fd_write_quiet:
  assumes io: "io_spec K got sent" and run: "fd_write K buffer b (f, k) = ((f', k'), r)"
  shows "fw_fd f' = fw_fd f" "quiet_but (fw_fd f) got sent k k'"
proof -
  have loop: "fd_write_loop K b 0 buffer f k = ((f', k'), r)" using run by (simp add: fd_write_def)
  have got: "got g k2 = got g k1" if "k_writev K fd iov k1 = (k2, v)" for g fd iov k1 k2 v
    using io_specD(5) [OF io, of g fd iov k1] that by simp
  have 1: "got g k' = got g k \<and> fw_fd f' = fw_fd f" for g
    by (rule fd_write_loop_frame [where P = "got g", OF got loop])
  have sent: "sent g k2 = sent g k1" if "g \<noteq> fd" "k_writev K fd iov k1 = (k2, v)" for g fd iov k1 k2 v
  proof -
    obtain x e where v: "v = (x, e)" by (cases v)
    have "sent g k2 = sent g k1 @ (if g = fd then take (nat x) (concat (map fst iov)) else [])"
      using that(2) io_specD(1) [OF io] unfolding writev_spec_def v by blast
    then show ?thesis using that(1) by simp
  qed
  have 2: "sent g k' = sent g k" if "g \<noteq> fw_fd f" for g
    using fd_write_loop_frame [where P = "sent g", OF sent [OF that] loop] by simp
  show "fw_fd f' = fw_fd f" using 1 by simp
  show "quiet_but (fw_fd f) got sent k k'" using 1 2 by (simp add: quiet_but_def)
qed

lemma fd_write_got:
  assumes io: "io_spec K got sent" and run: "fd_write K buffer b (f, k) = ((f', k'), r)"
  shows "got g k' = got g k"
proof -
  have loop: "fd_write_loop K b 0 buffer f k = ((f', k'), r)" using run by (simp add: fd_write_def)
  have got: "got g k2 = got g k1" if "k_writev K fd iov k1 = (k2, v)" for fd iov k1 k2 v
    using io_specD(5) [OF io, of g fd iov k1] that by simp
  show ?thesis using fd_write_loop_frame [where P = "got g", OF got loop] by simp
qed

lemma with_ports_self: "with_ports (th_sport (sg_header seg)) (th_dport (sg_header seg)) seg = seg"
  by (simp add: with_ports_def)

lemma wrap_ports: "\<exists>sp dp. fst (wrap_tcp_in_ip gni ad seg) = with_ports sp dp seg"
proof (cases "address_port gni (fa_source (ab_cfg ad))")
  case (Inl e)
  then have "fst (wrap_tcp_in_ip gni ad seg) = seg" by (simp add: wrap_tcp_in_ip_def)
  then show ?thesis using with_ports_self [of seg] by metis
next
  case (Inr sp)
  have sp: "seg\<lparr>sg_header := (sg_header seg)\<lparr>th_sport := sp\<rparr>\<rparr> = with_ports sp (th_dport (sg_header seg)) seg"
    by (simp add: with_ports_def)
  show ?thesis
  proof (cases "address_port gni (fa_destination (ab_cfg ad))")
    case (Inl e)
    then show ?thesis using Inr sp by (auto simp: wrap_tcp_in_ip_def)
  next
    case dp: (Inr dp)
    have "fst (wrap_tcp_in_ip gni ad seg) = with_ports sp dp seg"
      by (simp add: wrap_tcp_in_ip_def Inr dp Let_def call_def with_ports_def split: sum.split)
    then show ?thesis by blast
  qed
qed

text \<open>The operations of an adapter keep its contract one by one.\<close>

lemma adapter_specI:
  assumes "\<And>a k a' k' r. at_read A (a, k) = ((a', k'), r) \<Longrightarrow>
      fw_fd (at_fd A a') = fw_fd (at_fd A a) \<and> quiet_but (fw_fd (at_fd A a)) got sent k k'"
    and "\<And>a k a' k' seg seg' r. at_write A seg (a, k) = (seg', (a', k'), r) \<Longrightarrow>
      fw_fd (at_fd A a') = fw_fd (at_fd A a) \<and> quiet_but (fw_fd (at_fd A a)) got sent k k' \<and> (\<exists>sp dp. seg' = with_ports sp dp seg)"
    and "\<And>a k a' k' ms r. at_tick A ms (a, k) = ((a', k'), r) \<Longrightarrow>
      fw_fd (at_fd A a') = fw_fd (at_fd A a) \<and> quiet_but (fw_fd (at_fd A a)) got sent k k'"
  shows "adapter_spec A got sent"
  using assms unfolding adapter_spec_def by blast

lemma adapter_specD:
  assumes "adapter_spec A got sent"
  shows "at_read A (a, k) = ((a', k'), r) \<Longrightarrow> fw_fd (at_fd A a') = fw_fd (at_fd A a) \<and> quiet_but (fw_fd (at_fd A a)) got sent k k'"
    "at_write A seg (a, k) = (seg', (a', k'), u) \<Longrightarrow>
      fw_fd (at_fd A a') = fw_fd (at_fd A a) \<and> quiet_but (fw_fd (at_fd A a)) got sent k k' \<and> (\<exists>sp dp. seg' = with_ports sp dp seg)"
    "at_tick A ms (a, k) = ((a', k'), u) \<Longrightarrow> fw_fd (at_fd A a') = fw_fd (at_fd A a) \<and> quiet_but (fw_fd (at_fd A a)) got sent k k'"
  using assms unfolding adapter_spec_def by blast+

lemma adapter_spec_fst:
  assumes "adapter_spec A got sent"
  shows "fw_fd (at_fd A (fst (fst (at_read A (a, k))))) = fw_fd (at_fd A a) \<and>
      quiet_but (fw_fd (at_fd A a)) got sent k (snd (fst (at_read A (a, k))))"
    "fw_fd (at_fd A (fst (fst (at_tick A ms (a, k))))) = fw_fd (at_fd A a) \<and>
      quiet_but (fw_fd (at_fd A a)) got sent k (snd (fst (at_tick A ms (a, k))))"
  using adapter_specD(1,3) [OF assms] by (metis prod.collapse)+

lemma tun_write_ports:
  assumes "tun_write gni ad seg = (seg', r)"
  shows "\<exists>sp dp. seg' = with_ports sp dp seg"
proof -
  have "seg' = fst (wrap_tcp_in_ip gni ad seg)"
    using assms by (auto simp: tun_write_def call_def split: prod.splits sum.splits)
  then show ?thesis using wrap_ports by metis
qed

lemma tun_ops_spec:
  assumes io: "io_spec K got sent"
  shows "adapter_spec (tun_ops K gai gni) got sent"
proof (rule adapter_specI)
  fix a k a' k' r
  assume run: "at_read (tun_ops K gai gni) (a, k) = ((a', k'), r)"
  obtain f1 k1 r1 where rd: "fd_read K SIZE_MAX (fst a, k) = ((f1, k1), r1)" by (metis prod.exhaust)
  have "fst a' = f1 \<and> k' = k1"
    using run rd by (cases a; cases r1) (auto simp: tun_ops_def base_ops_def tun_adapter_read_def Let_def split: prod.splits)
  then show "fw_fd (at_fd (tun_ops K gai gni) a') = fw_fd (at_fd (tun_ops K gai gni) a) \<and>
      quiet_but (fw_fd (at_fd (tun_ops K gai gni) a)) got sent k k'"
    using fd_read_quiet [OF io rd] by (simp add: tun_ops_def base_ops_def)
next
  fix a k a' k' seg seg' r
  assume run: "at_write (tun_ops K gai gni) seg (a, k) = (seg', (a', k'), r)"
  obtain seg1 x where tw: "tun_write gni (snd a) seg = (seg1, x)" by fastforce
  have "seg' = seg1 \<and> fw_fd (fst a') = fw_fd (fst a) \<and> quiet_but (fw_fd (fst a)) got sent k k'"
  proof (cases x)
    case (Inl e)
    then show ?thesis using run tw by (cases a) (simp add: tun_ops_def base_ops_def tun_adapter_write_def)
  next
    case (Inr bs)
    obtain f1 k1 r1 where "fd_write K [bs] True (fst a, k) = ((f1, k1), r1)" by (metis prod.exhaust)
    with run tw Inr fd_write_quiet [OF io this] show ?thesis
      by (cases a) (auto simp: tun_ops_def base_ops_def tun_adapter_write_def)
  qed
  then show "fw_fd (at_fd (tun_ops K gai gni) a') = fw_fd (at_fd (tun_ops K gai gni) a) \<and>
      quiet_but (fw_fd (at_fd (tun_ops K gai gni) a)) got sent k k' \<and> (\<exists>sp dp. seg' = with_ports sp dp seg)"
    using tun_write_ports [OF tw] by (simp add: tun_ops_def base_ops_def)
qed (auto simp: tun_ops_def base_ops_def)

lemma udp_write_ports:
  assumes "udp_write gni ad seg = (seg', r)"
  shows "\<exists>sp dp. seg' = with_ports sp dp seg"
proof -
  consider "seg' = seg" | sp where "seg' = with_ports sp (th_dport (sg_header seg)) seg" | sp dp where "seg' = with_ports sp dp seg"
    using assms by (auto simp: udp_write_def call_def Let_def with_ports_def split: sum.splits)
  then show ?thesis using with_ports_self [of seg] by cases metis+
qed

lemma udp_ops_spec:
  assumes io: "io_spec K got sent"
  shows "adapter_spec (udp_ops K gni) got sent"
proof (rule adapter_specI)
  fix a k a' k' r
  assume run: "at_read (udp_ops K gni) (a, k) = ((a', k'), r)"
  have "k' = fst (k_recvfrom K (fw_fd (fst a)) 65536 k) \<and> fw_fd (fst a') = fw_fd (fst a)"
    using run by (cases a) (auto simp: udp_ops_def base_ops_def udp_adapter_read_def udp_recv_def Let_def call_def
        split: prod.splits sum.splits if_splits)
  then show "fw_fd (at_fd (udp_ops K gni) a') = fw_fd (at_fd (udp_ops K gni) a) \<and> quiet_but (fw_fd (at_fd (udp_ops K gni) a)) got sent k k'"
    using io_specD(7) [OF io, of k "fw_fd (fst a)" 65536] by (simp add: udp_ops_def base_ops_def quiet_def quiet_but_def)
next
  fix a k a' k' seg seg' r
  assume run: "at_write (udp_ops K gni) seg (a, k) = (seg', (a', k'), r)"
  obtain seg1 x where uw: "udp_write gni (snd a) seg = (seg1, x)" by fastforce
  have "seg' = seg1 \<and> fw_fd (fst a') = fw_fd (fst a) \<and> (k' = k \<or> (\<exists>dst iov. k' = fst (k_sendmsg K (fw_fd (fst a)) dst iov k)))"
    using run uw by (cases a) (auto simp: udp_ops_def base_ops_def udp_adapter_write_def udp_sendto_def sendmsg_helper_def Let_def call_def
        split: prod.splits sum.splits if_splits; metis fst_conv)
  then show "fw_fd (at_fd (udp_ops K gni) a') = fw_fd (at_fd (udp_ops K gni) a) \<and>
      quiet_but (fw_fd (at_fd (udp_ops K gni) a)) got sent k k' \<and> (\<exists>sp dp. seg' = with_ports sp dp seg)"
    using udp_write_ports [OF uw] io_specD(8) [OF io, of k "fw_fd (fst a)"] by (auto simp: udp_ops_def base_ops_def quiet_def quiet_but_def)
qed (auto simp: udp_ops_def base_ops_def)

lemma lossy_ops_spec:
  assumes A: "adapter_spec A got sent"
  shows "adapter_spec (lossy_ops rand A) got sent"
proof (rule adapter_specI)
  fix a k a' k' r
  assume run: "at_read (lossy_ops rand A) (a, k) = ((a', k'), r)"
  obtain a1 k1 r1 where rd: "at_read A (fst a, k) = ((a1, k1), r1)" by (metis prod.exhaust)
  have "fst a' = a1 \<and> k' = k1"
    using run rd by (cases a; cases r1) (auto simp: lossy_ops_def Let_def split: prod.splits)
  then show "fw_fd (at_fd (lossy_ops rand A) a') = fw_fd (at_fd (lossy_ops rand A) a) \<and>
      quiet_but (fw_fd (at_fd (lossy_ops rand A) a)) got sent k k'"
    using adapter_specD(1) [OF A rd] by (simp add: lossy_ops_def)
next
  fix a k a' k' seg seg' r
  assume run: "at_write (lossy_ops rand A) seg (a, k) = (seg', (a', k'), r)"
  obtain seg1 a1 k1 r1 where wr: "at_write A seg (fst a, k) = (seg1, (a1, k1), r1)" by (metis prod.exhaust)
  have "seg' = seg \<and> fst a' = fst a \<and> k' = k \<or> seg' = seg1 \<and> fst a' = a1 \<and> k' = k1"
    using run wr by (cases a) (auto simp: lossy_ops_def Let_def split: prod.splits if_splits)
  then show "fw_fd (at_fd (lossy_ops rand A) a') = fw_fd (at_fd (lossy_ops rand A) a) \<and>
      quiet_but (fw_fd (at_fd (lossy_ops rand A) a)) got sent k k' \<and> (\<exists>sp dp. seg' = with_ports sp dp seg)"
    using adapter_specD(2) [OF A wr] with_ports_self [of seg] by (auto simp: lossy_ops_def) metis
next
  fix a k a' k' ms r
  assume run: "at_tick (lossy_ops rand A) ms (a, k) = ((a', k'), r)"
  obtain a1 k1 r1 where t: "at_tick A ms (fst a, k) = ((a1, k1), r1)" by (metis prod.exhaust)
  have "fst a' = a1 \<and> k' = k1" using run t by (cases a) (auto simp: lossy_ops_def)
  then show "fw_fd (at_fd (lossy_ops rand A) a') = fw_fd (at_fd (lossy_ops rand A) a) \<and>
      quiet_but (fw_fd (at_fd (lossy_ops rand A) a)) got sent k k'"
    using adapter_specD(3) [OF A t] by (simp add: lossy_ops_def)
qed

lemma send_frames_quiet:
  assumes io: "io_spec K got sent"
  shows "send_frames K frs (f, k) = (frs', (f', k'), r) \<Longrightarrow> fw_fd f' = fw_fd f \<and> quiet_but (fw_fd f) got sent k k'"
proof (induction frs arbitrary: f k)
  case (Cons fr frs)
  obtain f1 k1 r1 where w: "fd_write K [ethernet_frame_serialize fr] True (f, k) = ((f1, k1), r1)" by (metis prod.exhaust)
  note q = fd_write_quiet [OF io w]
  show ?case
  proof (cases r1)
    case (Inl e)
    then show ?thesis using Cons.prems w q by simp
  next
    case (Inr n)
    then show ?thesis using Cons.prems Cons.IH [of f1 k1] w q quiet_but_trans [OF q(2), of k'] by simp
  qed
qed simp

lemma tap_send_pending_quiet:
  assumes io: "io_spec K got sent" and run: "tap_send_pending K (a, k) = ((a', k'), r)"
  shows "fw_fd (fst a') = fw_fd (fst a)" "quiet_but (fw_fd (fst a)) got sent k k'"
proof -
  obtain frs f1 k1 r1 where w: "send_frames K (ni_frames_out (ead_interface (snd a))) (fst a, k) = (frs, (f1, k1), r1)"
    by (metis prod.exhaust)
  have "fst a' = f1 \<and> k' = k1" using run w by (cases a) (auto simp: tap_send_pending_def)
  then show "fw_fd (fst a') = fw_fd (fst a)" "quiet_but (fw_fd (fst a)) got sent k k'"
    using send_frames_quiet [OF io w] by simp_all
qed

lemma call_tap_quiet:
  assumes io: "io_spec K got sent" and run: "call (a, k) m (\<lambda>_. tap_send_pending K (a, k)) = ((a', k'), r)"
  shows "fw_fd (fst a') = fw_fd (fst a) \<and> quiet_but (fw_fd (fst a)) got sent k k'"
  using run tap_send_pending_quiet [OF io] by (cases m) auto

lemma tap_ops_spec:
  assumes io: "io_spec K got sent"
  shows "adapter_spec (tap_ops K gai gni) got sent"
proof (rule adapter_specI)
  fix a k a' k' r
  assume run: "at_read (tap_ops K gai gni) (a, k) = ((a', k'), r)"
  obtain f ea where a: "a = (f, ea)" by fastforce
  obtain f1 k1 r1 where rd: "fd_read K SIZE_MAX (f, k) = ((f1, k1), r1)" by (metis prod.exhaust)
  note q1 = fd_read_quiet [OF io rd]
  have "fw_fd (fst a') = fw_fd f \<and> quiet_but (fw_fd f) got sent k k'"
  proof (cases "\<exists>ea1. a' = (f1, ea1) \<and> k' = k1")
    case True
    then show ?thesis using q1 by auto
  next
    case False
    obtain bs where bs: "r1 = Inr bs"
      using run rd False by (cases r1) (auto simp: tap_ops_def tap_adapter_read_def a)
    obtain res frame where p: "ethernet_frame_parse bs ethernet_frame_new = (res, frame)" by fastforce
    have res: "res = NoError" using run rd bs p False by (auto simp: tap_ops_def tap_adapter_read_def a split: if_splits)
    obtain ni d where d: "recv_frame (ead_interface ea) frame = (ni, d)" by fastforce
    obtain od where od: "d = Inr od" using run rd bs p res d False by (cases d) (auto simp: tap_ops_def tap_adapter_read_def a)
    obtain a2 k2 r2 where t: "tap_send_pending K ((f1, ea\<lparr>ead_interface := ni\<rparr>), k1) = ((a2, k2), r2)" by (metis prod.exhaust)
    have "fst a' = fst a2 \<and> k' = k2"
      using run rd bs p res d od t
      by (cases r2; cases od) (auto simp: tap_ops_def tap_adapter_read_def a Let_def split: prod.splits)
    with t have "\<exists>ea1 a2 r2. tap_send_pending K ((f1, ea1), k1) = ((a2, k'), r2) \<and> fst a' = fst a2" by blast
    then obtain ea1 a2 r2 where t: "tap_send_pending K ((f1, ea1), k1) = ((a2, k'), r2)" "fst a' = fst a2" by blast
    show ?thesis using tap_send_pending_quiet [OF io t(1)] t(2) q1 quiet_but_trans [OF q1(2), of k'] by simp
  qed
  then show "fw_fd (at_fd (tap_ops K gai gni) a') = fw_fd (at_fd (tap_ops K gai gni) a) \<and>
      quiet_but (fw_fd (at_fd (tap_ops K gai gni) a)) got sent k k'"
    by (simp add: tap_ops_def a)
next
  fix a k a' k' seg seg' r
  assume run: "at_write (tap_ops K gai gni) seg (a, k) = (seg', (a', k'), r)"
  obtain f ea where a: "a = (f, ea)" by fastforce
  obtain seg1 x where w: "wrap_tcp_in_ip gni (ead_base ea) seg = (seg1, x)" by fastforce
  have "seg' = seg1 \<and> fw_fd (fst a') = fw_fd f \<and> quiet_but (fw_fd f) got sent k k'"
  proof (cases x)
    case (Inl e)
    then show ?thesis using run w by (auto simp: tap_ops_def tap_adapter_write_def a)
  next
    case (Inr d)
    obtain ni m where m: "send_datagram (ead_interface ea) d (ead_next_hop ea) = (ni, m)" by fastforce
    let ?a = "(f, ea\<lparr>ead_interface := ni\<rparr>)"
    have "call (?a, k) m (\<lambda>_. tap_send_pending K (?a, k)) = ((a', k'), r)" "seg' = seg1"
      using run w Inr m by (auto simp: tap_ops_def tap_adapter_write_def a Let_def)
    then show ?thesis using call_tap_quiet [OF io] by fastforce
  qed
  then show "fw_fd (at_fd (tap_ops K gai gni) a') = fw_fd (at_fd (tap_ops K gai gni) a) \<and>
      quiet_but (fw_fd (at_fd (tap_ops K gai gni) a)) got sent k k' \<and> (\<exists>sp dp. seg' = with_ports sp dp seg)"
    using wrap_ports [of gni "ead_base ea" seg] w by (simp add: tap_ops_def a)
next
  fix a k a' k' ms r
  assume run: "at_tick (tap_ops K gai gni) ms (a, k) = ((a', k'), r)"
  obtain f ea where a: "a = (f, ea)" by fastforce
  obtain ni m where m: "ni_tick (ead_interface ea) ms = (ni, m)" by fastforce
  let ?a = "(f, ea\<lparr>ead_interface := ni\<rparr>)"
  have "call (?a, k) m (\<lambda>_. tap_send_pending K (?a, k)) = ((a', k'), r)"
    using run m by (simp add: tap_ops_def tap_adapter_tick_def a Let_def)
  then show "fw_fd (at_fd (tap_ops K gai gni) a') = fw_fd (at_fd (tap_ops K gai gni) a) \<and>
      quiet_but (fw_fd (at_fd (tap_ops K gai gni) a)) got sent k k'"
    using call_tap_quiet [OF io] by (fastforce simp: tap_ops_def a)
qed

subsection \<open>A packet device\<close>

text \<open>A TUN device takes each write as one packet; \<open>packets fd k\<close> are those it has taken.\<close>

definition packet_spec :: "('k, 'z) kernel_scheme \<Rightarrow> (int \<Rightarrow> 'k \<Rightarrow> bytes list) \<Rightarrow> bool" where
  "packet_spec K packets \<longleftrightarrow>
     (\<forall>fd bs k. length bs \<le> 65535 \<longrightarrow>
        snd (k_writev K fd [(bs, length bs)] k) = (int (length bs), 0) \<and>
        packets fd (fst (k_writev K fd [(bs, length bs)] k)) = packets fd k @ [bs])"

lemma fd_write_packet:
  assumes "packet_spec K packets" "length bs \<le> 65535"
  shows "\<exists>k'. fd_write K [bs] True (f, k) = ((register_write f, k'), Inr (length bs)) \<and> packets (fw_fd f) k' = packets (fw_fd f) k @ [bs]"
proof -
  obtain k' where w: "k_writev K (fw_fd f) [(bs, length bs)] k = (k', int (length bs), 0)"
    "packets (fw_fd f) k' = packets (fw_fd f) k @ [bs]"
    using assms unfolding packet_spec_def by (metis prod.collapse)
  have sc: "SystemCall ''writev'' (int (length bs), 0) 0 = Inr (int (length bs))"
    using system_call_small [of "int (length bs)" 0 "''writev''"] assms(2) by simp
  have size: "bvl_size [bs] = length bs" using assms(2) by (simp add: bvl_size_eq)
  have "signed_take_bit 63 (int (length bs)) = int (length bs)" using assms(2) by (simp add: signed_take_bit_int_eq_self)
  moreover have "to_size (int (length bs)) = length bs" using assms(2) by (simp add: to_size_nonneg)
  moreover have "\<exists>vs. bvl_remove_prefix (length bs) [bs] = Inr vs \<and> bvl_size vs = 0"
    using assms(2) by (cases "bs = []") (simp_all add: bvl_size_eq sub64_self)
  ultimately have "fd_write K [bs] True (f, k) = ((register_write f, k'), Inr (length bs))"
    using w(1) sc size assms(2) by (auto simp: fd_write_def fd_write_loop.simps [of K True 0] as_iovecs_eq Let_def no_wrap)
  then show ?thesis using w(2) by blast
qed

lemma tun_write_length:
  assumes "tun_linked gni a b sp dp" "sendable seg" "tun_write gni a seg = (seg', Inr bs)"
  shows "length bs \<le> 65535"
proof -
  obtain s d where e: "endpoints a (s, sp) (d, dp)" "numeric_namer gni" using assms(1) by (auto simp: tun_linked_def)
  obtain dg where "wrap_tcp_in_ip gni a seg = (with_ports sp dp seg, Inr dg)" "dg_wf dg"
    using wrap_ok [OF e(2,1) assms(2)] by blast
  moreover from this have "ipv4_datagram_serialize dg = Inr bs"
    using assms(3) by (auto simp: tun_write_def call_def split: sum.splits)
  ultimately show ?thesis using ipv4_datagram_serialize_length unat_u16_less [of "ih_len (dg_header dg)"] by fastforce
qed

text \<open>A segment that is written to the device becomes a packet that the peer reads as the same segment.\<close>

lemma tun_adapter_carries:
  assumes "packet_spec K packets" "tun_linked gni ad peer sp dp" "sendable seg"
  shows "\<exists>k' bs seg'. tun_adapter_write K gni seg ((f, ad), k) = (with_ports sp dp seg, ((register_write f, ad), k'), Inr ()) \<and>
    packets (fw_fd f) k' = packets (fw_fd f) k @ [bs] \<and> tun_read gai gni peer bs = (peer, Inr (Some seg')) \<and>
    same_segment (with_ports sp dp seg) seg'"
proof -
  obtain bs seg' where c: "tun_write gni ad seg = (with_ports sp dp seg, Inr bs)" "tun_read gai gni peer bs = (peer, Inr (Some seg'))"
    "same_segment (with_ports sp dp seg) seg'" using tun.carry [OF assms(2,3)] by blast
  obtain k' where "fd_write K [bs] True (f, k) = ((register_write f, k'), Inr (length bs))" "packets (fw_fd f) k' = packets (fw_fd f) k @ [bs]"
    using fd_write_packet [OF assms(1) tun_write_length [OF assms(2,3) c(1)]] by blast
  with c show ?thesis by (auto simp: tun_adapter_write_def)
qed

end
