(* ===== verification/Event_Loop.thy ===== *)
theory Event_Loop
  imports File_Descriptor "HOL-Library.Sublist"
begin

text \<open>
  \<^verbatim>\<open>libsponge/util/eventloop.{hh,cc}\<close>.  The callbacks of a rule are functions on the state \<open>'w\<close> of the program, so the loop
  is a function on the list of rules and \<open>'w\<close>; the descriptor of a rule is a shared handle, that is, the way to find its wrapper in
  \<open>'w\<close>.  An interest callback only looks at the state.  \<^verbatim>\<open>poll(2)\<close> is a parameter that may change the state (time passes)
  and answers with a return value, \<^verbatim>\<open>errno\<close> and the \<^verbatim>\<open>revents\<close> of each entry.  The locale \<open>guarded_rules\<close> is
  the contract of a client: what every callback, called when its rule is interested, and every cancellation keep is kept by a round.
\<close>

definition POLLIN :: u16 where
  "POLLIN = 0x1"

definition POLLOUT :: u16 where
  "POLLOUT = 0x4"

definition POLLERR :: u16 where
  "POLLERR = 0x8"

definition POLLHUP :: u16 where
  "POLLHUP = 0x10"

definition POLLNVAL :: u16 where
  "POLLNVAL = 0x20"

definition EINTR :: int where
  "EINTR = 4"

datatype direction = Dir_In | Dir_Out

definition direction_events :: "direction \<Rightarrow> u16" where
  "direction_events d = (case d of Dir_In \<Rightarrow> POLLIN | Dir_Out \<Rightarrow> POLLOUT)"

datatype loop_result = Success | Timeout | Exit

record 'w rule =
  ru_fd :: "'w \<Rightarrow> fd_wrapper"
  ru_direction :: direction
  ru_callback :: "'w \<Rightarrow> 'w \<times> (exn + unit)"
  ru_interest :: "'w \<Rightarrow> exn + bool"
  ru_cancel :: "'w \<Rightarrow> 'w \<times> (exn + unit)"

definition service_count :: "'w rule \<Rightarrow> 'w \<Rightarrow> u32" where
  "service_count r w = (if ru_direction r = Dir_In then fw_read_count (ru_fd r w) else fw_write_count (ru_fd r w))"

definition add_rule :: "('w \<Rightarrow> fd_wrapper) \<Rightarrow> direction \<Rightarrow> ('w \<Rightarrow> 'w \<times> (exn + unit)) \<Rightarrow> ('w \<Rightarrow> exn + bool) \<Rightarrow>
    ('w \<Rightarrow> 'w \<times> (exn + unit)) \<Rightarrow> 'w rule list \<Rightarrow> 'w rule list" where
  "add_rule fd direction callback interest cancel rules =
     rules @ [\<lparr>ru_fd = fd, ru_direction = direction, ru_callback = callback, ru_interest = interest, ru_cancel = cancel\<rparr>]"

text \<open>The defaults of the last two arguments.\<close>

definition always :: "'w \<Rightarrow> exn + bool" where
  "always w = Inr True"

definition no_cancel :: "'w \<Rightarrow> 'w \<times> (exn + unit)" where
  "no_cancel w = (w, Inr ())"

record pollfd =
  pf_fd :: int
  pf_events :: u16
  pf_revents :: u16

type_synonym 'w poll_fun = "pollfd list \<Rightarrow> int \<Rightarrow> 'w \<Rightarrow> 'w \<times> sys_result \<times> (nat \<Rightarrow> u16)"

text \<open>
  The first loop of \<^verbatim>\<open>wait_next_event\<close>: cancel the rules that are at the end of the file or closed, and make an entry for each
  other rule.  If a callback throws, the rules that were not reached stay.
\<close>

fun poll_setup :: "'w rule list \<Rightarrow> 'w \<Rightarrow> pollfd list \<Rightarrow> bool \<Rightarrow> 'w rule list \<times> 'w \<times> (exn + pollfd list \<times> bool)" where
  "poll_setup [] w pollfds something_to_poll = ([], w, Inr (pollfds, something_to_poll))"
| "poll_setup (r # rs) w pollfds something_to_poll =
     (if ru_direction r = Dir_In \<and> fw_eof (ru_fd r w) \<or> fw_closed (ru_fd r w)
      then (case ru_cancel r w of
              (w, Inl e) \<Rightarrow> (r # rs, w, Inl e)
            | (w, Inr _) \<Rightarrow> poll_setup rs w pollfds something_to_poll)
      else
        (case ru_interest r w of
           Inl e \<Rightarrow> (r # rs, w, Inl e)
         | Inr interested \<Rightarrow>
             (let ev = (if interested then direction_events (ru_direction r) else 0);
                  (rs', w', res) = poll_setup rs w (pollfds @ [\<lparr>pf_fd = fw_fd (ru_fd r w), pf_events = ev, pf_revents = 0\<rparr>])
                                     (interested \<or> something_to_poll)
              in (r # rs', w', res))))"

definition set_revents :: "(nat \<Rightarrow> u16) \<Rightarrow> pollfd list \<Rightarrow> pollfd list" where
  "set_revents revents pollfds = map (\<lambda>(i, p). p\<lparr>pf_revents := revents i\<rparr>) (enumerate 0 pollfds)"

definition poll_error :: "pollfd \<Rightarrow> bool" where
  "poll_error p \<longleftrightarrow> pf_revents p AND (POLLERR OR POLLNVAL) \<noteq> 0"

definition poll_ready :: "pollfd \<Rightarrow> bool" where
  "poll_ready p \<longleftrightarrow> pf_revents p AND pf_events p \<noteq> 0"

definition poll_hup :: "pollfd \<Rightarrow> bool" where
  "poll_hup p \<longleftrightarrow> pf_revents p AND POLLHUP \<noteq> 0"

text \<open>The second loop: the rules and their entries in step.\<close>

fun poll_results :: "'w rule list \<Rightarrow> pollfd list \<Rightarrow> 'w \<Rightarrow> 'w rule list \<times> 'w \<times> (exn + unit)" where
  "poll_results [] pollfds w = ([], w, Inr ())"
| "poll_results (r # rs) [] w = (r # rs, w, Inl (Undefined_behaviour ''pollfds[idx]''))"
| "poll_results (r # rs) (p # ps) w =
     (if poll_error p then (r # rs, w, Inl (Runtime_error ''EventLoop: error on polled file descriptor''))
      else if poll_hup p \<and> pf_events p \<noteq> 0 \<and> \<not> poll_ready p
      then (case ru_cancel r w of (w, Inl e) \<Rightarrow> (r # rs, w, Inl e) | (w, Inr _) \<Rightarrow> poll_results rs ps w)
      else if poll_ready p
      then (case ru_callback r w of
              (w1, Inl e) \<Rightarrow> (r # rs, w1, Inl e)
            | (w1, Inr _) \<Rightarrow>
                (case (if service_count r w = service_count r w1 then ru_interest r w1 else Inr False) of
                   Inl e \<Rightarrow> (r # rs, w1, Inl e)
                 | Inr True \<Rightarrow> (r # rs, w1, Inl (Runtime_error
                     ''EventLoop: busy wait detected: callback did not read/write fd and is still interested''))
                 | Inr False \<Rightarrow> (let (rs', w', res) = poll_results rs ps w1 in (r # rs', w', res))))
      else (let (rs', w', res) = poll_results rs ps w in (r # rs', w', res)))"

definition wait_next_event :: "'w poll_fun \<Rightarrow> int \<Rightarrow> 'w rule list \<times> 'w \<Rightarrow> ('w rule list \<times> 'w) \<times> (exn + loop_result)" where
  "wait_next_event poll timeout_ms s =
     (case poll_setup (fst s) (snd s) [] False of
        (rules, w, Inl e) \<Rightarrow> ((rules, w), Inl e)
      | (rules, w, Inr (pollfds, something_to_poll)) \<Rightarrow>
          if \<not> something_to_poll then ((rules, w), Inr Exit)
          else
            (let (w, r, revents) = poll pollfds timeout_ms w;
                 continue = (case poll_results rules (set_revents revents pollfds) w of
                               (rules, w, Inl e) \<Rightarrow> ((rules, w), Inl e) | (rules, w, Inr _) \<Rightarrow> ((rules, w), Inr Success))
             in case SystemCall ''poll'' r 0 of
                  Inr n \<Rightarrow> if n = 0 then ((rules, w), Inr Timeout) else continue
                | Inl (Unix_error _ e) \<Rightarrow> if e = EINTR then ((rules, w), Inr Exit) else continue
                | Inl e \<Rightarrow> ((rules, w), Inl e)))"

subsection \<open>Lemmas\<close>

lemma set_revents_length [simp]: "length (set_revents revents ps) = length ps"
  by (simp add: set_revents_def)

lemma poll_setup_length:
  "poll_setup rules w pollfds b = (rules', w', Inr (pollfds', b')) \<Longrightarrow> length pollfds' = length pollfds + length rules'"
proof (induction rules arbitrary: w pollfds b rules')
  case (Cons r rs)
  then show ?case by (fastforce simp: Let_def split: if_splits prod.splits sum.splits)
qed simp

lemma subseq_set: "subseq xs ys \<Longrightarrow> set xs \<subseteq> set ys"
  by (induction rule: list_emb.induct) auto

lemma distinct_subseq: "subseq xs ys \<Longrightarrow> distinct ys \<Longrightarrow> distinct xs"
  by (induction rule: list_emb.induct) (auto dest: subseq_set)

text \<open>Rules are never added or reordered.\<close>

lemma poll_setup_subseq: "poll_setup rules w pollfds b = (rules', w', res) \<Longrightarrow> subseq rules' rules"
proof (induction rules arbitrary: w pollfds b rules')
  case (Cons r rs)
  then show ?case by (auto simp: Let_def split: if_splits prod.splits sum.splits)
qed simp

lemma poll_results_subseq: "poll_results rules ps w = (rules', w', res) \<Longrightarrow> subseq rules' rules"
proof (induction rules ps w arbitrary: rules' rule: poll_results.induct)
  case (3 r rs p ps w)
  then show ?case by (auto simp: Let_def split: if_splits prod.splits sum.splits bool.splits)
qed auto

lemma poll_ready_events: "poll_ready p \<Longrightarrow> pf_events p \<noteq> 0"
  by (auto simp: poll_ready_def)

text \<open>
  When there is nothing to poll, every rule that is left was not interested; what this says of the state, if no cancellation
  changes it, holds in the end.
\<close>

lemma poll_setup_idle:
  "poll_setup rules w pollfds b = (rules', w', Inr (pollfds', False)) \<Longrightarrow> \<forall>q \<in> set rules. \<forall>w. P w \<longrightarrow> P (fst (ru_cancel q w)) \<Longrightarrow>
   \<forall>w. ru_interest r w = Inr False \<longrightarrow> P w \<Longrightarrow> \<not> b \<and> (r \<in> set rules' \<or> P w \<longrightarrow> P w')"
proof (induction rules arbitrary: w pollfds b rules')
  case (Cons q qs)
  have IH: "\<not> d \<and> (r \<in> set rules1 \<or> P v \<longrightarrow> P w')"
    if "poll_setup qs v ps d = (rules1, w', Inr (pollfds', False))" for v ps d rules1
    using Cons.IH [OF that] Cons.prems by simp
  show ?case
  proof (cases "ru_direction q = Dir_In \<and> fw_eof (ru_fd q w) \<or> fw_closed (ru_fd q w)")
    case True
    obtain w1 x where c: "ru_cancel q w = (w1, x)" by fastforce
    have "P w \<longrightarrow> P w1" using Cons.prems(2) c by (metis fst_conv list.set_intros(1))
    then show ?thesis using Cons.prems(1) True c IH by (cases x) auto
  next
    case False
    obtain i where i: "ru_interest q w = Inr i" using Cons.prems(1) False by (cases "ru_interest q w") auto
    obtain rules1 where run: "poll_setup qs w (pollfds @ [\<lparr>pf_fd = fw_fd (ru_fd q w),
        pf_events = if i then direction_events (ru_direction q) else 0, pf_revents = 0\<rparr>]) (i \<or> b) = (rules1, w', Inr (pollfds', False))"
      "rules' = q # rules1" using Cons.prems(1) False i by (auto simp: Let_def split: prod.splits)
    then show ?thesis using IH [OF run(1)] i Cons.prems(3) by auto
  qed
qed simp

subsection \<open>The interface: rules that keep an invariant\<close>

text \<open>
  A callback runs when its rule was interested before the call to \<^verbatim>\<open>poll\<close>; in between, other callbacks have run.
  \<open>G r\<close> is what the callback of \<open>r\<close> relies on: the interest of \<open>r\<close> gives it and the other rules keep it.
\<close>

locale guarded_rules =
  fixes ok :: "'w rule \<Rightarrow> bool"
    and I :: "'w \<Rightarrow> bool"
    and G :: "'w rule \<Rightarrow> 'w \<Rightarrow> bool"
    and poll :: "'w poll_fun"
  assumes interest_guard: "ok r \<Longrightarrow> I w \<Longrightarrow> ru_interest r w = Inr True \<Longrightarrow> G r w"
    and callback_keeps: "ok r \<Longrightarrow> I w \<Longrightarrow> G r w \<Longrightarrow> I (fst (ru_callback r w))"
    and callback_guard: "ok r \<Longrightarrow> ok r' \<Longrightarrow> r \<noteq> r' \<Longrightarrow> I w \<Longrightarrow> G r w \<Longrightarrow> G r' w \<Longrightarrow> G r' (fst (ru_callback r w))"
    and cancel_keeps: "ok r \<Longrightarrow> I w \<Longrightarrow> I (fst (ru_cancel r w))"
    and cancel_guard: "ok r \<Longrightarrow> ok r' \<Longrightarrow> r \<noteq> r' \<Longrightarrow> I w \<Longrightarrow> G r' w \<Longrightarrow> G r' (fst (ru_cancel r w))"
    and poll_keeps: "I w \<Longrightarrow> poll ps t w = (w', a) \<Longrightarrow> I w'"
    and poll_guard: "I w \<Longrightarrow> poll ps t w = (w', a) \<Longrightarrow> ok r \<Longrightarrow> G r w \<Longrightarrow> G r w'"
begin

lemma setup_keeps:
  "poll_setup rules w pollfds b = (rules', w', res) \<Longrightarrow> distinct rules \<Longrightarrow> \<forall>r \<in> set rules. ok r \<Longrightarrow> I w \<Longrightarrow>
   I w' \<and> (\<forall>r. ok r \<longrightarrow> r \<notin> set rules \<longrightarrow> G r w \<longrightarrow> G r w') \<and>
   (\<forall>pollfds' b'. res = Inr (pollfds', b') \<longrightarrow>
      (\<exists>qs. pollfds' = pollfds @ qs \<and> list_all2 (\<lambda>r p. pf_events p \<noteq> 0 \<longrightarrow> G r w') rules' qs))"
proof (induction rules arbitrary: w pollfds b rules')
  case Nil
  then show ?case by auto
next
  case (Cons r rs)
  note prems = Cons.prems
  have r: "ok r" "r \<notin> set rs" "distinct rs" "\<forall>r \<in> set rs. ok r" using prems by auto
  show ?case
  proof (cases "ru_direction r = Dir_In \<and> fw_eof (ru_fd r w) \<or> fw_closed (ru_fd r w)")
    case True
    obtain w1 x where c: "ru_cancel r w = (w1, x)" by fastforce
    have "I w1" and g: "\<And>r'. ok r' \<Longrightarrow> r \<noteq> r' \<Longrightarrow> G r' w \<Longrightarrow> G r' w1"
      using cancel_keeps [OF r(1), of w] cancel_guard [OF r(1), of _ w] prems(4) c by auto
    then show ?thesis using prems(1) True c Cons.IH [of w1 pollfds b rules'] r by (cases x) auto
  next
    case False
    show ?thesis
    proof (cases "ru_interest r w")
      case (Inl e)
      then show ?thesis using prems False by auto
    next
      case (Inr interested)
      define p where "p = \<lparr>pf_fd = fw_fd (ru_fd r w), pf_events = if interested then direction_events (ru_direction r) else 0, pf_revents = 0\<rparr>"
      obtain rs' where run: "poll_setup rs w (pollfds @ [p]) (interested \<or> b) = (rs', w', res)" "rules' = r # rs'"
        using prems(1) False Inr by (auto simp: p_def Let_def split: prod.splits)
      note IH = Cons.IH [OF run(1) r(3,4) prems(4)]
      have "pf_events p \<noteq> 0 \<Longrightarrow> G r w" using interest_guard [OF r(1) prems(4)] Inr by (auto simp: p_def split: if_splits)
      then have "pf_events p \<noteq> 0 \<Longrightarrow> G r w'" using IH r(1,2) by blast
      then show ?thesis using IH run(2) by fastforce
    qed
  qed
qed

text \<open>What the callback or the cancellation of one rule leaves to the rules after it.\<close>

lemma guards_after:
  assumes "list_all2 (\<lambda>r p. pf_events p \<noteq> 0 \<longrightarrow> G r w) rs ps" "r \<notin> set rs" "\<forall>r \<in> set rs. ok r"
    and "\<And>r'. ok r' \<Longrightarrow> r \<noteq> r' \<Longrightarrow> G r' w \<Longrightarrow> G r' w1"
  shows "list_all2 (\<lambda>r p. pf_events p \<noteq> 0 \<longrightarrow> G r w1) rs ps"
  by (rule list.rel_mono_strong [OF assms(1)]) (use assms(2-) in auto)

lemma cancel_step:
  assumes "list_all2 (\<lambda>r p. pf_events p \<noteq> 0 \<longrightarrow> G r w) rs ps" "r \<notin> set rs" "\<forall>r \<in> set rs. ok r" "ok r" "I w" "ru_cancel r w = (w1, x)"
  shows "I w1" "list_all2 (\<lambda>r p. pf_events p \<noteq> 0 \<longrightarrow> G r w1) rs ps"
  using cancel_keeps [OF assms(4,5)] guards_after [OF assms(1-3), of w1] cancel_guard [OF assms(4) _ _ assms(5)] assms(6) by auto

lemma callback_step:
  assumes "list_all2 (\<lambda>r p. pf_events p \<noteq> 0 \<longrightarrow> G r w) rs ps" "r \<notin> set rs" "\<forall>r \<in> set rs. ok r" "ok r" "I w" "G r w" "ru_callback r w = (w1, x)"
  shows "I w1" "list_all2 (\<lambda>r p. pf_events p \<noteq> 0 \<longrightarrow> G r w1) rs ps"
  using callback_keeps [OF assms(4-6)] guards_after [OF assms(1-3), of w1] callback_guard [OF assms(4) _ _ assms(5,6)] assms(7) by auto

lemma results_keep:
  "poll_results rules ps w = (rules', w', res) \<Longrightarrow> distinct rules \<Longrightarrow> \<forall>r \<in> set rules. ok r \<Longrightarrow> I w \<Longrightarrow>
   list_all2 (\<lambda>r p. pf_events p \<noteq> 0 \<longrightarrow> G r w) rules ps \<Longrightarrow> I w'"
proof (induction rules ps w arbitrary: rules' rule: poll_results.induct)
  case (3 r rs p ps w)
  note prems = 3(4-)
  have r: "ok r" "r \<notin> set rs" "distinct rs" "\<forall>r \<in> set rs. ok r" using prems by auto
  have rest: "list_all2 (\<lambda>r p. pf_events p \<noteq> 0 \<longrightarrow> G r w) rs ps" using prems(5) by simp
  obtain w1 x where c: "ru_cancel r w = (w1, x)" by fastforce
  note cancel = cancel_step [OF rest r(2,4,1) prems(4) c]
  obtain w2 y where d: "ru_callback r w = (w2, y)" by fastforce
  have call: "I w2" "list_all2 (\<lambda>r p. pf_events p \<noteq> 0 \<longrightarrow> G r w2) rs ps" if "poll_ready p"
    using callback_step [OF rest r(2,4,1) prems(4) _ d] poll_ready_events [OF that] prems(5) by simp_all
  consider "poll_error p" | "\<not> poll_error p" "poll_hup p \<and> pf_events p \<noteq> 0 \<and> \<not> poll_ready p"
    | "\<not> poll_error p" "poll_ready p" | "\<not> poll_error p" "\<not> (poll_hup p \<and> pf_events p \<noteq> 0)" "\<not> poll_ready p" by blast
  then show ?case
  proof cases
    case 2
    then show ?thesis using prems(1) c cancel r "3.IH"(1) by (cases x) auto
  next
    case 3
    then show ?thesis using prems(1) d call r "3.IH"(2)
      by (cases y) (auto split: sum.splits bool.splits prod.splits if_splits)
  next
    case 4
    then show ?thesis using prems(1,4) rest r "3.IH"(3) by (auto split: prod.splits)
  qed (use prems in auto)
qed auto

lemma wait_keeps:
  assumes "wait_next_event poll t (rules, w) = ((rules', w'), res)" "distinct rules" "\<forall>r \<in> set rules. ok r" "I w"
  shows "I w'" "distinct rules'" "\<forall>r \<in> set rules'. ok r"
proof -
  obtain rules1 w1 x where s: "poll_setup rules w [] False = (rules1, w1, x)" by (metis prod.exhaust)
  note k = setup_keeps [OF s assms(2-4)]
  have r1: "subseq rules1 rules" "distinct rules1" "\<forall>r \<in> set rules1. ok r"
    using poll_setup_subseq [OF s] assms(2,3) by (auto dest: distinct_subseq subseq_set)
  have goal: "I w' \<and> subseq rules' rules1"
  proof (cases x)
    case (Inl e)
    then show ?thesis using assms(1) s k by (auto simp: wait_next_event_def)
  next
    case (Inr y)
    obtain pollfds b where y: "y = (pollfds, b)" by fastforce
    obtain w2 r revents where p: "poll pollfds t w1 = (w2, r, revents)" by (metis prod.exhaust)
    have w2: "I w2" using poll_keeps k p by blast
    have "list_all2 (\<lambda>r p. pf_events p \<noteq> 0 \<longrightarrow> G r w1) rules1 pollfds" using k Inr y by auto
    then have la: "list_all2 (\<lambda>r p. pf_events p \<noteq> 0 \<longrightarrow> G r w2) rules1 (set_revents revents pollfds)"
      using poll_guard [OF _ p] k r1(3)
      by (auto simp: list_all2_conv_all_nth set_revents_def nth_enumerate_eq)
    obtain rules2 w3 z where res: "poll_results rules1 (set_revents revents pollfds) w2 = (rules2, w3, z)" by (metis prod.exhaust)
    have "I w3" "subseq rules2 rules1" using results_keep [OF res r1(2,3) w2 la] poll_results_subseq [OF res] by auto
    then show ?thesis using assms(1) s Inr y p res k w2
      by (auto simp: wait_next_event_def Let_def split: if_splits sum.splits exn.splits)
  qed
  then show "I w'" "distinct rules'" "\<forall>r \<in> set rules'. ok r" using r1 by (auto dest: distinct_subseq subseq_set)
qed

end

text \<open>What may be thrown: \<open>E\<close> holds of the exceptions of the loop itself, and the rules, used as above, throw no others.\<close>

locale guarded_exceptions = guarded_rules ok I G poll
  for ok :: "'w rule \<Rightarrow> bool" and I :: "'w \<Rightarrow> bool" and G :: "'w rule \<Rightarrow> 'w \<Rightarrow> bool" and poll :: "'w poll_fun" +
  fixes E :: "exn \<Rightarrow> bool"
  assumes loop_exn: "E (Runtime_error m)"
    and interest_exn: "ok r \<Longrightarrow> I w \<Longrightarrow> ru_interest r w = Inl e \<Longrightarrow> E e"
    and callback_exn: "ok r \<Longrightarrow> I w \<Longrightarrow> G r w \<Longrightarrow> ru_callback r w = (w', Inl e) \<Longrightarrow> E e"
    and cancel_exn: "ok r \<Longrightarrow> I w \<Longrightarrow> ru_cancel r w = (w', Inl e) \<Longrightarrow> E e"
begin

lemma setup_exn:
  "poll_setup rules w pollfds b = (rules', w', Inl e) \<Longrightarrow> \<forall>r \<in> set rules. ok r \<Longrightarrow> I w \<Longrightarrow> E e"
proof (induction rules arbitrary: w pollfds b rules')
  case (Cons r rs)
  have "I (fst (ru_cancel r w))" using cancel_keeps [of r w] Cons.prems by simp
  then show ?case
    using Cons.prems Cons.IH cancel_exn [of r w] interest_exn [of r w]
    by (auto simp: Let_def split: if_splits prod.splits sum.splits)
qed simp

lemma results_exn:
  "poll_results rules ps w = (rules', w', Inl e) \<Longrightarrow> distinct rules \<Longrightarrow> \<forall>r \<in> set rules. ok r \<Longrightarrow> I w \<Longrightarrow>
   list_all2 (\<lambda>r p. pf_events p \<noteq> 0 \<longrightarrow> G r w) rules ps \<Longrightarrow> E e"
proof (induction rules ps w arbitrary: rules' rule: poll_results.induct)
  case (3 r rs p ps w)
  note prems = 3(4-)
  have r: "ok r" "r \<notin> set rs" "distinct rs" "\<forall>r \<in> set rs. ok r" using prems by auto
  have rest: "list_all2 (\<lambda>r p. pf_events p \<noteq> 0 \<longrightarrow> G r w) rs ps" using prems(5) by simp
  obtain w1 x where c: "ru_cancel r w = (w1, x)" by fastforce
  note cancel = cancel_step [OF rest r(2,4,1) prems(4) c]
  obtain w2 y where d: "ru_callback r w = (w2, y)" by fastforce
  consider "poll_error p" | "\<not> poll_error p" "poll_hup p \<and> pf_events p \<noteq> 0 \<and> \<not> poll_ready p"
    | "\<not> poll_error p" "poll_ready p" | "\<not> poll_error p" "\<not> (poll_hup p \<and> pf_events p \<noteq> 0)" "\<not> poll_ready p" by blast
  then show ?case
  proof cases
    case 1
    then show ?thesis using prems(1) loop_exn by auto
  next
    case 2
    then show ?thesis using prems(1) c cancel r "3.IH"(1) cancel_exn [OF r(1) prems(4)] by (cases x) auto
  next
    case 3
    have g: "G r w" using poll_ready_events [OF 3(2)] prems(5) by simp
    have k: "I w2" "list_all2 (\<lambda>r p. pf_events p \<noteq> 0 \<longrightarrow> G r w2) rs ps"
      using callback_step [OF rest r(2,4,1) prems(4) g d] by simp_all
    then show ?thesis using 3 prems(1) d r "3.IH"(2) callback_exn [OF r(1) prems(4) g] interest_exn [OF r(1)] loop_exn
      by (cases y) (auto split: sum.splits bool.splits prod.splits if_splits)
  next
    case 4
    then show ?thesis using prems(1,4) rest r "3.IH"(3) by (auto split: prod.splits)
  qed
qed auto

lemma wait_exn:
  assumes "wait_next_event poll t (rules, w) = (x, Inl e)" "distinct rules" "\<forall>r \<in> set rules. ok r" "I w"
  shows "E e"
proof -
  obtain rules1 w1 x where s: "poll_setup rules w [] False = (rules1, w1, x)" by (metis prod.exhaust)
  note k = setup_keeps [OF s assms(2-4)]
  have r1: "distinct rules1" "\<forall>r \<in> set rules1. ok r"
    using poll_setup_subseq [OF s] assms(2,3) by (auto dest: distinct_subseq subseq_set)
  show ?thesis
  proof (cases x)
    case (Inl e')
    then show ?thesis using assms s setup_exn by (auto simp: wait_next_event_def)
  next
    case (Inr y)
    obtain pollfds b where y: "y = (pollfds, b)" by fastforce
    obtain w2 r revents where p: "poll pollfds t w1 = (w2, r, revents)" by (metis prod.exhaust)
    have w2: "I w2" using poll_keeps k p by blast
    have "list_all2 (\<lambda>r p. pf_events p \<noteq> 0 \<longrightarrow> G r w1) rules1 pollfds" using k Inr y by auto
    then have la: "list_all2 (\<lambda>r p. pf_events p \<noteq> 0 \<longrightarrow> G r w2) rules1 (set_revents revents pollfds)"
      using poll_guard [OF _ p] k r1(2)
      by (auto simp: list_all2_conv_all_nth set_revents_def nth_enumerate_eq)
    obtain rules2 w3 z where res: "poll_results rules1 (set_revents revents pollfds) w2 = (rules2, w3, z)" by (metis prod.exhaust)
    have "SystemCall ''poll'' r 0 = Inl e' \<Longrightarrow> \<exists>n. e' = Unix_error ''poll'' n" for e'
      by (auto simp: SystemCall_def Let_def split: prod.splits if_splits)
    then have "z = Inl e" using assms(1) s Inr y p res
      by (auto simp: wait_next_event_def Let_def split: if_splits sum.splits exn.splits)
    then show ?thesis using results_exn [OF _ r1 w2 la] res by simp
  qed
qed

end

subsection \<open>Properties\<close>

text \<open>The contract that the documentation of \<^verbatim>\<open>wait_next_event\<close> asks of a rule.\<close>

definition well_behaved :: "'w rule \<Rightarrow> bool" where
  "well_behaved r \<longleftrightarrow>
     (\<forall>w. (\<exists>b. ru_interest r w = Inr b) \<and> snd (ru_cancel r w) = Inr () \<and> snd (ru_callback r w) = Inr () \<and>
        (service_count r (fst (ru_callback r w)) \<noteq> service_count r w \<or> ru_interest r (fst (ru_callback r w)) = Inr False))"

lemma poll_setup_total:
  "\<forall>r \<in> set rules. well_behaved r \<Longrightarrow> \<exists>rules' w' x. poll_setup rules w pollfds b = (rules', w', Inr x)"
proof (induction rules arbitrary: w pollfds b)
  case (Cons r rs)
  obtain w1 where c: "ru_cancel r w = (w1, Inr ())" using Cons.prems by (metis list.set_intros(1) prod.collapse well_behaved_def)
  obtain i where "ru_interest r w = Inr i" using Cons.prems by (metis list.set_intros(1) well_behaved_def)
  note i = this
  have IH: "\<exists>rules' w' x. poll_setup rs v ps d = (rules', w', Inr x)" for v ps d using Cons by simp
  obtain r1 v1 x1 where 1: "poll_setup rs w1 pollfds b = (r1, v1, Inr x1)" using IH by blast
  obtain r2 v2 x2 where 2: "poll_setup rs w (pollfds @ [\<lparr>pf_fd = fw_fd (ru_fd r w),
      pf_events = if i then direction_events (ru_direction r) else 0, pf_revents = 0\<rparr>]) (i \<or> b) = (r2, v2, Inr x2)" using IH by blast
  show ?case by (simp add: c i 1 2)
qed simp

lemma poll_results_total:
  "\<forall>r \<in> set rules. well_behaved r \<Longrightarrow> length rules = length ps \<Longrightarrow> \<forall>p \<in> set ps. \<not> poll_error p \<Longrightarrow>
   \<exists>rules' w'. poll_results rules ps w = (rules', w', Inr ())"
proof (induction rules ps w rule: poll_results.induct)
  case (3 r rs p ps w)
  obtain w1 where c: "ru_cancel r w = (w1, Inr ())" using 3 by (metis list.set_intros(1) prod.collapse well_behaved_def)
  obtain w2 where d: "ru_callback r w = (w2, Inr ())" using 3 by (metis list.set_intros(1) prod.collapse well_behaved_def)
  have e: "service_count r w2 \<noteq> service_count r w \<or> ru_interest r w2 = Inr False" using 3 d by (metis fst_conv list.set_intros(1) well_behaved_def)
  have rs: "\<forall>r \<in> set rs. well_behaved r" "length rs = length ps" "\<forall>p \<in> set ps. \<not> poll_error p" "\<not> poll_error p" using 3(4-) by auto
  consider "poll_hup p \<and> pf_events p \<noteq> 0 \<and> \<not> poll_ready p" | "poll_ready p" | "\<not> (poll_hup p \<and> pf_events p \<noteq> 0)" "\<not> poll_ready p" by blast
  then show ?case
  proof cases
    case 1
    then show ?thesis using c rs "3.IH"(1) by auto
  next
    case 2
    then obtain rules' w' where "poll_results rs ps w2 = (rules', w', Inr ())" using d rs "3.IH"(2) e by force
    then show ?thesis using 2 d e rs by auto
  next
    case 3
    then obtain rules' w' where "poll_results rs ps w = (rules', w', Inr ())" using rs "3.IH"(3) by auto
    then show ?thesis using 3 rs by auto
  qed
qed auto

text \<open>If every rule obeys the documented contract (its callback reads or writes its descriptor or loses interest) and no
  descriptor is in error, \<^verbatim>\<open>wait_next_event\<close> never throws, in particular never reports a busy wait, and no rule is added or
  moved.\<close>

theorem wait_next_event_no_throw:
  assumes "\<forall>r \<in> set rules. well_behaved r"
    and "\<forall>ps w w' a revents i. poll ps t w = (w', a, revents) \<longrightarrow> revents i AND (POLLERR OR POLLNVAL) = 0"
  shows "\<exists>rules' w' result. wait_next_event poll t (rules, w) = ((rules', w'), Inr result) \<and> subseq rules' rules"
proof -
  obtain rules1 w1 pollfds b where s: "poll_setup rules w [] False = (rules1, w1, Inr (pollfds, b))"
    using poll_setup_total [OF assms(1)] by (metis prod.exhaust)
  obtain w2 v e revents where p: "poll pollfds t w1 = (w2, (v, e), revents)" by (metis prod.exhaust)
  have sub: "subseq rules1 rules" by (rule poll_setup_subseq [OF s])
  have "\<forall>p \<in> set (set_revents revents pollfds). \<not> poll_error p"
    using assms(2) p by (fastforce simp: set_revents_def poll_error_def in_set_enumerate_eq)
  moreover have "length rules1 = length (set_revents revents pollfds)" using poll_setup_length [OF s] by simp
  moreover have "\<forall>r \<in> set rules1. well_behaved r" using assms(1) sub by (auto dest: subseq_set)
  ultimately obtain rules2 w3 where r: "poll_results rules1 (set_revents revents pollfds) w2 = (rules2, w3, Inr ())"
    using poll_results_total [of rules1 "set_revents revents pollfds" w2] by blast
  have "subseq rules2 rules" using poll_results_subseq [OF r] sub by (rule subseq_order.trans)
  then show ?thesis using s p r sub by (auto simp: wait_next_event_def SystemCall_def)
qed

text \<open>A rule for examples: the state is one descriptor, which the callback reads.\<close>

definition reading_rule :: "fd_wrapper rule" where
  "reading_rule = \<lparr>ru_fd = id, ru_direction = Dir_In, ru_callback = (\<lambda>f. (register_read f, Inr ())),
     ru_interest = always, ru_cancel = no_cancel\<rparr>"

theorem wait_next_event_no_throw_witness:
  "\<exists>rules' w' result. wait_next_event (\<lambda>ps t w. (w, (1, 0), \<lambda>i. POLLIN)) 10
     ([reading_rule], \<lparr>fw_fd = 3, fw_eof = False, fw_closed = False, fw_read_count = 0, fw_write_count = 0\<rparr>) =
     ((rules', w'), Inr result) \<and> subseq rules' [reading_rule]"
proof (rule wait_next_event_no_throw)
  show "\<forall>r \<in> set [reading_rule]. well_behaved r"
    by (auto simp: well_behaved_def reading_rule_def service_count_def always_def no_cancel_def register_read_def)
  show "\<forall>ps w w' a revents i. (w, (1, 0), \<lambda>i. POLLIN) = (w', a, revents) \<longrightarrow> revents i AND (POLLERR OR POLLNVAL) = 0"
    by (auto simp: POLLIN_def POLLERR_def POLLNVAL_def)
qed

lemma poll_results_idle:
  assumes "length rules = length ps" "\<forall>p \<in> set ps. pf_revents p = 0"
  shows "poll_results rules ps w = (rules, w, Inr ())"
  using assms
proof (induction rules ps rule: list_induct2)
  case (Cons r rs p ps)
  then show ?case by (simp add: poll_error_def poll_hup_def poll_ready_def)
qed simp

text \<open>A failure of \<^verbatim>\<open>poll(2)\<close> other than an interruption is not reported: the exception of \<^verbatim>\<open>SystemCall\<close> is caught,
  and the call returns \<^verbatim>\<open>Success\<close> although no callback has run.\<close>

theorem poll_failure_returns_success:
  assumes "poll_setup rules w [] False = (rules1, w1, Inr (pollfds, True))"
    and "poll pollfds t w1 = (w2, (- 1, e), \<lambda>i. 0)" and "e \<noteq> EINTR"
  shows "wait_next_event poll t (rules, w) = ((rules1, w2), Inr Success)"
proof -
  have "poll_results rules1 (set_revents (\<lambda>i. 0) pollfds) w2 = (rules1, w2, Inr ())"
    using poll_setup_length [OF assms(1)] by (intro poll_results_idle) (auto simp: set_revents_def)
  then show ?thesis using assms by (simp add: wait_next_event_def SystemCall_def)
qed

theorem poll_failure_returns_success_witness:
  "wait_next_event (\<lambda>ps t w. (w, (- 1, 22), \<lambda>i. 0)) 10
     ([reading_rule], \<lparr>fw_fd = 3, fw_eof = False, fw_closed = False, fw_read_count = 0, fw_write_count = 0\<rparr>) =
     (([reading_rule], \<lparr>fw_fd = 3, fw_eof = False, fw_closed = False, fw_read_count = 0, fw_write_count = 0\<rparr>), Inr Success)"
proof (rule poll_failure_returns_success [where e = 22])
  show "poll_setup [reading_rule] \<lparr>fw_fd = 3, fw_eof = False, fw_closed = False, fw_read_count = 0, fw_write_count = 0\<rparr> [] False =
      ([reading_rule], \<lparr>fw_fd = 3, fw_eof = False, fw_closed = False, fw_read_count = 0, fw_write_count = 0\<rparr>,
       Inr ([\<lparr>pf_fd = 3, pf_events = POLLIN, pf_revents = 0\<rparr>], True))"
    by (simp add: reading_rule_def always_def direction_events_def)
  show "(22 :: int) \<noteq> EINTR" by (simp add: EINTR_def)
qed simp

end
