(* ===== verification/Sponge_Socket.thy ===== *)
theory Sponge_Socket
  imports Connection_Link Devices Event_Loop
begin

text \<open>
  \<^verbatim>\<open>libsponge/tcp_helpers/tcp_sponge_socket.{hh,cc}\<close>: the thread that runs a \<^verbatim>\<open>TCPConnection\<close> between an application, at the other end of
  a local stream socket, and an adapter for datagrams.  The four rules are given to the event loop of the theory \<open>Event_Loop\<close>.
  The class is a template over the adapter, here a value of \<open>adapter_ops\<close>.  The
  system is a parameter, as in \<open>File_Descriptor\<close>; the owner's thread belongs to it, so that \<^verbatim>\<open>_abort\<close> is read from its state.  A loop that
  may run forever is a \<open>partial_function\<close> into \<open>option\<close>.  The debugging output is left out, but not the
  call to \<^verbatim>\<open>to_string\<close> in it, which may throw.
\<close>

record 'k sys = "'k net_kernel" +
  k_poll :: "pollfd list \<Rightarrow> int \<Rightarrow> 'k \<Rightarrow> 'k \<times> sys_result \<times> (nat \<Rightarrow> u16)"
  k_timestamp_ms :: "'k \<Rightarrow> 'k \<times> nat"
  k_random_device :: "'k \<Rightarrow> 'k \<times> u32"
  k_abort :: "'k \<Rightarrow> bool"

record ('a, 'k) sponge =
  ss_owner :: fd_wrapper
  ss_thread_data :: fd_wrapper
  ss_datagram_adapter :: 'a
  ss_tcp :: "tcp_connection option"
  ss_tcp_thread :: bool
  ss_inbound_shutdown :: bool
  ss_outbound_shutdown :: bool
  ss_fully_acked :: bool
  ss_sys :: 'k

text \<open>An operation on the socket to the owner, and one on the adapter.\<close>

definition on_thread_data :: "(fd_wrapper \<times> 'k \<Rightarrow> (fd_wrapper \<times> 'k) \<times> (exn + 'x)) \<Rightarrow> ('a, 'k) sponge \<Rightarrow> ('a, 'k) sponge \<times> (exn + 'x)" where
  "on_thread_data m s = (let ((f, k), r) = m (ss_thread_data s, ss_sys s) in (s\<lparr>ss_thread_data := f, ss_sys := k\<rparr>, r))"

definition on_adapter :: "('a \<times> 'k \<Rightarrow> ('a \<times> 'k) \<times> (exn + 'x)) \<Rightarrow> ('a, 'k) sponge \<Rightarrow> ('a, 'k) sponge \<times> (exn + 'x)" where
  "on_adapter m s = (let ((a, k), r) = m (ss_datagram_adapter s, ss_sys s) in (s\<lparr>ss_datagram_adapter := a, ss_sys := k\<rparr>, r))"

definition no_tcp :: exn where
  "no_tcp = Undefined_behaviour ''operator-> on an empty optional''"

definition bad_optional_access :: exn where
  "bad_optional_access = Runtime_error ''bad optional access''"

definition peer_name :: "('a, 'k) adapter_ops \<Rightarrow> namer \<Rightarrow> ('a, 'k) sponge \<Rightarrow> exn + string" where
  "peer_name A gni s = address_to_string gni (fa_destination (at_config A (ss_datagram_adapter s)))"

subsection \<open>The four rules\<close>

text \<open>Rule 1: a datagram from the network.\<close>

definition datagram_callback :: "('a, 'k) adapter_ops \<Rightarrow> namer \<Rightarrow> ('a, 'k) sponge \<Rightarrow> ('a, 'k) sponge \<times> (exn + unit)" where
  "datagram_callback A gni s =
     call_on (on_adapter (at_read A) s) (\<lambda>s seg.
     call_on (case (seg, ss_tcp s) of
                (None, _) \<Rightarrow> (s, Inr ())
              | (Some _, None) \<Rightarrow> (s, Inl no_tcp)
              | (Some seg, Some c) \<Rightarrow> (s\<lparr>ss_tcp := Some (cn_segment_received seg c)\<rparr>, Inr ())) (\<lambda>s _.
     if fw_eof (ss_thread_data s)
     then (case ss_tcp s of
             None \<Rightarrow> (s, Inl bad_optional_access)
           | Some c \<Rightarrow> if cn_bytes_in_flight c = 0 \<and> \<not> ss_fully_acked s
                       then call s (peer_name A gni s) (\<lambda>_. (s\<lparr>ss_fully_acked := True\<rparr>, Inr ()))
                       else (s, Inr ()))
     else (s, Inr ())))"

definition datagram_interest :: "('a, 'k) sponge \<Rightarrow> exn + bool" where
  "datagram_interest s = (case ss_tcp s of None \<Rightarrow> Inl no_tcp | Some c \<Rightarrow> Inr (cn_active c))"

text \<open>Rule 2: bytes from the owner.\<close>

definition outbound_callback :: "('k, 'z) net_kernel_scheme \<Rightarrow> ('a, 'k) adapter_ops \<Rightarrow> namer \<Rightarrow> ('a, 'k) sponge \<Rightarrow> ('a, 'k) sponge \<times> (exn + unit)" where
  "outbound_callback K A gni s =
     (case ss_tcp s of
        None \<Rightarrow> (s, Inl no_tcp)
      | Some c \<Rightarrow>
          call_on (on_thread_data (fd_read K (cn_remaining_outbound_capacity c)) s) (\<lambda>s data.
          let (c, amount_written) = cn_write data c; s = s\<lparr>ss_tcp := Some c\<rparr>
          in if amount_written \<noteq> length data
             then (s, Inl (Runtime_error ''TCPConnection::write() accepted less than advertised length''))
             else if fw_eof (ss_thread_data s)
             then (let s = s\<lparr>ss_tcp := Some (cn_end_input_stream c), ss_outbound_shutdown := True\<rparr>
                   in call s (peer_name A gni s) (\<lambda>_. (s, Inr ())))
             else (s, Inr ())))"

definition outbound_interest :: "('a, 'k) sponge \<Rightarrow> exn + bool" where
  "outbound_interest s =
     (case ss_tcp s of
        None \<Rightarrow> Inl no_tcp
      | Some c \<Rightarrow> Inr (cn_active c \<and> \<not> ss_outbound_shutdown s \<and> cn_remaining_outbound_capacity c > 0))"

definition outbound_cancel :: "('a, 'k) sponge \<Rightarrow> ('a, 'k) sponge \<times> (exn + unit)" where
  "outbound_cancel s =
     (case ss_tcp s of
        None \<Rightarrow> (s, Inl no_tcp)
      | Some c \<Rightarrow> (s\<lparr>ss_tcp := Some (cn_end_input_stream c), ss_outbound_shutdown := True\<rparr>, Inr ()))"

text \<open>Rule 3: reassembled bytes to the owner; only what was written is popped.\<close>

definition inbound_callback :: "('k, 'z) net_kernel_scheme \<Rightarrow> ('a, 'k) adapter_ops \<Rightarrow> namer \<Rightarrow> ('a, 'k) sponge \<Rightarrow> ('a, 'k) sponge \<times> (exn + unit)" where
  "inbound_callback K A gni s =
     (case ss_tcp s of
        None \<Rightarrow> (s, Inl no_tcp)
      | Some c \<Rightarrow>
          (let inbound = cn_inbound_stream c;
               amount_to_write = min 65536 (bs_buffer_size inbound);
               buffer = bs_peek_output amount_to_write inbound
           in call_on (on_thread_data (fd_write_string K buffer False) s) (\<lambda>s bytes_written.
              let inbound = bs_pop_output bytes_written inbound; s = s\<lparr>ss_tcp := Some (set_inbound inbound c)\<rparr>
              in if bs_eof inbound \<or> bs_error inbound
                 then call_on (on_thread_data (socket_shutdown K SHUT_WR) s) (\<lambda>s _.
                      let s = s\<lparr>ss_inbound_shutdown := True\<rparr> in call s (peer_name A gni s) (\<lambda>_. (s, Inr ())))
                 else (s, Inr ()))))"

definition inbound_interest :: "('a, 'k) sponge \<Rightarrow> exn + bool" where
  "inbound_interest s =
     (case ss_tcp s of
        None \<Rightarrow> Inl no_tcp
      | Some c \<Rightarrow> Inr (\<not> bs_buffer_empty (cn_inbound_stream c) \<or>
          (bs_eof (cn_inbound_stream c) \<or> bs_error (cn_inbound_stream c)) \<and> \<not> ss_inbound_shutdown s))"

text \<open>Rule 4: segments to the network.  \<^verbatim>\<open>write\<close> changes the segment at the front of the queue; it is popped when the write has returned.\<close>

fun send_segments :: "('a, 'k) adapter_ops \<Rightarrow> tcp_segment list \<Rightarrow> 'a \<times> 'k \<Rightarrow> tcp_segment list \<times> ('a \<times> 'k) \<times> (exn + unit)" where
  "send_segments A [] x = ([], x, Inr ())"
| "send_segments A (seg # segs) x =
     (case at_write A seg x of
        (seg, x, Inl e) \<Rightarrow> (seg # segs, x, Inl e)
      | (seg, x, Inr _) \<Rightarrow> send_segments A segs x)"

definition segments_callback :: "('a, 'k) adapter_ops \<Rightarrow> ('a, 'k) sponge \<Rightarrow> ('a, 'k) sponge \<times> (exn + unit)" where
  "segments_callback A s =
     (case ss_tcp s of
        None \<Rightarrow> (s, Inl no_tcp)
      | Some c \<Rightarrow>
          (let (segs, (a, k), r) = send_segments A (cn_segments_out c) (ss_datagram_adapter s, ss_sys s)
           in (s\<lparr>ss_tcp := Some (c\<lparr>cn_segments_out := segs\<rparr>), ss_datagram_adapter := a, ss_sys := k\<rparr>, r)))"

definition segments_interest :: "('a, 'k) sponge \<Rightarrow> exn + bool" where
  "segments_interest s = (case ss_tcp s of None \<Rightarrow> Inl no_tcp | Some c \<Rightarrow> Inr (cn_segments_out c \<noteq> []))"

definition sponge_rules :: "('k, 'z) net_kernel_scheme \<Rightarrow> ('a, 'k) adapter_ops \<Rightarrow> namer \<Rightarrow> ('a, 'k) sponge rule list \<Rightarrow> ('a, 'k) sponge rule list" where
  "sponge_rules K A gni rules =
     (let rules = add_rule (\<lambda>s. at_fd A (ss_datagram_adapter s)) Dir_In (datagram_callback A gni) datagram_interest no_cancel rules;
          rules = add_rule ss_thread_data Dir_In (outbound_callback K A gni) outbound_interest outbound_cancel rules;
          rules = add_rule ss_thread_data Dir_Out (inbound_callback K A gni) inbound_interest no_cancel rules
      in add_rule (\<lambda>s. at_fd A (ss_datagram_adapter s)) Dir_Out (segments_callback A) segments_interest no_cancel rules)"

text \<open>\<^verbatim>\<open>_initialize_TCP\<close>.  The sender asks the random device for a number whether the initial sequence number is fixed or not.\<close>

definition initialize_TCP :: "('k, 'z) sys_scheme \<Rightarrow> ('a, 'k) adapter_ops \<Rightarrow> namer \<Rightarrow> tcp_config \<Rightarrow>
    ('a, 'k) sponge rule list \<times> ('a, 'k) sponge \<Rightarrow> ('a, 'k) sponge rule list \<times> ('a, 'k) sponge" where
  "initialize_TCP K A gni cfg x =
     (let (rules, s) = x; (k, rnd) = k_random_device K (ss_sys s)
      in (sponge_rules K A gni rules, s\<lparr>ss_tcp := Some (tcp_connection_new cfg rnd), ss_sys := k\<rparr>))"

subsection \<open>The loop\<close>

definition TCP_TICK_MS :: int where
  "TCP_TICK_MS = 10"

definition socket_poll :: "('k, 'z) sys_scheme \<Rightarrow> ('a, 'k) sponge poll_fun" where
  "socket_poll K ps t s = (let (k, r, revents) = k_poll K ps t (ss_sys s) in (s\<lparr>ss_sys := k\<rparr>, r, revents))"

text \<open>The body of the loop of \<^verbatim>\<open>_tcp_loop\<close>: \<open>None\<close> for \<^verbatim>\<open>break\<close>, else the new \<^verbatim>\<open>base_time\<close>.\<close>

definition tcp_iteration :: "('k, 'z) sys_scheme \<Rightarrow> ('a, 'k) adapter_ops \<Rightarrow> nat \<Rightarrow>
    ('a, 'k) sponge rule list \<times> ('a, 'k) sponge \<Rightarrow> (('a, 'k) sponge rule list \<times> ('a, 'k) sponge) \<times> (exn + nat option)" where
  "tcp_iteration K A base_time x =
     call_on (wait_next_event (socket_poll K) TCP_TICK_MS x) (\<lambda>x ret.
     let (rules, s) = x
     in if ret = Exit \<or> k_abort K (ss_sys s) then (x, Inr None)
        else (case ss_tcp s of
                None \<Rightarrow> (x, Inl bad_optional_access)
              | Some c \<Rightarrow>
                  if cn_active c
                  then (let (k, next_time) = k_timestamp_ms K (ss_sys s); ms = sub64 next_time base_time;
                            s = s\<lparr>ss_sys := k, ss_tcp := Some (cn_tick ms c)\<rparr>;
                            (s, r) = on_adapter (at_tick A ms) s
                        in ((rules, s), map_sum id (\<lambda>_. Some next_time) r))
                  else (x, Inr (Some base_time))))"

partial_function (option) tcp_loop_from :: "('k, 'z) sys_scheme \<Rightarrow> ('a, 'k) adapter_ops \<Rightarrow> (('a, 'k) sponge \<Rightarrow> exn + bool) \<Rightarrow> nat \<Rightarrow>
    ('a, 'k) sponge rule list \<times> ('a, 'k) sponge \<Rightarrow> ((('a, 'k) sponge rule list \<times> ('a, 'k) sponge) \<times> (exn + unit)) option" where
  "tcp_loop_from K A condition base_time x =
     (case condition (snd x) of
        Inl e \<Rightarrow> Some (x, Inl e)
      | Inr b \<Rightarrow>
          if b
          then (case tcp_iteration K A base_time x of
                  (x, Inl e) \<Rightarrow> Some (x, Inl e)
                | (x, Inr r) \<Rightarrow> (case r of None \<Rightarrow> Some (x, Inr ()) | Some t \<Rightarrow> tcp_loop_from K A condition t x))
          else Some (x, Inr ()))"

definition tcp_loop :: "('k, 'z) sys_scheme \<Rightarrow> ('a, 'k) adapter_ops \<Rightarrow> (('a, 'k) sponge \<Rightarrow> exn + bool) \<Rightarrow>
    ('a, 'k) sponge rule list \<times> ('a, 'k) sponge \<Rightarrow> ((('a, 'k) sponge rule list \<times> ('a, 'k) sponge) \<times> (exn + unit)) option" where
  "tcp_loop K A condition x =
     (let (rules, s) = x; (k, base_time) = k_timestamp_ms K (ss_sys s)
      in tcp_loop_from K A condition base_time (rules, s\<lparr>ss_sys := k\<rparr>))"

text \<open>The state of the connection is one of the given ones.\<close>

definition tcp_state_in :: "official_state list \<Rightarrow> ('a, 'k) sponge \<Rightarrow> exn + bool" where
  "tcp_state_in states s =
     (case ss_tcp s of
        None \<Rightarrow> Inl no_tcp
      | Some c \<Rightarrow> Inr (list_ex (\<lambda>st. tcp_state_eq (cn_state c) (tcp_state_of st)) states))"

text \<open>What \<^verbatim>\<open>connect\<close> and \<^verbatim>\<open>listen_and_accept\<close> do after the loop: print the name of the peer and start the thread.\<close>

definition start_thread :: "(('a, 'k) sponge \<Rightarrow> exn + string) \<Rightarrow> ((('a, 'k) sponge rule list \<times> ('a, 'k) sponge) \<times> (exn + unit)) option \<Rightarrow>
    ((('a, 'k) sponge rule list \<times> ('a, 'k) sponge) \<times> (exn + unit)) option" where
  "start_thread name r =
     (case r of
        None \<Rightarrow> None
      | Some (x, Inl e) \<Rightarrow> Some (x, Inl e)
      | Some ((rules, s), Inr _) \<Rightarrow> Some (call (rules, s) (name s) (\<lambda>_. ((rules, s\<lparr>ss_tcp_thread := True\<rparr>), Inr ()))))"

definition sponge_connect :: "('k, 'z) sys_scheme \<Rightarrow> ('a, 'k) adapter_ops \<Rightarrow> namer \<Rightarrow> tcp_config \<Rightarrow> fd_adapter_config \<Rightarrow>
    ('a, 'k) sponge rule list \<times> ('a, 'k) sponge \<Rightarrow> ((('a, 'k) sponge rule list \<times> ('a, 'k) sponge) \<times> (exn + unit)) option" where
  "sponge_connect K A gni c_tcp c_ad x =
     (if ss_tcp (snd x) \<noteq> None then Some (x, Inl (Runtime_error ''connect() with TCPConnection already initialized''))
      else
        (let (rules, s) = initialize_TCP K A gni c_tcp x;
             s = s\<lparr>ss_datagram_adapter := at_set_config A c_ad (ss_datagram_adapter s)\<rparr>
         in case (address_to_string gni (fa_destination c_ad), ss_tcp s) of
              (Inl e, _) \<Rightarrow> Some ((rules, s), Inl e)
            | (Inr _, None) \<Rightarrow> Some ((rules, s), Inl no_tcp)
            | (Inr _, Some c) \<Rightarrow>
                (let c = cn_connect c; s = s\<lparr>ss_tcp := Some c\<rparr>; expected_state = tcp_state_of SYN_SENT
                 in if \<not> tcp_state_eq (cn_state c) expected_state
                    then Some ((rules, s), Inl (Runtime_error (''After TCPConnection::connect(), state was '' @ tcp_state_name (cn_state c) @
                           '' but expected '' @ tcp_state_name expected_state)))
                    else start_thread (\<lambda>_. address_to_string gni (fa_destination c_ad))
                           (tcp_loop K A (tcp_state_in [SYN_SENT]) (rules, s)))))"

definition listen_and_accept :: "('k, 'z) sys_scheme \<Rightarrow> ('a, 'k) adapter_ops \<Rightarrow> namer \<Rightarrow> tcp_config \<Rightarrow> fd_adapter_config \<Rightarrow>
    ('a, 'k) sponge rule list \<times> ('a, 'k) sponge \<Rightarrow> ((('a, 'k) sponge rule list \<times> ('a, 'k) sponge) \<times> (exn + unit)) option" where
  "listen_and_accept K A gni c_tcp c_ad x =
     (if ss_tcp (snd x) \<noteq> None then Some (x, Inl (Runtime_error ''listen_and_accept() with TCPConnection already initialized''))
      else
        (let (rules, s) = initialize_TCP K A gni c_tcp x;
             s = s\<lparr>ss_datagram_adapter := at_set_listening A True (at_set_config A c_ad (ss_datagram_adapter s))\<rparr>
         in start_thread (peer_name A gni) (tcp_loop K A (tcp_state_in [LISTEN, SYN_RCVD, SYN_SENT]) (rules, s))))"

text \<open>The thread.  \<^verbatim>\<open>reset\<close> destroys the connection; the owner's end of the socket is shut down before.\<close>

definition tcp_main :: "('k, 'z) sys_scheme \<Rightarrow> ('a, 'k) adapter_ops \<Rightarrow>
    ('a, 'k) sponge rule list \<times> ('a, 'k) sponge \<Rightarrow> ((('a, 'k) sponge rule list \<times> ('a, 'k) sponge) \<times> (exn + unit)) option" where
  "tcp_main K A x =
     (if ss_tcp (snd x) = None then Some (x, Inl (Runtime_error ''no TCP''))
      else (case tcp_loop K A (\<lambda>_. Inr True) x of
              None \<Rightarrow> None
            | Some (x, Inl e) \<Rightarrow> Some (x, Inl e)
            | Some ((rules, s), Inr _) \<Rightarrow>
                (let ((f, k), r) = socket_shutdown K SHUT_RDWR (ss_owner s, ss_sys s);
                     s = s\<lparr>ss_owner := f, ss_sys := k\<rparr>
                 in Some (call (rules, s) r (\<lambda>_. case ss_tcp s of
                      None \<Rightarrow> ((rules, s), Inl bad_optional_access)
                    | Some _ \<Rightarrow> ((rules, s\<lparr>ss_tcp := None\<rparr>), Inr ()))))))"

subsection \<open>Construction\<close>

definition socket_pair_helper :: "('k, 'z) net_kernel_scheme \<Rightarrow> int \<Rightarrow> 'k \<Rightarrow> 'k \<times> (exn + fd_wrapper \<times> fd_wrapper)" where
  "socket_pair_helper K type k =
     (let (k, r, fd0, fd1) = k_socketpair K AF_UNIX type k
      in call k (SystemCall ''socketpair'' r 0) (\<lambda>_.
         call k (fd_new fd0) (\<lambda>f0. call (snd (fd_destroy K (f0, k))) (fd_new fd1) (\<lambda>f1. (k, Inr (f0, f1))))))"

text \<open>A call that throws leaves both ends of the pair to their destructors; the adapter still belongs to the caller.\<close>

definition sponge_new :: "('k, 'z) net_kernel_scheme \<Rightarrow> 'a \<Rightarrow> 'k \<Rightarrow> 'k \<times> (exn + ('a, 'k) sponge)" where
  "sponge_new K adapter k =
     call_on (socket_pair_helper K SOCK_STREAM k) (\<lambda>k fds.
     let (f0, f1) = fds; ((f0, k), r0) = local_stream_socket_of_fd K (f0, k)
     in call (snd (fd_destroy K (f1, snd (fd_destroy K (f0, k))))) r0 (\<lambda>_.
     let ((f1, k), r1) = local_stream_socket_of_fd K (f1, k)
     in call (snd (fd_destroy K (f0, snd (fd_destroy K (f1, k))))) r1 (\<lambda>_.
     let ((f1, k), r2) = set_blocking K False (f1, k)
     in call (snd (fd_destroy K (f0, snd (fd_destroy K (f1, k))))) r2 (\<lambda>_.
       (k, Inr \<lparr>ss_owner = f0, ss_thread_data = f1, ss_datagram_adapter = adapter, ss_tcp = None,
          ss_tcp_thread = False, ss_inbound_shutdown = False, ss_outbound_shutdown = False, ss_fully_acked = False, ss_sys = k\<rparr>)))))"

text \<open>\<^verbatim>\<open>CS144TCPSocket\<close> and \<^verbatim>\<open>FullStackSocket\<close>: the configuration and the addresses.\<close>

definition LOCAL_TUN_IP_ADDRESS :: string where
  "LOCAL_TUN_IP_ADDRESS = ''169.254.144.9''"

definition LOCAL_TAP_IP_ADDRESS :: string where
  "LOCAL_TAP_IP_ADDRESS = ''169.254.10.9''"

definition LOCAL_TAP_NEXT_HOP_ADDRESS :: string where
  "LOCAL_TAP_NEXT_HOP_ADDRESS = ''169.254.10.1''"

definition local_connect :: "('k, 'z) sys_scheme \<Rightarrow> ('a, 'k) adapter_ops \<Rightarrow> resolver \<Rightarrow> namer \<Rightarrow> string \<Rightarrow> address \<Rightarrow>
    ('a, 'k) sponge rule list \<times> ('a, 'k) sponge \<Rightarrow> ((('a, 'k) sponge rule list \<times> ('a, 'k) sponge) \<times> (exn + unit)) option" where
  "local_connect K A gai gni local_ip address x =
     (case fd_adapter_config_new gai of
        Inl e \<Rightarrow> Some (x, Inl e)
      | Inr multiplexer_config \<Rightarrow>
          (let (rules, s) = x; (k, rnd) = k_random_device K (ss_sys s); x = (rules, s\<lparr>ss_sys := k\<rparr>)
           in case address_of_host gai local_ip (to_string (unat (ucast rnd :: u16))) of
                Inl e \<Rightarrow> Some (x, Inl e)
              | Inr src \<Rightarrow> sponge_connect K A gni (tcp_config_default\<lparr>cfg_rt_timeout := 100\<rparr>)
                  (multiplexer_config\<lparr>fa_source := src, fa_destination := address\<rparr>) x))"

definition cs144_connect :: "('k, 'z) sys_scheme \<Rightarrow> resolver \<Rightarrow> namer \<Rightarrow> address \<Rightarrow>
    (fd_wrapper \<times> fd_adapter_base, 'k) sponge rule list \<times> (fd_wrapper \<times> fd_adapter_base, 'k) sponge \<Rightarrow>
    (((fd_wrapper \<times> fd_adapter_base, 'k) sponge rule list \<times> (fd_wrapper \<times> fd_adapter_base, 'k) sponge) \<times> (exn + unit)) option" where
  "cs144_connect K gai gni = local_connect K (tun_ops K gai gni) gai gni LOCAL_TUN_IP_ADDRESS"

definition full_stack_connect :: "('k, 'z) sys_scheme \<Rightarrow> resolver \<Rightarrow> namer \<Rightarrow> address \<Rightarrow>
    (fd_wrapper \<times> ethernet_adapter, 'k) sponge rule list \<times> (fd_wrapper \<times> ethernet_adapter, 'k) sponge \<Rightarrow>
    (((fd_wrapper \<times> ethernet_adapter, 'k) sponge rule list \<times> (fd_wrapper \<times> ethernet_adapter, 'k) sponge) \<times> (exn + unit)) option" where
  "full_stack_connect K gai gni = local_connect K (tap_ops K gai gni) gai gni LOCAL_TAP_IP_ADDRESS"

text \<open>Six numbers of the random device, the first byte marked as a private address.\<close>

definition random_byte :: "('k, 'z) sys_scheme \<Rightarrow> 'k \<Rightarrow> 'k \<times> byte" where
  "random_byte K k = (let (k, x) = k_random_device K k in (k, ucast x))"

definition random_private_ethernet_address :: "('k, 'z) sys_scheme \<Rightarrow> 'k \<Rightarrow> 'k \<times> ethernet_address" where
  "random_private_ethernet_address K k =
     (let (k, a) = random_byte K k; (k, b) = random_byte K k; (k, c) = random_byte K k;
          (k, d) = random_byte K k; (k, e) = random_byte K k; (k, f) = random_byte K k;
          a = a OR 0x02; a = a AND 0xfe
      in (k, EthernetAddress a b c d e f))"

text \<open>The constructors.  When one throws after the device was opened, the descriptor is closed.\<close>

definition cs144_new :: "('k, 'z) sys_scheme \<Rightarrow> resolver \<Rightarrow> 'k \<Rightarrow> 'k \<times> (exn + (fd_wrapper \<times> fd_adapter_base, 'k) sponge)" where
  "cs144_new K gai k =
     call_on (tun_tap_new K (map of_char ''tun144'') True k) (\<lambda>k f.
     call (snd (fd_destroy K (f, k))) (tun_adapter_new gai f) (\<lambda>adapter.
     case sponge_new K adapter k of
       (k, Inl e) \<Rightarrow> (snd (fd_destroy K (f, k)), Inl e)
     | (k, Inr s) \<Rightarrow> (k, Inr s)))"

definition full_stack_new :: "('k, 'z) sys_scheme \<Rightarrow> resolver \<Rightarrow> 'k \<Rightarrow> 'k \<times> (exn + (fd_wrapper \<times> ethernet_adapter, 'k) sponge)" where
  "full_stack_new K gai k =
     call_on (tun_tap_new K (map of_char ''tap10'') False k) (\<lambda>k f.
     let (k, eth_address) = random_private_ethernet_address K k
     in call (snd (fd_destroy K (f, k))) (address_of_host gai LOCAL_TAP_IP_ADDRESS ''0'') (\<lambda>ip_address.
        call (snd (fd_destroy K (f, k))) (address_of_host gai LOCAL_TAP_NEXT_HOP_ADDRESS ''0'') (\<lambda>next_hop.
        case tap_adapter_new K gai eth_address ip_address next_hop (f, k) of
          ((f, k), Inl e) \<Rightarrow> (snd (fd_destroy K (f, k)), Inl e)
        | ((f, k), Inr adapter) \<Rightarrow>
            (case sponge_new K adapter k of
               (k, Inl e) \<Rightarrow> (snd (fd_destroy K (f, k)), Inl e)
             | (k, Inr s) \<Rightarrow> (k, Inr s)))))"

text \<open>The address is unicast (bit 0 of the first byte) and locally administered (bit 1).\<close>

lemma random_private_ethernet_address_private:
  assumes "random_private_ethernet_address K k = (k', EthernetAddress a b c d e f)"
  shows "\<not> bit a 0" "bit a 1"
proof -
  obtain x where a: "a = (x OR 0x02) AND 0xfe"
    using assms by (auto simp: random_private_ethernet_address_def Let_def split: prod.splits)
  have m: "\<not> bit (0xfe :: byte) 0" "bit (0xfe :: byte) 1" "bit (2 :: byte) 1" by (simp_all add: bit_numeral_rec)
  show "\<not> bit a 0" "bit a 1" using a m by (simp_all add: bit_and_iff bit_or_iff)
qed

subsection \<open>The segments of the connection as the adapter leaves them\<close>

lemma link_segments:
  assumes l: "link_ok S i c W out e"
    and segs: "\<forall>seg \<in> set segs. \<exists>seg0 \<in> set (cn_segments_out c). \<exists>sp dp. seg = with_ports sp dp seg0"
  shows "link_ok S i (c\<lparr>cn_segments_out := segs\<rparr>) W out e"
proof -
  have ok: "emitted_ok W b isn (with_ports sp dp seg) = emitted_ok W b isn seg" for b isn sp dp seg
    by (simp add: emitted_ok_def sent_seg_def length_in_sequence_space_def with_ports_def)
  have "th_rst (sg_header seg) \<or> emitted_ok W (bs_inputEnd (sd_stream (cn_sender c))) (sd_isn (cn_sender c)) seg"
    if "seg \<in> set segs" for seg
    using that segs l ok by (fastforce simp: link_ok_def cn_inv_def)
  then show ?thesis using l by (simp add: link_ok_def cn_inv_def)
qed

subsection \<open>The invariant of the socket\<close>

definition owner_wrote :: "(int \<Rightarrow> 'k \<Rightarrow> bytes) \<Rightarrow> ('a, 'k) sponge \<Rightarrow> bytes" where
  "owner_wrote got s = got (fw_fd (ss_thread_data s)) (ss_sys s)"

definition owner_given :: "(int \<Rightarrow> 'k \<Rightarrow> bytes) \<Rightarrow> ('a, 'k) sponge \<Rightarrow> bytes" where
  "owner_given sent s = sent (fw_fd (ss_thread_data s)) (ss_sys s)"

text \<open>
  The system and the adapter keep their contracts, waiting moves no bytes, and what the adapter reads are segments of the
  stream \<open>S\<close>, in any order and any number of times, or segments without content.
\<close>

definition world_ok :: "bytes \<Rightarrow> wrapping_int32 \<Rightarrow> ('k, 'z) sys_scheme \<Rightarrow> ('a, 'k) adapter_ops \<Rightarrow>
    (int \<Rightarrow> 'k \<Rightarrow> bytes) \<Rightarrow> (int \<Rightarrow> 'k \<Rightarrow> bytes) \<Rightarrow> bool" where
  "world_ok S i K A got sent \<longleftrightarrow>
     length S < 2147483647 \<and> io_spec K got sent \<and> adapter_spec A got sent \<and>
     (\<forall>ps t k. quiet got sent k (fst (k_poll K ps t k))) \<and> (\<forall>k. quiet got sent k (fst (k_timestamp_ms K k))) \<and>
     (\<forall>x seg. snd (at_read A x) = Inr (Some seg) \<longrightarrow> incoming S i seg)"

definition sponge_inv :: "bytes \<Rightarrow> wrapping_int32 \<Rightarrow> ('k, 'z) sys_scheme \<Rightarrow> ('a, 'k) adapter_ops \<Rightarrow>
    (int \<Rightarrow> 'k \<Rightarrow> bytes) \<Rightarrow> (int \<Rightarrow> 'k \<Rightarrow> bytes) \<Rightarrow> ('a, 'k) sponge \<Rightarrow> bool" where
  "sponge_inv S i K A got sent s \<longleftrightarrow>
     world_ok S i K A got sent \<and> fw_fd (at_fd A (ss_datagram_adapter s)) \<noteq> fw_fd (ss_thread_data s) \<and>
     (\<exists>c. ss_tcp s = Some c \<and>
        (length (owner_wrote got s) < 2 ^ 62 \<longrightarrow>
           link_ok S i c (owner_wrote got s) (owner_given sent s) (ss_outbound_shutdown s)))"

lemmas sponge_defs = sponge_inv_def owner_wrote_def owner_given_def

lemma on_adapter_inv:
  assumes inv: "sponge_inv S i K A got sent s" and run: "on_adapter m s = (s', r)"
    and m: "\<And>a k. fw_fd (at_fd A (fst (fst (m (a, k))))) = fw_fd (at_fd A a) \<and>
      quiet_but (fw_fd (at_fd A a)) got sent k (snd (fst (m (a, k))))"
  shows "sponge_inv S i K A got sent s'" "ss_tcp s' = ss_tcp s" "ss_outbound_shutdown s' = ss_outbound_shutdown s"
    "\<exists>x'. m (ss_datagram_adapter s, ss_sys s) = (x', r)"
proof -
  obtain a k r' where x: "m (ss_datagram_adapter s, ss_sys s) = ((a, k), r')" by (metis prod.exhaust)
  have s': "s' = s\<lparr>ss_datagram_adapter := a, ss_sys := k\<rparr>" "r' = r" using run x by (auto simp: on_adapter_def)
  show "sponge_inv S i K A got sent s'" "ss_tcp s' = ss_tcp s" "ss_outbound_shutdown s' = ss_outbound_shutdown s"
    using inv m [of "ss_datagram_adapter s" "ss_sys s"] x by (auto simp: s' sponge_defs quiet_but_def)
  show "\<exists>x'. m (ss_datagram_adapter s, ss_sys s) = (x', r)" using x s' by simp
qed

lemma inv_set_tcp:
  assumes "sponge_inv S i K A got sent s" "ss_tcp s = Some c"
    and "length (owner_wrote got s) < 2 ^ 62 \<Longrightarrow>
      link_ok S i c (owner_wrote got s) (owner_given sent s) (ss_outbound_shutdown s) \<Longrightarrow>
      link_ok S i c' (owner_wrote got s) (owner_given sent s) (ss_outbound_shutdown s)"
  shows "sponge_inv S i K A got sent (s\<lparr>ss_tcp := Some c'\<rparr>)"
  using assms by (auto simp: sponge_defs)

lemma inv_end_input:
  assumes "sponge_inv S i K A got sent s" "ss_tcp s = Some c"
  shows "sponge_inv S i K A got sent (s\<lparr>ss_tcp := Some (cn_end_input_stream c), ss_outbound_shutdown := True\<rparr>)"
  using assms link_end by (auto simp: sponge_defs)

lemma inv_set_flags [simp]:
  "sponge_inv S i K A got sent (s\<lparr>ss_fully_acked := b\<rparr>) = sponge_inv S i K A got sent s"
  "sponge_inv S i K A got sent (s\<lparr>ss_inbound_shutdown := b\<rparr>) = sponge_inv S i K A got sent s"
  by (simp_all add: sponge_defs)

lemma inv_quiet:
  assumes "sponge_inv S i K A got sent s" "quiet got sent (ss_sys s) k"
  shows "sponge_inv S i K A got sent (s\<lparr>ss_sys := k\<rparr>)"
  using assms by (auto simp: sponge_defs quiet_def)

lemma inv_world: "sponge_inv S i K A got sent s \<Longrightarrow> world_ok S i K A got sent"
  by (simp add: sponge_inv_def)

lemma world_okD:
  assumes "world_ok S i K A got sent"
  shows "length S < 2147483647" "io_spec K got sent" "adapter_spec A got sent" "quiet got sent k (fst (k_poll K ps t k))"
    "quiet got sent k (fst (k_timestamp_ms K k))" "snd (at_read A x) = Inr (Some seg) \<Longrightarrow> incoming S i seg"
  using assms unfolding world_ok_def by (simp_all del: split_paired_All)

text \<open>Rule 1.\<close>

lemma datagram_callback_inv:
  assumes inv: "sponge_inv S i K A got sent s"
  shows "sponge_inv S i K A got sent (fst (datagram_callback A gni s)) \<and>
    ss_outbound_shutdown (fst (datagram_callback A gni s)) = ss_outbound_shutdown s"
proof -
  note w = world_okD [OF inv_world [OF inv]]
  obtain s1 r where rd: "on_adapter (at_read A) s = (s1, r)" by fastforce
  note a = on_adapter_inv [OF inv rd adapter_spec_fst(1) [OF w(3)]]
  obtain c where c: "ss_tcp s1 = Some c" using a(1) by (auto simp: sponge_inv_def)
  define s2 where "s2 = (case r of Inr (Some seg) \<Rightarrow> s1\<lparr>ss_tcp := Some (cn_segment_received seg c)\<rparr> | _ \<Rightarrow> s1)"
  have s2: "sponge_inv S i K A got sent s2 \<and> ss_outbound_shutdown s2 = ss_outbound_shutdown s \<and> (\<exists>c2. ss_tcp s2 = Some c2)"
  proof (cases "\<exists>seg. r = Inr (Some seg)")
    case True
    then obtain seg where seg: "r = Inr (Some seg)" by blast
    have "incoming S i seg" using a(4) w(6) seg by (metis snd_conv)
    then have "sponge_inv S i K A got sent (s1\<lparr>ss_tcp := Some (cn_segment_received seg c)\<rparr>)"
      using w(1) by (intro inv_set_tcp [OF a(1) c] link_segment)
    then show ?thesis using a(3) by (simp add: s2_def seg)
  next
    case False
    then have "s2 = s1" by (auto simp: s2_def split: sum.splits option.splits)
    then show ?thesis using a(1,3) c by auto
  qed
  have "fst (datagram_callback A gni s) = s2 \<or> fst (datagram_callback A gni s) = s2\<lparr>ss_fully_acked := True\<rparr>"
    using rd c s2 by (auto simp: datagram_callback_def call_def call_on_def s2_def split: sum.splits option.splits if_splits)
  then show ?thesis using s2 by auto
qed

text \<open>Rule 2.  The read is limited by the capacity, so that the connection takes all of it.\<close>

lemma outbound_callback_inv:
  assumes inv: "sponge_inv S i K A got sent s" and opn: "\<not> ss_outbound_shutdown s"
  shows "sponge_inv S i K A got sent (fst (outbound_callback K A gni s))"
proof -
  note w = world_okD [OF inv_world [OF inv]]
  obtain c where c: "ss_tcp s = Some c" using inv by (auto simp: sponge_inv_def)
  let ?cap = "cn_remaining_outbound_capacity c"
  obtain f k r where rd: "fd_read K ?cap (ss_thread_data s, ss_sys s) = ((f, k), r)" by (metis prod.exhaust)
  note io = fd_read_io [OF w(2) rd]
  define s1 where "s1 = s\<lparr>ss_thread_data := f, ss_sys := k\<rparr>"
  have th: "on_thread_data (fd_read K ?cap) s = (s1, r)" using rd by (simp add: on_thread_data_def s1_def)
  have given: "owner_given sent s1 = owner_given sent s" using io by (simp add: owner_given_def s1_def)
  have wrote: "owner_wrote got s1 = owner_wrote got s @ (case r of Inl _ \<Rightarrow> [] | Inr d \<Rightarrow> d)"
    using io by (simp add: owner_wrote_def s1_def)
  show ?thesis
  proof (cases r)
    case (Inl e)
    have "sponge_inv S i K A got sent s1" using inv given wrote io(1) Inl by (simp add: sponge_inv_def s1_def)
    then show ?thesis using c th Inl by (simp add: outbound_callback_def)
  next
    case (Inr d)
    have d: "length d \<le> ?cap" using fd_read_spec [OF io_specD(2) [OF w(2)] rd] Inr by auto
    obtain c1 n where cw: "cn_write d c = (c1, n)" by fastforce
    let ?s2 = "s1\<lparr>ss_tcp := Some c1\<rparr>"
    have "link_ok S i c1 (owner_wrote got s1) (owner_given sent s1) False" if "length (owner_wrote got s1) < 2 ^ 62"
    proof -
      have "length (owner_wrote got s) + length d < 2 ^ 62" using that wrote Inr by simp
      moreover from this have "link_ok S i c (owner_wrote got s) (owner_given sent s) False"
        using inv c opn by (simp add: sponge_inv_def)
      ultimately show ?thesis using link_write(2) [OF _ _ d cw, of S i "owner_wrote got s" "owner_given sent s" False] wrote given Inr by simp
    qed
    then have s2: "sponge_inv S i K A got sent ?s2" using inv io(1) opn by (simp add: sponge_inv_def s1_def owner_wrote_def owner_given_def)
    have "ss_tcp ?s2 = Some c1" by simp
    note s3 = inv_end_input [OF s2 this]
    have "fst (outbound_callback K A gni s) \<in> {?s2, ?s2\<lparr>ss_tcp := Some (cn_end_input_stream c1), ss_outbound_shutdown := True\<rparr>}"
      using c th Inr cw by (simp add: outbound_callback_def Let_def call_def split: sum.splits)
    then show ?thesis using s2 s3 by auto
  qed
qed

lemma outbound_cancel_inv: "sponge_inv S i K A got sent s \<Longrightarrow> sponge_inv S i K A got sent (fst (outbound_cancel s))"
  using inv_end_input [of S i K A got sent s] by (cases "ss_tcp s") (simp_all add: outbound_cancel_def)

text \<open>Rule 3.\<close>

lemma shutdown_inv:
  assumes inv: "sponge_inv S i K A got sent s" and run: "on_thread_data (socket_shutdown K how) s = (s', r)"
  shows "sponge_inv S i K A got sent s' \<and> ss_outbound_shutdown s' = ss_outbound_shutdown s"
proof -
  note w = world_okD [OF inv_world [OF inv]]
  obtain f k r' where sh: "socket_shutdown K how (ss_thread_data s, ss_sys s) = ((f, k), r')" by (metis prod.exhaust)
  then have s': "s' = s\<lparr>ss_thread_data := f, ss_sys := k\<rparr>" using run by (simp add: on_thread_data_def)
  have "quiet got sent (ss_sys s) k" "fw_fd f = fw_fd (ss_thread_data s)"
    using socket_shutdown_wrapper [OF sh] io_specD(6) [OF w(2)] by auto
  then show ?thesis using inv by (auto simp: s' sponge_defs quiet_def)
qed

lemma peek_peek: "n \<le> length (bs_peek_output m b) \<Longrightarrow> take n (bs_peek_output m b) = bs_peek_output n b"
proof -
  assume "n \<le> length (bs_peek_output m b)"
  then have "n \<le> bs_size b" "n \<le> m" by (simp_all add: bs_peek_output_def)
  then show ?thesis by (simp add: bs_peek_output_def min_def)
qed

lemma inbound_callback_inv:
  assumes inv: "sponge_inv S i K A got sent s"
  shows "sponge_inv S i K A got sent (fst (inbound_callback K A gni s)) \<and>
    ss_outbound_shutdown (fst (inbound_callback K A gni s)) = ss_outbound_shutdown s"
proof -
  note w = world_okD [OF inv_world [OF inv]]
  obtain c where c: "ss_tcp s = Some c" using inv by (auto simp: sponge_inv_def)
  let ?in = "cn_inbound_stream c"
  let ?buf = "bs_peek_output (min 65536 (bs_buffer_size ?in)) ?in"
  have len: "length ?buf < 2 ^ 62" by (simp add: bs_peek_output_def)
  have got: "quiet_but (fw_fd f) got sent k k' \<and> (\<forall>g. got g k' = got g k)"
    if "fd_write_string K ?buf False (f, k) = ((f', k'), r)" for f k f' k' r
  proof -
    have wr: "fd_write K [?buf] False (f, k) = ((f', k'), r)" using that by (simp add: fd_write_string_def)
    show ?thesis using fd_write_got [OF w(2) wr] fd_write_quiet(2) [OF w(2) wr] by simp
  qed
  show ?thesis
  proof (rule fd_write_once [OF io_specD(1) [OF w(2)] len, of "ss_thread_data s" "ss_sys s"], goal_cases)
    case (1 k e)
    then have "sponge_inv S i K A got sent (s\<lparr>ss_sys := k\<rparr>)" using inv got [OF 1(1)] by (intro inv_quiet) (auto simp: quiet_def)
    then show ?case using c 1(1) by (simp add: inbound_callback_def on_thread_data_def)
  next
    case (2 n k)
    let ?c = "set_inbound (bs_pop_output n ?in) c"
    let ?s1 = "s\<lparr>ss_thread_data := register_write (ss_thread_data s), ss_sys := k, ss_tcp := Some ?c\<rparr>"
    have given: "owner_given sent ?s1 = owner_given sent s @ bs_peek_output n ?in"
      using 2(4) peek_peek [OF 2(1)] by (simp add: owner_given_def)
    have wrote: "owner_wrote got ?s1 = owner_wrote got s" using got [OF 2(3)] by (simp add: owner_wrote_def)
    have s1: "sponge_inv S i K A got sent ?s1"
      using inv c link_read given wrote unfolding sponge_inv_def by simp
    show ?case
    proof (cases "bs_eof (bs_pop_output n ?in) \<or> bs_error (bs_pop_output n ?in)")
      case False
      then show ?thesis using c 2(3) s1 by (simp add: inbound_callback_def on_thread_data_def Let_def)
    next
      case True
      obtain s2 r where sh: "on_thread_data (socket_shutdown K SHUT_WR) ?s1 = (s2, r)" by fastforce
      have "fst (inbound_callback K A gni s) \<in> {s2, s2\<lparr>ss_inbound_shutdown := True\<rparr>}"
        using c 2(3) True sh by (auto simp: inbound_callback_def on_thread_data_def [of "fd_write_string K _ False"] Let_def call_on_def call_def
            split: sum.splits)
      then show ?thesis using shutdown_inv [OF s1 sh] by auto
    qed
  qed
qed

text \<open>Rule 4.\<close>

lemma send_segments_spec:
  assumes A: "adapter_spec A got sent"
  shows "send_segments A segs (a, k) = (segs', (a', k'), r) \<Longrightarrow>
    fw_fd (at_fd A a') = fw_fd (at_fd A a) \<and> quiet_but (fw_fd (at_fd A a)) got sent k k' \<and>
    (\<forall>seg \<in> set segs'. \<exists>seg0 \<in> set segs. \<exists>sp dp. seg = with_ports sp dp seg0)"
proof (induction segs arbitrary: a k)
  case (Cons seg segs)
  obtain seg1 a1 k1 r1 where w: "at_write A seg (a, k) = (seg1, (a1, k1), r1)" by (metis prod.exhaust)
  note q = adapter_specD(2) [OF A w]
  show ?case
  proof (cases r1)
    case (Inl e)
    then have "segs' = seg1 # segs" "a' = a1" "k' = k1" using Cons.prems w by auto
    then show ?thesis using q with_ports_self by (auto; metis)
  next
    case (Inr u)
    then have run: "send_segments A segs (a1, k1) = (segs', (a', k'), r)" using Cons.prems w by simp
    have "quiet_but (fw_fd (at_fd A a)) got sent k k1" using q by simp
    from quiet_but_trans [OF this, of k'] show ?thesis using Cons.IH [OF run] q by auto
  qed
qed simp

lemma segments_callback_inv:
  assumes inv: "sponge_inv S i K A got sent s"
  shows "sponge_inv S i K A got sent (fst (segments_callback A s)) \<and>
    ss_outbound_shutdown (fst (segments_callback A s)) = ss_outbound_shutdown s"
proof -
  note w = world_okD [OF inv_world [OF inv]]
  obtain c where c: "ss_tcp s = Some c" using inv by (auto simp: sponge_inv_def)
  obtain segs a k r where run: "send_segments A (cn_segments_out c) (ss_datagram_adapter s, ss_sys s) = (segs, (a, k), r)"
    by (metis prod.exhaust)
  note q = send_segments_spec [OF w(3) run]
  have s': "fst (segments_callback A s) = s\<lparr>ss_tcp := Some (c\<lparr>cn_segments_out := segs\<rparr>), ss_datagram_adapter := a, ss_sys := k\<rparr>"
    using c run by (simp add: segments_callback_def)
  show ?thesis using inv c q link_segments [of S i c _ _ _ segs] unfolding s' by (auto simp: sponge_defs quiet_but_def)
qed

subsection \<open>The rules together\<close>

definition outbound_rule :: "('k, 'z) net_kernel_scheme \<Rightarrow> ('a, 'k) adapter_ops \<Rightarrow> namer \<Rightarrow> ('a, 'k) sponge rule" where
  "outbound_rule K A gni = \<lparr>ru_fd = ss_thread_data, ru_direction = Dir_In, ru_callback = outbound_callback K A gni,
     ru_interest = outbound_interest, ru_cancel = outbound_cancel\<rparr>"

lemma sponge_rules_eq:
  "sponge_rules K A gni rules = rules @
    [\<lparr>ru_fd = \<lambda>s. at_fd A (ss_datagram_adapter s), ru_direction = Dir_In, ru_callback = datagram_callback A gni,
       ru_interest = datagram_interest, ru_cancel = no_cancel\<rparr>,
     outbound_rule K A gni,
     \<lparr>ru_fd = ss_thread_data, ru_direction = Dir_Out, ru_callback = inbound_callback K A gni,
       ru_interest = inbound_interest, ru_cancel = no_cancel\<rparr>,
     \<lparr>ru_fd = \<lambda>s. at_fd A (ss_datagram_adapter s), ru_direction = Dir_Out, ru_callback = segments_callback A,
       ru_interest = segments_interest, ru_cancel = no_cancel\<rparr>]"
  by (simp add: sponge_rules_def add_rule_def outbound_rule_def)

lemma fd_functions_differ: "(\<lambda>s :: ('a, 'k) sponge. at_fd A (ss_datagram_adapter s)) \<noteq> ss_thread_data"
proof
  assume eq: "(\<lambda>s :: ('a, 'k) sponge. at_fd A (ss_datagram_adapter s)) = ss_thread_data"
  fix s :: "('a, 'k) sponge"
  let ?f = "at_fd A (ss_datagram_adapter s)"
  let ?s = "s\<lparr>ss_thread_data := ?f\<lparr>fw_eof := \<not> fw_eof ?f\<rparr>\<rparr>"
  from fun_cong [OF eq, of ?s] have "?f = ?f\<lparr>fw_eof := \<not> fw_eof ?f\<rparr>" by simp
  then have "fw_eof ?f = (\<not> fw_eof ?f)" by (metis fd_wrapper.select_convs(2) fd_wrapper.surjective fd_wrapper.update_convs(2))
  then show False by simp
qed

lemma sponge_rules_distinct: "distinct (sponge_rules K A gni [])"
  using fd_functions_differ [of A] fd_functions_differ [of A, symmetric] by (auto simp: sponge_rules_eq outbound_rule_def)

interpretation sponge: guarded_rules "\<lambda>r. r \<in> set (sponge_rules K A gni [])" "sponge_inv S i K A got sent"
    "\<lambda>r s. r = outbound_rule K A gni \<longrightarrow> \<not> ss_outbound_shutdown s" "socket_poll K"
  for K :: "('k, 'z) sys_scheme" and A :: "('a, 'k) adapter_ops" and gni S i got sent
proof (unfold_locales, goal_cases)
  case (1 r s)
  then show ?case by (auto simp: outbound_rule_def outbound_interest_def split: option.splits)
next
  case (2 r s)
  then show ?case using datagram_callback_inv inbound_callback_inv segments_callback_inv outbound_callback_inv
    by (fastforce simp: sponge_rules_eq outbound_rule_def)
next
  case (3 r r' s)
  then show ?case using datagram_callback_inv inbound_callback_inv segments_callback_inv
    by (fastforce simp: sponge_rules_eq)
next
  case (4 r s)
  then show ?case using outbound_cancel_inv by (auto simp: sponge_rules_eq outbound_rule_def no_cancel_def)
next
  case (5 r r' s)
  then show ?case by (auto simp: sponge_rules_eq no_cancel_def)
next
  case (6 s ps t s' a)
  then have "s' = s\<lparr>ss_sys := fst (k_poll K ps t (ss_sys s))\<rparr>" by (auto simp: socket_poll_def split: prod.splits)
  then show ?case using inv_quiet [OF 6(1)] world_okD(4) [OF inv_world [OF 6(1)]] by simp
next
  case (7 s ps t s' a r)
  then show ?case by (auto simp: socket_poll_def split: prod.splits)
qed

lemma tcp_iteration_inv:
  assumes inv: "sponge_inv S i K A got sent s" and rules: "distinct rules" "set rules \<subseteq> set (sponge_rules K A gni [])"
    and run: "tcp_iteration K A t (rules, s) = ((rules', s'), r)"
  shows "sponge_inv S i K A got sent s'" "distinct rules'" "set rules' \<subseteq> set (sponge_rules K A gni [])"
proof -
  obtain rules1 s1 r1 where wt: "wait_next_event (socket_poll K) TCP_TICK_MS (rules, s) = ((rules1, s1), r1)" by (metis prod.exhaust)
  have ok: "\<forall>r \<in> set rules. r \<in> set (sponge_rules K A gni [])" using rules(2) by blast
  note k = sponge.wait_keeps [OF wt rules(1) ok inv]
  note w = world_okD [OF inv_world [OF k(1)]]
  obtain c where c: "ss_tcp s1 = Some c" using k(1) by (auto simp: sponge_inv_def)
  obtain k2 t2 where tm: "k_timestamp_ms K (ss_sys s1) = (k2, t2)" by fastforce
  let ?s2 = "s1\<lparr>ss_sys := k2, ss_tcp := Some (cn_tick (sub64 t2 t) c)\<rparr>"
  have "sponge_inv S i K A got sent (s1\<lparr>ss_sys := k2\<rparr>)" using inv_quiet [OF k(1)] w(5) [of "ss_sys s1"] tm by simp
  then have s2: "sponge_inv S i K A got sent ?s2"
    using inv_set_tcp [of S i K A got sent "s1\<lparr>ss_sys := k2\<rparr>" c "cn_tick (sub64 t2 t) c"] c link_tick by simp
  obtain s3 r3 where ad: "on_adapter (at_tick A (sub64 t2 t)) ?s2 = (s3, r3)" by fastforce
  have "sponge_inv S i K A got sent s3" by (rule on_adapter_inv(1) [OF s2 ad adapter_spec_fst(2) [OF w(3)]])
  moreover have "rules' = rules1 \<and> (s' = s1 \<or> s' = s3)"
    using run wt c tm ad by (auto simp: tcp_iteration_def call_on_def Let_def split: sum.splits if_splits)
  ultimately show "sponge_inv S i K A got sent s'" "distinct rules'" "set rules' \<subseteq> set (sponge_rules K A gni [])"
    using k by auto
qed

text \<open>The states the thread goes through: the body of the loop, any number of times.\<close>

inductive socket_reaches :: "('k, 'z) sys_scheme \<Rightarrow> ('a, 'k) adapter_ops \<Rightarrow> ('a, 'k) sponge rule list \<times> ('a, 'k) sponge \<Rightarrow>
    nat \<Rightarrow> ('a, 'k) sponge rule list \<times> ('a, 'k) sponge \<Rightarrow> bool"
  for K A x0 where
  start: "socket_reaches K A x0 t x0"
| iterate: "socket_reaches K A x0 t x \<Longrightarrow> tcp_iteration K A t x = (x', r) \<Longrightarrow>
    t' = (case r of Inr (Some n) \<Rightarrow> n | _ \<Rightarrow> t) \<Longrightarrow> socket_reaches K A x0 t' x'"

lemma socket_reaches_inv:
  assumes "socket_reaches K A (rules0, s0) t x" "sponge_inv S i K A got sent s0" "distinct rules0"
    "set rules0 \<subseteq> set (sponge_rules K A gni [])"
  shows "sponge_inv S i K A got sent (snd x) \<and> distinct (fst x) \<and> set (fst x) \<subseteq> set (sponge_rules K A gni [])"
  using assms
proof (induction rule: socket_reaches.induct)
  case (iterate t x x' r t')
  then show ?case using tcp_iteration_inv [of S i K A got sent "snd x" "fst x" gni t "fst x'" "snd x'" r] by simp
qed simp

text \<open>A socket whose connection has just been made: listening, or with its SYN sent.\<close>

definition socket_started :: "('k, 'z) sys_scheme \<Rightarrow> ('a, 'k) adapter_ops \<Rightarrow> tcp_config \<Rightarrow> (int \<Rightarrow> 'k \<Rightarrow> bytes) \<Rightarrow> (int \<Rightarrow> 'k \<Rightarrow> bytes) \<Rightarrow>
    ('a, 'k) sponge \<Rightarrow> bool" where
  "socket_started K A cfg got sent s \<longleftrightarrow>
     0 < cfg_recv_capacity cfg \<and> cfg_recv_capacity cfg < 2 ^ 63 \<and> cfg_send_capacity cfg < U64 \<and>
     fw_fd (at_fd A (ss_datagram_adapter s)) \<noteq> fw_fd (ss_thread_data s) \<and> owner_wrote got s = [] \<and> owner_given sent s = [] \<and>
     (\<exists>rnd. ss_tcp s = Some (tcp_connection_new cfg rnd) \<or> ss_tcp s = Some (cn_connect (tcp_connection_new cfg rnd)))"

lemma socket_started_inv:
  assumes w: "world_ok S i K A got sent" and st: "socket_started K A cfg got sent s"
  shows "sponge_inv S i K A got sent s"
proof -
  obtain rnd where c: "ss_tcp s = Some (tcp_connection_new cfg rnd) \<or> ss_tcp s = Some (cn_connect (tcp_connection_new cfg rnd))"
    using st by (auto simp: socket_started_def)
  have len: "length S < 4294967295" "length S + cfg_recv_capacity cfg < U64"
    using w st by (auto simp: world_ok_def socket_started_def)
  have cap: "0 < cfg_recv_capacity cfg" "cfg_send_capacity cfg < U64" using st by (auto simp: socket_started_def)
  have "cn_inv S i (tcp_connection_new cfg rnd, [])" using len cap by (intro cn_start_inv) (auto simp: cn_start_def)
  moreover have "rc_inv S i (tcp_receiver_new (cfg_recv_capacity cfg), [])"
    using len cap by (intro rc_start_inv) (auto simp: rc_start_def)
  moreover have "\<not> bs_inputEnd (sd_stream (cn_sender (tcp_connection_new cfg rnd)))"
    by (simp add: tcp_connection_new_def tcp_sender_new_def bs_new_def)
  ultimately have "link_ok S i (tcp_connection_new cfg rnd) [] [] e" for e by (simp add: link_ok_def tcp_connection_new_def)
  then show ?thesis using w st c link_connect by (auto simp: sponge_inv_def socket_started_def)
qed

subsection \<open>Properties\<close>

text \<open>C3. However the system splits reads and writes and in whatever order the descriptors become ready, whichever calls fail,
  and whatever segments of the peer's stream the network delivers: at every step of the socket's loop the bytes given to the
  owner are a prefix of the peer's stream, followed by the bytes still buffered, and every queued segment that is not a reset carries bytes that the owner
  has written, at their position.\<close>

theorem sponge_socket_integrity:
  assumes "world_ok S i K A got sent" and "socket_started K A cfg got sent s0"
    and "socket_reaches K A (sponge_rules K A gni [], s0) t (rules, s)"
    and "length (owner_wrote got s) < 2 ^ 62"
  shows "\<exists>c. ss_tcp s = Some c \<and>
    owner_given sent s @ bs_buffer (cn_inbound_stream c) = take (sr_cur_idx (rc_reassembler (cn_receiver c))) S \<and>
    (\<forall>seg \<in> set (cn_segments_out c). th_rst (sg_header seg) \<or>
       emitted_ok (owner_wrote got s) (bs_inputEnd (sd_stream (cn_sender c))) (sd_isn (cn_sender c)) seg)"
proof -
  have "sponge_inv S i K A got sent s"
    using socket_reaches_inv [OF assms(3) socket_started_inv [OF assms(1,2)] sponge_rules_distinct subset_refl] by simp
  then obtain c where "ss_tcp s = Some c" "link_ok S i c (owner_wrote got s) (owner_given sent s) (ss_outbound_shutdown s)"
    using assms(4) by (auto simp: sponge_inv_def)
  then show ?thesis by (auto simp: link_ok_def cn_inv_def rc_inv_def cn_inbound_stream_def)
qed

text \<open>A system for examples: reading gives one byte, writing takes up to 100000, both are logged, and waiting times out.\<close>

definition demo_sys :: "((int \<times> bytes) list \<times> (int \<times> bytes) list) sys" where
  "demo_sys =
     \<lparr>k_close = (\<lambda>fd k. (k, 0, 0)),
      k_read = (\<lambda>fd n k. if n = 0 then (k, (0, 0), []) else ((fst k @ [(fd, [42])], snd k), (1, 0), [42])),
      k_writev = (\<lambda>fd iov k. let d = take 100000 (concat (map fst iov)) in ((fst k, snd k @ [(fd, d)]), int (length d), 0)),
      k_getfl = (\<lambda>fd k. (k, 2, 0)), k_setfl = (\<lambda>fd fl k. (k, 0, 0)), k_socket = (\<lambda>d t k. (k, 3, 0)),
      k_getsockopt = (\<lambda>fd l opt k. (k, (0, 0), 1, 4)), k_setsockopt = (\<lambda>fd l opt v k. (k, 0, 0)),
      k_getsockname = (\<lambda>fd k. (k, (0, 0), [])), k_getpeername = (\<lambda>fd k. (k, (0, 0), [])), k_bind = (\<lambda>fd a k. (k, 0, 0)),
      k_connect = (\<lambda>fd a k. (k, 0, 0)), k_shutdown = (\<lambda>fd how k. (k, 0, 0)),
      k_recvfrom = (\<lambda>fd n k. (k, (0, 0), [], [])), k_sendmsg = (\<lambda>fd dst iov k. (k, 0, 0)), k_listen = (\<lambda>fd b k. (k, 0, 0)),
      k_accept = (\<lambda>fd k. (k, 4, 0)), k_socketpair = (\<lambda>d t k. (k, (0, 0), 5, 6)), k_open = (\<lambda>path fl k. (k, 7, 0)),
      k_tunsetiff = (\<lambda>fd fl name k. (k, 0, 0)), k_poll = (\<lambda>ps t k. (k, (0, 0), \<lambda>i. 0)),
      k_timestamp_ms = (\<lambda>k. (k, 5)), k_random_device = (\<lambda>k. (k, 77)), k_abort = (\<lambda>k. False)\<rparr>"

definition demo_got :: "int \<Rightarrow> (int \<times> bytes) list \<times> (int \<times> bytes) list \<Rightarrow> bytes" where
  "demo_got fd k = concat (map snd (filter (\<lambda>x. fst x = fd) (fst k)))"

definition demo_sent :: "int \<Rightarrow> (int \<times> bytes) list \<times> (int \<times> bytes) list \<Rightarrow> bytes" where
  "demo_sent fd k = concat (map snd (filter (\<lambda>x. fst x = fd) (snd k)))"

lemma demo_world: "world_ok S i demo_sys (tun_ops demo_sys gai gni) demo_got demo_sent" if "length S < 2147483647" for S i gai gni
proof -
  have io: "io_spec demo_sys demo_got demo_sent"
    by (auto simp: io_spec_def demo_sys_def writev_spec_def read_spec_def quiet_def demo_got_def demo_sent_def Let_def take_min_length)
  have "tun_read gai gni ad [42] = (ad, Inr None)" "tun_read gai gni ad [] = (ad, Inr None)" for ad
    by (simp_all add: tun_read_def ipv4_datagram_parse_def ipv4_header_parse_def IPv4_LENGTH_def net_parser_new_def payload_length_def
        ipv4_datagram_new_def ipv4_header_new_def Let_def)
  then have "snd (at_read (tun_ops demo_sys gai gni) x) \<noteq> Inr (Some seg)" for x seg
    by (cases x) (auto simp: tun_ops_def base_ops_def tun_adapter_read_def fd_read_def SIZE_MAX_def BUFFER_SIZE_def demo_sys_def SystemCall_def
        split: prod.splits)
  then show ?thesis using that io tun_ops_spec [OF io] by (auto simp: world_ok_def) (auto simp: demo_sys_def quiet_def)
qed

definition demo_fd :: "int \<Rightarrow> fd_wrapper" where
  "demo_fd n = \<lparr>fw_fd = n, fw_eof = False, fw_closed = False, fw_read_count = 0, fw_write_count = 0\<rparr>"

definition demo_socket :: "tcp_connection \<Rightarrow> (fd_wrapper \<times> fd_adapter_base, (int \<times> bytes) list \<times> (int \<times> bytes) list) sponge" where
  "demo_socket c =
     \<lparr>ss_owner = demo_fd 5, ss_thread_data = demo_fd 6, ss_datagram_adapter = (demo_fd 7, adapter_of (1, 1000) (2, 80)),
      ss_tcp = Some c, ss_tcp_thread = False, ss_inbound_shutdown = False, ss_outbound_shutdown = False, ss_fully_acked = False,
      ss_sys = ([], [])\<rparr>"

lemmas demo_defs = demo_socket_def demo_fd_def

theorem sponge_socket_integrity_witness:
  "\<exists>t rules s c. socket_reaches demo_sys (tun_ops demo_sys number_resolver number_namer)
       (sponge_rules demo_sys (tun_ops demo_sys number_resolver number_namer) number_namer [],
        demo_socket (tcp_connection_new tcp_config_default 9)) t (rules, s) \<and>
     t = 5 \<and> ss_tcp s = Some c \<and>
     owner_given demo_sent s @ bs_buffer (cn_inbound_stream c) = take (sr_cur_idx (rc_reassembler (cn_receiver c))) [1, 2, 3]"
proof -
  let ?A = "tun_ops demo_sys number_resolver number_namer"
  let ?c = "tcp_connection_new tcp_config_default 9"
  let ?s0 = "demo_socket ?c"
  let ?R = "sponge_rules demo_sys ?A number_namer []"
  let ?s1 = "?s0\<lparr>ss_tcp := Some (cn_tick 5 ?c)\<rparr>"
  have w: "world_ok [1, 2, 3] 7 demo_sys ?A demo_got demo_sent" by (rule demo_world) simp
  have st: "socket_started demo_sys ?A tcp_config_default demo_got demo_sent ?s0"
    by (auto simp: socket_started_def demo_defs tcp_config_default_def DEFAULT_CAPACITY_def tun_ops_def base_ops_def
        owner_wrote_def owner_given_def demo_got_def demo_sent_def)
  have "wait_next_event (socket_poll demo_sys) TCP_TICK_MS (?R, ?s0) = ((?R, ?s0), Inr Timeout)"
    by (simp add: wait_next_event_def sponge_rules_eq outbound_rule_def demo_defs tun_ops_def base_ops_def
        datagram_interest_def outbound_interest_def inbound_interest_def segments_interest_def cn_active_def tcp_connection_new_def
        socket_poll_def demo_sys_def SystemCall_def Let_def)
  then have it: "tcp_iteration demo_sys ?A 0 (?R, ?s0) = ((?R, ?s1), Inr (Some 5))"
    by (simp add: tcp_iteration_def demo_defs cn_active_def tcp_connection_new_def demo_sys_def on_adapter_def tun_ops_def base_ops_def no_wrap)
  have r: "socket_reaches demo_sys ?A (?R, ?s0) 5 (?R, ?s1)"
    by (rule socket_reaches.iterate [OF socket_reaches.start it]) simp
  have len: "length (owner_wrote demo_got ?s1) < 2 ^ 62" by (simp add: owner_wrote_def demo_defs demo_got_def)
  from sponge_socket_integrity [OF w st r len] r show ?thesis by blast
qed

text \<open>The callback for the owner's data never hits its own error: a read limited by the remaining capacity is accepted whole by the
  connection, and the outbound stream is ended exactly when the read finds the end of the file.\<close>

theorem outbound_callback_takes_all:
  assumes "read_spec K" and "ss_tcp s = Some c"
    and "fd_read K (cn_remaining_outbound_capacity c) (ss_thread_data s, ss_sys s) = ((f, k), Inr d)"
  shows "\<exists>c'. cn_write d c = (c', length d) \<and>
    fst (outbound_callback K A gni s) =
      (if fw_eof f then s\<lparr>ss_thread_data := f, ss_sys := k, ss_tcp := Some (cn_end_input_stream c'), ss_outbound_shutdown := True\<rparr>
       else s\<lparr>ss_thread_data := f, ss_sys := k, ss_tcp := Some c'\<rparr>) \<and>
    (\<not> fw_eof f \<longrightarrow> snd (outbound_callback K A gni s) = Inr ())"
proof -
  have d: "length d \<le> cn_remaining_outbound_capacity c" using fd_read_spec [OF assms(1,3)] by auto
  obtain c' n where w: "cn_write d c = (c', n)" by fastforce
  have "n = length d"
    using w d by (auto simp: cn_write_def bs_write_def Let_def cn_remaining_outbound_capacity_def bs_remaining_capacity_def)
  with assms(2,3) w show ?thesis
    by (auto simp: outbound_callback_def on_thread_data_def Let_def call_def split: sum.splits)
qed

theorem outbound_callback_takes_all_witness:
  "\<exists>c'. cn_write [42] (tcp_connection_new tcp_config_default 9) = (c', 1) \<and>
    ss_tcp (fst (outbound_callback demo_sys (tun_ops demo_sys number_resolver number_namer) number_namer
      (demo_socket (tcp_connection_new tcp_config_default 9)))) = Some c'"
proof -
  let ?c = "tcp_connection_new tcp_config_default 9"
  let ?s = "demo_socket ?c"
  have spec: "read_spec demo_sys" by (auto simp: read_spec_def demo_sys_def)
  have c: "ss_tcp ?s = Some ?c" by (simp add: demo_defs)
  have cap: "cn_remaining_outbound_capacity ?c = 64000"
    by (simp add: cn_remaining_outbound_capacity_def tcp_connection_new_def tcp_sender_new_def tcp_config_default_def DEFAULT_CAPACITY_def
        bs_new_def bs_remaining_capacity_def no_wrap)
  have rd: "fd_read demo_sys (cn_remaining_outbound_capacity ?c) (ss_thread_data ?s, ss_sys ?s) =
      ((register_read (ss_thread_data ?s), ([(6, [42])], [])), Inr [42])"
    by (simp add: cap fd_read_def BUFFER_SIZE_def demo_sys_def demo_defs SystemCall_def)
  have "\<not> fw_eof (register_read (ss_thread_data ?s))" by (simp add: demo_defs)
  then show ?thesis
    using outbound_callback_takes_all [OF spec c rd, of "tun_ops demo_sys number_resolver number_namer" number_namer] by auto
qed

text \<open>The loop with a bound on its rounds.\<close>

fun tcp_loop_rounds :: "nat \<Rightarrow> ('k, 'z) sys_scheme \<Rightarrow> ('a, 'k) adapter_ops \<Rightarrow> (('a, 'k) sponge \<Rightarrow> exn + bool) \<Rightarrow> nat \<Rightarrow>
    ('a, 'k) sponge rule list \<times> ('a, 'k) sponge \<Rightarrow> ((('a, 'k) sponge rule list \<times> ('a, 'k) sponge) \<times> (exn + unit)) option" where
  "tcp_loop_rounds 0 K A condition base_time x = None"
| "tcp_loop_rounds (Suc n) K A condition base_time x =
     (case condition (snd x) of
        Inl e \<Rightarrow> Some (x, Inl e)
      | Inr b \<Rightarrow>
          if b
          then (case tcp_iteration K A base_time x of
                  (x, Inl e) \<Rightarrow> Some (x, Inl e)
                | (x, Inr r) \<Rightarrow> (case r of None \<Rightarrow> Some (x, Inr ()) | Some t \<Rightarrow> tcp_loop_rounds n K A condition t x))
          else Some (x, Inr ()))"

lemma tcp_loop_rounds_sound: "tcp_loop_rounds n K A condition t x = Some y \<Longrightarrow> tcp_loop_from K A condition t x = Some y"
proof (induction n arbitrary: t x)
  case (Suc n)
  then show ?case
    by (subst tcp_loop_from.simps) (auto split: sum.splits if_splits prod.splits option.splits)
qed simp

lemma tcp_loop_rounds_complete: "tcp_loop_from K A condition t x = Some y \<Longrightarrow> \<exists>n. tcp_loop_rounds n K A condition t x = Some y"
proof (rule tcp_loop_from.raw_induct [where P = "\<lambda>K A condition t x y. \<exists>n. tcp_loop_rounds n K A condition t x = Some y"
      and xa = "((((K, A), condition), t), x)" and y = y, unfolded prod.case])
  fix loop K A condition t x y
  assume IH: "\<And>K A condition t x y. loop K A condition t x = Some y \<Longrightarrow> \<exists>n. tcp_loop_rounds n K A condition t x = Some y"
    and eq: "(case condition (snd x) of
        Inl e \<Rightarrow> Some (x, Inl e)
      | Inr b \<Rightarrow>
          if b
          then (case tcp_iteration K A t x of
                  (x, Inl e) \<Rightarrow> Some (x, Inl e)
                | (x, Inr r) \<Rightarrow> (case r of None \<Rightarrow> Some (x, Inr ()) | Some t \<Rightarrow> loop K A condition t x))
          else Some (x, Inr ())) = Some y"
  show "\<exists>n. tcp_loop_rounds n K A condition t x = Some y"
  proof (cases "\<exists>x' t'. condition (snd x) = Inr True \<and> tcp_iteration K A t x = (x', Inr (Some t'))")
    case True
    then obtain x' t' where s: "condition (snd x) = Inr True" "tcp_iteration K A t x = (x', Inr (Some t'))" by blast
    with eq have "loop K A condition t' x' = Some y" by simp
    from IH [OF this] obtain n where "tcp_loop_rounds n K A condition t' x' = Some y" by blast
    then have "tcp_loop_rounds (Suc n) K A condition t x = Some y" using s by simp
    then show ?thesis by blast
  next
    case False
    then have "tcp_loop_rounds (Suc 0) K A condition t x = Some y"
      using eq by (auto split: sum.splits if_splits prod.splits option.splits)
    then show ?thesis by blast
  qed
qed

text \<open>The loop of the thread returns a result exactly when some number of rounds produces it; it has none exactly when no number
  of rounds ends it.\<close>

theorem tcp_loop_ends:
  "tcp_loop_from K A condition t x = Some y \<longleftrightarrow> (\<exists>n. tcp_loop_rounds n K A condition t x = Some y)"
  using tcp_loop_rounds_sound tcp_loop_rounds_complete by metis

lemma send_segments_carries:
  assumes K: "packet_spec K packets" and l: "tun_linked gni ad peer sp dp"
  shows "\<forall>seg \<in> set segs. sendable seg \<Longrightarrow> \<exists>f' k' pkts segs'.
    send_segments (tun_ops K gai gni) segs ((f, ad), k) = ([], ((f', ad), k'), Inr ()) \<and> fw_fd f' = fw_fd f \<and>
    packets (fw_fd f) k' = packets (fw_fd f) k @ pkts \<and>
    map (tun_read gai gni peer) pkts = map (\<lambda>seg. (peer, Inr (Some seg))) segs' \<and>
    list_all2 same_segment (map (with_ports sp dp) segs) segs'"
proof (induction segs arbitrary: f k)
  case Nil
  have "send_segments (tun_ops K gai gni) [] ((f, ad), k) = ([], ((f, ad), k), Inr ())" by simp
  then show ?case by (intro exI [of _ f] exI [of _ k] exI [of _ "[]"]) simp
next
  case (Cons seg segs)
  obtain k1 bs seg1 where w: "tun_adapter_write K gni seg ((f, ad), k) = (with_ports sp dp seg, ((register_write f, ad), k1), Inr ())"
    "packets (fw_fd f) k1 = packets (fw_fd f) k @ [bs]" "tun_read gai gni peer bs = (peer, Inr (Some seg1))"
    "same_segment (with_ports sp dp seg) seg1"
    using tun_adapter_carries [OF K l, of seg f k gai] Cons.prems by auto
  obtain f' k' pkts segs' where IH: "send_segments (tun_ops K gai gni) segs ((register_write f, ad), k1) = ([], ((f', ad), k'), Inr ())"
    "fw_fd f' = fw_fd f" "packets (fw_fd f) k' = packets (fw_fd f) k1 @ pkts"
    "map (tun_read gai gni peer) pkts = map (\<lambda>seg. (peer, Inr (Some seg))) segs'"
    "list_all2 same_segment (map (with_ports sp dp) segs) segs'"
    using Cons.IH [of "register_write f" k1] Cons.prems by auto
  have at: "at_write (tun_ops K gai gni) = tun_adapter_write K gni" by (simp add: tun_ops_def base_ops_def)
  show ?case using w IH at by (intro exI [of _ f'] exI [of _ k'] exI [of _ "bs # pkts"] exI [of _ "seg1 # segs'"]) simp
qed

text \<open>C23. When the device is writable, the socket on a TUN device sends every queued segment in order, each as one
  packet, and leaves the queue empty; an adapter configured as its peer reads exactly these segments from the packets, with the ports filled
  in.\<close>

theorem segments_reach_peer:
  assumes "packet_spec K packets" and "ss_tcp s = Some c" and "ss_datagram_adapter s = (f, ad)"
    and "tun_linked gni ad peer sp dp" and "\<forall>seg \<in> set (cn_segments_out c). sendable seg"
  shows "\<exists>s' pkts segs'. segments_callback (tun_ops K gai gni) s = (s', Inr ()) \<and>
    ss_tcp s' = Some (c\<lparr>cn_segments_out := []\<rparr>) \<and>
    packets (fw_fd f) (ss_sys s') = packets (fw_fd f) (ss_sys s) @ pkts \<and>
    map (tun_read gai gni peer) pkts = map (\<lambda>seg. (peer, Inr (Some seg))) segs' \<and>
    list_all2 same_segment (map (with_ports sp dp) (cn_segments_out c)) segs'"
proof -
  from send_segments_carries [OF assms(1,4,5), where f = f and k = "ss_sys s" and gai = gai] obtain f' k' pkts segs' where
    "send_segments (tun_ops K gai gni) (cn_segments_out c) ((f, ad), ss_sys s) = ([], ((f', ad), k'), Inr ())"
    "packets (fw_fd f) k' = packets (fw_fd f) (ss_sys s) @ pkts"
    "map (tun_read gai gni peer) pkts = map (\<lambda>seg. (peer, Inr (Some seg))) segs'"
    "list_all2 same_segment (map (with_ports sp dp) (cn_segments_out c)) segs'" by blast
  then show ?thesis using assms(2,3) by (intro exI conjI) (auto simp: segments_callback_def)
qed

definition demo_packets :: "int \<Rightarrow> (int \<times> bytes) list \<times> (int \<times> bytes) list \<Rightarrow> bytes list" where
  "demo_packets fd k = map snd (filter (\<lambda>x. fst x = fd) (snd k))"

text \<open>The connection after \<^verbatim>\<open>connect\<close>.\<close>

lemma stamp_sendable: "sendable seg \<Longrightarrow> sendable (stamp r seg)"
  by (simp add: sendable_def tcp_header_wf_def stamp_def Let_def split: option.splits)

lemma syn_sendable: "sendable (syn_segment isn)"
  by (simp add: sendable_def tcp_header_wf_def syn_segment_def tcp_header_new_def)

theorem segments_reach_peer_witness:
  "\<exists>s' pkt seg'. segments_callback (tun_ops demo_sys number_resolver number_namer)
       (demo_socket (cn_connect (tcp_connection_new tcp_config_default 9))) = (s', Inr ()) \<and>
     demo_packets 7 (ss_sys s') = [pkt] \<and>
     tun_read number_resolver number_namer (adapter_of (2, 80) (1, 1000)) pkt = (adapter_of (2, 80) (1, 1000), Inr (Some seg')) \<and>
     th_syn (sg_header seg') \<and> th_dport (sg_header seg') = 80"
proof -
  let ?c = "cn_connect (tcp_connection_new tcp_config_default 9)"
  let ?peer = "adapter_of (2, 80) (1, 1000)"
  have K: "packet_spec demo_sys demo_packets" by (simp add: packet_spec_def demo_sys_def demo_packets_def)
  have t: "ss_tcp (demo_socket ?c) = Some ?c" "ss_datagram_adapter (demo_socket ?c) = (demo_fd 7, adapter_of (1, 1000) (2, 80))"
    by (simp_all add: demo_socket_def)
  have l: "tun_linked number_namer (adapter_of (1, 1000) (2, 80)) ?peer 1000 80"
    unfolding tun_linked_def
    by (intro conjI exI [of _ 1] exI [of _ 2] number_namer_numeric adapter_of_endpoints)
  have seg: "\<forall>seg \<in> set (cn_segments_out ?c). sendable seg" by (simp add: cn_connect_new stamp_sendable syn_sendable)
  obtain s' pkts segs' where r: "segments_callback (tun_ops demo_sys number_resolver number_namer) (demo_socket ?c) = (s', Inr ())"
    "demo_packets (fw_fd (demo_fd 7)) (ss_sys s') = demo_packets (fw_fd (demo_fd 7)) (ss_sys (demo_socket ?c)) @ pkts"
    "map (tun_read number_resolver number_namer ?peer) pkts = map (\<lambda>seg. (?peer, Inr (Some seg))) segs'"
    "list_all2 same_segment (map (with_ports 1000 80) (cn_segments_out ?c)) segs'"
    using segments_reach_peer [OF K t l seg, of number_resolver] by blast
  then obtain pkt seg' where "pkts = [pkt]" "segs' = [seg']" by (cases pkts; cases segs'; auto simp: cn_connect_new list_all2_Cons1)
  moreover have "th_syn (sg_header seg') = True \<and> th_dport (sg_header seg') = 80" if "segs' = [seg']"
    using r(4) that same_segment_fields [of "with_ports 1000 80 (hd (cn_segments_out ?c))" seg']
    by (simp add: cn_connect_new) (simp add: syn_segment_def)
  ultimately show ?thesis using r by (auto simp: demo_defs demo_packets_def)
qed

text \<open>On a fresh socket \<^verbatim>\<open>connect\<close> enters its loop with the four rules, the connection in SYN_SENT and exactly the SYN in the queue; its check of the state
  never fails.  On a socket that is in use it throws and changes nothing.\<close>

theorem sponge_connect_sends_syn:
  assumes "0 < cfg_recv_capacity cfg" "cfg_recv_capacity cfg < U64"
    and "address_to_string gni (fa_destination c_ad) = Inr name"
  shows "if ss_tcp s = None
    then \<exists>s1 c isn. sponge_connect K A gni cfg c_ad ([], s) =
      start_thread (\<lambda>_. Inr name) (tcp_loop K A (tcp_state_in [SYN_SENT]) (sponge_rules K A gni [], s1)) \<and>
      ss_tcp s1 = Some c \<and> cn_state c = tcp_state_of SYN_SENT \<and>
      cn_segments_out c = [stamp (tcp_receiver_new (cfg_recv_capacity cfg)) (syn_segment isn)]
    else sponge_connect K A gni cfg c_ad ([], s) =
      Some (([], s), Inl (Runtime_error ''connect() with TCPConnection already initialized''))"
proof (cases "ss_tcp s = None")
  case fresh: True
  obtain k rnd where r: "k_random_device K (ss_sys s) = (k, rnd)" by fastforce
  let ?c = "cn_connect (tcp_connection_new cfg rnd)"
  let ?s = "s\<lparr>ss_sys := k, ss_datagram_adapter := at_set_config A c_ad (ss_datagram_adapter s), ss_tcp := Some ?c\<rparr>"
  have st: "cn_state ?c = tcp_state_of SYN_SENT" unfolding cn_connect_new by (rule conn_states(2) [OF assms(1,2)])
  then have "sponge_connect K A gni cfg c_ad ([], s) =
      start_thread (\<lambda>_. Inr name) (tcp_loop K A (tcp_state_in [SYN_SENT]) (sponge_rules K A gni [], ?s))"
    using fresh r assms(3) by (simp add: sponge_connect_def initialize_TCP_def tcp_state_in_def tcp_state_eq_iff)
  then have "\<exists>s1 c isn. sponge_connect K A gni cfg c_ad ([], s) =
      start_thread (\<lambda>_. Inr name) (tcp_loop K A (tcp_state_in [SYN_SENT]) (sponge_rules K A gni [], s1)) \<and>
      ss_tcp s1 = Some c \<and> cn_state c = tcp_state_of SYN_SENT \<and>
      cn_segments_out c = [stamp (tcp_receiver_new (cfg_recv_capacity cfg)) (syn_segment isn)]"
    using st by (intro exI [of _ ?s] exI [of _ ?c] exI [of _ "cfg_isn cfg rnd"]) (simp add: cn_connect_new)
  with fresh show ?thesis by simp
next
  case False
  then have "sponge_connect K A gni cfg c_ad ([], s) =
      Some (([], s), Inl (Runtime_error ''connect() with TCPConnection already initialized''))"
    by (simp add: sponge_connect_def)
  then show ?thesis unfolding if_not_P [OF False] .
qed

theorem sponge_connect_sends_syn_witness:
  "\<exists>name s1 c. sponge_connect demo_sys (tun_ops demo_sys number_resolver number_namer) number_namer tcp_config_default
      (ab_cfg (adapter_of (1, 1000) (2, 80))) ([], (demo_socket (tcp_connection_new tcp_config_default 9))\<lparr>ss_tcp := None\<rparr>) =
    start_thread (\<lambda>_. Inr name)
      (tcp_loop demo_sys (tun_ops demo_sys number_resolver number_namer) (tcp_state_in [SYN_SENT])
         (sponge_rules demo_sys (tun_ops demo_sys number_resolver number_namer) number_namer [], s1)) \<and>
    ss_tcp s1 = Some c \<and> cn_state c = tcp_state_of SYN_SENT"
proof -
  let ?A = "tun_ops demo_sys number_resolver number_namer"
  let ?cfg = "ab_cfg (adapter_of (1, 1000) (2, 80))"
  have cap: "0 < cfg_recv_capacity tcp_config_default" "cfg_recv_capacity tcp_config_default < U64"
    by (simp_all add: tcp_config_default_def DEFAULT_CAPACITY_def)
  have "\<exists>name. address_to_string number_namer (fa_destination ?cfg) = Inr name"
    using ip_port_endpoint [OF number_namer_numeric] by (simp add: adapter_of_def address_to_string_def)
  then obtain name where n: "address_to_string number_namer (fa_destination ?cfg) = Inr name" by blast
  from sponge_connect_sends_syn [OF cap n, where s = "(demo_socket (tcp_connection_new tcp_config_default 9))\<lparr>ss_tcp := None\<rparr>" and K = demo_sys and A = ?A]
  show ?thesis by (auto simp del: tcp_state_of.simps)
qed

end
