(* ===== verification/Stream_Copy.thy ===== *)
theory Stream_Copy
  imports Sponge_Socket
begin

text \<open>
  \<^verbatim>\<open>apps/bidirectional_stream_copy.cc\<close>: bytes are copied from standard input to a socket and from the socket to standard
  output, through two byte streams, by the event loop.  The two directions use the same two operations: \<open>pull\<close> reads from a descriptor into a
  stream, \<open>push\<close> writes from a stream to a descriptor and closes it at the end of the stream.  The loop may run forever.
\<close>

record 'k copy =
  cp_socket :: fd_wrapper
  cp_input :: fd_wrapper
  cp_output :: fd_wrapper
  cp_outbound :: byte_stream
  cp_inbound :: byte_stream
  cp_outbound_shutdown :: bool
  cp_inbound_shutdown :: bool
  cp_sys :: 'k

definition max_copy_length :: nat where
  "max_copy_length = 65536"

definition copy_buffer_size :: nat where
  "copy_buffer_size = 1048576"

definition pull :: "('k, 'z) net_kernel_scheme \<Rightarrow> fd_wrapper \<times> byte_stream \<times> 'k \<Rightarrow> (fd_wrapper \<times> byte_stream \<times> 'k) \<times> (exn + unit)" where
  "pull K x =
     (let (f, b, k) = x; ((f, k), r) = fd_read K (bs_remaining_capacity b) (f, k)
      in call (f, b, k) r (\<lambda>data.
         let b = fst (bs_write data b); b = (if fw_eof f then bs_end_input b else b) in ((f, b, k), Inr ())))"

text \<open>The result tells whether the descriptor was closed.\<close>

definition push :: "('k, 'z) net_kernel_scheme \<Rightarrow> (fd_wrapper \<times> 'k \<Rightarrow> (fd_wrapper \<times> 'k) \<times> (exn + unit)) \<Rightarrow>
    fd_wrapper \<times> byte_stream \<times> 'k \<Rightarrow> (fd_wrapper \<times> byte_stream \<times> 'k) \<times> (exn + bool)" where
  "push K finish x =
     (let (f, b, k) = x; bytes_to_write = min max_copy_length (bs_buffer_size b);
          ((f, k), r) = fd_write_string K (bs_peek_output bytes_to_write b) False (f, k)
      in call (f, b, k) r (\<lambda>bytes_written.
         let b = bs_pop_output bytes_written b
         in if bs_eof b
            then (let ((f, k), r) = finish (f, k) in ((f, b, k), map_sum id (\<lambda>_. True) r))
            else ((f, b, k), Inr False)))"

subsection \<open>The four rules\<close>

definition stdin_callback :: "('k, 'z) net_kernel_scheme \<Rightarrow> 'k copy \<Rightarrow> 'k copy \<times> (exn + unit)" where
  "stdin_callback K s =
     (let ((f, b, k), r) = pull K (cp_input s, cp_outbound s, cp_sys s) in (s\<lparr>cp_input := f, cp_outbound := b, cp_sys := k\<rparr>, r))"

definition stdin_interest :: "'k copy \<Rightarrow> exn + bool" where
  "stdin_interest s = Inr (\<not> bs_error (cp_outbound s) \<and> bs_remaining_capacity (cp_outbound s) > 0 \<and> \<not> bs_error (cp_inbound s))"

definition end_outbound :: "'k copy \<Rightarrow> 'k copy \<times> (exn + unit)" where
  "end_outbound s = (s\<lparr>cp_outbound := bs_end_input (cp_outbound s)\<rparr>, Inr ())"

definition socket_out_callback :: "('k, 'z) net_kernel_scheme \<Rightarrow> 'k copy \<Rightarrow> 'k copy \<times> (exn + unit)" where
  "socket_out_callback K s =
     (let ((f, b, k), r) = push K (socket_shutdown K SHUT_WR) (cp_socket s, cp_outbound s, cp_sys s);
          s = s\<lparr>cp_socket := f, cp_outbound := b, cp_sys := k\<rparr>
      in call s r (\<lambda>closed. (if closed then s\<lparr>cp_outbound_shutdown := True\<rparr> else s, Inr ())))"

definition socket_out_interest :: "'k copy \<Rightarrow> exn + bool" where
  "socket_out_interest s = Inr (\<not> bs_buffer_empty (cp_outbound s) \<or> bs_eof (cp_outbound s) \<and> \<not> cp_outbound_shutdown s)"

definition socket_in_callback :: "('k, 'z) net_kernel_scheme \<Rightarrow> 'k copy \<Rightarrow> 'k copy \<times> (exn + unit)" where
  "socket_in_callback K s =
     (let ((f, b, k), r) = pull K (cp_socket s, cp_inbound s, cp_sys s) in (s\<lparr>cp_socket := f, cp_inbound := b, cp_sys := k\<rparr>, r))"

definition socket_in_interest :: "'k copy \<Rightarrow> exn + bool" where
  "socket_in_interest s = Inr (\<not> bs_error (cp_inbound s) \<and> bs_remaining_capacity (cp_inbound s) > 0 \<and> \<not> bs_error (cp_outbound s))"

definition end_inbound :: "'k copy \<Rightarrow> 'k copy \<times> (exn + unit)" where
  "end_inbound s = (s\<lparr>cp_inbound := bs_end_input (cp_inbound s)\<rparr>, Inr ())"

definition stdout_callback :: "('k, 'z) net_kernel_scheme \<Rightarrow> 'k copy \<Rightarrow> 'k copy \<times> (exn + unit)" where
  "stdout_callback K s =
     (let ((f, b, k), r) = push K (fd_close K) (cp_output s, cp_inbound s, cp_sys s);
          s = s\<lparr>cp_output := f, cp_inbound := b, cp_sys := k\<rparr>
      in call s r (\<lambda>closed. (if closed then s\<lparr>cp_inbound_shutdown := True\<rparr> else s, Inr ())))"

definition stdout_interest :: "'k copy \<Rightarrow> exn + bool" where
  "stdout_interest s = Inr (\<not> bs_buffer_empty (cp_inbound s) \<or> bs_eof (cp_inbound s) \<and> \<not> cp_inbound_shutdown s)"

definition copy_rules :: "('k, 'z) net_kernel_scheme \<Rightarrow> 'k copy rule list" where
  "copy_rules K =
     (let rules = add_rule cp_input Dir_In (stdin_callback K) stdin_interest end_outbound [];
          rules = add_rule cp_socket Dir_Out (socket_out_callback K) socket_out_interest end_outbound rules;
          rules = add_rule cp_socket Dir_In (socket_in_callback K) socket_in_interest end_inbound rules
      in add_rule cp_output Dir_Out (stdout_callback K) stdout_interest end_inbound rules)"

subsection \<open>The loop\<close>

definition copy_poll :: "('k, 'z) sys_scheme \<Rightarrow> 'k copy poll_fun" where
  "copy_poll K ps t s = (let (k, r, revents) = k_poll K ps t (cp_sys s) in (s\<lparr>cp_sys := k\<rparr>, r, revents))"

partial_function (option) copy_loop :: "('k, 'z) sys_scheme \<Rightarrow> 'k copy rule list \<times> 'k copy \<Rightarrow>
    (('k copy rule list \<times> 'k copy) \<times> (exn + unit)) option" where
  "copy_loop K x =
     (case wait_next_event (copy_poll K) (- 1) x of
        (x, Inl e) \<Rightarrow> Some (x, Inl e)
      | (x, Inr r) \<Rightarrow> if r = Exit then Some (x, Inr ()) else copy_loop K x)"

text \<open>
  The state when the loop starts: three descriptors in non-blocking mode.  A call that fails leaves the wrappers for standard input and output
  to their destructors, as the end of the loop does.
\<close>

definition copy_start :: "('k, 'z) net_kernel_scheme \<Rightarrow> fd_wrapper \<times> 'k \<Rightarrow> (fd_wrapper \<times> 'k) \<times> (exn + 'k copy)" where
  "copy_start K x =
     (let (socket, k) = x
      in call (socket, k) (fd_new 0) (\<lambda>input.
         call (socket, snd (fd_destroy K (input, k))) (fd_new 1) (\<lambda>output.
         let finish = (\<lambda>input output k. snd (fd_destroy K (input, snd (fd_destroy K (output, k)))));
             ((socket, k), r0) = set_blocking K False (socket, k)
         in call (socket, finish input output k) r0 (\<lambda>_.
         let ((input, k), r1) = set_blocking K False (input, k)
         in call (socket, finish input output k) r1 (\<lambda>_.
         let ((output, k), r2) = set_blocking K False (output, k)
         in call (socket, finish input output k) r2 (\<lambda>_.
            ((socket, k), Inr \<lparr>cp_socket = socket, cp_input = input, cp_output = output, cp_outbound = bs_new copy_buffer_size,
               cp_inbound = bs_new copy_buffer_size, cp_outbound_shutdown = False, cp_inbound_shutdown = False, cp_sys = k\<rparr>)))))))"

definition bidirectional_stream_copy :: "('k, 'z) sys_scheme \<Rightarrow> fd_wrapper \<times> 'k \<Rightarrow> ((fd_wrapper \<times> 'k) \<times> (exn + unit)) option" where
  "bidirectional_stream_copy K x =
     (case copy_start K x of
        (x, Inl e) \<Rightarrow> Some (x, Inl e)
      | (_, Inr s) \<Rightarrow>
          (case copy_loop K (copy_rules K, s) of
             None \<Rightarrow> None
           | Some ((_, s), r) \<Rightarrow>
               (let (_, k) = fd_destroy K (cp_output s, cp_sys s); (_, k) = fd_destroy K (cp_input s, k)
                in Some ((cp_socket s, k), r))))"

subsection \<open>The invariant\<close>

text \<open>
  What has been read from the source has been accepted by the sink or is in the stream; the stream is in order.
\<close>

definition in_transit :: "bytes \<Rightarrow> bytes \<Rightarrow> byte_stream \<Rightarrow> bool" where
  "in_transit taken given b \<longleftrightarrow> bs_inv b \<and> taken = given @ bs_buffer b"

text \<open>The system moves no bytes by closing a descriptor, changing its flags or waiting.\<close>

definition copy_world :: "('k, 'z) sys_scheme \<Rightarrow> (int \<Rightarrow> 'k \<Rightarrow> bytes) \<Rightarrow> (int \<Rightarrow> 'k \<Rightarrow> bytes) \<Rightarrow> bool" where
  "copy_world K got sent \<longleftrightarrow>
     io_spec K got sent \<and> (\<forall>ps t k. quiet got sent k (fst (k_poll K ps t k))) \<and> (\<forall>fd k. quiet got sent k (fst (k_close K fd k))) \<and>
     (\<forall>fd k. quiet got sent k (fst (k_getfl K fd k))) \<and> (\<forall>fd fl k. quiet got sent k (fst (k_setfl K fd fl k)))"

definition copy_inv :: "('k, 'z) sys_scheme \<Rightarrow> (int \<Rightarrow> 'k \<Rightarrow> bytes) \<Rightarrow> (int \<Rightarrow> 'k \<Rightarrow> bytes) \<Rightarrow> 'k copy \<Rightarrow> bool" where
  "copy_inv K got sent s \<longleftrightarrow>
     copy_world K got sent \<and> distinct [fw_fd (cp_socket s), fw_fd (cp_input s), fw_fd (cp_output s)] \<and>
     in_transit (got (fw_fd (cp_input s)) (cp_sys s)) (sent (fw_fd (cp_socket s)) (cp_sys s)) (cp_outbound s) \<and>
     in_transit (got (fw_fd (cp_socket s)) (cp_sys s)) (sent (fw_fd (cp_output s)) (cp_sys s)) (cp_inbound s)"

lemma in_transit_end [simp]: "in_transit taken given (bs_end_input b) = in_transit taken given b"
  by (simp add: in_transit_def) (simp add: bs_end_input_def)

lemma in_transit_write:
  assumes "in_transit taken given b" "length d \<le> bs_remaining_capacity b"
  shows "in_transit (taken @ d) given (fst (bs_write d b))"
proof -
  have inv: "bs_inv b" using assms(1) by (simp add: in_transit_def)
  have "min (length d) (bs_capcity b - bs_size b) = length d" using assms(2) inv by (simp add: bs_remaining_capacity_def bs_room)
  then have "bs_buffer (fst (bs_write d b)) = bs_buffer b @ d" by (simp add: bs_write_eq [OF inv refl])
  then show ?thesis using assms(1) bs_write_inv [OF inv] by (simp add: in_transit_def)
qed

lemma in_transit_pop:
  assumes "in_transit taken given b"
  shows "in_transit taken (given @ bs_peek_output n b) (bs_pop_output n b)"
proof -
  have "bs_inv b" using assms by (simp add: in_transit_def)
  then have "bs_inv (bs_pop_output n b)" using bs_read_inv [of b n] by (simp add: bs_pop_output_eq)
  then show ?thesis using assms by (simp add: in_transit_def bs_peek_output_def) (simp add: bs_pop_output_def Let_def)
qed

text \<open>One read moves bytes from the source into the stream, one write from the stream to the sink.\<close>

lemma pull_spec:
  assumes io: "io_spec K got sent" and t: "in_transit (got (fw_fd f) k) given b" and run: "pull K (f, b, k) = ((f', b', k'), r)"
  shows "fw_fd f' = fw_fd f" "in_transit (got (fw_fd f) k') given b'" "sent g k' = sent g k" "g \<noteq> fw_fd f \<Longrightarrow> got g k' = got g k"
proof -
  obtain f1 k1 r1 where rd: "fd_read K (bs_remaining_capacity b) (f, k) = ((f1, k1), r1)" by (metis prod.exhaust)
  note x = fd_read_io [OF io rd]
  have len: "length d \<le> bs_remaining_capacity b" if "r1 = Inr d" for d
    using fd_read_spec [OF io_specD(2) [OF io] rd] that by auto
  have eq: "f' = f1" "k' = k1" using run rd by (auto simp: pull_def call_def Let_def split: sum.splits)
  show "fw_fd f' = fw_fd f" "sent g k' = sent g k" "g \<noteq> fw_fd f \<Longrightarrow> got g k' = got g k" using x by (simp_all add: eq)
  show "in_transit (got (fw_fd f) k') given b'"
  proof (cases r1)
    case (Inl e)
    then show ?thesis using run rd x(3) t by (auto simp: pull_def call_def eq)
  next
    case (Inr d)
    then show ?thesis using run rd x(3) in_transit_write [OF t len [OF Inr]] by (auto simp: pull_def call_def eq Let_def)
  qed
qed

lemma push_spec:
  assumes io: "io_spec K got sent" and t: "in_transit taken (sent (fw_fd f) k) b" and run: "push K finish (f, b, k) = ((f', b', k'), r)"
    and fin: "\<And>f k f' k' r. finish (f, k) = ((f', k'), r) \<Longrightarrow> fw_fd f' = fw_fd f \<and> quiet got sent k k'"
  shows "fw_fd f' = fw_fd f \<and> in_transit taken (sent (fw_fd f) k') b' \<and> (\<forall>g. got g k' = got g k) \<and> (\<forall>g. g \<noteq> fw_fd f \<longrightarrow> sent g k' = sent g k)"
proof -
  let ?d = "bs_peek_output (min max_copy_length (bs_buffer_size b)) b"
  have len: "length ?d < 2 ^ 62" by (simp add: bs_peek_output_def max_copy_length_def)
  have got: "\<forall>g. got g k1 = got g k" if "fd_write_string K ?d False (f, k) = ((f1, k1), r1)" for f1 k1 r1
    using fd_write_got [OF io, of "[?d]" False f k f1 k1 r1] that by (simp add: fd_write_string_def)
  show ?thesis
  proof (rule fd_write_once [OF io_specD(1) [OF io] len, of f k], goal_cases)
    case (1 k1 e)
    then show ?case using run t got [OF 1(1)] by (auto simp: push_def Let_def)
  next
    case (2 n k1)
    have t1: "in_transit taken (sent (fw_fd f) k1) (bs_pop_output n b)" using 2(4) peek_peek [OF 2(1)] in_transit_pop [OF t, of n] by simp
    show ?case
    proof (cases "bs_eof (bs_pop_output n b)")
      case False
      then have "f' = register_write f" "b' = bs_pop_output n b" "k' = k1" using run 2(3) by (simp_all add: push_def Let_def)
      then show ?thesis using t1 got [OF 2(3)] 2(5) by (simp add: register_write_def)
    next
      case True
      obtain f2 k2 r2 where c: "finish (register_write f, k1) = ((f2, k2), r2)" by (metis prod.exhaust)
      then have "f' = f2" "b' = bs_pop_output n b" "k' = k2" using run 2(3) True by (simp_all add: push_def Let_def)
      then show ?thesis using t1 got [OF 2(3)] 2(5) fin [OF c] by (simp add: register_write_def quiet_def)
    qed
  qed
qed

text \<open>The callbacks keep the invariant.\<close>

lemma copy_worldD:
  assumes "copy_world K got sent"
  shows "io_spec K got sent" "quiet got sent k (fst (k_poll K ps t k))" "quiet got sent k (fst (k_close K fd k))"
    "quiet got sent k (fst (k_getfl K fd k))" "quiet got sent k (fst (k_setfl K fd fl k))"
  using assms by (simp_all add: copy_world_def)

lemma shutdown_finish:
  assumes "io_spec K got sent" "socket_shutdown K how (f, k) = ((f', k'), r)"
  shows "fw_fd f' = fw_fd f \<and> quiet got sent k k'"
  using socket_shutdown_wrapper [OF assms(2)] io_specD(6) [OF assms(1)] by auto

lemma close_finish:
  assumes "copy_world K got sent" "fd_close K (f, k) = ((f', k'), r)"
  shows "fw_fd f' = fw_fd f \<and> quiet got sent k k'"
proof -
  have "k' = fst (k_close K (fw_fd f) k)" "fw_fd f' = fw_fd f"
    using assms(2) by (auto simp: fd_close_def call_def split: prod.splits sum.splits)
  then show ?thesis using copy_worldD(3) [OF assms(1)] by simp
qed

lemma pull_inv:
  assumes inv: "copy_inv K got sent s"
  shows "copy_inv K got sent (fst (stdin_callback K s))" "copy_inv K got sent (fst (socket_in_callback K s))"
proof -
  have w: "copy_world K got sent" using inv by (simp add: copy_inv_def)
  note io = copy_worldD(1) [OF w]
  obtain f b k r where a: "pull K (cp_input s, cp_outbound s, cp_sys s) = ((f, b, k), r)" by (metis prod.exhaust)
  note x = pull_spec [OF io _ a]
  show "copy_inv K got sent (fst (stdin_callback K s))" using inv x a by (auto simp: copy_inv_def stdin_callback_def)
  obtain f b k r where c: "pull K (cp_socket s, cp_inbound s, cp_sys s) = ((f, b, k), r)" by (metis prod.exhaust)
  note y = pull_spec [OF io _ c]
  show "copy_inv K got sent (fst (socket_in_callback K s))" using inv y c by (auto simp: copy_inv_def socket_in_callback_def)
qed

lemma push_inv:
  assumes inv: "copy_inv K got sent s"
  shows "copy_inv K got sent (fst (socket_out_callback K s))" "copy_inv K got sent (fst (stdout_callback K s))"
proof -
  have w: "copy_world K got sent" using inv by (simp add: copy_inv_def)
  note io = copy_worldD(1) [OF w]
  obtain f b k r where a: "push K (socket_shutdown K SHUT_WR) (cp_socket s, cp_outbound s, cp_sys s) = ((f, b, k), r)" by (metis prod.exhaust)
  have "in_transit (got (fw_fd (cp_input s)) (cp_sys s)) (sent (fw_fd (cp_socket s)) (cp_sys s)) (cp_outbound s)"
    using inv by (simp add: copy_inv_def)
  note x = push_spec [OF io this a]
  let ?s = "s\<lparr>cp_socket := f, cp_outbound := b, cp_sys := k\<rparr>"
  have "copy_inv K got sent ?s" using inv x shutdown_finish [OF io] by (auto simp: copy_inv_def)
  moreover have "fst (socket_out_callback K s) \<in> {?s, ?s\<lparr>cp_outbound_shutdown := True\<rparr>}"
    using a by (cases r) (simp_all add: socket_out_callback_def Let_def)
  ultimately show "copy_inv K got sent (fst (socket_out_callback K s))" by (auto simp: copy_inv_def)
  obtain f b k r where c: "push K (fd_close K) (cp_output s, cp_inbound s, cp_sys s) = ((f, b, k), r)" by (metis prod.exhaust)
  have "in_transit (got (fw_fd (cp_socket s)) (cp_sys s)) (sent (fw_fd (cp_output s)) (cp_sys s)) (cp_inbound s)"
    using inv by (simp add: copy_inv_def)
  note y = push_spec [OF io this c]
  let ?s = "s\<lparr>cp_output := f, cp_inbound := b, cp_sys := k\<rparr>"
  have "copy_inv K got sent ?s" using inv y close_finish [OF w] by (auto simp: copy_inv_def)
  moreover have "fst (stdout_callback K s) \<in> {?s, ?s\<lparr>cp_inbound_shutdown := True\<rparr>}"
    using c by (cases r) (simp_all add: stdout_callback_def Let_def)
  ultimately show "copy_inv K got sent (fst (stdout_callback K s))" by (auto simp: copy_inv_def)
qed

lemma copy_rules_eq:
  "copy_rules K =
     [\<lparr>ru_fd = cp_input, ru_direction = Dir_In, ru_callback = stdin_callback K, ru_interest = stdin_interest, ru_cancel = end_outbound\<rparr>,
      \<lparr>ru_fd = cp_socket, ru_direction = Dir_Out, ru_callback = socket_out_callback K, ru_interest = socket_out_interest, ru_cancel = end_outbound\<rparr>,
      \<lparr>ru_fd = cp_socket, ru_direction = Dir_In, ru_callback = socket_in_callback K, ru_interest = socket_in_interest, ru_cancel = end_inbound\<rparr>,
      \<lparr>ru_fd = cp_output, ru_direction = Dir_Out, ru_callback = stdout_callback K, ru_interest = stdout_interest, ru_cancel = end_inbound\<rparr>]"
  by (simp add: copy_rules_def add_rule_def)

lemma fd_toggle: "f \<noteq> f\<lparr>fw_eof := \<not> fw_eof f\<rparr>"
  by (cases f) simp

lemma other_fd:
  assumes "\<And>s f. g (s\<lparr>cp_socket := f\<rparr>) = g s"
  shows "g \<noteq> (cp_socket :: 'k copy \<Rightarrow> fd_wrapper)"
proof
  fix s
  assume eq: "g = cp_socket"
  have "g s = (g s)\<lparr>fw_eof := \<not> fw_eof (g s)\<rparr>"
    using fun_cong [OF eq, of "s\<lparr>cp_socket := (g s)\<lparr>fw_eof := \<not> fw_eof (g s)\<rparr>\<rparr>"] by (simp add: assms)
  then show False using fd_toggle by metis
qed

lemma copy_rules_distinct: "distinct (copy_rules K)"
  using other_fd [of cp_input] other_fd [of cp_output, symmetric] by (auto simp: copy_rules_eq)

lemma copy_inv_quiet: "copy_inv K got sent s \<Longrightarrow> quiet got sent (cp_sys s) k \<Longrightarrow> copy_inv K got sent (s\<lparr>cp_sys := k\<rparr>)"
  by (simp add: copy_inv_def quiet_def)

interpretation copying: guarded_rules "\<lambda>r. r \<in> set (copy_rules K)" "copy_inv K got sent" "\<lambda>r s. True" "copy_poll K"
  for K :: "('k, 'z) sys_scheme" and got sent
proof (unfold_locales, goal_cases)
  case (2 r s)
  then show ?case using pull_inv push_inv by (auto simp: copy_rules_eq)
next
  case (4 r s)
  then show ?case by (auto simp: copy_rules_eq end_outbound_def end_inbound_def copy_inv_def)
next
  case (6 s ps t s' a)
  then have "s' = s\<lparr>cp_sys := fst (k_poll K ps t (cp_sys s))\<rparr>" by (auto simp: copy_poll_def split: prod.splits)
  moreover have "quiet got sent (cp_sys s) (fst (k_poll K ps t (cp_sys s)))"
    by (rule copy_worldD(2)) (use 6(1) in \<open>simp add: copy_inv_def\<close>)
  ultimately show ?case using copy_inv_quiet [OF 6(1)] by simp
qed simp_all

text \<open>The states of the loop, after any number of events.\<close>

inductive copy_reaches :: "('k, 'z) sys_scheme \<Rightarrow> 'k copy rule list \<times> 'k copy \<Rightarrow> 'k copy rule list \<times> 'k copy \<Rightarrow> bool" for K x0 where
  start: "copy_reaches K x0 x0"
| event: "copy_reaches K x0 x \<Longrightarrow> wait_next_event (copy_poll K) (- 1) x = (x', r) \<Longrightarrow> copy_reaches K x0 x'"

lemma copy_reaches_inv:
  assumes "copy_reaches K (copy_rules K, s0) x" "copy_inv K got sent s0"
  shows "copy_inv K got sent (snd x) \<and> distinct (fst x) \<and> (\<forall>r \<in> set (fst x). r \<in> set (copy_rules K))"
  using assms
proof (induction rule: copy_reaches.induct)
  case start
  then show ?case using copy_rules_distinct by simp
next
  case (event x x' r)
  then have i: "distinct (fst x)" "\<forall>r \<in> set (fst x). r \<in> set (copy_rules K)" "copy_inv K got sent (snd x)" by simp_all
  have "wait_next_event (copy_poll K) (- 1) (fst x, snd x) = ((fst x', snd x'), r)" using event.hyps(2) by simp
  from copying.wait_keeps [OF this i] show ?case by simp
qed

lemma set_blocking_quiet:
  assumes w: "copy_world K got sent" and run: "set_blocking K b (f, k) = ((f', k'), r)"
  shows "f' = f" "got g k' = got g k" "sent g k' = sent g k"
proof -
  obtain k1 r1 where a: "k_getfl K (fw_fd f) k = (k1, r1)" by (metis prod.exhaust)
  have q: "quiet got sent k k1" "quiet got sent k1 (fst (k_setfl K (fw_fd f) fl k1))" for fl
    using copy_worldD(4,5) [OF w] a by (metis fst_conv)+
  have "f' = f \<and> (k' = k1 \<or> (\<exists>fl. k' = fst (k_setfl K (fw_fd f) fl k1)))"
    using run a by (auto simp: set_blocking_def call_def Let_def split: prod.splits sum.splits if_splits) (metis fst_conv)+
  then show "f' = f" "got g k' = got g k" "sent g k' = sent g k" using q by (auto simp: quiet_def)
qed

lemma copy_start_inv:
  assumes w: "copy_world K got sent" and run: "copy_start K (socket, k) = (x, Inr s)" and fd: "fw_fd socket \<notin> {0, 1}"
    and bal: "got 0 k = sent (fw_fd socket) k" "got (fw_fd socket) k = sent 1 k"
  shows "copy_inv K got sent s" "fw_fd (cp_socket s) = fw_fd socket" "fw_fd (cp_input s) = 0" "fw_fd (cp_output s) = 1"
proof -
  obtain i0 o0 where fds: "fd_new 0 = Inr i0" "fd_new 1 = Inr o0" "fw_fd i0 = 0" "fw_fd o0 = 1" by (simp add: fd_new_def)
  obtain s1 k1 r1 where a: "set_blocking K False (socket, k) = ((s1, k1), r1)" by (metis prod.exhaust)
  obtain i2 k2 r2 where b: "set_blocking K False (i0, k1) = ((i2, k2), r2)" by (metis prod.exhaust)
  obtain o3 k3 r3 where c: "set_blocking K False (o0, k2) = ((o3, k3), r3)" by (metis prod.exhaust)
  note q = set_blocking_quiet [OF w a] set_blocking_quiet [OF w b] set_blocking_quiet [OF w c]
  have s: "s = \<lparr>cp_socket = socket, cp_input = i0, cp_output = o0, cp_outbound = bs_new copy_buffer_size,
      cp_inbound = bs_new copy_buffer_size, cp_outbound_shutdown = False, cp_inbound_shutdown = False, cp_sys = k3\<rparr>"
    using run a b c fds(1,2) q(1,4,7) by (auto simp: copy_start_def call_def split: sum.splits)
  have "in_transit t t (bs_new copy_buffer_size)" for t by (simp add: in_transit_def copy_buffer_size_def) (simp add: bs_new_def)
  then show "copy_inv K got sent s" using w fd bal fds(3,4) q by (auto simp: copy_inv_def s)
  show "fw_fd (cp_socket s) = fw_fd socket" "fw_fd (cp_input s) = 0" "fw_fd (cp_output s) = 1" using fds by (simp_all add: s)
qed

subsection \<open>Properties\<close>

text \<open>Two systems for examples, in which every descriptor is ready: reading gives one byte, or finds the end of the file.\<close>

definition ready_sys :: "((int \<times> bytes) list \<times> (int \<times> bytes) list) sys" where
  "ready_sys = demo_sys\<lparr>k_poll := (\<lambda>ps t k. (k, (1, 0), \<lambda>i. pf_events (ps ! i)))\<rparr>"

definition eof_sys :: "((int \<times> bytes) list \<times> (int \<times> bytes) list) sys" where
  "eof_sys = ready_sys\<lparr>k_read := (\<lambda>fd n k. (k, (0, 0), []))\<rparr>"

definition demo_copy :: "((int \<times> bytes) list \<times> (int \<times> bytes) list) copy" where
  "demo_copy =
     \<lparr>cp_socket = demo_fd 5, cp_input = demo_fd 0, cp_output = demo_fd 1, cp_outbound = bs_new copy_buffer_size,
      cp_inbound = bs_new copy_buffer_size, cp_outbound_shutdown = False, cp_inbound_shutdown = False, cp_sys = ([], [])\<rparr>"

lemma demo_copy_start:
  "copy_start ready_sys (demo_fd 5, ([], [])) = ((demo_fd 5, ([], [])), Inr demo_copy)"
  "copy_start eof_sys (demo_fd 5, ([], [])) = ((demo_fd 5, ([], [])), Inr demo_copy)"
  by (simp_all add: copy_start_def set_blocking_def fd_new_def SystemCall_def eof_sys_def ready_sys_def demo_sys_def demo_copy_def demo_fd_def)

lemma demo_copy_world: "copy_world ready_sys demo_got demo_sent" "copy_world eof_sys demo_got demo_sent"
  by (auto simp: copy_world_def io_spec_def ready_sys_def eof_sys_def demo_sys_def writev_spec_def read_spec_def quiet_def demo_got_def
      demo_sent_def Let_def take_min_length)

lemmas demo_copy_defs = wait_next_event_def copy_rules_eq demo_copy_def demo_fd_def stdin_interest_def socket_out_interest_def
  socket_in_interest_def stdout_interest_def copy_poll_def ready_sys_def eof_sys_def demo_sys_def SystemCall_def set_revents_def poll_error_def
  poll_ready_def poll_hup_def direction_events_def POLLIN_def POLLOUT_def POLLERR_def POLLHUP_def POLLNVAL_def stdin_callback_def
  socket_in_callback_def pull_def fd_read_def bs_new_def copy_buffer_size_def bs_remaining_capacity_def bs_write_def push_back_loop.simps
  BUFFER_SIZE_def service_count_def register_read_def bs_error_def bs_eof_def bs_buffer_empty_def no_wrap

lemma demo_copy_event:
  "\<exists>s. wait_next_event (copy_poll ready_sys) (- 1) (copy_rules ready_sys, demo_copy) = ((copy_rules ready_sys, s), Inr Success) \<and>
     cp_sys s = ([(0, [42]), (5, [42])], []) \<and> fw_fd (cp_input s) = 0"
  by (simp add: demo_copy_defs)

text \<open>At the end of both files: the reading rules go, the socket is shut down and standard output closed, and then nothing is left.\<close>

definition demo_ended :: "((int \<times> bytes) list \<times> (int \<times> bytes) list) copy" where
  "demo_ended = demo_copy\<lparr>cp_socket := register_read ((demo_fd 5)\<lparr>fw_eof := True\<rparr>), cp_input := register_read ((demo_fd 0)\<lparr>fw_eof := True\<rparr>),
     cp_outbound := bs_end_input (bs_new copy_buffer_size), cp_inbound := bs_end_input (bs_new copy_buffer_size)\<rparr>"

definition demo_finished :: "((int \<times> bytes) list \<times> (int \<times> bytes) list) copy" where
  "demo_finished = demo_ended\<lparr>cp_socket := register_write (register_write (cp_socket demo_ended)),
     cp_output := (register_write (demo_fd 1))\<lparr>fw_eof := True, fw_closed := True\<rparr>, cp_outbound_shutdown := True, cp_inbound_shutdown := True,
     cp_sys := ([], [(5, []), (1, [])])\<rparr>"

lemma demo_eof_event:
  "wait_next_event (copy_poll eof_sys) (- 1) (copy_rules eof_sys, demo_copy) = ((copy_rules eof_sys, demo_ended), Inr Success)"
  by (simp add: demo_copy_defs demo_ended_def bs_end_input_def)

lemma demo_finish_event:
  "wait_next_event (copy_poll eof_sys) (- 1) (copy_rules eof_sys, demo_ended) =
     (([copy_rules eof_sys ! 1, copy_rules eof_sys ! 3], demo_finished), Inr Success)"
  by (simp add: demo_copy_defs demo_ended_def demo_finished_def bs_end_input_def end_outbound_def end_inbound_def socket_out_callback_def
      stdout_callback_def push_def max_copy_length_def bs_buffer_size_def bs_peek_output_def bs_pop_output_def fd_write_string_def fd_write_def
      fd_write_loop.simps as_iovecs_def bvl_size_def socket_shutdown_def fd_close_def SHUT_WR_def SHUT_RD_def register_write_def Let_def to_size_def)

lemma demo_exit_event:
  "wait_next_event (copy_poll eof_sys) (- 1) ([copy_rules eof_sys ! 1, copy_rules eof_sys ! 3], demo_finished) =
     (([copy_rules eof_sys ! 1], demo_finished), Inr Exit)"
  by (simp add: demo_copy_defs demo_finished_def demo_ended_def bs_end_input_def register_write_def end_inbound_def)

text \<open>C4. However the system splits reads and writes, in whatever order the descriptors become ready, and whichever calls fail: at every moment of the
  loop, the bytes read from standard input are those written to the socket followed by those in the outbound stream, and the bytes read
  from the socket are those written to standard output followed by those in the inbound stream.\<close>

theorem stream_copy_integrity:
  assumes "copy_world K got sent" "copy_start K (socket, k) = (x, Inr s0)" "fw_fd socket \<notin> {0, 1}"
    and "got 0 k = sent (fw_fd socket) k" "got (fw_fd socket) k = sent 1 k"
    and "copy_reaches K (copy_rules K, s0) (rules, s)"
  shows "got (fw_fd (cp_input s)) (cp_sys s) = sent (fw_fd (cp_socket s)) (cp_sys s) @ bs_buffer (cp_outbound s) \<and>
    got (fw_fd (cp_socket s)) (cp_sys s) = sent (fw_fd (cp_output s)) (cp_sys s) @ bs_buffer (cp_inbound s)"
  using copy_reaches_inv [OF assms(6) copy_start_inv(1) [OF assms(1-5)]] by (simp add: copy_inv_def in_transit_def)

theorem stream_copy_integrity_witness:
  "\<exists>s. copy_reaches ready_sys (copy_rules ready_sys, demo_copy) (copy_rules ready_sys, s) \<and>
     demo_got 0 (cp_sys s) = [42] \<and>
     demo_got 0 (cp_sys s) = demo_sent (fw_fd (cp_socket s)) (cp_sys s) @ bs_buffer (cp_outbound s)"
proof -
  obtain s where ev: "wait_next_event (copy_poll ready_sys) (- 1) (copy_rules ready_sys, demo_copy) = ((copy_rules ready_sys, s), Inr Success)"
    and sys: "cp_sys s = ([(0, [42]), (5, [42])], [])" "fw_fd (cp_input s) = 0" using demo_copy_event by blast
  have reach: "copy_reaches ready_sys (copy_rules ready_sys, demo_copy) (copy_rules ready_sys, s)"
    using copy_reaches.event [OF copy_reaches.start ev] .
  have "demo_got (fw_fd (cp_input s)) (cp_sys s) = demo_sent (fw_fd (cp_socket s)) (cp_sys s) @ bs_buffer (cp_outbound s)"
    using stream_copy_integrity [OF demo_copy_world(1) demo_copy_start(1) _ _ _ reach] by (simp add: demo_fd_def demo_got_def demo_sent_def)
  then show ?thesis using reach sys by (auto simp: demo_got_def)
qed

lemma uninterested_empty: "socket_out_interest s = Inr False \<Longrightarrow> bs_size (cp_outbound s) = 0"
  by (simp add: socket_out_interest_def bs_buffer_empty_def)

text \<open>C6. When the loop ends because nothing is left to poll, and not because of a signal, and the socket did not hang up (the rule that writes to
  it is still there), then everything read from standard input has been written to the socket.\<close>

theorem stream_copy_flushes:
  assumes "copy_world K got sent" "copy_start K (socket, k) = (x, Inr s0)" "fw_fd socket \<notin> {0, 1}"
    and "got 0 k = sent (fw_fd socket) k" "got (fw_fd socket) k = sent 1 k"
    and "copy_reaches K (copy_rules K, s0) (rules, s)"
    and "wait_next_event (copy_poll K) (- 1) (rules, s) = ((rules', s'), Inr Exit)"
    and "\<forall>ps t k. snd (fst (snd (k_poll K ps t k))) \<noteq> EINTR" and "copy_rules K ! 1 \<in> set rules'"
  shows "sent (fw_fd (cp_socket s')) (cp_sys s') = got (fw_fd (cp_input s')) (cp_sys s')"
proof -
  have inv: "copy_inv K got sent s'" and rules: "set rules \<subseteq> set (copy_rules K)"
    using copy_reaches_inv [OF copy_reaches.event [OF assms(6,7)] copy_start_inv(1) [OF assms(1-5)]]
      copy_reaches_inv [OF assms(6) copy_start_inv(1) [OF assms(1-5)]] by auto
  obtain rules1 s1 y where su: "poll_setup rules s [] False = (rules1, s1, y)" by (metis prod.exhaust)
  obtain ps where y: "y = Inr (ps, False)" and eq: "rules' = rules1" "s' = s1"
  proof (cases y)
    case (Inr z)
    obtain ps b where z: "z = (ps, b)" by fastforce
    obtain s2 v e revents where p: "copy_poll K ps (- 1) s1 = (s2, (v, e), revents)" by (metis prod.exhaust)
    then have "e \<noteq> EINTR" using assms(8) by (auto simp: copy_poll_def split: prod.splits) (metis fst_conv snd_conv)
    then have "\<not> b" using assms(7) su Inr z p by (auto simp: wait_next_event_def SystemCall_def Let_def split: if_splits sum.splits prod.splits)
    then show ?thesis using that assms(7) su Inr z by (auto simp: wait_next_event_def)
  qed (use assms(7) su in \<open>auto simp: wait_next_event_def\<close>)
  have keep: "\<forall>q \<in> set rules. \<forall>s. bs_size (cp_outbound s) = 0 \<longrightarrow> bs_size (cp_outbound (fst (ru_cancel q s))) = 0"
    using rules by (auto simp: copy_rules_eq end_outbound_def end_inbound_def bs_end_input_def)
  have "\<forall>s. ru_interest (copy_rules K ! 1) s = Inr False \<longrightarrow> bs_size (cp_outbound s) = 0"
    by (auto simp: copy_rules_eq intro: uninterested_empty)
  from poll_setup_idle [OF su [unfolded y] keep this] have "bs_size (cp_outbound s') = 0" using assms(9) eq by simp
  then show ?thesis using inv by (auto simp: copy_inv_def in_transit_def bs_inv_def)
qed

theorem stream_copy_flushes_witness:
  "copy_reaches eof_sys (copy_rules eof_sys, demo_copy) ([copy_rules eof_sys ! 1, copy_rules eof_sys ! 3], demo_finished) \<and>
   demo_sent 5 (cp_sys demo_finished) = demo_got 0 (cp_sys demo_finished)"
proof -
  have reach: "copy_reaches eof_sys (copy_rules eof_sys, demo_copy) ([copy_rules eof_sys ! 1, copy_rules eof_sys ! 3], demo_finished)"
    using copy_reaches.event [OF copy_reaches.event [OF copy_reaches.start demo_eof_event] demo_finish_event] .
  have "\<forall>ps t k. snd (fst (snd (k_poll eof_sys ps t k))) \<noteq> EINTR" by (simp add: eof_sys_def ready_sys_def demo_sys_def EINTR_def)
  from stream_copy_flushes [OF demo_copy_world(2) demo_copy_start(2) _ _ _ reach demo_exit_event this] show ?thesis
    using reach by (simp add: demo_fd_def demo_got_def demo_sent_def demo_finished_def demo_ended_def demo_copy_def register_write_def register_read_def)
qed

end
