(* ===== verification/Sponge_Owner.thy ===== *)
theory Sponge_Owner
  imports Stream_Copy
begin

text \<open>
  The owner's side of \<^verbatim>\<open>TCPSpongeSocket\<close> at the end of its life: \<^verbatim>\<open>wait_until_closed\<close> and the destructor
  (\<^verbatim>\<open>tcp_helpers/tcp_sponge_socket.cc\<close>), and the session that every application runs on a connected socket.  The thread of the socket
  belongs to the system here: \<open>join\<close> is what happens until it has ended, \<open>store_abort\<close> the store to \<^verbatim>\<open>_abort\<close>.
\<close>

text \<open>The error of a call on a descriptor that is not open.\<close>

definition EBADF :: int where
  "EBADF = 9"

definition on_owner :: "(fd_wrapper \<times> 'k \<Rightarrow> (fd_wrapper \<times> 'k) \<times> (exn + 'x)) \<Rightarrow> ('a, 'k) sponge \<Rightarrow> ('a, 'k) sponge \<times> (exn + 'x)" where
  "on_owner m s = (let ((f, k), r) = m (ss_owner s, ss_sys s) in (s\<lparr>ss_owner := f, ss_sys := k\<rparr>, r))"

definition join_thread :: "('k \<Rightarrow> 'k) \<Rightarrow> ('a, 'k) sponge \<Rightarrow> ('a, 'k) sponge" where
  "join_thread join s = (if ss_tcp_thread s then s\<lparr>ss_tcp_thread := False, ss_sys := join (ss_sys s)\<rparr> else s)"

definition wait_until_closed :: "('k, 'z) net_kernel_scheme \<Rightarrow> ('k \<Rightarrow> 'k) \<Rightarrow> ('a, 'k) sponge \<Rightarrow> ('a, 'k) sponge \<times> (exn + unit)" where
  "wait_until_closed K join s = call_on (on_owner (socket_shutdown K SHUT_RDWR) s) (\<lambda>s _. (join_thread join s, Inr ()))"

text \<open>The destructor of a socket whose thread has not been joined tells it to stop.\<close>

definition sponge_destroy :: "('k \<Rightarrow> 'k) \<Rightarrow> ('k \<Rightarrow> 'k) \<Rightarrow> ('a, 'k) sponge \<Rightarrow> ('a, 'k) sponge" where
  "sponge_destroy store_abort join s =
     (if ss_tcp_thread s then join_thread join (s\<lparr>ss_sys := store_abort (ss_sys s)\<rparr>) else s)"

text \<open>The end of a socket's life: the destructor, then the descriptors that its members hold, the last member first.\<close>

definition sponge_end :: "('k, 'z) net_kernel_scheme \<Rightarrow> ('a, 'k) adapter_ops \<Rightarrow> ('k \<Rightarrow> 'k) \<Rightarrow> ('k \<Rightarrow> 'k) \<Rightarrow> ('a, 'k) sponge \<Rightarrow> 'k" where
  "sponge_end K A store_abort join s =
     (let s = sponge_destroy store_abort join s; (_, k) = fd_destroy K (at_fd A (ss_datagram_adapter s), ss_sys s);
          (_, k) = fd_destroy K (ss_thread_data s, k)
      in snd (fd_destroy K (ss_owner s, k)))"

text \<open>The end of the applications: copy between the terminal and the socket, then wait.\<close>

definition copy_session :: "('k, 'z) sys_scheme \<Rightarrow> ('k \<Rightarrow> 'k) \<Rightarrow> ('a, 'k) sponge \<Rightarrow> (('a, 'k) sponge \<times> (exn + unit)) option" where
  "copy_session K join s =
     (case bidirectional_stream_copy K (ss_owner s, ss_sys s) of
        None \<Rightarrow> None
      | Some ((f, k), r) \<Rightarrow> (let s = s\<lparr>ss_owner := f, ss_sys := k\<rparr> in Some (call s r (\<lambda>_. wait_until_closed K join s))))"

end
