(* ===== verification/Router.thy ===== *)
theory Router
  imports Network_Interface
begin

unbundle bit_operations_syntax

text \<open>
  \<^verbatim>\<open>libsponge/router.{hh,cc}\<close>: the interface with a queue of received datagrams, the table of routes and the router.
  The table is a \<^verbatim>\<open>std::set\<close> whose order is the code's comparison; it is the list in iteration order, and an insertion is
  the search of the library's tree (\<open>set_insert_by\<close>), which is determined although the comparison is not a strict
  weak order.  \<^verbatim>\<open>getaddrinfo\<close> and \<^verbatim>\<open>getnameinfo\<close> are parameters.  An index outside the vector of interfaces and a shift by
  a negative count have no meaning in C++ and are \<open>Undefined_behaviour\<close>.
\<close>

record async_interface =
  an_interface :: network_interface
  an_datagrams_out :: "ipv4_datagram list"

definition async_interface_of :: "network_interface \<Rightarrow> async_interface" where
  "async_interface_of ni = \<lparr>an_interface = ni, an_datagrams_out = []\<rparr>"

definition an_recv_frame :: "async_interface \<Rightarrow> ethernet_frame \<Rightarrow> async_interface \<times> (exn + unit)" where
  "an_recv_frame a frame =
     (let (ni, optional_dgram) = recv_frame (an_interface a) frame;
          a = a\<lparr>an_interface := ni\<rparr>
      in case optional_dgram of
           Inl e \<Rightarrow> (a, Inl e)
         | Inr None \<Rightarrow> (a, Inr ())
         | Inr (Some d) \<Rightarrow> (a\<lparr>an_datagrams_out := an_datagrams_out a @ [d]\<rparr>, Inr ()))"

record rout_node =
  rn_route_prefix :: u32
  rn_prefix_length :: byte
  rn_next_hop :: "address option"
  rn_interface_num :: nat

definition rout_less :: "rout_node \<Rightarrow> rout_node \<Rightarrow> bool" where
  "rout_less a b =
     (if rn_next_hop a = None then True
      else if rn_next_hop b = None then False
      else rn_prefix_length a > rn_prefix_length b)"

record router =
  rt_interfaces :: "async_interface list"
  rt_rout_map :: "rout_node list"

definition router_new :: router where
  "router_new = \<lparr>rt_interfaces = [], rt_rout_map = []\<rparr>"

definition add_interface :: "router \<Rightarrow> async_interface \<Rightarrow> router \<times> nat" where
  "add_interface r a = (r\<lparr>rt_interfaces := rt_interfaces r @ [a]\<rparr>, length (rt_interfaces r @ [a]) - 1)"

definition rt_interface :: "router \<Rightarrow> nat \<Rightarrow> exn + async_interface" where
  "rt_interface r n =
     (if n < length (rt_interfaces r) then Inr (rt_interfaces r ! n) else Inl (Out_of_range ''vector::_M_range_check''))"

text \<open>The debugging output of \<^verbatim>\<open>add_route\<close> prints two addresses, and printing may throw.\<close>

definition add_route ::
    "namer \<Rightarrow> router \<Rightarrow> u32 \<Rightarrow> byte \<Rightarrow> address option \<Rightarrow> nat \<Rightarrow> router \<times> (exn + unit)" where
  "add_route gni r route_prefix prefix_length next_hop interface_num =
     (case from_ipv4_numeric route_prefix of
        Inl e \<Rightarrow> (r, Inl e)
      | Inr a \<Rightarrow>
          (case address_ip gni a of
             Inl e \<Rightarrow> (r, Inl e)
           | Inr _ \<Rightarrow>
               (case (case next_hop of None \<Rightarrow> Inr ''(direct)'' | Some h \<Rightarrow> address_ip gni h) of
                  Inl e \<Rightarrow> (r, Inl e)
                | Inr _ \<Rightarrow>
                    (r\<lparr>rt_rout_map := set_insert_by rout_less
                         \<lparr>rn_route_prefix = route_prefix, rn_prefix_length = prefix_length, rn_next_hop = next_hop,
                          rn_interface_num = interface_num\<rparr> (rt_rout_map r)\<rparr>, Inr ()))))"

definition match :: "u32 \<Rightarrow> byte \<Rightarrow> u32 \<Rightarrow> exn + bool" where
  "match rout_ip prefix_len ip =
     (if prefix_len = 0 then Inr True
      else if prefix_len > 32 then Inl (Undefined_behaviour ''shift by a negative count'')
      else Inr (drop_bit (32 - unat prefix_len) rout_ip = drop_bit (32 - unat prefix_len) ip))"

text \<open>The loop over the table: the first route that matches, or none.\<close>

fun find_route :: "rout_node list \<Rightarrow> u32 \<Rightarrow> exn + rout_node option" where
  "find_route [] ip = Inr None"
| "find_route (x # xs) ip =
     (case match (rn_route_prefix x) (rn_prefix_length x) ip of
        Inl e \<Rightarrow> Inl e
      | Inr True \<Rightarrow> Inr (Some x)
      | Inr False \<Rightarrow> find_route xs ip)"

definition send_on :: "router \<Rightarrow> nat \<Rightarrow> ipv4_datagram \<Rightarrow> address \<Rightarrow> router \<times> (exn + unit)" where
  "send_on r i dgram hop =
     (if i < length (rt_interfaces r)
      then (let a = rt_interfaces r ! i;
                (ni, res) = send_datagram (an_interface a) dgram hop
            in (r\<lparr>rt_interfaces := (rt_interfaces r)[i := a\<lparr>an_interface := ni\<rparr>]\<rparr>, res))
      else (r, Inl (Undefined_behaviour ''vector index out of range'')))"

text \<open>The datagram is passed by reference: its time to live is decremented in place.\<close>

definition route_one_datagram ::
    "resolver \<Rightarrow> router \<Rightarrow> ipv4_datagram \<Rightarrow> router \<times> ipv4_datagram \<times> (exn + unit)" where
  "route_one_datagram gai r dgram =
     (if ih_ttl (dg_header dgram) \<le> 1 then (r, dgram, Inr ())
      else
        (let dgram = dgram\<lparr>dg_header := (dg_header dgram)\<lparr>ih_ttl := ih_ttl (dg_header dgram) - 1\<rparr>\<rparr>;
             ip = ih_dst (dg_header dgram)
         in case find_route (rt_rout_map r) ip of
              Inl e \<Rightarrow> (r, dgram, Inl e)
            | Inr None \<Rightarrow> (r, dgram, Inr ())
            | Inr (Some x) \<Rightarrow>
                (case (case rn_next_hop x of Some h \<Rightarrow> Inr h | None \<Rightarrow> address_of_ip gai (to_string (unat ip)) 0) of
                   Inl e \<Rightarrow> (r, dgram, Inl e)
                 | Inr hop \<Rightarrow> (let (r, res) = send_on r (rn_interface_num x) dgram hop in (r, dgram, res)))))"

subsection \<open>Routing the queues\<close>

text \<open>Routing a datagram sends, and so leaves the queues of received datagrams and the table alone.\<close>

lemma send_on_frame:
  assumes "send_on r i d hop = (r', res)"
  shows "map an_datagrams_out (rt_interfaces r') = map an_datagrams_out (rt_interfaces r) \<and> rt_rout_map r' = rt_rout_map r"
proof -
  have "map an_datagrams_out ((rt_interfaces r)[i := (rt_interfaces r ! i)\<lparr>an_interface := x\<rparr>]) =
      map an_datagrams_out (rt_interfaces r)" if "i < length (rt_interfaces r)" for x
    using that by (simp add: map_update list_update_same_conv)
  with assms show ?thesis by (auto simp: send_on_def Let_def split: if_splits prod.splits)
qed

lemma route_one_frame:
  assumes "route_one_datagram gai r d = (r', d', res)"
  shows "map an_datagrams_out (rt_interfaces r') = map an_datagrams_out (rt_interfaces r) \<and> rt_rout_map r' = rt_rout_map r"
  using assms
  by (auto simp: route_one_datagram_def Let_def dest: send_on_frame
      split: if_splits sum.splits option.splits prod.splits)

lemma route_one_length:
  "route_one_datagram gai r d = (r', d', res) \<Longrightarrow> length (rt_interfaces r') = length (rt_interfaces r)"
  using route_one_frame [of gai r d r' d' res] by (metis length_map)

definition queue_of :: "router \<Rightarrow> nat \<Rightarrow> ipv4_datagram list" where
  "queue_of r i = map an_datagrams_out (rt_interfaces r) ! i"

definition set_queue :: "nat \<Rightarrow> ipv4_datagram list \<Rightarrow> router \<Rightarrow> router" where
  "set_queue i q r = r\<lparr>rt_interfaces := (rt_interfaces r)[i := (rt_interfaces r ! i)\<lparr>an_datagrams_out := q\<rparr>]\<rparr>"

lemma route_one_pops:
  assumes "i < length (rt_interfaces r)" "queue_of r i \<noteq> []" "route_one_datagram gai r d = (r', d', res)"
  shows "length (queue_of (set_queue i (tl (queue_of r' i)) r') i) < length (queue_of r i)"
proof -
  have "queue_of r' i = queue_of r i" "i < length (rt_interfaces r')"
    using route_one_frame [OF assms(3)] route_one_length [OF assms(3)] assms(1) by (simp_all add: queue_of_def)
  then show ?thesis using assms(2) by (auto simp: queue_of_def set_queue_def)
qed

text \<open>The inner loop of \<^verbatim>\<open>route\<close>: the front of the queue is routed where it lies and popped afterwards.\<close>

function route_queue :: "resolver \<Rightarrow> nat \<Rightarrow> router \<Rightarrow> router \<times> (exn + unit)" where
  "route_queue gai i r =
     (if i < length (rt_interfaces r) \<and> queue_of r i \<noteq> []
      then (case route_one_datagram gai r (hd (queue_of r i)) of
              (r', d, Inl e) \<Rightarrow> (set_queue i (d # tl (queue_of r' i)) r', Inl e)
            | (r', d, Inr _) \<Rightarrow> route_queue gai i (set_queue i (tl (queue_of r' i)) r'))
      else (r, Inr ()))"
  by pat_completeness auto
termination
  by (relation "measure (\<lambda>(gai, i, r). length (queue_of r i))")
    (auto intro: route_one_pops [OF _ _ sym])

declare route_queue.simps [simp del]

fun route_from :: "resolver \<Rightarrow> nat list \<Rightarrow> router \<Rightarrow> router \<times> (exn + unit)" where
  "route_from gai [] r = (r, Inr ())"
| "route_from gai (i # is') r =
     (case route_queue gai i r of (r, Inl e) \<Rightarrow> (r, Inl e) | (r, Inr _) \<Rightarrow> route_from gai is' r)"

definition route :: "resolver \<Rightarrow> router \<Rightarrow> router \<times> (exn + unit)" where
  "route gai r = route_from gai [0 ..< length (rt_interfaces r)] r"

subsection \<open>The table of routes\<close>

definition direct :: "rout_node \<Rightarrow> bool" where
  "direct x \<longleftrightarrow> rn_next_hop x = None"

text \<open>The routes in iteration order: the direct ones, then the others by strictly decreasing prefix length.\<close>

definition table_ok :: "rout_node list \<Rightarrow> rout_node list \<Rightarrow> bool" where
  "table_ok ds gs \<longleftrightarrow> (\<forall>x \<in> set ds. direct x) \<and> (\<forall>x \<in> set gs. \<not> direct x) \<and>
     sorted_wrt (\<lambda>a b. rn_prefix_length a > rn_prefix_length b) gs"

definition route_table :: "rout_node list \<Rightarrow> rout_node list" where
  "route_table rs = foldl (\<lambda>t k. set_insert_by rout_less k t) [] rs"

text \<open>Of the routes with a next hop, the first that was added for each prefix length.\<close>

definition add_first :: "rout_node list \<Rightarrow> rout_node \<Rightarrow> rout_node list" where
  "add_first acc k =
     (if direct k \<or> (\<exists>g \<in> set acc. rn_prefix_length g = rn_prefix_length k) then acc else acc @ [k])"

definition first_gateways :: "rout_node list \<Rightarrow> rout_node list" where
  "first_gateways rs = foldl add_first [] rs"

lemma insert_direct: "direct k \<Longrightarrow> set_insert_by rout_less k t = k # t"
proof -
  assume "direct k"
  then have "rout_less k e" for e by (simp add: rout_less_def direct_def)
  then show ?thesis by (cases t) (simp_all add: set_insert_by_def upper_bound_by_def)
qed

lemma gateway_less:
  assumes "\<not> direct k"
  shows "rout_less k e \<longleftrightarrow> \<not> direct e \<and> rn_prefix_length k > rn_prefix_length e"
    and "rout_less e k \<longleftrightarrow> direct e \<or> rn_prefix_length e > rn_prefix_length k"
  using assms by (auto simp: rout_less_def direct_def)

lemma insert_gateway:
  assumes ok: "table_ok ds gs" and k: "\<not> direct k"
  defines "ls \<equiv> takeWhile (\<lambda>e. rn_prefix_length k \<le> rn_prefix_length e) gs"
    and "rs \<equiv> dropWhile (\<lambda>e. rn_prefix_length k \<le> rn_prefix_length e) gs"
  shows "set_insert_by rout_less k (ds @ gs) =
    (if \<exists>g \<in> set gs. rn_prefix_length g = rn_prefix_length k then ds @ gs else ds @ ls @ k # rs)"
proof -
  let ?p = "\<lambda>e. \<not> rout_less k e" and ?q = "\<lambda>e. rn_prefix_length k \<le> rn_prefix_length e"
  have ds: "\<forall>x \<in> set ds. ?p x" and gs: "\<And>x. x \<in> set gs \<Longrightarrow> ?p x = ?q x"
    using ok gateway_less(1) [OF k] by (auto simp: table_ok_def not_less)
  have "takeWhile ?p gs = ls" "dropWhile ?p gs = rs"
    unfolding ls_def rs_def using gs by (auto intro: takeWhile_cong dropWhile_cong)
  then have ub: "upper_bound_by rout_less k (ds @ gs) = (ds @ ls, rs)"
    using ds by (simp add: upper_bound_by_def)
  have split: "gs = ls @ rs" by (simp add: ls_def rs_def)
  have mid: "\<forall>x \<in> set rs. rn_prefix_length x < rn_prefix_length k"
  proof (cases rs)
    case (Cons r rs')
    then have "rn_prefix_length r < rn_prefix_length k" unfolding rs_def by (auto simp: dropWhile_eq_Cons_conv)
    moreover have "\<forall>x \<in> set rs'. rn_prefix_length x < rn_prefix_length r"
      using ok split Cons by (simp add: table_ok_def sorted_wrt_append)
    ultimately show ?thesis using Cons by fastforce
  qed simp
  have lsq: "\<forall>x \<in> set ls. ?q x" unfolding ls_def by (auto dest: set_takeWhileD)
  have iff: "ds @ ls = [] \<or> rout_less (last (ds @ ls)) k \<longleftrightarrow> \<not> (\<exists>g \<in> set gs. rn_prefix_length g = rn_prefix_length k)"
  proof (cases ls rule: rev_cases)
    case Nil
    then have "ds @ ls = [] \<or> rout_less (last (ds @ ls)) k"
      using ok gateway_less(2) [OF k] by (cases ds rule: rev_cases) (auto simp: table_ok_def)
    moreover have "\<not> (\<exists>g \<in> set gs. rn_prefix_length g = rn_prefix_length k)" using Nil split mid by auto
    ultimately show ?thesis by blast
  next
    case (snoc ls' l)
    have l: "l \<in> set gs" "\<not> direct l" "?q l" using snoc split ok lsq by (auto simp: table_ok_def)
    have "\<forall>x \<in> set ls'. rn_prefix_length x > rn_prefix_length l"
      using ok split snoc by (auto simp: table_ok_def sorted_wrt_append)
    then have "(\<exists>g \<in> set gs. rn_prefix_length g = rn_prefix_length k) \<longleftrightarrow> rn_prefix_length l = rn_prefix_length k"
      using split snoc mid l by force
    moreover have "rout_less (last (ds @ ls)) k \<longleftrightarrow> rn_prefix_length l \<noteq> rn_prefix_length k"
      using l gateway_less(2) [OF k, of l] snoc by auto
    ultimately show ?thesis using snoc by simp
  qed
  show ?thesis unfolding set_insert_by_def ub Let_def prod.case iff by simp
qed

lemma table_ok_insert:
  assumes ok: "table_ok ds gs" and k: "\<not> direct k" and new: "\<not> (\<exists>g \<in> set gs. rn_prefix_length g = rn_prefix_length k)"
  defines "ls \<equiv> takeWhile (\<lambda>e. rn_prefix_length k \<le> rn_prefix_length e) gs"
    and "rs \<equiv> dropWhile (\<lambda>e. rn_prefix_length k \<le> rn_prefix_length e) gs"
  shows "table_ok ds (ls @ k # rs) \<and> set (ls @ k # rs) = insert k (set gs)"
proof -
  have split: "gs = ls @ rs" by (simp add: ls_def rs_def)
  have lt: "\<forall>x \<in> set ls. rn_prefix_length k < rn_prefix_length x"
    using new unfolding ls_def by (metis (no_types, lifting) order_le_neq_trans set_takeWhileD)
  have s: "sorted_wrt (\<lambda>a b. rn_prefix_length a > rn_prefix_length b) (ls @ rs)" using ok split by (simp add: table_ok_def)
  have gt: "\<forall>x \<in> set rs. rn_prefix_length x < rn_prefix_length k"
  proof (cases rs)
    case (Cons r rs')
    then have "rn_prefix_length r < rn_prefix_length k" unfolding rs_def by (auto simp: dropWhile_eq_Cons_conv)
    then show ?thesis using s Cons by (fastforce simp: sorted_wrt_append)
  qed simp
  show ?thesis using ok k s lt gt split by (auto simp: table_ok_def sorted_wrt_append)
qed

lemma route_table_shape:
  "\<exists>gs. route_table rs = rev (filter direct rs) @ gs \<and> table_ok (rev (filter direct rs)) gs \<and>
     set gs = set (first_gateways rs)"
proof (induction rs rule: rev_induct)
  case Nil
  show ?case by (simp add: route_table_def first_gateways_def table_ok_def)
next
  case (snoc k rs)
  then obtain gs where gs: "route_table rs = rev (filter direct rs) @ gs" "table_ok (rev (filter direct rs)) gs"
    "set gs = set (first_gateways rs)" by blast
  have step: "route_table (rs @ [k]) = set_insert_by rout_less k (rev (filter direct rs) @ gs)"
    "first_gateways (rs @ [k]) = add_first (first_gateways rs) k"
    by (simp_all add: route_table_def first_gateways_def flip: gs(1))
  show ?case
  proof (cases "direct k")
    case True
    with gs step show ?thesis by (intro exI [of _ gs]) (auto simp: insert_direct table_ok_def add_first_def)
  next
    case k: False
    show ?thesis
    proof (cases "\<exists>g \<in> set gs. rn_prefix_length g = rn_prefix_length k")
      case True
      with k gs step insert_gateway [OF gs(2) k] show ?thesis by (intro exI [of _ gs]) (auto simp: add_first_def)
    next
      case False
      with k gs step insert_gateway [OF gs(2) k] table_ok_insert [OF gs(2) k False] show ?thesis
        by (auto simp: add_first_def)
    qed
  qed
qed

subsection \<open>Finding a route\<close>

definition rmatch :: "u32 \<Rightarrow> rout_node \<Rightarrow> bool" where
  "rmatch ip x \<longleftrightarrow> match (rn_route_prefix x) (rn_prefix_length x) ip = Inr True"

lemma find_route_eq:
  "\<forall>x \<in> set t. rn_prefix_length x \<le> 32 \<Longrightarrow> find_route t ip = Inr (find (rmatch ip) t)"
proof (induction t)
  case (Cons x t)
  then have "\<exists>b. match (rn_route_prefix x) (rn_prefix_length x) ip = Inr b" by (auto simp: match_def not_less [symmetric])
  then obtain b where "match (rn_route_prefix x) (rn_prefix_length x) ip = Inr b" ..
  with Cons show ?case by (cases b) (simp_all add: rmatch_def)
qed simp

lemma find_app: "find P (xs @ ys) = (case find P xs of Some x \<Rightarrow> Some x | None \<Rightarrow> find P ys)"
  by (induction xs) simp_all

lemma find_longest:
  "sorted_wrt (\<lambda>a b. rn_prefix_length a > rn_prefix_length b) gs \<Longrightarrow> find P gs = Some x \<Longrightarrow>
   x \<in> set gs \<and> P x \<and> (\<forall>y \<in> set gs. P y \<longrightarrow> rn_prefix_length y \<le> rn_prefix_length x)"
  by (induction gs) (auto split: if_splits)

lemma first_gateways_subset: "set (first_gateways rs) \<subseteq> set rs"
  by (induction rs rule: rev_induct) (auto simp: first_gateways_def add_first_def)

text \<open>Which of the routes added, in order of addition, is taken for an address.\<close>

lemma route_choice:
  assumes "\<forall>x \<in> set rs. rn_prefix_length x \<le> 32"
  shows "\<exists>res. find_route (route_table rs) ip = Inr res \<and>
    (case find (rmatch ip) (rev (filter direct rs)) of
       Some x \<Rightarrow> res = Some x
     | None \<Rightarrow>
         (case res of
            None \<Rightarrow> \<forall>x \<in> set (first_gateways rs). \<not> rmatch ip x
          | Some x \<Rightarrow> x \<in> set (first_gateways rs) \<and> rmatch ip x \<and>
              (\<forall>y \<in> set (first_gateways rs). rmatch ip y \<longrightarrow> rn_prefix_length y \<le> rn_prefix_length x)))"
proof -
  obtain gs where gs: "route_table rs = rev (filter direct rs) @ gs" "table_ok (rev (filter direct rs)) gs"
    "set gs = set (first_gateways rs)" using route_table_shape by blast
  have "\<forall>x \<in> set (route_table rs). rn_prefix_length x \<le> 32" using assms gs first_gateways_subset by fastforce
  then have fr: "find_route (route_table rs) ip = Inr (find (rmatch ip) (rev (filter direct rs) @ gs))"
    by (simp add: find_route_eq gs(1))
  have none: "find (rmatch ip) gs = None \<longleftrightarrow> (\<forall>x \<in> set gs. \<not> rmatch ip x)" by (auto simp: find_None_iff)
  show ?thesis
  proof (cases "find (rmatch ip) (rev (filter direct rs))")
    case None
    with fr have "find_route (route_table rs) ip = Inr (find (rmatch ip) gs)" by (simp add: find_app)
    then show ?thesis
      using None none find_longest [of gs "rmatch ip"] gs(2,3)
      by (cases "find (rmatch ip) gs") (simp_all add: table_ok_def)
  next
    case (Some x)
    with fr show ?thesis by (simp add: find_app)
  qed
qed

lemma match_bits:
  assumes "len \<le> 32"
  shows "match a len b = Inr (\<forall>n < 32. 32 - unat len \<le> n \<longrightarrow> bit a n = bit b n)"
proof (cases "len = 0")
  case False
  let ?k = "32 - unat len"
  have "drop_bit ?k a = drop_bit ?k b \<longleftrightarrow> (\<forall>n < 32. ?k \<le> n \<longrightarrow> bit a n = bit b n)"
  proof
    assume eq: "drop_bit ?k a = drop_bit ?k b"
    have "bit (drop_bit ?k w) (n - ?k) = bit w n" if "?k \<le> n" for n and w :: u32 using that by (simp add: bit_drop_bit_eq)
    with eq show "\<forall>n < 32. ?k \<le> n \<longrightarrow> bit a n = bit b n" by metis
  next
    assume h: "\<forall>n < 32. ?k \<le> n \<longrightarrow> bit a n = bit b n"
    show "drop_bit ?k a = drop_bit ?k b"
    proof (rule bit_eqI)
      fix n
      show "bit (drop_bit ?k a) n = bit (drop_bit ?k b) n"
        using h bit_imp_le_length [of a "?k + n"] bit_imp_le_length [of b "?k + n"]
        by (cases "?k + n < 32") (auto simp: bit_drop_bit_eq)
    qed
  qed
  then show ?thesis using False assms by (simp add: match_def not_less [symmetric])
qed (auto simp: match_def)

subsection \<open>Adding routes\<close>

definition printable :: "namer \<Rightarrow> rout_node \<Rightarrow> bool" where
  "printable gni x \<longleftrightarrow> (case rn_next_hop x of None \<Rightarrow> True | Some h \<Rightarrow> \<exists>s. address_ip gni h = Inr s)"

definition add_node :: "namer \<Rightarrow> router \<Rightarrow> rout_node \<Rightarrow> router" where
  "add_node gni r x =
     fst (add_route gni r (rn_route_prefix x) (rn_prefix_length x) (rn_next_hop x) (rn_interface_num x))"

lemma add_route_ok:
  assumes "numeric_namer gni" "printable gni x"
  shows "add_route gni r (rn_route_prefix x) (rn_prefix_length x) (rn_next_hop x) (rn_interface_num x) =
    (r\<lparr>rt_rout_map := set_insert_by rout_less x (rt_rout_map r)\<rparr>, Inr ())"
  using assms
  by (cases x) (auto simp: add_route_def from_ipv4_numeric_endpoint address_ip_def [of gni "ipv4_endpoint _ _"] ip_port_endpoint
      printable_def split: option.splits)

lemma add_nodes_table:
  assumes "numeric_namer gni" "\<forall>x \<in> set rs. printable gni x" "rt_rout_map r = []"
  shows "rt_rout_map (foldl (add_node gni) r rs) = route_table rs"
  using assms(2)
proof (induction rs rule: rev_induct)
  case Nil
  then show ?case using assms(3) by (simp add: route_table_def)
next
  case (snoc x rs)
  then show ?case by (simp add: route_table_def add_node_def add_route_ok [OF assms(1)])
qed

subsection \<open>Routing as a sequence of single datagrams\<close>

text \<open>The reference: the datagrams are routed one after the other.  The router is seen without its queues of received
  datagrams.\<close>

fun route_all :: "resolver \<Rightarrow> router \<Rightarrow> ipv4_datagram list \<Rightarrow> router \<times> (exn + unit)" where
  "route_all gai r [] = (r, Inr ())"
| "route_all gai r (d # ds) =
     (case route_one_datagram gai r d of (r, _, Inl e) \<Rightarrow> (r, Inl e) | (r, _, Inr _) \<Rightarrow> route_all gai r ds)"

definition bare :: "router \<Rightarrow> router" where
  "bare r = r\<lparr>rt_interfaces := map (\<lambda>a. a\<lparr>an_datagrams_out := []\<rparr>) (rt_interfaces r)\<rparr>"

lemma bare_simps [simp]:
  "rt_rout_map (bare r) = rt_rout_map r" "length (rt_interfaces (bare r)) = length (rt_interfaces r)"
  by (simp_all add: bare_def)

lemma bare_send_on:
  "send_on (bare r) i d hop = (bare (fst (send_on r i d hop)), snd (send_on r i d hop))"
proof -
  have comm: "a\<lparr>an_datagrams_out := [], an_interface := x\<rparr> = a\<lparr>an_interface := x, an_datagrams_out := []\<rparr>" for a :: async_interface and x
    by (cases a) simp
  show ?thesis by (auto simp: send_on_def bare_def Let_def map_update comm split: prod.splits)
qed

lemma bare_route_one:
  "route_one_datagram gai r d = (r', d', res) \<Longrightarrow> route_one_datagram gai (bare r) d = (bare r', d', res)"
  by (auto simp: route_one_datagram_def Let_def bare_send_on split: if_splits sum.splits option.splits prod.splits)

lemma bare_set_queue [simp]: "i < length (rt_interfaces r) \<Longrightarrow> bare (set_queue i q r) = bare r"
proof -
  assume "i < length (rt_interfaces r)"
  then have "(map (\<lambda>a. a\<lparr>an_datagrams_out := []\<rparr>) (rt_interfaces r))[i := (rt_interfaces r ! i)\<lparr>an_datagrams_out := []\<rparr>] =
      map (\<lambda>a. a\<lparr>an_datagrams_out := []\<rparr>) (rt_interfaces r)"
    by (simp add: list_update_same_conv)
  then show ?thesis by (simp add: bare_def set_queue_def map_update)
qed

lemma queue_of_set_queue:
  "i < length (rt_interfaces r) \<Longrightarrow> queue_of (set_queue i q r) j = (if j = i then q else queue_of r j)"
  by (simp add: queue_of_def set_queue_def map_update nth_list_update)

lemma length_set_queue [simp]: "length (rt_interfaces (set_queue i q r)) = length (rt_interfaces r)"
  by (simp add: set_queue_def)

lemma route_queue_refines:
  "i < length (rt_interfaces r) \<Longrightarrow> route_queue gai i r = (r', res) \<Longrightarrow>
   route_all gai (bare r) (queue_of r i) = (bare r', res) \<and> length (rt_interfaces r') = length (rt_interfaces r) \<and>
   (res = Inr () \<longrightarrow> queue_of r' i = []) \<and> (\<forall>j. j \<noteq> i \<longrightarrow> queue_of r' j = queue_of r j)"
proof (induction gai i r rule: route_queue.induct)
  case (1 gai i r)
  show ?case
  proof (cases "queue_of r i")
    case Nil
    with 1 show ?thesis by (simp add: route_queue.simps [of gai i r])
  next
    case (Cons d ds)
    obtain r1 d1 res1 where one: "route_one_datagram gai r d = (r1, d1, res1)" by (cases "route_one_datagram gai r d") auto
    have q1: "queue_of r1 j = queue_of r j" for j using route_one_frame [OF one] by (simp add: queue_of_def)
    have i1: "i < length (rt_interfaces r1)" "length (rt_interfaces r1) = length (rt_interfaces r)"
      using route_one_length [OF one] 1 by simp_all
    show ?thesis
    proof (cases res1)
      case (Inl e)
      then show ?thesis
        using 1 Cons one bare_route_one [OF one] i1 q1
        by (auto simp: route_queue.simps [of gai i r] queue_of_set_queue)
    next
      case (Inr u)
      let ?r2 = "set_queue i (tl (queue_of r1 i)) r1"
      have rec: "route_queue gai i ?r2 = (r', res)"
        using "1.prems" Cons one Inr by (simp add: route_queue.simps [of gai i r])
      from "1.IH" [OF _ _ _ _ _ rec] "1.prems" Cons one Inr i1
      have "route_all gai (bare ?r2) (queue_of ?r2 i) = (bare r', res) \<and> length (rt_interfaces r') = length (rt_interfaces ?r2) \<and>
          (res = Inr () \<longrightarrow> queue_of r' i = []) \<and> (\<forall>j. j \<noteq> i \<longrightarrow> queue_of r' j = queue_of ?r2 j)"
        by simp
      then show ?thesis
        using i1 q1 Cons Inr bare_route_one [OF one] by (simp add: queue_of_set_queue)
    qed
  qed
qed

lemma route_all_append:
  "route_all gai r (xs @ ys) = (case route_all gai r xs of (r, Inl e) \<Rightarrow> (r, Inl e) | (r, Inr _) \<Rightarrow> route_all gai r ys)"
  by (induction xs arbitrary: r) (auto split: prod.splits sum.splits)

lemma route_from_refines:
  "distinct is' \<Longrightarrow> \<forall>i \<in> set is'. i < length (rt_interfaces r) \<Longrightarrow> route_from gai is' r = (r', res) \<Longrightarrow>
   route_all gai (bare r) (concat (map (queue_of r) is')) = (bare r', res) \<and>
   length (rt_interfaces r') = length (rt_interfaces r) \<and>
   (res = Inr () \<longrightarrow> (\<forall>i. queue_of r' i = (if i \<in> set is' then [] else queue_of r i)))"
proof (induction is' arbitrary: r)
  case (Cons i is')
  obtain r1 res1 where one: "route_queue gai i r = (r1, res1)" by fastforce
  note q = route_queue_refines [OF _ one]
  have other: "map (queue_of r1) is' = map (queue_of r) is'" using q Cons.prems by (auto intro!: map_cong)
  show ?case
  proof (cases res1)
    case (Inl e)
    then show ?thesis using Cons.prems one q by (auto simp: route_all_append)
  next
    case (Inr u)
    have "route_from gai is' r1 = (r', res)" using Cons.prems one Inr by simp
    from Cons.IH [OF _ _ this] Cons.prems q other Inr show ?thesis
      by (auto simp: route_all_append)
  qed
qed simp

subsection \<open>Properties\<close>

text \<open>\<^verbatim>\<open>match\<close> compares exactly the leading bits that the prefix length names, for every length up to 32; beyond, the shift
  count is negative and the call has no meaning.\<close>

theorem match_prefix_bits:
  "match a len b = (if len \<le> 32 then Inr (\<forall>n < 32. 32 - unat len \<le> n \<longrightarrow> bit a n = bit b n)
     else Inl (Undefined_behaviour ''shift by a negative count''))"
proof (cases "len \<le> 32")
  case False
  then have "len \<noteq> 0" "len > 32" by auto
  with False show ?thesis by (simp add: match_def)
qed (simp add: match_bits)

text \<open>A concrete address for the witness.\<close>

theorem match_prefix_bits_witness:
  "match 0x0a000000 8 0x0a010203 = Inr True"
proof -
  have "drop_bit 24 (0x0a000000 :: u32) = drop_bit 24 0x0a010203" by simp
  then have "match 0x0a000000 8 0x0a010203 = Inr True" by (simp add: match_def)
  with match_prefix_bits [of "0x0a000000" 8 "0x0a010203"] show ?thesis by simp
qed

text \<open>C29. The route taken.  After routes with prefix lengths up to 32 have been added in some order, a lookup takes
  the direct route that matches and was added last; if no direct route matches, it takes a route with a next hop that
  matches and has the longest prefix among those in the table, which holds for each prefix length only the route that was
  added first; and it finds none exactly when nothing in the table matches.\<close>

theorem router_route_choice:
  assumes "numeric_namer gni" "\<forall>x \<in> set rs. printable gni x" "\<forall>x \<in> set rs. rn_prefix_length x \<le> 32"
    and "rt_rout_map r = []"
  shows "\<exists>res. find_route (rt_rout_map (foldl (add_node gni) r rs)) ip = Inr res \<and>
    (case find (rmatch ip) (rev (filter direct rs)) of
       Some x \<Rightarrow> res = Some x
     | None \<Rightarrow>
         (case res of
            None \<Rightarrow> \<forall>x \<in> set (first_gateways rs). \<not> rmatch ip x
          | Some x \<Rightarrow> x \<in> set (first_gateways rs) \<and> rmatch ip x \<and>
              (\<forall>y \<in> set (first_gateways rs). rmatch ip y \<longrightarrow> rn_prefix_length y \<le> rn_prefix_length x)))"
  unfolding add_nodes_table [OF assms(1,2,4)] by (rule route_choice [OF assms(3)])

definition rnode :: "u32 \<Rightarrow> byte \<Rightarrow> address option \<Rightarrow> nat \<Rightarrow> rout_node" where
  "rnode p l h i = \<lparr>rn_route_prefix = p, rn_prefix_length = l, rn_next_hop = h, rn_interface_num = i\<rparr>"

text \<open>Two routes with next hops and one prefix length: the second is not in the table.\<close>

theorem router_route_choice_witness:
  "find_route (rt_rout_map (foldl (add_node number_namer) router_new
      [rnode 0x0a000000 8 (Some (ipv4_endpoint 1 0)) 0, rnode 0x0b000000 8 (Some (ipv4_endpoint 2 0)) 2])) 0x0b000001 = Inr None"
proof -
  let ?a = "rnode 0x0a000000 8 (Some (ipv4_endpoint 1 0)) 0" and ?b = "rnode 0x0b000000 8 (Some (ipv4_endpoint 2 0)) 2"
  have pr: "\<forall>x \<in> set [?a, ?b]. printable number_namer x" "\<forall>x \<in> set [?a, ?b]. rn_prefix_length x \<le> 32" "rt_rout_map router_new = []"
    by (simp_all add: rnode_def printable_def address_ip_def ip_port_endpoint [OF number_namer_numeric] router_new_def)
  have fg: "first_gateways [?a, ?b] = [?a]" "filter direct [?a, ?b] = []"
    by (simp_all add: first_gateways_def add_first_def direct_def rnode_def)
  have no: "\<not> rmatch 0x0b000001 ?a" by (simp add: rmatch_def match_def rnode_def)
  obtain res where res: "find_route (rt_rout_map (foldl (add_node number_namer) router_new [?a, ?b])) 0x0b000001 = Inr res"
    "case res of None \<Rightarrow> \<forall>x \<in> set (first_gateways [?a, ?b]). \<not> rmatch 0x0b000001 x
     | Some x \<Rightarrow> x \<in> set (first_gateways [?a, ?b]) \<and> rmatch 0x0b000001 x \<and>
         (\<forall>y \<in> set (first_gateways [?a, ?b]). rmatch 0x0b000001 y \<longrightarrow> rn_prefix_length y \<le> rn_prefix_length x)"
    using router_route_choice [OF number_namer_numeric pr, of "0x0b000001"] unfolding fg by auto
  then have "res = None" using no by (cases res) (simp_all add: fg)
  with res(1) show ?thesis by simp
qed

text \<open>Longest prefix match, where the table can express it: when no two of the added routes with a next hop have
  the same prefix length and no direct route matches the address, the lookup returns a matching route with the longest
  prefix of all the routes added, or none if no route matches.\<close>

theorem router_longest_prefix:
  assumes "numeric_namer gni" "\<forall>x \<in> set rs. printable gni x" "\<forall>x \<in> set rs. rn_prefix_length x \<le> 32"
    and "rt_rout_map r = []" "\<forall>x \<in> set rs. direct x \<longrightarrow> \<not> rmatch ip x"
    and "distinct (map rn_prefix_length (filter (\<lambda>x. \<not> direct x) rs))"
  shows "\<exists>res. find_route (rt_rout_map (foldl (add_node gni) r rs)) ip = Inr res \<and>
    (case res of
       None \<Rightarrow> \<forall>x \<in> set rs. \<not> rmatch ip x
     | Some x \<Rightarrow> x \<in> set rs \<and> rmatch ip x \<and> (\<forall>y \<in> set rs. rmatch ip y \<longrightarrow> rn_prefix_length y \<le> rn_prefix_length x))"
proof -
  have fg: "first_gateways rs = filter (\<lambda>x. \<not> direct x) rs"
    using assms(6)
  proof (induction rs rule: rev_induct)
    case (snoc k rs)
    then show ?case by (auto simp: first_gateways_def add_first_def)
  qed (simp add: first_gateways_def)
  have "find (rmatch ip) (rev (filter direct rs)) = None" using assms(5) by (auto simp: find_None_iff)
  with route_choice [OF assms(3), of ip] obtain res where res: "find_route (route_table rs) ip = Inr res"
    "case res of None \<Rightarrow> \<forall>x \<in> set (filter (\<lambda>x. \<not> direct x) rs). \<not> rmatch ip x
     | Some x \<Rightarrow> x \<in> set (filter (\<lambda>x. \<not> direct x) rs) \<and> rmatch ip x \<and>
         (\<forall>y \<in> set (filter (\<lambda>x. \<not> direct x) rs). rmatch ip y \<longrightarrow> rn_prefix_length y \<le> rn_prefix_length x)"
    unfolding fg by auto
  then have "case res of None \<Rightarrow> \<forall>x \<in> set rs. \<not> rmatch ip x
     | Some x \<Rightarrow> x \<in> set rs \<and> rmatch ip x \<and> (\<forall>y \<in> set rs. rmatch ip y \<longrightarrow> rn_prefix_length y \<le> rn_prefix_length x)"
    using assms(5) by (cases res) auto
  with res(1) show ?thesis unfolding add_nodes_table [OF assms(1,2,4)] by blast
qed

theorem router_longest_prefix_witness:
  "\<exists>x. find_route (rt_rout_map (foldl (add_node number_namer) router_new
      [rnode 0 0 (Some (ipv4_endpoint 1 0)) 0, rnode 0x0a000000 8 (Some (ipv4_endpoint 2 0)) 2])) 0x0a000001 = Inr (Some x) \<and>
     8 \<le> rn_prefix_length x"
proof -
  let ?a = "rnode 0 0 (Some (ipv4_endpoint 1 0)) 0" and ?b = "rnode 0x0a000000 8 (Some (ipv4_endpoint 2 0)) 2"
  have pr: "\<forall>x \<in> set [?a, ?b]. printable number_namer x" "\<forall>x \<in> set [?a, ?b]. rn_prefix_length x \<le> 32" "rt_rout_map router_new = []"
    "\<forall>x \<in> set [?a, ?b]. direct x \<longrightarrow> \<not> rmatch 0x0a000001 x" "distinct (map rn_prefix_length (filter (\<lambda>x. \<not> direct x) [?a, ?b]))"
    by (simp_all add: rnode_def printable_def address_ip_def ip_port_endpoint [OF number_namer_numeric] router_new_def direct_def)
  have yes: "rmatch 0x0a000001 ?b" "rn_prefix_length ?b = 8" by (simp_all add: rmatch_def match_def rnode_def)
  obtain res where res: "find_route (rt_rout_map (foldl (add_node number_namer) router_new [?a, ?b])) 0x0a000001 = Inr res"
    "case res of None \<Rightarrow> \<forall>x \<in> set [?a, ?b]. \<not> rmatch 0x0a000001 x
     | Some x \<Rightarrow> x \<in> set [?a, ?b] \<and> rmatch 0x0a000001 x \<and>
         (\<forall>y \<in> set [?a, ?b]. rmatch 0x0a000001 y \<longrightarrow> rn_prefix_length y \<le> rn_prefix_length x)"
    using router_longest_prefix [OF number_namer_numeric pr] by blast
  then show ?thesis using yes by (cases res) auto
qed

text \<open>C30. \<^verbatim>\<open>route\<close> always returns, and what it does is to route the received datagrams one after the other, interface
  by interface and in the order of arrival: seen without the queues of received datagrams it has the result and the outcome
  of that sequence, stopping at the first exception; and when there is none, every queue is empty afterwards.\<close>

theorem route_refines_sequence:
  assumes "route gai r = (r', res)"
  shows "route_all gai (bare r) (concat (map an_datagrams_out (rt_interfaces r))) = (bare r', res) \<and>
    (res = Inr () \<longrightarrow> (\<forall>a \<in> set (rt_interfaces r'). an_datagrams_out a = []))"
proof -
  let ?is = "[0 ..< length (rt_interfaces r)]"
  have all: "map (queue_of r) ?is = map an_datagrams_out (rt_interfaces r)"
    by (rule nth_equalityI) (simp_all add: queue_of_def)
  have f: "route_all gai (bare r) (concat (map (queue_of r) ?is)) = (bare r', res) \<and>
      length (rt_interfaces r') = length (rt_interfaces r) \<and>
      (res = Inr () \<longrightarrow> (\<forall>i. queue_of r' i = (if i \<in> set ?is then [] else queue_of r i)))"
    by (rule route_from_refines) (use assms in \<open>simp_all add: route_def\<close>)
  have "an_datagrams_out a = []" if ok: "res = Inr ()" and mem: "a \<in> set (rt_interfaces r')" for a
  proof -
    obtain i where i: "i < length (rt_interfaces r')" "a = rt_interfaces r' ! i" using mem by (auto simp: in_set_conv_nth)
    have "queue_of r' i = []" using f ok i(1) by simp
    with i show ?thesis by (simp add: queue_of_def)
  qed
  with f show ?thesis by (auto simp: all)
qed

lemma route_one_old:
  "ih_ttl (dg_header d) \<le> 1 \<Longrightarrow> route_one_datagram gai r d = (r, d, Inr ())"
  by (simp add: route_one_datagram_def)

theorem route_refines_sequence_witness:
  "\<exists>r'. route number_resolver \<lparr>rt_interfaces = [\<lparr>an_interface = network_interface_new ethernet_zero (ipv4_endpoint 5 0),
        an_datagrams_out = [small_datagram\<lparr>dg_header := (dg_header small_datagram)\<lparr>ih_ttl := 1\<rparr>\<rparr>]\<rparr>], rt_rout_map = []\<rparr> =
        (r', Inr ()) \<and> (\<forall>a \<in> set (rt_interfaces r'). an_datagrams_out a = [])"
proof -
  let ?d = "small_datagram\<lparr>dg_header := (dg_header small_datagram)\<lparr>ih_ttl := 1\<rparr>\<rparr>"
  let ?r = "\<lparr>rt_interfaces = [\<lparr>an_interface = network_interface_new ethernet_zero (ipv4_endpoint 5 0), an_datagrams_out = [?d]\<rparr>],
    rt_rout_map = []\<rparr>"
  obtain r' res where r: "route number_resolver ?r = (r', res)" by fastforce
  from route_refines_sequence [OF r] have "res = Inr ()" by (simp add: route_one_old)
  with r route_refines_sequence [OF r] show ?thesis by simp
qed

text \<open>A datagram whose next hop has a known Ethernet address leaves in a frame of the route's interface.\<close>

lemma route_one_known:
  assumes "numeric_resolver gai" "dg_wf d" "\<not> ih_ttl (dg_header d) \<le> 1"
    and "find_route (rt_rout_map r) (ih_dst (dg_header d)) = Inr (Some x)" "rn_interface_num x < length (rt_interfaces r)"
    and "case rn_next_hop x of None \<Rightarrow> nh = ih_dst (dg_header d) | Some h \<Rightarrow> ipv4_numeric h = Inr nh"
    and "ni = an_interface (rt_interfaces r ! rn_interface_num x)" "map_of (ni_ip_address_map ni) nh = Some mac"
    and "d2 = d\<lparr>dg_header := (dg_header d)\<lparr>ih_ttl := ih_ttl (dg_header d) - 1\<rparr>\<rparr>"
  obtains pl where "ipv4_datagram_serialize d2 = Inr pl" "dg_wf d2"
    "route_one_datagram gai r d = (r\<lparr>rt_interfaces := (rt_interfaces r)[rn_interface_num x := (rt_interfaces r ! rn_interface_num x)
       \<lparr>an_interface := push_frame (ip_frame mac (ni_ethernet_address ni) pl) ni\<rparr>]\<rparr>, d2, Inr ())"
proof -
  have wf: "dg_wf d2" using assms(2) by (simp add: assms(9) dg_wf_def ipv4_wf_def)
  obtain pl where pl: "ipv4_datagram_serialize d2 = Inr pl" using dgram.deliver [OF wf] by blast
  define hop where "hop = (case rn_next_hop x of Some h \<Rightarrow> h | None \<Rightarrow> ipv4_endpoint (ih_dst (dg_header d)) 0)"
  have hop: "(case rn_next_hop x of Some h \<Rightarrow> Inr h
      | None \<Rightarrow> address_of_ip gai (to_string (unat (ih_dst (dg_header d)))) 0) = Inr hop" "ipv4_numeric hop = Inr nh"
    using assms(6) address_of_ip_number [OF assms(1)] by (auto simp: hop_def split: option.splits)
  have send: "send_datagram ni d2 hop = (push_frame (ip_frame mac (ni_ethernet_address ni) pl) ni, Inr ())"
    by (rule send_known [OF pl hop(2) assms(8)])
  then show ?thesis using that pl wf assms(3-5,7,9) hop(1)
    by (simp add: route_one_datagram_def Let_def send_on_def cong: option.case_cong)
qed

text \<open>C28. Forwarding.  A datagram whose time to live is at most one is dropped and nothing changes.  Otherwise, when the
  lookup finds a route whose next hop (the destination itself for a direct route) has a known Ethernet address on the
  route's interface, that interface and no other queues one frame, and the interface that owns that Ethernet address gets
  from it the datagram with its time to live decremented and everything else unchanged up to the checksum.\<close>

theorem router_forwards:
  assumes "numeric_resolver gai" "dg_wf d"
    and "find_route (rt_rout_map r) (ih_dst (dg_header d)) = Inr (Some x)" "rn_interface_num x < length (rt_interfaces r)"
    and "case rn_next_hop x of None \<Rightarrow> nh = ih_dst (dg_header d) | Some h \<Rightarrow> ipv4_numeric h = Inr nh"
    and "map_of (ni_ip_address_map (an_interface (rt_interfaces r ! rn_interface_num x))) nh = Some (ni_ethernet_address b)"
  shows "if ih_ttl (dg_header d) \<le> 1 then route_one_datagram gai r d = (r, d, Inr ())
    else \<exists>r' fr d' d2. route_one_datagram gai r d = (r', d2, Inr ()) \<and>
      d2 = d\<lparr>dg_header := (dg_header d)\<lparr>ih_ttl := ih_ttl (dg_header d) - 1\<rparr>\<rparr> \<and>
      ni_frames_out (an_interface (rt_interfaces r' ! rn_interface_num x)) =
        ni_frames_out (an_interface (rt_interfaces r ! rn_interface_num x)) @ [fr] \<and>
      (\<forall>j. j \<noteq> rn_interface_num x \<longrightarrow> rt_interfaces r' ! j = rt_interfaces r ! j) \<and>
      recv_frame b (wire_frame fr) = (b, Inr (Some d')) \<and> same_datagram d2 d'"
proof (cases "ih_ttl (dg_header d) \<le> 1")
  case True
  then show ?thesis by (simp add: route_one_old)
next
  case False
  let ?d2 = "d\<lparr>dg_header := (dg_header d)\<lparr>ih_ttl := ih_ttl (dg_header d) - 1\<rparr>\<rparr>"
  let ?i = "rn_interface_num x"
  let ?ni = "an_interface (rt_interfaces r ! ?i)"
  obtain pl where pl: "ipv4_datagram_serialize ?d2 = Inr pl" and wf: "dg_wf ?d2" and
    one: "route_one_datagram gai r d = (r\<lparr>rt_interfaces := (rt_interfaces r)[?i := (rt_interfaces r ! ?i)
      \<lparr>an_interface := push_frame (ip_frame (ni_ethernet_address b) (ni_ethernet_address ?ni) pl) ?ni\<rparr>]\<rparr>, ?d2, Inr ())"
    using route_one_known [OF assms(1,2) False assms(3-5) refl assms(6) refl] by blast
  let ?fr = "ip_frame (ni_ethernet_address b) (ni_ethernet_address ?ni) pl"
  let ?r' = "r\<lparr>rt_interfaces := (rt_interfaces r)[?i := (rt_interfaces r ! ?i)\<lparr>an_interface := push_frame ?fr ?ni\<rparr>]\<rparr>"
  obtain d' where d': "recv_frame b ?fr = (b, Inr (Some d'))" "same_datagram ?d2 d'"
    using recv_ip_frame [OF _ wf pl, of "ni_ethernet_address b" b] by blast
  have out: "ni_frames_out (an_interface (rt_interfaces ?r' ! ?i)) = ni_frames_out ?ni @ [?fr]"
    "\<forall>j. j \<noteq> ?i \<longrightarrow> rt_interfaces ?r' ! j = rt_interfaces r ! j" using assms(4) by (simp_all add: nth_list_update)
  show ?thesis using False one out d' by auto
qed

theorem router_forwards_witness:
  "\<exists>r' d2. route_one_datagram number_resolver
     \<lparr>rt_interfaces = [\<lparr>an_interface = (network_interface_new ethernet_zero (ipv4_endpoint 5 0))
        \<lparr>ni_ip_address_map := [(0, EthernetAddress 2 0 0 0 0 1)]\<rparr>, an_datagrams_out = []\<rparr>], rt_rout_map = [rnode 0 0 None 0]\<rparr>
     small_datagram = (r', d2, Inr ()) \<and> length (ni_frames_out (an_interface (rt_interfaces r' ! 0))) = 1"
proof -
  let ?r = "\<lparr>rt_interfaces = [\<lparr>an_interface = (network_interface_new ethernet_zero (ipv4_endpoint 5 0))
    \<lparr>ni_ip_address_map := [(0, EthernetAddress 2 0 0 0 0 1)]\<rparr>, an_datagrams_out = []\<rparr>], rt_rout_map = [rnode 0 0 None 0]\<rparr>"
  let ?b = "network_interface_new (EthernetAddress 2 0 0 0 0 1) (ipv4_endpoint 0 0)"
  have "find_route (rt_rout_map ?r) (ih_dst (dg_header small_datagram)) = Inr (Some (rnode 0 0 None 0))"
    "rn_interface_num (rnode 0 0 None 0) < length (rt_interfaces ?r)"
    "case rn_next_hop (rnode 0 0 None 0) of None \<Rightarrow> 0 = ih_dst (dg_header small_datagram) | Some h \<Rightarrow> ipv4_numeric h = Inr 0"
    "map_of (ni_ip_address_map (an_interface (rt_interfaces ?r ! rn_interface_num (rnode 0 0 None 0)))) 0 =
      Some (ni_ethernet_address ?b)"
    by (simp_all add: rnode_def match_def small_datagram_def ipv4_header_new_def network_interface_new_def)
  note f = router_forwards [OF number_resolver_numeric small_datagram_wf this]
  have "\<not> ih_ttl (dg_header small_datagram) \<le> 1" by (simp add: small_datagram_def ipv4_header_new_def DEFAULT_TTL_def word_le_nat_alt)
  with f show ?thesis by (auto simp: rnode_def network_interface_new_def)
qed

text \<open>A direct route with a short prefix is taken before a longer one with a next hop.\<close>

lemma direct_route_shadows:
  assumes "rn_prefix_length x \<le> 32" "direct x" "\<forall>y \<in> set rs. rn_prefix_length y \<le> 32" "rmatch ip x"
  shows "find_route (route_table (rs @ [x])) ip = Inr (Some x)"
  using route_choice [of "rs @ [x]" ip] assms by auto

end
