(* ===== verification/Header_Text.thy ===== *)
theory Header_Text
  imports TCP_Segment IPv4 ARP_Message Address
begin

text \<open>
  How headers, addresses and raw bytes are shown: \<^verbatim>\<open>to_string\<close> and \<^verbatim>\<open>summary\<close> of the classes in \<^verbatim>\<open>libsponge/tcp_helpers\<close>, and
  \<^verbatim>\<open>hexdump\<close> of \<^verbatim>\<open>libsponge/util/util.cc\<close>.  The texts go through a \<^verbatim>\<open>stringstream\<close>, whose format flags (\<^verbatim>\<open>hex\<close>, \<^verbatim>\<open>boolalpha\<close>) stay set; a number
  after \<^verbatim>\<open>hex\<close> is in hexadecimal.
\<close>

definition boolalpha :: "bool \<Rightarrow> string" where
  "boolalpha b = (if b then ''true'' else ''false'')"

definition newline :: char where
  "newline = CHR 0x0A"

subsection \<open>Headers\<close>

definition tcp_header_to_string :: "tcp_header \<Rightarrow> string" where
  "tcp_header_to_string h =
     ''TCP source port: '' @ to_hex (unat (th_sport h)) @ newline #
     ''TCP dest port: '' @ to_hex (unat (th_dport h)) @ newline #
     ''TCP seqno: '' @ to_hex (unat (th_seqno h)) @ newline #
     ''TCP ackno: '' @ to_hex (unat (th_ackno h)) @ newline #
     ''TCP doff: '' @ to_hex (unat (th_doff h)) @ newline #
     ''Flags: urg: '' @ boolalpha (th_urg h) @ '' ack: '' @ boolalpha (th_ack h) @ '' psh: '' @ boolalpha (th_psh h) @
     '' rst: '' @ boolalpha (th_rst h) @ '' syn: '' @ boolalpha (th_syn h) @ '' fin: '' @ boolalpha (th_fin h) @ newline #
     ''TCP winsize: '' @ to_hex (unat (th_win h)) @ newline #
     ''TCP cksum: '' @ to_hex (unat (th_cksum h)) @ newline #
     ''TCP uptr: '' @ to_hex (unat (th_uptr h)) @ [newline]"

definition tcp_header_summary :: "tcp_header \<Rightarrow> string" where
  "tcp_header_summary h =
     ''Header(flags='' @ (if th_syn h then ''S'' else '''') @ (if th_ack h then ''A'' else '''') @ (if th_rst h then ''R'' else '''') @
     (if th_fin h then ''F'' else '''') @ '',seqno='' @ to_string (unat (th_seqno h)) @ '',ack='' @ to_string (unat (th_ackno h)) @
     '',win='' @ to_string (unat (th_win h)) @ '')''"

definition ipv4_header_to_string :: "ipv4_header \<Rightarrow> string" where
  "ipv4_header_to_string h =
     ''IP version: '' @ to_hex (unat (ih_ver h)) @ newline #
     ''IP hdr len: '' @ to_hex (unat (ih_hlen h)) @ newline #
     ''IP tos: '' @ to_hex (unat (ih_tos h)) @ newline #
     ''IP dgram len: '' @ to_hex (unat (ih_len h)) @ newline #
     ''IP id: '' @ to_hex (unat (ih_id h)) @ newline #
     ''Flags: df: '' @ boolalpha (ih_df h) @ '' mf: '' @ boolalpha (ih_mf h) @ newline #
     ''Offset: '' @ to_hex (unat (ih_offset h)) @ newline #
     ''TTL: '' @ to_hex (unat (ih_ttl h)) @ newline #
     ''Protocol: '' @ to_hex (unat (ih_proto h)) @ newline #
     ''Checksum: '' @ to_hex (unat (ih_cksum h)) @ newline #
     ''Src addr: '' @ to_hex (unat (ih_src h)) @ newline #
     ''Dst addr: '' @ to_hex (unat (ih_dst h)) @ [newline]"

definition ipv4_header_summary :: "ipv4_header \<Rightarrow> string" where
  "ipv4_header_summary h =
     ''IPv'' @ to_hex (unat (ih_ver h)) @ '', len='' @ to_hex (unat (ih_len h)) @ '', protocol='' @ to_hex (unat (ih_proto h)) @ '', '' @
     (if ih_ttl h \<ge> 10 then '''' else ''ttl='' @ to_string (unat (ih_ttl h)) @ '', '') @
     ''src='' @ inet_ntoa (ih_src h) @ '', dst='' @ inet_ntoa (ih_dst h)"

text \<open>The loop over the bytes of an Ethernet address: a colon after every byte but the last.\<close>

fun join_colons :: "bytes \<Rightarrow> string" where
  "join_colons [] = ''''"
| "join_colons [b] = setw 2 CHR ''0'' (to_hex (unat b))"
| "join_colons (b # bs) = setw 2 CHR ''0'' (to_hex (unat b)) @ '':'' @ join_colons bs"

definition ethernet_address_to_string :: "ethernet_address \<Rightarrow> string" where
  "ethernet_address_to_string a = join_colons (ea_bytes a)"

definition ethernet_header_to_string :: "ethernet_header \<Rightarrow> string" where
  "ethernet_header_to_string h =
     ''dst='' @ ethernet_address_to_string (eh_dst h) @ '', src='' @ ethernet_address_to_string (eh_src h) @ '', type='' @
     (if eh_type h = TYPE_IPv4 then ''IPv4'' else if eh_type h = TYPE_ARP then ''ARP''
      else ''[unknown type '' @ to_hex (unat (eh_type h)) @ ''!]'')"

definition arp_message_to_string :: "arp_message \<Rightarrow> string" where
  "arp_message_to_string m =
     (let opcode_str = ''(unknown type)'';
          opcode_str = (if am_opcode m = OPCODE_REQUEST then ''REQUEST'' else opcode_str);
          opcode_str = (if am_opcode m = OPCODE_REPLY then ''REPLY'' else opcode_str)
      in ''opcode='' @ opcode_str @ '', sender='' @ ethernet_address_to_string (am_sender_ethernet_address m) @ ''/'' @
         inet_ntoa (am_sender_ip_address m) @ '', target='' @ ethernet_address_to_string (am_target_ethernet_address m) @ ''/'' @
         inet_ntoa (am_target_ip_address m))"

text \<open>The programs that move frames print what is in them.\<close>

definition text_of :: "bytes \<Rightarrow> string" where
  "text_of bs = map (\<lambda>b. char_of (unat b)) bs"

definition quoted :: "bytes \<Rightarrow> string" where
  "quoted bs = CHR 0x22 # text_of bs @ [CHR 0x22]"

definition frame_summary :: "ethernet_frame \<Rightarrow> string" where
  "frame_summary frame =
     (let ret = ethernet_header_to_string (ef_header frame)
      in if eh_type (ef_header frame) = TYPE_IPv4
         then (let (res, dgram) = ipv4_datagram_parse (ef_payload frame) ipv4_datagram_new
               in if res = NoError
                  then ret @ '' '' @ ipv4_header_summary (dg_header dgram) @ '' payload='' @ quoted (dg_payload dgram)
                  else ret @ '' (bad IPv4)'')
         else if eh_type (ef_header frame) = TYPE_ARP
         then (let (res, arp) = arp_message_parse (ef_payload frame) arp_message_new
               in if res = NoError then ret @ '' '' @ arp_message_to_string arp else ret @ '' (bad ARP)'')
         else ret)"

subsection \<open>The texts determine what they show\<close>

lemma text_field: "c \<notin> set a \<Longrightarrow> c \<notin> set b \<Longrightarrow> a @ c # s = b @ c # t \<longleftrightarrow> a = b \<and> s = t"
proof (induction a arbitrary: b)
  case Nil
  then show ?case by (cases b) auto
next
  case (Cons x a)
  then show ?case by (cases b) auto
qed

lemma to_hex_chars: "c \<in> set (to_hex n) \<Longrightarrow> \<exists>d < 16. c = hex_char d"
proof (induction n rule: to_hex.induct)
  case (1 n)
  have "n mod 16 < 16" by simp
  with 1 show ?case by (subst (asm) (2) to_hex.simps) (fastforce split: if_splits)
qed

lemma hex_char_code: "d < 16 \<Longrightarrow> (of_char (hex_char d) :: nat) \<in> {48..57} \<union> {97..102}"
  by (simp add: of_char_hex)

lemma to_hex_no: "(of_char c :: nat) \<notin> {48..57} \<union> {97..102} \<Longrightarrow> c \<notin> set (to_hex n)"
  using to_hex_chars hex_char_code by blast

lemma to_hex_no_sep [simp]: "newline \<notin> set (to_hex n)" "CHR '' '' \<notin> set (to_hex n)" "CHR '':'' \<notin> set (to_hex n)"
  by (rule to_hex_no; simp add: newline_def)+

lemma boolalpha_no_sep [simp]: "newline \<notin> set (boolalpha b)" "CHR '' '' \<notin> set (boolalpha b)"
  by (simp_all add: boolalpha_def newline_def)

lemma boolalpha_inject [simp]: "boolalpha a = boolalpha b \<longleftrightarrow> a = b"
  by (simp add: boolalpha_def)

lemma to_hex_inject [simp]: "to_hex m = to_hex n \<longleftrightarrow> m = n"
  by (metis hex_value_to_hex)

lemma hex_byte_length: "length (setw 2 CHR ''0'' (to_hex (unat (b :: byte)))) = 2"
proof -
  have "unat b < 2 ^ LENGTH(8)" by (rule unsigned_less)
  then show ?thesis using to_hex_length [of 2 "unat b"] by (simp add: setw_length)
qed

lemma hex_byte_inject: "setw 2 CHR ''0'' (to_hex (unat (a :: byte))) = setw 2 CHR ''0'' (to_hex (unat b)) \<longleftrightarrow> a = b"
  by (metis hex_value_setw hex_value_to_hex word_unat_eq_iff)

lemma join_colons_inject: "length xs = length ys \<Longrightarrow> join_colons xs = join_colons ys \<longleftrightarrow> xs = ys"
proof (induction xs arbitrary: ys rule: join_colons.induct)
  case (3 b c xs)
  then obtain d e zs where ys: "ys = d # e # zs" by (metis length_Suc_conv)
  then show ?case using 3 by (simp add: append_eq_append_conv hex_byte_length hex_byte_inject)
qed (auto simp: Suc_length_conv hex_byte_inject)

lemma tcp_header_to_string_inject: "tcp_header_to_string h = tcp_header_to_string h' \<longleftrightarrow> h = h'"
  by (cases h; cases h') (simp add: tcp_header_to_string_def text_field word_unat_eq_iff [symmetric])

lemma ipv4_header_to_string_inject: "ipv4_header_to_string h = ipv4_header_to_string h' \<longleftrightarrow> h = h'"
  by (cases h; cases h') (simp add: ipv4_header_to_string_def text_field word_unat_eq_iff [symmetric])

lemma ethernet_address_to_string_inject: "ethernet_address_to_string a = ethernet_address_to_string b \<longleftrightarrow> a = b"
  by (cases a; cases b) (simp add: ethernet_address_to_string_def join_colons_inject del: join_colons.simps)

subsection \<open>Dumps\<close>

text \<open>
  A \<^verbatim>\<open>stringstream\<close> made from a string writes from the beginning, over the string: its contents and the position of the next
  character.  The counters \<^verbatim>\<open>i\<close> and \<^verbatim>\<open>printed\<close> are equal and do not overflow below \<open>2^31\<close> bytes.
\<close>

type_synonym char_stream = "string \<times> nat"

fun put_char :: "char \<Rightarrow> char_stream \<Rightarrow> char_stream" where
  "put_char c (s, pos) = (take pos s @ c # drop (Suc pos) s, Suc pos)"

definition isprint :: "byte \<Rightarrow> bool" where
  "isprint b \<longleftrightarrow> 32 \<le> b \<and> b \<le> 126"

definition dump_char :: "byte \<Rightarrow> char" where
  "dump_char b = (if isprint b then char_of (unat b) else CHR ''.'')"

text \<open>One round of the loop: the output, the characters for the end of the line and the number of bytes printed.\<close>

definition hexdump_step :: "string \<Rightarrow> string \<times> char_stream \<times> nat \<Rightarrow> byte \<Rightarrow> string \<times> char_stream \<times> nat" where
  "hexdump_step indent_string = (\<lambda>(cout, pchars, printed) b.
     let (cout, pchars) =
           (if printed mod 16 = 0
            then (let (cout, pchars) =
                        (if printed \<noteq> 0 then (cout @ ''    '' @ fst pchars @ [newline], ('' '', 0)) else (cout, pchars))
                  in (cout @ indent_string @ setw 8 CHR ''0'' (to_hex printed) @ '':    '', pchars))
            else if even printed then (cout @ '' '', pchars) else (cout, pchars));
         cout = cout @ setw 2 CHR ''0'' (to_hex (unat b));
         pchars = put_char (dump_char b) pchars
     in (cout, pchars, Suc printed))"

definition hexdump :: "bytes \<Rightarrow> nat \<Rightarrow> string" where
  "hexdump data indent =
     (let (cout, pchars, printed) = foldl (hexdump_step (replicate indent CHR '' '')) ([], ('' '', 0), 0) data;
          print_rem = (16 - printed mod 16) mod 16
      in cout @ replicate (2 * print_rem + print_rem div 2 + 4) CHR '' '' @ fst pchars @ [newline, newline])"

text \<open>
  The layout: sixteen bytes per line, in groups of two, then the characters, which start in the same column in every line.
\<close>

definition hex_byte :: "byte \<Rightarrow> string" where
  "hex_byte b = setw 2 CHR ''0'' (to_hex (unat b))"

fun hex_groups :: "bytes \<Rightarrow> string" where
  "hex_groups [] = []"
| "hex_groups [a] = hex_byte a"
| "hex_groups [a, b] = hex_byte a @ hex_byte b"
| "hex_groups (a # b # bs) = hex_byte a @ hex_byte b @ '' '' @ hex_groups bs"

definition dump_line :: "nat \<Rightarrow> nat \<Rightarrow> bytes \<Rightarrow> string" where
  "dump_line indent offset bs =
     replicate indent CHR '' '' @ setw 8 CHR ''0'' (to_hex offset) @ '':    '' @ hex_groups bs @
     replicate (43 - length (hex_groups bs)) CHR '' '' @ map dump_char bs @ [newline]"

fun dump_lines :: "nat \<Rightarrow> nat \<Rightarrow> bytes \<Rightarrow> string" where
  "dump_lines indent offset bs =
     (if length bs \<le> 16 then dump_line indent offset bs
      else dump_line indent offset (take 16 bs) @ dump_lines indent (offset + 16) (drop 16 bs))"

declare dump_lines.simps [simp del]

definition pchars_of :: "string \<Rightarrow> char_stream" where
  "pchars_of cs = (if cs = [] then ('' '', 0) else (cs, length cs))"

lemma put_pchars: "put_char c (pchars_of cs) = pchars_of (cs @ [c])"
  by (simp add: pchars_of_def)

lemma hex_groups_length: "bs \<noteq> [] \<Longrightarrow> length (hex_groups bs) = 2 * length bs + (length bs - 1) div 2"
  by (induction bs rule: hex_groups.induct) (simp_all add: hex_byte_def hex_byte_length)

text \<open>Inside a line.\<close>

lemma step_even:
  assumes "16 dvd p" "n < 16" "even n" "0 < n"
  shows "hexdump_step ind (out, pchars_of cs, p + n) a = (out @ '' '' @ hex_byte a, pchars_of (cs @ [dump_char a]), Suc (p + n))"
  using assms by (auto simp: hexdump_step_def put_pchars hex_byte_def elim!: dvdE)

lemma step_odd:
  assumes "16 dvd p" "n < 15" "even n"
  shows "hexdump_step ind (out, pchars_of cs, Suc (p + n)) a = (out @ hex_byte a, pchars_of (cs @ [dump_char a]), Suc (Suc (p + n)))"
proof -
  obtain k where "p = 16 * k" using assms(1) by (auto elim: dvdE)
  then have "Suc (p + n) mod 16 = Suc n" "odd (Suc (p + n))" using assms(2,3) by (simp_all add: mod_Suc)
  then show ?thesis by (simp add: hexdump_step_def put_pchars hex_byte_def)
qed

lemma hexdump_inside:
  assumes "n + length bs \<le> 16" "even n" "0 < n" "bs \<noteq> []" "16 dvd p"
  shows "foldl (hexdump_step ind) (out, pchars_of cs, p + n) bs =
    (out @ '' '' @ hex_groups bs, pchars_of (cs @ map dump_char bs), p + n + length bs)"
  using assms
proof (induction bs arbitrary: out cs n rule: hex_groups.induct)
  case (2 a)
  then show ?case by (simp add: step_even)
next
  case (3 a b)
  then show ?case by (simp add: step_even step_odd)
next
  case (4 a b c bs)
  have "hexdump_step ind (hexdump_step ind (out, pchars_of cs, p + n) a) b =
      (out @ '' '' @ hex_byte a @ hex_byte b, pchars_of (cs @ [dump_char a, dump_char b]), p + (n + 2))"
    using 4(2-6) by (simp add: step_even step_odd)
  with 4(1) [of "n + 2"] 4(2-6) show ?case by simp
qed simp

text \<open>A whole line, from its first byte.\<close>

definition dump_head :: "string \<Rightarrow> nat \<Rightarrow> string" where
  "dump_head ind p = ind @ setw 8 CHR ''0'' (to_hex p) @ '':    ''"

definition line_start :: "string \<Rightarrow> string \<times> char_stream \<times> nat \<Rightarrow> string \<times> nat \<Rightarrow> bool" where
  "line_start ind st x \<longleftrightarrow> (\<exists>out p. x = (out, p) \<and> 16 dvd p \<and>
     (\<forall>a. hexdump_step ind st a = (out @ dump_head ind p @ hex_byte a, pchars_of [dump_char a], Suc p)))"

lemma line_start_first: "line_start ind (out, pchars_of [], 0) (out, 0)"
  by (simp add: line_start_def hexdump_step_def dump_head_def hex_byte_def put_pchars)

lemma line_start_next:
  "16 dvd p \<Longrightarrow> 0 < p \<Longrightarrow> line_start ind (out, pchars_of cs, p) (out @ ''    '' @ fst (pchars_of cs) @ [newline], p)"
  by (auto simp: line_start_def hexdump_step_def dump_head_def hex_byte_def pchars_of_def elim!: dvdE)

lemma hexdump_chunk:
  assumes "line_start ind st (out, p)" "bs \<noteq> []" "length bs \<le> 16"
  shows "foldl (hexdump_step ind) st bs = (out @ dump_head ind p @ hex_groups bs, pchars_of (map dump_char bs), p + length bs)"
proof -
  have p: "16 dvd p" and first: "hexdump_step ind st a = (out @ dump_head ind p @ hex_byte a, pchars_of [dump_char a], Suc p)" for a
    using assms(1) by (auto simp: line_start_def)
  obtain a bs' where bs: "bs = a # bs'" using assms(2) by (cases bs) auto
  show ?thesis
  proof (cases bs')
    case Nil
    then show ?thesis using first bs by simp
  next
    case (Cons b bs'')
    have two: "foldl (hexdump_step ind) st [a, b] =
        (out @ dump_head ind p @ hex_byte a @ hex_byte b, pchars_of [dump_char a, dump_char b], p + 2)"
      using first step_odd [OF p, of 0] by simp
    show ?thesis
    proof (cases "bs'' = []")
      case False
      have "hex_groups bs = hex_byte a @ hex_byte b @ '' '' @ hex_groups bs''" using False bs Cons by (cases bs'') simp_all
      moreover have "foldl (hexdump_step ind) st bs = foldl (hexdump_step ind) (foldl (hexdump_step ind) st [a, b]) bs''"
        using bs Cons by simp
      ultimately show ?thesis using two hexdump_inside [of 2 bs'' p] False p assms(3) bs Cons by simp
    qed (use two bs Cons in simp)
  qed
qed

lemma full_line:
  assumes "length bs = 16"
  shows "dump_line indent p bs = dump_head (replicate indent CHR '' '') p @ hex_groups bs @ ''    '' @ map dump_char bs @ [newline]"
proof -
  have "bs \<noteq> []" using assms by auto
  then have "length (hex_groups bs) = 39" using hex_groups_length [of bs] assms by simp
  then show ?thesis by (simp add: dump_line_def dump_head_def eval_nat_numeral)
qed

lemma dump_padding:
  assumes "(n :: nat) < 16" "0 < n"
  shows "43 - (2 * n + (n - 1) div 2) = 2 * (16 - n) + (16 - n) div 2 + 4"
proof -
  have "n \<in> set (upt 1 16)" using assms by simp
  also have "upt 1 16 = [1, 2, 3, 4, 5, 6, 7, 8, 9, 10, 11, 12, 13, 14, 15]" by (simp add: upt_rec)
  finally show ?thesis by (elim set_ConsD [THEN disjE]; simp)
qed

lemma last_line:
  assumes "bs \<noteq> []" "length bs \<le> 16"
  shows "dump_line indent p bs = dump_head (replicate indent CHR '' '') p @ hex_groups bs @
    replicate (2 * ((16 - length bs mod 16) mod 16) + (16 - length bs mod 16) mod 16 div 2 + 4) CHR '' '' @ map dump_char bs @ [newline]"
proof -
  have "43 - length (hex_groups bs) = 2 * ((16 - length bs mod 16) mod 16) + (16 - length bs mod 16) mod 16 div 2 + 4"
  proof (cases "length bs = 16")
    case False
    then have n: "length bs < 16" "0 < length bs" using assms by auto
    then have "43 - (2 * length bs + (length bs - 1) div 2) = 2 * (16 - length bs) + (16 - length bs) div 2 + 4" by (rule dump_padding)
    with n show ?thesis using hex_groups_length [OF assms(1)] by simp
  qed (use hex_groups_length [OF assms(1)] in simp)
  then show ?thesis by (simp add: dump_line_def dump_head_def)
qed

lemma hexdump_from:
  assumes "line_start (replicate indent CHR '' '') st (out, p)" "data \<noteq> []"
    "foldl (hexdump_step (replicate indent CHR '' '')) st data = (cout, pchars, printed)"
    "print_rem = (16 - printed mod 16) mod 16"
  shows "cout @ replicate (2 * print_rem + print_rem div 2 + 4) CHR '' '' @ fst pchars @ [newline] = out @ dump_lines indent p data"
  using assms(1-3)
proof (induction indent p data arbitrary: st out rule: dump_lines.induct)
  case (1 indent p data)
  have p: "16 dvd p" using 1(2) by (auto simp: line_start_def)
  show ?case
  proof (cases "length data \<le> 16")
    case True
    have "(p + length data) mod 16 = length data mod 16" using p by (auto elim!: dvdE)
    with hexdump_chunk [OF 1(2,3) True] 1(3,4) assms(4) True last_line [OF 1(3) True, of indent p]
    show ?thesis by (subst dump_lines.simps) (simp add: pchars_of_def)
  next
    case False
    let ?ind = "replicate indent CHR '' ''" and ?bs = "take 16 data"
    have bs: "?bs \<noteq> []" "length ?bs = 16" using False by auto
    have st: "foldl (hexdump_step ?ind) st ?bs = (out @ dump_head ?ind p @ hex_groups ?bs, pchars_of (map dump_char ?bs), p + 16)"
      using hexdump_chunk [OF 1(2) bs(1)] bs(2) by simp
    have "foldl (hexdump_step ?ind) st data = foldl (hexdump_step ?ind) (foldl (hexdump_step ?ind) st ?bs) (drop 16 data)"
      by (metis append_take_drop_id foldl_append)
    with 1(4) have rest: "foldl (hexdump_step ?ind) (out @ dump_head ?ind p @ hex_groups ?bs, pchars_of (map dump_char ?bs), p + 16) (drop 16 data) =
        (cout, pchars, printed)" by (simp add: st)
    have "line_start ?ind (out @ dump_head ?ind p @ hex_groups ?bs, pchars_of (map dump_char ?bs), p + 16)
        ((out @ dump_head ?ind p @ hex_groups ?bs) @ ''    '' @ fst (pchars_of (map dump_char ?bs)) @ [newline], p + 16)"
      by (rule line_start_next) (use p in auto)
    from 1(1) [OF False this _ rest] False full_line [OF bs(2), of indent p] bs(1) show ?thesis
      by (subst dump_lines.simps) (auto simp: pchars_of_def)
  qed
qed

text \<open>A dump is one line for every sixteen bytes with their offset, the bytes in groups of two and their printable characters, which
  start in the same column in every line, also the last one; and an empty line.  Without bytes it is five spaces and an empty line.\<close>

theorem hexdump_layout:
  "hexdump data indent = (if data = [] then ''     '' @ [newline, newline] else dump_lines indent 0 data @ [newline])"
proof (cases "data = []")
  case True
  have "replicate 4 CHR '' '' = ''    ''" by (simp add: eval_nat_numeral)
  with True show ?thesis by (simp add: hexdump_def)
next
  case False
  let ?ind = "replicate indent CHR '' ''"
  obtain cout pchars printed where f: "foldl (hexdump_step ?ind) ([], ('' '', 0), 0) data = (cout, pchars, printed)" by (metis prod.exhaust)
  have "line_start ?ind ([], ('' '', 0), 0) ([], 0)" using line_start_first by (simp add: pchars_of_def)
  from hexdump_from [OF this False f refl, symmetric] False f show ?thesis by (simp add: hexdump_def Let_def)
qed

text \<open>Nothing is lost in the texts: two TCP headers, two IPv4 headers or two Ethernet addresses are shown by the same text only if they are
  equal.\<close>

theorem header_texts_faithful:
  "(tcp_header_to_string h = tcp_header_to_string h' \<longleftrightarrow> h = h') \<and>
   (ipv4_header_to_string i = ipv4_header_to_string i' \<longleftrightarrow> i = i') \<and>
   (ethernet_address_to_string a = ethernet_address_to_string b \<longleftrightarrow> a = b)"
  by (simp add: tcp_header_to_string_inject ipv4_header_to_string_inject ethernet_address_to_string_inject)

end
