(* ===== verification/Network_Simulator.thy ===== *)
theory Network_Simulator
  imports Router Header_Text "HOL-Library.Multiset"
begin

unbundle bit_operations_syntax

text \<open>
  \<^verbatim>\<open>apps/network_simulator.cc\<close>: hosts and a router in one program, joined by links that hand the frames of one interface to
  the others.  The random number generator \<^verbatim>\<open>rd\<close> is a parameter, a function on its state; what is written to the terminal is left out,
  but not that printing an address may throw.  The map of hosts is the list of its entries; its iteration order, which the C++ library leaves
  open, only decides which of several exceptions is thrown.
\<close>

type_synonym 'g generator = "'g \<Rightarrow> 'g \<times> u32"

definition draw_byte :: "'g generator \<Rightarrow> 'g \<Rightarrow> 'g \<times> byte" where
  "draw_byte rd g = (let (g, x) = rd g in (g, ucast x))"

definition draw_address :: "'g generator \<Rightarrow> 'g \<Rightarrow> 'g \<times> ethernet_address" where
  "draw_address rd g =
     (let (g, a) = draw_byte rd g; (g, b) = draw_byte rd g; (g, c) = draw_byte rd g;
          (g, d) = draw_byte rd g; (g, e) = draw_byte rd g; (g, f) = draw_byte rd g
      in (g, EthernetAddress a b c d e f))"

fun private_address :: "ethernet_address \<Rightarrow> ethernet_address" where
  "private_address (EthernetAddress a b c d e f) = EthernetAddress ((a OR 0x02) AND 0xfe) b c d e f"

fun router_address :: "ethernet_address \<Rightarrow> ethernet_address" where
  "router_address (EthernetAddress a b c d e f) = EthernetAddress 0x02 0 0 d e f"

definition random_host_ethernet_address :: "'g generator \<Rightarrow> 'g \<Rightarrow> 'g \<times> ethernet_address" where
  "random_host_ethernet_address rd g = (let (g, addr) = draw_address rd g in (g, private_address addr))"

definition random_router_ethernet_address :: "'g generator \<Rightarrow> 'g \<Rightarrow> 'g \<times> ethernet_address" where
  "random_router_ethernet_address rd g = (let (g, addr) = draw_address rd g in (g, router_address addr))"

definition ip_of :: "resolver \<Rightarrow> string \<Rightarrow> exn + u32" where
  "ip_of gai str = (case address_of_ip gai str 0 of Inl e \<Rightarrow> Inl e | Inr a \<Rightarrow> ipv4_numeric a)"

text \<open>Both queues are popped as often as the first one allows; popping an empty queue has no meaning.\<close>

fun clear_queues :: "'a list \<Rightarrow> 'a list \<Rightarrow> exn + 'a list" where
  "clear_queues [] queue2 = Inr queue2"
| "clear_queues (x # queue1) queue2 =
     (if queue2 = [] then Inl (Undefined_behaviour ''pop of an empty queue'') else clear_queues queue1 (tl queue2))"

subsection \<open>Hosts\<close>

record host =
  hs_name :: string
  hs_my_address :: address
  hs_interface :: async_interface
  hs_next_hop :: address
  hs_expecting_to_receive :: "ipv4_datagram list"

text \<open>The comparison of two datagrams by their serializations.\<close>

definition same_bytes :: "ipv4_datagram \<Rightarrow> ipv4_datagram \<Rightarrow> exn + bool" where
  "same_bytes x y =
     (case ipv4_datagram_serialize x of Inl e \<Rightarrow> Inl e
      | Inr a \<Rightarrow> (case ipv4_datagram_serialize y of Inl e \<Rightarrow> Inl e | Inr b \<Rightarrow> Inr (a = b)))"

fun expecting :: "ipv4_datagram list \<Rightarrow> ipv4_datagram \<Rightarrow> exn + bool" where
  "expecting [] expected = Inr False"
| "expecting (x # xs) expected =
     (case same_bytes x expected of Inl e \<Rightarrow> Inl e | Inr True \<Rightarrow> Inr True | Inr False \<Rightarrow> expecting xs expected)"

fun remove_expectation :: "ipv4_datagram list \<Rightarrow> ipv4_datagram \<Rightarrow> exn + ipv4_datagram list" where
  "remove_expectation [] expected = Inr []"
| "remove_expectation (x # xs) expected =
     (case same_bytes x expected of
        Inl e \<Rightarrow> Inl e
      | Inr True \<Rightarrow> Inr xs
      | Inr False \<Rightarrow> (case remove_expectation xs expected of Inl e \<Rightarrow> Inl e | Inr ys \<Rightarrow> Inr (x # ys)))"

definition host_new :: "'g generator \<Rightarrow> resolver \<Rightarrow> string \<Rightarrow> string \<Rightarrow> string \<Rightarrow> 'g \<Rightarrow> 'g \<times> (exn + host)" where
  "host_new rd gai name my_address next_hop g =
     call g (address_of_ip gai my_address 0) (\<lambda>my_address.
     call g (address_of_ip gai next_hop 0) (\<lambda>next_hop.
     let (g, mac) = random_host_ethernet_address rd g
     in (g, Inr \<lparr>hs_name = name, hs_my_address = my_address, hs_interface = async_interface_of (network_interface_new mac my_address),
                 hs_next_hop = next_hop, hs_expecting_to_receive = []\<rparr>)))"

definition host_payload :: "u32 \<Rightarrow> bytes" where
  "host_payload rnd = map of_char (''random payload: {'' @ to_string (unat rnd) @ ''}'')"

definition host_datagram :: "u32 \<Rightarrow> u32 \<Rightarrow> byte \<Rightarrow> u32 \<Rightarrow> ipv4_datagram" where
  "host_datagram src dst ttl rnd =
     (let payload = host_payload rnd
      in \<lparr>dg_header = ipv4_header_new\<lparr>ih_src := src, ih_dst := dst,
            ih_len := ucast (ih_hlen ipv4_header_new) * 4 + word_of_nat (length payload), ih_ttl := ttl\<rparr>, dg_payload = payload\<rparr>)"

text \<open>The result is the datagram; the report of the attempt prints the next hop.\<close>

definition send_to :: "'g generator \<Rightarrow> namer \<Rightarrow> address \<Rightarrow> byte \<Rightarrow> 'g \<times> host \<Rightarrow> ('g \<times> host) \<times> (exn + ipv4_datagram)" where
  "send_to rd gni destination ttl x =
     (let (g, h) = x
      in call (g, h) (ipv4_numeric (hs_my_address h)) (\<lambda>src.
         call (g, h) (ipv4_numeric destination) (\<lambda>dst.
         let (g, rnd) = rd g; dgram = host_datagram src dst ttl rnd;
             (ni, r) = send_datagram (an_interface (hs_interface h)) dgram (hs_next_hop h);
             h = h\<lparr>hs_interface := (hs_interface h)\<lparr>an_interface := ni\<rparr>\<rparr>
         in call (g, h) r (\<lambda>_.
            call (g, h) (address_ip gni (hs_next_hop h)) (\<lambda>_. ((g, h), Inr dgram))))))"

definition expect :: "ipv4_datagram \<Rightarrow> host \<Rightarrow> host" where
  "expect expected h = h\<lparr>hs_expecting_to_receive := hs_expecting_to_receive h @ [expected]\<rparr>"

text \<open>The loop of \<^verbatim>\<open>check\<close>: what has been received is taken from the queue and from the expectations.\<close>

definition describe :: "ipv4_datagram \<Rightarrow> string" where
  "describe d = ipv4_header_summary (dg_header d) @ '' payload='' @ quoted (dg_payload d)"

fun check_received :: "string \<Rightarrow> ipv4_datagram list \<Rightarrow> ipv4_datagram list \<Rightarrow> (ipv4_datagram list \<times> ipv4_datagram list) \<times> (exn + unit)" where
  "check_received name es [] = ((es, []), Inr ())"
| "check_received name es (d # ds) =
     call (es, d # ds) (expecting es d) (\<lambda>found.
     if \<not> found then ((es, d # ds), Inl (Runtime_error (''Host '' @ name @ '' received unexpected Internet datagram: '' @ describe d)))
     else call (es, d # ds) (remove_expectation es d) (\<lambda>es. check_received name es ds))"

definition host_check :: "host \<Rightarrow> host \<times> (exn + unit)" where
  "host_check h =
     (let ((es, ds), r) = check_received (hs_name h) (hs_expecting_to_receive h) (an_datagrams_out (hs_interface h));
          h = h\<lparr>hs_expecting_to_receive := es, hs_interface := (hs_interface h)\<lparr>an_datagrams_out := ds\<rparr>\<rparr>
      in call h r (\<lambda>_.
         if es \<noteq> []
         then (h, Inl (Runtime_error (''Host '' @ hs_name h @ '' did NOT receive an expected Internet datagram: '' @ describe (hd es))))
         else (h, Inr ())))"

subsection \<open>Links\<close>

text \<open>Every frame of one queue is received by an interface.\<close>

fun deliver :: "ethernet_frame list \<Rightarrow> async_interface \<Rightarrow> async_interface \<times> (exn + unit)" where
  "deliver [] dst = (dst, Inr ())"
| "deliver (f # to_send) dst = call_on (an_recv_frame dst f) (\<lambda>dst _. deliver to_send dst)"

definition frames_of :: "async_interface \<Rightarrow> ethernet_frame list" where
  "frames_of a = ni_frames_out (an_interface a)"

definition clear_frames :: "ethernet_frame list \<Rightarrow> async_interface \<Rightarrow> async_interface \<times> (exn + unit)" where
  "clear_frames fs a =
     call a (clear_queues fs (frames_of a)) (\<lambda>q. (a\<lparr>an_interface := (an_interface a)\<lparr>ni_frames_out := q\<rparr>\<rparr>, Inr ()))"

definition exchange_frames :: "async_interface \<times> async_interface \<Rightarrow> (async_interface \<times> async_interface) \<times> (exn + unit)" where
  "exchange_frames xy =
     (let (x, y) = xy; x_frames = frames_of x; y_frames = frames_of y; (y, r) = deliver x_frames y
      in call (x, y) r (\<lambda>_.
         let (x, r) = deliver y_frames x
         in call (x, y) r (\<lambda>_.
         let (x, r) = clear_frames x_frames x
         in call (x, y) r (\<lambda>_.
         let (y, r) = clear_frames y_frames y in ((x, y), r)))))"

definition exchange_frames3 :: "async_interface \<times> async_interface \<times> async_interface \<Rightarrow>
    (async_interface \<times> async_interface \<times> async_interface) \<times> (exn + unit)" where
  "exchange_frames3 xyz =
     (let (x, y, z) = xyz; x_frames = frames_of x; y_frames = frames_of y; z_frames = frames_of z; (y, r) = deliver x_frames y
      in call (x, y, z) r (\<lambda>_. let (z, r) = deliver x_frames z
      in call (x, y, z) r (\<lambda>_. let (x, r) = deliver y_frames x
      in call (x, y, z) r (\<lambda>_. let (z, r) = deliver y_frames z
      in call (x, y, z) r (\<lambda>_. let (x, r) = deliver z_frames x
      in call (x, y, z) r (\<lambda>_. let (y, r) = deliver z_frames y
      in call (x, y, z) r (\<lambda>_. let (x, r) = clear_frames x_frames x
      in call (x, y, z) r (\<lambda>_. let (y, r) = clear_frames y_frames y
      in call (x, y, z) r (\<lambda>_. let (z, r) = clear_frames z_frames z in ((x, y, z), r))))))))))"

subsection \<open>The network\<close>

record network =
  nt_router :: router
  nt_default_id :: nat
  nt_eth0_id :: nat
  nt_eth1_id :: nat
  nt_eth2_id :: nat
  nt_uun3_id :: nat
  nt_hs4_id :: nat
  nt_mit5_id :: nat
  nt_hosts :: "(string \<times> host) list"

definition find_host :: "network \<Rightarrow> string \<Rightarrow> exn + host" where
  "find_host n name =
     (case map_of (nt_hosts n) name of
        None \<Rightarrow> Inl (Runtime_error (''unknown host: '' @ name))
      | Some h \<Rightarrow> if hs_name h \<noteq> name then Inl (Runtime_error (''invalid host: '' @ name)) else Inr h)"

text \<open>Hosts and interfaces are changed in place.\<close>

definition set_host :: "string \<Rightarrow> host \<Rightarrow> network \<Rightarrow> network" where
  "set_host name h n = n\<lparr>nt_hosts := AList.update name h (nt_hosts n)\<rparr>"

definition set_port :: "nat \<Rightarrow> async_interface \<Rightarrow> network \<Rightarrow> network" where
  "set_port i a n = n\<lparr>nt_router := (nt_router n)\<lparr>rt_interfaces := (rt_interfaces (nt_router n))[i := a]\<rparr>\<rparr>"

text \<open>The constructor: interfaces, hosts and routes, in this order.\<close>

definition router_port :: "'g generator \<Rightarrow> resolver \<Rightarrow> string \<Rightarrow> router \<Rightarrow> 'g \<Rightarrow> 'g \<times> (exn + router \<times> nat)" where
  "router_port rd gai ip r g =
     (let (g, mac) = random_router_ethernet_address rd g
      in call g (address_of_ip gai ip 0) (\<lambda>a. (g, Inr (add_interface r (async_interface_of (network_interface_new mac a))))))"

fun add_hosts :: "'g generator \<Rightarrow> resolver \<Rightarrow> (string \<times> string \<times> string) list \<Rightarrow> 'g \<Rightarrow> 'g \<times> (exn + (string \<times> host) list)" where
  "add_hosts rd gai [] g = (g, Inr [])"
| "add_hosts rd gai ((name, my_address, next_hop) # hs) g =
     call_on (host_new rd gai name my_address next_hop g) (\<lambda>g h.
     call_on (add_hosts rd gai hs g) (\<lambda>g hs. (g, Inr ((name, h) # hs))))"

fun add_routes :: "resolver \<Rightarrow> namer \<Rightarrow> (string \<times> byte \<times> address option \<times> nat) list \<Rightarrow> router \<Rightarrow> exn + router" where
  "add_routes gai gni [] r = Inr r"
| "add_routes gai gni ((prefix, len, next_hop, i) # rs) r =
     (case ip_of gai prefix of
        Inl e \<Rightarrow> Inl e
      | Inr ip \<Rightarrow> (case add_route gni r ip len next_hop i of (_, Inl e) \<Rightarrow> Inl e | (r, Inr _) \<Rightarrow> add_routes gai gni rs r))"

definition network_hosts :: "(string \<times> string \<times> string) list" where
  "network_hosts =
     [(''applesauce'', ''10.0.0.2'', ''10.0.0.1''), (''default_router'', ''171.67.76.1'', ''0''),
      (''cherrypie'', ''192.168.0.2'', ''192.168.0.1''), (''hs_router'', ''143.195.0.1'', ''0''),
      (''dm42'', ''198.178.229.42'', ''198.178.229.1''), (''dm43'', ''198.178.229.43'', ''198.178.229.1'')]"

definition network_new :: "'g generator \<Rightarrow> resolver \<Rightarrow> namer \<Rightarrow> 'g \<Rightarrow> 'g \<times> (exn + network)" where
  "network_new rd gai gni g =
     call_on (router_port rd gai ''171.67.76.46'' router_new g) (\<lambda>g (r, default_id).
     call_on (router_port rd gai ''10.0.0.1'' r g) (\<lambda>g (r, eth0_id).
     call_on (router_port rd gai ''172.16.0.1'' r g) (\<lambda>g (r, eth1_id).
     call_on (router_port rd gai ''192.168.0.1'' r g) (\<lambda>g (r, eth2_id).
     call_on (router_port rd gai ''198.178.229.1'' r g) (\<lambda>g (r, uun3_id).
     call_on (router_port rd gai ''143.195.0.2'' r g) (\<lambda>g (r, hs4_id).
     call_on (router_port rd gai ''128.30.76.255'' r g) (\<lambda>g (r, mit5_id).
     call_on (add_hosts rd gai network_hosts g) (\<lambda>g hosts.
     let n = \<lparr>nt_router = r, nt_default_id = default_id, nt_eth0_id = eth0_id, nt_eth1_id = eth1_id, nt_eth2_id = eth2_id,
              nt_uun3_id = uun3_id, nt_hs4_id = hs4_id, nt_mit5_id = mit5_id, nt_hosts = hosts\<rparr>
     in call g (find_host n ''default_router'') (\<lambda>default_router.
        call g (find_host n ''hs_router'') (\<lambda>hs_router.
        call g (address_of_ip gai ''128.30.0.1'' 0) (\<lambda>mit_router.
        call g (add_routes gai gni
          [(''0.0.0.0'', 0, Some (hs_my_address default_router), default_id),
           (''10.0.0.0'', 8, None, eth0_id),
           (''172.16.0.0'', 16, None, eth1_id),
           (''192.168.0.0'', 24, None, eth2_id),
           (''198.178.229.0'', 24, None, uun3_id),
           (''143.195.0.0'', 17, Some (hs_my_address hs_router), hs4_id),
           (''143.195.128.0'', 18, Some (hs_my_address hs_router), hs4_id),
           (''143.195.192.0'', 19, Some (hs_my_address hs_router), hs4_id),
           (''128.30.76.255'', 16, Some mit_router, mit5_id)] r) (\<lambda>r.
        (g, Inr (n\<lparr>nt_router := r\<rparr>))))))))))))))"

text \<open>The physical connections.\<close>

definition join_host :: "nat \<Rightarrow> string \<Rightarrow> network \<Rightarrow> network \<times> (exn + unit)" where
  "join_host i name n =
     call n (rt_interface (nt_router n) i) (\<lambda>x.
     call n (find_host n name) (\<lambda>h.
     let ((x, y), r) = exchange_frames (x, hs_interface h)
     in (set_host name (h\<lparr>hs_interface := y\<rparr>) (set_port i x n), r)))"

definition join_hosts :: "nat \<Rightarrow> string \<Rightarrow> string \<Rightarrow> network \<Rightarrow> network \<times> (exn + unit)" where
  "join_hosts i name1 name2 n =
     call n (rt_interface (nt_router n) i) (\<lambda>x.
     call n (find_host n name1) (\<lambda>h1.
     call n (find_host n name2) (\<lambda>h2.
     let ((x, y, z), r) = exchange_frames3 (x, hs_interface h1, hs_interface h2)
     in (set_host name2 (h2\<lparr>hs_interface := z\<rparr>) (set_host name1 (h1\<lparr>hs_interface := y\<rparr>) (set_port i x n)), r))))"

definition simulate_physical_connections :: "network \<Rightarrow> network \<times> (exn + unit)" where
  "simulate_physical_connections n =
     call_on (join_host (nt_default_id n) ''default_router'' n) (\<lambda>n _.
     call_on (join_host (nt_eth0_id n) ''applesauce'' n) (\<lambda>n _.
     call_on (join_host (nt_eth2_id n) ''cherrypie'' n) (\<lambda>n _.
     call_on (join_host (nt_hs4_id n) ''hs_router'' n) (\<lambda>n _.
     join_hosts (nt_uun3_id n) ''dm42'' ''dm43'' n))))"

fun simulate_rounds :: "resolver \<Rightarrow> nat \<Rightarrow> network \<Rightarrow> network \<times> (exn + unit)" where
  "simulate_rounds gai 0 n = (n, Inr ())"
| "simulate_rounds gai (Suc i) n =
     (let (r, res) = route gai (nt_router n); n = n\<lparr>nt_router := r\<rparr>
      in call n res (\<lambda>_. call_on (simulate_physical_connections n) (\<lambda>n _. simulate_rounds gai i n)))"

fun check_hosts :: "(string \<times> host) list \<Rightarrow> (string \<times> host) list \<times> (exn + unit)" where
  "check_hosts [] = ([], Inr ())"
| "check_hosts ((name, h) # hs) =
     (let (h, r) = host_check h
      in call ((name, h) # hs) r (\<lambda>_. let (hs, r) = check_hosts hs in ((name, h) # hs, r)))"

definition simulate :: "resolver \<Rightarrow> network \<Rightarrow> network \<times> (exn + unit)" where
  "simulate gai n =
     call_on (simulate_rounds gai 256 n) (\<lambda>n _. let (hs, r) = check_hosts (nt_hosts n) in (n\<lparr>nt_hosts := hs\<rparr>, r))"

subsection \<open>The tests\<close>

definition send_from :: "'g generator \<Rightarrow> namer \<Rightarrow> string \<Rightarrow> address \<Rightarrow> byte \<Rightarrow> 'g \<times> network \<Rightarrow> ('g \<times> network) \<times> (exn + ipv4_datagram)" where
  "send_from rd gni name destination ttl x =
     (let (g, n) = x
      in call (g, n) (find_host n name) (\<lambda>h.
         let ((g, h), r) = send_to rd gni destination ttl (g, h) in ((g, set_host name h n), r)))"

text \<open>A datagram is sent, expected at another host with its time to live decremented, and the network runs.\<close>

definition test_traffic :: "'g generator \<Rightarrow> resolver \<Rightarrow> namer \<Rightarrow> string \<Rightarrow> address \<Rightarrow> string \<Rightarrow> 'g \<times> network \<Rightarrow> ('g \<times> network) \<times> (exn + unit)" where
  "test_traffic rd gai gni sender destination receiver x =
     call_on (send_from rd gni sender destination 64 x) (\<lambda>(g, n) dgram_sent.
     let dgram_sent = dgram_sent\<lparr>dg_header := (dg_header dgram_sent)\<lparr>ih_ttl := ih_ttl (dg_header dgram_sent) - 1\<rparr>\<rparr>
     in call (g, n) (find_host n receiver) (\<lambda>h.
        let n = set_host receiver (expect dgram_sent h) n; (n, r) = simulate gai n in ((g, n), r)))"

definition test_hosts :: "'g generator \<Rightarrow> resolver \<Rightarrow> namer \<Rightarrow> string \<Rightarrow> string \<Rightarrow> 'g \<times> network \<Rightarrow> ('g \<times> network) \<times> (exn + unit)" where
  "test_hosts rd gai gni sender receiver x =
     call x (find_host (snd x) receiver) (\<lambda>h. test_traffic rd gai gni sender (hs_my_address h) receiver x)"

definition test_remote :: "'g generator \<Rightarrow> resolver \<Rightarrow> namer \<Rightarrow> string \<Rightarrow> string \<Rightarrow> string \<Rightarrow> 'g \<times> network \<Rightarrow> ('g \<times> network) \<times> (exn + unit)" where
  "test_remote rd gai gni sender destination receiver x =
     call x (address_of_ip gai destination 0) (\<lambda>a. test_traffic rd gai gni sender a receiver x)"

definition test_expiry :: "'g generator \<Rightarrow> resolver \<Rightarrow> namer \<Rightarrow> string \<Rightarrow> string \<Rightarrow> byte \<Rightarrow> 'g \<times> network \<Rightarrow> ('g \<times> network) \<times> (exn + unit)" where
  "test_expiry rd gai gni sender destination ttl x =
     call x (address_of_ip gai destination 0) (\<lambda>a.
     call_on (send_from rd gni sender a ttl x) (\<lambda>(g, n) _. let (n, r) = simulate gai n in ((g, n), r)))"

definition network_tests :: "'g generator \<Rightarrow> resolver \<Rightarrow> namer \<Rightarrow> 'g \<times> network \<Rightarrow> ('g \<times> network) \<times> (exn + unit)" where
  "network_tests rd gai gni x =
     call_on (test_hosts rd gai gni ''applesauce'' ''cherrypie'' x) (\<lambda>x _.
     call_on (test_hosts rd gai gni ''cherrypie'' ''applesauce'' x) (\<lambda>x _.
     call_on (test_remote rd gai gni ''applesauce'' ''1.2.3.4'' ''default_router'' x) (\<lambda>x _.
     call_on (test_remote rd gai gni ''applesauce'' ''143.195.131.17'' ''hs_router'' x) (\<lambda>x _.
     call_on (test_remote rd gai gni ''cherrypie'' ''143.195.193.52'' ''hs_router'' x) (\<lambda>x _.
     call_on (test_remote rd gai gni ''cherrypie'' ''143.195.223.255'' ''hs_router'' x) (\<lambda>x _.
     call_on (test_remote rd gai gni ''cherrypie'' ''143.195.224.0'' ''default_router'' x) (\<lambda>x _.
     call_on (test_hosts rd gai gni ''dm42'' ''dm43'' x) (\<lambda>x _.
     call_on (test_expiry rd gai gni ''applesauce'' ''1.2.3.4'' 1 x) (\<lambda>x _.
     test_expiry rd gai gni ''applesauce'' ''1.2.3.4'' 0 x)))))))))"

definition network_simulator :: "'g generator \<Rightarrow> resolver \<Rightarrow> namer \<Rightarrow> 'g \<Rightarrow> 'g \<times> (exn + unit)" where
  "network_simulator rd gai gni g =
     (case network_new rd gai gni g of
        (g, Inl e) \<Rightarrow> (g, Inl e)
      | (g, Inr n) \<Rightarrow> (let ((g, n), r) = network_tests rd gai gni (g, n) in (g, r)))"

end
