(* ===== verification/Lab7.thy ===== *)
theory Lab7
  imports Sponge_Owner Network_Simulator
begin

text \<open>
  \<^verbatim>\<open>apps/lab7.cc\<close>: a host and its router in one program, joined by a pair of local datagram sockets; the router's other
  interface sends its frames as UDP datagrams to a relay (the ``bouncer'') and so to the router of another such program.  A thread runs the
  router.  Its state is the record \<open>lab7\<close>; the main thread belongs to the system for it, so \<^verbatim>\<open>exit_flag\<close> is read from the system's state.  As in
  \<open>Network_Simulator\<close>, the random number generator is a parameter and what is printed is left out, but not that printing an address may throw.
\<close>

definition lab7_summary :: "ethernet_frame \<Rightarrow> string" where
  "lab7_summary frame =
     (let ret = ethernet_header_to_string (ef_header frame)
      in if eh_type (ef_header frame) = TYPE_IPv4
         then (let (res, dgram) = ipv4_datagram_parse (ef_payload frame) ipv4_datagram_new
               in if res = NoError
                  then (let ret = ret @ '' '' @ ipv4_header_summary (dg_header dgram)
                        in if ih_proto (dg_header dgram) = PROTO_TCP
                           then (let (res, tcp_seg) = tcp_segment_parse (dg_payload dgram) (pseudo_cksum (dg_header dgram)) tcp_segment_new
                                 in if res = NoError then ret @ '' '' @ tcp_header_summary (sg_header tcp_seg) else ret)
                           else ret)
                  else ret @ '' (bad IPv4)'')
         else if eh_type (ef_header frame) = TYPE_ARP
         then (let (res, arp) = arp_message_parse (ef_payload frame) arp_message_new
               in if res = NoError then ret @ '' '' @ arp_message_to_string arp else ret @ '' (bad ARP)'')
         else ret)"

subsection \<open>NetworkInterfaceAdapter\<close>

text \<open>The thread of the TCP socket uses the first end of the pair, the router's thread the second.\<close>

record interface_adapter =
  ia_base :: fd_adapter_base
  ia_interface :: network_interface
  ia_next_hop :: address
  ia_first :: fd_wrapper
  ia_second :: fd_wrapper

definition ia_send_pending :: "('k, 'z) net_kernel_scheme \<Rightarrow> interface_adapter \<times> 'k \<Rightarrow> (interface_adapter \<times> 'k) \<times> (exn + unit)" where
  "ia_send_pending K x =
     (let (a, k) = x; (frs, (f, k), r) = send_frames K (ni_frames_out (ia_interface a)) (ia_first a, k)
      in ((a\<lparr>ia_first := f, ia_interface := (ia_interface a)\<lparr>ni_frames_out := frs\<rparr>\<rparr>, k), r))"

definition ia_read :: "('k, 'z) net_kernel_scheme \<Rightarrow> resolver \<Rightarrow> namer \<Rightarrow>
    interface_adapter \<times> 'k \<Rightarrow> (interface_adapter \<times> 'k) \<times> (exn + tcp_segment option)" where
  "ia_read K gai gni x =
     (let (a, k) = x; ((f, k), r) = fd_read K SIZE_MAX (ia_first a, k); a = a\<lparr>ia_first := f\<rparr>
      in call (a, k) r (\<lambda>bs.
         let (res, frame) = ethernet_frame_parse bs ethernet_frame_new
         in if res \<noteq> NoError then ((a, k), Inr None)
            else
              (let (ni, ip_dgram) = recv_frame (ia_interface a) frame; a = a\<lparr>ia_interface := ni\<rparr>
               in call (a, k) ip_dgram (\<lambda>ip_dgram.
                  call_on (ia_send_pending K (a, k)) (\<lambda>x _.
                  case ip_dgram of
                    None \<Rightarrow> (x, Inr None)
                  | Some d \<Rightarrow> (let (a, k) = x; (base, seg) = unwrap_tcp_in_ip gai gni (ia_base a) d in ((a\<lparr>ia_base := base\<rparr>, k), seg)))))))"

definition ia_write :: "('k, 'z) net_kernel_scheme \<Rightarrow> namer \<Rightarrow> tcp_segment \<Rightarrow>
    interface_adapter \<times> 'k \<Rightarrow> tcp_segment \<times> (interface_adapter \<times> 'k) \<times> (exn + unit)" where
  "ia_write K gni seg x =
     (let (a, k) = x
      in case wrap_tcp_in_ip gni (ia_base a) seg of
           (seg, Inl e) \<Rightarrow> (seg, x, Inl e)
         | (seg, Inr d) \<Rightarrow>
             (let (ni, r) = send_datagram (ia_interface a) d (ia_next_hop a); a = a\<lparr>ia_interface := ni\<rparr>
              in (seg, call (a, k) r (\<lambda>_. ia_send_pending K (a, k)))))"

definition ia_tick :: "('k, 'z) net_kernel_scheme \<Rightarrow> nat \<Rightarrow> interface_adapter \<times> 'k \<Rightarrow> (interface_adapter \<times> 'k) \<times> (exn + unit)" where
  "ia_tick K ms x =
     (let (a, k) = x; (ni, r) = ni_tick (ia_interface a) ms; a = a\<lparr>ia_interface := ni\<rparr>
      in call (a, k) r (\<lambda>_. ia_send_pending K (a, k)))"

definition ia_ops :: "('k, 'z) net_kernel_scheme \<Rightarrow> resolver \<Rightarrow> namer \<Rightarrow> (interface_adapter, 'k) adapter_ops" where
  "ia_ops K gai gni =
     \<lparr>at_fd = ia_first, at_config = (\<lambda>a. ab_cfg (ia_base a)),
      at_set_config = (\<lambda>cfg a. a\<lparr>ia_base := (ia_base a)\<lparr>ab_cfg := cfg\<rparr>\<rparr>),
      at_set_listening = (\<lambda>l a. a\<lparr>ia_base := set_listening l (ia_base a)\<rparr>),
      at_read = ia_read K gai gni, at_write = ia_write K gni, at_tick = ia_tick K\<rparr>"

definition ia_new :: "('k, 'z) net_kernel_scheme \<Rightarrow> 'g generator \<Rightarrow> resolver \<Rightarrow> address \<Rightarrow> address \<Rightarrow> 'g \<times> 'k \<Rightarrow>
    ('g \<times> 'k) \<times> (exn + interface_adapter)" where
  "ia_new K rd gai ip_address next_hop x =
     call x (fd_adapter_config_new gai) (\<lambda>cfg.
     let (g, k) = x; (g, mac) = random_host_ethernet_address rd g; (k, fds) = socket_pair_helper K SOCK_DGRAM k
     in call (g, k) fds (\<lambda>(first, second).
        ((g, k), Inr \<lparr>ia_base = \<lparr>ab_cfg = cfg, ab_listen = False\<rparr>, ia_interface = network_interface_new mac ip_address,
           ia_next_hop = next_hop, ia_first = first, ia_second = second\<rparr>)))"

subsection \<open>TCPSocketLab7\<close>

text \<open>The socket is that of \<open>Sponge_Socket\<close> with this adapter; its own field is the local address.\<close>

definition lab7_socket_new :: "('k, 'z) net_kernel_scheme \<Rightarrow> 'g generator \<Rightarrow> resolver \<Rightarrow> address \<Rightarrow> address \<Rightarrow> 'g \<times> 'k \<Rightarrow>
    ('g \<times> 'k) \<times> (exn + (interface_adapter, 'k) sponge \<times> address)" where
  "lab7_socket_new K rd gai ip_address next_hop x =
     call_on (ia_new K rd gai ip_address next_hop x) (\<lambda>(g, k) adapter.
     case sponge_new K adapter k of
       (k, Inl e) \<Rightarrow> ((g, snd (fd_destroy K (ia_first adapter, snd (fd_destroy K (ia_second adapter, k))))), Inl e)
     | (k, Inr s) \<Rightarrow> ((g, k), Inr (s, ip_address)))"

definition lab7_connect :: "('k, 'z) sys_scheme \<Rightarrow> resolver \<Rightarrow> namer \<Rightarrow> address \<Rightarrow> address \<Rightarrow>
    (interface_adapter, 'k) sponge rule list \<times> (interface_adapter, 'k) sponge \<Rightarrow>
    (((interface_adapter, 'k) sponge rule list \<times> (interface_adapter, 'k) sponge) \<times> (exn + unit)) option" where
  "lab7_connect K gai gni local address x =
     (case fd_adapter_config_new gai of
        Inl e \<Rightarrow> Some (x, Inl e)
      | Inr multiplexer_config \<Rightarrow>
     (case address_ip gni local of
        Inl e \<Rightarrow> Some (x, Inl e)
      | Inr ip \<Rightarrow>
          (let (rules, s) = x; (k, rnd) = k_random_device K (ss_sys s); x = (rules, s\<lparr>ss_sys := k\<rparr>)
           in case address_of_ip gai ip (ucast rnd) of
                Inl e \<Rightarrow> Some (x, Inl e)
              | Inr local \<Rightarrow>
                  (case address_to_string gni local of
                     Inl e \<Rightarrow> Some (x, Inl e)
                   | Inr _ \<Rightarrow> sponge_connect K (ia_ops K gai gni) gni tcp_config_default
                       (multiplexer_config\<lparr>fa_source := local, fa_destination := address\<rparr>) x))))"

text \<open>\<^verbatim>\<open>bind\<close> gives the new local address.\<close>

definition lab7_bind :: "resolver \<Rightarrow> namer \<Rightarrow> address \<Rightarrow> address \<Rightarrow> exn + address" where
  "lab7_bind gai gni local address =
     (case (address_ip gni address, address_ip gni local) of
        (Inl e, _) \<Rightarrow> Inl e
      | (_, Inl e) \<Rightarrow> Inl e
      | (Inr ip, Inr local_ip) \<Rightarrow>
          if ip \<noteq> local_ip
          then (case address_to_string gni address of Inl e \<Rightarrow> Inl e | Inr name \<Rightarrow> Inl (Runtime_error (''Cannot bind to '' @ name)))
          else (case address_port gni address of Inl e \<Rightarrow> Inl e | Inr port \<Rightarrow> address_of_ip gai local_ip port))"

definition lab7_listen :: "('k, 'z) sys_scheme \<Rightarrow> resolver \<Rightarrow> namer \<Rightarrow> address \<Rightarrow>
    (interface_adapter, 'k) sponge rule list \<times> (interface_adapter, 'k) sponge \<Rightarrow>
    (((interface_adapter, 'k) sponge rule list \<times> (interface_adapter, 'k) sponge) \<times> (exn + unit)) option" where
  "lab7_listen K gai gni local x =
     (case fd_adapter_config_new gai of
        Inl e \<Rightarrow> Some (x, Inl e)
      | Inr multiplexer_config \<Rightarrow> listen_and_accept K (ia_ops K gai gni) gni tcp_config_default (multiplexer_config\<lparr>fa_source := local\<rparr>) x)"

subsection \<open>The router\<close>

text \<open>The two interfaces and the three routes; the result has the numbers of the interfaces.\<close>

definition lab7_router :: "'g generator \<Rightarrow> resolver \<Rightarrow> namer \<Rightarrow> bool \<Rightarrow> 'g \<Rightarrow> 'g \<times> (exn + router \<times> nat \<times> nat)" where
  "lab7_router rd gai gni is_client g =
     (if is_client
      then call_on (router_port rd gai ''192.168.0.1'' router_new g) (\<lambda>g (r, host_side).
           call_on (router_port rd gai ''10.0.0.192'' r g) (\<lambda>g (r, internet_side).
           call g (add_routes gai gni [(''192.168.0.0'', 16, None, host_side), (''10.0.0.0'', 8, None, internet_side)] r) (\<lambda>r.
           call g (address_of_ip gai ''10.0.0.172'' 0) (\<lambda>other.
           call g (add_routes gai gni [(''172.16.0.0'', 12, Some other, internet_side)] r) (\<lambda>r.
           (g, Inr (r, host_side, internet_side)))))))
      else call_on (router_port rd gai ''172.16.0.1'' router_new g) (\<lambda>g (r, host_side).
           call_on (router_port rd gai ''10.0.0.172'' r g) (\<lambda>g (r, internet_side).
           call g (add_routes gai gni [(''172.16.0.0'', 12, None, host_side), (''10.0.0.0'', 8, None, internet_side)] r) (\<lambda>r.
           call g (address_of_ip gai ''10.0.0.192'' 0) (\<lambda>other.
           call g (add_routes gai gni [(''192.168.0.0'', 16, Some other, internet_side)] r) (\<lambda>r.
           (g, Inr (r, host_side, internet_side))))))))"

text \<open>A frame is received on one interface, and the router routes.\<close>

definition router_receive :: "resolver \<Rightarrow> nat \<Rightarrow> ethernet_frame \<Rightarrow> router \<Rightarrow> router \<times> (exn + unit)" where
  "router_receive gai side frame r =
     call r (rt_interface r side) (\<lambda>a.
     let (a, res) = an_recv_frame a frame; r = r\<lparr>rt_interfaces := (rt_interfaces r)[side := a]\<rparr>
     in call r res (\<lambda>_. route gai r))"

definition router_frames :: "router \<Rightarrow> nat \<Rightarrow> exn + ethernet_frame list" where
  "router_frames r side = (case rt_interface r side of Inl e \<Rightarrow> Inl e | Inr a \<Rightarrow> Inr (ni_frames_out (an_interface a)))"

definition router_pop_frame :: "nat \<Rightarrow> router \<Rightarrow> router" where
  "router_pop_frame side r =
     (let a = rt_interfaces r ! side; ni = an_interface a
      in r\<lparr>rt_interfaces := (rt_interfaces r)[side := a\<lparr>an_interface := ni\<lparr>ni_frames_out := tl (ni_frames_out ni)\<rparr>\<rparr>]\<rparr>)"

definition router_tick :: "nat \<Rightarrow> nat \<Rightarrow> router \<Rightarrow> router \<times> (exn + unit)" where
  "router_tick side ms r =
     call r (rt_interface r side) (\<lambda>a.
     let (ni, res) = ni_tick (an_interface a) ms in (r\<lparr>rt_interfaces := (rt_interfaces r)[side := a\<lparr>an_interface := ni\<rparr>]\<rparr>, res))"

subsection \<open>The thread of the network\<close>

record 'k lab7 =
  l7_router :: router
  l7_frame_fd :: fd_wrapper
  l7_internet_socket :: fd_wrapper
  l7_sys :: 'k

definition received_frame :: "resolver \<Rightarrow> nat \<Rightarrow> bytes \<Rightarrow> 'k lab7 \<Rightarrow> 'k lab7 \<times> (exn + unit)" where
  "received_frame gai side bs s =
     (let (res, frame) = ethernet_frame_parse bs ethernet_frame_new
      in if res \<noteq> NoError then (s, Inr ())
         else (let (r, res) = router_receive gai side frame (l7_router s) in (s\<lparr>l7_router := r\<rparr>, res)))"

definition host_to_router :: "('k, 'z) net_kernel_scheme \<Rightarrow> resolver \<Rightarrow> nat \<Rightarrow> 'k lab7 \<Rightarrow> 'k lab7 \<times> (exn + unit)" where
  "host_to_router K gai host_side s =
     (let ((f, k), r) = fd_read K SIZE_MAX (l7_frame_fd s, l7_sys s); s = s\<lparr>l7_frame_fd := f, l7_sys := k\<rparr>
      in call s r (\<lambda>bs. received_frame gai host_side bs s))"

definition internet_to_router :: "('k, 'z) net_kernel_scheme \<Rightarrow> resolver \<Rightarrow> nat \<Rightarrow> 'k lab7 \<Rightarrow> 'k lab7 \<times> (exn + unit)" where
  "internet_to_router K gai internet_side s =
     (let ((f, k), r) = fd_read K SIZE_MAX (l7_internet_socket s, l7_sys s); s = s\<lparr>l7_internet_socket := f, l7_sys := k\<rparr>
      in call s r (\<lambda>bs. received_frame gai internet_side bs s))"

definition empty_front :: exn where
  "empty_front = Undefined_behaviour ''front of an empty queue''"

text \<open>The frame at the front is written and then popped.\<close>

definition router_to_host :: "('k, 'z) net_kernel_scheme \<Rightarrow> nat \<Rightarrow> 'k lab7 \<Rightarrow> 'k lab7 \<times> (exn + unit)" where
  "router_to_host K host_side s =
     call s (router_frames (l7_router s) host_side) (\<lambda>fs.
     if fs = [] then (s, Inl empty_front)
     else (let ((f, k), r) = fd_write K [ethernet_frame_serialize (hd fs)] True (l7_frame_fd s, l7_sys s);
               s = s\<lparr>l7_frame_fd := f, l7_sys := k\<rparr>
           in call s r (\<lambda>_. (s\<lparr>l7_router := router_pop_frame host_side (l7_router s)\<rparr>, Inr ()))))"

definition router_to_internet :: "('k, 'z) net_kernel_scheme \<Rightarrow> address \<Rightarrow> nat \<Rightarrow> 'k lab7 \<Rightarrow> 'k lab7 \<times> (exn + unit)" where
  "router_to_internet K bounce_address internet_side s =
     call s (router_frames (l7_router s) internet_side) (\<lambda>fs.
     if fs = [] then (s, Inl empty_front)
     else (let ((f, k), r) = udp_sendto K bounce_address [ethernet_frame_serialize (hd fs)] (l7_internet_socket s, l7_sys s);
               s = s\<lparr>l7_internet_socket := f, l7_sys := k\<rparr>
           in call s r (\<lambda>_. (s\<lparr>l7_router := router_pop_frame internet_side (l7_router s)\<rparr>, Inr ()))))"

definition frames_waiting :: "nat \<Rightarrow> 'k lab7 \<Rightarrow> exn + bool" where
  "frames_waiting side s = (case router_frames (l7_router s) side of Inl e \<Rightarrow> Inl e | Inr fs \<Rightarrow> Inr (fs \<noteq> []))"

definition lab7_rules :: "('k, 'z) net_kernel_scheme \<Rightarrow> resolver \<Rightarrow> address \<Rightarrow> nat \<Rightarrow> nat \<Rightarrow> 'k lab7 rule list" where
  "lab7_rules K gai bounce_address host_side internet_side =
     (let rules = add_rule l7_frame_fd Dir_In (host_to_router K gai host_side) always no_cancel [];
          rules = add_rule l7_frame_fd Dir_Out (router_to_host K host_side) (frames_waiting host_side) no_cancel rules;
          rules = add_rule l7_internet_socket Dir_Out (router_to_internet K bounce_address internet_side) (frames_waiting internet_side) no_cancel rules
      in add_rule l7_internet_socket Dir_In (internet_to_router K gai internet_side) always no_cancel rules)"

definition lab7_poll :: "('k, 'z) sys_scheme \<Rightarrow> 'k lab7 poll_fun" where
  "lab7_poll K ps t s = (let (k, r, revents) = k_poll K ps t (l7_sys s) in (s\<lparr>l7_sys := k\<rparr>, r, revents))"

text \<open>One iteration of the thread's loop; the result tells whether it goes on.\<close>

definition lab7_iteration :: "('k, 'z) sys_scheme \<Rightarrow> ('k \<Rightarrow> bool) \<Rightarrow> nat \<Rightarrow> nat \<Rightarrow> 'k lab7 rule list \<times> 'k lab7 \<Rightarrow>
    ('k lab7 rule list \<times> 'k lab7) \<times> (exn + bool)" where
  "lab7_iteration K exit_flag host_side internet_side x =
     call_on (wait_next_event (lab7_poll K) 50 x) (\<lambda>(rules, s) result.
     if result = Exit then ((rules, s), Inr False)
     else
       (let (r, res) = router_tick host_side 50 (l7_router s); s = s\<lparr>l7_router := r\<rparr>
        in call (rules, s) res (\<lambda>_.
       (let (r, res) = router_tick internet_side 50 (l7_router s); s = s\<lparr>l7_router := r\<rparr>
        in call (rules, s) res (\<lambda>_. ((rules, s), Inr (\<not> exit_flag (l7_sys s))))))))"

partial_function (option) lab7_loop :: "('k, 'z) sys_scheme \<Rightarrow> ('k \<Rightarrow> bool) \<Rightarrow> nat \<Rightarrow> nat \<Rightarrow> 'k lab7 rule list \<times> 'k lab7 \<Rightarrow>
    (('k lab7 rule list \<times> 'k lab7) \<times> (exn + unit)) option" where
  "lab7_loop K exit_flag host_side internet_side x =
     (case lab7_iteration K exit_flag host_side internet_side x of
        (x, Inl e) \<Rightarrow> Some (x, Inl e)
      | (x, Inr go_on) \<Rightarrow> if go_on then lab7_loop K exit_flag host_side internet_side x else Some (x, Inr ()))"

text \<open>The thread prints an exception and ends.\<close>

definition network_thread :: "('k, 'z) sys_scheme \<Rightarrow> resolver \<Rightarrow> ('k \<Rightarrow> bool) \<Rightarrow> address \<Rightarrow> nat \<Rightarrow> nat \<Rightarrow> 'k lab7 \<Rightarrow> 'k lab7 option" where
  "network_thread K gai exit_flag bounce_address host_side internet_side s =
     (case lab7_loop K exit_flag host_side internet_side (lab7_rules K gai bounce_address host_side internet_side, s) of
        None \<Rightarrow> None
      | Some ((_, s), _) \<Rightarrow> Some s)"

subsection \<open>The program\<close>

text \<open>What \<^verbatim>\<open>program_body\<close> sets up before it starts the thread.\<close>

definition hello :: "('k, 'z) net_kernel_scheme \<Rightarrow> address \<Rightarrow> fd_wrapper \<times> 'k \<Rightarrow> (fd_wrapper \<times> 'k) \<times> (exn + unit)" where
  "hello K bounce_address x =
     call_on (udp_sendto K bounce_address [[]] x) (\<lambda>x _.
     call_on (udp_sendto K bounce_address [[]] x) (\<lambda>x _. udp_sendto K bounce_address [[]] x))"

definition lab7_host :: "resolver \<Rightarrow> bool \<Rightarrow> exn + address \<times> address" where
  "lab7_host gai is_client =
     (case address_of_ip gai (if is_client then ''192.168.0.50'' else ''172.16.0.100'') 0 of
        Inl e \<Rightarrow> Inl e
      | Inr ip \<Rightarrow>
          (case address_of_ip gai (if is_client then ''192.168.0.1'' else ''172.16.0.1'') 0 of
             Inl e \<Rightarrow> Inl e | Inr next_hop \<Rightarrow> Inr (ip, next_hop)))"

definition lab7_setup :: "('k, 'z) net_kernel_scheme \<Rightarrow> 'g generator \<Rightarrow> resolver \<Rightarrow> namer \<Rightarrow> bool \<Rightarrow> string \<Rightarrow> string \<Rightarrow> 'g \<times> 'k \<Rightarrow>
    ('g \<times> 'k) \<times> (exn + fd_wrapper \<times> address \<times> (router \<times> nat \<times> nat) \<times> (interface_adapter, 'k) sponge \<times> address)" where
  "lab7_setup K rd gai gni is_client bounce_host bounce_port x =
     (let (g, k) = x; (k, socket) = udp_socket_new K k
      in call (g, k) socket (\<lambda>f.
         case call (f, k) (address_of_host gai bounce_host bounce_port) (\<lambda>bounce_address.
              call_on (hello K bounce_address (f, k)) (\<lambda>x _. (x, Inr bounce_address))) of
           ((f, k), Inl e) \<Rightarrow> ((g, snd (fd_destroy K (f, k))), Inl e)
         | ((f, k), Inr bounce_address) \<Rightarrow>
             (case call_on (let (g, router) = lab7_router rd gai gni is_client g in ((g, k), router)) (\<lambda>x router.
                   call x (lab7_host gai is_client) (\<lambda>(ip, next_hop).
                   call_on (lab7_socket_new K rd gai ip next_hop x) (\<lambda>x sock. (x, Inr (router, sock))))) of
                ((g, k), Inl e) \<Rightarrow> ((g, snd (fd_destroy K (f, k))), Inl e)
              | ((g, k), Inr (router, sock)) \<Rightarrow> ((g, k), Inr (f, bounce_address, router, sock)))))"

text \<open>What the main thread does while the other one runs; an exception is printed.\<close>

definition lab7_session :: "('k, 'z) sys_scheme \<Rightarrow> resolver \<Rightarrow> namer \<Rightarrow> ('k \<Rightarrow> 'k) \<Rightarrow> bool \<Rightarrow> (interface_adapter, 'k) sponge \<times> address \<Rightarrow>
    ((interface_adapter, 'k) sponge \<times> (exn + unit)) option" where
  "lab7_session K gai gni join is_client x =
     (let (s, local) = x
      in case address_of_ip gai ''172.16.0.100'' 1234 of
           Inl e \<Rightarrow> Some (s, Inl e)
         | Inr server \<Rightarrow>
             (case (if is_client then lab7_connect K gai gni local server ([], s)
                    else (case lab7_bind gai gni local server of
                            Inl e \<Rightarrow> Some (([], s), Inl e)
                          | Inr local \<Rightarrow> lab7_listen K gai gni local ([], s))) of
                None \<Rightarrow> None
              | Some ((_, s), Inl e) \<Rightarrow> Some (s, Inl e)
              | Some ((_, s), Inr _) \<Rightarrow> copy_session K join s))"

text \<open>The whole of \<^verbatim>\<open>program_body\<close>.  The other thread belongs to the system while the main thread runs, and \<open>stop_network\<close> is what happens from setting
  \<^verbatim>\<open>exit_flag\<close> until it has been joined.  The result is the exception that was caught and printed, if there was one; then the sockets are
  destroyed, of the adapter's pair the second end first.\<close>

definition program_body :: "('k, 'z) sys_scheme \<Rightarrow> 'g generator \<Rightarrow> resolver \<Rightarrow> namer \<Rightarrow> ('k \<Rightarrow> 'k) \<Rightarrow> ('k \<Rightarrow> 'k) \<Rightarrow> ('k \<Rightarrow> 'k) \<Rightarrow>
    bool \<Rightarrow> string \<Rightarrow> string \<Rightarrow> 'g \<times> 'k \<Rightarrow> (('g \<times> 'k) \<times> (exn + exn option)) option" where
  "program_body K rd gai gni store_abort join stop_network is_client bounce_host bounce_port x =
     (case lab7_setup K rd gai gni is_client bounce_host bounce_port x of
        (x, Inl e) \<Rightarrow> Some (x, Inl e)
      | ((g, _), Inr (internet_socket, _, _, sock, local)) \<Rightarrow>
          (case lab7_session K gai gni join is_client (sock, local) of
             None \<Rightarrow> None
           | Some (s, r) \<Rightarrow>
               (let s = sponge_destroy store_abort join (s\<lparr>ss_sys := stop_network (ss_sys s)\<rparr>);
                    (_, k) = fd_destroy K (ia_second (ss_datagram_adapter sock), ss_sys s);
                    k = sponge_end K (ia_ops K gai gni) store_abort join (s\<lparr>ss_sys := k\<rparr>);
                    (_, k) = fd_destroy K (internet_socket, k)
                in Some ((g, k), Inr (case r of Inl e \<Rightarrow> Some e | Inr _ \<Rightarrow> None)))))"

text \<open>The arguments that \<^verbatim>\<open>main\<close> accepts: the role, the relay and whether to print the frames.\<close>

definition lab7_arguments :: "string list \<Rightarrow> (bool \<times> string \<times> string \<times> bool) option" where
  "lab7_arguments argv =
     (if length argv \<noteq> 4 \<and> length argv \<noteq> 5 then None
      else if argv ! 1 \<noteq> ''client'' \<and> argv ! 1 \<noteq> ''server'' then None
      else Some (argv ! 1 = ''client'', argv ! 2, argv ! 3, length argv = 5))"

end
