(* ===== verification/Network_Delivery.thy ===== *)
theory Network_Delivery
  imports Network_Simulator
begin

text \<open>
  What the simulated network does: a host accepts exactly the datagrams it expects, links lose nothing, and every datagram of the tests
  reaches its destination.
\<close>

subsection \<open>Expectations\<close>

definition wire :: "ipv4_datagram \<Rightarrow> bytes" where
  "wire d = (case ipv4_datagram_serialize d of Inl _ \<Rightarrow> [] | Inr bs \<Rightarrow> bs)"

lemma wire_eq: "dg_wf d \<Longrightarrow> ipv4_datagram_serialize d = Inr (wire d)"
  using dgram.deliver [of d] by (auto simp: wire_def)

lemma same_bytes_wf: "dg_wf x \<Longrightarrow> dg_wf y \<Longrightarrow> same_bytes x y = Inr (wire x = wire y)"
  by (simp add: same_bytes_def wire_eq)

lemma expecting_wf: "\<forall>e \<in> set es. dg_wf e \<Longrightarrow> dg_wf d \<Longrightarrow> expecting es d = Inr (wire d \<in> wire ` set es)"
  by (induction es) (auto simp: same_bytes_wf split: bool.splits)

lemma remove_expectation_wf:
  "\<forall>e \<in> set es. dg_wf e \<Longrightarrow> dg_wf d \<Longrightarrow> \<exists>es'. remove_expectation es d = Inr es' \<and> set es' \<subseteq> set es \<and>
     mset (map wire es') = mset (map wire es) - {#wire d#}"
proof (induction es)
  case (Cons x xs)
  show ?case
  proof (cases "wire x = wire d")
    case False
    then show ?thesis using Cons by (auto simp: same_bytes_wf)
  qed (use Cons in \<open>auto simp: same_bytes_wf\<close>)
qed simp

lemma check_received_wf:
  assumes "\<forall>e \<in> set es. dg_wf e" "\<forall>d \<in> set ds. dg_wf d"
  shows "if mset (map wire ds) \<subseteq># mset (map wire es)
    then \<exists>es'. check_received name es ds = ((es', []), Inr ()) \<and> mset (map wire es') = mset (map wire es) - mset (map wire ds)
    else \<exists>x e. check_received name es ds = (x, Inl e)"
  using assms
proof (induction ds arbitrary: es)
  case (Cons d ds)
  have found: "expecting es d = Inr (wire d \<in> wire ` set es)" using expecting_wf Cons.prems by simp
  obtain es' where es': "remove_expectation es d = Inr es'" "set es' \<subseteq> set es" "mset (map wire es') = mset (map wire es) - {#wire d#}"
    using remove_expectation_wf [of es d] Cons.prems by auto
  show ?case
  proof (cases "wire d \<in> wire ` set es")
    case True
    then have step: "check_received name es (d # ds) = check_received name es' ds" using found es'(1) by simp
    have "wire d \<in># mset (map wire es)" using True by simp
    then have a: "mset (map wire (d # ds)) \<subseteq># mset (map wire es) \<longleftrightarrow> mset (map wire ds) \<subseteq># mset (map wire es')"
      using es'(3) by (simp add: insert_subset_eq_iff)
    have b: "mset (map wire es) - mset (map wire (d # ds)) = mset (map wire es') - mset (map wire ds)" using es'(3) by simp
    have "\<forall>e \<in> set es'. dg_wf e" "\<forall>d \<in> set ds. dg_wf d" using es'(2) Cons.prems by auto
    then show ?thesis unfolding step a b by (rule Cons.IH)
  next
    case False
    then have "\<not> mset (map wire (d # ds)) \<subseteq># mset (map wire es)" by (auto dest!: mset_subset_eqD [of _ _ "wire d"])
    then show ?thesis using False found by simp
  qed
qed simp

lemma host_check_wf:
  assumes "\<forall>e \<in> set (hs_expecting_to_receive h). dg_wf e" "\<forall>d \<in> set (an_datagrams_out (hs_interface h)). dg_wf d"
  shows "if mset (map wire (an_datagrams_out (hs_interface h))) = mset (map wire (hs_expecting_to_receive h))
    then host_check h = (h\<lparr>hs_expecting_to_receive := [], hs_interface := (hs_interface h)\<lparr>an_datagrams_out := []\<rparr>\<rparr>, Inr ())
    else \<exists>h' e. host_check h = (h', Inl e)"
proof -
  let ?ds = "an_datagrams_out (hs_interface h)" and ?es = "hs_expecting_to_receive h"
  note c = check_received_wf [OF assms, of "hs_name h"]
  show ?thesis
  proof (cases "mset (map wire ?ds) \<subseteq># mset (map wire ?es)")
    case True
    then obtain es' where es': "check_received (hs_name h) ?es ?ds = ((es', []), Inr ())"
      "mset (map wire es') = mset (map wire ?es) - mset (map wire ?ds)" using c by auto
    have "es' = [] \<longleftrightarrow> mset (map wire ?ds) = mset (map wire ?es)"
      using True es'(2) by (metis Diff_eq_empty_iff_mset map_is_Nil_conv mset_zero_iff subset_mset.antisym subset_mset.order_refl)
    then show ?thesis using es'(1) by (auto simp: host_check_def)
  next
    case False
    then have "mset (map wire ?ds) \<noteq> mset (map wire ?es)" by auto
    moreover obtain x e where "check_received (hs_name h) ?es ?ds = (x, Inl e)" using c False by auto
    ultimately show ?thesis by (cases x) (simp add: host_check_def)
  qed
qed

text \<open>A host's \<^verbatim>\<open>check\<close> returns normally exactly when the datagrams received are those expected, each as often as expected, in
  whatever order they came; afterwards nothing is expected and nothing is left in the queue.\<close>

theorem host_check_accepts:
  assumes "\<forall>e \<in> set (hs_expecting_to_receive h). dg_wf e" "\<forall>d \<in> set (an_datagrams_out (hs_interface h)). dg_wf d"
  shows "(snd (host_check h) = Inr () \<longleftrightarrow>
      mset (map wire (an_datagrams_out (hs_interface h))) = mset (map wire (hs_expecting_to_receive h))) \<and>
    (snd (host_check h) = Inr () \<longrightarrow> hs_expecting_to_receive (fst (host_check h)) = [] \<and>
      an_datagrams_out (hs_interface (fst (host_check h))) = [])"
  using host_check_wf [OF assms] by (auto split: if_splits)

theorem host_check_accepts_witness:
  "snd (host_check \<lparr>hs_name = ''dm42'', hs_my_address = ipv4_endpoint 1 0,
     hs_interface = \<lparr>an_interface = network_interface_new ethernet_zero (ipv4_endpoint 1 0), an_datagrams_out = [small_datagram]\<rparr>,
     hs_next_hop = ipv4_endpoint 2 0, hs_expecting_to_receive = [small_datagram]\<rparr>) = Inr ()"
  (is "snd (host_check ?h) = _")
  using host_check_accepts [of ?h] small_datagram_wf by simp

subsection \<open>Links\<close>

definition quiet_port :: "async_interface \<Rightarrow> async_interface" where
  "quiet_port a = a\<lparr>an_interface := (an_interface a)\<lparr>ni_frames_out := []\<rparr>\<rparr>"

lemma clear_queues_self: "clear_queues q q = Inr []"
  by (induction q) auto

lemma clear_frames_simps: "clear_frames (frames_of a) a = (quiet_port a, Inr ())" "clear_frames [] a = (a, Inr ())"
  by (simp_all add: clear_frames_def clear_queues_self quiet_port_def) (simp add: frames_of_def)

lemma quiet_port_id: "frames_of a = [] \<Longrightarrow> quiet_port a = a"
  by (simp add: quiet_port_def frames_of_def)

text \<open>An exchange in which at most one side has something to send.\<close>

definition receive :: "ethernet_frame list \<Rightarrow> async_interface \<Rightarrow> async_interface" where
  "receive fs a = fst (deliver fs a)"

lemma receive_Nil [simp]: "receive [] a = a"
  by (simp add: receive_def)

lemma deliver_ok: "snd (deliver fs a) = Inr () \<Longrightarrow> deliver fs a = (receive fs a, Inr ())"
  by (simp add: receive_def prod_eq_iff)

lemma exchange_one:
  "frames_of y = [] \<Longrightarrow> snd (deliver (frames_of x) y) = Inr () \<Longrightarrow> exchange_frames (x, y) = ((quiet_port x, receive (frames_of x) y), Inr ())"
  "frames_of x = [] \<Longrightarrow> snd (deliver (frames_of y) x) = Inr () \<Longrightarrow> exchange_frames (x, y) = ((receive (frames_of y) x, quiet_port y), Inr ())"
  by (simp_all add: exchange_frames_def deliver_ok clear_frames_simps)

lemma exchange3_one:
  "frames_of y = [] \<Longrightarrow> frames_of z = [] \<Longrightarrow> snd (deliver (frames_of x) y) = Inr () \<Longrightarrow> snd (deliver (frames_of x) z) = Inr () \<Longrightarrow>
   exchange_frames3 (x, y, z) = ((quiet_port x, receive (frames_of x) y, receive (frames_of x) z), Inr ())"
  "frames_of x = [] \<Longrightarrow> frames_of z = [] \<Longrightarrow> snd (deliver (frames_of y) x) = Inr () \<Longrightarrow> snd (deliver (frames_of y) z) = Inr () \<Longrightarrow>
   exchange_frames3 (x, y, z) = ((receive (frames_of y) x, quiet_port y, receive (frames_of y) z), Inr ())"
  "frames_of x = [] \<Longrightarrow> frames_of y = [] \<Longrightarrow> snd (deliver (frames_of z) x) = Inr () \<Longrightarrow> snd (deliver (frames_of z) y) = Inr () \<Longrightarrow>
   exchange_frames3 (x, y, z) = ((receive (frames_of z) x, receive (frames_of z) y, quiet_port z), Inr ())"
  by (simp_all add: exchange_frames3_def deliver_ok clear_frames_simps Let_def)

subsection \<open>The network as thirteen ports\<close>

text \<open>
  Ports 0 to 6 are the router's, ports 7 to 12 the hosts'.  Each has an address and is on one local network.
\<close>

definition lan :: "nat \<Rightarrow> nat" where
  "lan p = [0, 1, 2, 3, 4, 5, 6, 1, 0, 3, 5, 4, 4] ! p"

definition quad :: "byte \<Rightarrow> byte \<Rightarrow> byte \<Rightarrow> byte \<Rightarrow> u32" where
  "quad a b c d = be_value [a, b, c, d]"

definition port_ip :: "nat \<Rightarrow> u32" where
  "port_ip p = [quad 171 67 76 46, quad 10 0 0 1, quad 172 16 0 1, quad 192 168 0 1, quad 198 178 229 1, quad 143 195 0 2, quad 128 30 76 255,
     quad 10 0 0 2, quad 171 67 76 1, quad 192 168 0 2, quad 143 195 0 1, quad 198 178 229 42, quad 198 178 229 43] ! p"

definition port_host :: "(nat \<Rightarrow> async_interface) \<Rightarrow> (nat \<Rightarrow> ipv4_datagram list) \<Rightarrow> string \<Rightarrow> nat \<Rightarrow> u32 \<Rightarrow> string \<times> host" where
  "port_host P E name p hop = (name, \<lparr>hs_name = name, hs_my_address = ipv4_endpoint (port_ip p) 0, hs_interface = P p,
     hs_next_hop = ipv4_endpoint hop 0, hs_expecting_to_receive = E p\<rparr>)"

definition net_of :: "rout_node list \<Rightarrow> (nat \<Rightarrow> async_interface) \<Rightarrow> (nat \<Rightarrow> ipv4_datagram list) \<Rightarrow> network" where
  "net_of T P E =
     \<lparr>nt_router = \<lparr>rt_interfaces = [P 0, P 1, P 2, P 3, P 4, P 5, P 6], rt_rout_map = T\<rparr>, nt_default_id = 0, nt_eth0_id = 1, nt_eth1_id = 2,
      nt_eth2_id = 3, nt_uun3_id = 4, nt_hs4_id = 5, nt_mit5_id = 6,
      nt_hosts = [port_host P E ''applesauce'' 7 (port_ip 1), port_host P E ''default_router'' 8 0, port_host P E ''cherrypie'' 9 (port_ip 3),
        port_host P E ''hs_router'' 10 0, port_host P E ''dm42'' 11 (port_ip 4), port_host P E ''dm43'' 12 (port_ip 4)]\<rparr>"

lemma physical_exchange:
  assumes "exchange_frames (P 0, P 8) = ((P' 0, P' 8), Inr ())" "exchange_frames (P 1, P 7) = ((P' 1, P' 7), Inr ())"
    "exchange_frames (P 3, P 9) = ((P' 3, P' 9), Inr ())" "exchange_frames (P 5, P 10) = ((P' 5, P' 10), Inr ())"
    "exchange_frames3 (P 4, P 11, P 12) = ((P' 4, P' 11, P' 12), Inr ())" "P' 2 = P 2" "P' 6 = P 6"
  shows "simulate_physical_connections (net_of T P E) = (net_of T P' E, Inr ())"
  using assms
  by (simp add: simulate_physical_connections_def net_of_def join_host_def join_hosts_def port_host_def rt_interface_def find_host_def
      set_host_def set_port_def call_on_def eval_nat_numeral)

text \<open>One port sends to its local network.\<close>

definition after :: "nat \<Rightarrow> (nat \<Rightarrow> async_interface) \<Rightarrow> nat \<Rightarrow> async_interface" where
  "after s P p = (if p = s then quiet_port (P s) else if lan p = lan s then receive (frames_of (P s)) (P p) else P p)"

lemma port_cases:
  assumes "p < 13"
  obtains "p = 0" | "p = 1" | "p = 2" | "p = 3" | "p = 4" | "p = 5" | "p = 6" | "p = 7" | "p = 8" | "p = 9" | "p = 10" | "p = 11" | "p = (12 :: nat)"
proof -
  have "p \<in> set (upt 0 13)" using assms by simp
  also have "upt 0 13 = [0, 1, 2, 3, 4, 5, 6, 7, 8, 9, 10, 11, 12]" by (simp add: upt_rec)
  finally show ?thesis using that by auto
qed

lemma lan_members:
  assumes "p < 13"
  shows "lan p = 0 \<longleftrightarrow> p = 0 \<or> p = 8" "lan p = 1 \<longleftrightarrow> p = 1 \<or> p = 7" "lan p = 2 \<longleftrightarrow> p = 2" "lan p = 3 \<longleftrightarrow> p = 3 \<or> p = 9"
    "lan p = 4 \<longleftrightarrow> p = 4 \<or> p = 11 \<or> p = 12" "lan p = 5 \<longleftrightarrow> p = 5 \<or> p = 10" "lan p = 6 \<longleftrightarrow> p = 6"
  by (rule port_cases [OF assms]; simp add: lan_def)+

lemma lan_values [simp]: "lan 0 = 0" "lan 1 = 1" "lan (Suc 0) = 1" "lan 2 = 2" "lan 3 = 3" "lan 4 = 4" "lan 5 = 5" "lan 6 = 6" "lan 7 = 1" "lan 8 = 0" "lan 9 = 3"
  "lan 10 = 5" "lan 11 = 4" "lan 12 = 4"
  by (simp_all add: lan_def)

lemma physical_after:
  assumes "s < 13" "s \<noteq> 2" "s \<noteq> 6" and "\<And>p. p < 13 \<Longrightarrow> p \<noteq> s \<Longrightarrow> frames_of (P p) = []"
    and "\<And>p. p < 13 \<Longrightarrow> p \<noteq> s \<Longrightarrow> lan p = lan s \<Longrightarrow> snd (deliver (frames_of (P s)) (P p)) = Inr ()"
  shows "simulate_physical_connections (net_of T P E) = (net_of T (after s P) E, Inr ())"
proof -
  have two: "exchange_frames (P i, P h) = ((after s P i, after s P h), Inr ())"
    if "i < 13" "h < 13" "i \<noteq> h" "lan i = lan h" "lan s = lan i \<longleftrightarrow> s = i \<or> s = h" for i h
  proof -
    consider "s = i" | "s = h" | "s \<noteq> i" "s \<noteq> h" by blast
    then show ?thesis
    proof cases
      case 1
      have "frames_of (P h) = []" "snd (deliver (frames_of (P i)) (P h)) = Inr ()" using assms(4,5) [of h] that 1 by simp_all
      then show ?thesis using exchange_one(1) [of "P h" "P i"] that 1 by (simp add: after_def)
    next
      case 2
      have "frames_of (P i) = []" "snd (deliver (frames_of (P h)) (P i)) = Inr ()" using assms(4,5) [of i] that 2 by simp_all
      then show ?thesis using exchange_one(2) [of "P i" "P h"] that 2 by (simp add: after_def)
    next
      case 3
      have "frames_of (P i) = []" "frames_of (P h) = []" using assms(4) [of i] assms(4) [of h] that 3 by simp_all
      then show ?thesis using exchange_one(1) [of "P h" "P i"] that 3 by (simp add: after_def quiet_port_id)
    qed
  qed
  have three: "exchange_frames3 (P 4, P 11, P 12) = ((after s P 4, after s P 11, after s P 12), Inr ())"
  proof -
    consider "s = 4" | "s = 11" | "s = 12" | "s \<noteq> 4" "s \<noteq> 11" "s \<noteq> 12" by blast
    then show ?thesis
    proof cases
      case 1
      then show ?thesis using exchange3_one(1) [of "P 11" "P 12" "P 4"] assms(4,5) [of 11] assms(4,5) [of 12] by (simp add: after_def)
    next
      case 2
      then show ?thesis using exchange3_one(2) [of "P 4" "P 12" "P 11"] assms(4,5) [of 4] assms(4,5) [of 12] by (simp add: after_def)
    next
      case 3
      then show ?thesis using exchange3_one(3) [of "P 4" "P 11" "P 12"] assms(4,5) [of 4] assms(4,5) [of 11] by (simp add: after_def)
    next
      case 4
      then show ?thesis using exchange3_one(1) [of "P 11" "P 12" "P 4"] assms(4) [of 4] assms(4) [of 11] assms(4) [of 12]
          lan_members(5) [OF assms(1)] by (simp add: after_def quiet_port_id)
    qed
  qed
  have "after s P 2 = P 2" "after s P 6 = P 6" using assms(2,3) lan_members(3,7) [OF assms(1)] by (auto simp: after_def)
  moreover have "exchange_frames (P 0, P 8) = ((after s P 0, after s P 8), Inr ())" by (rule two) (simp_all add: lan_members [OF assms(1)])
  moreover have "exchange_frames (P 1, P 7) = ((after s P 1, after s P 7), Inr ())" by (rule two) (simp_all only: lan_values lan_members [OF assms(1)])
  moreover have "exchange_frames (P 3, P 9) = ((after s P 3, after s P 9), Inr ())" by (rule two) (simp_all add: lan_members [OF assms(1)])
  moreover have "exchange_frames (P 5, P 10) = ((after s P 5, after s P 10), Inr ())" by (rule two) (simp_all add: lan_members [OF assms(1)])
  ultimately show ?thesis by (intro physical_exchange three)
qed

subsection \<open>What a port does with the frames of its network\<close>

text \<open>
  The state of a port between two rounds: the frames it sends, the datagrams that wait for an address, and a table in which only the
  addresses of its own network occur.
\<close>

definition port :: "(nat \<Rightarrow> ethernet_address) \<Rightarrow> nat \<Rightarrow> ethernet_frame list \<Rightarrow> (u32 \<times> ethernet_frame list) list \<Rightarrow> network_interface \<Rightarrow> bool" where
  "port M p fr un ni \<longleftrightarrow> ni_ethernet_address ni = M p \<and> ni_ip_address ni = ipv4_endpoint (port_ip p) 0 \<and> ni_frames_out ni = fr \<and>
     ni_unsend_frame ni = un \<and> map fst (ni_latest_arp_time ni) = map fst un \<and>
     (\<forall>k m. map_of (ni_ip_address_map ni) k = Some m \<longrightarrow> (\<exists>q < 13. lan q = lan p \<and> k = port_ip q \<and> m = M q))"

definition macs_ok :: "(nat \<Rightarrow> ethernet_address) \<Rightarrow> bool" where
  "macs_ok M \<longleftrightarrow> distinct [M 4, M 11, M 12] \<and> (\<forall>p < 13. M p \<noteq> ETHERNET_BROADCAST)"

lemma port_ip_inject: "p < 13 \<Longrightarrow> q < 13 \<Longrightarrow> port_ip p = port_ip q \<longleftrightarrow> p = q"
proof -
  have d: "distinct [quad 171 67 76 46, quad 10 0 0 1, quad 172 16 0 1, quad 192 168 0 1, quad 198 178 229 1, quad 143 195 0 2, quad 128 30 76 255,
     quad 10 0 0 2, quad 171 67 76 1, quad 192 168 0 2, quad 143 195 0 1, quad 198 178 229 42, quad 198 178 229 43]"
    by (simp add: quad_def be_value_def)
  show "p < 13 \<Longrightarrow> q < 13 \<Longrightarrow> port_ip p = port_ip q \<longleftrightarrow> p = q" unfolding port_ip_def by (rule nth_eq_iff_index_eq [OF d]) simp_all
qed

lemma third_port:
  assumes "macs_ok M" "p < 13" "s < 13" "lan p = lan s" "lan t = lan s" "t < 13" "p \<noteq> s" "p \<noteq> t" "s \<noteq> t"
  shows "M p \<noteq> M t"
proof -
  have "lan s = 4" using assms(2-) lan_members [OF assms(2)] lan_members [OF assms(3)] lan_members [OF assms(6)]
    by (rule_tac port_cases [OF assms(3)]) simp_all
  then show ?thesis using assms lan_members(5) [OF assms(2)] lan_members(5) [OF assms(6)] by (auto simp: macs_ok_def)
qed

lemma port_send_known:
  assumes "port M s [] [] ni" "ipv4_datagram_serialize d = Inr pl" "ipv4_numeric hop = Inr (port_ip t)" "t < 13"
    "map_of (ni_ip_address_map ni) (port_ip t) = Some m"
  shows "\<exists>ni'. send_datagram ni d hop = (ni', Inr ()) \<and> port M s [ip_frame (M t) (M s) pl] [] ni'"
proof -
  obtain q where "q < 13" "port_ip t = port_ip q" "m = M q" using assms(1,5) by (auto simp: port_def)
  then have "m = M t" using port_ip_inject [OF assms(4)] by simp
  then show ?thesis using send_known [OF assms(2,3,5)] assms(1) by (auto simp: port_def)
qed

lemma port_send_unknown:
  assumes "port M s [] [] ni" "ipv4_datagram_serialize d = Inr pl" "ipv4_numeric hop = Inr nh" "map_of (ni_ip_address_map ni) nh = None"
  shows "\<exists>ni'. send_datagram ni d hop = (ni', Inr ()) \<and>
    port M s [arp_frame ETHERNET_BROADCAST (M s) (arp_request (port_ip s) (M s) nh)] [(nh, [ip_frame ethernet_zero (M s) pl])] ni'"
  using assms send_datagram_eq [OF assms(2,3), of ni "port_ip s"]
  by (auto simp: port_def arp_recently_sent_def queue_datagram_def unsend_of_def)

lemma port_learn:
  assumes "port M p fr un ni" "s < 13" "lan s = lan p"
  shows "port M p fr un (learn (port_ip s) (M s) ni)"
  using assms by (auto simp: port_def update_conv)

lemma port_recv_request:
  assumes "port M p [] [] ni" "s < 13" "lan s = lan p"
  shows "\<exists>ni'. recv_frame ni (arp_frame ETHERNET_BROADCAST (M s) (arp_request (port_ip s) (M s) nh)) = (ni', Inr None) \<and>
    port M p (if nh = port_ip p then [arp_frame (M s) (M p) (arp_reply (port_ip p) (M p) (port_ip s) (M s))] else []) [] ni'"
proof -
  let ?m = "arp_request (port_ip s) (M s) nh"
  have me: "ipv4_numeric (ni_ip_address ni) = Inr (port_ip p)" using assms(1) by (simp add: port_def)
  have "recv_frame ni (arp_frame ETHERNET_BROADCAST (M s) ?m) = (fst (recv_arp ni ?m), Inr None)"
    by (rule recv_arp_frame [OF _ _ me]) (simp_all add: for_me_def)
  moreover have "port M p [] [] (learn (port_ip s) (M s) ni)" by (rule port_learn [OF assms])
  ultimately show ?thesis using assms(1) by (auto simp: recv_arp_eq [OF me] Let_def port_def flush_pending_def)
qed

lemma port_recv_reply:
  assumes "port M s [] [(port_ip t, [ip_frame ethernet_zero (M s) pl])] ni" "t < 13" "lan t = lan s"
  shows "\<exists>ni'. recv_frame ni (arp_frame (M s) (M t) (arp_reply (port_ip t) (M t) (port_ip s) (M s))) = (ni', Inr None) \<and>
    port M s [ip_frame (M t) (M s) pl] [] ni'"
proof -
  let ?m = "arp_reply (port_ip t) (M t) (port_ip s) (M s)"
  have me: "ipv4_numeric (ni_ip_address ni) = Inr (port_ip s)" "ni_ethernet_address ni = M s" using assms(1) by (simp_all add: port_def)
  have "recv_frame ni (arp_frame (M s) (M t) ?m) = (fst (recv_arp ni ?m), Inr None)"
    by (rule recv_arp_frame [OF _ _ me(1)]) (simp_all add: for_me_def me(2))
  moreover have "port M s [] [(port_ip t, [ip_frame ethernet_zero (M s) pl])] (learn (port_ip t) (M t) ni)" by (rule port_learn [OF assms])
  ultimately show ?thesis by (auto simp: recv_arp_eq [OF me(1)] Let_def port_def flush_pending_def)
qed

lemma port_not_for_me:
  assumes "port M p fr un ni" "M p \<noteq> M t" "M t \<noteq> ETHERNET_BROADCAST" "eh_dst (ef_header f) = M t"
  shows "recv_frame ni f = (ni, Inr None)"
  using assms by (intro recv_frame_other) (simp add: for_me_def port_def)

subsection \<open>A round of all ports\<close>

definition ports :: "(nat \<Rightarrow> ethernet_address) \<Rightarrow> (nat \<Rightarrow> ethernet_frame list) \<Rightarrow> (nat \<Rightarrow> (u32 \<times> ethernet_frame list) list) \<Rightarrow>
    (nat \<Rightarrow> ipv4_datagram list) \<Rightarrow> (nat \<Rightarrow> async_interface) \<Rightarrow> bool" where
  "ports M F U D P \<longleftrightarrow> (\<forall>p < 13. port M p (F p) (U p) (an_interface (P p)) \<and> an_datagrams_out (P p) = D p)"

abbreviation none :: "nat \<Rightarrow> 'a list" where
  "none \<equiv> \<lambda>_. []"

lemma ports_step:
  assumes "ports M (none(s := [f])) U D P" "s < 13" "s \<noteq> 2" "s \<noteq> 6"
    and "\<And>p. p < 13 \<Longrightarrow> p \<noteq> s \<Longrightarrow> lan p = lan s \<Longrightarrow> \<exists>ni' r. recv_frame (an_interface (P p)) f = (ni', Inr r) \<and>
      port M p (F' p) (U' p) ni' \<and> D' p = D p @ (case r of None \<Rightarrow> [] | Some d \<Rightarrow> [d])"
    and "\<And>p. p < 13 \<Longrightarrow> p = s \<or> lan p \<noteq> lan s \<Longrightarrow> F' p = [] \<and> U' p = U p \<and> D' p = D p"
  shows "\<exists>Q. simulate_physical_connections (net_of T P E) = (net_of T Q E, Inr ()) \<and> ports M F' U' D' Q"
proof (intro exI conjI)
  have frames: "frames_of (P p) = (if p = s then [f] else [])" if "p < 13" for p
    using assms(1) that by (auto simp: ports_def port_def frames_of_def)
  have got: "deliver [f] (P p) = (receive [f] (P p), Inr ()) \<and> port M p (F' p) (U' p) (an_interface (receive [f] (P p))) \<and>
      an_datagrams_out (receive [f] (P p)) = D' p" if p: "p < 13" "p \<noteq> s" "lan p = lan s" for p
  proof -
    obtain ni' r where r: "recv_frame (an_interface (P p)) f = (ni', Inr r)" "port M p (F' p) (U' p) ni'"
      "D' p = D p @ (case r of None \<Rightarrow> [] | Some d \<Rightarrow> [d])" using assms(5) [OF p] by blast
    have "an_datagrams_out (P p) = D p" using assms(1) p(1) by (simp add: ports_def)
    then show ?thesis using r by (cases r) (simp_all add: receive_def an_recv_frame_def call_on_def)
  qed
  show "simulate_physical_connections (net_of T P E) = (net_of T (after s P) E, Inr ())"
    by (rule physical_after) (use assms(2-4) frames got in auto)
  show "ports M F' U' D' (after s P)" unfolding ports_def
  proof (intro allI impI)
    fix p :: nat assume p: "p < 13"
    have P: "port M p ((none(s := [f])) p) (U p) (an_interface (P p))" "an_datagrams_out (P p) = D p" using assms(1) p by (simp_all add: ports_def)
    show "port M p (F' p) (U' p) (an_interface (after s P p)) \<and> an_datagrams_out (after s P p) = D' p"
    proof (cases "p = s \<or> lan p \<noteq> lan s")
      case True
      then show ?thesis using P assms(6) [OF p True] by (auto simp: after_def quiet_port_def port_def)
    next
      case False
      then show ?thesis using got [OF p] frames [OF assms(2)] by (auto simp: after_def)
    qed
  qed
qed

subsection \<open>One hop\<close>

definition joined :: "(nat \<Rightarrow> ethernet_address) \<Rightarrow> nat \<Rightarrow> nat \<Rightarrow> bool" where
  "joined M s t \<longleftrightarrow> macs_ok M \<and> s < 13 \<and> t < 13 \<and> s \<noteq> t \<and> lan t = lan s"

lemma joinedD:
  assumes "joined M s t"
  shows "macs_ok M" "s < 13" "t < 13" "s \<noteq> t" "lan t = lan s" "s \<noteq> 2" "s \<noteq> 6" "t \<noteq> 2" "t \<noteq> 6"
  using assms lan_members(3,7) [of s] lan_members(3,7) [of t] by (auto simp: joined_def)

lemma recv_other:
  assumes j: "joined M s t" and "port M p fr un ni" "p < 13" "lan p = lan s" "p \<noteq> s" "p \<noteq> t" "eh_dst (ef_header f) = M s \<or> eh_dst (ef_header f) = M t"
  shows "recv_frame ni f = (ni, Inr None)"
proof -
  have "M p \<noteq> M t" "M p \<noteq> M s" using third_port [OF joinedD(1) [OF j] assms(3)] assms joinedD [OF j] by metis+
  then show ?thesis using port_not_for_me [OF assms(2)] assms(7) joinedD [OF j] by (auto simp: macs_ok_def)
qed

text \<open>The request reaches all ports of the network, and the one it asks for replies.\<close>

lemma request_round:
  assumes j: "joined M s t" and "ports M (none(s := [arp_frame ETHERNET_BROADCAST (M s) (arp_request (port_ip s) (M s) (port_ip t))])) (none(s := un)) none P"
  shows "\<exists>Q. simulate_physical_connections (net_of T P E) = (net_of T Q E, Inr ()) \<and>
    ports M (none(t := [arp_frame (M s) (M t) (arp_reply (port_ip t) (M t) (port_ip s) (M s))])) (none(s := un)) none Q"
proof (rule ports_step [OF assms(2) joinedD(2) [OF j] joinedD(6,7) [OF j]])
  fix p :: nat assume p: "p < 13" "p \<noteq> s" "lan p = lan s"
  then have "port M p [] [] (an_interface (P p))" using assms by (auto simp: ports_def)
  from port_recv_request [OF this joinedD(2) [OF j] p(3) [symmetric], of "port_ip t"] port_ip_inject [OF joinedD(3) [OF j] p(1)]
  show "\<exists>ni' r. recv_frame (an_interface (P p)) (arp_frame ETHERNET_BROADCAST (M s) (arp_request (port_ip s) (M s) (port_ip t))) = (ni', Inr r) \<and>
      port M p ((none(t := [arp_frame (M s) (M t) (arp_reply (port_ip t) (M t) (port_ip s) (M s))])) p) ((none(s := un)) p) ni' \<and>
      none p = none p @ (case r of None \<Rightarrow> [] | Some d \<Rightarrow> [d])"
    using p(2) by (cases "p = t") auto
qed (use joinedD [OF j] in auto)

text \<open>The reply releases the datagram.\<close>

lemma reply_round:
  assumes j: "joined M s t" and "ports M (none(t := [arp_frame (M s) (M t) (arp_reply (port_ip t) (M t) (port_ip s) (M s))]))
    (none(s := [(port_ip t, [ip_frame ethernet_zero (M s) pl])])) none P"
  shows "\<exists>Q. simulate_physical_connections (net_of T P E) = (net_of T Q E, Inr ()) \<and> ports M (none(s := [ip_frame (M t) (M s) pl])) none none Q"
proof (rule ports_step [OF assms(2) joinedD(3) [OF j] joinedD(8,9) [OF j]])
  let ?f = "arp_frame (M s) (M t) (arp_reply (port_ip t) (M t) (port_ip s) (M s))"
  fix p :: nat assume p: "p < 13" "p \<noteq> t" "lan p = lan t"
  show "\<exists>ni' r. recv_frame (an_interface (P p)) ?f = (ni', Inr r) \<and>
      port M p ((none(s := [ip_frame (M t) (M s) pl])) p) (none p) ni' \<and> none p = none p @ (case r of None \<Rightarrow> [] | Some d \<Rightarrow> [d])"
  proof (cases "p = s")
    case True
    then have "port M s [] [(port_ip t, [ip_frame ethernet_zero (M s) pl])] (an_interface (P s))" using assms joinedD [OF j] by (auto simp: ports_def)
    from port_recv_reply [OF this joinedD(3,5) [OF j]] True show ?thesis by auto
  next
    case False
    then have "port M p [] [] (an_interface (P p))" using assms p by (auto simp: ports_def)
    with recv_other [OF j this p(1) _ False p(2), of ?f] p(3) joinedD(5) [OF j] False show ?thesis by auto
  qed
qed (use joinedD [OF j] in auto)

text \<open>The datagram arrives.\<close>

lemma datagram_round:
  assumes j: "joined M s t" and "ports M (none(s := [ip_frame (M t) (M s) pl])) none none P" "dg_wf d" "ipv4_datagram_serialize d = Inr pl"
  shows "\<exists>Q d'. simulate_physical_connections (net_of T P E) = (net_of T Q E, Inr ()) \<and> ports M none none (none(t := [d'])) Q \<and> same_datagram d d'"
proof -
  let ?f = "ip_frame (M t) (M s) pl"
  have ps: "port M p [] [] (an_interface (P p))" if "p < 13" "p \<noteq> s" for p using assms(2) that by (auto simp: ports_def)
  have "ni_ethernet_address (an_interface (P t)) = M t" using ps [OF joinedD(3) [OF j]] joinedD(4) [OF j] by (simp add: port_def)
  then obtain d' where d': "recv_frame (an_interface (P t)) ?f = (an_interface (P t), Inr (Some d'))" "same_datagram d d'"
    using recv_ip_frame [of "M t" "an_interface (P t)" d pl] assms(3,4) by auto
  have "\<exists>Q. simulate_physical_connections (net_of T P E) = (net_of T Q E, Inr ()) \<and> ports M none none (none(t := [d'])) Q"
  proof (rule ports_step [OF assms(2) joinedD(2) [OF j] joinedD(6,7) [OF j]])
    fix p :: nat assume p: "p < 13" "p \<noteq> s" "lan p = lan s"
    show "\<exists>ni' r. recv_frame (an_interface (P p)) ?f = (ni', Inr r) \<and> port M p (none p) (none p) ni' \<and>
        (none(t := [d'])) p = none p @ (case r of None \<Rightarrow> [] | Some d \<Rightarrow> [d])"
    proof (cases "p = t")
      case False
      with recv_other [OF j ps [OF p(1,2)] p(1,3,2) False, of ?f] ps [OF p(1,2)] show ?thesis by auto
    qed (use d' ps p in auto)
  qed (use joinedD [OF j] in auto)
  with d'(2) show ?thesis by blast
qed

subsection \<open>From one router port to the next\<close>

text \<open>Rounds of the simulation in which the router has nothing to do.\<close>

inductive flow :: "rout_node list \<Rightarrow> (nat \<Rightarrow> ipv4_datagram list) \<Rightarrow> nat \<Rightarrow> (nat \<Rightarrow> async_interface) \<Rightarrow> (nat \<Rightarrow> async_interface) \<Rightarrow> bool"
  for T E where
  one: "simulate_physical_connections (net_of T P E) = (net_of T Q E, Inr ()) \<Longrightarrow> flow T E (Suc 0) P Q"
| more: "simulate_physical_connections (net_of T P E) = (net_of T P' E, Inr ()) \<Longrightarrow> (\<And>p. p < 7 \<Longrightarrow> an_datagrams_out (P' p) = []) \<Longrightarrow>
    flow T E n P' Q \<Longrightarrow> flow T E (Suc n) P Q"

lemma hop_flow:
  assumes j: "joined M s t" and P: "ports M none none none P" and d: "dg_wf d" and hop: "ipv4_numeric hop = Inr (port_ip t)"
  obtains ni n Q d' where "send_datagram (an_interface (P s)) d hop = (ni, Inr ())" "n \<le> 3"
    "flow T E n (P(s := (P s)\<lparr>an_interface := ni\<rparr>)) Q" "ports M none none (none(t := [d'])) Q" "same_datagram d d'"
proof -
  note ser = wire_eq [OF d]
  have s: "port M s [] [] (an_interface (P s))" using P joinedD(2) [OF j] by (simp add: ports_def)
  have sent: "ports M (none(s := fr)) (none(s := un)) none (P(s := (P s)\<lparr>an_interface := ni\<rparr>))" if "port M s fr un ni" for fr un ni
    using P that by (simp add: ports_def)
  have idle: "an_datagrams_out (Q p) = []" if "ports M F U none Q" "p < 7" for F U Q p using that by (simp add: ports_def)
  show ?thesis
  proof (cases "map_of (ni_ip_address_map (an_interface (P s))) (port_ip t)")
    case (Some m)
    obtain ni where ni: "send_datagram (an_interface (P s)) d hop = (ni, Inr ())" "port M s [ip_frame (M t) (M s) (wire d)] [] ni"
      using port_send_known [OF s ser hop joinedD(3) [OF j] Some] by blast
    have "ports M (none(s := [ip_frame (M t) (M s) (wire d)])) none none (P(s := (P s)\<lparr>an_interface := ni\<rparr>))"
      using sent [OF ni(2)] by (simp add: ports_def)
    from datagram_round [OF j this d ser] that [OF ni(1) _ flow.one] show ?thesis by (metis one_le_numeral One_nat_def)
  next
    case None
    obtain ni where ni: "send_datagram (an_interface (P s)) d hop = (ni, Inr ())"
      "port M s [arp_frame ETHERNET_BROADCAST (M s) (arp_request (port_ip s) (M s) (port_ip t))]
         [(port_ip t, [ip_frame ethernet_zero (M s) (wire d)])] ni"
      using port_send_unknown [OF s ser hop None] by blast
    obtain P2 where P2: "simulate_physical_connections (net_of T (P(s := (P s)\<lparr>an_interface := ni\<rparr>)) E) = (net_of T P2 E, Inr ())"
      "ports M (none(t := [arp_frame (M s) (M t) (arp_reply (port_ip t) (M t) (port_ip s) (M s))]))
         (none(s := [(port_ip t, [ip_frame ethernet_zero (M s) (wire d)])])) none P2"
      using request_round [OF j sent [OF ni(2)]] by blast
    obtain P3 where P3: "simulate_physical_connections (net_of T P2 E) = (net_of T P3 E, Inr ())"
      "ports M (none(s := [ip_frame (M t) (M s) (wire d)])) none none P3" using reply_round [OF j P2(2)] by blast
    obtain Q d' where Q: "simulate_physical_connections (net_of T P3 E) = (net_of T Q E, Inr ())" "ports M none none (none(t := [d'])) Q"
      "same_datagram d d'" using datagram_round [OF j P3(2) d ser] by blast
    have "flow T E (Suc (Suc (Suc 0))) (P(s := (P s)\<lparr>an_interface := ni\<rparr>)) Q"
      using flow.more [OF P2(1) idle [OF P2(2)] flow.more [OF P3(1) idle [OF P3(2)] flow.one [OF Q(1)]]] by simp
    then show ?thesis using that [OF ni(1) _ _ Q(2,3), of "Suc (Suc (Suc 0))"] by simp
  qed
qed

text \<open>The router's part of a round.\<close>

lemma route_queue_empty: "queue_of r i = [] \<Longrightarrow> route_queue gai i r = (r, Inr ())"
  by (subst route_queue.simps) simp

lemma route_from_empty: "\<forall>i \<in> set is'. queue_of r i = [] \<Longrightarrow> route_from gai is' r = (r, Inr ())"
  by (induction is') (simp_all add: route_queue_empty)

lemma route_from_append:
  "route_from gai (xs @ ys) r = (case route_from gai xs r of (r, Inl e) \<Rightarrow> (r, Inl e) | (r, Inr _) \<Rightarrow> route_from gai ys r)"
  by (induction xs arbitrary: r) (auto split: prod.splits sum.splits)

lemma route_single:
  assumes "i < length (rt_interfaces r)" "queue_of r i = [d]" "\<And>k. k < length (rt_interfaces r) \<Longrightarrow> k \<noteq> i \<Longrightarrow> queue_of r k = []"
    and "route_one_datagram gai r d = (r', d', Inr ())"
  shows "route gai r = (set_queue i [] r', Inr ())"
proof -
  let ?n = "length (rt_interfaces r)"
  have len: "length (rt_interfaces r') = ?n" by (rule route_one_length [OF assms(4)])
  have q: "queue_of r' k = queue_of r k" if "k < ?n" for k
    using route_one_frame [OF assms(4)] that len by (metis nth_map queue_of_def)
  have "route_queue gai i r = route_queue gai i (set_queue i [] r')"
    using assms(1,2,4) q by (subst route_queue.simps) simp
  also have "\<dots> = (set_queue i [] r', Inr ())" using assms(1) len by (intro route_queue_empty) (simp add: queue_of_set_queue)
  finally have one: "route_queue gai i r = (set_queue i [] r', Inr ())" .
  have "[0 ..< ?n] = [0 ..< i] @ i # [Suc i ..< ?n]" using assms(1) by (metis less_imp_le_nat upt_add_eq_append upt_conv_Cons le0 le_add_diff_inverse)
  moreover have "route_from gai [0 ..< i] r = (r, Inr ())" using assms(1,3) by (intro route_from_empty) auto
  moreover have "route_from gai [Suc i ..< ?n] (set_queue i [] r') = (set_queue i [] r', Inr ())"
    using assms(1,3) q len by (intro route_from_empty) (auto simp: queue_of_set_queue)
  ultimately show ?thesis by (simp add: route_def route_from_append one)
qed

lemma route_idle:
  assumes "\<And>p. p < 7 \<Longrightarrow> an_datagrams_out (P p) = []"
  shows "route gai (nt_router (net_of T P E)) = (nt_router (net_of T P E), Inr ())"
proof -
  have "queue_of (nt_router (net_of T P E)) i = []" if "i < 7" for i
    using assms that by (auto simp: queue_of_def net_of_def nth_Cons' split: if_splits)
  moreover have "length (rt_interfaces (nt_router (net_of T P E))) = 7" by (simp add: net_of_def)
  ultimately show ?thesis by (simp add: route_def route_from_empty)
qed

lemma router_nth: "k < 7 \<Longrightarrow> rt_interfaces (nt_router (net_of T P E)) ! k = P k"
  by (simp add: net_of_def nth_Cons' less_Suc_eq numeral_eq_Suc) auto

lemma router_length: "length (rt_interfaces (nt_router (net_of T P E))) = 7"
  by (simp add: net_of_def)

lemma router_update:
  "k < 7 \<Longrightarrow> (nt_router (net_of T P E))\<lparr>rt_interfaces := (rt_interfaces (nt_router (net_of T P E)))[k := a]\<rparr> = nt_router (net_of T (P(k := a)) E)"
  by (auto simp: net_of_def list_update.simps less_Suc_eq numeral_eq_Suc)

lemma router_queue: "ports M F U D P \<Longrightarrow> k < 7 \<Longrightarrow> queue_of (nt_router (net_of T P E)) k = D k"
  by (simp add: queue_of_def router_nth router_length ports_def)

lemma route_forward:
  assumes P: "ports M none none (none(i := [d])) P" and i: "i < 7" and ttl: "ih_ttl (dg_header d) > 1"
    and x: "find_route T (ih_dst (dg_header d)) = Inr (Some x)" "rn_interface_num x < 7"
    and hop: "(case rn_next_hop x of Some h \<Rightarrow> Inr h | None \<Rightarrow> address_of_ip gai (to_string (unat (ih_dst (dg_header d)))) 0) = Inr hop"
    and d2: "d2 = d\<lparr>dg_header := (dg_header d)\<lparr>ih_ttl := ih_ttl (dg_header d) - 1\<rparr>\<rparr>"
    and P0: "P0 = P(i := (P i)\<lparr>an_datagrams_out := []\<rparr>)"
    and ni: "send_datagram (an_interface (P0 (rn_interface_num x))) d2 hop = (ni, Inr ())"
  shows "route gai (nt_router (net_of T P E)) =
    (nt_router (net_of T (P0(rn_interface_num x := (P0 (rn_interface_num x))\<lparr>an_interface := ni\<rparr>)) E), Inr ())"
proof -
  let ?r = "nt_router (net_of T P E)" and ?j = "rn_interface_num x"
  note nth = router_nth and len = router_length and upd = router_update
  have q: "queue_of ?r k = (if k = i then [d] else [])" if "k < 7" for k using router_queue [OF P that] by simp
  have "send_datagram (an_interface (P ?j)) d2 hop = (ni, Inr ())" using ni by (simp add: P0 split: if_splits)
  then have "send_on ?r ?j d2 hop = (nt_router (net_of T (P(?j := (P ?j)\<lparr>an_interface := ni\<rparr>)) E), Inr ())"
    using x(2) by (simp add: send_on_def len nth upd)
  moreover have "rt_rout_map ?r = T" by (simp add: net_of_def)
  ultimately have "route_one_datagram gai ?r d = (nt_router (net_of T (P(?j := (P ?j)\<lparr>an_interface := ni\<rparr>)) E), d2, Inr ())"
    using ttl x(1) hop by (simp add: route_one_datagram_def d2 not_le Let_def cong: option.case_cong)
  from route_single [OF _ _ _ this, of i] have
    "route gai ?r = (set_queue i [] (nt_router (net_of T (P(?j := (P ?j)\<lparr>an_interface := ni\<rparr>)) E)), Inr ())"
    using i q by (simp add: len)
  also have "set_queue i [] (nt_router (net_of T (P(?j := (P ?j)\<lparr>an_interface := ni\<rparr>)) E)) =
      nt_router (net_of T (P0(?j := (P0 ?j)\<lparr>an_interface := ni\<rparr>)) E)"
  proof -
    have "(P(?j := (P ?j)\<lparr>an_interface := ni\<rparr>))(i := ((P(?j := (P ?j)\<lparr>an_interface := ni\<rparr>)) i)\<lparr>an_datagrams_out := []\<rparr>) =
        P0(?j := (P0 ?j)\<lparr>an_interface := ni\<rparr>)" by (auto simp: P0)
    then show ?thesis using i by (simp add: set_queue_def nth upd)
  qed
  finally show ?thesis .
qed

lemma set_router: "(\<And>p. 7 \<le> p \<Longrightarrow> P1 p = P0 p) \<Longrightarrow> (net_of T P0 E)\<lparr>nt_router := nt_router (net_of T P1 E)\<rparr> = net_of T P1 E"
  by (simp add: net_of_def port_host_def)

lemma simulate_round:
  assumes "route gai (nt_router (net_of T P0 E)) = (nt_router (net_of T P1 E), Inr ())" "\<And>p. 7 \<le> p \<Longrightarrow> P1 p = P0 p"
    "simulate_physical_connections (net_of T P1 E) = (net_of T P2 E, Inr ())"
  shows "simulate_rounds gai (Suc n) (net_of T P0 E) = simulate_rounds gai n (net_of T P2 E)"
  using assms by (simp add: call_on_def set_router)

lemma simulate_flow:
  assumes "flow T E n P1 Q" "route gai (nt_router (net_of T P0 E)) = (nt_router (net_of T P1 E), Inr ())" "\<And>p. 7 \<le> p \<Longrightarrow> P1 p = P0 p"
  shows "simulate_rounds gai (n + k) (net_of T P0 E) = simulate_rounds gai k (net_of T Q E)"
  using assms
proof (induction arbitrary: P0 rule: flow.induct)
  case (one P Q)
  then show ?case using simulate_round [OF one(2,3,1)] by (simp del: simulate_rounds.simps)
next
  case (more P P' n Q)
  then show ?case using simulate_round [OF more(5,6,1)] more(4) [OF route_idle] by (simp del: simulate_rounds.simps)
qed

lemma physical_idle:
  assumes "ports M none none D P"
  shows "simulate_physical_connections (net_of T P E) = (net_of T P E, Inr ())"
proof -
  have "frames_of (P p) = []" if "p < 13" for p using assms that by (simp add: ports_def port_def frames_of_def)
  moreover from this have "after 0 P = P" by (auto simp: after_def quiet_port_id intro!: ext)
  ultimately show ?thesis using physical_after [of 0 P T E] by simp
qed

lemma simulate_idle:
  assumes "ports M none none D P" "\<And>p. p < 7 \<Longrightarrow> D p = []"
  shows "simulate_rounds gai n (net_of T P E) = (net_of T P E, Inr ())"
proof (induction n)
  case (Suc n)
  show ?case using simulate_round [OF route_idle _ physical_idle [OF assms(1)]] assms Suc
    by (simp del: simulate_rounds.simps(2) add: ports_def)
qed simp

subsection \<open>From host to host\<close>

definition lower :: "ipv4_datagram \<Rightarrow> ipv4_datagram" where
  "lower d = d\<lparr>dg_header := (dg_header d)\<lparr>ih_ttl := ih_ttl (dg_header d) - 1\<rparr>\<rparr>"

lemma same_datagramE:
  assumes "same_datagram a b"
  obtains c where "b = a\<lparr>dg_header := (dg_header a)\<lparr>ih_cksum := c\<rparr>\<rparr>"
proof -
  have h: "(dg_header b)\<lparr>ih_cksum := 0\<rparr> = (dg_header a)\<lparr>ih_cksum := 0\<rparr>" and p: "dg_payload a = dg_payload b" using assms by (simp_all add: same_datagram_def)
  have "dg_header b = ((dg_header b)\<lparr>ih_cksum := 0\<rparr>)\<lparr>ih_cksum := ih_cksum (dg_header b)\<rparr>" by simp
  also have "\<dots> = (dg_header a)\<lparr>ih_cksum := ih_cksum (dg_header b)\<rparr>" unfolding h by simp
  finally have "b = a\<lparr>dg_header := (dg_header a)\<lparr>ih_cksum := ih_cksum (dg_header b)\<rparr>\<rparr>" using p by (cases a; cases b) simp
  then show ?thesis by (rule that)
qed

lemma same_datagram_wf: "same_datagram a b \<Longrightarrow> dg_wf a \<Longrightarrow> dg_wf b"
  by (erule same_datagramE) (simp add: dg_wf_def ipv4_wf_def)

lemma same_datagram_wire: "same_datagram a b \<Longrightarrow> wire a = wire b"
  by (erule same_datagramE) (simp add: wire_def ipv4_datagram_serialize_def payload_length_def Let_def cong: sum.case_cong)

lemma same_datagram_lower: "same_datagram a b \<Longrightarrow> same_datagram (lower a) (lower b)"
  by (erule same_datagramE) (simp add: same_datagram_def lower_def)

lemma same_datagram_trans: "same_datagram a b \<Longrightarrow> same_datagram b c \<Longrightarrow> same_datagram a c"
  by (simp add: same_datagram_def)

lemma lower_wf: "dg_wf d \<Longrightarrow> dg_wf (lower d)"
  by (simp add: dg_wf_def ipv4_wf_def lower_def)

lemma traverse:
  assumes P: "ports M none none none P" and up: "joined M s i" "i < 7" "7 \<le> s" "ipv4_numeric hop = Inr (port_ip i)"
    and d: "dg_wf d" "ih_ttl (dg_header d) > 1" and gai: "numeric_resolver gai"
    and x: "find_route T (ih_dst (dg_header d)) = Inr (Some x)" "rn_interface_num x < 7"
    and nh: "case rn_next_hop x of None \<Rightarrow> ih_dst (dg_header d) = port_ip t | Some h \<Rightarrow> ipv4_numeric h = Inr (port_ip t)"
    and down: "joined M (rn_interface_num x) t" "7 \<le> t"
  obtains ni Q d' where "send_datagram (an_interface (P s)) d hop = (ni, Inr ())"
    "simulate_rounds gai 256 (net_of T (P(s := (P s)\<lparr>an_interface := ni\<rparr>)) E) = (net_of T Q E, Inr ())"
    "ports M none none (none(t := [d'])) Q" "same_datagram (lower d) d'"
proof -
  let ?j = "rn_interface_num x"
  obtain ni n1 Q1 d1 where h1: "send_datagram (an_interface (P s)) d hop = (ni, Inr ())" "n1 \<le> 3"
    "flow T E n1 (P(s := (P s)\<lparr>an_interface := ni\<rparr>)) Q1" "ports M none none (none(i := [d1])) Q1" "same_datagram d d1"
    using hop_flow [OF up(1) P d(1) up(4)] by blast
  let ?P1 = "P(s := (P s)\<lparr>an_interface := ni\<rparr>)"
  have idle: "an_datagrams_out (?P1 p) = []" if "p < 7" for p using P that up(3) by (simp add: ports_def)
  have r1: "simulate_rounds gai (n1 + (256 - n1)) (net_of T ?P1 E) = simulate_rounds gai (256 - n1) (net_of T Q1 E)"
    by (rule simulate_flow [OF h1(3) route_idle [OF idle]]) auto
  obtain c where c: "d1 = d\<lparr>dg_header := (dg_header d)\<lparr>ih_cksum := c\<rparr>\<rparr>" using same_datagramE [OF h1(5)] .
  define P0 where "P0 = Q1(i := (Q1 i)\<lparr>an_datagrams_out := []\<rparr>)"
  have P0: "ports M none none none P0" using h1(4) by (auto simp: ports_def P0_def)
  define h where "h = (case rn_next_hop x of Some h \<Rightarrow> h | None \<Rightarrow> ipv4_endpoint (ih_dst (dg_header d)) 0)"
  have hop2: "(case rn_next_hop x of Some h \<Rightarrow> Inr h | None \<Rightarrow> address_of_ip gai (to_string (unat (ih_dst (dg_header d1)))) 0) = Inr h"
    "ipv4_numeric h = Inr (port_ip t)"
    using nh address_of_ip_number [OF gai] by (auto simp: c h_def split: option.splits)
  have wf: "dg_wf (lower d1)" by (rule lower_wf [OF same_datagram_wf [OF h1(5) d(1)]])
  obtain ni2 n2 Q2 d2 where h2: "send_datagram (an_interface (P0 ?j)) (lower d1) h = (ni2, Inr ())" "n2 \<le> 3"
    "flow T E n2 (P0(?j := (P0 ?j)\<lparr>an_interface := ni2\<rparr>)) Q2" "ports M none none (none(t := [d2])) Q2" "same_datagram (lower d1) d2"
    using hop_flow [OF down(1) P0 wf hop2(2)] by blast
  have "route gai (nt_router (net_of T Q1 E)) = (nt_router (net_of T (P0(?j := (P0 ?j)\<lparr>an_interface := ni2\<rparr>)) E), Inr ())"
    by (rule route_forward [OF h1(4) up(2) _ _ x(2) hop2(1) lower_def P0_def h2(1)]) (use d(2) x(1) in \<open>simp_all add: c\<close>)
  then have r2: "simulate_rounds gai (n2 + (256 - n1 - n2)) (net_of T Q1 E) = simulate_rounds gai (256 - n1 - n2) (net_of T Q2 E)"
    by (rule simulate_flow [OF h2(3)]) (use up(2) x(2) in \<open>auto simp: P0_def\<close>)
  have r3: "simulate_rounds gai (256 - n1 - n2) (net_of T Q2 E) = (net_of T Q2 E, Inr ())"
    by (rule simulate_idle [OF h2(4)]) (use down(2) in auto)
  have "simulate_rounds gai 256 (net_of T ?P1 E) = (net_of T Q2 E, Inr ())"
    using r1 r2 r3 h1(2) h2(2) by (simp del: simulate_rounds.simps)
  moreover have "same_datagram (lower d) d2" by (rule same_datagram_trans [OF same_datagram_lower [OF h1(5)] h2(5)])
  ultimately show ?thesis using that [OF h1(1) _ h2(4)] by blast
qed

text \<open>A datagram whose time to live is used up ends at the router.\<close>

lemma expire:
  assumes P: "ports M none none none P" and up: "joined M s i" "i < 7" "7 \<le> s" "ipv4_numeric hop = Inr (port_ip i)"
    and d: "dg_wf d" "ih_ttl (dg_header d) \<le> 1"
  obtains ni Q where "send_datagram (an_interface (P s)) d hop = (ni, Inr ())"
    "simulate_rounds gai 256 (net_of T (P(s := (P s)\<lparr>an_interface := ni\<rparr>)) E) = (net_of T Q E, Inr ())" "ports M none none none Q"
proof -
  obtain ni n1 Q1 d1 where h1: "send_datagram (an_interface (P s)) d hop = (ni, Inr ())" "n1 \<le> 3"
    "flow T E n1 (P(s := (P s)\<lparr>an_interface := ni\<rparr>)) Q1" "ports M none none (none(i := [d1])) Q1" "same_datagram d d1"
    using hop_flow [OF up(1) P d(1) up(4)] by blast
  let ?P1 = "P(s := (P s)\<lparr>an_interface := ni\<rparr>)" and ?r = "nt_router (net_of T Q1 E)"
  have idle: "an_datagrams_out (?P1 p) = []" if "p < 7" for p using P that up(3) by (simp add: ports_def)
  have r1: "simulate_rounds gai (n1 + (256 - n1)) (net_of T ?P1 E) = simulate_rounds gai (256 - n1) (net_of T Q1 E)"
    by (rule simulate_flow [OF h1(3) route_idle [OF idle]]) auto
  obtain c where "d1 = d\<lparr>dg_header := (dg_header d)\<lparr>ih_cksum := c\<rparr>\<rparr>" using same_datagramE [OF h1(5)] .
  then have one: "route_one_datagram gai ?r d1 = (?r, d1, Inr ())" using d(2) by (simp add: route_one_datagram_def)
  define Q where "Q = Q1(i := (Q1 i)\<lparr>an_datagrams_out := []\<rparr>)"
  have Q: "ports M none none none Q" using h1(4) by (auto simp: ports_def Q_def)
  have "route gai ?r = (set_queue i [] ?r, Inr ())"
    by (rule route_single [OF _ _ _ one]) (use up(2) router_queue [OF h1(4)] in \<open>auto simp: router_length\<close>)
  also have "set_queue i [] ?r = nt_router (net_of T Q E)" using up(2) by (simp add: set_queue_def router_nth router_update Q_def)
  finally have "route gai ?r = (nt_router (net_of T Q E), Inr ())" .
  moreover have "simulate_physical_connections (net_of T Q E) = (net_of T Q E, Inr ())" by (rule physical_idle [OF Q])
  ultimately have "simulate_rounds gai (Suc (255 - n1)) (net_of T Q1 E) = simulate_rounds gai (255 - n1) (net_of T Q E)"
    using up(2) by (intro simulate_round) (auto simp: Q_def)
  moreover have "simulate_rounds gai (255 - n1) (net_of T Q E) = (net_of T Q E, Inr ())" by (rule simulate_idle [OF Q]) simp
  moreover have "Suc (255 - n1) = 256 - n1" using h1(2) by simp
  ultimately have "simulate_rounds gai 256 (net_of T ?P1 E) = (net_of T Q E, Inr ())" using r1 h1(2) by (simp del: simulate_rounds.simps)
  then show ?thesis using that [OF h1(1) _ Q] by blast
qed

subsection \<open>The tests\<close>

lemma check_hosts_net:
  assumes "ports M none none D Q" "\<And>p. 7 \<le> p \<Longrightarrow> p < 13 \<Longrightarrow> mset (map wire (D p)) = mset (map wire (E p)) \<and> (\<forall>d \<in> set (D p) \<union> set (E p). dg_wf d)"
  shows "check_hosts (nt_hosts (net_of T Q E)) = (nt_hosts (net_of T (\<lambda>p. if p < 7 then Q p else (Q p)\<lparr>an_datagrams_out := []\<rparr>) none), Inr ())"
proof -
  have "host_check (snd (port_host Q E name p hop)) =
      (snd (port_host (\<lambda>p. if p < 7 then Q p else (Q p)\<lparr>an_datagrams_out := []\<rparr>) none name p hop), Inr ())"
    if p: "7 \<le> p" "p < 13" for name p hop
  proof -
    have "an_datagrams_out (Q p) = D p" using assms(1) p by (simp add: ports_def)
    then show ?thesis using host_check_wf [of "snd (port_host Q E name p hop)"] assms(2) [OF p] p by (simp add: port_host_def)
  qed
  then show ?thesis by (simp add: net_of_def port_host_def)
qed

definition host_at :: "string \<Rightarrow> nat \<Rightarrow> u32 \<Rightarrow> bool" where
  "host_at name p hop \<longleftrightarrow> (name, p, hop) \<in> set [(''applesauce'', 7, port_ip 1), (''default_router'', 8, 0), (''cherrypie'', 9, port_ip 3),
     (''hs_router'', 10, 0), (''dm42'', 11, port_ip 4), (''dm43'', 12, port_ip 4)]"

lemma host_at_cases:
  assumes "host_at name p hop"
  obtains "name = ''applesauce''" "p = 7" "hop = port_ip 1" | "name = ''default_router''" "p = 8" "hop = 0"
    | "name = ''cherrypie''" "p = 9" "hop = port_ip 3" | "name = ''hs_router''" "p = 10" "hop = 0"
    | "name = ''dm42''" "p = 11" "hop = port_ip 4" | "name = ''dm43''" "p = 12" "hop = port_ip 4"
  using assms unfolding host_at_def list.set insert_iff prod.inject empty_iff by (elim disjE conjE) (rule that, assumption+ | simp)+

lemma find_host_net: "host_at name p hop \<Longrightarrow> find_host (net_of T P E) name = Inr (snd (port_host P E name p hop))"
  by (erule host_at_cases; simp add: find_host_def net_of_def port_host_def)

lemma set_host_interface:
  "host_at name p hop \<Longrightarrow> set_host name ((snd (port_host P E name p hop))\<lparr>hs_interface := a\<rparr>) (net_of T P E) = net_of T (P(p := a)) E"
  by (erule host_at_cases; simp add: set_host_def net_of_def port_host_def)

lemma set_host_expect:
  "host_at name p hop \<Longrightarrow> set_host name (expect d (snd (port_host P E name p hop))) (net_of T P E) = net_of T P (E(p := E p @ [d]))"
  by (erule host_at_cases; simp add: set_host_def net_of_def port_host_def expect_def)

lemma to_string_length: "0 < k \<Longrightarrow> n < 10 ^ k \<Longrightarrow> length (to_string n) \<le> k"
proof (induction n arbitrary: k rule: to_string.induct)
  case (1 n)
  show ?case
  proof (cases "n < 10")
    case False
    then obtain j where k: "k = Suc j" "0 < j" using 1(2,3) by (cases k; cases "k - 1") auto
    then have "n div 10 < 10 ^ j" using 1(3) by (simp add: div_less_iff_less_mult)
    then show ?thesis using 1(1) [OF False k(2)] False k by (subst to_string.simps) simp
  qed (use 1(2) in \<open>subst to_string.simps; simp\<close>)
qed

lemma host_payload_length: "length (host_payload rnd) \<le> 28"
proof -
  have "unat rnd < 2 ^ LENGTH(32)" by (rule unsigned_less)
  then have "length (to_string (unat rnd)) \<le> 10" by (intro to_string_length) simp_all
  then show ?thesis by (simp add: host_payload_def)
qed

lemma host_datagram_wf: "dg_wf (host_datagram src dst ttl rnd)"
proof -
  have "unat (20 + word_of_nat n :: u16) = 20 + n" if "n \<le> 28" for n
  proof -
    have "unat (word_of_nat (20 + n) :: u16) = 20 + n" using that by (simp add: unat_of_nat del: of_nat_add)
    then show ?thesis by simp
  qed
  from this [OF host_payload_length [of rnd]] show ?thesis
    by (simp add: host_datagram_def Let_def dg_wf_def ipv4_wf_def ipv4_header_new_def)
qed

lemma host_datagram_fields [simp]:
  "ih_dst (dg_header (host_datagram src dst ttl rnd)) = dst" "ih_ttl (dg_header (host_datagram src dst ttl rnd)) = ttl"
  by (simp_all add: host_datagram_def Let_def)

lemma send_from_net:
  assumes "host_at name s hop" "rd g = (g', rnd)" "numeric_namer gni"
    "send_datagram (an_interface (P s)) (host_datagram (port_ip s) dst ttl rnd) (ipv4_endpoint hop 0) = (ni, Inr ())"
  shows "send_from rd gni name (ipv4_endpoint dst 0) ttl (g, net_of T P E) =
    ((g', net_of T (P(s := (P s)\<lparr>an_interface := ni\<rparr>)) E), Inr (host_datagram (port_ip s) dst ttl rnd))"
proof -
  have ip: "address_ip gni (ipv4_endpoint hop 0) = Inr (inet_ntoa hop)" by (simp add: address_ip_def ip_port_endpoint [OF assms(3)])
  have "send_to rd gni (ipv4_endpoint dst 0) ttl (g, snd (port_host P E name s hop)) =
      ((g', (snd (port_host P E name s hop))\<lparr>hs_interface := (P s)\<lparr>an_interface := ni\<rparr>\<rparr>), Inr (host_datagram (port_ip s) dst ttl rnd))"
    using assms(2,4) ip by (simp add: send_to_def port_host_def)
  then show ?thesis using assms(1) by (simp add: send_from_def find_host_net set_host_interface)
qed

lemma simulate_net:
  assumes "simulate_rounds gai 256 (net_of T P E) = (net_of T Q E, Inr ())" "ports M none none D Q" "\<And>p. p < 7 \<Longrightarrow> D p = []"
    "\<And>p. 7 \<le> p \<Longrightarrow> p < 13 \<Longrightarrow> mset (map wire (D p)) = mset (map wire (E p)) \<and> (\<forall>d \<in> set (D p) \<union> set (E p). dg_wf d)"
  shows "\<exists>Q'. simulate gai (net_of T P E) = (net_of T Q' none, Inr ()) \<and> ports M none none none Q'"
proof (intro exI conjI)
  let ?Q = "\<lambda>p. if p < 7 then Q p else (Q p)\<lparr>an_datagrams_out := []\<rparr>"
  have "(net_of T Q E)\<lparr>nt_hosts := nt_hosts (net_of T ?Q none)\<rparr> = net_of T ?Q none" by (simp add: net_of_def)
  then show "simulate gai (net_of T P E) = (net_of T ?Q none, Inr ())"
    using assms(1) check_hosts_net [OF assms(2,4), where T = T] by (simp add: simulate_def call_on_def)
  show "ports M none none none ?Q" using assms(2,3) by (simp add: ports_def)
qed

lemma test_traffic_net:
  assumes "numeric_resolver gai" "numeric_namer gni" and P: "ports M none none none P"
    and hosts: "host_at a s (port_ip i)" "host_at b t hop" "i < 7" "joined M s i"
    and x: "find_route T dst = Inr (Some x)" "rn_interface_num x < 7" "joined M (rn_interface_num x) t"
      "case rn_next_hop x of None \<Rightarrow> dst = port_ip t | Some h \<Rightarrow> ipv4_numeric h = Inr (port_ip t)"
  shows "\<exists>g' Q. test_traffic rd gai gni a (ipv4_endpoint dst 0) b (g, net_of T P none) = ((g', net_of T Q none), Inr ()) \<and> ports M none none none Q"
proof -
  obtain g' rnd where rd: "rd g = (g', rnd)" by fastforce
  let ?d = "host_datagram (port_ip s) dst 64 rnd" and ?E = "none(t := [lower (host_datagram (port_ip s) dst 64 rnd)])"
  have st: "7 \<le> s" "7 \<le> t" using hosts(1,2) by (auto elim!: host_at_cases)
  obtain ni Q d' where tr: "send_datagram (an_interface (P s)) ?d (ipv4_endpoint (port_ip i) 0) = (ni, Inr ())"
    "simulate_rounds gai 256 (net_of T (P(s := (P s)\<lparr>an_interface := ni\<rparr>)) ?E) = (net_of T Q ?E, Inr ())"
    "ports M none none (none(t := [d'])) Q" "same_datagram (lower ?d) d'"
    by (rule traverse [where d = ?d and T = T and E = ?E, OF P hosts(4,3) st(1) ipv4_numeric_endpoint host_datagram_wf _ assms(1) _ x(2) _ x(3) st(2)])
      (use x(1,4) in \<open>simp_all cong: option.case_cong\<close>)
  have "\<exists>Q'. simulate gai (net_of T (P(s := (P s)\<lparr>an_interface := ni\<rparr>)) ?E) = (net_of T Q' none, Inr ()) \<and> ports M none none none Q'"
    using same_datagram_wire [OF tr(4)] same_datagram_wf [OF tr(4)] lower_wf [OF host_datagram_wf] st(2)
    by (intro simulate_net [OF tr(2,3)]) auto
  moreover have "set_host b (expect (lower ?d) (snd (port_host (P(s := (P s)\<lparr>an_interface := ni\<rparr>)) none b t hop)))
      (net_of T (P(s := (P s)\<lparr>an_interface := ni\<rparr>)) none) = net_of T (P(s := (P s)\<lparr>an_interface := ni\<rparr>)) ?E"
    by (simp add: set_host_expect [OF hosts(2)])
  ultimately show ?thesis
    using send_from_net [where P = P and s = s and rd = rd and g = g, OF hosts(1) rd assms(2) tr(1), of T none]
    by (auto simp: test_traffic_def call_on_def lower_def [symmetric] find_host_net [OF hosts(2)])
qed

lemma test_expiry_net:
  assumes "numeric_namer gni" and P: "ports M none none none P" and hosts: "host_at a s (port_ip i)" "i < 7" "joined M s i"
    and dst: "address_of_ip gai destination 0 = Inr (ipv4_endpoint dst 0)" and ttl: "ttl \<le> 1"
  shows "\<exists>g' Q. test_expiry rd gai gni a destination ttl (g, net_of T P none) = ((g', net_of T Q none), Inr ()) \<and> ports M none none none Q"
proof -
  obtain g' rnd where rd: "rd g = (g', rnd)" by fastforce
  let ?d = "host_datagram (port_ip s) dst ttl rnd"
  have s: "7 \<le> s" using hosts(1) by (auto elim!: host_at_cases)
  obtain ni Q where tr: "send_datagram (an_interface (P s)) ?d (ipv4_endpoint (port_ip i) 0) = (ni, Inr ())"
    "simulate_rounds gai 256 (net_of T (P(s := (P s)\<lparr>an_interface := ni\<rparr>)) none) = (net_of T Q none, Inr ())" "ports M none none none Q"
    by (rule expire [where d = ?d and T = T and E = none, OF P hosts(3,2) s ipv4_numeric_endpoint host_datagram_wf]) (use ttl in simp_all)
  have "\<exists>Q'. simulate gai (net_of T (P(s := (P s)\<lparr>an_interface := ni\<rparr>)) none) = (net_of T Q' none, Inr ()) \<and> ports M none none none Q'"
    by (rule simulate_net [OF tr(2,3)]) auto
  then show ?thesis using send_from_net [where P = P and s = s and rd = rd and g = g, OF hosts(1) rd assms(1) tr(1), of T none] dst
    by (auto simp: test_expiry_def call_on_def)
qed

subsection \<open>The network that is built\<close>

lemma be_bytes_quad: "be_bytes (quad a b c d) = [a, b, c, d]"
proof -
  have "be_value (be_bytes (quad a b c d)) = (be_value [a, b, c, d] :: u32)" using be_value_be_bytes [of 4 "quad a b c d"] by (simp add: quad_def)
  from be_value_inj [OF _ _ this] show ?thesis by simp
qed

lemma inet_ntoa_quad: "inet_ntoa (quad a b c d) =
    to_string (unat a) @ ''.'' @ to_string (unat b) @ ''.'' @ to_string (unat c) @ ''.'' @ to_string (unat d)"
  by (simp add: inet_ntoa_def be_bytes_quad)

lemma quads:
  "inet_ntoa (quad 171 67 76 46) = ''171.67.76.46''" "inet_ntoa (quad 10 0 0 1) = ''10.0.0.1''" "inet_ntoa (quad 172 16 0 1) = ''172.16.0.1''"
  "inet_ntoa (quad 192 168 0 1) = ''192.168.0.1''" "inet_ntoa (quad 198 178 229 1) = ''198.178.229.1''"
  "inet_ntoa (quad 143 195 0 2) = ''143.195.0.2''" "inet_ntoa (quad 128 30 76 255) = ''128.30.76.255''"
  "inet_ntoa (quad 10 0 0 2) = ''10.0.0.2''" "inet_ntoa (quad 171 67 76 1) = ''171.67.76.1''" "inet_ntoa (quad 192 168 0 2) = ''192.168.0.2''"
  "inet_ntoa (quad 143 195 0 1) = ''143.195.0.1''" "inet_ntoa (quad 198 178 229 42) = ''198.178.229.42''"
  "inet_ntoa (quad 198 178 229 43) = ''198.178.229.43''" "inet_ntoa (quad 128 30 0 1) = ''128.30.0.1''" "inet_ntoa (quad 0 0 0 0) = ''0.0.0.0''"
  "inet_ntoa (quad 10 0 0 0) = ''10.0.0.0''" "inet_ntoa (quad 172 16 0 0) = ''172.16.0.0''" "inet_ntoa (quad 192 168 0 0) = ''192.168.0.0''"
  "inet_ntoa (quad 198 178 229 0) = ''198.178.229.0''" "inet_ntoa (quad 143 195 0 0) = ''143.195.0.0''"
  "inet_ntoa (quad 143 195 128 0) = ''143.195.128.0''" "inet_ntoa (quad 143 195 192 0) = ''143.195.192.0''" "inet_ntoa (quad 1 2 3 4) = ''1.2.3.4''"
  "inet_ntoa (quad 143 195 131 17) = ''143.195.131.17''" "inet_ntoa (quad 143 195 193 52) = ''143.195.193.52''"
  "inet_ntoa (quad 143 195 223 255) = ''143.195.223.255''" "inet_ntoa (quad 143 195 224 0) = ''143.195.224.0''"
  by (simp_all add: inet_ntoa_quad to_string.simps digit_chars)

lemma known_addresses:
  assumes "numeric_resolver gai"
  shows "address_of_ip gai ''171.67.76.46'' 0 = Inr (ipv4_endpoint (port_ip 0) 0)" "address_of_ip gai ''10.0.0.1'' 0 = Inr (ipv4_endpoint (port_ip 1) 0)"
    "address_of_ip gai ''172.16.0.1'' 0 = Inr (ipv4_endpoint (port_ip 2) 0)" "address_of_ip gai ''192.168.0.1'' 0 = Inr (ipv4_endpoint (port_ip 3) 0)"
    "address_of_ip gai ''198.178.229.1'' 0 = Inr (ipv4_endpoint (port_ip 4) 0)" "address_of_ip gai ''143.195.0.2'' 0 = Inr (ipv4_endpoint (port_ip 5) 0)"
    "address_of_ip gai ''128.30.76.255'' 0 = Inr (ipv4_endpoint (port_ip 6) 0)" "address_of_ip gai ''10.0.0.2'' 0 = Inr (ipv4_endpoint (port_ip 7) 0)"
    "address_of_ip gai ''171.67.76.1'' 0 = Inr (ipv4_endpoint (port_ip 8) 0)" "address_of_ip gai ''192.168.0.2'' 0 = Inr (ipv4_endpoint (port_ip 9) 0)"
    "address_of_ip gai ''143.195.0.1'' 0 = Inr (ipv4_endpoint (port_ip 10) 0)" "address_of_ip gai ''198.178.229.42'' 0 = Inr (ipv4_endpoint (port_ip 11) 0)"
    "address_of_ip gai ''198.178.229.43'' 0 = Inr (ipv4_endpoint (port_ip 12) 0)" "address_of_ip gai ''0'' 0 = Inr (ipv4_endpoint 0 0)"
  using address_of_ip_dotted [OF assms, where port = 0] address_of_ip_number [OF assms, of 0 0]
  by (simp_all add: port_ip_def to_string.simps [of 0] digit_chars flip: quads)

definition net_table :: "rout_node list" where
  "net_table =
     [rnode (quad 198 178 229 0) 24 None 4, rnode (quad 192 168 0 0) 24 None 3, rnode (quad 172 16 0 0) 16 None 2, rnode (quad 10 0 0 0) 8 None 1,
      rnode (quad 143 195 192 0) 19 (Some (ipv4_endpoint (port_ip 10) 0)) 5, rnode (quad 143 195 128 0) 18 (Some (ipv4_endpoint (port_ip 10) 0)) 5,
      rnode (quad 143 195 0 0) 17 (Some (ipv4_endpoint (port_ip 10) 0)) 5, rnode (port_ip 6) 16 (Some (ipv4_endpoint (quad 128 30 0 1) 0)) 6,
      rnode (quad 0 0 0 0) 0 (Some (ipv4_endpoint (port_ip 8) 0)) 0]"

lemma net_ip_of:
  assumes "numeric_resolver gai"
  shows "ip_of gai ''0.0.0.0'' = Inr (quad 0 0 0 0)" "ip_of gai ''10.0.0.0'' = Inr (quad 10 0 0 0)" "ip_of gai ''172.16.0.0'' = Inr (quad 172 16 0 0)"
    "ip_of gai ''192.168.0.0'' = Inr (quad 192 168 0 0)" "ip_of gai ''198.178.229.0'' = Inr (quad 198 178 229 0)"
    "ip_of gai ''143.195.0.0'' = Inr (quad 143 195 0 0)" "ip_of gai ''143.195.128.0'' = Inr (quad 143 195 128 0)"
    "ip_of gai ''143.195.192.0'' = Inr (quad 143 195 192 0)" "ip_of gai ''128.30.76.255'' = Inr (quad 128 30 76 255)"
  using address_of_ip_dotted [OF assms, of "quad 0 0 0 0" 0]
    address_of_ip_dotted [OF assms, of "quad 10 0 0 0" 0]
    address_of_ip_dotted [OF assms, of "quad 172 16 0 0" 0]
    address_of_ip_dotted [OF assms, of "quad 192 168 0 0" 0]
    address_of_ip_dotted [OF assms, of "quad 198 178 229 0" 0]
    address_of_ip_dotted [OF assms, of "quad 143 195 0 0" 0]
    address_of_ip_dotted [OF assms, of "quad 143 195 128 0" 0]
    address_of_ip_dotted [OF assms, of "quad 143 195 192 0" 0]
    address_of_ip_dotted [OF assms, of "quad 128 30 76 255" 0]
  by (simp_all add: ip_of_def quads)

lemma add_route_net:
  assumes "numeric_namer gni"
  shows "add_route gni r q len None i = (r\<lparr>rt_rout_map := set_insert_by rout_less (rnode q len None i) (rt_rout_map r)\<rparr>, Inr ())"
    "add_route gni r q len (Some (ipv4_endpoint k 0)) i =
       (r\<lparr>rt_rout_map := set_insert_by rout_less (rnode q len (Some (ipv4_endpoint k 0)) i) (rt_rout_map r)\<rparr>, Inr ())"
  using add_route_ok [OF assms, of "rnode q len None i" r] add_route_ok [OF assms, of "rnode q len (Some (ipv4_endpoint k 0)) i" r]
  by (simp_all add: rnode_def printable_def address_ip_def ip_port_endpoint [OF assms])

lemma net_routes:
  assumes "numeric_resolver gai" "numeric_namer gni"
  shows "add_routes gai gni
     [(''0.0.0.0'', 0, Some (ipv4_endpoint (port_ip 8) 0), 0), (''10.0.0.0'', 8, None, 1), (''172.16.0.0'', 16, None, 2),
      (''192.168.0.0'', 24, None, 3), (''198.178.229.0'', 24, None, 4), (''143.195.0.0'', 17, Some (ipv4_endpoint (port_ip 10) 0), 5),
      (''143.195.128.0'', 18, Some (ipv4_endpoint (port_ip 10) 0), 5), (''143.195.192.0'', 19, Some (ipv4_endpoint (port_ip 10) 0), 5),
      (''128.30.76.255'', 16, Some (ipv4_endpoint (quad 128 30 0 1) 0), 6)] \<lparr>rt_interfaces = is', rt_rout_map = []\<rparr> =
    Inr \<lparr>rt_interfaces = is', rt_rout_map = net_table\<rparr>"
proof -
  have gw: "rout_less (rnode q l (Some h) i) (rnode q' l' h' i') \<longleftrightarrow> h' \<noteq> None \<and> l > l'" for q l h i q' l' h' i'
    by (auto simp: rout_less_def rnode_def)
  have direct: "set_insert_by rout_less (rnode q l None i) t = rnode q l None i # t" for q l i t
    by (rule insert_direct) (simp add: direct_def rnode_def)
  have port: "port_ip 6 = quad 128 30 76 255" by (simp add: port_ip_def)
  show ?thesis unfolding net_table_def port
    by (simp add: net_ip_of [OF assms(1)] add_route_net [OF assms(2)] direct)
      (simp add: set_insert_by_def upper_bound_by_def gw rout_less_def rnode_def)
qed

lemma private_not_broadcast: "private_address a \<noteq> ETHERNET_BROADCAST" "router_address a \<noteq> ETHERNET_BROADCAST"
proof -
  have "b AND 0xfe \<noteq> 0xff" for b :: byte
  proof
    assume "b AND 0xfe = 0xff"
    then have "bit (b AND 0xfe) 0 = bit (0xff :: byte) 0" by simp
    then show False by (simp add: bit_simps)
  qed
  then show "private_address a \<noteq> ETHERNET_BROADCAST" "router_address a \<noteq> ETHERNET_BROADCAST"
    by (cases a; simp add: ETHERNET_BROADCAST_def)+
qed

lemma port_new: "port M p [] [] (network_interface_new (M p) (ipv4_endpoint (port_ip p) 0))"
  by (simp add: port_def network_interface_new_def)

text \<open>Every address takes six numbers from the generator.\<close>

definition next_draw :: "'g generator \<Rightarrow> 'g \<Rightarrow> 'g" where
  "next_draw rd g = fst (draw_address rd g)"

definition net_macs :: "'g generator \<Rightarrow> 'g \<Rightarrow> nat \<Rightarrow> ethernet_address" where
  "net_macs rd g p = (if p < 7 then router_address else private_address) (snd (draw_address rd ((next_draw rd ^^ p) g)))"

lemma network_new_net:
  assumes "numeric_resolver gai" "numeric_namer gni"
  shows "\<exists>g'. network_new rd gai gni g =
      (g', Inr (net_of net_table (\<lambda>p. async_interface_of (network_interface_new (net_macs rd g p) (ipv4_endpoint (port_ip p) 0))) none))"
proof -
  define G where "G k = (next_draw rd ^^ k) g" for k
  let ?M = "net_macs rd g"
  have router: "random_router_ethernet_address rd (G k) = (G (Suc k), ?M k)" if "k < 7" for k
    using that by (simp add: random_router_ethernet_address_def next_draw_def net_macs_def G_def split: prod.splits)
  have host: "random_host_ethernet_address rd (G k) = (G (Suc k), ?M k)" if "\<not> k < 7" for k
    using that by (simp add: random_host_ethernet_address_def next_draw_def net_macs_def G_def split: prod.splits)
  define g1 and g2 and g3 and g4 and g5 and g6 and g7 and g8 and g9 and g10 and g11 and g12 and g13 where gs: "g1 = G 1" "g2 = G 2" "g3 = G 3" "g4 = G 4" "g5 = G 5" "g6 = G 6" "g7 = G 7" "g8 = G 8" "g9 = G 9" "g10 = G 10" "g11 = G 11" "g12 = G 12" "g13 = G 13"
  have m0: "random_router_ethernet_address rd g = (g1, ?M 0)" using router [of 0] by (simp add: gs G_def)
  have m1: "random_router_ethernet_address rd g1 = (g2, ?M 1)" using router [of 1] by (simp add: gs numeral_2_eq_2)
  have m2: "random_router_ethernet_address rd g2 = (g3, ?M 2)" using router [of 2] by (simp add: gs)
  have m3: "random_router_ethernet_address rd g3 = (g4, ?M 3)" using router [of 3] by (simp add: gs)
  have m4: "random_router_ethernet_address rd g4 = (g5, ?M 4)" using router [of 4] by (simp add: gs)
  have m5: "random_router_ethernet_address rd g5 = (g6, ?M 5)" using router [of 5] by (simp add: gs)
  have m6: "random_router_ethernet_address rd g6 = (g7, ?M 6)" using router [of 6] by (simp add: gs)
  have m7: "random_host_ethernet_address rd g7 = (g8, ?M 7)" using host [of 7] by (simp add: gs)
  have m8: "random_host_ethernet_address rd g8 = (g9, ?M 8)" using host [of 8] by (simp add: gs)
  have m9: "random_host_ethernet_address rd g9 = (g10, ?M 9)" using host [of 9] by (simp add: gs)
  have m10: "random_host_ethernet_address rd g10 = (g11, ?M 10)" using host [of 10] by (simp add: gs)
  have m11: "random_host_ethernet_address rd g11 = (g12, ?M 11)" using host [of 11] by (simp add: gs)
  have m12: "random_host_ethernet_address rd g12 = (g13, ?M 12)" using host [of 12] by (simp add: gs)
  have mit: "address_of_ip gai ''128.30.0.1'' 0 = Inr (ipv4_endpoint (quad 128 30 0 1) 0)"
    using address_of_ip_dotted [OF assms(1), of "quad 128 30 0 1" 0] by (simp add: quads)
  have ports: "router_port rd gai ''171.67.76.46'' r g = (g1, Inr (add_interface r (async_interface_of (network_interface_new (?M 0) (ipv4_endpoint (port_ip 0) 0)))))"
    "router_port rd gai ''10.0.0.1'' r g1 = (g2, Inr (add_interface r (async_interface_of (network_interface_new (?M 1) (ipv4_endpoint (port_ip 1) 0)))))"
    "router_port rd gai ''172.16.0.1'' r g2 = (g3, Inr (add_interface r (async_interface_of (network_interface_new (?M 2) (ipv4_endpoint (port_ip 2) 0)))))"
    "router_port rd gai ''192.168.0.1'' r g3 = (g4, Inr (add_interface r (async_interface_of (network_interface_new (?M 3) (ipv4_endpoint (port_ip 3) 0)))))"
    "router_port rd gai ''198.178.229.1'' r g4 = (g5, Inr (add_interface r (async_interface_of (network_interface_new (?M 4) (ipv4_endpoint (port_ip 4) 0)))))"
    "router_port rd gai ''143.195.0.2'' r g5 = (g6, Inr (add_interface r (async_interface_of (network_interface_new (?M 5) (ipv4_endpoint (port_ip 5) 0)))))"
    "router_port rd gai ''128.30.76.255'' r g6 = (g7, Inr (add_interface r (async_interface_of (network_interface_new (?M 6) (ipv4_endpoint (port_ip 6) 0)))))" for r
    by (simp_all add: router_port_def known_addresses [OF assms(1)] m0 m1 m2 m3 m4 m5 m6)
  have hosts: "add_hosts rd gai network_hosts g7 =
      (g13, Inr (nt_hosts (net_of net_table (\<lambda>p. async_interface_of (network_interface_new (?M p) (ipv4_endpoint (port_ip p) 0))) none)))"
    by (simp add: network_hosts_def host_new_def known_addresses [OF assms(1)] m7 m8 m9 m10 m11 m12 call_on_def net_of_def port_host_def)
  have "network_new rd gai gni g =
      (g13, Inr (net_of net_table (\<lambda>p. async_interface_of (network_interface_new (?M p) (ipv4_endpoint (port_ip p) 0))) none))"
    using net_routes [OF assms]
    by (simp add: network_new_def call_on_def ports hosts add_interface_def router_new_def find_host_def mit net_of_def port_host_def eval_nat_numeral
        del: add_routes.simps)
  then show ?thesis by blast
qed

lemma net_macs_ok: "net_macs rd g p \<noteq> ETHERNET_BROADCAST"
  by (simp add: net_macs_def private_not_broadcast)

lemma net_find_route:
  "find_route net_table (port_ip 9) = Inr (Some (rnode (quad 192 168 0 0) 24 None 3))"
  "find_route net_table (port_ip 7) = Inr (Some (rnode (quad 10 0 0 0) 8 None 1))"
  "find_route net_table (port_ip 12) = Inr (Some (rnode (quad 198 178 229 0) 24 None 4))"
  "find_route net_table (quad 1 2 3 4) = Inr (Some (rnode (quad 0 0 0 0) 0 (Some (ipv4_endpoint (port_ip 8) 0)) 0))"
  "find_route net_table (quad 143 195 131 17) = Inr (Some (rnode (quad 143 195 128 0) 18 (Some (ipv4_endpoint (port_ip 10) 0)) 5))"
  "find_route net_table (quad 143 195 193 52) = Inr (Some (rnode (quad 143 195 192 0) 19 (Some (ipv4_endpoint (port_ip 10) 0)) 5))"
  "find_route net_table (quad 143 195 223 255) = Inr (Some (rnode (quad 143 195 192 0) 19 (Some (ipv4_endpoint (port_ip 10) 0)) 5))"
  "find_route net_table (quad 143 195 224 0) = Inr (Some (rnode (quad 0 0 0 0) 0 (Some (ipv4_endpoint (port_ip 8) 0)) 0))"
  by (simp_all add: net_table_def port_ip_def match_def quad_def be_value_def rnode_def)

subsection \<open>All tests\<close>

definition uun3_macs :: "network \<Rightarrow> ethernet_address list" where
  "uun3_macs n = map (\<lambda>a. ni_ethernet_address (an_interface a))
     (rt_interfaces (nt_router n) ! nt_uun3_id n # map (\<lambda>(name, h). hs_interface h) (filter (\<lambda>(name, h). name \<in> {''dm42'', ''dm43''}) (nt_hosts n)))"

lemma uun3_macs_net: "uun3_macs (net_of T P E) = map (\<lambda>p. ni_ethernet_address (an_interface (P p))) [4, 11, 12]"
  by (simp add: uun3_macs_def net_of_def port_host_def)

definition route_to :: "(nat \<Rightarrow> ethernet_address) \<Rightarrow> u32 \<Rightarrow> nat \<Rightarrow> bool" where
  "route_to M dst t \<longleftrightarrow> (\<exists>x. find_route net_table dst = Inr (Some x) \<and> rn_interface_num x < 7 \<and> joined M (rn_interface_num x) t \<and>
     (case rn_next_hop x of None \<Rightarrow> dst = port_ip t | Some h \<Rightarrow> ipv4_numeric h = Inr (port_ip t)))"

lemma routes_to:
  assumes "macs_ok M"
  shows "route_to M (port_ip 9) 9" "route_to M (port_ip 7) 7" "route_to M (port_ip 12) 12" "route_to M (quad 1 2 3 4) 8"
    "route_to M (quad 143 195 131 17) 10" "route_to M (quad 143 195 193 52) 10" "route_to M (quad 143 195 223 255) 10"
    "route_to M (quad 143 195 224 0) 8"
  using assms by (simp_all add: route_to_def net_find_route joined_def) (simp_all add: rnode_def)

lemma test_hosts_net:
  assumes "numeric_resolver gai" "numeric_namer gni" "ports M none none none P" "host_at a s (port_ip i)" "host_at b t hop" "i < 7" "joined M s i"
    "route_to M (port_ip t) t"
  shows "\<exists>g' Q. test_hosts rd gai gni a b (g, net_of net_table P none) = ((g', net_of net_table Q none), Inr ()) \<and> ports M none none none Q"
proof -
  have "hs_my_address (snd (port_host P none b t hop)) = ipv4_endpoint (port_ip t) 0" by (simp add: port_host_def)
  then show ?thesis using assms(8) test_traffic_net [OF assms(1-7)] by (auto simp: test_hosts_def find_host_net [OF assms(5)] route_to_def)
qed

lemma test_remote_net:
  assumes "numeric_resolver gai" "numeric_namer gni" "ports M none none none P" "host_at a s (port_ip i)" "host_at b t hop" "i < 7" "joined M s i"
    "route_to M dst t" "address_of_ip gai destination 0 = Inr (ipv4_endpoint dst 0)"
  shows "\<exists>g' Q. test_remote rd gai gni a destination b (g, net_of net_table P none) = ((g', net_of net_table Q none), Inr ()) \<and> ports M none none none Q"
  using assms(8,9) test_traffic_net [OF assms(1-7)] by (auto simp: test_remote_def route_to_def)

lemma hosts_at:
  "host_at ''applesauce'' 7 (port_ip 1)" "host_at ''default_router'' 8 0" "host_at ''cherrypie'' 9 (port_ip 3)" "host_at ''hs_router'' 10 0"
  "host_at ''dm42'' 11 (port_ip 4)" "host_at ''dm43'' 12 (port_ip 4)"
  by (simp_all add: host_at_def)

lemma hosts_joined: "macs_ok M \<Longrightarrow> joined M 7 1" "macs_ok M \<Longrightarrow> joined M 9 3" "macs_ok M \<Longrightarrow> joined M 11 4"
  by (simp_all add: joined_def)

lemma remote_addresses:
  assumes "numeric_resolver gai"
  shows "address_of_ip gai ''1.2.3.4'' 0 = Inr (ipv4_endpoint (quad 1 2 3 4) 0)"
    "address_of_ip gai ''143.195.131.17'' 0 = Inr (ipv4_endpoint (quad 143 195 131 17) 0)"
    "address_of_ip gai ''143.195.193.52'' 0 = Inr (ipv4_endpoint (quad 143 195 193 52) 0)"
    "address_of_ip gai ''143.195.223.255'' 0 = Inr (ipv4_endpoint (quad 143 195 223 255) 0)"
    "address_of_ip gai ''143.195.224.0'' 0 = Inr (ipv4_endpoint (quad 143 195 224 0) 0)"
  using address_of_ip_dotted [OF assms, of "quad 1 2 3 4" 0] address_of_ip_dotted [OF assms, of "quad 143 195 131 17" 0]
    address_of_ip_dotted [OF assms, of "quad 143 195 193 52" 0] address_of_ip_dotted [OF assms, of "quad 143 195 223 255" 0]
    address_of_ip_dotted [OF assms, of "quad 143 195 224 0" 0]
  by (simp_all add: quads)

text \<open>C7. The simulation succeeds: whatever random numbers are drawn, if the three interfaces on the network they share have different
  Ethernet addresses, then every datagram of the tests reaches exactly the host that expects it, through address resolution, the
  router and its table, with its time to live decremented, those with a used-up time to live reach nobody, and no call throws.\<close>

theorem network_simulator_succeeds:
  assumes "numeric_resolver gai" "numeric_namer gni" "network_new rd gai gni g = (g', Inr n)" "distinct (uun3_macs n)"
  shows "snd (network_simulator rd gai gni g) = Inr ()"
proof -
  define M where "M = net_macs rd g"
  have n: "n = net_of net_table (\<lambda>p. async_interface_of (network_interface_new (M p) (ipv4_endpoint (port_ip p) 0))) none"
    using network_new_net [OF assms(1,2), of rd g] assms(3) by (auto simp: M_def)
  let ?P = "\<lambda>p. async_interface_of (network_interface_new (M p) (ipv4_endpoint (port_ip p) 0))"
  have "uun3_macs n = [M 4, M 11, M 12]" by (simp add: n uun3_macs_net async_interface_of_def network_interface_new_def)
  then have ok: "macs_ok M" using assms(4) by (simp add: macs_ok_def M_def net_macs_ok)
  have P: "ports M none none none ?P" using port_new by (simp add: ports_def async_interface_of_def)
  note host = test_hosts_net [OF assms(1,2), where rd = rd] and remote = test_remote_net [OF assms(1,2), where rd = rd]
    and expiry = test_expiry_net [OF assms(2), where rd = rd and gai = gai]
    and joined = hosts_joined [OF ok] and dst = routes_to [OF ok] and addr = remote_addresses [OF assms(1)]
  obtain g1 P1 where 1: "test_hosts rd gai gni ''applesauce'' ''cherrypie'' (g', n) = ((g1, net_of net_table P1 none), Inr ())" "ports M none none none P1"
    using host [OF P hosts_at(1,3) _ joined(1) dst(1), of g'] n by auto
  obtain g2 P2 where 2: "test_hosts rd gai gni ''cherrypie'' ''applesauce'' (g1, net_of net_table P1 none) = ((g2, net_of net_table P2 none), Inr ())"
    "ports M none none none P2" using host [OF 1(2) hosts_at(3,1) _ joined(2) dst(2), of g1] by auto
  obtain g3 P3 where 3: "test_remote rd gai gni ''applesauce'' ''1.2.3.4'' ''default_router'' (g2, net_of net_table P2 none) =
      ((g3, net_of net_table P3 none), Inr ())" "ports M none none none P3" using remote [OF 2(2) hosts_at(1,2) _ joined(1) dst(4) addr(1), of g2] by auto
  obtain g4 P4 where 4: "test_remote rd gai gni ''applesauce'' ''143.195.131.17'' ''hs_router'' (g3, net_of net_table P3 none) =
      ((g4, net_of net_table P4 none), Inr ())" "ports M none none none P4" using remote [OF 3(2) hosts_at(1,4) _ joined(1) dst(5) addr(2), of g3] by auto
  obtain g5 P5 where 5: "test_remote rd gai gni ''cherrypie'' ''143.195.193.52'' ''hs_router'' (g4, net_of net_table P4 none) =
      ((g5, net_of net_table P5 none), Inr ())" "ports M none none none P5" using remote [OF 4(2) hosts_at(3,4) _ joined(2) dst(6) addr(3), of g4] by auto
  obtain g6 P6 where 6: "test_remote rd gai gni ''cherrypie'' ''143.195.223.255'' ''hs_router'' (g5, net_of net_table P5 none) =
      ((g6, net_of net_table P6 none), Inr ())" "ports M none none none P6" using remote [OF 5(2) hosts_at(3,4) _ joined(2) dst(7) addr(4), of g5] by auto
  obtain g7 P7 where 7: "test_remote rd gai gni ''cherrypie'' ''143.195.224.0'' ''default_router'' (g6, net_of net_table P6 none) =
      ((g7, net_of net_table P7 none), Inr ())" "ports M none none none P7" using remote [OF 6(2) hosts_at(3,2) _ joined(2) dst(8) addr(5), of g6] by auto
  obtain g8 P8 where 8: "test_hosts rd gai gni ''dm42'' ''dm43'' (g7, net_of net_table P7 none) = ((g8, net_of net_table P8 none), Inr ())"
    "ports M none none none P8" using host [OF 7(2) hosts_at(5,6) _ joined(3) dst(3), of g7] by auto
  obtain g9 P9 where 9: "test_expiry rd gai gni ''applesauce'' ''1.2.3.4'' 1 (g8, net_of net_table P8 none) = ((g9, net_of net_table P9 none), Inr ())"
    "ports M none none none P9" using expiry [OF 8(2) hosts_at(1) _ joined(1) addr(1), of 1 g8 net_table] by auto
  obtain g10 P10 where 10: "test_expiry rd gai gni ''applesauce'' ''1.2.3.4'' 0 (g9, net_of net_table P9 none) = ((g10, net_of net_table P10 none), Inr ())"
    using expiry [OF 9(2) hosts_at(1) _ joined(1) addr(1), of 0 g9 net_table] by auto
  show ?thesis by (simp add: network_simulator_def assms(3) network_tests_def call_on_def 1 2 3 4 5 6 7 8 9 10)
qed

text \<open>A generator that counts draws different addresses.\<close>

definition count_rd :: "nat generator" where
  "count_rd g = (Suc g, word_of_nat g)"

lemma count_draw: "draw_address count_rd g = (g + 6, EthernetAddress (ucast (word_of_nat g :: u32)) (ucast (word_of_nat (g + 1) :: u32))
    (ucast (word_of_nat (g + 2) :: u32)) (ucast (word_of_nat (g + 3) :: u32)) (ucast (word_of_nat (g + 4) :: u32)) (ucast (word_of_nat (g + 5) :: u32)))"
  by (simp add: draw_address_def draw_byte_def count_rd_def) (simp add: add.commute)

lemma count_next: "(next_draw count_rd ^^ k) g = g + 6 * k"
  by (induction k) (simp_all add: next_draw_def count_draw)

theorem network_simulator_succeeds_witness:
  "\<exists>g' n. network_new count_rd number_resolver number_namer 0 = (g', Inr n) \<and> distinct (uun3_macs n) \<and>
     snd (network_simulator count_rd number_resolver number_namer 0) = Inr ()"
proof -
  let ?n = "net_of net_table (\<lambda>p. async_interface_of (network_interface_new (net_macs count_rd 0 p) (ipv4_endpoint (port_ip p) 0))) none"
  obtain g' where n: "network_new count_rd number_resolver number_namer 0 = (g', Inr ?n)"
    using network_new_net [OF number_resolver_numeric number_namer_numeric, of count_rd 0] by blast
  have "distinct (uun3_macs ?n)"
    by (simp add: uun3_macs_net async_interface_of_def network_interface_new_def net_macs_def count_next count_draw)
  with network_simulator_succeeds [OF number_resolver_numeric number_namer_numeric n] n show ?thesis by blast
qed

end
