(* ===== verification/Lab7_Network.thy ===== *)
theory Lab7_Network
  imports Lab7 Network_Delivery
begin

text \<open>
  Properties of the theory \<open>Lab7\<close>: the adapter is the TAP adapter on the first end of its socket pair; the thread of the network never
  looks at the front of an empty queue, whatever frames arrive and however the calls to \<^verbatim>\<open>poll\<close> answer; and the two routers, the client's and the server's,
  hand a datagram on from host to host.
\<close>

subsection \<open>The adapter\<close>

definition as_tap :: "interface_adapter \<Rightarrow> fd_wrapper \<times> ethernet_adapter" where
  "as_tap a = (ia_first a, \<lparr>ead_base = ia_base a, ead_interface = ia_interface a, ead_next_hop = ia_next_hop a\<rparr>)"

definition tapped :: "(interface_adapter \<times> 'k) \<times> 'r \<Rightarrow> ((fd_wrapper \<times> ethernet_adapter) \<times> 'k) \<times> 'r" where
  "tapped x = ((as_tap (fst (fst x)), snd (fst x)), snd x)"

lemma ia_send_pending_tap:
  "tapped (ia_send_pending K (a, k)) = tap_send_pending K (as_tap a, k)"
  "ia_second (fst (fst (ia_send_pending K (a, k)))) = ia_second a"
  by (simp_all add: tapped_def as_tap_def ia_send_pending_def tap_send_pending_def Let_def split: prod.splits)

lemma ia_pending_eq:
  assumes "ia_send_pending K (a, k) = ((a', k'), r)"
  shows "tap_send_pending K (as_tap a, k) = ((as_tap a', k'), r)" "ia_second a' = ia_second a"
  using ia_send_pending_tap [of K a k] assms by (simp_all add: tapped_def)

lemma as_tap_update:
  "(fst (as_tap a), (snd (as_tap a))\<lparr>ead_interface := ni\<rparr>) = as_tap (a\<lparr>ia_interface := ni\<rparr>)"
  "(f, snd (as_tap a)) = as_tap (a\<lparr>ia_first := f\<rparr>)"
  by (simp_all add: as_tap_def)

lemma call_pending_tap:
  "tapped (call (a, k) r (\<lambda>_. ia_send_pending K (a, k))) = call (as_tap a, k) r (\<lambda>_. tap_send_pending K (as_tap a, k))"
  "ia_second (fst (fst (call (a, k) r (\<lambda>_. ia_send_pending K (a, k))))) = ia_second a"
  using ia_send_pending_tap [of K a k] by (cases r; simp add: tapped_def)+

lemma ia_read_tap:
  "tapped (ia_read K gai gni (a, k)) = tap_adapter_read K gai gni (as_tap a, k)"
  "ia_second (fst (fst (ia_read K gai gni (a, k)))) = ia_second a"
proof -
  obtain f k1 r where rd: "fd_read K SIZE_MAX (ia_first a, k) = ((f, k1), r)" by (metis prod.exhaust)
  have "tapped (ia_read K gai gni (a, k)) = tap_adapter_read K gai gni (as_tap a, k) \<and> ia_second (fst (fst (ia_read K gai gni (a, k)))) = ia_second a"
  proof (cases r)
    case (Inl e)
    then show ?thesis by (simp add: ia_read_def tap_adapter_read_def tapped_def as_tap_def rd)
  next
    case (Inr bs)
    obtain res frame where p: "ethernet_frame_parse bs ethernet_frame_new = (res, frame)" by fastforce
    obtain ni d where d: "recv_frame (ia_interface a) frame = (ni, d)" by fastforce
    let ?a = "a\<lparr>ia_first := f, ia_interface := ni\<rparr>"
    obtain a2 k2 r2 where t: "ia_send_pending K (?a, k1) = ((a2, k2), r2)" by (metis prod.exhaust)
    note t' = ia_pending_eq [OF t]
    have tap: "tap_send_pending K ((f, \<lparr>ead_base = ia_base a, ead_interface = ni, ead_next_hop = ia_next_hop a\<rparr>), k1) = ((as_tap a2, k2), r2)"
      using t'(1) by (simp add: as_tap_def)
    show ?thesis
    proof (cases "res = NoError")
      case False
      then show ?thesis using rd Inr p by (simp add: ia_read_def tap_adapter_read_def tapped_def as_tap_def)
    next
      case res: True
      show ?thesis
      proof (cases d)
        case (Inl e)
        then show ?thesis using rd Inr p d res by (simp add: ia_read_def tap_adapter_read_def tapped_def as_tap_def)
      next
        case od: (Inr od)
        then show ?thesis using rd Inr p d res t tap t'(2)
          by (cases r2; cases od)
            (simp_all add: ia_read_def tap_adapter_read_def tapped_def as_tap_def Let_def split: prod.splits)
      qed
    qed
  qed
  then show "tapped (ia_read K gai gni (a, k)) = tap_adapter_read K gai gni (as_tap a, k)"
    "ia_second (fst (fst (ia_read K gai gni (a, k)))) = ia_second a" by auto
qed

lemma ia_write_tap:
  "(fst (ia_write K gni seg (a, k)), tapped (snd (ia_write K gni seg (a, k)))) = tap_adapter_write K gni seg (as_tap a, k)"
  "ia_second (fst (fst (snd (ia_write K gni seg (a, k))))) = ia_second a"
proof -
  obtain seg1 x where w: "wrap_tcp_in_ip gni (ia_base a) seg = (seg1, x)" by fastforce
  obtain ni m where m: "send_datagram (ia_interface a) (projr x) (ia_next_hop a) = (ni, m)" by fastforce
  show "(fst (ia_write K gni seg (a, k)), tapped (snd (ia_write K gni seg (a, k)))) = tap_adapter_write K gni seg (as_tap a, k)"
    "ia_second (fst (fst (snd (ia_write K gni seg (a, k))))) = ia_second a"
    using call_pending_tap [of "a\<lparr>ia_interface := ni\<rparr>" k m K] w m
    by (cases x; simp add: ia_write_def tap_adapter_write_def as_tap_def tapped_def Let_def)+
qed

lemma ia_tick_tap:
  "tapped (ia_tick K ms (a, k)) = tap_adapter_tick K ms (as_tap a, k)"
  "ia_second (fst (fst (ia_tick K ms (a, k)))) = ia_second a"
proof -
  obtain ni m where m: "ni_tick (ia_interface a) ms = (ni, m)" by fastforce
  show "tapped (ia_tick K ms (a, k)) = tap_adapter_tick K ms (as_tap a, k)" "ia_second (fst (fst (ia_tick K ms (a, k)))) = ia_second a"
    using call_pending_tap [of "a\<lparr>ia_interface := ni\<rparr>" k m K] m
    by (simp_all add: ia_tick_def tap_adapter_tick_def as_tap_def Let_def)
qed

text \<open>C27. The adapter of the application is the TAP adapter of the library on the first end of its socket pair: reading, writing and
  ticking have the same result, the same exception and the same effect on the system, and leave the second end, which belongs to the router's
  thread, alone.\<close>

theorem lab7_adapter_is_tap:
  "tapped (ia_read K gai gni (a, k)) = tap_adapter_read K gai gni (as_tap a, k) \<and>
   (fst (ia_write K gni seg (a, k)), tapped (snd (ia_write K gni seg (a, k)))) = tap_adapter_write K gni seg (as_tap a, k) \<and>
   tapped (ia_tick K ms (a, k)) = tap_adapter_tick K ms (as_tap a, k) \<and>
   ia_second (fst (fst (ia_read K gai gni (a, k)))) = ia_second a \<and>
   ia_second (fst (fst (snd (ia_write K gni seg (a, k))))) = ia_second a \<and>
   ia_second (fst (fst (ia_tick K ms (a, k)))) = ia_second a"
  by (simp only: ia_read_tap ia_write_tap ia_tick_tap simp_thms)

text \<open>So it keeps the contract of an adapter, and the theorems on \<open>Sponge_Socket\<close> hold of this socket.\<close>

lemma ia_ops_spec:
  assumes io: "io_spec K got sent"
  shows "adapter_spec (ia_ops K gai gni) got sent"
proof (rule adapter_specI)
  note tap = tap_ops_spec [OF io, of gai gni]
  show "fw_fd (at_fd (ia_ops K gai gni) a') = fw_fd (at_fd (ia_ops K gai gni) a) \<and> quiet_but (fw_fd (at_fd (ia_ops K gai gni) a)) got sent k k'"
    if "at_read (ia_ops K gai gni) (a, k) = ((a', k'), r)" for a k a' k' r
    using adapter_specD(1) [OF tap, of "as_tap a" k "as_tap a'" k' r] that ia_read_tap(1) [of K gai gni a k]
    by (simp add: ia_ops_def tap_ops_def tapped_def as_tap_def)
  show "fw_fd (at_fd (ia_ops K gai gni) a') = fw_fd (at_fd (ia_ops K gai gni) a) \<and>
      quiet_but (fw_fd (at_fd (ia_ops K gai gni) a)) got sent k k' \<and> (\<exists>sp dp. seg' = with_ports sp dp seg)"
    if "at_write (ia_ops K gai gni) seg (a, k) = (seg', (a', k'), r)" for a k a' k' seg seg' r
    using adapter_specD(2) [OF tap, of seg "as_tap a" k seg' "as_tap a'" k' r] that ia_write_tap(1) [of K gni seg a k]
    by (simp add: ia_ops_def tap_ops_def tapped_def as_tap_def)
  show "fw_fd (at_fd (ia_ops K gai gni) a') = fw_fd (at_fd (ia_ops K gai gni) a) \<and> quiet_but (fw_fd (at_fd (ia_ops K gai gni) a)) got sent k k'"
    if "at_tick (ia_ops K gai gni) ms (a, k) = ((a', k'), r)" for a k a' k' ms r
    using adapter_specD(3) [OF tap, of ms "as_tap a" k "as_tap a'" k' r] that ia_tick_tap(1) [of K ms a k]
    by (simp add: ia_ops_def tap_ops_def tapped_def as_tap_def)
qed

subsection \<open>Steps that have a meaning, and queues of frames that only grow\<close>

definition defined_exn :: "exn \<Rightarrow> bool" where
  "defined_exn e \<longleftrightarrow> (\<forall>m. e \<noteq> Undefined_behaviour m)"

definition no_ub :: "exn + 'a \<Rightarrow> bool" where
  "no_ub r \<longleftrightarrow> (\<forall>m. r \<noteq> Inl (Undefined_behaviour m))"

named_theorems defined "operations that never end in undefined behaviour"

lemma no_ub_simps [simp]: "no_ub (Inr x)" "no_ub (Inl e) \<longleftrightarrow> defined_exn e"
  "defined_exn (Runtime_error m)" "defined_exn (Unix_error m n)" "defined_exn (Length_error m)" "defined_exn (Out_of_range m)"
  by (auto simp: no_ub_def defined_exn_def)

lemma definedD: "no_ub r \<Longrightarrow> r = Inl e \<Longrightarrow> defined_exn e"
  by simp

lemma system_call_defined [defined]: "no_ub (SystemCall a r m)"
  by (simp add: SystemCall_def Let_def split: prod.splits)

lemma address_of_sockaddr_defined [defined]: "no_ub (address_of_sockaddr b)"
  by (simp add: address_of_sockaddr_def)

lemma address_of_ip_defined [defined]: "no_ub (address_of_ip gai ip p)"
  using address_of_sockaddr_defined by (auto simp: address_of_ip_def address_resolve_def Let_def split: prod.splits option.splits)

lemma ipv4_numeric_defined [defined]: "no_ub (ipv4_numeric a)"
  by (simp add: ipv4_numeric_def)

lemma ipv4_header_serialize_defined [defined]: "no_ub (ipv4_header_serialize h)"
  by (simp add: ipv4_header_serialize_def Let_def)

lemma ipv4_datagram_serialize_defined [defined]: "no_ub (ipv4_datagram_serialize d)"
  by (auto simp: ipv4_datagram_serialize_def Let_def split: sum.splits dest: definedD [OF ipv4_header_serialize_defined])

lemma arp_message_serialize_defined [defined]: "no_ub (arp_message_serialize m)"
  by (simp add: arp_message_serialize_def Let_def)

lemma defined_call: "no_ub r \<Longrightarrow> (\<And>x. r = Inr x \<Longrightarrow> no_ub (snd (f x))) \<Longrightarrow> no_ub (snd (call s r f))"
  by (cases r) simp_all

lemma fd_read_defined [defined]: "no_ub (snd (fd_read K limit s))"
  by (auto simp: fd_read_def Let_def intro!: defined_call defined split: prod.splits)

lemma bvl_remove_prefix_defined [defined]: "no_ub (bvl_remove_prefix n vs)"
  by (induction n vs rule: bvl_remove_prefix.induct) simp_all

lemma fd_write_loop_defined: "no_ub (snd (fd_write_loop K all n buffer f k))"
proof (induction K all n buffer f k rule: fd_write_loop.induct)
  case (1 K write_all n buffer f k)
  obtain k1 r where w: "k_writev K (fw_fd f) (as_iovecs buffer) k = (k1, r)" by (rule prod.exhaust)
  show ?case
  proof (cases "SystemCall ''writev'' r 0")
    case (Inl e)
    then show ?thesis using system_call_defined [of "''writev''" r 0] w by (subst fd_write_loop.simps) simp
  next
    case (Inr v)
    then show ?thesis using "1.IH" w bvl_remove_prefix_defined [of "to_size v" buffer]
      by (subst fd_write_loop.simps) (auto simp: Let_def split: sum.splits)
  qed
qed

lemma fd_write_defined [defined]: "no_ub (snd (fd_write K buffer all s))"
  by (simp add: fd_write_def fd_write_loop_defined)

lemma udp_sendto_defined [defined]: "no_ub (snd (udp_sendto K dst payload s))"
proof -
  have "no_ub (snd (sendmsg_helper K fd addr payload k))" for fd addr k
    by (auto simp: sendmsg_helper_def Let_def intro!: defined_call defined split: prod.splits)
  then show ?thesis by (auto simp: udp_sendto_def Let_def intro!: defined_call split: prod.splits) (metis snd_conv)
qed

lemma frames_send:
  "prefix (ni_frames_out ni) (ni_frames_out (fst (send_datagram ni d hop))) \<and> no_ub (snd (send_datagram ni d hop))"
proof (cases "ipv4_datagram_serialize d")
  case (Inl e)
  then show ?thesis using ipv4_datagram_serialize_defined [of d] by (simp add: send_datagram_throws)
next
  case pl: (Inr pl)
  show ?thesis
  proof (cases "ipv4_numeric hop")
    case (Inl e)
    then show ?thesis using ipv4_numeric_defined [of hop] pl by (simp add: send_datagram_throws)
  next
    case (Inr nh)
    then show ?thesis using pl
      by (auto simp: send_datagram_def Let_def push_frame_def split: option.splits sum.splits
          dest: definedD [OF ipv4_numeric_defined] definedD [OF arp_message_serialize_defined])
  qed
qed

lemma frames_recv:
  "prefix (ni_frames_out ni) (ni_frames_out (fst (recv_frame ni f))) \<and> no_ub (snd (recv_frame ni f))"
proof -
  have "prefix (ni_frames_out ni) (ni_frames_out (fst (recv_arp ni m))) \<and> no_ub (snd (recv_arp ni m))" for m
    by (auto simp: recv_arp_def Let_def push_frames_eq split: option.splits sum.splits if_splits
        dest: definedD [OF ipv4_numeric_defined] definedD [OF arp_message_serialize_defined])
  then show ?thesis by (auto simp: recv_frame_def Let_def split: prod.splits sum.splits) (metis fst_conv snd_conv no_ub_simps(2))+
qed

subsection \<open>The router's queues\<close>

definition out_frames :: "router \<Rightarrow> nat \<Rightarrow> ethernet_frame list" where
  "out_frames r i = ni_frames_out (an_interface (rt_interfaces r ! i))"

definition grows :: "router \<Rightarrow> router \<Rightarrow> bool" where
  "grows r r' \<longleftrightarrow> length (rt_interfaces r') = length (rt_interfaces r) \<and> rt_rout_map r' = rt_rout_map r \<and>
     (\<forall>i < length (rt_interfaces r). prefix (out_frames r i) (out_frames r' i))"

definition valid_router :: "router \<Rightarrow> bool" where
  "valid_router r \<longleftrightarrow> (\<forall>x \<in> set (rt_rout_map r). rn_prefix_length x \<le> 32 \<and> rn_interface_num x < length (rt_interfaces r))"

lemma grows_refl [simp]: "grows r r"
  by (simp add: grows_def)

lemma grows_trans: "grows a b \<Longrightarrow> grows b c \<Longrightarrow> grows a c"
  unfolding grows_def by (metis prefix_order.trans)

lemma grows_valid: "grows r r' \<Longrightarrow> valid_router r' = valid_router r"
  by (simp add: grows_def valid_router_def)

lemma grows_update:
  assumes "prefix (out_frames r i) (ni_frames_out (an_interface a))"
  shows "grows r (r\<lparr>rt_interfaces := (rt_interfaces r)[i := a]\<rparr>)"
  using assms by (cases "i < length (rt_interfaces r)") (auto simp: grows_def out_frames_def nth_list_update list_update_beyond)

lemma grows_set_queue: "grows r (set_queue i q r)"
  unfolding set_queue_def by (rule grows_update) (simp add: out_frames_def)

lemma send_on_grows:
  assumes "i < length (rt_interfaces r)"
  shows "grows r (fst (send_on r i d hop)) \<and> no_ub (snd (send_on r i d hop))"
proof -
  obtain ni res where s: "send_datagram (an_interface (rt_interfaces r ! i)) d hop = (ni, res)" by fastforce
  have "prefix (out_frames r i) (ni_frames_out ni)" "no_ub res"
    using frames_send [of "an_interface (rt_interfaces r ! i)" d hop] s by (simp_all add: out_frames_def)
  then show ?thesis using assms s by (simp add: send_on_def Let_def grows_update)
qed

lemma route_one_grows:
  assumes "valid_router r" "route_one_datagram gai r d = (r', d', res)"
  shows "grows r r' \<and> no_ub res"
proof (cases "ih_ttl (dg_header d) \<le> 1")
  case True
  then show ?thesis using assms(2) by (auto simp: route_one_datagram_def)
next
  case False
  let ?d = "d\<lparr>dg_header := (dg_header d)\<lparr>ih_ttl := ih_ttl (dg_header d) - 1\<rparr>\<rparr>" and ?ip = "ih_dst (dg_header d)"
  have f: "find_route (rt_rout_map r) ?ip = Inr (find (rmatch ?ip) (rt_rout_map r))"
    using assms(1) by (intro find_route_eq) (simp add: valid_router_def)
  show ?thesis
  proof (cases "find (rmatch ?ip) (rt_rout_map r)")
    case None
    then show ?thesis using assms(2) False f by (auto simp: route_one_datagram_def)
  next
    case (Some x)
    have "x \<in> set (rt_rout_map r)" using Some by (auto simp: find_Some_iff)
    then have i: "rn_interface_num x < length (rt_interfaces r)" using assms(1) by (simp add: valid_router_def)
    let ?hop = "case rn_next_hop x of Some h \<Rightarrow> Inr h | None \<Rightarrow> address_of_ip gai (to_string (unat ?ip)) 0"
    have hop: "no_ub ?hop" using address_of_ip_defined by (simp split: option.split)
    show ?thesis
    proof (cases ?hop)
      case (Inl e)
      then show ?thesis using assms(2) False f Some hop by (auto simp: route_one_datagram_def Let_def cong: option.case_cong)
    next
      case (Inr h)
      then show ?thesis using assms(2) False f Some send_on_grows [OF i, of ?d h]
        by (auto simp: route_one_datagram_def Let_def split: prod.splits cong: option.case_cong)
    qed
  qed
qed

lemma route_queue_grows:
  "valid_router r \<Longrightarrow> grows r (fst (route_queue gai i r)) \<and> no_ub (snd (route_queue gai i r))"
proof (induction gai i r rule: route_queue.induct)
  case (1 gai i r)
  show ?case
  proof (cases "i < length (rt_interfaces r) \<and> queue_of r i \<noteq> []")
    case False
    then have "route_queue gai i r = (r, Inr ())" by (subst route_queue.simps) auto
    then show ?thesis by simp
  next
    case True
    obtain r1 d res where o: "route_one_datagram gai r (hd (queue_of r i)) = (r1, d, res)" by (rule prod_cases3)
    note g = route_one_grows [OF "1.prems" o]
    show ?thesis
    proof (cases res)
      case (Inl e)
      then have "route_queue gai i r = (set_queue i (d # tl (queue_of r1 i)) r1, Inl e)" using True o by (subst route_queue.simps) simp
      then show ?thesis using g Inl grows_trans [OF _ grows_set_queue] by simp
    next
      case (Inr u)
      let ?r = "set_queue i (tl (queue_of r1 i)) r1"
      have gr: "grows r ?r" using g grows_trans [OF _ grows_set_queue] by blast
      have "grows ?r (fst (route_queue gai i ?r)) \<and> no_ub (snd (route_queue gai i ?r))"
        using "1.IH" [OF True o [symmetric] refl] Inr grows_valid [OF gr] "1.prems" by simp
      moreover have "route_queue gai i r = route_queue gai i ?r" using True o Inr by (subst route_queue.simps) simp
      ultimately show ?thesis using grows_trans [OF gr] by simp
    qed
  qed
qed

lemma route_from_grows:
  "valid_router r \<Longrightarrow> grows r (fst (route_from gai is' r)) \<and> no_ub (snd (route_from gai is' r))"
proof (induction is' arbitrary: r)
  case (Cons i is')
  obtain r1 res where q: "route_queue gai i r = (r1, res)" by fastforce
  have g: "grows r r1" "no_ub res" using route_queue_grows [OF Cons.prems, of gai i] q by simp_all
  then show ?case using Cons.IH [of r1] grows_valid [OF g(1)] Cons.prems q grows_trans [OF g(1)] by (cases res) auto
qed simp

lemma router_receive_grows:
  assumes "valid_router r" "side < length (rt_interfaces r)"
  shows "grows r (fst (router_receive gai side frame r)) \<and> no_ub (snd (router_receive gai side frame r))"
proof -
  let ?a = "rt_interfaces r ! side"
  obtain ni d where d: "recv_frame (an_interface ?a) frame = (ni, d)" by fastforce
  have f: "prefix (out_frames r side) (ni_frames_out ni)" "no_ub d"
    using frames_recv [of "an_interface ?a" frame] d by (simp_all add: out_frames_def)
  obtain a res where a: "an_recv_frame ?a frame = (a, res)" "an_interface a = ni" "no_ub res"
    using d f(2) by (cases d; cases "projr d") (auto simp: an_recv_frame_def Let_def)
  let ?r = "r\<lparr>rt_interfaces := (rt_interfaces r)[side := a]\<rparr>"
  have g: "grows r ?r" using f(1) a(2) by (intro grows_update) simp
  have "grows ?r (fst (route gai ?r)) \<and> no_ub (snd (route gai ?r))"
    unfolding route_def using grows_valid [OF g] assms(1) by (intro route_from_grows) simp
  then show ?thesis using assms(2) a g grows_trans [OF g] by (cases res) (auto simp: router_receive_def rt_interface_def)
qed

subsection \<open>The thread of the network\<close>

definition lab7_inv :: "nat \<Rightarrow> nat \<Rightarrow> 'k lab7 \<Rightarrow> bool" where
  "lab7_inv host_side internet_side s \<longleftrightarrow> valid_router (l7_router s) \<and> host_side \<noteq> internet_side \<and>
     host_side < length (rt_interfaces (l7_router s)) \<and> internet_side < length (rt_interfaces (l7_router s))"

lemma frames_waiting_eq: "side < length (rt_interfaces (l7_router s)) \<Longrightarrow> frames_waiting side s = Inr (out_frames (l7_router s) side \<noteq> [])"
  by (simp add: frames_waiting_def router_frames_def rt_interface_def out_frames_def)

lemma grows_inv:
  fixes s s' :: "'k lab7"
  shows "lab7_inv h i s \<Longrightarrow> grows (l7_router s) (l7_router s') \<Longrightarrow> lab7_inv h i s'"
  using grows_valid [of "l7_router s" "l7_router s'"] by (auto simp: lab7_inv_def grows_def)

lemma grows_waiting:
  fixes s s' :: "'k lab7"
  assumes "side < length (rt_interfaces (l7_router s))" "grows (l7_router s) (l7_router s')" "frames_waiting side s = Inr True"
  shows "frames_waiting side s' = Inr True"
  using assms by (auto simp: frames_waiting_eq grows_def)

lemma received_frame_grows:
  assumes "valid_router (l7_router s)" "side < length (rt_interfaces (l7_router s))"
  shows "grows (l7_router s) (l7_router (fst (received_frame gai side bs s))) \<and> no_ub (snd (received_frame gai side bs s))"
  using router_receive_grows [OF assms] by (auto simp: received_frame_def Let_def split: prod.splits) (metis fst_conv snd_conv)+

lemma in_callbacks:
  assumes "valid_router (l7_router s)" "side < length (rt_interfaces (l7_router s))"
  shows "grows (l7_router s) (l7_router (fst (host_to_router K gai side s))) \<and> no_ub (snd (host_to_router K gai side s))"
    "grows (l7_router s) (l7_router (fst (internet_to_router K gai side s))) \<and> no_ub (snd (internet_to_router K gai side s))"
proof -
  obtain f k r where rd: "fd_read K SIZE_MAX (l7_frame_fd s, l7_sys s) = ((f, k), r)" by (metis prod.exhaust)
  have "no_ub r" using fd_read_defined [of K SIZE_MAX "(l7_frame_fd s, l7_sys s)"] rd by simp
  then show "grows (l7_router s) (l7_router (fst (host_to_router K gai side s))) \<and> no_ub (snd (host_to_router K gai side s))"
    using received_frame_grows [of "s\<lparr>l7_frame_fd := f, l7_sys := k\<rparr>" side gai] assms rd by (cases r) (auto simp: host_to_router_def)
next
  obtain f k r where rd: "fd_read K SIZE_MAX (l7_internet_socket s, l7_sys s) = ((f, k), r)" by (metis prod.exhaust)
  have "no_ub r" using fd_read_defined [of K SIZE_MAX "(l7_internet_socket s, l7_sys s)"] rd by simp
  then show "grows (l7_router s) (l7_router (fst (internet_to_router K gai side s))) \<and> no_ub (snd (internet_to_router K gai side s))"
    using received_frame_grows [of "s\<lparr>l7_internet_socket := f, l7_sys := k\<rparr>" side gai] assms rd by (cases r) (auto simp: internet_to_router_def)
qed

text \<open>A callback that sends pops at most the front of its own queue.\<close>

definition pops :: "nat \<Rightarrow> router \<Rightarrow> router \<Rightarrow> bool" where
  "pops side r r' \<longleftrightarrow> r' = r \<or> r' = router_pop_frame side r"

lemma out_callbacks:
  assumes "side < length (rt_interfaces (l7_router s))" "frames_waiting side s = Inr True"
  shows "pops side (l7_router s) (l7_router (fst (router_to_host K side s))) \<and> no_ub (snd (router_to_host K side s))"
    "pops side (l7_router s) (l7_router (fst (router_to_internet K bounce side s))) \<and> no_ub (snd (router_to_internet K bounce side s))"
proof -
  let ?fs = "out_frames (l7_router s) side"
  have fs: "router_frames (l7_router s) side = Inr ?fs" "?fs \<noteq> []"
    using assms by (simp_all add: router_frames_def rt_interface_def out_frames_def frames_waiting_def)
  obtain f k r where w: "fd_write K [ethernet_frame_serialize (hd ?fs)] True (l7_frame_fd s, l7_sys s) = ((f, k), r)" by (metis prod.exhaust)
  have "no_ub r" using fd_write_defined [of K "[ethernet_frame_serialize (hd ?fs)]" True "(l7_frame_fd s, l7_sys s)"] w by simp
  then show "pops side (l7_router s) (l7_router (fst (router_to_host K side s))) \<and> no_ub (snd (router_to_host K side s))"
    using fs w by (cases r) (auto simp: router_to_host_def pops_def)
  obtain f k r where w: "udp_sendto K bounce [ethernet_frame_serialize (hd ?fs)] (l7_internet_socket s, l7_sys s) = ((f, k), r)" by (metis prod.exhaust)
  have "no_ub r" using udp_sendto_defined [of K bounce "[ethernet_frame_serialize (hd ?fs)]" "(l7_internet_socket s, l7_sys s)"] w by simp
  then show "pops side (l7_router s) (l7_router (fst (router_to_internet K bounce side s))) \<and> no_ub (snd (router_to_internet K bounce side s))"
    using fs w by (cases r) (auto simp: router_to_internet_def pops_def)
qed

lemma pops_inv:
  fixes s s' :: "'k lab7"
  shows "lab7_inv h i s \<Longrightarrow> pops side (l7_router s) (l7_router s') \<Longrightarrow> lab7_inv h i s'"
  by (auto simp: pops_def lab7_inv_def router_pop_frame_def Let_def valid_router_def)

lemma pops_waiting:
  fixes s s' :: "'k lab7"
  assumes "pops side (l7_router s) (l7_router s')" "other \<noteq> side" "other < length (rt_interfaces (l7_router s))" "frames_waiting other s = Inr True"
  shows "frames_waiting other s' = Inr True"
  using assms by (auto simp: frames_waiting_eq pops_def router_pop_frame_def Let_def out_frames_def)

lemma lab7_rules_cases:
  assumes "r \<in> set (lab7_rules K gai b h i)"
  obtains (Host_In) "ru_callback r = host_to_router K gai h" "ru_interest r = always" "ru_cancel r = no_cancel" "ru_fd r = l7_frame_fd" "ru_direction r = Dir_In"
    | (Host_Out) "ru_callback r = router_to_host K h" "ru_interest r = frames_waiting h" "ru_cancel r = no_cancel" "ru_fd r = l7_frame_fd" "ru_direction r = Dir_Out"
    | (Net_Out) "ru_callback r = router_to_internet K b i" "ru_interest r = frames_waiting i" "ru_cancel r = no_cancel" "ru_fd r = l7_internet_socket" "ru_direction r = Dir_Out"
    | (Net_In) "ru_callback r = internet_to_router K gai i" "ru_interest r = always" "ru_cancel r = no_cancel" "ru_fd r = l7_internet_socket" "ru_direction r = Dir_In"
  using assms by (auto simp: lab7_rules_def add_rule_def)

lemma lab7_invD:
  assumes "lab7_inv h i s"
  shows "valid_router (l7_router s)" "h \<noteq> i" "h < length (rt_interfaces (l7_router s))" "i < length (rt_interfaces (l7_router s))"
  using assms by (simp_all add: lab7_inv_def)

lemma lab7_callback:
  assumes "r \<in> set (lab7_rules K gai b h i)" "lab7_inv h i s" "ru_interest r s = Inr True"
  shows "lab7_inv h i (fst (ru_callback r s)) \<and> no_ub (snd (ru_callback r s))"
  using assms(1)
proof (cases rule: lab7_rules_cases)
  case Host_In
  then show ?thesis using in_callbacks(1) [OF lab7_invD(1,3) [OF assms(2)], where K = K and gai = gai] grows_inv [OF assms(2)] by simp
next
  case Host_Out
  then show ?thesis using out_callbacks(1) [OF lab7_invD(3) [OF assms(2)], where K = K] pops_inv [OF assms(2)] assms(3) by auto
next
  case Net_Out
  then show ?thesis using out_callbacks(2) [OF lab7_invD(4) [OF assms(2)], where K = K and bounce = b] pops_inv [OF assms(2)] assms(3) by auto
next
  case Net_In
  then show ?thesis using in_callbacks(2) [OF lab7_invD(1,4) [OF assms(2)], where K = K and gai = gai] grows_inv [OF assms(2)] by simp
qed

lemma lab7_fds_differ: "(l7_frame_fd :: 'k lab7 \<Rightarrow> fd_wrapper) \<noteq> l7_internet_socket"
proof
  assume eq: "(l7_frame_fd :: 'k lab7 \<Rightarrow> fd_wrapper) = l7_internet_socket"
  fix s :: "'k lab7" and f :: fd_wrapper
  have "fw_fd (l7_frame_fd (s\<lparr>l7_frame_fd := f\<lparr>fw_fd := 0\<rparr>, l7_internet_socket := f\<lparr>fw_fd := 1\<rparr>\<rparr>)) = 1" by (subst eq) simp
  then show False by simp
qed

lemma lab7_rules_distinct: "distinct (lab7_rules K gai b h i)"
  using lab7_fds_differ lab7_fds_differ [symmetric] by (auto simp: lab7_rules_def add_rule_def)

lemma lab7_callback_waits:
  assumes "r \<in> set (lab7_rules K gai b h i)" "lab7_inv h i s" "ru_interest r s = Inr True" "frames_waiting j s = Inr True"
    and "j = h \<and> \<not> (ru_fd r = l7_frame_fd \<and> ru_direction r = Dir_Out) \<or> j = i \<and> \<not> (ru_fd r = l7_internet_socket \<and> ru_direction r = Dir_Out)"
  shows "frames_waiting j (fst (ru_callback r s)) = Inr True"
proof -
  note i = lab7_invD [OF assms(2)]
  have j: "j < length (rt_interfaces (l7_router s))" using assms(5) i by blast
  show ?thesis using assms(1)
  proof (cases rule: lab7_rules_cases)
    case Host_In
    then show ?thesis using in_callbacks(1) [OF i(1,3), where K = K and gai = gai] grows_waiting [OF j _ assms(4)] by simp
  next
    case Host_Out
    then show ?thesis using out_callbacks(1) [OF i(3), where K = K] pops_waiting [OF _ _ j assms(4), of h] assms(3,5) i(2) by auto
  next
    case Net_Out
    then show ?thesis using out_callbacks(2) [OF i(4), where K = K and bounce = b] pops_waiting [OF _ _ j assms(4), of i] assms(3,5) i(2) by auto
  next
    case Net_In
    then show ?thesis using in_callbacks(2) [OF i(1,4), where K = K and gai = gai] grows_waiting [OF j _ assms(4)] by simp
  qed
qed

lemma lab7_callback_guard:
  assumes "r \<in> set (lab7_rules K gai b h i)" "r' \<in> set (lab7_rules K gai b h i)" "r \<noteq> r'" "lab7_inv h i s"
    "ru_interest r s = Inr True" "ru_interest r' s = Inr True"
  shows "ru_interest r' (fst (ru_callback r s)) = Inr True"
  using assms(2)
proof (cases rule: lab7_rules_cases)
  case Host_Out
  then have "\<not> (ru_fd r = l7_frame_fd \<and> ru_direction r = Dir_Out)"
    using assms(1,3) lab7_fds_differ [symmetric] by (auto elim!: lab7_rules_cases intro: rule.equality)
  then show ?thesis using lab7_callback_waits [OF assms(1,4,5), of h] Host_Out assms(6) by simp
next
  case Net_Out
  then have "\<not> (ru_fd r = l7_internet_socket \<and> ru_direction r = Dir_Out)"
    using assms(1,3) lab7_fds_differ by (auto elim!: lab7_rules_cases intro: rule.equality)
  then show ?thesis using lab7_callback_waits [OF assms(1,4,5), of i] Net_Out assms(6) by simp
qed (simp_all add: always_def)

interpretation lab7_thread: guarded_exceptions "\<lambda>r. r \<in> set (lab7_rules K gai b h i)" "lab7_inv h i" "\<lambda>r s. ru_interest r s = Inr True"
    "lab7_poll K" defined_exn
  for K :: "('k, 'z) sys_scheme" and gai b h i
proof (unfold_locales, goal_cases)
  case (2 r s)
  then show ?case using lab7_callback by blast
next
  case (3 r r' s)
  then show ?case using lab7_callback_guard by blast
next
  case (4 r s)
  then show ?case by (elim lab7_rules_cases) (simp_all add: no_cancel_def)
next
  case (5 r r' s)
  then show ?case by (elim lab7_rules_cases [of r]) (simp_all add: no_cancel_def)
next
  case (6 s ps t s' a)
  then show ?case by (auto simp: lab7_poll_def lab7_inv_def Let_def split: prod.splits)
next
  case (7 s ps t s' a r)
  have "l7_router s' = l7_router s" using 7(2) by (auto simp: lab7_poll_def Let_def split: prod.splits)
  then show ?case using 7(3,4) by (elim lab7_rules_cases) (simp_all add: always_def frames_waiting_def)
next
  case (9 r s e)
  then show ?case using lab7_invD [OF 9(2)] by (elim lab7_rules_cases) (simp_all add: always_def frames_waiting_eq)
next
  case (10 r s s' e)
  then show ?case using lab7_callback [OF 10(1-3)] by simp
next
  case (11 r s s' e)
  then show ?case by (elim lab7_rules_cases) (simp_all add: no_cancel_def)
qed simp_all

text \<open>What the thread reaches, iteration by iteration.\<close>

inductive lab7_reaches :: "('k, 'z) sys_scheme \<Rightarrow> resolver \<Rightarrow> ('k \<Rightarrow> bool) \<Rightarrow> address \<Rightarrow> nat \<Rightarrow> nat \<Rightarrow> 'k lab7 \<Rightarrow>
    'k lab7 rule list \<times> 'k lab7 \<Rightarrow> bool"
  for K gai exit_flag b h i s0 where
  Start: "lab7_reaches K gai exit_flag b h i s0 (lab7_rules K gai b h i, s0)"
| Iterate: "lab7_reaches K gai exit_flag b h i s0 x \<Longrightarrow> lab7_iteration K exit_flag h i x = (x', Inr True) \<Longrightarrow>
    lab7_reaches K gai exit_flag b h i s0 x'"

lemma router_tick_eq:
  "side < length (rt_interfaces r) \<Longrightarrow> router_tick side ms r =
   (r\<lparr>rt_interfaces := (rt_interfaces r)[side := (rt_interfaces r ! side)\<lparr>an_interface := fst (ni_tick (an_interface (rt_interfaces r ! side)) ms)\<rparr>]\<rparr>,
    snd (ni_tick (an_interface (rt_interfaces r ! side)) ms))"
  by (simp add: router_tick_def rt_interface_def split: prod.splits)

lemma router_tick_grows:
  assumes "side < length (rt_interfaces r)"
  shows "grows r (fst (router_tick side ms r))"
  unfolding router_tick_eq [OF assms] fst_conv by (rule grows_update) (simp add: out_frames_def)

definition erased_element :: exn where
  "erased_element = Undefined_behaviour ''range-for loop over map_time continues from an erased element''"

lemma router_tick_exn:
  "side < length (rt_interfaces r) \<Longrightarrow> snd (router_tick side ms r) = Inl e \<Longrightarrow> e = erased_element"
  by (auto simp: router_tick_eq ni_tick_def Let_def erased_element_def split: if_splits)

lemma lab7_iteration_sound:
  assumes "lab7_iteration K exit_flag h i (rules, s) = ((rules', s'), res)"
    and "distinct rules" "set rules \<subseteq> set (lab7_rules K gai b h i)" "lab7_inv h i s"
  shows "lab7_inv h i s' \<and> distinct rules' \<and> set rules' \<subseteq> set (lab7_rules K gai b h i) \<and> (\<forall>e. res = Inl e \<longrightarrow> defined_exn e \<or> e = erased_element)"
proof -
  obtain rules1 s1 r where w: "wait_next_event (lab7_poll K) 50 (rules, s) = ((rules1, s1), r)" by (metis prod.exhaust)
  have ok: "\<forall>r \<in> set rules. r \<in> set (lab7_rules K gai b h i)" using assms(3) by blast
  note k = lab7_thread.wait_keeps [OF w assms(2) ok assms(4)]
  have e: "r = Inl e \<Longrightarrow> defined_exn e" for e using lab7_thread.wait_exn [OF _ assms(2) ok assms(4)] w by metis
  let ?t1 = "router_tick h 50 (l7_router s1)"
  let ?s1 = "s1\<lparr>l7_router := fst ?t1\<rparr>"
  let ?t2 = "router_tick i 50 (l7_router ?s1)"
  let ?s2 = "?s1\<lparr>l7_router := fst ?t2\<rparr>"
  have i1: "lab7_inv h i ?s1" using grows_inv [OF k(1)] router_tick_grows [OF lab7_invD(3) [OF k(1)]] by simp
  have i2: "lab7_inv h i ?s2" using grows_inv [OF i1] router_tick_grows [OF lab7_invD(4) [OF i1]] by simp
  have x: "snd ?t1 = Inl e \<Longrightarrow> e = erased_element" "snd ?t2 = Inl e \<Longrightarrow> e = erased_element" for e
    using router_tick_exn [OF lab7_invD(3) [OF k(1)]] router_tick_exn [OF lab7_invD(4) [OF i1]] by auto
  have sub: "set rules1 \<subseteq> set (lab7_rules K gai b h i)" using k(3) by blast
  show ?thesis
  proof (cases r)
    case (Inl e)
    then show ?thesis using assms(1) w k(1,2) sub e by (auto simp: lab7_iteration_def)
  next
    case (Inr result)
    consider "result = Exit" | e' where "result \<noteq> Exit" "snd ?t1 = Inl e'" | u e' where "result \<noteq> Exit" "snd ?t1 = Inr u" "snd ?t2 = Inl e'"
      | u v where "result \<noteq> Exit" "snd ?t1 = Inr u" "snd ?t2 = Inr v" by (metis sum.exhaust)
    then show ?thesis
      by cases (use assms(1) w Inr k(1,2) sub i1 i2 x in \<open>auto simp: lab7_iteration_def Let_def split_beta\<close>)
  qed
qed

subsection \<open>The routers of the two programs\<close>

lemma router_port_ok:
  assumes "router_port rd gai ip r g = (g', Inr (r', n))"
  shows "rt_rout_map r' = rt_rout_map r" "length (rt_interfaces r') = Suc (length (rt_interfaces r))" "n = length (rt_interfaces r)"
  using assms by (auto simp: router_port_def call_def add_interface_def Let_def split: sum.splits prod.splits)

lemma set_insert_by_subset: "set (set_insert_by lt k xs) \<subseteq> insert k (set xs)"
  by (auto simp: set_insert_by_def upper_bound_by_def Let_def dest: set_takeWhileD set_dropWhileD split: if_splits)

lemma add_route_valid:
  assumes "add_route gni r ip len hop i = (r', Inr u)" "valid_router r" "len \<le> 32" "i < length (rt_interfaces r)"
  shows "valid_router r'" "length (rt_interfaces r') = length (rt_interfaces r)"
proof -
  let ?x = "\<lparr>rn_route_prefix = ip, rn_prefix_length = len, rn_next_hop = hop, rn_interface_num = i\<rparr>"
  have r': "r' = r\<lparr>rt_rout_map := set_insert_by rout_less ?x (rt_rout_map r)\<rparr>"
    using assms(1) by (auto simp: add_route_def split: sum.splits)
  show "valid_router r'" using assms(2-4) set_insert_by_subset [of rout_less ?x "rt_rout_map r"]
    unfolding r' valid_router_def by fastforce
  show "length (rt_interfaces r') = length (rt_interfaces r)" by (simp add: r')
qed

lemma add_routes_valid:
  "add_routes gai gni rs r = Inr r' \<Longrightarrow> valid_router r \<Longrightarrow> \<forall>(p, len, hop, i) \<in> set rs. len \<le> 32 \<and> i < length (rt_interfaces r) \<Longrightarrow>
   valid_router r' \<and> length (rt_interfaces r') = length (rt_interfaces r)"
proof (induction rs arbitrary: r)
  case (Cons x rs)
  obtain p len hop i where x: "x = (p, len, hop, i)" by (metis prod.exhaust)
  obtain ip where ip: "ip_of gai p = Inr ip" using Cons.prems(1) x by (cases "ip_of gai p") auto
  obtain r1 u where r1: "add_route gni r ip len hop i = (r1, Inr u)" "add_routes gai gni rs r1 = Inr r'"
    using Cons.prems(1) x ip by (auto split: prod.splits sum.splits)
  note v = add_route_valid [OF r1(1)]
  show ?case using Cons.IH [OF r1(2)] v Cons.prems(2,3) x by auto
qed simp

text \<open>The client's router and the server's, whatever the resolver answers.\<close>

lemma lab7_router_valid:
  assumes "lab7_router rd gai gni is_client g = (g', Inr (r, h, i))"
  shows "valid_router r" "h = 0" "i = 1" "length (rt_interfaces r) = 2"
proof -
  obtain ip1 ip2 g1 r1 g2 r2 r3 rs rs' other where p: "router_port rd gai ip1 router_new g = (g1, Inr (r1, h))"
      "router_port rd gai ip2 r1 g1 = (g2, Inr (r2, i))" "add_routes gai gni rs r2 = Inr r3" "add_routes gai gni rs' r3 = Inr r"
      "rs = [(''192.168.0.0'', 16, None, h), (''10.0.0.0'', 8, None, i)] \<and> rs' = [(''172.16.0.0'', 12, Some other, i)] \<or>
       rs = [(''172.16.0.0'', 12, None, h), (''10.0.0.0'', 8, None, i)] \<and> rs' = [(''192.168.0.0'', 16, Some other, i)]"
    using assms unfolding lab7_router_def call_on_def call_def
    by (auto simp del: add_routes.simps split: if_splits prod.splits sum.splits)
  note a = router_port_ok [OF p(1)] and b = router_port_ok [OF p(2)]
  have "valid_router r2" "h = 0" "i = 1" "length (rt_interfaces r2) = 2" using a b by (simp_all add: router_new_def valid_router_def)
  moreover from this have "valid_router r3 \<and> length (rt_interfaces r3) = length (rt_interfaces r2)"
    using add_routes_valid [OF p(3)] p(5) by auto
  moreover from calculation have "valid_router r \<and> length (rt_interfaces r) = length (rt_interfaces r3)"
    using add_routes_valid [OF p(4)] p(5) by auto
  ultimately show "valid_router r" "h = 0" "i = 1" "length (rt_interfaces r) = 2" by auto
qed

text \<open>C10. The thread that runs the router.  From the set-up on, whatever frames the host and the relay send, whatever the system calls answer and in
  whatever order descriptors become ready, no step of the thread is without a meaning: it never takes the front of an empty queue of frames,
  never uses an interface or a route out of range and never shifts by a negative count, with the one exception of the loop in
  \<^verbatim>\<open>NetworkInterface::tick\<close> that continues from an erased element.\<close>

theorem lab7_thread_defined:
  assumes "lab7_router rd gai gni is_client g = (g', Inr (l7_router s0, host_side, internet_side))"
    and "lab7_reaches K gai exit_flag bounce_address host_side internet_side s0 x"
  shows "no_ub (snd (lab7_iteration K exit_flag host_side internet_side x)) \<or> snd (lab7_iteration K exit_flag host_side internet_side x) = Inl erased_element"
proof -
  have "distinct (fst x) \<and> set (fst x) \<subseteq> set (lab7_rules K gai bounce_address host_side internet_side) \<and> lab7_inv host_side internet_side (snd x)"
    using assms(2)
  proof (induction rule: lab7_reaches.induct)
    case Start
    show ?case using lab7_router_valid [OF assms(1)] by (simp add: lab7_rules_distinct lab7_inv_def)
  next
    case (Iterate x x')
    then show ?case using lab7_iteration_sound [of K exit_flag host_side internet_side "fst x" "snd x" "fst x'" "snd x'" "Inr True" gai bounce_address] by simp
  qed
  moreover obtain rules' s' res where run: "lab7_iteration K exit_flag host_side internet_side (fst x, snd x) = ((rules', s'), res)" by (metis prod.exhaust)
  ultimately have "res = Inl e \<Longrightarrow> defined_exn e \<or> e = erased_element" for e using lab7_iteration_sound [OF run, of gai bounce_address] by blast
  then show ?thesis using run by (cases res) auto
qed

subsection \<open>From host to host\<close>

definition lab7_table :: "bool \<Rightarrow> rout_node list" where
  "lab7_table is_client =
     (if is_client
      then [rnode (quad 10 0 0 0) 8 None 1, rnode (quad 192 168 0 0) 16 None 0, rnode (quad 172 16 0 0) 12 (Some (ipv4_endpoint (quad 10 0 0 172) 0)) 1]
      else [rnode (quad 10 0 0 0) 8 None 1, rnode (quad 172 16 0 0) 12 None 0, rnode (quad 192 168 0 0) 16 (Some (ipv4_endpoint (quad 10 0 0 192) 0)) 1])"

lemma more_quads: "inet_ntoa (quad 10 0 0 172) = ''10.0.0.172''" "inet_ntoa (quad 10 0 0 192) = ''10.0.0.192''"
  by (simp_all add: inet_ntoa_quad to_string.simps digit_chars)

lemma lab7_addresses:
  assumes "numeric_resolver gai"
  shows "address_of_ip gai ''10.0.0.172'' 0 = Inr (ipv4_endpoint (quad 10 0 0 172) 0)"
    "address_of_ip gai ''10.0.0.192'' 0 = Inr (ipv4_endpoint (quad 10 0 0 192) 0)"
    "address_of_ip gai ''192.168.0.1'' 0 = Inr (ipv4_endpoint (quad 192 168 0 1) 0)"
    "address_of_ip gai ''172.16.0.1'' 0 = Inr (ipv4_endpoint (quad 172 16 0 1) 0)"
  using address_of_ip_dotted [OF assms, of "quad 10 0 0 172" 0] address_of_ip_dotted [OF assms, of "quad 10 0 0 192" 0]
    address_of_ip_dotted [OF assms, of "quad 192 168 0 1" 0] address_of_ip_dotted [OF assms, of "quad 172 16 0 1" 0]
  by (simp_all add: quads more_quads)

lemma lab7_insert:
  "set_insert_by rout_less (rnode q l None i) t = rnode q l None i # t"
  "set_insert_by rout_less (rnode q l (Some h) i) [rnode q1 l1 None i1, rnode q2 l2 None i2] =
     [rnode q1 l1 None i1, rnode q2 l2 None i2, rnode q l (Some h) i]"
  by (rule insert_direct) (simp_all add: direct_def rnode_def set_insert_by_def upper_bound_by_def rout_less_def)

lemma lab7_router_table:
  assumes "numeric_resolver gai" "numeric_namer gni"
  obtains g' mac0 mac1 where "lab7_router rd gai gni is_client g =
      (g', Inr (\<lparr>rt_interfaces =
         [async_interface_of (network_interface_new mac0 (ipv4_endpoint (if is_client then quad 192 168 0 1 else quad 172 16 0 1) 0)),
          async_interface_of (network_interface_new mac1 (ipv4_endpoint (if is_client then quad 10 0 0 192 else quad 10 0 0 172) 0))],
         rt_rout_map = lab7_table is_client\<rparr>, 0, 1))"
proof -
  obtain g1 mac0 where m0: "random_router_ethernet_address rd g = (g1, mac0)" by fastforce
  obtain g2 mac1 where m1: "random_router_ethernet_address rd g1 = (g2, mac1)" by fastforce
  have "lab7_router rd gai gni is_client g =
      (g2, Inr (\<lparr>rt_interfaces =
         [async_interface_of (network_interface_new mac0 (ipv4_endpoint (if is_client then quad 192 168 0 1 else quad 172 16 0 1) 0)),
          async_interface_of (network_interface_new mac1 (ipv4_endpoint (if is_client then quad 10 0 0 192 else quad 10 0 0 172) 0))],
         rt_rout_map = lab7_table is_client\<rparr>, 0, 1))"
    using lab7_addresses [OF assms(1)] net_ip_of [OF assms(1)]
    by (cases is_client) (simp_all add: lab7_router_def router_port_def m0 m1 add_interface_def router_new_def add_route_net [OF assms(2)] lab7_insert lab7_table_def)
  then show ?thesis by (rule that)
qed

lemma lab7_router_routes:
  assumes "numeric_resolver gai" "numeric_namer gni" "lab7_router rd gai gni is_client g = (g', Inr (r, host_side, internet_side))"
  shows "rt_rout_map r = lab7_table is_client" "host_side = 0" "internet_side = 1"
  by (rule lab7_router_table [OF assms(1,2), of rd is_client g]; use assms(3) in simp)+

theorem lab7_thread_defined_witness:
  "\<exists>g' r. lab7_router count_rd number_resolver number_namer True 0 = (g', Inr (r, 0, 1)) \<and>
     (let s0 = \<lparr>l7_router = r, l7_frame_fd = demo_fd 5, l7_internet_socket = demo_fd 6, l7_sys = ([], [])\<rparr>;
          res = snd (lab7_iteration demo_sys (\<lambda>k. True) 0 1 (lab7_rules demo_sys number_resolver (ipv4_endpoint 7 7) 0 1, s0))
      in no_ub res \<or> res = Inl erased_element)"
proof -
  obtain g' r where r: "lab7_router count_rd number_resolver number_namer True 0 = (g', Inr (r, 0, 1))"
    using lab7_router_table [OF number_resolver_numeric number_namer_numeric] by metis
  let ?s0 = "\<lparr>l7_router = r, l7_frame_fd = demo_fd 5, l7_internet_socket = demo_fd 6, l7_sys = ([], [])\<rparr>"
  have "lab7_router count_rd number_resolver number_namer True 0 = (g', Inr (l7_router ?s0, 0, 1))" using r by simp
  from lab7_thread_defined [OF this lab7_reaches.Start] r show ?thesis unfolding Let_def by blast
qed

text \<open>The network of the client's host and that of the server's.\<close>

definition in_lan :: "bool \<Rightarrow> u32 \<Rightarrow> bool" where
  "in_lan is_client ip \<longleftrightarrow> (if is_client then drop_bit 16 ip = drop_bit 16 (quad 192 168 0 0) else drop_bit 20 ip = drop_bit 20 (quad 172 16 0 0))"

lemma in_lan_route:
  assumes "in_lan c ip"
  shows "find_route (lab7_table c) ip = Inr (Some (if c then rnode (quad 192 168 0 0) 16 None 0 else rnode (quad 172 16 0 0) 12 None 0))"
    "find_route (lab7_table (\<not> c)) ip = Inr (Some (if c then rnode (quad 192 168 0 0) 16 (Some (ipv4_endpoint (quad 10 0 0 192) 0)) 1
       else rnode (quad 172 16 0 0) 12 (Some (ipv4_endpoint (quad 10 0 0 172) 0)) 1))"
proof -
  have q: "drop_bit 16 (quad 192 168 0 0) = 0xc0a8" "drop_bit 20 (quad 172 16 0 0) = 0xac1" "drop_bit 24 (quad 10 0 0 0) = 0xa"
    by (simp_all add: quad_def be_value_def)
  have client: "drop_bit 16 ip = 0xc0a8" "drop_bit 20 ip = 0xc0a" "drop_bit 24 ip = 0xc0" if c
  proof -
    show h: "drop_bit 16 ip = 0xc0a8" using assms that q by (simp add: in_lan_def)
    have "drop_bit 4 (drop_bit 16 ip) = 0xc0a" "drop_bit 8 (drop_bit 16 ip) = 0xc0" unfolding h by simp_all
    then show "drop_bit 20 ip = 0xc0a" "drop_bit 24 ip = 0xc0" by simp_all
  qed
  have server: "drop_bit 16 ip \<noteq> 0xc0a8" "drop_bit 20 ip = 0xac1" "drop_bit 24 ip = 0xac" if "\<not> c"
  proof -
    show h: "drop_bit 20 ip = 0xac1" using assms that q by (simp add: in_lan_def)
    have "drop_bit 4 (drop_bit 20 ip) = 0xac" unfolding h by simp
    then show "drop_bit 24 ip = 0xac" by simp
    have "drop_bit 4 (drop_bit 16 ip) = 0xac1" using h by simp
    then show "drop_bit 16 ip \<noteq> 0xc0a8" by (rule contrapos_pn) (simp del: drop_bit_drop_bit)
  qed
  show "find_route (lab7_table c) ip = Inr (Some (if c then rnode (quad 192 168 0 0) 16 None 0 else rnode (quad 172 16 0 0) 12 None 0))"
    "find_route (lab7_table (\<not> c)) ip = Inr (Some (if c then rnode (quad 192 168 0 0) 16 (Some (ipv4_endpoint (quad 10 0 0 192) 0)) 1
       else rnode (quad 172 16 0 0) 12 (Some (ipv4_endpoint (quad 10 0 0 172) 0)) 1))"
    using client server by (cases c; simp add: lab7_table_def match_def rnode_def q)+
qed

lemma lab7_hop:
  assumes "numeric_resolver gai" "dg_wf d" "\<not> ih_ttl (dg_header d) \<le> 1"
    and r: "side < length (rt_interfaces r)" "\<forall>a \<in> set (rt_interfaces r). an_datagrams_out a = []"
    and "f = ip_frame (ni_ethernet_address (an_interface (rt_interfaces r ! side))) src (wire d)"
    and x: "find_route (rt_rout_map r) (ih_dst (dg_header d)) = Inr (Some x)" "rn_interface_num x < length (rt_interfaces r)"
      "case rn_next_hop x of None \<Rightarrow> nh = ih_dst (dg_header d) | Some h \<Rightarrow> ipv4_numeric h = Inr nh"
    and mac: "map_of (ni_ip_address_map (an_interface (rt_interfaces r ! rn_interface_num x))) nh = Some mac"
  obtains r' d2 out_mac where "router_receive gai side f r = (r', Inr ())" "same_datagram (lower d) d2" "dg_wf d2"
    "out_frames r' (rn_interface_num x) = out_frames r (rn_interface_num x) @ [ip_frame mac out_mac (wire d2)]"
proof -
  let ?a = "rt_interfaces r ! side" and ?o = "rn_interface_num x"
  obtain d1 where d1: "recv_frame (an_interface ?a) f = (an_interface ?a, Inr (Some d1))" "same_datagram d d1"
    using recv_ip_frame [OF _ assms(2) wire_eq [OF assms(2)], of "ni_ethernet_address (an_interface ?a)" "an_interface ?a" src] assms(6) by auto
  have fields: "ih_dst (dg_header d1) = ih_dst (dg_header d)" "ih_ttl (dg_header d1) = ih_ttl (dg_header d)"
    using d1(2) by (auto elim!: same_datagramE)
  have q: "an_datagrams_out ?a = []" using r by simp
  let ?r1 = "r\<lparr>rt_interfaces := (rt_interfaces r)[side := ?a\<lparr>an_datagrams_out := [d1]\<rparr>]\<rparr>"
  have recv: "an_recv_frame ?a f = (?a\<lparr>an_datagrams_out := [d1]\<rparr>, Inr ())" using d1(1) q by (simp add: an_recv_frame_def)
  have same: "an_interface (rt_interfaces ?r1 ! k) = an_interface (rt_interfaces r ! k)" for k
    using r(1) by (cases "k = side") simp_all
  obtain pl where pl: "ipv4_datagram_serialize (lower d1) = Inr pl" "dg_wf (lower d1)"
    "route_one_datagram gai ?r1 d1 = (?r1\<lparr>rt_interfaces := (rt_interfaces ?r1)[?o := (rt_interfaces ?r1 ! ?o)
       \<lparr>an_interface := push_frame (ip_frame mac (ni_ethernet_address (an_interface (rt_interfaces r ! ?o))) pl) (an_interface (rt_interfaces r ! ?o))\<rparr>]\<rparr>,
       lower d1, Inr ())"
    using route_one_known [of gai d1 ?r1 x nh "an_interface (rt_interfaces r ! ?o)" mac "lower d1"] assms(1,3) same_datagram_wf [OF d1(2) assms(2)] x mac same fields
    by (auto simp: lower_def cong: option.case_cong)
  obtain r2 where r2: "route_one_datagram gai ?r1 d1 = (r2, lower d1, Inr ())" "length (rt_interfaces r2) = length (rt_interfaces r)"
    "ni_frames_out (an_interface (rt_interfaces r2 ! ?o)) = out_frames r ?o @ [ip_frame mac (ni_ethernet_address (an_interface (rt_interfaces r ! ?o))) (wire (lower d1))]"
    using pl x(2) r(1) by (simp add: out_frames_def wire_def push_frame_def)
  have "route gai ?r1 = (set_queue side [] r2, Inr ())"
    using r by (intro route_single [OF _ _ _ r2(1)]) (auto simp: queue_of_def nth_list_update)
  moreover have "out_frames (set_queue side [] r2) ?o =
      out_frames r ?o @ [ip_frame mac (ni_ethernet_address (an_interface (rt_interfaces r ! ?o))) (wire (lower d1))]"
    using r2 x(2) r(1) by (simp add: out_frames_def set_queue_def nth_list_update)
  ultimately show ?thesis
    using that [OF _ same_datagram_lower [OF d1(2)] pl(2)] recv r(1) by (simp add: router_receive_def rt_interface_def)
qed

text \<open>C9. Both directions between the two hosts.  A frame with a datagram for the other side's network, given to the router of one program, makes
  it queue one frame for the relay; given to the router of the other program, this makes it queue one frame for its host, and the host gets
  the datagram with its time to live lowered by two and everything else unchanged up to the checksum.  The Ethernet addresses of the
  two next hops are known.\<close>

theorem lab7_delivers:
  assumes "numeric_resolver gai" "numeric_namer gni"
    and "lab7_router rd gai gni c g = (g1, Inr (r, host_side, internet_side))" "lab7_router rd' gai gni (\<not> c) g' = (g2, Inr (r', host_side', internet_side'))"
    and "rc = r\<lparr>rt_interfaces := [a0, a1]\<rparr>" "rs = r'\<lparr>rt_interfaces := [b0, b1]\<rparr>" "\<forall>a \<in> {a0, a1, b0, b1}. an_datagrams_out a = []"
    and "map_of (ni_ip_address_map (an_interface a1)) (if c then quad 10 0 0 172 else quad 10 0 0 192) = Some (ni_ethernet_address (an_interface b1))"
    and "map_of (ni_ip_address_map (an_interface b0)) (ih_dst (dg_header d)) = Some (ni_ethernet_address host)"
    and "in_lan (\<not> c) (ih_dst (dg_header d))" "dg_wf d" "2 < ih_ttl (dg_header d)"
    and "f = ip_frame (ni_ethernet_address (an_interface a0)) src (wire d)"
  shows "\<exists>rc' rs' f1 f2 d'. router_receive gai host_side f rc = (rc', Inr ()) \<and>
    out_frames rc' internet_side = out_frames rc internet_side @ [f1] \<and>
    router_receive gai internet_side' (wire_frame f1) rs = (rs', Inr ()) \<and>
    out_frames rs' host_side' = out_frames rs host_side' @ [f2] \<and>
    recv_frame host (wire_frame f2) = (host, Inr (Some d')) \<and> same_datagram (lower (lower d)) d'"
proof -
  have r: "rt_rout_map r = lab7_table c" "host_side = 0" "internet_side = 1"
    using lab7_router_routes [OF assms(1-3)] by simp_all
  have r': "rt_rout_map r' = lab7_table (\<not> c)" "host_side' = 0" "internet_side' = 1"
    using lab7_router_routes [OF assms(1,2,4)] by simp_all
  let ?gw = "if c then quad 10 0 0 172 else quad 10 0 0 192"
  obtain x y where x: "find_route (rt_rout_map rc) (ih_dst (dg_header d)) = Inr (Some x)" "rn_interface_num x = 1" "rn_next_hop x = Some (ipv4_endpoint ?gw 0)"
    and y: "find_route (rt_rout_map rs) (ih_dst (dg_header d)) = Inr (Some y)" "rn_interface_num y = 0" "rn_next_hop y = None"
    using in_lan_route [OF assms(10)] r r' by (cases c) (auto simp: assms(5,6) rnode_def)
  have ttl: "\<not> ih_ttl (dg_header d) \<le> 1" "ih_ttl (dg_header (lower d)) > 1"
    using assms(12) by (auto simp: lower_def word_less_nat_alt word_le_nat_alt unat_sub_if')
  have 1: "0 < length (rt_interfaces rc)" "\<forall>a \<in> set (rt_interfaces rc). an_datagrams_out a = []"
    "f = ip_frame (ni_ethernet_address (an_interface (rt_interfaces rc ! 0))) src (wire d)" "rn_interface_num x < length (rt_interfaces rc)"
    "case rn_next_hop x of None \<Rightarrow> ?gw = ih_dst (dg_header d) | Some h \<Rightarrow> ipv4_numeric h = Inr ?gw"
    "map_of (ni_ip_address_map (an_interface (rt_interfaces rc ! rn_interface_num x))) ?gw = Some (ni_ethernet_address (an_interface b1))"
    using x(2,3) assms(5,7,8,13) by simp_all
  obtain rc' d1 m1 where h1: "router_receive gai 0 f rc = (rc', Inr ())" "same_datagram (lower d) d1" "dg_wf d1"
    "out_frames rc' (rn_interface_num x) = out_frames rc (rn_interface_num x) @ [ip_frame (ni_ethernet_address (an_interface b1)) m1 (wire d1)]"
    by (rule lab7_hop [OF assms(1,11) ttl(1) 1(1-3) x(1) 1(4-6)])
  let ?f1 = "ip_frame (ni_ethernet_address (an_interface b1)) m1 (wire d1)"
  have fields: "ih_dst (dg_header d1) = ih_dst (dg_header d)" "ih_ttl (dg_header d1) = ih_ttl (dg_header (lower d))"
    using h1(2) by (auto elim!: same_datagramE simp: lower_def)
  have 2: "\<not> ih_ttl (dg_header d1) \<le> 1" "1 < length (rt_interfaces rs)" "\<forall>a \<in> set (rt_interfaces rs). an_datagrams_out a = []"
    "?f1 = ip_frame (ni_ethernet_address (an_interface (rt_interfaces rs ! 1))) m1 (wire d1)"
    "find_route (rt_rout_map rs) (ih_dst (dg_header d1)) = Inr (Some y)" "rn_interface_num y < length (rt_interfaces rs)"
    "case rn_next_hop y of None \<Rightarrow> ih_dst (dg_header d) = ih_dst (dg_header d1) | Some h \<Rightarrow> ipv4_numeric h = Inr (ih_dst (dg_header d))"
    "map_of (ni_ip_address_map (an_interface (rt_interfaces rs ! rn_interface_num y))) (ih_dst (dg_header d)) = Some (ni_ethernet_address host)"
    using y ttl(2) fields assms(6,7,9) by (simp_all add: not_le)
  obtain rs' d2 m2 where h2: "router_receive gai 1 ?f1 rs = (rs', Inr ())" "same_datagram (lower d1) d2" "dg_wf d2"
    "out_frames rs' (rn_interface_num y) = out_frames rs (rn_interface_num y) @ [ip_frame (ni_ethernet_address host) m2 (wire d2)]"
    by (rule lab7_hop [OF assms(1) h1(3) 2])
  obtain d3 where d3: "recv_frame host (ip_frame (ni_ethernet_address host) m2 (wire d2)) = (host, Inr (Some d3))" "same_datagram d2 d3"
    using recv_ip_frame [OF _ h2(3) wire_eq [OF h2(3)], of "ni_ethernet_address host" host m2] by auto
  have "same_datagram (lower (lower d)) d3"
    using same_datagram_trans [OF same_datagram_trans [OF same_datagram_lower [OF h1(2)] h2(2)] d3(2)] .
  then show ?thesis unfolding wire_frame_id r(2,3) r'(2,3) using h1(1,4) h2(1,4) d3(1) x(2) y(2) by metis
qed

definition demo_port :: "ethernet_address \<Rightarrow> u32 \<Rightarrow> (u32 \<times> ethernet_address) list \<Rightarrow> async_interface" where
  "demo_port mac ip known = \<lparr>an_interface = (network_interface_new mac (ipv4_endpoint ip 0))\<lparr>ni_ip_address_map := known\<rparr>, an_datagrams_out = []\<rparr>"

definition demo_mac :: "byte \<Rightarrow> ethernet_address" where
  "demo_mac n = EthernetAddress 2 0 0 0 0 n"

definition demo_datagram :: ipv4_datagram where
  "demo_datagram = small_datagram\<lparr>dg_header := (dg_header small_datagram)\<lparr>ih_dst := quad 172 16 0 100, ih_ttl := 64\<rparr>\<rparr>"

lemma demo_port_fields: "an_datagrams_out (demo_port mac ip known) = []" "ni_ip_address_map (an_interface (demo_port mac ip known)) = known"
  "ni_ethernet_address (an_interface (demo_port mac ip known)) = mac"
  by (simp_all add: demo_port_def network_interface_new_def)

theorem lab7_delivers_witness:
  "\<exists>g1 r g2 r' rc' rs' f1 f2 d'. lab7_router count_rd number_resolver number_namer True 0 = (g1, Inr (r, 0, 1)) \<and>
     lab7_router count_rd number_resolver number_namer False 0 = (g2, Inr (r', 0, 1)) \<and>
     router_receive number_resolver 0 (ip_frame (demo_mac 1) (demo_mac 9) (wire demo_datagram))
       (r\<lparr>rt_interfaces := [demo_port (demo_mac 1) 1 [], demo_port (demo_mac 2) 2 [(quad 10 0 0 172, demo_mac 3)]]\<rparr>) = (rc', Inr ()) \<and>
     out_frames rc' 1 = [f1] \<and>
     router_receive number_resolver 1 (wire_frame f1)
       (r'\<lparr>rt_interfaces := [demo_port (demo_mac 4) 4 [(quad 172 16 0 100, demo_mac 5)], demo_port (demo_mac 3) 3 []]\<rparr>) = (rs', Inr ()) \<and>
     out_frames rs' 0 = [f2] \<and>
     recv_frame (network_interface_new (demo_mac 5) (ipv4_endpoint 5 0)) (wire_frame f2) =
       (network_interface_new (demo_mac 5) (ipv4_endpoint 5 0), Inr (Some d')) \<and> same_datagram (lower (lower demo_datagram)) d'"
proof -
  obtain g1 r where r: "lab7_router count_rd number_resolver number_namer True 0 = (g1, Inr (r, 0, 1))"
    using lab7_router_table [OF number_resolver_numeric number_namer_numeric] by metis
  obtain g2 r' where r': "lab7_router count_rd number_resolver number_namer (\<not> True) 0 = (g2, Inr (r', 0, 1))"
    using lab7_router_table [OF number_resolver_numeric number_namer_numeric] by metis
  let ?a0 = "demo_port (demo_mac 1) 1 []" and ?a1 = "demo_port (demo_mac 2) 2 [(quad 10 0 0 172, demo_mac 3)]"
    and ?b0 = "demo_port (demo_mac 4) 4 [(quad 172 16 0 100, demo_mac 5)]" and ?b1 = "demo_port (demo_mac 3) 3 []"
    and ?host = "network_interface_new (demo_mac 5) (ipv4_endpoint 5 0)"
  have hyps: "\<forall>a \<in> {?a0, ?a1, ?b0, ?b1}. an_datagrams_out a = []"
    "map_of (ni_ip_address_map (an_interface ?a1)) (if True then quad 10 0 0 172 else quad 10 0 0 192) = Some (ni_ethernet_address (an_interface ?b1))"
    "map_of (ni_ip_address_map (an_interface ?b0)) (ih_dst (dg_header demo_datagram)) = Some (ni_ethernet_address ?host)"
    "in_lan (\<not> True) (ih_dst (dg_header demo_datagram))" "dg_wf demo_datagram" "2 < ih_ttl (dg_header demo_datagram)"
    "ip_frame (demo_mac 1) (demo_mac 9) (wire demo_datagram) = ip_frame (ni_ethernet_address (an_interface ?a0)) (demo_mac 9) (wire demo_datagram)"
    using small_datagram_wf
    by (simp_all add: demo_port_fields demo_datagram_def in_lan_def quad_def be_value_def network_interface_new_def dg_wf_def ipv4_wf_def)
  have none: "out_frames (r\<lparr>rt_interfaces := [?a0, ?a1]\<rparr>) 1 = []" "out_frames (r'\<lparr>rt_interfaces := [?b0, ?b1]\<rparr>) 0 = []"
    by (simp_all add: out_frames_def demo_port_def network_interface_new_def)
  from lab7_delivers [OF number_resolver_numeric number_namer_numeric r r' refl refl hyps, unfolded none append_Nil]
  obtain rc' rs' f1 f2 d' where run:
    "router_receive number_resolver 0 (ip_frame (demo_mac 1) (demo_mac 9) (wire demo_datagram)) (r\<lparr>rt_interfaces := [?a0, ?a1]\<rparr>) = (rc', Inr ())"
    "out_frames rc' 1 = [f1]" "router_receive number_resolver 1 (wire_frame f1) (r'\<lparr>rt_interfaces := [?b0, ?b1]\<rparr>) = (rs', Inr ())"
    "out_frames rs' 0 = [f2]" "recv_frame ?host (wire_frame f2) = (?host, Inr (Some d'))" "same_datagram (lower (lower demo_datagram)) d'"
    by (elim exE conjE)
  show ?thesis by (intro exI conjI) (rule r r' [unfolded not_True_eq_False] run)+
qed

end
