(* ===== verification/Packet_Dump.thy ===== *)
theory Packet_Dump
  imports Header_Text Adapters
begin

unbundle bit_operations_syntax

text \<open>
  \<^verbatim>\<open>apps/udp_tcpdump.cc\<close>: captured packets are searched for TCP segments inside UDP datagrams and shown.  The capture library is
  a parameter: the packets it delivers, with the return values of \<^verbatim>\<open>pcap_next_ex\<close>, are an argument, as is \<^verbatim>\<open>inet_ntop\<close>.  A read beyond the
  captured bytes is \<open>Undefined_behaviour\<close>.
\<close>

type_synonym ntop = "bool \<Rightarrow> bytes \<Rightarrow> string option"

subsection \<open>Arguments\<close>

text \<open>The loop over the arguments; \<open>Inl\<close> is the exit status of a call that shows the usage and exits.\<close>

function parse_arguments :: "string list \<Rightarrow> nat \<Rightarrow> string option \<Rightarrow> int + string option \<times> nat" where
  "parse_arguments argv cur dev =
     (if cur < length argv
      then (if argv ! cur = ''-i''
            then (if cur + 1 \<ge> length argv then Inl 1 else parse_arguments argv (cur + 2) (Some (argv ! (cur + 1))))
            else if argv ! cur = ''-h'' \<or> argv ! cur = ''--help'' then Inl 0
            else Inr (dev, cur))
      else Inr (dev, cur))"
  by pat_completeness auto
termination
  by (relation "measure (\<lambda>(argv, cur, dev). length argv - cur)") auto

declare parse_arguments.simps [simp del]

definition filter_expression :: "string list \<Rightarrow> nat \<Rightarrow> string" where
  "filter_expression argv exp_start = concat (map (\<lambda>i. argv ! i @ '' '') [exp_start ..< length argv])"

subsection \<open>Finding the UDP payload\<close>

definition byte_at :: "bytes \<Rightarrow> nat \<Rightarrow> exn + byte" where
  "byte_at data i = (if i < length data then Inr (data ! i) else Inl (Undefined_behaviour ''read beyond the packet''))"

definition bytes_at :: "bytes \<Rightarrow> nat \<Rightarrow> nat \<Rightarrow> exn + bytes" where
  "bytes_at data i n = (if i + n \<le> length data then Inr (take n (drop i data)) else Inl (Undefined_behaviour ''read beyond the packet''))"

definition inet4_addr :: "ntop \<Rightarrow> bytes \<Rightarrow> nat \<Rightarrow> exn + string" where
  "inet4_addr ntop data i =
     (case bytes_at data i 4 of Inl e \<Rightarrow> Inl e | Inr addr \<Rightarrow> Inr (case ntop False addr of None \<Rightarrow> ''unknown'' | Some s \<Rightarrow> s))"

definition inet6_addr :: "ntop \<Rightarrow> bytes \<Rightarrow> nat \<Rightarrow> exn + string" where
  "inet6_addr ntop data i =
     (case bytes_at data i 16 of Inl e \<Rightarrow> Inl e | Inr addr \<Rightarrow> Inr (case ntop True addr of None \<Rightarrow> ''unknown'' | Some s \<Rightarrow> s))"

text \<open>The loop over the extension headers of IPv6: the offset of the UDP header, or none.\<close>

function ipv6_headers :: "bytes \<Rightarrow> byte \<Rightarrow> nat \<Rightarrow> exn + nat option" where
  "ipv6_headers data nxt data_offset =
     (if nxt = 0x11 then Inr (Some data_offset)
      else if nxt \<noteq> 0 \<and> nxt \<noteq> 43 \<and> nxt \<noteq> 60 then Inr None
      else (case byte_at data data_offset of
              Inl e \<Rightarrow> Inl e
            | Inr nxt \<Rightarrow>
                (case byte_at data (data_offset + 1) of
                   Inl e \<Rightarrow> Inl e
                 | Inr n \<Rightarrow>
                     if length data < data_offset + 8 * (1 + unat n) + 2 then Inr None
                     else ipv6_headers data nxt (data_offset + 8 * (1 + unat n)))))"
  by pat_completeness auto
termination
  by (relation "measure (\<lambda>(data, nxt, data_offset). length data - data_offset)") auto

declare ipv6_headers.simps [simp del]

text \<open>The result is the offset of the UDP payload with the two addresses, or none for \<^verbatim>\<open>-1\<close>; \<^verbatim>\<open>len\<close> is the number of bytes from \<^verbatim>\<open>data\<close> on.\<close>

definition process_ipv4 :: "ntop \<Rightarrow> bytes \<Rightarrow> exn + (nat \<times> string \<times> string) option" where
  "process_ipv4 ntop data =
     (let data_offset = unat (hd data AND 0x0f) * 4
      in if length data < data_offset then Inr None
         else (case byte_at data 9 of
                 Inl e \<Rightarrow> Inl e
               | Inr proto \<Rightarrow>
                   if proto \<noteq> 0x11 then Inr None
                   else (case inet4_addr ntop data 12 of
                           Inl e \<Rightarrow> Inl e
                         | Inr src \<Rightarrow>
                             (case inet4_addr ntop data 16 of
                                Inl e \<Rightarrow> Inl e
                              | Inr dst \<Rightarrow> Inr (Some (data_offset + 8, src, dst))))))"

definition process_ipv6 :: "ntop \<Rightarrow> bytes \<Rightarrow> exn + (nat \<times> string \<times> string) option" where
  "process_ipv6 ntop data =
     (if length data < 42 then Inr None
      else (case byte_at data 6 of
              Inl e \<Rightarrow> Inl e
            | Inr nxt \<Rightarrow>
                (case ipv6_headers data nxt 40 of
                   Inl e \<Rightarrow> Inl e
                 | Inr None \<Rightarrow> Inr None
                 | Inr (Some data_offset) \<Rightarrow>
                     (case inet6_addr ntop data 8 of
                        Inl e \<Rightarrow> Inl e
                      | Inr src \<Rightarrow>
                          (case inet6_addr ntop data 24 of
                             Inl e \<Rightarrow> Inl e
                           | Inr dst \<Rightarrow> Inr (Some (data_offset + 8, src, dst)))))))"

definition process_ipv4_ipv6 :: "ntop \<Rightarrow> bytes \<Rightarrow> exn + (nat \<times> string \<times> string) option" where
  "process_ipv4_ipv6 ntop data =
     (if length data < 1 then Inr None
      else if hd data AND 0xf0 = 0x40 then process_ipv4 ntop data
      else if hd data AND 0xf0 = 0x60 then process_ipv6 ntop data
      else Inr None)"

subsection \<open>The link layer\<close>

datatype datalink = DLT_NULL | DLT_EN10MB | DLT_LINUX_SLL | DLT_LINUX_SLL2 | DLT_RAW

text \<open>The offset of the IP packet, or none for packets that are skipped.\<close>

definition skip_link_header :: "nat \<Rightarrow> (bytes \<Rightarrow> bool) \<Rightarrow> bytes \<Rightarrow> nat option" where
  "skip_link_header hdr_off is_ip pkt_data = (if length pkt_data < hdr_off \<or> \<not> is_ip pkt_data then None else Some hdr_off)"

definition ether_type_ip :: "nat \<Rightarrow> bytes \<Rightarrow> bool" where
  "ether_type_ip i pkt_data =
     (let pt = push_bit 8 (ucast (pkt_data ! i)) OR ucast (pkt_data ! (i + 1)) :: u16 in pt = 0x0800 \<or> pt = 0x86dd)"

fun link_offset :: "datalink \<Rightarrow> bytes \<Rightarrow> nat option" where
  "link_offset DLT_NULL pkt_data = skip_link_header 4 (\<lambda>d. d ! 3 \<in> {2, 24, 28, 30}) pkt_data"
| "link_offset DLT_EN10MB pkt_data = skip_link_header 14 (ether_type_ip 12) pkt_data"
| "link_offset DLT_LINUX_SLL pkt_data = skip_link_header 16 (ether_type_ip 14) pkt_data"
| "link_offset DLT_LINUX_SLL2 pkt_data = skip_link_header 20 (ether_type_ip 0) pkt_data"
| "link_offset DLT_RAW pkt_data = Some 0"

subsection \<open>Showing a segment\<close>

definition segment_line :: "string \<Rightarrow> string \<Rightarrow> parse_result \<Rightarrow> tcp_segment \<Rightarrow> nat \<Rightarrow> string" where
  "segment_line src dst res seg payload_len =
     (let tcp_hdr = sg_header seg; seqlen = word_of_nat (length_in_sequence_space seg) :: u32
      in src @ '':'' @ to_string (unat (th_sport tcp_hdr)) @ '' > '' @ dst @ '':'' @ to_string (unat (th_dport tcp_hdr)) @
         [newline] @ ''    Flags ['' @
         (if th_urg tcp_hdr then ''U'' else []) @ (if th_psh tcp_hdr then ''P'' else []) @ (if th_rst tcp_hdr then ''R'' else []) @
         (if th_syn tcp_hdr then ''S'' else []) @ (if th_fin tcp_hdr then ''F'' else []) @ (if th_ack tcp_hdr then ''.'' else []) @
         ''] cksum 0x'' @ setw 4 CHR ''0'' (to_hex (unat (th_cksum tcp_hdr))) @
         (if res = NoError then '' (correct)'' else '' (incorrect!)'') @
         '' seq '' @ to_string (unat (th_seqno tcp_hdr)) @
         (if seqlen > 0 then '':'' @ to_string (unat (wi_add (th_seqno tcp_hdr) seqlen)) else []) @
         '' ack '' @ to_string (unat (th_ackno tcp_hdr)) @ '' win '' @ to_string (unat (th_win tcp_hdr)) @
         '' length '' @ to_string payload_len @ [newline])"

definition show_segment :: "string \<Rightarrow> string \<Rightarrow> bytes \<Rightarrow> string" where
  "show_segment src dst payload =
     (let (res, seg) = tcp_segment_parse payload 0 tcp_segment_new
      in if parse_result_index res > parse_result_index BadChecksum
         then ''(did not recognize TCP header) src: '' @ src @ '' dst: '' @ dst @ [newline]
         else segment_line src dst res seg (length payload))"

text \<open>
  The UDP payload of a packet, as a string.  Its length is computed without a check; a length that has wrapped around exceeds what a string can
  hold, and the constructor throws before it reads.
\<close>

definition STRING_MAX :: nat where
  "STRING_MAX = 2 ^ 63 - 1"

definition udp_payload :: "bytes \<Rightarrow> nat \<Rightarrow> exn + bytes" where
  "udp_payload pkt_data payload_off =
     (let payload_len = sub64 (length pkt_data) payload_off
      in if payload_len > STRING_MAX then Inl (Length_error ''basic_string::_M_create'')
         else bytes_at pkt_data payload_off payload_len)"

text \<open>A packet that is skipped shows nothing on the standard output.\<close>

definition show_packet :: "ntop \<Rightarrow> datalink \<Rightarrow> bytes \<Rightarrow> exn + string" where
  "show_packet ntop dl_type pkt_data =
     (case link_offset dl_type pkt_data of
        None \<Rightarrow> Inr []
      | Some hdr_off \<Rightarrow>
          (case process_ipv4_ipv6 ntop (drop hdr_off pkt_data) of
             Inl e \<Rightarrow> Inl e
           | Inr None \<Rightarrow> Inr []
           | Inr (Some (start_off, src, dst)) \<Rightarrow>
               (case udp_payload pkt_data (hdr_off + start_off) of
                  Inl e \<Rightarrow> Inl e
                | Inr payload \<Rightarrow> Inr (show_segment src dst payload @ hexdump payload 8))))"

text \<open>
  The main loop, over the results of \<^verbatim>\<open>pcap_next_ex\<close>: zero for a timeout, one for a packet, a negative number for an error
  (\<^verbatim>\<open>-1\<close>) or the end.  The result is the output and, if the loop has ended, the exit status.
\<close>

fun capture_loop :: "ntop \<Rightarrow> datalink \<Rightarrow> (int \<times> bytes) list \<Rightarrow> string \<times> (exn + int option)" where
  "capture_loop ntop dl_type [] = ([], Inr None)"
| "capture_loop ntop dl_type ((next_ret, pkt_data) # packets) =
     (if next_ret < 0 then ([], Inr (Some (if next_ret = - 1 then 1 else 0)))
      else if next_ret = 0 then capture_loop ntop dl_type packets
      else (case show_packet ntop dl_type pkt_data of
              Inl e \<Rightarrow> ([], Inl e)
            | Inr text \<Rightarrow> (let (cout, r) = capture_loop ntop dl_type packets in (text @ cout, r))))"

subsection \<open>Lemmas\<close>

lemma ipv6_headers_in_bounds:
  "data_offset + 2 \<le> length data \<Longrightarrow> \<exists>r. ipv6_headers data nxt data_offset = Inr r \<and> (\<forall>i. r = Some i \<longrightarrow> i + 2 \<le> length data)"
proof (induction data nxt data_offset rule: ipv6_headers.induct)
  case (1 data nxt i)
  have "byte_at data i = Inr (data ! i)" "byte_at data (i + 1) = Inr (data ! (i + 1))" using 1(2) by (simp_all add: byte_at_def)
  then show ?case using 1(1) [of "data ! i" "data ! (i + 1)"] 1(2) by (subst ipv6_headers.simps) (auto simp: not_less)
qed

definition short_ipv4 :: "bytes \<Rightarrow> bool" where
  "short_ipv4 data \<longleftrightarrow> data \<noteq> [] \<and> hd data AND 0xf0 = 0x40 \<and> hd data AND 0x0f < 5"

lemma process_in_bounds:
  assumes "\<not> short_ipv4 data"
  shows "\<exists>r. process_ipv4_ipv6 ntop data = Inr r \<and> (\<forall>start src dst. r = Some (start, src, dst) \<longrightarrow> start \<le> length data + 8)"
proof (cases "data \<noteq> [] \<and> hd data AND 0xf0 = 0x40 \<and> unat (hd data AND 0x0f) * 4 \<le> length data")
  case True
  then have "5 \<le> hd data AND 0x0f" using assms by (simp add: short_ipv4_def not_less)
  then have "20 \<le> length data" using True by (simp add: word_le_nat_alt)
  then show ?thesis using True
    by (auto simp: process_ipv4_ipv6_def process_ipv4_def byte_at_def inet4_addr_def bytes_at_def Let_def Suc_le_eq)
next
  case False
  show ?thesis
  proof (cases "length data \<ge> 42 \<and> hd data AND 0xf0 = 0x60")
    case True
    obtain r where "ipv6_headers data (data ! 6) 40 = Inr r" "\<forall>i. r = Some i \<longrightarrow> i + 2 \<le> length data"
      using ipv6_headers_in_bounds [of 40 data "data ! 6"] True by auto
    then show ?thesis using True
      by (cases r) (auto simp: process_ipv4_ipv6_def process_ipv6_def byte_at_def inet6_addr_def bytes_at_def)
  qed (use False in \<open>auto simp: process_ipv4_ipv6_def process_ipv4_def process_ipv6_def Let_def Suc_le_eq\<close>)
qed

lemma udp_payload_eq:
  assumes "length pkt_data < 2 ^ 63" "payload_off \<le> length pkt_data + 8"
  shows "udp_payload pkt_data payload_off =
    (if payload_off \<le> length pkt_data then Inr (drop payload_off pkt_data) else Inl (Length_error ''basic_string::_M_create''))"
proof (cases "payload_off \<le> length pkt_data")
  case True
  then show ?thesis using assms(1) by (simp add: udp_payload_def bytes_at_def STRING_MAX_def no_wrap Let_def)
next
  case False
  then have "sub64 (length pkt_data) payload_off = 2 ^ 64 - (payload_off - length pkt_data)"
    using assms by (simp add: sub64_wrap)
  then have "STRING_MAX < sub64 (length pkt_data) payload_off" using assms(2) by (simp add: STRING_MAX_def)
  then show ?thesis using False by (simp add: udp_payload_def)
qed

lemma link_offset_le: "link_offset dl_type pkt_data = Some hdr_off \<Longrightarrow> hdr_off \<le> length pkt_data"
  by (cases dl_type) (auto simp: skip_link_header_def split: if_splits)

subsection \<open>Properties\<close>

text \<open>C35. A packet whose link header is passed and that is not an IPv4 packet with a header length below five words is read within its bounds, and
  the search for the UDP header ends, also over IPv6 extension headers.  The packet is skipped, or it is shown, or, when it ends before the
  UDP payload can begin, the length of the payload wraps around and the program is left with an exception.\<close>

theorem show_packet_outcome:
  assumes "link_offset dl_type pkt_data = Some hdr_off" "length pkt_data < 2 ^ 63" "\<not> short_ipv4 (drop hdr_off pkt_data)"
  shows "\<exists>r. process_ipv4_ipv6 ntop (drop hdr_off pkt_data) = Inr r \<and>
    show_packet ntop dl_type pkt_data =
      (case r of
         None \<Rightarrow> Inr []
       | Some (start_off, src, dst) \<Rightarrow>
           if hdr_off + start_off \<le> length pkt_data
           then (let payload = drop (hdr_off + start_off) pkt_data in Inr (show_segment src dst payload @ hexdump payload 8))
           else Inl (Length_error ''basic_string::_M_create''))"
proof -
  obtain r where r: "process_ipv4_ipv6 ntop (drop hdr_off pkt_data) = Inr r"
    "\<forall>start src dst. r = Some (start, src, dst) \<longrightarrow> start \<le> length (drop hdr_off pkt_data) + 8"
    using process_in_bounds [OF assms(3)] by blast
  have "udp_payload pkt_data (hdr_off + start) = (if hdr_off + start \<le> length pkt_data then Inr (drop (hdr_off + start) pkt_data)
      else Inl (Length_error ''basic_string::_M_create''))" if "r = Some (start, src, dst)" for start src dst
    using r(2) that link_offset_le [OF assms(1)] by (intro udp_payload_eq [OF assms(2)]) auto
  then show ?thesis using assms(1) r(1) by (intro exI [of _ r]) (auto simp: show_packet_def Let_def split: option.splits)
qed

theorem show_packet_outcome_witness:
  "show_packet (\<lambda>_ _. None) DLT_RAW ([0x45, 0, 0, 20, 0, 0, 0, 0, 64, 0x11] @ replicate 10 0) = Inl (Length_error ''basic_string::_M_create'') \<and>
   \<not> short_ipv4 ([0x45, 0, 0, 20, 0, 0, 0, 0, 64, 0x11] @ replicate 10 0)"
proof -
  let ?p = "[0x45, 0, 0, 20, 0, 0, 0, 0, 64, 0x11] @ replicate 10 0 :: bytes"
  have ok: "\<not> short_ipv4 ?p" by (simp add: short_ipv4_def)
  have "process_ipv4_ipv6 (\<lambda>_ _. None) ?p = Inr (Some (28, ''unknown'', ''unknown''))"
    by (simp add: process_ipv4_ipv6_def process_ipv4_def byte_at_def inet4_addr_def bytes_at_def)
  with show_packet_outcome [of DLT_RAW ?p 0 "\<lambda>_ _. None"] ok show ?thesis by auto
qed

text \<open>What \<^verbatim>\<open>TCPOverUDPSocketAdapter\<close> sends is recognised: a segment serialized without a pseudo-header sum, behind a UDP header and an IPv4
  header of any length, is shown with the fields of the segment and a correct checksum.\<close>

theorem dump_shows_segment:
  assumes "tcp_segment_serialize 0 seg = Inr bs" "5 \<le> th_doff (sg_header seg)" "th_doff (sg_header seg) < 16" "length (sg_payload seg) \<le> 65475"
    and "length ip = 4 * unat (hd ip AND 0x0f)" "hd ip AND 0xf0 = 0x40" "5 \<le> hd ip AND 0x0f" "ip ! 9 = 0x11" "length udp = 8"
    and "ntop False (take 4 (drop 12 ip)) = Some src" "ntop False (take 4 (drop 16 ip)) = Some dst"
  shows "\<exists>c. show_packet ntop DLT_RAW (ip @ udp @ bs) =
    Inr (segment_line src dst NoError (seg\<lparr>sg_header := (sg_header seg)\<lparr>th_cksum := c\<rparr>\<rparr>) (length bs) @ hexdump bs 8)"
proof -
  have wf: "tcp_header_wf (sg_header seg)" "unat (th_doff (sg_header seg)) < 16" using assms(2,3) by (simp_all add: tcp_header_wf_def word_less_nat_alt)
  from wf obtain c where c: "tcp_segment_parse bs 0 tcp_segment_new =
      (NoError, tcp_segment_new\<lparr>sg_header := (sg_header seg)\<lparr>th_cksum := c\<rparr>, sg_payload := sg_payload seg\<rparr>)"
    using tcp_segment_roundtrip_lemma [of seg 0 tcp_segment_new] assms(1,4) by auto
  have "tcp_segment_new\<lparr>sg_header := (sg_header seg)\<lparr>th_cksum := c\<rparr>, sg_payload := sg_payload seg\<rparr> = seg\<lparr>sg_header := (sg_header seg)\<lparr>th_cksum := c\<rparr>\<rparr>"
    by (cases seg) (simp add: tcp_segment_new_def)
  with c have shown: "show_segment src dst bs = segment_line src dst NoError (seg\<lparr>sg_header := (sg_header seg)\<lparr>th_cksum := c\<rparr>\<rparr>) (length bs)"
    by (simp add: show_segment_def)
  have "hd ip AND 0x0f \<le> 0x0f" by (rule word_and_le1)
  then have "unat (hd ip AND 0x0f) \<le> 15" by (simp add: word_le_nat_alt)
  then have len_ip: "length ip \<le> 60" using assms(5) by simp
  have len_bs: "length bs \<le> 65535" using tcp_segment_serialize_length [OF wf(1) assms(1)] wf(2) assms(4) by simp
  have len: "20 \<le> length ip" using assms(5,7) by (simp add: word_le_nat_alt)
  then have ne: "ip \<noteq> []" "hd (ip @ udp @ bs) = hd ip" by (cases ip; simp)+
  have at: "byte_at (ip @ udp @ bs) 9 = Inr 0x11" using assms(8) len by (simp add: byte_at_def nth_append)
  have "inet4_addr ntop (ip @ udp @ bs) 12 = Inr src" "inet4_addr ntop (ip @ udp @ bs) 16 = Inr dst"
    using assms(10,11) len by (simp_all add: inet4_addr_def bytes_at_def)
  then have proc: "process_ipv4_ipv6 ntop (ip @ udp @ bs) = Inr (Some (length ip + 8, src, dst))"
    using ne assms(5,6,9) at by (simp add: process_ipv4_ipv6_def process_ipv4_def Suc_le_eq)
  have "udp_payload (ip @ udp @ bs) (length ip + 8) = Inr bs"
    using assms(9) len_ip len_bs by (subst udp_payload_eq) simp_all
  then show ?thesis using shown proc by (auto simp: show_packet_def)
qed

theorem dump_shows_segment_witness:
  "\<exists>bs c. tcp_segment_serialize 0 \<lparr>sg_header = tcp_header_new\<lparr>th_syn := True, th_seqno := 9\<rparr>, sg_payload = [1, 2]\<rparr> = Inr bs \<and>
     show_packet (\<lambda>_ _. Some ''host'') DLT_RAW (([0x45, 0, 0, 20, 0, 0, 0, 0, 64, 0x11] @ replicate 10 0) @ replicate 8 0 @ bs) =
       Inr (segment_line ''host'' ''host'' NoError \<lparr>sg_header = tcp_header_new\<lparr>th_syn := True, th_seqno := 9, th_cksum := c\<rparr>, sg_payload = [1, 2]\<rparr>
         (length bs) @ hexdump bs 8)"
proof -
  let ?seg = "\<lparr>sg_header = tcp_header_new\<lparr>th_syn := True, th_seqno := 9\<rparr>, sg_payload = [1, 2]\<rparr>"
  obtain bs where bs: "tcp_segment_serialize 0 ?seg = Inr bs"
    using tcp_segment_roundtrip_lemma [of ?seg 0 tcp_segment_new] by (auto simp: tcp_header_wf_def tcp_header_new_def)
  show ?thesis
    using dump_shows_segment [OF bs, of "[0x45, 0, 0, 20, 0, 0, 0, 0, 64, 0x11] @ replicate 10 0" "replicate 8 0" "\<lambda>_ _. Some ''host''"] bs
    by (auto simp: tcp_header_new_def)
qed

text \<open>With a wrong checksum the segment is not parsed: what is shown are the fields of an empty header, not those of the packet.\<close>

lemma bad_checksum_shows_empty_header:
  assumes "ic_value (ic_add payload (ic_new 0)) \<noteq> 0"
  shows "show_segment src dst payload = segment_line src dst BadChecksum tcp_segment_new (length payload)"
  using assms by (simp add: show_segment_def tcp_segment_parse_def Let_def)

text \<open>One byte is enough for a read outside the packet.\<close>

lemma short_ipv4_reads_outside:
  "show_packet ntop DLT_RAW [0x40] = Inl (Undefined_behaviour ''read beyond the packet'')"
  by (simp add: show_packet_def process_ipv4_ipv6_def process_ipv4_def byte_at_def)

end
