(* ===== verification/C_Numbers.thy ===== *)
theory C_Numbers
  imports Number_Text Complex_Main
begin

text \<open>
  What the applications use of the C library to read numbers from the command line: \<^verbatim>\<open>strtol\<close> with base 0, \<^verbatim>\<open>strtof\<close> in the C locale,
  the product of two \<^verbatim>\<open>float\<close> values and the conversion of a \<^verbatim>\<open>float\<close> to \<^verbatim>\<open>uint16_t\<close>.  A finite \<^verbatim>\<open>float\<close> is the rational number
  it stands for; the sign of zero plays no part here.  Rounding is to the nearest number with 24 binary digits, and to the even one of two.
\<close>

subsection \<open>Integers\<close>

definition digit_val :: "char \<Rightarrow> nat" where
  "digit_val c =
     (let n = of_char c
      in if 48 \<le> n \<and> n \<le> 57 then n - 48 else if 97 \<le> n \<and> n \<le> 122 then n - 87 else if 65 \<le> n \<and> n \<le> 90 then n - 55 else 99)"

definition digits_in :: "nat \<Rightarrow> string \<Rightarrow> string" where
  "digits_in base s = takeWhile (\<lambda>c. digit_val c < base) s"

definition value_in :: "nat \<Rightarrow> string \<Rightarrow> nat" where
  "value_in base ds = foldl (\<lambda>n c. base * n + digit_val c) 0 ds"

definition sign_of :: "string \<Rightarrow> bool \<times> string" where
  "sign_of s = (if s \<noteq> [] \<and> hd s = CHR ''-'' then (True, tl s) else if s \<noteq> [] \<and> hd s = CHR ''+'' then (False, tl s) else (False, s))"

definition hex_prefix :: "string \<Rightarrow> bool" where
  "hex_prefix s \<longleftrightarrow> take 2 s = ''0x'' \<or> take 2 s = ''0X''"

definition LONG_MAX :: int where
  "LONG_MAX = 9223372036854775807"

definition strtol :: "string \<Rightarrow> int" where
  "strtol s =
     (let (neg, s) = sign_of (dropWhile is_space s);
          (base, s) = (if hex_prefix s \<and> digits_in 16 (drop 2 s) \<noteq> [] then (16, drop 2 s) else if take 1 s = ''0'' then (8, s) else (10, s));
          v = int (value_in base (digits_in base s))
      in max (- LONG_MAX - 1) (min LONG_MAX (if neg then - v else v)))"

text \<open>The result converted to \<^verbatim>\<open>size_t\<close> and to \<^verbatim>\<open>uint16_t\<close>.\<close>

definition size_of_long :: "int \<Rightarrow> nat" where
  "size_of_long n = nat (n mod 18446744073709551616)"

definition u16_of_long :: "int \<Rightarrow> u16" where
  "u16_of_long n = word_of_int n"

subsection \<open>Floating-point numbers\<close>

datatype float_value = Finite rat | Infinite bool | Not_a_number

fun bit_length :: "nat \<Rightarrow> nat" where
  "bit_length n = (if n = 0 then 0 else Suc (bit_length (n div 2)))"

declare bit_length.simps [simp del]

definition pow2 :: "int \<Rightarrow> rat" where
  "pow2 k = (if 0 \<le> k then 2 ^ nat k else 1 / 2 ^ nat (- k))"

text \<open>The exponent \<open>k\<close> with \<open>2 ^ k \<le> q < 2 ^ (k + 1)\<close>, for a positive number.\<close>

definition exponent2 :: "rat \<Rightarrow> int" where
  "exponent2 q =
     (let (a, b) = quotient_of q; k = int (bit_length (nat a)) - int (bit_length (nat b)) in if pow2 k \<le> q then k else k - 1)"

definition round_half_even :: "rat \<Rightarrow> int" where
  "round_half_even x =
     (let n = \<lfloor>x\<rfloor>; r = x - of_int n in if r < 1 / 2 then n else if r > 1 / 2 then n + 1 else if even n then n else n + 1)"

definition round_single :: "rat \<Rightarrow> float_value" where
  "round_single q =
     (if q = 0 then Finite 0
      else (let e = max (- 149) (exponent2 \<bar>q\<bar> - 23); v = of_int (round_half_even (\<bar>q\<bar> / pow2 e)) * pow2 e
            in if v \<ge> pow2 128 then Infinite (q < 0) else Finite (if q < 0 then - v else v)))"

text \<open>The digits around a point, in base 10 or 16; \<open>None\<close> when there is no digit.\<close>

definition read_mantissa :: "nat \<Rightarrow> string \<Rightarrow> (rat \<times> string) option" where
  "read_mantissa base s =
     (let ds = digits_in base s; s = drop (length ds) s;
          fs = (if take 1 s = ''.'' then digits_in base (tl s) else []);
          s = (if take 1 s = ''.'' then drop (length fs) (tl s) else s)
      in if ds = [] \<and> fs = [] then None
         else Some (of_nat (value_in base ds) + of_nat (value_in base fs) / of_nat base ^ length fs, s))"

definition read_exponent :: "char \<Rightarrow> char \<Rightarrow> string \<Rightarrow> int" where
  "read_exponent c1 c2 s =
     (if s \<noteq> [] \<and> (hd s = c1 \<or> hd s = c2)
      then (let (neg, s) = sign_of (tl s); v = int (value_in 10 (digits_in 10 s)) in if neg then - v else v)
      else 0)"

definition power10 :: "int \<Rightarrow> rat" where
  "power10 k = (if 0 \<le> k then 10 ^ nat k else 1 / 10 ^ nat (- k))"

definition lower_case :: "string \<Rightarrow> string" where
  "lower_case s = map (\<lambda>c. if 65 \<le> (of_char c :: nat) \<and> (of_char c :: nat) \<le> 90 then char_of (of_char c + 32 :: nat) else c) s"

definition strtof :: "string \<Rightarrow> float_value" where
  "strtof s =
     (let (neg, s) = sign_of (dropWhile is_space s); signed = (\<lambda>q. round_single (if neg then - q else q))
      in if lower_case (take 3 s) = ''inf'' then Infinite neg
         else if lower_case (take 3 s) = ''nan'' then Not_a_number
         else if hex_prefix s \<and> read_mantissa 16 (drop 2 s) \<noteq> None
         then (case read_mantissa 16 (drop 2 s) of
                 None \<Rightarrow> Finite 0
               | Some (m, s) \<Rightarrow> signed (m * pow2 (read_exponent CHR ''p'' CHR ''P'' s)))
         else (case read_mantissa 10 s of
                 None \<Rightarrow> Finite 0
               | Some (m, s) \<Rightarrow> signed (m * power10 (read_exponent CHR ''e'' CHR ''E'' s))))"

text \<open>The loss rate of the applications: \<open>65535.0f * x\<close>, truncated; a value that does not fit has no meaning.\<close>

definition float_times :: "rat \<Rightarrow> float_value \<Rightarrow> float_value" where
  "float_times c x =
     (case x of Finite q \<Rightarrow> round_single (c * q) | Infinite s \<Rightarrow> (if c = 0 then Not_a_number else Infinite (s \<noteq> (c < 0))) | Not_a_number \<Rightarrow> Not_a_number)"

definition truncate_rat :: "rat \<Rightarrow> int" where
  "truncate_rat q = (if q < 0 then - \<lfloor>- q\<rfloor> else \<lfloor>q\<rfloor>)"

definition u16_of_float :: "float_value \<Rightarrow> exn + u16" where
  "u16_of_float x =
     (case x of
        Finite q \<Rightarrow> if 0 \<le> truncate_rat q \<and> truncate_rat q \<le> 65535 then Inr (word_of_int (truncate_rat q))
                    else Inl (Undefined_behaviour ''float value outside uint16_t'')
      | _ \<Rightarrow> Inl (Undefined_behaviour ''float value outside uint16_t''))"

definition loss_rate :: "string \<Rightarrow> exn + u16" where
  "loss_rate s = u16_of_float (float_times 65535 (strtof s))"

subsection \<open>Lemmas\<close>

lemma pow2_pos [simp]: "0 < pow2 k" "0 \<le> pow2 k" "pow2 k \<noteq> 0"
  by (simp_all add: pow2_def)

lemma pow2_eq: "pow2 k = 2 powi k"
  unfolding pow2_def power_int_def inverse_eq_divide power_one_over by simp

lemma pow2_add: "pow2 (j + k) = pow2 j * pow2 k"
  unfolding pow2_eq by (rule power_int_add) simp

lemma pow2_mono: "j \<le> k \<Longrightarrow> pow2 j \<le> pow2 k"
proof -
  assume "j \<le> k"
  then have "pow2 k = pow2 j * 2 ^ nat (k - j)" using pow2_add [of j "k - j"] by (simp add: pow2_def)
  then show ?thesis by simp
qed

lemma round_half_even_near: "\<bar>of_int (round_half_even x) - x\<bar> \<le> 1 / 2"
proof -
  define n where "n = \<lfloor>x\<rfloor>"
  have n: "of_int n \<le> x" "x < of_int n + 1" unfolding n_def by linarith+
  have r: "round_half_even x = (if x - of_int n < 1 / 2 then n else if x - of_int n > 1 / 2 then n + 1 else if even n then n else n + 1)"
    by (simp add: round_half_even_def n_def Let_def)
  consider "round_half_even x = n" "x - of_int n \<le> 1 / 2" | "round_half_even x = n + 1" "x - of_int n \<ge> 1 / 2"
    unfolding r by (cases "x - of_int n" "1 / 2 :: rat" rule: linorder_cases; cases "even n") auto
  then show ?thesis using n by cases (simp_all add: abs_le_iff)
qed

lemma round_single_near:
  assumes "q \<ge> 0" "e = max (- 149) (exponent2 q - 23)" "q + pow2 e < pow2 128"
  shows "\<exists>v. round_single q = Finite v \<and> \<bar>v - q\<bar> \<le> pow2 e / 2"
proof (cases "q = 0")
  case True
  then show ?thesis using pow2_pos [of e] by (simp add: round_single_def less_imp_le)
next
  case False
  let ?m = "of_int (round_half_even (q / pow2 e)) :: rat"
  have "\<bar>?m - q / pow2 e\<bar> \<le> 1 / 2" by (rule round_half_even_near)
  then have "\<bar>?m - q / pow2 e\<bar> * pow2 e \<le> 1 / 2 * pow2 e" by (intro mult_right_mono) simp_all
  also have "\<bar>?m - q / pow2 e\<bar> * pow2 e = \<bar>(?m - q / pow2 e) * pow2 e\<bar>" by (simp add: abs_mult)
  also have "(?m - q / pow2 e) * pow2 e = ?m * pow2 e - q" using pow2_pos [of e] by (simp add: algebra_simps)
  finally have near: "\<bar>?m * pow2 e - q\<bar> \<le> pow2 e / 2" by simp
  have "pow2 e > 0" by simp
  with near have "?m * pow2 e < pow2 128" using assms(3) by linarith
  then show ?thesis using near False assms(1,2) by (simp add: round_single_def Let_def)
qed

lemma bit_length_bounds: "n < 2 ^ bit_length n" "0 < n \<Longrightarrow> 2 ^ (bit_length n - 1) \<le> n"
proof -
  have "n < 2 ^ bit_length n \<and> (0 < n \<longrightarrow> 2 ^ (bit_length n - 1) \<le> n)" for n
  proof (induction n rule: bit_length.induct)
    case (1 n)
    show ?case
    proof (cases "n = 0")
      case False
      then have IH: "n div 2 < 2 ^ bit_length (n div 2)" "0 < n div 2 \<longrightarrow> 2 ^ (bit_length (n div 2) - 1) \<le> n div 2" using 1 by simp_all
      have bl: "bit_length n = Suc (bit_length (n div 2))" using False by (subst bit_length.simps) simp
      have low: "2 ^ bit_length (n div 2) \<le> n"
      proof (cases "n div 2 = 0")
        case True
        then show ?thesis using False by (simp add: bit_length.simps)
      next
        case False
        then have "bit_length (n div 2) = Suc (bit_length (n div 2) - 1)" by (subst (1 2) bit_length.simps) simp
        then have "(2 :: nat) ^ bit_length (n div 2) = 2 * 2 ^ (bit_length (n div 2) - 1)" by (metis power_Suc)
        then show ?thesis using IH(2) False by linarith
      qed
      show ?thesis using IH(1) low by (simp add: bl)
    qed (simp add: bit_length.simps)
  qed
  then show "n < 2 ^ bit_length n" "0 < n \<Longrightarrow> 2 ^ (bit_length n - 1) \<le> n" by blast+
qed

lemma exponent2_upper:
  assumes "0 < q" "q < 2 ^ n"
  shows "exponent2 q < int n"
proof (rule ccontr)
  assume "\<not> exponent2 q < int n"
  then have n: "int n \<le> exponent2 q" by simp
  obtain a b where ab: "quotient_of q = (a, b)" by fastforce
  have "pow2 (exponent2 q) \<le> q"
  proof -
    let ?k = "int (bit_length (nat a)) - int (bit_length (nat b))"
    have b: "0 < b" and q: "q = of_int a / of_int b" using quotient_of_denom_pos [OF ab] quotient_of_div [OF ab] by auto
    then have a: "0 < a" using assms(1) by (simp add: zero_less_divide_iff)
    have bl: "0 < bit_length (nat a)" using a by (subst bit_length.simps) simp
    have "(2 :: nat) ^ (bit_length (nat a) - 1) \<le> nat a" "nat b < 2 ^ bit_length (nat b)"
      using bit_length_bounds(2) [of "nat a"] bit_length_bounds(1) [of "nat b"] a by linarith+
    then have "(2 :: rat) ^ (bit_length (nat a) - 1) \<le> of_int a" "of_int b \<le> (2 :: rat) ^ bit_length (nat b)"
      using a b by (metis of_nat_le_iff of_nat_power of_nat_numeral of_nat_nat less_imp_le of_int_of_nat_eq)+
    then have "(2 :: rat) ^ (bit_length (nat a) - 1) / 2 ^ bit_length (nat b) \<le> q"
      unfolding q using b a by (intro frac_le) simp_all
    moreover have "pow2 (?k - 1) = 2 ^ (bit_length (nat a) - 1) / 2 ^ bit_length (nat b)"
      using bl by (simp add: pow2_eq power_int_diff flip: power_int_of_nat)
    ultimately show ?thesis by (simp add: exponent2_def ab Let_def)
  qed
  moreover have "pow2 (int n) \<le> pow2 (exponent2 q)" by (rule pow2_mono [OF n])
  ultimately show False using assms(2) by (simp add: pow2_def)
qed

lemma round_single_small:
  assumes "0 \<le> q" "q < 65536"
  obtains v where "round_single q = Finite v" "\<bar>v - q\<bar> \<le> 1 / 512"
proof -
  let ?e = "max (- 149) (exponent2 q - 23)"
  have e: "pow2 ?e \<le> 1 / 256" if "0 < q"
  proof -
    have "exponent2 q < 16" using exponent2_upper [of q 16] assms that by simp
    then have "pow2 ?e \<le> pow2 (- 8)" by (intro pow2_mono) simp
    then show ?thesis by (simp add: pow2_def)
  qed
  show ?thesis
  proof (cases "q = 0")
    case True
    then show ?thesis using that by (simp add: round_single_def)
  next
    case False
    have "q + pow2 ?e < 65537" using e False assms by simp
    also have "(65537 :: rat) \<le> pow2 128" by (simp add: pow2_def)
    finally obtain v where "round_single q = Finite v" "\<bar>v - q\<bar> \<le> pow2 ?e / 2" using round_single_near [OF assms(1) refl] by blast
    then show ?thesis using that [of v] e False assms(1) by simp
  qed
qed

text \<open>A loss rate between 0 and 1 on the command line is converted without undefined behaviour, and to the right number: the result is the
  product with 65535 rounded down, up to the rounding of the product to single precision, at most 1/512.\<close>

theorem loss_rate_bounds:
  assumes "strtof s = Finite q" "0 \<le> q" "q \<le> 1"
  shows "\<exists>w. loss_rate s = Inr w \<and> of_nat (unat w) \<le> 65535 * q + 1 / 512 \<and> 65535 * q - 1 / 512 < of_nat (unat w) + 1"
proof -
  obtain v where v: "round_single (65535 * q) = Finite v" "\<bar>v - 65535 * q\<bar> \<le> 1 / 512"
    using round_single_small [of "65535 * q"] assms(2,3) by auto
  have near: "v \<le> 65535 * q + 1 / 512" "65535 * q - 1 / 512 \<le> v" using v(2) unfolding abs_le_iff by linarith+
  define t where "t = truncate_rat v"
  have "0 \<le> t \<and> t \<le> 65535 \<and> of_int t \<le> 65535 * q + 1 / 512 \<and> 65535 * q - 1 / 512 < of_int t + 1"
  proof (cases "v < 0")
    case True
    then have "- v < 1" using near assms(2) by linarith
    then have "\<lfloor>- v\<rfloor> = 0" using True by (simp add: floor_eq_iff)
    then have "t = 0" using True by (simp add: t_def truncate_rat_def)
    then show ?thesis using near True assms(2) by simp
  next
    case False
    then have "t = \<lfloor>v\<rfloor>" by (simp add: t_def truncate_rat_def)
    then have f: "of_int t \<le> v" "v < of_int t + 1" by linarith+
    have "of_int t < (65536 :: rat)" using f(1) near(1) assms(3) by linarith
    moreover have "of_int t > (- 1 :: rat)" using f(2) False by linarith
    ultimately have "0 \<le> t" "t \<le> 65535" by linarith+
    then show ?thesis using near f by linarith
  qed
  then have t: "0 \<le> t" "t \<le> 65535" "of_int t \<le> 65535 * q + 1 / 512" "65535 * q - 1 / 512 < of_int t + 1" by blast+
  have "unat (word_of_int t :: u16) = nat t" using t(1,2) by (simp add: unat_eq_nat_uint uint_word_of_int_eq take_bit_int_eq_self)
  then have "(of_nat (unat (word_of_int t :: u16)) :: rat) = of_int t" using t(1) by simp
  moreover have "loss_rate s = Inr (word_of_int t)"
    using t(1,2) assms(1) v(1) by (simp add: loss_rate_def float_times_def u16_of_float_def t_def)
  ultimately show ?thesis using t(3,4) by auto
qed

theorem loss_rate_bounds_witness:
  "\<exists>w. strtof ''0.5'' = Finite (1 / 2) \<and> loss_rate ''0.5'' = Inr w \<and> of_nat (unat w) \<le> 65535 * (1 / 2 :: rat) + 1 / 512"
proof -
  have "strtof ''0.5'' = Finite (1 / 2)" by code_simp
  with loss_rate_bounds [of "''0.5''" "1 / 2"] show ?thesis by auto
qed

end
