(* ===== verification/Command_Line.thy ===== *)
theory Command_Line
  imports C_Numbers Adapters Header_Text
begin

text \<open>
  \<^verbatim>\<open>get_config\<close> of \<^verbatim>\<open>apps/tcp_ipv4.cc\<close>, \<^verbatim>\<open>apps/tcp_udp.cc\<close> and \<^verbatim>\<open>apps/tcp_ip_ethernet.cc\<close>: options in front of two positional
  arguments.  The three loops have one form and differ in their chains of options; \<open>option_loop\<close> is the loop, a function from words
  to \<open>option_kind\<close> the chain.  \<open>argv\<close> is the list of arguments, none of which contains a NUL; what is left of it at position \<^verbatim>\<open>curr\<close> is the list
  that the loop works on, so \<^verbatim>\<open>argc - curr\<close> is its length.  \<open>Exited\<close> has the status and the text that was printed.
\<close>

datatype 'a outcome = Exited int string | Threw exn | Done 'a

text \<open>\<^verbatim>\<open>strncmp(a, b, n) == 0\<close>.\<close>

definition strncmp_same :: "string \<Rightarrow> string \<Rightarrow> nat \<Rightarrow> bool" where
  "strncmp_same a b n \<longleftrightarrow> take n (a @ [CHR 0x00]) = take n (b @ [CHR 0x00])"

datatype 's option_kind = Flag "'s \<Rightarrow> 's" | With_value string "string \<Rightarrow> 's \<Rightarrow> exn + 's" | Help | Unknown

text \<open>The while loop, with \<^verbatim>\<open>check_argc\<close> for the options that have a value.\<close>

fun option_loop :: "(string option \<Rightarrow> string) \<Rightarrow> (string \<Rightarrow> 's option_kind) \<Rightarrow> string list \<Rightarrow> 's \<Rightarrow> (string list \<times> 's) outcome" where
  "option_loop usage kind [] s = Done ([], s)"
| "option_loop usage kind (a # args) s =
     (if length (a # args) > 2
      then (case kind a of
              Flag f \<Rightarrow> option_loop usage kind args (f s)
            | With_value err f \<Rightarrow>
                if 3 \<ge> length (a # args) then Exited 1 (usage (Some err))
                else (case f (hd args) s of Inl e \<Rightarrow> Threw e | Inr s \<Rightarrow> option_loop usage kind (tl args) s)
            | Help \<Rightarrow> Exited 0 (usage None)
            | Unknown \<Rightarrow> Exited 1 (usage (Some (''ERROR: unrecognized option '' @ a))))
      else Done (a # args, s))"

definition with_message :: "string \<Rightarrow> string option \<Rightarrow> string" where
  "with_message text msg = text @ (case msg of None \<Rightarrow> '''' | Some m \<Rightarrow> m) @ [newline]"

definition argv_out_of_range :: exn where
  "argv_out_of_range = Undefined_behaviour ''string constructed from a null pointer''"

text \<open>The values of the options \<^verbatim>\<open>-w\<close> and \<^verbatim>\<open>-t\<close>.\<close>

definition set_window :: "string \<Rightarrow> tcp_config \<Rightarrow> tcp_config" where
  "set_window v c = c\<lparr>cfg_recv_capacity := size_of_long (strtol v)\<rparr>"

definition set_timeout :: "string \<Rightarrow> tcp_config \<Rightarrow> tcp_config" where
  "set_timeout v c = c\<lparr>cfg_rt_timeout := u16_of_long (strtol v)\<rparr>"

text \<open>Lines of the usage texts that more than one program has; \<open>blank\<close> ends a group.\<close>

abbreviation blank :: string where
  "blank \<equiv> [newline, newline]"

definition usage_head :: "string \<Rightarrow> string" where
  "usage_head argv0 = ''Usage: '' @ argv0 @ '' [options] <host> <port>'' @ blank @
     ''   Option                                                          Default'' @ [newline] @
     ''   --                                                              --'' @ blank"

definition usage_listen :: string where
  "usage_listen = ''   -l              Server (listen) mode.                           (client mode)'' @ [newline] @
     ''                   In server mode, <host>:<port> is the address to bind.'' @ blank"

definition usage_numbers :: string where
  "usage_numbers = ''   -w <winsz>      Use a window of <winsz> bytes                   '' @ to_string MAX_PAYLOAD_SIZE @ blank @
     ''   -t <tmout>      Set rt_timeout to tmout                         '' @ to_string (unat TIMEOUT_DFLT) @ blank"

definition usage_loss :: string where
  "usage_loss = ''   -Lu <loss>      Set uplink loss to <rate> (float in 0..1)       (no loss)'' @ [newline] @
     ''   -Ld <loss>      Set downlink loss to <rate> (float in 0..1)     (no loss)'' @ blank"

subsection \<open>tcp_ipv4\<close>

record ipv4_options =
  io_fsm :: tcp_config
  io_filt :: fd_adapter_config
  io_tundev :: "string option"
  io_listen :: bool
  io_source_address :: string
  io_source_port :: string

definition LOCAL_ADDRESS_DFLT :: string where
  "LOCAL_ADDRESS_DFLT = ''169.254.144.9''"

definition TUN_DFLT :: string where
  "TUN_DFLT = ''tun144''"

definition ipv4_usage :: "string \<Rightarrow> string option \<Rightarrow> string" where
  "ipv4_usage argv0 = with_message (usage_head argv0 @ usage_listen @
     ''   -a <addr>       Set source address (client mode only)           '' @ LOCAL_ADDRESS_DFLT @ [newline] @
     ''   -s <port>       Set source port (client mode only)              (random)'' @ blank @ usage_numbers @
     ''   -d <tundev>     Connect to tun <tundev>                         '' @ TUN_DFLT @ blank @ usage_loss @
     ''   -h              Show this message.'' @ blank)"

definition ipv4_option :: "string \<Rightarrow> ipv4_options option_kind" where
  "ipv4_option a =
     (if strncmp_same ''-l'' a 3 then Flag (\<lambda>s. s\<lparr>io_listen := True\<rparr>)
      else if strncmp_same ''-a'' a 3 then With_value ''ERROR: -a requires one argument.'' (\<lambda>v s. Inr (s\<lparr>io_source_address := v\<rparr>))
      else if strncmp_same ''-s'' a 3 then With_value ''ERROR: -s requires one argument.'' (\<lambda>v s. Inr (s\<lparr>io_source_port := v\<rparr>))
      else if strncmp_same ''-w'' a 3 then With_value ''ERROR: -w requires one argument.'' (\<lambda>v s. Inr (s\<lparr>io_fsm := set_window v (io_fsm s)\<rparr>))
      else if strncmp_same ''-t'' a 3 then With_value ''ERROR: -t requires one argument.'' (\<lambda>v s. Inr (s\<lparr>io_fsm := set_timeout v (io_fsm s)\<rparr>))
      else if strncmp_same ''-d'' a 3 then With_value ''ERROR: -t requires one argument.'' (\<lambda>v s. Inr (s\<lparr>io_tundev := Some v\<rparr>))
      else if strncmp_same ''-Lu'' a 3
      then With_value ''ERROR: -Lu requires one argument.''
             (\<lambda>v s. map_sum id (\<lambda>loss. s\<lparr>io_filt := (io_filt s)\<lparr>fa_loss_rate_up := loss\<rparr>\<rparr>) (loss_rate v))
      else if strncmp_same ''-Ld'' a 3
      then With_value ''ERROR: -Lu requires one argument.''
             (\<lambda>v s. map_sum id (\<lambda>loss. s\<lparr>io_filt := (io_filt s)\<lparr>fa_loss_rate_dn := loss\<rparr>\<rparr>) (loss_rate v))
      else if strncmp_same ''-h'' a 3 then Help
      else Unknown)"

definition ipv4_start :: "fd_adapter_config \<Rightarrow> u32 \<Rightarrow> ipv4_options" where
  "ipv4_start c_filt rnd =
     \<lparr>io_fsm = tcp_config_default, io_filt = c_filt, io_tundev = None, io_listen = False,
      io_source_address = LOCAL_ADDRESS_DFLT, io_source_port = to_string (unat (ucast rnd :: u16))\<rparr>"

text \<open>The part after the loop: \<open>args\<close> are the arguments from \<^verbatim>\<open>argv[curr]\<close> on.\<close>

definition ipv4_positional :: "resolver \<Rightarrow> namer \<Rightarrow> string \<Rightarrow> string list \<Rightarrow> ipv4_options \<Rightarrow>
    (tcp_config \<times> fd_adapter_config \<times> bool \<times> string option) outcome" where
  "ipv4_positional gai gni argv0 args s =
     (if length args < 2 then Threw argv_out_of_range
      else if io_listen s
      then (case address_of_host gai ''0'' (args ! 1) of
              Inl e \<Rightarrow> Threw e
            | Inr source \<Rightarrow>
                (case address_port gni source of
                   Inl e \<Rightarrow> Threw e
                 | Inr port \<Rightarrow>
                     if port = 0 then Exited 1 (ipv4_usage argv0 (Some ''ERROR: listen port cannot be zero in server mode.''))
                     else Done (io_fsm s, (io_filt s)\<lparr>fa_source := source\<rparr>, io_listen s, io_tundev s)))
      else (case address_of_host gai (args ! 0) (args ! 1) of
              Inl e \<Rightarrow> Threw e
            | Inr destination \<Rightarrow>
                (case address_of_host gai (io_source_address s) (io_source_port s) of
                   Inl e \<Rightarrow> Threw e
                 | Inr source \<Rightarrow>
                     Done (io_fsm s, (io_filt s)\<lparr>fa_destination := destination, fa_source := source\<rparr>, io_listen s, io_tundev s))))"

definition ipv4_get_config :: "resolver \<Rightarrow> namer \<Rightarrow> u32 \<Rightarrow> string list \<Rightarrow> (tcp_config \<times> fd_adapter_config \<times> bool \<times> string option) outcome" where
  "ipv4_get_config gai gni rnd argv =
     (case fd_adapter_config_new gai of
        Inl e \<Rightarrow> Threw e
      | Inr c_filt \<Rightarrow>
          (case option_loop (ipv4_usage (hd argv)) ipv4_option (tl argv) (ipv4_start c_filt rnd) of
             Exited n text \<Rightarrow> Exited n text
           | Threw e \<Rightarrow> Threw e
           | Done (args, s) \<Rightarrow> ipv4_positional gai gni (hd argv) args s))"

subsection \<open>tcp_udp\<close>

record udp_options =
  uo_fsm :: tcp_config
  uo_filt :: fd_adapter_config
  uo_listen :: bool

definition udp_usage :: "string \<Rightarrow> string option \<Rightarrow> string" where
  "udp_usage argv0 = with_message (usage_head argv0 @ usage_listen @ usage_numbers @ usage_loss @
     ''   -h              Show this message and quit.'' @ blank)"

definition udp_option :: "string \<Rightarrow> udp_options option_kind" where
  "udp_option a =
     (if strncmp_same ''-l'' a 3 then Flag (\<lambda>s. s\<lparr>uo_listen := True\<rparr>)
      else if strncmp_same ''-w'' a 3 then With_value ''ERROR: -w requires one argument.'' (\<lambda>v s. Inr (s\<lparr>uo_fsm := set_window v (uo_fsm s)\<rparr>))
      else if strncmp_same ''-t'' a 3 then With_value ''ERROR: -t requires one argument.'' (\<lambda>v s. Inr (s\<lparr>uo_fsm := set_timeout v (uo_fsm s)\<rparr>))
      else if strncmp_same ''-Lu'' a 3
      then With_value ''ERROR: -Lu requires one argument.''
             (\<lambda>v s. map_sum id (\<lambda>loss. s\<lparr>uo_filt := (uo_filt s)\<lparr>fa_loss_rate_up := loss\<rparr>\<rparr>) (loss_rate v))
      else if strncmp_same ''-Ld'' a 3
      then With_value ''ERROR: -Lu requires one argument.''
             (\<lambda>v s. map_sum id (\<lambda>loss. s\<lparr>uo_filt := (uo_filt s)\<lparr>fa_loss_rate_dn := loss\<rparr>\<rparr>) (loss_rate v))
      else if strncmp_same ''-h'' a 3 then Help
      else Unknown)"

text \<open>Here the positional arguments are counted from the end of \<^verbatim>\<open>argv\<close>.\<close>

definition udp_get_config :: "resolver \<Rightarrow> string list \<Rightarrow> (tcp_config \<times> fd_adapter_config \<times> bool) outcome" where
  "udp_get_config gai argv =
     (case fd_adapter_config_new gai of
        Inl e \<Rightarrow> Threw e
      | Inr c_filt \<Rightarrow>
          (case option_loop (udp_usage (hd argv)) udp_option (tl argv) \<lparr>uo_fsm = tcp_config_default, uo_filt = c_filt, uo_listen = False\<rparr> of
             Exited n text \<Rightarrow> Exited n text
           | Threw e \<Rightarrow> Threw e
           | Done (_, s) \<Rightarrow>
               if length argv < 2 then Threw argv_out_of_range
               else (case address_of_host gai (if uo_listen s then ''0'' else argv ! (length argv - 2)) (argv ! (length argv - 1)) of
                       Inl e \<Rightarrow> Threw e
                     | Inr a \<Rightarrow> Done (uo_fsm s, if uo_listen s then (uo_filt s)\<lparr>fa_source := a\<rparr> else (uo_filt s)\<lparr>fa_destination := a\<rparr>, uo_listen s))))"

subsection \<open>tcp_ip_ethernet\<close>

record ethernet_options =
  eo_fsm :: tcp_config
  eo_filt :: fd_adapter_config
  eo_tapdev :: string
  eo_source_address :: string
  eo_source_port :: string
  eo_next_hop_address :: string

definition TAP_DFLT :: string where
  "TAP_DFLT = ''tap10''"

definition TAP_LOCAL_ADDRESS_DFLT :: string where
  "TAP_LOCAL_ADDRESS_DFLT = ''169.254.10.9''"

definition GATEWAY_DFLT :: string where
  "GATEWAY_DFLT = ''169.254.10.1''"

definition ethernet_usage :: "string \<Rightarrow> string option \<Rightarrow> string" where
  "ethernet_usage argv0 = with_message (usage_head argv0 @
     ''   -a <addr>       Set IP source address (client mode only)        '' @ TAP_LOCAL_ADDRESS_DFLT @ [newline] @
     ''   -s <port>       Set TCP source port (client mode only)          (random)'' @ blank @
     ''   -n <addr>       Set IP next-hop address                         '' @ GATEWAY_DFLT @ [newline] @ usage_numbers @
     ''   -d <tapdev>     Connect to tap <tapdev>                         '' @ TAP_DFLT @ blank @
     ''   -h              Show this message.'' @ blank)"

definition ethernet_option :: "string \<Rightarrow> ethernet_options option_kind" where
  "ethernet_option a =
     (if strncmp_same ''-a'' a 3 then With_value ''ERROR: -a requires one argument.'' (\<lambda>v s. Inr (s\<lparr>eo_source_address := v\<rparr>))
      else if strncmp_same ''-s'' a 3 then With_value ''ERROR: -s requires one argument.'' (\<lambda>v s. Inr (s\<lparr>eo_source_port := v\<rparr>))
      else if strncmp_same ''-n'' a 3 then With_value ''ERROR: -n requires one argument.'' (\<lambda>v s. Inr (s\<lparr>eo_next_hop_address := v\<rparr>))
      else if strncmp_same ''-w'' a 3 then With_value ''ERROR: -w requires one argument.'' (\<lambda>v s. Inr (s\<lparr>eo_fsm := set_window v (eo_fsm s)\<rparr>))
      else if strncmp_same ''-t'' a 3 then With_value ''ERROR: -t requires one argument.'' (\<lambda>v s. Inr (s\<lparr>eo_fsm := set_timeout v (eo_fsm s)\<rparr>))
      else if strncmp_same ''-d'' a 3 then With_value ''ERROR: -t requires one argument.'' (\<lambda>v s. Inr (s\<lparr>eo_tapdev := v\<rparr>))
      else if strncmp_same ''-h'' a 3 then Help
      else Unknown)"

definition ethernet_start :: "fd_adapter_config \<Rightarrow> u32 \<Rightarrow> ethernet_options" where
  "ethernet_start c_filt rnd =
     \<lparr>eo_fsm = tcp_config_default, eo_filt = c_filt, eo_tapdev = TAP_DFLT, eo_source_address = TAP_LOCAL_ADDRESS_DFLT,
      eo_source_port = to_string (unat (ucast rnd :: u16)), eo_next_hop_address = GATEWAY_DFLT\<rparr>"

definition ethernet_positional :: "resolver \<Rightarrow> string list \<Rightarrow> ethernet_options \<Rightarrow> (tcp_config \<times> fd_adapter_config \<times> address \<times> string) outcome" where
  "ethernet_positional gai args s =
     (if length args < 2 then Threw argv_out_of_range
      else (case address_of_host gai (args ! 0) (args ! 1) of
              Inl e \<Rightarrow> Threw e
            | Inr destination \<Rightarrow>
                (case address_of_host gai (eo_source_address s) (eo_source_port s) of
                   Inl e \<Rightarrow> Threw e
                 | Inr source \<Rightarrow>
                     (case address_of_host gai (eo_next_hop_address s) ''0'' of
                        Inl e \<Rightarrow> Threw e
                      | Inr next_hop \<Rightarrow> Done (eo_fsm s, (eo_filt s)\<lparr>fa_destination := destination, fa_source := source\<rparr>, next_hop, eo_tapdev s)))))"

definition ethernet_get_config :: "resolver \<Rightarrow> u32 \<Rightarrow> string list \<Rightarrow> (tcp_config \<times> fd_adapter_config \<times> address \<times> string) outcome" where
  "ethernet_get_config gai rnd argv =
     (case fd_adapter_config_new gai of
        Inl e \<Rightarrow> Threw e
      | Inr c_filt \<Rightarrow>
          (case option_loop (ethernet_usage (hd argv)) ethernet_option (tl argv) (ethernet_start c_filt rnd) of
             Exited n text \<Rightarrow> Exited n text
           | Threw e \<Rightarrow> Threw e
           | Done (args, s) \<Rightarrow> ethernet_positional gai args s))"

end
