(* ===== verification/Command_Words.thy ===== *)
theory Command_Words
  imports Command_Line
begin

text \<open>
  What command lines mean.  A \<open>setting\<close> is an option of the usage texts with its value, \<open>words\<close> how one types it.  The locale \<open>option_table\<close>
  has the contract between the table of a program's options and the meaning of its settings; in it, the loop over the options is proved to
  apply the settings in order.  The three tables are instances.
\<close>

subsection \<open>Reading numbers back\<close>

lemma to_string_value_in [simp]: "value_in 10 (to_string n) = n"
proof (induction n rule: to_string.induct)
  case (1 n)
  have d: "d < 10 \<Longrightarrow> digit_val (digit_char d) = d" for d by (simp add: digit_val_def of_char_digit)
  show ?case using 1 by (cases "n < 10"; subst to_string.simps) (simp_all add: value_in_def d)
qed

lemma is_digit_val: "is_digit c \<Longrightarrow> digit_val c < 10"
  by (auto simp: is_digit_def digit_val_def)

lemma hd_to_string: "0 < n \<Longrightarrow> hd (to_string n) \<noteq> CHR ''0''"
proof (induction n rule: to_string.induct)
  case (1 n)
  show ?case
  proof (cases "n < 10")
    case True
    have "(of_char (digit_char n) :: nat) \<noteq> of_char CHR ''0''" using True 1(2) by (simp add: of_char_digit)
    then have "digit_char n \<noteq> CHR ''0''" by metis
    then show ?thesis using True by (subst to_string.simps) simp
  next
    case False
    then show ?thesis using 1 by (subst to_string.simps) (simp add: hd_append)
  qed
qed

lemma strtol_to_string:
  assumes "int n \<le> LONG_MAX"
  shows "strtol (to_string n) = int n"
proof -
  obtain c r where cr: "to_string n = c # r" by (cases "to_string n") simp_all
  have ds: "\<forall>x \<in> set (to_string n). is_digit x" by (rule to_string_digits)
  then have "is_digit c" by (simp add: cr)
  then have c: "\<not> is_space c" "c \<noteq> CHR ''-''" "c \<noteq> CHR ''+''" by (auto simp: is_digit_def is_space_def)
  then have s: "sign_of (dropWhile is_space (to_string n)) = (False, to_string n)" by (simp add: sign_of_def cr)
  have h: "\<not> hex_prefix (to_string n)"
    using ds unfolding hex_prefix_def cr by (cases r) (auto simp: is_digit_def)
  have all: "digits_in 10 (to_string n) = to_string n"
    unfolding digits_in_def takeWhile_eq_all_conv using ds is_digit_val by blast
  show ?thesis
  proof (cases "n = 0")
    case True
    have "strtol (to_string 0) = 0" by code_simp
    then show ?thesis using True by simp
  next
    case False
    then have "take 1 (to_string n) \<noteq> ''0''" using hd_to_string [of n] by (simp add: cr)
    then show ?thesis using assms by (simp add: strtol_def s h all)
  qed
qed

subsection \<open>Settings\<close>

datatype setting =
    Listen
  | Source_address string
  | Source_port string
  | Next_hop string
  | Window nat
  | Timeout u16
  | Device string
  | Loss_up string
  | Loss_down string

fun words :: "setting \<Rightarrow> string list" where
  "words Listen = [''-l'']"
| "words (Source_address a) = [''-a'', a]"
| "words (Source_port p) = [''-s'', p]"
| "words (Next_hop a) = [''-n'', a]"
| "words (Window n) = [''-w'', to_string n]"
| "words (Timeout t) = [''-t'', to_string (unat t)]"
| "words (Device d) = [''-d'', d]"
| "words (Loss_up r) = [''-Lu'', r]"
| "words (Loss_down r) = [''-Ld'', r]"

fun window_fits :: "setting \<Rightarrow> bool" where
  "window_fits (Window n) \<longleftrightarrow> int n \<le> LONG_MAX"
| "window_fits _ \<longleftrightarrow> True"

fun apply_all :: "('o \<Rightarrow> 's \<Rightarrow> exn + 's) \<Rightarrow> 'o list \<Rightarrow> 's \<Rightarrow> exn + 's" where
  "apply_all f [] s = Inr s"
| "apply_all f (x # xs) s = (case f x s of Inl e \<Rightarrow> Inl e | Inr s \<Rightarrow> apply_all f xs s)"

locale option_table =
  fixes kind :: "string \<Rightarrow> 's option_kind"
    and valid :: "setting \<Rightarrow> bool"
    and apply_one :: "setting \<Rightarrow> 's \<Rightarrow> exn + 's"
  assumes entry: "valid x \<Longrightarrow>
    (\<exists>w f. words x = [w] \<and> kind w = Flag f \<and> (\<forall>s. apply_one x s = Inr (f s))) \<or>
    (\<exists>w v err f. words x = [w, v] \<and> kind w = With_value err f \<and> (\<forall>s. apply_one x s = f v s))"
begin

lemma loop_applies:
  assumes "list_all valid xs"
  shows "option_loop usage kind (concat (map words xs) @ [host, service]) s =
    (case apply_all apply_one xs s of Inl e \<Rightarrow> Threw e | Inr s \<Rightarrow> Done ([host, service], s))"
  using assms
proof (induction xs arbitrary: s)
  case (Cons x xs)
  then have IH: "option_loop usage kind (concat (map words xs) @ [host, service]) s =
    (case apply_all apply_one xs s of Inl e \<Rightarrow> Threw e | Inr s \<Rightarrow> Done ([host, service], s))" for s by simp
  from Cons.prems have "valid x" by simp
  from entry [OF this] show ?case
  proof (elim disjE exE conjE)
    fix w f assume "words x = [w]" "kind w = Flag f" "\<forall>s. apply_one x s = Inr (f s)"
    then show ?thesis using IH by simp
  next
    fix w v err f assume "words x = [w, v]" "kind w = With_value err f" "\<forall>s. apply_one x s = f v s"
    then show ?thesis using IH by (cases "f v s") simp_all
  qed
qed simp

end

subsection \<open>The settings of the programs\<close>

fun ipv4_apply :: "setting \<Rightarrow> ipv4_options \<Rightarrow> exn + ipv4_options" where
  "ipv4_apply Listen s = Inr (s\<lparr>io_listen := True\<rparr>)"
| "ipv4_apply (Source_address a) s = Inr (s\<lparr>io_source_address := a\<rparr>)"
| "ipv4_apply (Source_port p) s = Inr (s\<lparr>io_source_port := p\<rparr>)"
| "ipv4_apply (Next_hop a) s = Inr s"
| "ipv4_apply (Window n) s = Inr (s\<lparr>io_fsm := (io_fsm s)\<lparr>cfg_recv_capacity := n\<rparr>\<rparr>)"
| "ipv4_apply (Timeout t) s = Inr (s\<lparr>io_fsm := (io_fsm s)\<lparr>cfg_rt_timeout := t\<rparr>\<rparr>)"
| "ipv4_apply (Device d) s = Inr (s\<lparr>io_tundev := Some d\<rparr>)"
| "ipv4_apply (Loss_up r) s = map_sum id (\<lambda>loss. s\<lparr>io_filt := (io_filt s)\<lparr>fa_loss_rate_up := loss\<rparr>\<rparr>) (loss_rate r)"
| "ipv4_apply (Loss_down r) s = map_sum id (\<lambda>loss. s\<lparr>io_filt := (io_filt s)\<lparr>fa_loss_rate_dn := loss\<rparr>\<rparr>) (loss_rate r)"

fun udp_apply :: "setting \<Rightarrow> udp_options \<Rightarrow> exn + udp_options" where
  "udp_apply Listen s = Inr (s\<lparr>uo_listen := True\<rparr>)"
| "udp_apply (Window n) s = Inr (s\<lparr>uo_fsm := (uo_fsm s)\<lparr>cfg_recv_capacity := n\<rparr>\<rparr>)"
| "udp_apply (Timeout t) s = Inr (s\<lparr>uo_fsm := (uo_fsm s)\<lparr>cfg_rt_timeout := t\<rparr>\<rparr>)"
| "udp_apply (Loss_up r) s = map_sum id (\<lambda>loss. s\<lparr>uo_filt := (uo_filt s)\<lparr>fa_loss_rate_up := loss\<rparr>\<rparr>) (loss_rate r)"
| "udp_apply (Loss_down r) s = map_sum id (\<lambda>loss. s\<lparr>uo_filt := (uo_filt s)\<lparr>fa_loss_rate_dn := loss\<rparr>\<rparr>) (loss_rate r)"
| "udp_apply _ s = Inr s"

fun ethernet_apply :: "setting \<Rightarrow> ethernet_options \<Rightarrow> exn + ethernet_options" where
  "ethernet_apply (Source_address a) s = Inr (s\<lparr>eo_source_address := a\<rparr>)"
| "ethernet_apply (Source_port p) s = Inr (s\<lparr>eo_source_port := p\<rparr>)"
| "ethernet_apply (Next_hop a) s = Inr (s\<lparr>eo_next_hop_address := a\<rparr>)"
| "ethernet_apply (Window n) s = Inr (s\<lparr>eo_fsm := (eo_fsm s)\<lparr>cfg_recv_capacity := n\<rparr>\<rparr>)"
| "ethernet_apply (Timeout t) s = Inr (s\<lparr>eo_fsm := (eo_fsm s)\<lparr>cfg_rt_timeout := t\<rparr>\<rparr>)"
| "ethernet_apply (Device d) s = Inr (s\<lparr>eo_tapdev := d\<rparr>)"
| "ethernet_apply _ s = Inr s"

fun ipv4_valid :: "setting \<Rightarrow> bool" where
  "ipv4_valid (Next_hop _) \<longleftrightarrow> False"
| "ipv4_valid x \<longleftrightarrow> window_fits x"

fun udp_valid :: "setting \<Rightarrow> bool" where
  "udp_valid (Source_address _) \<longleftrightarrow> False"
| "udp_valid (Source_port _) \<longleftrightarrow> False"
| "udp_valid (Device _) \<longleftrightarrow> False"
| "udp_valid (Next_hop _) \<longleftrightarrow> False"
| "udp_valid x \<longleftrightarrow> window_fits x"

fun ethernet_valid :: "setting \<Rightarrow> bool" where
  "ethernet_valid Listen \<longleftrightarrow> False"
| "ethernet_valid (Loss_up _) \<longleftrightarrow> False"
| "ethernet_valid (Loss_down _) \<longleftrightarrow> False"
| "ethernet_valid x \<longleftrightarrow> window_fits x"

lemma set_window_to_string: "int n \<le> LONG_MAX \<Longrightarrow> set_window (to_string n) c = c\<lparr>cfg_recv_capacity := n\<rparr>"
  by (simp add: set_window_def strtol_to_string size_of_long_def LONG_MAX_def)

lemma set_timeout_to_string: "set_timeout (to_string (unat t)) c = c\<lparr>cfg_rt_timeout := t\<rparr>"
proof -
  have "uint t < 2 ^ LENGTH(16)" by (rule unsigned_less)
  then have "strtol (to_string (unat t)) = int (unat t)" by (intro strtol_to_string) (simp add: LONG_MAX_def)
  then show ?thesis by (simp add: set_timeout_def u16_of_long_def)
qed

lemmas number_options = set_window_to_string set_timeout_to_string

interpretation ipv4_table: option_table ipv4_option ipv4_valid ipv4_apply
proof
  fix x assume "ipv4_valid x"
  then show "(\<exists>w f. words x = [w] \<and> ipv4_option w = Flag f \<and> (\<forall>s. ipv4_apply x s = Inr (f s))) \<or>
    (\<exists>w v err f. words x = [w, v] \<and> ipv4_option w = With_value err f \<and> (\<forall>s. ipv4_apply x s = f v s))"
    by (cases x) (simp_all add: ipv4_option_def strncmp_same_def number_options)
qed

interpretation udp_table: option_table udp_option udp_valid udp_apply
proof
  fix x assume "udp_valid x"
  then show "(\<exists>w f. words x = [w] \<and> udp_option w = Flag f \<and> (\<forall>s. udp_apply x s = Inr (f s))) \<or>
    (\<exists>w v err f. words x = [w, v] \<and> udp_option w = With_value err f \<and> (\<forall>s. udp_apply x s = f v s))"
    by (cases x) (simp_all add: udp_option_def strncmp_same_def number_options)
qed

interpretation ethernet_table: option_table ethernet_option ethernet_valid ethernet_apply
proof
  fix x assume "ethernet_valid x"
  then show "(\<exists>w f. words x = [w] \<and> ethernet_option w = Flag f \<and> (\<forall>s. ethernet_apply x s = Inr (f s))) \<or>
    (\<exists>w v err f. words x = [w, v] \<and> ethernet_option w = With_value err f \<and> (\<forall>s. ethernet_apply x s = f v s))"
    by (cases x) (simp_all add: ethernet_option_def strncmp_same_def number_options)
qed


subsection \<open>The positional arguments\<close>

text \<open>When the loop ends normally the last two arguments are left, so nothing is read beyond the end of \<^verbatim>\<open>argv\<close>.\<close>

lemma option_loop_rest:
  assumes "option_loop usage kind args s = Done (rest, s')" "2 \<le> length args"
  shows "rest = drop (length args - 2) args"
  using assms
proof (induction usage kind args s arbitrary: rest s' rule: option_loop.induct)
  case (2 usage kind a args s)
  show ?case
  proof (cases "length (a # args) > 2")
    case True
    then obtain n where n: "length args = Suc (Suc n)" by (auto simp: less_eq_Suc_le le_iff_add)
    show ?thesis
    proof (cases "kind a")
      case (Flag f)
      then show ?thesis using 2 True n by simp
    next
      case (With_value err f)
      then have three: "\<not> 3 \<ge> length (a # args)" using 2(3) True by (auto split: if_splits)
      then obtain v args' where args: "args = v # args'" "2 \<le> length args'" by (cases args) auto
      from three obtain s1 where f: "f v s = Inr s1" using 2(3) True With_value args by (cases "f v s") auto
      have "option_loop usage kind args' s1 = Done (rest, s')" using 2(3) True With_value three args f by simp
      then have "rest = drop (length args' - 2) args'" using 2(2) [OF True With_value three] args f by simp
      moreover obtain m where "length args' = Suc (Suc m)" using args(2) by (auto simp: le_iff_add)
      ultimately show ?thesis by (simp add: args(1))
    qed (use 2(3) True in simp_all)
  qed (use 2 in auto)
qed simp


lemma option_loop_threw:
  assumes "option_loop usage kind args s = Threw e"
  shows "\<exists>w err f v s'. kind w = With_value err f \<and> f v s' = Inl e"
  using assms
proof (induction usage kind args s rule: option_loop.induct)
  case (2 usage kind a args s)
  then show ?case by (cases "kind a"; cases "length (a # args) > 2") (simp_all split: if_splits sum.splits, metis)
qed simp

lemma address_of_host_throws: "address_of_host gai host service \<noteq> Inl (Undefined_behaviour m)"
  by (auto simp: address_of_host_def address_resolve_def address_of_sockaddr_def split: prod.splits if_splits option.splits)

lemma address_port_throws: "address_port gni a \<noteq> Inl (Undefined_behaviour m)"
  by (auto simp: address_port_def ip_port_def stoi_def Let_def split: prod.splits if_splits sum.splits)

lemma fd_adapter_config_new_throws: "fd_adapter_config_new gai \<noteq> Inl (Undefined_behaviour m)"
  by (auto simp: fd_adapter_config_new_def address_of_ip_def address_resolve_def address_of_sockaddr_def split: prod.splits if_splits option.splits sum.splits)

lemma map_sum_id_Inl [simp]: "map_sum id f x = Inl e \<longleftrightarrow> x = Inl e"
  by (cases x) simp_all

lemma loss_rate_throws: "loss_rate r \<noteq> Inl argv_out_of_range"
  by (auto simp: loss_rate_def u16_of_float_def argv_out_of_range_def split: float_value.splits if_splits)

lemma argv_throws:
  "address_of_host gai host service = Inl e \<Longrightarrow> e \<noteq> argv_out_of_range"
  "address_port gni a = Inl e \<Longrightarrow> e \<noteq> argv_out_of_range"
  "fd_adapter_config_new gai = Inl e \<Longrightarrow> e \<noteq> argv_out_of_range"
  "loss_rate r = Inl e \<Longrightarrow> e \<noteq> argv_out_of_range"
  using address_of_host_throws address_port_throws fd_adapter_config_new_throws loss_rate_throws
  by (auto simp: argv_out_of_range_def)

lemma last_two: "2 \<le> length args \<Longrightarrow> drop (length args - 2) args = [args ! (length args - 2), last args]"
  by (cases args rule: rev_cases; simp; cases "butlast args" rule: rev_cases) (auto simp: nth_append)

lemma option_loop_positional:
  assumes "3 \<le> length argv" "option_loop usage kind (tl argv) s = Done (args, s')"
  shows "args = [argv ! (length argv - 2), argv ! (length argv - 1)]"
proof -
  obtain a0 as where argv: "argv = a0 # as" "2 \<le> length as" using assms(1) by (cases argv) auto
  then have "args = [as ! (length as - 2), last as]" using option_loop_rest [OF assms(2)] last_two [OF argv(2)] by simp
  moreover obtain n where "length as = Suc (Suc n)" using argv(2) by (auto simp: le_iff_add)
  moreover from this have "as \<noteq> []" by auto
  ultimately show ?thesis by (simp add: argv(1) last_conv_nth)
qed

definition well_read :: "resolver \<Rightarrow> string list \<Rightarrow> bool \<Rightarrow> fd_adapter_config \<Rightarrow> bool" where
  "well_read gai argv listen filt \<longleftrightarrow>
     (if listen then address_of_host gai ''0'' (argv ! (length argv - 1)) = Inr (fa_source filt)
      else address_of_host gai (argv ! (length argv - 2)) (argv ! (length argv - 1)) = Inr (fa_destination filt))"

lemma ipv4_get_config_bounds:
  assumes "3 \<le> length argv"
  shows "case ipv4_get_config gai gni rnd argv of
      Exited _ _ \<Rightarrow> True | Threw e \<Rightarrow> e \<noteq> argv_out_of_range | Done (_, filt, listen, _) \<Rightarrow> well_read gai argv listen filt"
proof (cases "fd_adapter_config_new gai")
  case (Inl e)
  then show ?thesis using argv_throws(3) by (simp add: ipv4_get_config_def)
next
  case (Inr c)
  show ?thesis
  proof (cases "option_loop (ipv4_usage (hd argv)) ipv4_option (tl argv) (ipv4_start c rnd)")
    case (Threw e)
    from option_loop_threw [OF this] have "e \<noteq> argv_out_of_range"
      using loss_rate_throws by (auto simp: ipv4_option_def split: if_splits)
    then show ?thesis using Inr Threw by (simp add: ipv4_get_config_def)
  next
    case (Done x)
    obtain args s where x: "x = (args, s)" by fastforce
    have "args = [argv ! (length argv - 2), argv ! (length argv - 1)]"
      by (rule option_loop_positional [OF assms Done [unfolded x]])
    then show ?thesis using Inr Done
      by (auto simp: x ipv4_get_config_def ipv4_positional_def well_read_def dest: argv_throws(1,2) split: sum.split)
  qed (simp add: ipv4_get_config_def Inr)
qed


lemma udp_get_config_bounds:
  assumes "3 \<le> length argv"
  shows "case udp_get_config gai argv of
      Exited _ _ \<Rightarrow> True | Threw e \<Rightarrow> e \<noteq> argv_out_of_range | Done (_, filt, listen) \<Rightarrow> well_read gai argv listen filt"
proof (cases "fd_adapter_config_new gai")
  case (Inl e)
  then show ?thesis using argv_throws(3) by (simp add: udp_get_config_def)
next
  case (Inr c)
  let ?s = "\<lparr>uo_fsm = tcp_config_default, uo_filt = c, uo_listen = False\<rparr>"
  show ?thesis
  proof (cases "option_loop (udp_usage (hd argv)) udp_option (tl argv) ?s")
    case (Threw e)
    from option_loop_threw [OF this] have "e \<noteq> argv_out_of_range"
      using loss_rate_throws by (auto simp: udp_option_def split: if_splits)
    then show ?thesis using Inr Threw by (simp add: udp_get_config_def)
  next
    case (Done x)
    then show ?thesis using Inr assms
      by (cases x) (auto simp: udp_get_config_def well_read_def dest: argv_throws(1) split: sum.split)
  qed (simp add: udp_get_config_def Inr)
qed

lemma ethernet_get_config_bounds:
  assumes "3 \<le> length argv"
  shows "case ethernet_get_config gai rnd argv of
      Exited _ _ \<Rightarrow> True | Threw e \<Rightarrow> e \<noteq> argv_out_of_range | Done (_, filt, _) \<Rightarrow> well_read gai argv False filt"
proof (cases "fd_adapter_config_new gai")
  case (Inl e)
  then show ?thesis using argv_throws(3) by (simp add: ethernet_get_config_def)
next
  case (Inr c)
  show ?thesis
  proof (cases "option_loop (ethernet_usage (hd argv)) ethernet_option (tl argv) (ethernet_start c rnd)")
    case (Threw e)
    from option_loop_threw [OF this] show ?thesis by (auto simp: ethernet_option_def split: if_splits)
  next
    case (Done x)
    obtain args s where x: "x = (args, s)" by fastforce
    have "args = [argv ! (length argv - 2), argv ! (length argv - 1)]"
      by (rule option_loop_positional [OF assms Done [unfolded x]])
    then show ?thesis using Inr Done
      by (auto simp: x ethernet_get_config_def ethernet_positional_def well_read_def dest: argv_throws(1) split: sum.split)
  qed (simp add: ethernet_get_config_def Inr)
qed

text \<open>C37. With at least the two positional arguments, which the main functions check, the three programs never read beyond the end of
  \<^verbatim>\<open>argv\<close>, whatever the arguments are and however the options are cut off: reading the command line ends with an exit, an exception of the
  conversion of an address or a number, or a configuration.  In client mode its destination is the address of the last two arguments; in server
  mode, after \<^verbatim>\<open>-l\<close>, its source is the address of the host \<^verbatim>\<open>0\<close> and the port in the last argument, and the host argument is not looked at, although
  the usage text calls the two of them the address to bind.\<close>

theorem get_config_in_bounds:
  assumes "3 \<le> length argv"
  shows "(case ipv4_get_config gai gni rnd argv of
      Exited _ _ \<Rightarrow> True | Threw e \<Rightarrow> e \<noteq> argv_out_of_range | Done (_, filt, listen, _) \<Rightarrow> well_read gai argv listen filt) \<and>
    (case udp_get_config gai argv of
      Exited _ _ \<Rightarrow> True | Threw e \<Rightarrow> e \<noteq> argv_out_of_range | Done (_, filt, listen) \<Rightarrow> well_read gai argv listen filt) \<and>
    (case ethernet_get_config gai rnd argv of
      Exited _ _ \<Rightarrow> True | Threw e \<Rightarrow> e \<noteq> argv_out_of_range | Done (_, filt, _) \<Rightarrow> well_read gai argv False filt)"
  using ipv4_get_config_bounds [OF assms] udp_get_config_bounds [OF assms] ethernet_get_config_bounds [OF assms] by blast

text \<open>The witness reads one command line as a client and one as a server.\<close>

theorem get_config_in_bounds_witness:
  "\<exists>cfg filt cfg' filt'.
     ipv4_get_config number_resolver number_namer 7 [''tcp_ipv4'', ''-w'', ''2000'', ''10.0.0.1'', ''80''] = Done (cfg, filt, False, None) \<and>
     fa_destination filt = ipv4_endpoint 0x0a000001 80 \<and>
     udp_get_config number_resolver [''tcp_udp'', ''-l'', ''10.0.0.1'', ''80''] = Done (cfg', filt', True) \<and>
     fa_source filt' = ipv4_endpoint 0 80"
proof -
  let ?c = "[''tcp_ipv4'', ''-w'', ''2000'', ''10.0.0.1'', ''80'']" and ?s = "[''tcp_udp'', ''-l'', ''10.0.0.1'', ''80'']"
  have addr: "address_of_host number_resolver ''10.0.0.1'' ''80'' = Inr (ipv4_endpoint 0x0a000001 80)"
    "address_of_host number_resolver ''0'' ''80'' = Inr (ipv4_endpoint 0 80)"
    by code_simp+
  have "fd_adapter_config_new number_resolver =
      Inr \<lparr>fa_source = ipv4_endpoint 0 0, fa_destination = ipv4_endpoint 0 0, fa_loss_rate_dn = 0, fa_loss_rate_up = 0\<rparr>"
    and src: "address_of_host number_resolver ''169.254.144.9'' ''7'' = Inr (ipv4_endpoint 0xa9fe9009 7)"
    and port: "to_string (unat (ucast (7 :: u32) :: u16)) = ''7''"
    by code_simp+
  then have "\<exists>cfg filt. ipv4_get_config number_resolver number_namer 7 ?c = Done (cfg, filt, False, None)"
    "\<exists>cfg filt. udp_get_config number_resolver ?s = Done (cfg, filt, True)"
    by (simp_all add: ipv4_get_config_def udp_get_config_def ipv4_option_def udp_option_def strncmp_same_def ipv4_start_def
      ipv4_positional_def LOCAL_ADDRESS_DFLT_def addr)
  then obtain cfg filt cfg' filt' where out: "ipv4_get_config number_resolver number_namer 7 ?c = Done (cfg, filt, False, None)"
    "udp_get_config number_resolver ?s = Done (cfg', filt', True)" by blast
  have "fa_destination filt = ipv4_endpoint 0x0a000001 80"
    using get_config_in_bounds [of ?c number_resolver number_namer 7] out(1) addr(1) by (simp add: well_read_def)
  moreover have "fa_source filt' = ipv4_endpoint 0 80"
    using get_config_in_bounds [of ?s number_resolver] out(2) addr(2) by (simp add: well_read_def)
  ultimately show ?thesis using out by blast
qed

text \<open>C38. The command lines mean what one types: options with their values, in any order and number, in front of the host and the port, have the
  effect of applying the settings one after the other to the defaults.  Numbers arrive as they were printed, windows up to \<^verbatim>\<open>LONG_MAX\<close>.\<close>

theorem command_lines_read_back:
  "(list_all ipv4_valid xs \<longrightarrow>
      ipv4_get_config gai gni rnd (prog # concat (map words xs) @ [host, service]) =
        (case fd_adapter_config_new gai of
           Inl e \<Rightarrow> Threw e
         | Inr c \<Rightarrow>
             (case apply_all ipv4_apply xs (ipv4_start c rnd) of
                Inl e \<Rightarrow> Threw e | Inr s \<Rightarrow> ipv4_positional gai gni prog [host, service] s))) \<and>
   (list_all udp_valid xs \<longrightarrow>
      udp_get_config gai (prog # concat (map words xs) @ [host, service]) =
        (case fd_adapter_config_new gai of
           Inl e \<Rightarrow> Threw e
         | Inr c \<Rightarrow>
             (case apply_all udp_apply xs \<lparr>uo_fsm = tcp_config_default, uo_filt = c, uo_listen = False\<rparr> of
                Inl e \<Rightarrow> Threw e
              | Inr s \<Rightarrow>
                  (case address_of_host gai (if uo_listen s then ''0'' else host) service of
                     Inl e \<Rightarrow> Threw e
                   | Inr a \<Rightarrow> Done (uo_fsm s, if uo_listen s then (uo_filt s)\<lparr>fa_source := a\<rparr> else (uo_filt s)\<lparr>fa_destination := a\<rparr>, uo_listen s))))) \<and>
   (list_all ethernet_valid xs \<longrightarrow>
      ethernet_get_config gai rnd (prog # concat (map words xs) @ [host, service]) =
        (case fd_adapter_config_new gai of
           Inl e \<Rightarrow> Threw e
         | Inr c \<Rightarrow>
             (case apply_all ethernet_apply xs (ethernet_start c rnd) of
                Inl e \<Rightarrow> Threw e | Inr s \<Rightarrow> ethernet_positional gai [host, service] s)))"
proof (intro conjI impI)
  assume "list_all ipv4_valid xs"
  from ipv4_table.loop_applies [OF this]
  show "ipv4_get_config gai gni rnd (prog # concat (map words xs) @ [host, service]) =
        (case fd_adapter_config_new gai of
           Inl e \<Rightarrow> Threw e
         | Inr c \<Rightarrow>
             (case apply_all ipv4_apply xs (ipv4_start c rnd) of
                Inl e \<Rightarrow> Threw e | Inr s \<Rightarrow> ipv4_positional gai gni prog [host, service] s))"
    by (simp add: ipv4_get_config_def split: sum.split)
next
  assume "list_all udp_valid xs"
  from udp_table.loop_applies [OF this]
  show "udp_get_config gai (prog # concat (map words xs) @ [host, service]) =
        (case fd_adapter_config_new gai of
           Inl e \<Rightarrow> Threw e
         | Inr c \<Rightarrow>
             (case apply_all udp_apply xs \<lparr>uo_fsm = tcp_config_default, uo_filt = c, uo_listen = False\<rparr> of
                Inl e \<Rightarrow> Threw e
              | Inr s \<Rightarrow>
                  (case address_of_host gai (if uo_listen s then ''0'' else host) service of
                     Inl e \<Rightarrow> Threw e
                   | Inr a \<Rightarrow> Done (uo_fsm s, if uo_listen s then (uo_filt s)\<lparr>fa_source := a\<rparr> else (uo_filt s)\<lparr>fa_destination := a\<rparr>, uo_listen s))))"
    by (simp add: udp_get_config_def nth_append split: sum.split)
next
  assume "list_all ethernet_valid xs"
  from ethernet_table.loop_applies [OF this]
  show "ethernet_get_config gai rnd (prog # concat (map words xs) @ [host, service]) =
        (case fd_adapter_config_new gai of
           Inl e \<Rightarrow> Threw e
         | Inr c \<Rightarrow>
             (case apply_all ethernet_apply xs (ethernet_start c rnd) of
                Inl e \<Rightarrow> Threw e | Inr s \<Rightarrow> ethernet_positional gai [host, service] s))"
    by (simp add: ethernet_get_config_def split: sum.split)
qed

theorem command_lines_read_back_witness:
  "\<exists>filt. udp_get_config (\<lambda>_ _ _. (0, Some [])) [''tcp_udp'', ''-w'', ''2000'', ''-l'', ''host'', ''80''] =
     Done (tcp_config_default\<lparr>cfg_recv_capacity := 2000\<rparr>, filt, True)"
proof -
  have v: "list_all udp_valid [Window 2000, Listen]" by (simp add: LONG_MAX_def)
  have w: "concat (map words [Window 2000, Listen]) = [''-w'', ''2000'', ''-l'']" by code_simp
  show ?thesis
    using command_lines_read_back [of "[Window 2000, Listen]" "\<lambda>_ _ _. (0, Some [])" _ _ "''tcp_udp''" "''host''" "''80''"] v
    unfolding w by (simp add: fd_adapter_config_new_def address_of_ip_def address_of_host_def address_resolve_def address_of_sockaddr_def)
qed

end
