(* ===== verification/Descriptors.thy ===== *)
theory Descriptors
  imports Sponge_Owner
begin

text \<open>
  Which descriptors are open.  \<open>fds k\<close> is the set of the descriptors that the program has open in state \<open>k\<close> of the system; \<open>fd_table\<close> states what the
  system calls do to it: some open descriptors, \<^verbatim>\<open>close\<close> closes one, the others leave it alone.  The observation of a wrapper is the table, its
  number and whether it was closed through it; most operations keep their observation.
\<close>

definition opens_one :: "('k \<Rightarrow> int set) \<Rightarrow> 'k \<Rightarrow> 'k \<times> sys_result \<Rightarrow> bool" where
  "opens_one fds k x \<longleftrightarrow>
     (case x of (k', v, e) \<Rightarrow>
        v = - 1 \<and> e > 0 \<and> fds k' = fds k \<or> 0 \<le> v \<and> v < 2 ^ 31 \<and> v \<notin> fds k \<and> fds k' = insert v (fds k))"

definition fd_table :: "('k, 'z) net_kernel_scheme \<Rightarrow> ('k \<Rightarrow> int set) \<Rightarrow> bool" where
  "fd_table K fds \<longleftrightarrow>
     (\<forall>fd k. case k_close K fd k of (k', v, e) \<Rightarrow>
        fds k' = fds k - {fd} \<and> (if fd \<in> fds k then v = 0 else v = - 1 \<and> e = EBADF)) \<and>
     (\<forall>domain type k. opens_one fds k (k_socket K domain type k)) \<and> (\<forall>fd k. opens_one fds k (k_accept K fd k)) \<and>
     (\<forall>path flags k. opens_one fds k (k_open K path flags k)) \<and>
     (\<forall>domain type k. case k_socketpair K domain type k of (k', (v, e), fd0, fd1) \<Rightarrow>
        v = - 1 \<and> e > 0 \<and> fds k' = fds k \<or>
        v = 0 \<and> 0 \<le> fd0 \<and> 0 \<le> fd1 \<and> fd0 \<noteq> fd1 \<and> fd0 \<notin> fds k \<and> fd1 \<notin> fds k \<and> fds k' = insert fd0 (insert fd1 (fds k))) \<and>
     (\<forall>fd n k. fds (fst (k_read K fd n k)) = fds k) \<and> (\<forall>fd iov k. fds (fst (k_writev K fd iov k)) = fds k) \<and>
     (\<forall>fd k. fds (fst (k_getfl K fd k)) = fds k) \<and> (\<forall>fd fl k. fds (fst (k_setfl K fd fl k)) = fds k) \<and>
     (\<forall>fd l x k. fds (fst (k_getsockopt K fd l x k)) = fds k) \<and> (\<forall>fd l x v k. fds (fst (k_setsockopt K fd l x v k)) = fds k) \<and>
     (\<forall>fd a k. fds (fst (k_bind K fd a k)) = fds k) \<and> (\<forall>fd a k. fds (fst (k_connect K fd a k)) = fds k) \<and>
     (\<forall>fd how k. fds (fst (k_shutdown K fd how k)) = fds k) \<and> (\<forall>fd n k. fds (fst (k_recvfrom K fd n k)) = fds k) \<and>
     (\<forall>fd a iov k. fds (fst (k_sendmsg K fd a iov k)) = fds k) \<and> (\<forall>fd b k. fds (fst (k_listen K fd b k)) = fds k) \<and>
     (\<forall>fd fl name k. fds (fst (k_tunsetiff K fd fl name k)) = fds k)"

definition sys_table :: "('k, 'z) sys_scheme \<Rightarrow> ('k \<Rightarrow> int set) \<Rightarrow> bool" where
  "sys_table K fds \<longleftrightarrow>
     fd_table K fds \<and> (\<forall>ps t k. fds (fst (k_poll K ps t k)) = fds k) \<and> (\<forall>k. fds (fst (k_timestamp_ms K k)) = fds k) \<and>
     (\<forall>k. fds (fst (k_random_device K k)) = fds k)"

definition ident :: "fd_wrapper \<Rightarrow> int \<times> bool" where
  "ident f = (fw_fd f, fw_closed f)"

definition seen :: "('k \<Rightarrow> int set) \<Rightarrow> fd_wrapper \<times> 'k \<Rightarrow> int set \<times> int \<times> bool" where
  "seen fds x = (fds (snd x), ident (fst x))"

named_theorems keeps \<open>operations that keep the observation\<close>

lemma fst_call: "fst (call s m f) = (case m of Inl _ \<Rightarrow> s | Inr x \<Rightarrow> fst (f x))"
  by (simp add: call_def split: sum.splits)

lemma fst_call_on: "fst (call_on x f) = (case snd x of Inl _ \<Rightarrow> fst x | Inr y \<Rightarrow> fst (f (fst x) y))"
  by (simp add: call_on_def split: prod.splits sum.splits)

lemma ident_simps [simp]: "ident (register_read f) = ident f" "ident (register_write f) = ident f" "ident (f\<lparr>fw_eof := b\<rparr>) = ident f"
  by (simp_all add: ident_def register_write_def register_read_def)

lemma fd_tableD:
  assumes "fd_table K fds"
  shows "fds (fst (k_read K fd n k)) = fds k" "fds (fst (k_writev K fd iov k)) = fds k"
    "fds (fst (k_getfl K fd k)) = fds k" "fds (fst (k_setfl K fd fl k)) = fds k"
    "fds (fst (k_getsockopt K fd l x k)) = fds k" "fds (fst (k_setsockopt K fd l x v k)) = fds k"
    "fds (fst (k_bind K fd a k)) = fds k" "fds (fst (k_connect K fd a k)) = fds k"
    "fds (fst (k_shutdown K fd how k)) = fds k" "fds (fst (k_recvfrom K fd n k)) = fds k"
    "fds (fst (k_sendmsg K fd dst iov k)) = fds k" "fds (fst (k_listen K fd b k)) = fds k"
    "fds (fst (k_tunsetiff K fd fl name k)) = fds k"
  using assms unfolding fd_table_def by simp_all

subsection \<open>Operations on one descriptor\<close>

lemma fd_read_keeps [keeps]: "fd_table K fds \<Longrightarrow> seen fds (fst (fd_read K limit x)) = seen fds x"
  using fd_tableD(1) [of K fds]
  by (cases x) (auto simp: fd_read_def seen_def fst_call Let_def split: prod.splits sum.splits, (metis fst_conv)+)

lemma fd_write_loop_ident: "ident (fst (fst (fd_write_loop K all n buffer f k))) = ident f"
proof (induction K all n buffer f k rule: fd_write_loop.induct)
  case (1 K write_all total_bytes buffer f k)
  obtain k1 r where w: "k_writev K (fw_fd f) (as_iovecs buffer) k = (k1, r)" by (metis prod.exhaust)
  show ?case
    using "1.IH" [OF w [symmetric] refl]
    by (subst fd_write_loop.simps) (auto simp: w Let_def split: sum.splits)
qed

lemma fd_write_keeps [keeps]: "fd_table K fds \<Longrightarrow> seen fds (fst (fd_write K buffer all x)) = seen fds x"
proof -
  assume t: "fd_table K fds"
  have step: "fds k' = fds k" if "k_writev K fd iov k = (k', r)" for fd iov k k' r using fd_tableD(2) [OF t, of fd iov k] that by simp
  obtain f k f' k' r where x: "x = (f, k)" "fd_write_loop K all 0 buffer f k = ((f', k'), r)" by (metis prod.exhaust)
  have "fds k' = fds k" using fd_write_loop_frame [where P = fds, OF step x(2)] by simp
  then show ?thesis using fd_write_loop_ident [of K all 0 buffer f k] by (simp add: x fd_write_def seen_def)
qed

lemma fd_write_string_keeps [keeps]: "fd_table K fds \<Longrightarrow> seen fds (fst (fd_write_string K d all x)) = seen fds x"
  by (simp add: fd_write_string_def fd_write_keeps)

lemma set_blocking_keeps [keeps]: "fd_table K fds \<Longrightarrow> seen fds (fst (set_blocking K b x)) = seen fds x"
  using fd_tableD(3,4) [of K fds]
  by (cases x) (auto simp: set_blocking_def seen_def fst_call Let_def split: prod.splits sum.splits, (metis fst_conv)+)

lemma socket_shutdown_keeps [keeps]: "fd_table K fds \<Longrightarrow> seen fds (fst (socket_shutdown K how x)) = seen fds x"
  using fd_tableD(9) [of K fds]
  by (cases x) (auto simp: socket_shutdown_def seen_def fst_call Let_def split: prod.splits sum.splits, (metis fst_conv)+)

lemma check_sockopt_keeps: "fd_table K fds \<Longrightarrow> seen fds (fst (check_sockopt K opt v what x)) = seen fds x"
  using fd_tableD(5) [of K fds]
  by (cases x) (auto simp: check_sockopt_def seen_def fst_call Let_def split: prod.splits sum.splits, (metis fst_conv)+)

lemma socket_of_fd_keeps [keeps]: "fd_table K fds \<Longrightarrow> seen fds (fst (socket_of_fd K domain type x)) = seen fds x"
  by (simp add: socket_of_fd_def fst_call_on check_sockopt_keeps split: sum.splits)

lemma socket_bind_keeps [keeps]: "fd_table K fds \<Longrightarrow> seen fds (fst (socket_bind K a x)) = seen fds x"
  using fd_tableD(7) [of K fds]
  by (cases x) (auto simp: socket_bind_def seen_def fst_call split: prod.splits sum.splits, (metis fst_conv)+)

lemma socket_connect_keeps [keeps]: "fd_table K fds \<Longrightarrow> seen fds (fst (socket_connect K a x)) = seen fds x"
  using fd_tableD(8) [of K fds]
  by (cases x) (auto simp: socket_connect_def seen_def fst_call split: prod.splits sum.splits, (metis fst_conv)+)

lemma tcp_listen_keeps [keeps]: "fd_table K fds \<Longrightarrow> seen fds (fst (tcp_listen K b x)) = seen fds x"
  using fd_tableD(12) [of K fds]
  by (cases x) (auto simp: tcp_listen_def seen_def fst_call split: prod.splits sum.splits, (metis fst_conv)+)

lemma set_reuseaddr_keeps [keeps]: "fd_table K fds \<Longrightarrow> seen fds (fst (set_reuseaddr K x)) = seen fds x"
  using fd_tableD(6) [of K fds]
  by (cases x) (auto simp: set_reuseaddr_def socket_setsockopt_def seen_def fst_call split: prod.splits sum.splits, (metis fst_conv)+)

lemma udp_recv_keeps [keeps]: "fd_table K fds \<Longrightarrow> seen fds (fst (udp_recv K mtu x)) = seen fds x"
  using fd_tableD(10) [of K fds]
  by (cases x) (auto simp: udp_recv_def seen_def fst_call Let_def split: prod.splits sum.splits, (metis fst_conv)+)

lemma udp_sendto_keeps [keeps]: "fd_table K fds \<Longrightarrow> seen fds (fst (udp_sendto K a d x)) = seen fds x"
  using fd_tableD(11) [of K fds]
  by (cases x) (auto simp: udp_sendto_def sendmsg_helper_def seen_def call_def Let_def split: prod.splits sum.splits if_splits, (metis fst_conv)+)

subsection \<open>Opening and closing\<close>

lemma fd_table_opens:
  assumes "fd_table K fds"
  shows "opens_one fds k (k_socket K domain type k)" "opens_one fds k (k_accept K fd k)" "opens_one fds k (k_open K path flags k)"
  using assms unfolding fd_table_def by simp_all

lemma fd_table_close:
  assumes "fd_table K fds" "k_close K fd k = (k', v, e)"
  shows "fds k' = fds k - {fd}" "fd \<in> fds k \<Longrightarrow> v = 0" "fd \<notin> fds k \<Longrightarrow> v = - 1 \<and> e = EBADF"
proof -
  have "case k_close K fd k of (k', v, e) \<Rightarrow> fds k' = fds k - {fd} \<and> (if fd \<in> fds k then v = 0 else v = - 1 \<and> e = EBADF)"
    by (rule assms(1) [unfolded fd_table_def, THEN conjunct1, rule_format])
  then show "fds k' = fds k - {fd}" "fd \<in> fds k \<Longrightarrow> v = 0" "fd \<notin> fds k \<Longrightarrow> v = - 1 \<and> e = EBADF" by (simp_all add: assms(2))
qed

text \<open>Whatever the outcome, a wrapper that is not closed is gone from the table after its destructor.\<close>

lemma fd_destroy_table:
  assumes "fd_table K fds"
  shows "fds (snd (fd_destroy K (f, k))) = (if fw_closed f then fds k else fds k - {fw_fd f})"
proof -
  obtain k' v e where c: "k_close K (fw_fd f) k = (k', v, e)" by (metis prod.exhaust)
  from fd_table_close(1) [OF assms c] show ?thesis by (simp add: fd_destroy_def fd_close_def fst_call c split: sum.splits)
qed

text \<open>A constructor opens one descriptor or throws and opens none.\<close>

definition made :: "('k \<Rightarrow> int set) \<Rightarrow> 'k \<Rightarrow> 'k \<times> (exn + fd_wrapper) \<Rightarrow> bool" where
  "made fds k x \<longleftrightarrow>
     (case x of (k', Inl _) \<Rightarrow> fds k' = fds k
      | (k', Inr f) \<Rightarrow> \<not> fw_closed f \<and> fw_fd f \<notin> fds k \<and> fds k' = insert (fw_fd f) (fds k))"

lemma system_call_opens:
  assumes "opens_one fds k (k', r)"
  shows "(\<exists>e. SystemCall what r 0 = Inl e) \<and> fds k' = fds k \<or>
    (\<exists>f. SystemCall what r 0 = Inr (fw_fd f) \<and> fd_new (fw_fd f) = Inr f \<and> \<not> fw_closed f \<and> fw_fd f \<notin> fds k \<and> fds k' = insert (fw_fd f) (fds k))"
proof -
  obtain v e where r: "r = (v, e)" by fastforce
  show ?thesis
  proof (cases "v = - 1")
    case True
    then show ?thesis using assms by (simp add: opens_one_def r SystemCall_def)
  next
    case False
    then have v: "0 \<le> v" "v < 2 ^ 31" "v \<notin> fds k" "fds k' = insert v (fds k)" using assms by (auto simp: opens_one_def r)
    have "SystemCall what r 0 = Inr v" using system_call_small [of v e what] v False by (simp add: r)
    then show ?thesis using v
      by (intro disjI2 exI [of _ "\<lparr>fw_fd = v, fw_eof = False, fw_closed = False, fw_read_count = 0, fw_write_count = 0\<rparr>"])
        (simp add: fd_new_def)
  qed
qed


lemma socket_new_made: "fd_table K fds \<Longrightarrow> made fds k (socket_new K domain type k)"
proof -
  assume t: "fd_table K fds"
  obtain k' r where s: "k_socket K domain type k = (k', r)" by (metis prod.exhaust)
  from system_call_opens [OF fd_table_opens(1) [OF t, of k domain type, unfolded s], of "''socket''"]
  show ?thesis by (auto simp: socket_new_def s made_def call_def)
qed

lemma tun_tap_new_made: "fd_table K fds \<Longrightarrow> made fds k (tun_tap_new K name is_tun k)"
proof -
  assume t: "fd_table K fds"
  obtain k' r where s: "k_open K ''/dev/net/tun'' O_RDWR k = (k', r)" by (metis prod.exhaust)
  note o = system_call_opens [OF fd_table_opens(3) [OF t, of k "''/dev/net/tun''" O_RDWR, unfolded s], of "''open''"]
  have "fds k2 = fds k1" if "k_tunsetiff K fd fl nm k1 = (k2, r)" for fd fl nm k1 k2 r using fd_tableD(13) [OF t, of fd fl nm k1] that by simp
  with o show ?thesis
    by (auto simp: tun_tap_new_def s made_def call_def fd_destroy_table [OF t] split: prod.splits sum.splits)
qed

lemma tcp_accept_made:
  assumes t: "fd_table K fds"
  shows "made fds k (snd (fst (tcp_accept K (f, k))), snd (tcp_accept K (f, k)))" "ident (fst (fst (tcp_accept K (f, k)))) = ident f"
proof -
  obtain k' r where s: "k_accept K (fw_fd f) k = (k', r)" by (metis prod.exhaust)
  from system_call_opens [OF fd_table_opens(2) [OF t, of k "fw_fd f", unfolded s], of "''accept''"]
  have "made fds k (snd (fst (tcp_accept K (f, k))), snd (tcp_accept K (f, k))) \<and> ident (fst (fst (tcp_accept K (f, k)))) = ident f"
  proof (elim disjE exE conjE)
    fix e assume "SystemCall ''accept'' r 0 = Inl e" "fds k' = fds k"
    then show ?thesis by (simp add: tcp_accept_def s made_def)
  next
    fix g assume g: "SystemCall ''accept'' r 0 = Inr (fw_fd g)" "fd_new (fw_fd g) = Inr g" "\<not> fw_closed g" "fw_fd g \<notin> fds k"
      "fds k' = insert (fw_fd g) (fds k)"
    obtain g2 k2 r2 where c: "tcp_socket_of_fd K (g, k') = ((g2, k2), r2)" by (metis prod.exhaust)
    have "fds k2 = fds k'" "fw_fd g2 = fw_fd g" "fw_closed g2 = fw_closed g"
      using socket_of_fd_keeps [OF t, of "int AF_INET" SOCK_STREAM "(g, k')"] c by (simp_all add: tcp_socket_of_fd_def seen_def ident_def)
    then show ?thesis using g c by (cases r2) (auto simp: tcp_accept_def s made_def fd_destroy_table [OF t])
  qed
  then show "made fds k (snd (fst (tcp_accept K (f, k))), snd (tcp_accept K (f, k)))" "ident (fst (fst (tcp_accept K (f, k)))) = ident f"
    by blast+
qed

subsection \<open>Adapters\<close>

definition adapter_seen :: "('a, 'k) adapter_ops \<Rightarrow> ('k \<Rightarrow> int set) \<Rightarrow> 'a \<times> 'k \<Rightarrow> int set \<times> int \<times> bool" where
  "adapter_seen A fds x = (fds (snd x), ident (at_fd A (fst x)))"

definition adapter_keeps :: "('a, 'k) adapter_ops \<Rightarrow> ('k \<Rightarrow> int set) \<Rightarrow> bool" where
  "adapter_keeps A fds \<longleftrightarrow>
     (\<forall>x. adapter_seen A fds (fst (at_read A x)) = adapter_seen A fds x) \<and>
     (\<forall>seg x. adapter_seen A fds (fst (snd (at_write A seg x))) = adapter_seen A fds x) \<and>
     (\<forall>ms x. adapter_seen A fds (fst (at_tick A ms x)) = adapter_seen A fds x) \<and>
     (\<forall>cfg a. ident (at_fd A (at_set_config A cfg a)) = ident (at_fd A a)) \<and>
     (\<forall>l a. ident (at_fd A (at_set_listening A l a)) = ident (at_fd A a))"

lemma seenD: "seen fds (fst y) = seen fds (f, k) \<Longrightarrow> y = ((f', k'), r) \<Longrightarrow> fds k' = fds k \<and> ident f' = ident f"
  by (simp add: seen_def)

lemmas seen_eqs = fd_read_keeps [THEN seenD] fd_write_keeps [THEN seenD] fd_write_string_keeps [THEN seenD] set_blocking_keeps [THEN seenD]
  socket_shutdown_keeps [THEN seenD] socket_of_fd_keeps [THEN seenD] socket_bind_keeps [THEN seenD] socket_connect_keeps [THEN seenD]
  tcp_listen_keeps [THEN seenD] set_reuseaddr_keeps [THEN seenD] udp_recv_keeps [THEN seenD] udp_sendto_keeps [THEN seenD]

lemma tun_ops_keeps:
  assumes t: "fd_table K fds"
  shows "adapter_keeps (tun_ops K gai gni) fds"
  unfolding adapter_keeps_def tun_ops_def base_ops_def adapter_seen_def tun_adapter_read_def tun_adapter_write_def
  by (auto simp: fst_call Let_def split: prod.splits sum.splits dest!: seen_eqs [OF t])

lemma udp_ops_keeps:
  assumes t: "fd_table K fds"
  shows "adapter_keeps (udp_ops K gni) fds"
  unfolding adapter_keeps_def udp_ops_def base_ops_def adapter_seen_def udp_adapter_read_def udp_adapter_write_def
  by (auto simp: fst_call Let_def split: prod.splits sum.splits dest!: seen_eqs [OF t])

lemma send_frames_keeps: "fd_table K fds \<Longrightarrow> seen fds (fst (snd (send_frames K frs x))) = seen fds x"
proof (induction frs arbitrary: x)
  case (Cons fr frs)
  have "seen fds (fst (fd_write K [ethernet_frame_serialize fr] True x)) = seen fds x" by (rule fd_write_keeps [OF Cons.prems])
  then show ?case using Cons by (auto split: prod.splits sum.splits)
qed simp

lemma tap_send_pending_keeps:
  "fd_table K fds \<Longrightarrow> tap_send_pending K ((f, ea), k) = (((f', ea'), k'), r) \<Longrightarrow> fds k' = fds k \<and> ident f' = ident f"
  using send_frames_keeps [of K fds "ni_frames_out (ead_interface ea)" "(f, k)"]
  by (auto simp: tap_send_pending_def seen_def split: prod.splits)

lemma tap_adapter_keeps:
  assumes t: "fd_table K fds"
  shows "tap_adapter_read K gai gni ((f, ea), k) = (((f', ea'), k'), r) \<Longrightarrow> fds k' = fds k \<and> ident f' = ident f"
    "tap_adapter_write K gni seg ((f, ea), k) = (seg', ((f', ea'), k'), w) \<Longrightarrow> fds k' = fds k \<and> ident f' = ident f"
    "tap_adapter_tick K ms ((f, ea), k) = (((f', ea'), k'), w) \<Longrightarrow> fds k' = fds k \<and> ident f' = ident f"
proof -
  show "fds k' = fds k \<and> ident f' = ident f" if run: "tap_adapter_read K gai gni ((f, ea), k) = (((f', ea'), k'), r)"
  proof -
    obtain f1 k1 r1 where rd: "fd_read K SIZE_MAX (f, k) = ((f1, k1), r1)" by (metis prod.exhaust)
    show ?thesis using run seen_eqs(1) [OF t rd]
      by (cases r1) (auto simp: tap_adapter_read_def rd call_def call_on_def Let_def split: prod.splits sum.splits option.splits if_splits
          dest!: tap_send_pending_keeps [OF t])
  qed
  show "fds k' = fds k \<and> ident f' = ident f" if "tap_adapter_write K gni seg ((f, ea), k) = (seg', ((f', ea'), k'), w)"
    using that by (auto simp: tap_adapter_write_def call_def Let_def split: prod.splits sum.splits dest!: tap_send_pending_keeps [OF t])
  show "fds k' = fds k \<and> ident f' = ident f" if "tap_adapter_tick K ms ((f, ea), k) = (((f', ea'), k'), w)"
    using that by (auto simp: tap_adapter_tick_def call_def Let_def split: prod.splits sum.splits dest!: tap_send_pending_keeps [OF t])
qed

lemma adapter_keepsI:
  assumes "\<And>a k a' k' r. at_read A (a, k) = ((a', k'), r) \<Longrightarrow> fds k' = fds k \<and> ident (at_fd A a') = ident (at_fd A a)"
    "\<And>seg a k seg' a' k' r. at_write A seg (a, k) = (seg', (a', k'), r) \<Longrightarrow> fds k' = fds k \<and> ident (at_fd A a') = ident (at_fd A a)"
    "\<And>ms a k a' k' r. at_tick A ms (a, k) = ((a', k'), r) \<Longrightarrow> fds k' = fds k \<and> ident (at_fd A a') = ident (at_fd A a)"
    "\<And>cfg a. ident (at_fd A (at_set_config A cfg a)) = ident (at_fd A a)" "\<And>l a. ident (at_fd A (at_set_listening A l a)) = ident (at_fd A a)"
  shows "adapter_keeps A fds"
proof -
  have "adapter_seen A fds (fst (at_read A x)) = adapter_seen A fds x" for x
    using assms(1) by (cases x; cases "at_read A x") (auto simp: adapter_seen_def)
  moreover have "adapter_seen A fds (fst (snd (at_write A seg x))) = adapter_seen A fds x" for seg x
    using assms(2) by (cases x; cases "at_write A seg x") (auto simp: adapter_seen_def)
  moreover have "adapter_seen A fds (fst (at_tick A ms x)) = adapter_seen A fds x" for ms x
    using assms(3) by (cases x; cases "at_tick A ms x") (auto simp: adapter_seen_def)
  ultimately show ?thesis using assms(4,5) by (simp add: adapter_keeps_def)
qed

lemma tap_ops_keeps:
  assumes t: "fd_table K fds"
  shows "adapter_keeps (tap_ops K gai gni) fds"
  by (rule adapter_keepsI) (auto simp: tap_ops_def dest: tap_adapter_keeps [OF t])

lemma adapter_keepsD:
  assumes "adapter_keeps A fds"
  shows "at_read A (a, k) = ((a', k'), r) \<Longrightarrow> fds k' = fds k \<and> ident (at_fd A a') = ident (at_fd A a)"
    "at_write A seg (a, k) = (seg', (a', k'), w) \<Longrightarrow> fds k' = fds k \<and> ident (at_fd A a') = ident (at_fd A a)"
    "at_tick A ms (a, k) = ((a', k'), w) \<Longrightarrow> fds k' = fds k \<and> ident (at_fd A a') = ident (at_fd A a)"
    "ident (at_fd A (at_set_config A cfg a)) = ident (at_fd A a)" "ident (at_fd A (at_set_listening A l a)) = ident (at_fd A a)"
proof -
  note d = assms [unfolded adapter_keeps_def]
  show "at_read A (a, k) = ((a', k'), r) \<Longrightarrow> fds k' = fds k \<and> ident (at_fd A a') = ident (at_fd A a)"
    using d [THEN conjunct1, rule_format, of "(a, k)"] by (simp add: adapter_seen_def)
  show "at_write A seg (a, k) = (seg', (a', k'), w) \<Longrightarrow> fds k' = fds k \<and> ident (at_fd A a') = ident (at_fd A a)"
    using d [THEN conjunct2, THEN conjunct1, rule_format, of seg "(a, k)"] by (simp add: adapter_seen_def)
  show "at_tick A ms (a, k) = ((a', k'), w) \<Longrightarrow> fds k' = fds k \<and> ident (at_fd A a') = ident (at_fd A a)"
    using d [THEN conjunct2, THEN conjunct2, THEN conjunct1, rule_format, of ms "(a, k)"] by (simp add: adapter_seen_def)
  show "ident (at_fd A (at_set_config A cfg a)) = ident (at_fd A a)" "ident (at_fd A (at_set_listening A l a)) = ident (at_fd A a)"
    using d by simp_all
qed

lemma lossy_ops_keeps:
  assumes t: "adapter_keeps A fds"
  shows "adapter_keeps (lossy_ops rand A) fds"
proof (rule adapter_keepsI, goal_cases)
  case (1 a k a' k' r)
  obtain b g c h where ag: "a = (b, g)" "a' = (c, h)" by (metis prod.exhaust)
  obtain b1 k1 r1 where rd: "at_read A (b, k) = ((b1, k1), r1)" by (metis prod.exhaust)
  have "c = b1" "k' = k1" using 1 rd by (auto simp: lossy_ops_def ag call_def split: prod.splits sum.splits)
  then show ?case using adapter_keepsD(1) [OF t rd] by (simp add: lossy_ops_def ag)
next
  case (2 seg a k seg' a' k' r)
  obtain b g c h where ag: "a = (b, g)" "a' = (c, h)" by (metis prod.exhaust)
  obtain seg1 b1 k1 r1 where wr: "at_write A seg (b, k) = (seg1, (b1, k1), r1)" by (metis prod.exhaust)
  have "c = b \<and> k' = k \<or> c = b1 \<and> k' = k1" using 2 wr by (auto simp: lossy_ops_def ag split: prod.splits if_splits)
  then show ?case using adapter_keepsD(2) [OF t wr] by (auto simp: lossy_ops_def ag)
next
  case (3 ms a k a' k' r)
  then show ?case by (auto simp: lossy_ops_def split: prod.splits dest: adapter_keepsD(3) [OF t])
qed (simp_all add: lossy_ops_def adapter_keepsD(4,5) [OF t])

subsection \<open>The socket\<close>

definition sponge_seen :: "('a, 'k) adapter_ops \<Rightarrow> ('k \<Rightarrow> int set) \<Rightarrow> ('a, 'k) sponge \<Rightarrow>
    int set \<times> (int \<times> bool) \<times> (int \<times> bool) \<times> (int \<times> bool)" where
  "sponge_seen A fds s = (fds (ss_sys s), ident (ss_owner s), ident (ss_thread_data s), ident (at_fd A (ss_datagram_adapter s)))"

lemma on_thread_data_seen:
  assumes "\<And>x. seen fds (fst (m x)) = seen fds x"
  shows "sponge_seen A fds (fst (on_thread_data m s)) = sponge_seen A fds s"
proof -
  obtain f k r where m: "m (ss_thread_data s, ss_sys s) = ((f, k), r)" by (metis prod.exhaust)
  then show ?thesis using assms [of "(ss_thread_data s, ss_sys s)"] by (simp add: on_thread_data_def sponge_seen_def seen_def)
qed

lemma on_owner_seen:
  assumes "\<And>x. seen fds (fst (m x)) = seen fds x"
  shows "sponge_seen A fds (fst (on_owner m s)) = sponge_seen A fds s"
proof -
  obtain f k r where m: "m (ss_owner s, ss_sys s) = ((f, k), r)" by (metis prod.exhaust)
  then show ?thesis using assms [of "(ss_owner s, ss_sys s)"] by (simp add: on_owner_def sponge_seen_def seen_def)
qed

lemma on_adapter_seen:
  assumes "\<And>x. adapter_seen A fds (fst (m x)) = adapter_seen A fds x"
  shows "sponge_seen A fds (fst (on_adapter m s)) = sponge_seen A fds s"
proof -
  obtain f k r where m: "m (ss_datagram_adapter s, ss_sys s) = ((f, k), r)" by (metis prod.exhaust)
  then show ?thesis using assms [of "(ss_datagram_adapter s, ss_sys s)"] by (simp add: on_adapter_def sponge_seen_def adapter_seen_def)
qed

lemma sponge_seen_simps [simp]:
  "sponge_seen A fds (s\<lparr>ss_tcp := c\<rparr>) = sponge_seen A fds s" "sponge_seen A fds (s\<lparr>ss_fully_acked := b\<rparr>) = sponge_seen A fds s"
  "sponge_seen A fds (s\<lparr>ss_outbound_shutdown := b\<rparr>) = sponge_seen A fds s" "sponge_seen A fds (s\<lparr>ss_inbound_shutdown := b\<rparr>) = sponge_seen A fds s"
  "sponge_seen A fds (s\<lparr>ss_tcp_thread := b\<rparr>) = sponge_seen A fds s"
  by (simp_all add: sponge_seen_def)

lemma thread_data_ops_seen:
  assumes t: "fd_table K fds"
  shows "sponge_seen A fds (fst (on_thread_data (fd_read K n) s)) = sponge_seen A fds s"
    "sponge_seen A fds (fst (on_thread_data (fd_write_string K d all) s)) = sponge_seen A fds s"
    "sponge_seen A fds (fst (on_thread_data (socket_shutdown K how) s)) = sponge_seen A fds s"
  by (rule on_thread_data_seen, rule fd_read_keeps fd_write_string_keeps socket_shutdown_keeps, rule t)+

lemma on_adapter_read_seen: "adapter_keeps A fds \<Longrightarrow> sponge_seen A fds (fst (on_adapter (at_read A) s)) = sponge_seen A fds s"
  by (rule on_adapter_seen) (simp only: adapter_keeps_def)

lemma datagram_callback_seen: "adapter_keeps A fds \<Longrightarrow> sponge_seen A fds (fst (datagram_callback A gni s)) = sponge_seen A fds s"
  unfolding datagram_callback_def by (simp add: fst_call_on fst_call on_adapter_read_seen split: sum.split option.split)

lemma outbound_callback_seen: "fd_table K fds \<Longrightarrow> sponge_seen A fds (fst (outbound_callback K A gni s)) = sponge_seen A fds s"
  unfolding outbound_callback_def
  by (simp add: fst_call_on fst_call thread_data_ops_seen Let_def split: sum.split option.split prod.split)

lemma inbound_callback_seen: "fd_table K fds \<Longrightarrow> sponge_seen A fds (fst (inbound_callback K A gni s)) = sponge_seen A fds s"
  unfolding inbound_callback_def
  by (simp add: fst_call_on fst_call thread_data_ops_seen Let_def split: sum.split option.split)

lemma send_segments_seen: "adapter_keeps A fds \<Longrightarrow> adapter_seen A fds (fst (snd (send_segments A segs x))) = adapter_seen A fds x"
proof (induction segs arbitrary: x)
  case (Cons seg segs)
  have "adapter_seen A fds (fst (snd (at_write A seg x))) = adapter_seen A fds x" using Cons.prems unfolding adapter_keeps_def by blast
  then show ?case using Cons by (auto split: prod.split sum.split)
qed simp

lemma segments_callback_seen:
  assumes "adapter_keeps A fds"
  shows "sponge_seen A fds (fst (segments_callback A s)) = sponge_seen A fds s"
proof (cases "ss_tcp s")
  case (Some c)
  obtain segs a k r where "send_segments A (cn_segments_out c) (ss_datagram_adapter s, ss_sys s) = (segs, (a, k), r)" by (metis prod.exhaust)
  then show ?thesis using send_segments_seen [OF assms, of "cn_segments_out c" "(ss_datagram_adapter s, ss_sys s)"]
    by (simp add: segments_callback_def Some sponge_seen_def adapter_seen_def)
qed (simp add: segments_callback_def)

lemma outbound_cancel_seen: "sponge_seen A fds (fst (outbound_cancel s)) = sponge_seen A fds s"
  by (simp add: outbound_cancel_def split: option.split)

text \<open>The invariant of the event loop: the observation does not change.\<close>

definition sponge_frame :: "('k, 'z) sys_scheme \<Rightarrow> ('a, 'k) adapter_ops \<Rightarrow> ('k \<Rightarrow> int set) \<Rightarrow>
    int set \<times> (int \<times> bool) \<times> (int \<times> bool) \<times> (int \<times> bool) \<Rightarrow> ('a, 'k) sponge \<Rightarrow> bool" where
  "sponge_frame K A fds v s \<longleftrightarrow> sys_table K fds \<and> adapter_keeps A fds \<and> sponge_seen A fds s = v"

lemma sys_tableD:
  assumes "sys_table K fds"
  shows "fd_table K fds" "fds (fst (k_poll K ps t k)) = fds k" "fds (fst (k_timestamp_ms K k)) = fds k" "fds (fst (k_random_device K k)) = fds k"
  using assms by (simp_all add: sys_table_def)

interpretation sponge_table: guarded_rules "\<lambda>r. r \<in> set (sponge_rules K A gni [])" "sponge_frame K A fds v" "\<lambda>r s. True" "socket_poll K"
  for K :: "('k, 'z) sys_scheme" and A :: "('a, 'k) adapter_ops" and gni fds v
proof (unfold_locales, goal_cases)
  case (2 r s)
  then show ?case
    by (auto simp: sponge_rules_eq outbound_rule_def sponge_frame_def datagram_callback_seen outbound_callback_seen inbound_callback_seen
        segments_callback_seen sys_tableD(1))
next
  case (4 r s)
  then show ?case by (auto simp: sponge_rules_eq outbound_rule_def sponge_frame_def outbound_cancel_seen no_cancel_def)
next
  case (6 s ps t s' a)
  then have "s' = s\<lparr>ss_sys := fst (k_poll K ps t (ss_sys s))\<rparr>" by (auto simp: socket_poll_def split: prod.splits)
  then show ?case using 6 by (auto simp: sponge_frame_def sponge_seen_def sys_tableD(2))
qed simp_all

definition own_rules :: "('k, 'z) sys_scheme \<Rightarrow> ('a, 'k) adapter_ops \<Rightarrow> namer \<Rightarrow> ('a, 'k) sponge rule list \<Rightarrow> bool" where
  "own_rules K A gni rules \<longleftrightarrow> distinct rules \<and> set rules \<subseteq> set (sponge_rules K A gni [])"

lemma on_adapter_tick_seen: "adapter_keeps A fds \<Longrightarrow> sponge_seen A fds (fst (on_adapter (at_tick A ms) s)) = sponge_seen A fds s"
  by (rule on_adapter_seen) (simp only: adapter_keeps_def)

lemma tcp_iteration_frame:
  assumes f: "sponge_frame K A fds v s" and rules: "own_rules K A gni rules" and run: "tcp_iteration K A t (rules, s) = ((rules', s'), r)"
  shows "sponge_frame K A fds v s' \<and> own_rules K A gni rules'"
proof -
  obtain rules1 s1 r1 where wt: "wait_next_event (socket_poll K) TCP_TICK_MS (rules, s) = ((rules1, s1), r1)" by (metis prod.exhaust)
  have ok: "distinct rules" "\<forall>r \<in> set rules. r \<in> set (sponge_rules K A gni [])" using rules by (auto simp: own_rules_def)
  note k = sponge_table.wait_keeps [OF wt ok f]
  then have w: "sys_table K fds" "adapter_keeps A fds" by (simp_all add: sponge_frame_def)
  obtain k2 t2 where tm: "k_timestamp_ms K (ss_sys s1) = (k2, t2)" by fastforce
  have k2: "fds k2 = fds (ss_sys s1)" using sys_tableD(3) [OF w(1), of "ss_sys s1"] tm by simp
  have tick: "sponge_frame K A fds v s3" if "on_adapter (at_tick A ms) (s1\<lparr>ss_sys := k2, ss_tcp := c\<rparr>) = (s3, r3)" for ms c s3 r3
    using on_adapter_tick_seen [OF w(2), of ms "s1\<lparr>ss_sys := k2, ss_tcp := c\<rparr>"] that k(1) k2 by (simp add: sponge_frame_def sponge_seen_def)
  have "rules' = rules1 \<and> (s' = s1 \<or> (\<exists>ms c r3. on_adapter (at_tick A ms) (s1\<lparr>ss_sys := k2, ss_tcp := c\<rparr>) = (s', r3)))"
    using run wt tm by (auto simp: tcp_iteration_def call_on_def Let_def split: sum.splits if_splits option.splits prod.splits)
  then show ?thesis using k tick by (auto simp: own_rules_def)
qed

lemma tcp_loop_rounds_frame:
  assumes "sponge_frame K A fds v s" "own_rules K A gni rules" "tcp_loop_rounds n K A condition t (rules, s) = Some ((rules', s'), r)"
  shows "sponge_frame K A fds v s'"
  using assms
proof (induction n arbitrary: rules s t)
  case (Suc n)
  obtain rules1 s1 r1 where it: "tcp_iteration K A t (rules, s) = ((rules1, s1), r1)" by (metis prod.exhaust)
  show ?case using Suc.prems(1,3) tcp_iteration_frame [OF Suc.prems(1,2) it] Suc.IH [of s1 rules1] it
    by (auto split: sum.splits if_splits option.splits)
qed simp

lemma tcp_loop_frame:
  assumes "sponge_frame K A fds v s" "own_rules K A gni rules" "tcp_loop K A condition (rules, s) = Some ((rules', s'), r)"
  shows "sponge_frame K A fds v s'"
proof -
  obtain k t where tm: "k_timestamp_ms K (ss_sys s) = (k, t)" by fastforce
  then have "tcp_loop_from K A condition t (rules, s\<lparr>ss_sys := k\<rparr>) = Some ((rules', s'), r)" using assms(3) by (simp add: tcp_loop_def)
  from tcp_loop_rounds_complete [OF this] obtain n where "tcp_loop_rounds n K A condition t (rules, s\<lparr>ss_sys := k\<rparr>) = Some ((rules', s'), r)" by blast
  moreover have "sponge_frame K A fds v (s\<lparr>ss_sys := k\<rparr>)"
    using assms(1) sys_tableD(3) [of K fds "ss_sys s"] tm by (simp add: sponge_frame_def sponge_seen_def)
  ultimately show ?thesis using tcp_loop_rounds_frame assms(2) by blast
qed

lemma start_thread_seen: "start_thread name x = Some ((rules, s), r) \<Longrightarrow> \<exists>rules0 s0 r0. x = Some ((rules0, s0), r0) \<and> sponge_seen A fds s = sponge_seen A fds s0"
  by (auto simp: start_thread_def call_def split: option.splits prod.splits sum.splits)

lemma initialize_TCP_frame:
  assumes "sponge_frame K A fds v s" "initialize_TCP K A gni cfg ([], s) = (rules, s')"
  shows "sponge_frame K A fds v s'" "own_rules K A gni rules"
proof -
  obtain k rnd where r: "k_random_device K (ss_sys s) = (k, rnd)" by fastforce
  have "fds k = fds (ss_sys s)" using sys_tableD(4) [of K fds "ss_sys s"] assms(1) r by (simp add: sponge_frame_def)
  then show "sponge_frame K A fds v s'" using assms r by (auto simp: initialize_TCP_def sponge_frame_def sponge_seen_def)
  show "own_rules K A gni rules" using assms(2) r sponge_rules_distinct by (auto simp: initialize_TCP_def own_rules_def)
qed

lemma sponge_frame_config:
  assumes "sponge_frame K A fds v s"
  shows "sponge_frame K A fds v (s\<lparr>ss_datagram_adapter := at_set_config A cfg (ss_datagram_adapter s)\<rparr>)"
    "sponge_frame K A fds v (s\<lparr>ss_datagram_adapter := at_set_listening A l (at_set_config A cfg (ss_datagram_adapter s))\<rparr>)"
  using assms adapter_keepsD(4,5) [of A fds] by (auto simp: sponge_frame_def sponge_seen_def)

lemma sponge_connect_frame:
  assumes f: "sponge_frame K A fds v s" and run: "sponge_connect K A gni c_tcp c_ad ([], s) = Some ((rules', s'), r)"
  shows "sponge_frame K A fds v s'"
proof (cases "ss_tcp s = None")
  case True
  obtain rules1 s1 where i: "initialize_TCP K A gni c_tcp ([], s) = (rules1, s1)" by fastforce
  note i1 = initialize_TCP_frame [OF f i]
  let ?s2 = "s1\<lparr>ss_datagram_adapter := at_set_config A c_ad (ss_datagram_adapter s1)\<rparr>"
  have s2: "sponge_frame K A fds v (?s2\<lparr>ss_tcp := c\<rparr>)" for c using sponge_frame_config(1) [OF i1(1), of c_ad] by (simp add: sponge_frame_def)
  note loop = tcp_loop_frame [OF s2 i1(2)]
  have "s' = ?s2 \<or> (\<exists>c. s' = ?s2\<lparr>ss_tcp := c\<rparr>) \<or> (\<exists>c name. start_thread name (tcp_loop K A (tcp_state_in [SYN_SENT]) (rules1, ?s2\<lparr>ss_tcp := c\<rparr>)) = Some ((rules', s'), r))"
    using run True i by (auto simp: sponge_connect_def Let_def split: sum.splits option.splits if_splits)
  then consider "s' = ?s2" | c where "s' = ?s2\<lparr>ss_tcp := c\<rparr>"
    | c name where "start_thread name (tcp_loop K A (tcp_state_in [SYN_SENT]) (rules1, ?s2\<lparr>ss_tcp := c\<rparr>)) = Some ((rules', s'), r)" by blast
  then show ?thesis
  proof cases
    case 1
    then show ?thesis using sponge_frame_config(1) [OF i1(1)] by simp
  next
    case 2
    then show ?thesis using s2 by simp
  next
    case 3
    from start_thread_seen [OF this, of A fds] show ?thesis using loop f by (auto simp: sponge_frame_def)
  qed
next
  case False
  then show ?thesis using run f by (simp add: sponge_connect_def)
qed

lemma listen_and_accept_frame:
  assumes f: "sponge_frame K A fds v s" and run: "listen_and_accept K A gni c_tcp c_ad ([], s) = Some ((rules', s'), r)"
  shows "sponge_frame K A fds v s'"
proof (cases "ss_tcp s = None")
  case True
  obtain rules1 s1 where i: "initialize_TCP K A gni c_tcp ([], s) = (rules1, s1)" by fastforce
  note i1 = initialize_TCP_frame [OF f i]
  note loop = tcp_loop_frame [OF sponge_frame_config(2) [OF i1(1)] i1(2)]
  have "start_thread (peer_name A gni) (tcp_loop K A (tcp_state_in [LISTEN, SYN_RCVD, SYN_SENT])
      (rules1, s1\<lparr>ss_datagram_adapter := at_set_listening A True (at_set_config A c_ad (ss_datagram_adapter s1))\<rparr>)) = Some ((rules', s'), r)"
    using run True i by (simp add: listen_and_accept_def)
  from start_thread_seen [OF this, of A fds] show ?thesis using loop f by (auto simp: sponge_frame_def)
next
  case False
  then show ?thesis using run f by (simp add: listen_and_accept_def)
qed

subsection \<open>Copying\<close>

lemma pull_seen:
  assumes t: "fd_table K fds" and run: "pull K (f, b, k) = ((f', b', k'), r)"
  shows "fds k' = fds k" "ident f' = ident f"
proof -
  obtain f1 k1 r1 where rd: "fd_read K (bs_remaining_capacity b) (f, k) = ((f1, k1), r1)" by (metis prod.exhaust)
  have "f' = f1" "k' = k1" using run rd by (auto simp: pull_def call_def Let_def split: sum.splits)
  then show "fds k' = fds k" "ident f' = ident f" using seen_eqs(1) [OF t rd] by simp_all
qed

lemma push_cases:
  assumes t: "fd_table K fds" and run: "push K finish (f, b, k) = ((f', b', k'), r)"
  obtains "fds k' = fds k" "ident f' = ident f"
  | f1 k1 r1 where "fds k1 = fds k" "ident f1 = ident f" "finish (f1, k1) = ((f', k'), r1)"
proof -
  let ?d = "bs_peek_output (min max_copy_length (bs_buffer_size b)) b"
  obtain f1 k1 r1 where w: "fd_write_string K ?d False (f, k) = ((f1, k1), r1)" by (metis prod.exhaust)
  note s = seen_eqs(3) [OF t w]
  have "f' = f1 \<and> k' = k1 \<or> (\<exists>r1. finish (f1, k1) = ((f', k'), r1))"
    using run w by (auto simp: push_def call_def Let_def split: sum.splits if_splits prod.splits)
  then show ?thesis using that s by blast
qed

lemma fd_close_table:
  assumes t: "fd_table K fds" and run: "fd_close K (f, k) = ((f', k'), r)"
  shows "fw_fd f' = fw_fd f" "fds k' = fds k - {fw_fd f}" "fw_fd f \<in> fds k \<Longrightarrow> fw_closed f'" "fw_fd f \<notin> fds k \<Longrightarrow> f' = f"
proof -
  obtain k1 v e where c: "k_close K (fw_fd f) k = (k1, v, e)" by (metis prod.exhaust)
  note q = fd_table_close [OF t c]
  have "fds k' = fds k - {fw_fd f} \<and> fw_fd f' = fw_fd f \<and> (fw_fd f \<in> fds k \<longrightarrow> fw_closed f') \<and> (fw_fd f \<notin> fds k \<longrightarrow> f' = f)"
  proof (cases "fw_fd f \<in> fds k")
    case True
    then have "f' = f\<lparr>fw_closed := True, fw_eof := True\<rparr>" "k' = k1" using run c q(2) by (simp_all add: fd_close_def SystemCall_def)
    then show ?thesis using True q(1) by simp
  next
    case False
    then have "f' = f" "k' = k1" using run c q(3) by (simp_all add: fd_close_def SystemCall_def EBADF_def)
    then show ?thesis using False q(1) by simp
  qed
  then show "fw_fd f' = fw_fd f" "fds k' = fds k - {fw_fd f}" "fw_fd f \<in> fds k \<Longrightarrow> fw_closed f'" "fw_fd f \<notin> fds k \<Longrightarrow> f' = f" by blast+
qed

text \<open>Standard output may have been closed, at the end of the inbound stream.\<close>

definition copy_frame :: "('k, 'z) sys_scheme \<Rightarrow> ('k \<Rightarrow> int set) \<Rightarrow> int set \<Rightarrow> int \<times> bool \<Rightarrow> 'k copy \<Rightarrow> bool" where
  "copy_frame K fds F v s \<longleftrightarrow>
     sys_table K fds \<and> ident (cp_socket s) = v \<and> ident (cp_input s) = (0, False) \<and> fw_fd (cp_output s) = 1 \<and>
     fds (cp_sys s) = (if fw_closed (cp_output s) then F - {1} else F)"

lemma stdin_callback_frame: "copy_frame K fds F v s \<Longrightarrow> copy_frame K fds F v (fst (stdin_callback K s))"
proof -
  assume c: "copy_frame K fds F v s"
  then have t: "fd_table K fds" by (simp add: copy_frame_def sys_table_def)
  obtain f b k r where p: "pull K (cp_input s, cp_outbound s, cp_sys s) = ((f, b, k), r)" by (metis prod.exhaust)
  show ?thesis using c pull_seen [OF t p] by (simp add: stdin_callback_def p copy_frame_def)
qed

lemma socket_in_callback_frame: "copy_frame K fds F v s \<Longrightarrow> copy_frame K fds F v (fst (socket_in_callback K s))"
proof -
  assume c: "copy_frame K fds F v s"
  then have t: "fd_table K fds" by (simp add: copy_frame_def sys_table_def)
  obtain f b k r where p: "pull K (cp_socket s, cp_inbound s, cp_sys s) = ((f, b, k), r)" by (metis prod.exhaust)
  show ?thesis using c pull_seen [OF t p] by (simp add: socket_in_callback_def p copy_frame_def)
qed

lemma socket_out_callback_frame: "copy_frame K fds F v s \<Longrightarrow> copy_frame K fds F v (fst (socket_out_callback K s))"
proof -
  assume c: "copy_frame K fds F v s"
  then have t: "fd_table K fds" by (simp add: copy_frame_def sys_table_def)
  obtain f b k r where p: "push K (socket_shutdown K SHUT_WR) (cp_socket s, cp_outbound s, cp_sys s) = ((f, b, k), r)" by (metis prod.exhaust)
  have "fds k = fds (cp_sys s) \<and> ident f = ident (cp_socket s)"
    by (rule push_cases [OF t p]) (auto dest: seen_eqs(5) [OF t])
  then show ?thesis using c by (cases r) (simp_all add: socket_out_callback_def p copy_frame_def Let_def)
qed

lemma stdout_callback_frame: "copy_frame K fds F v s \<Longrightarrow> copy_frame K fds F v (fst (stdout_callback K s))"
proof -
  assume c: "copy_frame K fds F v s"
  then have t: "fd_table K fds" and o: "fw_fd (cp_output s) = 1" by (simp_all add: copy_frame_def sys_table_def)
  have k: "fds (cp_sys s) = (if fw_closed (cp_output s) then F - {1} else F)" using c by (simp add: copy_frame_def)
  obtain f b k r where p: "push K (fd_close K) (cp_output s, cp_inbound s, cp_sys s) = ((f, b, k), r)" by (metis prod.exhaust)
  have "fw_fd f = 1 \<and> fds k = (if fw_closed f then F - {1} else F)"
  proof (rule push_cases [OF t p], goal_cases)
    case 1
    then show ?case using k o by (simp add: ident_def)
  next
    case (2 f1 k1 r1)
    then have f1: "fw_fd f1 = 1" "fw_closed f1 = fw_closed (cp_output s)" using o by (simp_all add: ident_def)
    note q = fd_close_table [OF t 2(3)]
    show ?case using q f1 k 2(1) by (cases "1 \<in> fds k1") (auto split: if_splits)
  qed
  then show ?thesis using c by (cases r) (simp_all add: stdout_callback_def p copy_frame_def Let_def)
qed

interpretation copy_table: guarded_rules "\<lambda>r. r \<in> set (copy_rules K)" "copy_frame K fds F v" "\<lambda>r s. True" "copy_poll K"
  for K :: "('k, 'z) sys_scheme" and fds F v
proof (unfold_locales, goal_cases)
  case (2 r s)
  then show ?case
    by (auto simp: copy_rules_eq stdin_callback_frame socket_in_callback_frame socket_out_callback_frame stdout_callback_frame)
next
  case (4 r s)
  then show ?case by (auto simp: copy_rules_eq end_outbound_def end_inbound_def copy_frame_def)
next
  case (6 s ps t s' a)
  then have "s' = s\<lparr>cp_sys := fst (k_poll K ps t (cp_sys s))\<rparr>" by (auto simp: copy_poll_def split: prod.splits)
  then show ?case using 6 by (auto simp: copy_frame_def sys_tableD(2))
qed simp_all

lemma copy_loop_frame:
  fixes K :: "('k, 'z) sys_scheme"
  assumes "copy_loop K x = Some y" "copy_frame K fds F v (snd x)" "distinct (fst x)" "set (fst x) \<subseteq> set (copy_rules K)"
  shows "copy_frame K fds F v (snd (fst y))"
proof -
  let ?P = "\<lambda>K x y. copy_frame K fds F v (snd x) \<and> distinct (fst x) \<and> set (fst x) \<subseteq> set (copy_rules K) \<longrightarrow> copy_frame K fds F v (snd (fst y))"
  have "?P K x y"
  proof (rule copy_loop.raw_induct [where P = ?P and xa = "(K, x)" and y = y, unfolded prod.case])
    fix loop :: "('k, 'z) sys_scheme \<Rightarrow> 'k copy rule list \<times> 'k copy \<Rightarrow> (('k copy rule list \<times> 'k copy) \<times> (exn + unit)) option" and K x y
    assume IH: "\<And>K x y. loop K x = Some y \<Longrightarrow> ?P K x y"
      and eq: "(case wait_next_event (copy_poll K) (- 1) x of (x, Inl e) \<Rightarrow> Some (x, Inl e)
        | (x, Inr r) \<Rightarrow> if r = Exit then Some (x, Inr ()) else loop K x) = Some y"
    show "?P K x y"
    proof
      assume p: "copy_frame K fds F v (snd x) \<and> distinct (fst x) \<and> set (fst x) \<subseteq> set (copy_rules K)"
      obtain rules1 s1 r1 where w: "wait_next_event (copy_poll K) (- 1) (fst x, snd x) = ((rules1, s1), r1)" by (metis prod.exhaust)
      have ok: "distinct (fst x)" "\<forall>r \<in> set (fst x). r \<in> set (copy_rules K)" "copy_frame K fds F v (snd x)" using p by blast+
      have "copy_frame K fds F v s1" "distinct rules1" "set rules1 \<subseteq> set (copy_rules K)"
        using copy_table.wait_keeps [OF w ok] by blast+
      then show "copy_frame K fds F v (snd (fst y))" using eq w IH [of K "(rules1, s1)" y] by (auto split: sum.splits if_splits)
    qed
  qed (use assms(1) in simp)
  then show ?thesis using assms(2-) by blast
qed

lemma copy_start_table:
  assumes t: "fd_table K fds" and run: "copy_start K (f, k) = ((f', k'), r)"
  shows "(\<exists>e. r = Inl e \<and> ident f' = ident f \<and> fds k' = fds k - {0, 1}) \<or>
    (\<exists>s. r = Inr s \<and> ident (cp_socket s) = ident f \<and> ident (cp_input s) = (0, False) \<and> ident (cp_output s) = (1, False) \<and> fds (cp_sys s) = fds k)"
proof -
  obtain i0 o0 where n: "fd_new 0 = Inr i0" "fd_new 1 = Inr o0" "ident i0 = (0, False)" "ident o0 = (1, False)" by (simp add: fd_new_def ident_def)
  obtain f1 k1 r1 where a: "set_blocking K False (f, k) = ((f1, k1), r1)" by (metis prod.exhaust)
  obtain i2 k2 r2 where b: "set_blocking K False (i0, k1) = ((i2, k2), r2)" by (metis prod.exhaust)
  obtain o3 k3 r3 where c: "set_blocking K False (o0, k2) = ((o3, k3), r3)" by (metis prod.exhaust)
  note q = seen_eqs(4) [OF t a] seen_eqs(4) [OF t b] seen_eqs(4) [OF t c]
  have d: "fds (snd (fd_destroy K (i, snd (fd_destroy K (j, k))))) = fds k - {0, 1}" if "ident i = (0, False)" "ident j = (1, False)" for i j k
    using that by (auto simp: fd_destroy_table [OF t] ident_def)
  show ?thesis
  proof (cases r1)
    case (Inl e)
    then show ?thesis using run a n q d [of i0 o0 k1] by (auto simp: copy_start_def)
  next
    case 1: (Inr u1)
    show ?thesis
    proof (cases r2)
      case (Inl e)
      then show ?thesis using run a b n q 1 d [of i2 o0 k2] by (auto simp: copy_start_def)
    next
      case 2: (Inr u2)
      then show ?thesis using run a b c n q 1 d [of i2 o3 k3] by (cases r3) (auto simp: copy_start_def)
    qed
  qed
qed

text \<open>The copy closes standard input and output, on every path.\<close>

lemma stream_copy_table:
  assumes w: "sys_table K fds" and run: "bidirectional_stream_copy K (f, k) = Some ((f', k'), r)"
  shows "ident f' = ident f" "fds k' = fds k - {0, 1}"
proof -
  note t = sys_tableD(1) [OF w]
  obtain f1 k1 r1 where st: "copy_start K (f, k) = ((f1, k1), r1)" by (metis prod.exhaust)
  have "ident f' = ident f \<and> fds k' = fds k - {0, 1}"
  proof (cases r1)
    case (Inl e)
    then show ?thesis using run st copy_start_table [OF t st] by (simp add: bidirectional_stream_copy_def)
  next
    case (Inr s)
    then have s: "copy_frame K fds (fds k) (ident f) s" using copy_start_table [OF t st] w by (simp add: copy_frame_def ident_def)
    obtain rules2 s2 r2 where l: "copy_loop K (copy_rules K, s) = Some ((rules2, s2), r2)"
      using run st Inr by (auto simp: bidirectional_stream_copy_def split: option.splits prod.splits)
    have s2: "copy_frame K fds (fds k) (ident f) s2"
      using copy_loop_frame [OF l, of fds "fds k" "ident f"] s copy_rules_distinct [of K] by simp
    have "f' = cp_socket s2" "k' = snd (fd_destroy K (cp_input s2, snd (fd_destroy K (cp_output s2, cp_sys s2))))"
      using run st Inr l by (auto simp: bidirectional_stream_copy_def split: prod.splits)
    then show ?thesis using s2 by (auto simp: copy_frame_def fd_destroy_table [OF t] ident_def)
  qed
  then show "ident f' = ident f" "fds k' = fds k - {0, 1}" by blast+
qed

end
