(* ===== verification/Programs.thy ===== *)
theory Programs
  imports Lab7 Command_Line
begin

text \<open>
  The main functions: \<^verbatim>\<open>apps/tcp_ipv4.cc\<close>, \<^verbatim>\<open>apps/tcp_udp.cc\<close>, \<^verbatim>\<open>apps/tcp_ip_ethernet.cc\<close>, which copy between the terminal and a socket of this
  library, \<^verbatim>\<open>apps/tcp_native.cc\<close>, which does so with a socket of the system, \<^verbatim>\<open>apps/webget.cc\<close>, a client for HTTP, and \<^verbatim>\<open>apps/tun.cc\<close>, which shows
  the packets of a device, and that of \<^verbatim>\<open>apps/lab7.cc\<close>.  \<open>argv\<close> starts with the name of the program.  A program that throws prints the exception and has status 1; a
  program may run forever.
\<close>

definition exit_status :: "'a outcome \<Rightarrow> int" where
  "exit_status r = (case r of Exited n _ \<Rightarrow> n | Threw _ \<Rightarrow> 1 | Done _ \<Rightarrow> 0)"

definition outcome_of :: "exn + 'a \<Rightarrow> 'a outcome" where
  "outcome_of r = (case r of Inl e \<Rightarrow> Threw e | Inr x \<Rightarrow> Done x)"

definition missing_arguments :: string where
  "missing_arguments = ''ERROR: required arguments are missing.''"

subsection \<open>Programs on a socket of the library\<close>

text \<open>The common end of the three programs: accept or connect, copy, wait; the socket is destroyed in any case.\<close>

definition program_session :: "('k, 'z) sys_scheme \<Rightarrow> ('a, 'k) adapter_ops \<Rightarrow> namer \<Rightarrow> ('k \<Rightarrow> 'k) \<Rightarrow> ('k \<Rightarrow> 'k) \<Rightarrow>
    bool \<Rightarrow> tcp_config \<Rightarrow> fd_adapter_config \<Rightarrow> ('a, 'k) sponge \<Rightarrow> ('k \<times> unit outcome) option" where
  "program_session K A gni store_abort join listen c_fsm c_filt s =
     (case (if listen then listen_and_accept K A gni c_fsm c_filt ([], s) else sponge_connect K A gni c_fsm c_filt ([], s)) of
        None \<Rightarrow> None
      | Some ((_, s), Inl e) \<Rightarrow> Some (sponge_end K A store_abort join s, Threw e)
      | Some ((_, s), Inr _) \<Rightarrow>
          (case copy_session K join s of
             None \<Rightarrow> None
           | Some (s, r) \<Rightarrow> Some (sponge_end K A store_abort join s, outcome_of r)))"

text \<open>A configuration, then a socket made with it, then the session.\<close>

definition with_config :: "'c outcome \<Rightarrow> 'k \<Rightarrow> ('c \<Rightarrow> ('k \<times> unit outcome) option) \<Rightarrow> ('k \<times> unit outcome) option" where
  "with_config c k f = (case c of Exited n text \<Rightarrow> Some (k, Exited n text) | Threw e \<Rightarrow> Some (k, Threw e) | Done c \<Rightarrow> f c)"

definition with_socket :: "'k \<times> (exn + ('a, 'k) sponge) \<Rightarrow> (('a, 'k) sponge \<Rightarrow> ('k \<times> unit outcome) option) \<Rightarrow> ('k \<times> unit outcome) option" where
  "with_socket x f = (case x of (k, Inl e) \<Rightarrow> Some (k, Threw e) | (_, Inr s) \<Rightarrow> f s)"

text \<open>A socket around an adapter; the descriptor of the adapter is closed when a constructor throws.\<close>

definition socket_on :: "('k, 'z) net_kernel_scheme \<Rightarrow> fd_wrapper \<Rightarrow> 'k \<Rightarrow> exn + 'a \<Rightarrow> 'k \<times> (exn + ('a, 'k) sponge)" where
  "socket_on K f k adapter =
     call (snd (fd_destroy K (f, k))) adapter (\<lambda>a.
     case sponge_new K a k of
       (k, Inl e) \<Rightarrow> (snd (fd_destroy K (f, k)), Inl e)
     | (k, Inr s) \<Rightarrow> (k, Inr s))"

text \<open>The source port is drawn after the configuration has been constructed.\<close>

definition draw_port :: "('k, 'z) sys_scheme \<Rightarrow> resolver \<Rightarrow> 'k \<Rightarrow> 'k \<times> u32" where
  "draw_port K gai k = (case fd_adapter_config_new gai of Inl _ \<Rightarrow> (k, 0) | Inr _ \<Rightarrow> k_random_device K k)"

definition ipv4_socket :: "('k, 'z) net_kernel_scheme \<Rightarrow> 'g \<Rightarrow> resolver \<Rightarrow> string option \<Rightarrow> 'k \<Rightarrow>
    'k \<times> (exn + ((fd_wrapper \<times> fd_adapter_base) \<times> 'g, 'k) sponge)" where
  "ipv4_socket K g gai tun_dev_name k =
     call_on (tun_tap_new K (map of_char (case tun_dev_name of None \<Rightarrow> TUN_DFLT | Some d \<Rightarrow> d)) True k) (\<lambda>k f.
     socket_on K f k (map_sum id (\<lambda>a. (a, g)) (tun_adapter_new gai f)))"

definition ipv4_main :: "('k, 'z) sys_scheme \<Rightarrow> ('g \<Rightarrow> u32 \<times> 'g) \<Rightarrow> 'g \<Rightarrow> resolver \<Rightarrow> namer \<Rightarrow> ('k \<Rightarrow> 'k) \<Rightarrow> ('k \<Rightarrow> 'k) \<Rightarrow>
    string list \<Rightarrow> 'k \<Rightarrow> ('k \<times> unit outcome) option" where
  "ipv4_main K rand g gai gni store_abort join argv k =
     (if length argv < 3 then Some (k, Exited 1 (ipv4_usage (hd argv) (Some missing_arguments)))
      else
        (let (k, rnd) = draw_port K gai k
         in with_config (ipv4_get_config gai gni rnd argv) k (\<lambda>(c_fsm, c_filt, listen, tun_dev_name).
            with_socket (ipv4_socket K g gai tun_dev_name k) (\<lambda>s.
            program_session K (lossy_ops rand (tun_ops K gai gni)) gni store_abort join listen c_fsm c_filt s))))"

definition udp_adapter_new :: "resolver \<Rightarrow> fd_wrapper \<Rightarrow> exn + (fd_wrapper \<times> fd_adapter_base)" where
  "udp_adapter_new gai f = map_sum id (\<lambda>cfg. (f, \<lparr>ab_cfg = cfg, ab_listen = False\<rparr>)) (fd_adapter_config_new gai)"

definition udp_socket :: "('k, 'z) net_kernel_scheme \<Rightarrow> 'g \<Rightarrow> resolver \<Rightarrow> bool \<Rightarrow> fd_adapter_config \<Rightarrow> 'k \<Rightarrow>
    'k \<times> (exn + ((fd_wrapper \<times> fd_adapter_base) \<times> 'g, 'k) sponge)" where
  "udp_socket K g gai listen c_filt k =
     call_on (udp_socket_new K k) (\<lambda>k f.
     case (if listen then socket_bind K (fa_source c_filt) (f, k) else ((f, k), Inr ())) of
       ((f, k), Inl e) \<Rightarrow> (snd (fd_destroy K (f, k)), Inl e)
     | ((f, k), Inr _) \<Rightarrow> socket_on K f k (map_sum id (\<lambda>a. (a, g)) (udp_adapter_new gai f)))"

definition udp_main :: "('k, 'z) sys_scheme \<Rightarrow> ('g \<Rightarrow> u32 \<times> 'g) \<Rightarrow> 'g \<Rightarrow> resolver \<Rightarrow> namer \<Rightarrow> ('k \<Rightarrow> 'k) \<Rightarrow> ('k \<Rightarrow> 'k) \<Rightarrow>
    string list \<Rightarrow> 'k \<Rightarrow> ('k \<times> unit outcome) option" where
  "udp_main K rand g gai gni store_abort join argv k =
     (if length argv < 3 then Some (k, Exited 1 (udp_usage (hd argv) (Some missing_arguments)))
      else with_config (udp_get_config gai argv) k (\<lambda>(c_fsm, c_filt, listen).
           with_socket (udp_socket K g gai listen c_filt k) (\<lambda>s.
           program_session K (lossy_ops rand (udp_ops K gni)) gni store_abort join listen c_fsm c_filt s)))"

definition ethernet_socket :: "('k, 'z) net_kernel_scheme \<Rightarrow> resolver \<Rightarrow> ethernet_address \<Rightarrow> fd_adapter_config \<Rightarrow> address \<Rightarrow> string \<Rightarrow> 'k \<Rightarrow>
    'k \<times> (exn + (fd_wrapper \<times> ethernet_adapter, 'k) sponge)" where
  "ethernet_socket K gai local_ethernet_address c_filt next_hop tap_dev_name k =
     call_on (tun_tap_new K (map of_char tap_dev_name) False k) (\<lambda>k f.
     let ((f, k), adapter) = tap_adapter_new K gai local_ethernet_address (fa_source c_filt) next_hop (f, k)
     in socket_on K f k adapter)"

definition ethernet_main :: "('k, 'z) sys_scheme \<Rightarrow> resolver \<Rightarrow> namer \<Rightarrow> ('k \<Rightarrow> 'k) \<Rightarrow> ('k \<Rightarrow> 'k) \<Rightarrow>
    string list \<Rightarrow> 'k \<Rightarrow> ('k \<times> unit outcome) option" where
  "ethernet_main K gai gni store_abort join argv k =
     (if length argv < 3 then Some (k, Exited 1 (ethernet_usage (hd argv) (Some missing_arguments)))
      else
        (let (k, local_ethernet_address) = random_private_ethernet_address K k; (k, rnd) = draw_port K gai k
         in with_config (ethernet_get_config gai rnd argv) k (\<lambda>(c_fsm, c_filt, next_hop, tap_dev_name).
            with_socket (ethernet_socket K gai local_ethernet_address c_filt next_hop tap_dev_name k) (\<lambda>s.
            program_session K (tap_ops K gai gni) gni store_abort join False c_fsm c_filt s))))"

subsection \<open>tcp_native\<close>

definition native_server :: "('k, 'z) net_kernel_scheme \<Rightarrow> resolver \<Rightarrow> string \<Rightarrow> string \<Rightarrow> 'k \<Rightarrow> 'k \<times> (exn + fd_wrapper)" where
  "native_server K gai host service k =
     call_on (tcp_socket_new K k) (\<lambda>k listening_socket.
     let (x, r) =
           call_on (set_reuseaddr K (listening_socket, k)) (\<lambda>x _.
           call x (address_of_host gai host service) (\<lambda>address.
           call_on (socket_bind K address x) (\<lambda>x _.
           call_on (tcp_listen K 16 x) (\<lambda>x _. tcp_accept K x))))
     in (snd (fd_destroy K x), r))"

definition native_client :: "('k, 'z) net_kernel_scheme \<Rightarrow> resolver \<Rightarrow> string \<Rightarrow> string \<Rightarrow> 'k \<Rightarrow> 'k \<times> (exn + fd_wrapper)" where
  "native_client K gai host service k =
     call_on (tcp_socket_new K k) (\<lambda>k connecting_socket.
     case call (connecting_socket, k) (address_of_host gai host service) (\<lambda>address. socket_connect K address (connecting_socket, k)) of
       (x, Inl e) \<Rightarrow> (snd (fd_destroy K x), Inl e)
     | ((f, k), Inr _) \<Rightarrow> (k, Inr f))"

definition native_main :: "('k, 'z) sys_scheme \<Rightarrow> resolver \<Rightarrow> string list \<Rightarrow> 'k \<Rightarrow> ('k \<times> unit outcome) option" where
  "native_main K gai argv k =
     (if length argv < 3 \<or> strncmp_same ''-l'' (argv ! 1) 3 \<and> length argv < 4
      then Some (k, Exited 1 (''Usage: '' @ hd argv @ '' [-l] <host> <port>'' @ blank @
             ''  -l specifies listen mode; <host>:<port> is the listening address.'' @ [newline]))
      else
        (case (if strncmp_same ''-l'' (argv ! 1) 3 then native_server K gai (argv ! 2) (argv ! 3) k
               else native_client K gai (argv ! 1) (argv ! 2) k) of
           (k, Inl e) \<Rightarrow> Some (k, Threw e)
         | (k, Inr socket) \<Rightarrow>
             (case bidirectional_stream_copy K (socket, k) of
                None \<Rightarrow> None
              | Some (x, r) \<Rightarrow> Some (snd (fd_destroy K x), outcome_of r))))"

subsection \<open>webget\<close>

definition crlf :: string where
  "crlf = [CHR 0x0D, CHR 0x0A]"

definition http_request :: "string \<Rightarrow> string \<Rightarrow> string list" where
  "http_request host path = [''GET '' @ path @ '' HTTP/1.1'' @ crlf, ''Host: '' @ host @ crlf, ''Connection: close'' @ crlf, crlf]"

fun write_lines :: "('k, 'z) net_kernel_scheme \<Rightarrow> string list \<Rightarrow> ('a, 'k) sponge \<Rightarrow> ('a, 'k) sponge \<times> (exn + unit)" where
  "write_lines K [] s = (s, Inr ())"
| "write_lines K (l # ls) s = call_on (on_owner (fd_write_string K (map of_char l) True) s) (\<lambda>s _. write_lines K ls s)"

text \<open>The loop that prints what arrives; \<open>cout\<close> is what has been printed.\<close>

partial_function (option) read_loop :: "('k, 'z) net_kernel_scheme \<Rightarrow> bytes \<Rightarrow> ('a, 'k) sponge \<Rightarrow> ((bytes \<times> ('a, 'k) sponge) \<times> (exn + unit)) option" where
  "read_loop K cout s =
     (if fw_eof (ss_owner s) then Some ((cout, s), Inr ())
      else (case on_owner (fd_read K SIZE_MAX) s of
              (s, Inl e) \<Rightarrow> Some ((cout, s), Inl e)
            | (s, Inr rsp) \<Rightarrow> read_loop K (cout @ rsp) s))"

text \<open>What \<^verbatim>\<open>get_URL\<close> does on the connected socket, and the whole function.  The variable of the type \<^verbatim>\<open>CS144Socket\<close>, which does not exist, is
  left out.\<close>

definition http_session :: "('k, 'z) net_kernel_scheme \<Rightarrow> ('k \<Rightarrow> 'k) \<Rightarrow> string \<Rightarrow> string \<Rightarrow> ('a, 'k) sponge \<Rightarrow>
    ((bytes \<times> ('a, 'k) sponge) \<times> (exn + unit)) option" where
  "http_session K join host path s =
     (case write_lines K (http_request host path) s of
        (s, Inl e) \<Rightarrow> Some (([], s), Inl e)
      | (s, Inr _) \<Rightarrow>
          (case read_loop K [] s of
             None \<Rightarrow> None
           | Some (x, Inl e) \<Rightarrow> Some (x, Inl e)
           | Some ((cout, s), Inr _) \<Rightarrow>
               (let (s, r) = call_on (on_owner (fd_close K) s) (\<lambda>s _. wait_until_closed K join s) in Some ((cout, s), r))))"

definition get_URL :: "('k, 'z) sys_scheme \<Rightarrow> resolver \<Rightarrow> namer \<Rightarrow> ('k \<Rightarrow> 'k) \<Rightarrow> ('k \<Rightarrow> 'k) \<Rightarrow> string \<Rightarrow> string \<Rightarrow> 'k \<Rightarrow>
    ((bytes \<times> 'k) \<times> (exn + unit)) option" where
  "get_URL K gai gni store_abort join host path k =
     (case full_stack_new K gai k of
        (k, Inl e) \<Rightarrow> Some (([], k), Inl e)
      | (k, Inr s) \<Rightarrow>
          (let finish = sponge_end K (tap_ops K gai gni) store_abort join
           in case address_of_host gai host ''http'' of
                Inl e \<Rightarrow> Some (([], finish s), Inl e)
              | Inr address \<Rightarrow>
                  (case full_stack_connect K gai gni address ([], s) of
                     None \<Rightarrow> None
                   | Some ((_, s), Inl e) \<Rightarrow> Some (([], finish s), Inl e)
                   | Some ((_, s), Inr _) \<Rightarrow>
                       (case http_session K join host path s of
                          None \<Rightarrow> None
                        | Some ((cout, s), r) \<Rightarrow> Some ((cout, finish s), r)))))"

definition webget_main :: "('k, 'z) sys_scheme \<Rightarrow> resolver \<Rightarrow> namer \<Rightarrow> ('k \<Rightarrow> 'k) \<Rightarrow> ('k \<Rightarrow> 'k) \<Rightarrow> string list \<Rightarrow> 'k \<Rightarrow>
    ((bytes \<times> 'k) \<times> unit outcome) option" where
  "webget_main K gai gni store_abort join argv k =
     (if length argv \<noteq> 3
      then Some (([], k), Exited 1 (''Usage: '' @ hd argv @ '' HOST PATH'' @ [newline] @
             CHR 0x09 # ''Example: '' @ hd argv @ '' stanford.edu /class/cs144'' @ [newline]))
      else (case get_URL K gai gni store_abort join (argv ! 1) (argv ! 2) k of
              None \<Rightarrow> None
            | Some (x, r) \<Rightarrow> Some (x, outcome_of r)))"

subsection \<open>tun\<close>

definition tun_report :: "bytes \<Rightarrow> string" where
  "tun_report buffer =
     blank @ ''***'' @ [newline] @ ''*** Got packet:'' @ [newline] @ ''***'' @ [newline] @ hexdump buffer 0 @
     ''attempting to parse as ipv4 datagram... '' @
     (let (res, ip_dgram) = ipv4_datagram_parse buffer ipv4_datagram_new
      in if res \<noteq> NoError then ''failed.'' @ [newline]
         else ''success! totlen='' @ to_string (unat (ih_len (dg_header ip_dgram))) @ '', IPv4 header contents:'' @ [newline] @
           ipv4_header_to_string (dg_header ip_dgram) @
           (if ih_proto (dg_header ip_dgram) \<noteq> PROTO_TCP then newline # ''Not TCP, skipping.'' @ [newline]
            else newline # ''Attempting to parse as a TCP segment... '' @
              (let (res, tcp_seg) = tcp_segment_parse (dg_payload ip_dgram) (pseudo_cksum (dg_header ip_dgram)) tcp_segment_new
               in if res \<noteq> NoError then ''failed.'' @ [newline]
                  else ''success! payload len='' @ to_string (length (sg_payload tcp_seg)) @ '', TCP header contents:'' @ [newline] @
                    tcp_header_to_string (sg_header tcp_seg) @ [newline])))"

partial_function (option) tun_loop :: "('k, 'z) net_kernel_scheme \<Rightarrow> string \<Rightarrow> fd_wrapper \<times> 'k \<Rightarrow> ((string \<times> fd_wrapper \<times> 'k) \<times> exn) option" where
  "tun_loop K cout x =
     (case fd_read K SIZE_MAX x of
        (x, Inl e) \<Rightarrow> Some ((cout, x), e)
      | (x, Inr buffer) \<Rightarrow> tun_loop K (cout @ tun_report buffer) x)"

text \<open>The program ends only with an exception.\<close>

definition tun_main :: "('k, 'z) net_kernel_scheme \<Rightarrow> 'k \<Rightarrow> ((string \<times> 'k) \<times> exn) option" where
  "tun_main K k =
     (case tun_tap_new K (map of_char ''tun144'') True k of
        (k, Inl e) \<Rightarrow> Some (([], k), e)
      | (k, Inr f) \<Rightarrow>
          (case tun_loop K [] (f, k) of
             None \<Rightarrow> None
           | Some ((cout, x), e) \<Rightarrow> Some ((cout, snd (fd_destroy K x)), e)))"

subsection \<open>lab7\<close>

definition lab7_usage :: "string \<Rightarrow> string" where
  "lab7_usage argv0 = ''Usage: '' @ argv0 @ '' client HOST PORT [debug]'' @ [newline] @ ''or     '' @ argv0 @ '' server HOST PORT [debug]'' @ [newline]"

definition lab7_main :: "('k, 'z) sys_scheme \<Rightarrow> 'g generator \<Rightarrow> resolver \<Rightarrow> namer \<Rightarrow> ('k \<Rightarrow> 'k) \<Rightarrow> ('k \<Rightarrow> 'k) \<Rightarrow> ('k \<Rightarrow> 'k) \<Rightarrow>
    string list \<Rightarrow> 'g \<times> 'k \<Rightarrow> (('g \<times> 'k) \<times> exn option outcome) option" where
  "lab7_main K rd gai gni store_abort join stop_network argv x =
     (case lab7_arguments argv of
        None \<Rightarrow> Some (x, Exited 1 (lab7_usage (hd argv)))
      | Some (is_client, bounce_host, bounce_port, _) \<Rightarrow>
          map_option (apsnd outcome_of) (program_body K rd gai gni store_abort join stop_network is_client bounce_host bounce_port x))"

end
