(* ===== verification/Web_Get.thy ===== *)
theory Web_Get
  imports Programs
begin

text \<open>
  What \<^verbatim>\<open>webget\<close> does: the bytes it sends and prints, and how it ends.  It closes its socket and then calls \<^verbatim>\<open>wait_until_closed\<close>, which shuts the
  socket down; \<^verbatim>\<open>shutdown(2)\<close> on a number that is not an open descriptor fails with \<^verbatim>\<open>EBADF\<close>.
\<close>

definition close_spec :: "('k, 'z) net_kernel_scheme \<Rightarrow> (int \<Rightarrow> 'k \<Rightarrow> bytes) \<Rightarrow> (int \<Rightarrow> 'k \<Rightarrow> bytes) \<Rightarrow> bool" where
  "close_spec K got sent \<longleftrightarrow>
     (\<forall>fd k k1 v e. k_close K fd k = (k1, v, e) \<longrightarrow> quiet got sent k k1 \<and> (v = 0 \<or> v = - 1 \<and> e > 0) \<and>
        (v = 0 \<longrightarrow> (\<forall>how. snd (k_shutdown K fd how k1) = (- 1, EBADF))))"

lemma on_owner_eq: "on_owner m s = (s', r) \<longleftrightarrow>
    (\<exists>f k. m (ss_owner s, ss_sys s) = ((f, k), r) \<and> s' = s\<lparr>ss_owner := f, ss_sys := k\<rparr>)"
  by (auto simp: on_owner_def split: prod.splits)

subsection \<open>Writing the request\<close>

lemma write_string_all:
  assumes io: "io_spec K got sent" and len: "length d < 2 ^ 62" and run: "fd_write_string K d True (f, k) = ((f', k'), r)"
  obtains p where "prefix p d" "sent (fw_fd f) k' = sent (fw_fd f) k @ p" "got (fw_fd f) k' = got (fw_fd f) k" "fw_fd f' = fw_fd f"
    "r = Inr n \<Longrightarrow> p = d" "writev_takes K \<Longrightarrow> \<exists>n. r = Inr n"
proof -
  from run have loop: "fd_write_loop K True 0 [d] f k = ((f', k'), r)" by (simp add: fd_write_string_def fd_write_def)
  have "length (concat [d]) < 2 ^ 62" "(0 :: nat) < U64" using len by simp_all
  from fd_write_loop_spec [OF io_specD(1) [OF io] this loop] obtain n where
    "n \<le> length d" "sent (fw_fd f) k' = sent (fw_fd f) k @ take n d" "fw_fd f' = fw_fd f"
    "\<forall>m. r = Inr m \<longrightarrow> n = length d" "writev_takes K \<longrightarrow> (\<exists>m. r = Inr m)" by auto
  moreover have "got (fw_fd f) k' = got (fw_fd f) k"
    by (rule fd_write_got [OF io]) (use run in \<open>simp add: fd_write_string_def\<close>)
  ultimately show ?thesis using that [of "take n d"] by (auto simp: take_is_prefix)
qed

lemma write_lines_sent:
  assumes io: "io_spec K got sent" and len: "\<forall>l \<in> set ls. length l < 2 ^ 62" and run: "write_lines K ls s = (s', r)"
  shows "\<exists>p. prefix p (concat ls) \<and> sent (fw_fd (ss_owner s)) (ss_sys s') = sent (fw_fd (ss_owner s)) (ss_sys s) @ map of_char p \<and>
    got (fw_fd (ss_owner s)) (ss_sys s') = got (fw_fd (ss_owner s)) (ss_sys s) \<and> fw_fd (ss_owner s') = fw_fd (ss_owner s) \<and>
    (r = Inr () \<longrightarrow> p = concat ls) \<and> (writev_takes K \<longrightarrow> r = Inr ())"
  using len run
proof (induction ls arbitrary: s)
  case (Cons l ls)
  obtain f1 k1 r1 where w: "fd_write_string K (map of_char l) True (ss_owner s, ss_sys s) = ((f1, k1), r1)" by (metis prod.exhaust)
  have "length (map of_char l :: bytes) < 2 ^ 62" using Cons.prems(1) by simp
  from write_string_all [OF io this w] obtain q where q: "prefix q (map of_char l)"
    "sent (fw_fd (ss_owner s)) k1 = sent (fw_fd (ss_owner s)) (ss_sys s) @ q" "got (fw_fd (ss_owner s)) k1 = got (fw_fd (ss_owner s)) (ss_sys s)"
    "fw_fd f1 = fw_fd (ss_owner s)" "\<And>n. r1 = Inr n \<Longrightarrow> q = map of_char l" "writev_takes K \<Longrightarrow> \<exists>n. r1 = Inr n" by metis
  obtain p0 where p0: "prefix p0 l" "q = map of_char p0" using q(1) by (metis prefix_map_rightE)
  show ?case
  proof (cases r1)
    case (Inl e)
    then have "s' = s\<lparr>ss_owner := f1, ss_sys := k1\<rparr>" "r = Inl e" using Cons.prems(2) w by (simp_all add: on_owner_def)
    then show ?thesis using q p0 Inl by (intro exI [of _ p0]) (auto intro: prefix_order.trans)
  next
    case (Inr n)
    let ?s = "s\<lparr>ss_owner := f1, ss_sys := k1\<rparr>"
    have "write_lines K ls ?s = (s', r)" using Cons.prems(2) w Inr by (simp add: on_owner_def)
    from Cons.IH [OF _ this] Cons.prems(1) q(4) obtain p where p: "prefix p (concat ls)"
      "sent (fw_fd (ss_owner s)) (ss_sys s') = sent (fw_fd (ss_owner s)) k1 @ map of_char p"
      "got (fw_fd (ss_owner s)) (ss_sys s') = got (fw_fd (ss_owner s)) k1" "fw_fd (ss_owner s') = fw_fd (ss_owner s)"
      "r = Inr () \<longrightarrow> p = concat ls" "writev_takes K \<longrightarrow> r = Inr ()" by auto
    then show ?thesis using q(2,3) q(5) [OF Inr] by (intro exI [of _ "l @ p"]) simp
  qed
qed simp

subsection \<open>Printing the answer\<close>

lemma read_loop_prints:
  fixes K :: "('k, 'z) net_kernel_scheme" and s :: "('a, 'k) sponge"
  assumes io: "io_spec K got sent" and run: "read_loop K cout s = Some ((cout', s'), r)"
  shows "\<exists>d. cout' = cout @ d \<and> got (fw_fd (ss_owner s)) (ss_sys s') = got (fw_fd (ss_owner s)) (ss_sys s) @ d \<and>
    (\<forall>g. sent g (ss_sys s') = sent g (ss_sys s)) \<and> fw_fd (ss_owner s') = fw_fd (ss_owner s)"
proof -
  let ?P = "\<lambda>cout s cout' s'. \<exists>d. cout' = cout @ d \<and> got (fw_fd (ss_owner s)) (ss_sys s') = got (fw_fd (ss_owner s)) (ss_sys s) @ d \<and>
    (\<forall>g. sent g (ss_sys s') = sent g (ss_sys s)) \<and> fw_fd (ss_owner s') = fw_fd (ss_owner s)"
  have "io_spec K got sent \<longrightarrow> ?P cout s (fst (fst ((cout', s'), r))) (snd (fst ((cout', s'), r)))"
  proof (rule read_loop.raw_induct [where P = "\<lambda>K cout s y. io_spec K got sent \<longrightarrow> ?P cout s (fst (fst y)) (snd (fst y))"
        and K = K and cout = cout and s = s and y = "((cout', s'), r)"])
    fix loop :: "('k, 'z) net_kernel_scheme \<Rightarrow> bytes \<Rightarrow> ('a, 'k) sponge \<Rightarrow> ((bytes \<times> ('a, 'k) sponge) \<times> (exn + unit)) option" and K cout s y
    assume IH: "\<And>K cout s y. loop K cout s = Some y \<Longrightarrow> io_spec K got sent \<longrightarrow> ?P cout s (fst (fst y)) (snd (fst y))"
      and eq: "(if fw_eof (ss_owner s) then Some ((cout, s), Inr ())
        else (case on_owner (fd_read K SIZE_MAX) s of (s, Inl e) \<Rightarrow> Some ((cout, s), Inl e) | (s, Inr rsp) \<Rightarrow> loop K (cout @ rsp) s)) = Some y"
    show "io_spec K got sent \<longrightarrow> ?P cout s (fst (fst y)) (snd (fst y))"
    proof (intro impI, cases "fw_eof (ss_owner s)")
      case True
      then show "?P cout s (fst (fst y)) (snd (fst y))" using eq by auto
    next
      assume io: "io_spec K got sent"
      case False
      obtain f1 k1 r1 where rd: "fd_read K SIZE_MAX (ss_owner s, ss_sys s) = ((f1, k1), r1)" by (metis prod.exhaust)
      note t = fd_read_io [OF io rd]
      show "?P cout s (fst (fst y)) (snd (fst y))"
      proof (cases r1)
        case (Inl e)
        then show ?thesis using eq False t rd by (auto simp: on_owner_def)
      next
        case (Inr d)
        then have "loop K (cout @ d) (s\<lparr>ss_owner := f1, ss_sys := k1\<rparr>) = Some y" using eq False rd by (simp add: on_owner_def)
        from IH [OF this] io show ?thesis using t Inr by auto
      qed
    qed
  qed (use run in simp)
  then show ?thesis using io by simp
qed

subsection \<open>The end\<close>

lemma close_then_wait_fails:
  assumes "close_spec K got sent" "call_on (on_owner (fd_close K) s) (\<lambda>s _. wait_until_closed K join s) = (s', r)" "io_spec K got sent"
  shows "\<exists>e. r = Inl e" "quiet got sent (ss_sys s) (ss_sys s')" "fw_fd (ss_owner s') = fw_fd (ss_owner s)"
proof -
  obtain k1 v e where c: "k_close K (fw_fd (ss_owner s)) (ss_sys s) = (k1, v, e)" by (metis prod.exhaust)
  from assms(1) c have q: "quiet got sent (ss_sys s) k1" and v: "v = 0 \<or> v = - 1 \<and> e > 0"
    and sh: "v = 0 \<Longrightarrow> snd (k_shutdown K (fw_fd (ss_owner s)) SHUT_RDWR k1) = (- 1, EBADF)" unfolding close_spec_def by blast+
  obtain k2 where k2: "k_shutdown K (fw_fd (ss_owner s)) SHUT_RDWR k1 = (k2, - 1, EBADF)" if "v = 0" using sh by (metis prod.collapse)
  have q2: "quiet got sent k1 (fst (k_shutdown K (fw_fd (ss_owner s)) SHUT_RDWR k1))" by (rule io_specD(6) [OF assms(3)])
  have "(\<exists>e. r = Inl e) \<and> quiet got sent (ss_sys s) (ss_sys s') \<and> fw_fd (ss_owner s') = fw_fd (ss_owner s)"
  proof (cases "v = 0")
    case True
    then show ?thesis using assms(2) c k2 q q2
      by (auto simp: on_owner_def fd_close_def SystemCall_def wait_until_closed_def socket_shutdown_def EBADF_def quiet_def call_def)
  next
    case False
    then show ?thesis using assms(2) c v q
      by (auto simp: on_owner_def fd_close_def SystemCall_def call_def)
  qed
  then show "\<exists>e. r = Inl e" "quiet got sent (ss_sys s) (ss_sys s')" "fw_fd (ss_owner s') = fw_fd (ss_owner s)" by blast+
qed


lemma http_request_short:
  assumes "length host < 2 ^ 61" "length path < 2 ^ 61"
  shows "\<forall>l \<in> set (http_request host path). length l < 2 ^ 62"
  using assms by (simp add: http_request_def crlf_def)

lemma http_session_outcome:
  assumes io: "io_spec K got sent" and cl: "close_spec K got sent" and len: "length host < 2 ^ 61" "length path < 2 ^ 61"
    and run: "http_session K join host path s = Some ((cout, s'), r)" and fd: "fd = fw_fd (ss_owner s)"
  shows "\<exists>e p. r = Inl e \<and> prefix p (concat (http_request host path)) \<and> sent fd (ss_sys s') = sent fd (ss_sys s) @ map of_char p \<and>
    got fd (ss_sys s') = got fd (ss_sys s) @ cout \<and> (cout \<noteq> [] \<or> writev_takes K \<longrightarrow> p = concat (http_request host path))"
proof -
  obtain s1 r1 where w: "write_lines K (http_request host path) s = (s1, r1)" by fastforce
  from write_lines_sent [OF io http_request_short [OF len] w] fd obtain p where p: "prefix p (concat (http_request host path))"
    "sent fd (ss_sys s1) = sent fd (ss_sys s) @ map of_char p" "got fd (ss_sys s1) = got fd (ss_sys s)" "fw_fd (ss_owner s1) = fd"
    "r1 = Inr () \<longrightarrow> p = concat (http_request host path)" "writev_takes K \<longrightarrow> r1 = Inr ()" by auto
  show ?thesis
  proof (cases r1)
    case (Inl e)
    then have "cout = []" "s' = s1" "r = Inl e" using run w by (simp_all add: http_session_def)
    then show ?thesis using p Inl by auto
  next
    case (Inr u)
    obtain y where y: "read_loop K [] s1 = Some y" using run w Inr by (cases "read_loop K [] s1") (simp_all add: http_session_def)
    obtain c2 s2 r2 where y2: "y = ((c2, s2), r2)" by (metis prod.exhaust)
    from read_loop_prints [OF io y [unfolded y2]] p(4) have rl: "got fd (ss_sys s2) = got fd (ss_sys s1) @ c2" "\<And>g. sent g (ss_sys s2) = sent g (ss_sys s1)"
      "fw_fd (ss_owner s2) = fd" by auto
    have "\<exists>e. r = Inl e \<and> cout = c2 \<and> got fd (ss_sys s') = got fd (ss_sys s2) \<and> sent fd (ss_sys s') = sent fd (ss_sys s2)"
    proof (cases r2)
      case (Inl e)
      then show ?thesis using run w y y2 Inr by (auto simp: http_session_def)
    next
      case (Inr u2)
      obtain s3 r3 where e: "call_on (on_owner (fd_close K) s2) (\<lambda>s _. wait_until_closed K join s) = (s3, r3)" by fastforce
      then have "cout = c2" "s' = s3" "r = r3" using run w y y2 Inr \<open>r1 = Inr u\<close> by (simp_all add: http_session_def)
      then show ?thesis using close_then_wait_fails [OF cl e io] by (auto simp: quiet_def)
    qed
    then show ?thesis using rl p Inr by auto
  qed
qed

lemma http_session_fails:
  assumes "io_spec K got sent" "close_spec K got sent" "http_session K join host path s = Some (x, r)"
  shows "\<exists>e. r = Inl e"
  using assms(3) close_then_wait_fails(1) [OF assms(2) _ assms(1)]
  by (auto simp: http_session_def split: prod.splits sum.splits option.splits)

lemma get_URL_fails:
  assumes "io_spec K got sent" "close_spec K got sent" "get_URL K gai gni store_abort join host path k = Some (x, r)"
  shows "\<exists>e. r = Inl e"
  using assms(3) http_session_fails [OF assms(1,2)]
  by (auto simp: get_URL_def Let_def split: prod.splits sum.splits option.splits)

text \<open>C36. \<^verbatim>\<open>webget\<close> sends the request and prints everything that the server sends, but it never ends normally: it closes its socket and then shuts
  it down.  On a system whose \<^verbatim>\<open>shutdown\<close> fails on a closed descriptor the program has status 1 whenever it ends; in the session on a
  connected socket every byte that was read has been printed, and the whole request has been sent if a byte was printed or the system
  takes a byte at each write.\<close>

theorem webget_outcome:
  assumes io: "io_spec K got sent" and cl: "close_spec K got sent"
  shows "(\<forall>argv k x r. webget_main K gai gni store_abort join argv k = Some (x, r) \<longrightarrow> exit_status r = 1 \<and> r \<noteq> Done ()) \<and>
    (\<forall>host path s cout s' r. length host < 2 ^ 61 \<and> length path < 2 ^ 61 \<and> http_session K join host path s = Some ((cout, s'), r) \<longrightarrow>
       (\<exists>p. prefix p (concat (http_request host path)) \<and>
          sent (fw_fd (ss_owner s)) (ss_sys s') = sent (fw_fd (ss_owner s)) (ss_sys s) @ map of_char p \<and>
          got (fw_fd (ss_owner s)) (ss_sys s') = got (fw_fd (ss_owner s)) (ss_sys s) @ cout \<and>
          (cout \<noteq> [] \<or> writev_takes K \<longrightarrow> p = concat (http_request host path))))"
proof (intro conjI allI impI)
  fix argv k x r
  assume run: "webget_main K gai gni store_abort join argv k = Some (x, r)"
  have "exit_status r = 1 \<and> r \<noteq> Done ()"
  proof (cases "length argv = 3")
    case True
    with run obtain r1 where "get_URL K gai gni store_abort join (argv ! 1) (argv ! 2) k = Some (x, r1)" "r = outcome_of r1"
      by (auto simp: webget_main_def split: option.splits)
    then show ?thesis using get_URL_fails [OF io cl] by (fastforce simp: outcome_of_def exit_status_def)
  next
    case False
    then show ?thesis using run by (auto simp: webget_main_def exit_status_def)
  qed
  then show "exit_status r = 1" "r \<noteq> Done ()" by blast+
qed (use http_session_outcome [OF io cl] in \<open>blast\<close>)

text \<open>A system for examples: reading is at the end of the file, closed descriptors are listed.\<close>

definition closing_sys :: "(int list \<times> (int \<times> bytes) list) sys" where
  "closing_sys =
     \<lparr>k_close = (\<lambda>fd k. ((fd # fst k, snd k), 0, 0)),
      k_read = (\<lambda>fd n k. (k, (0, 0), [])),
      k_writev = (\<lambda>fd iov k. let d = take 100000 (concat (map fst iov)) in ((fst k, snd k @ [(fd, d)]), int (length d), 0)),
      k_getfl = (\<lambda>fd k. (k, 2, 0)), k_setfl = (\<lambda>fd fl k. (k, 0, 0)), k_socket = (\<lambda>d t k. (k, 3, 0)),
      k_getsockopt = (\<lambda>fd l opt k. (k, (0, 0), 1, 4)), k_setsockopt = (\<lambda>fd l opt v k. (k, 0, 0)),
      k_getsockname = (\<lambda>fd k. (k, (0, 0), [])), k_getpeername = (\<lambda>fd k. (k, (0, 0), [])), k_bind = (\<lambda>fd a k. (k, 0, 0)),
      k_connect = (\<lambda>fd a k. (k, 0, 0)), k_shutdown = (\<lambda>fd how k. (k, if fd \<in> set (fst k) then (- 1, EBADF) else (0, 0))),
      k_recvfrom = (\<lambda>fd n k. (k, (0, 0), [], [])), k_sendmsg = (\<lambda>fd dst iov k. (k, 0, 0)), k_listen = (\<lambda>fd b k. (k, 0, 0)),
      k_accept = (\<lambda>fd k. (k, 4, 0)), k_socketpair = (\<lambda>d t k. (k, (0, 0), 5, 6)), k_open = (\<lambda>path fl k. (k, 7, 0)),
      k_tunsetiff = (\<lambda>fd fl name k. (k, 0, 0)), k_poll = (\<lambda>ps t k. (k, (0, 0), \<lambda>i. 0)),
      k_timestamp_ms = (\<lambda>k. (k, 5)), k_random_device = (\<lambda>k. (k, 77)), k_abort = (\<lambda>k. False)\<rparr>"

definition closing_sent :: "int \<Rightarrow> int list \<times> (int \<times> bytes) list \<Rightarrow> bytes" where
  "closing_sent fd k = concat (map snd (filter (\<lambda>x. fst x = fd) (snd k)))"

definition closing_socket :: "(unit, int list \<times> (int \<times> bytes) list) sponge" where
  "closing_socket =
     \<lparr>ss_owner = demo_fd 5, ss_thread_data = demo_fd 6, ss_datagram_adapter = (), ss_tcp = None, ss_tcp_thread = True,
      ss_inbound_shutdown = False, ss_outbound_shutdown = False, ss_fully_acked = False, ss_sys = ([], [])\<rparr>"

lemma closing_read_loop: "\<exists>s'. read_loop closing_sys [] s = Some (([], s'), Inr ())"
proof (cases "fw_eof (ss_owner s)")
  case True
  then show ?thesis by (simp add: read_loop.simps)
next
  case False
  have "fst (snd (k_read closing_sys (fw_fd (ss_owner s)) n k)) = (0, 0)" "fst (k_read closing_sys (fw_fd (ss_owner s)) n k) = k" for n k
    by (simp_all add: closing_sys_def)
  then have "fd_read closing_sys SIZE_MAX (ss_owner s, ss_sys s) = ((register_read ((ss_owner s)\<lparr>fw_eof := True\<rparr>), ss_sys s), Inr [])"
    by (simp add: fd_read_def Let_def SystemCall_def SIZE_MAX_def closing_sys_def)
  then show ?thesis using False by (subst read_loop.simps, simp add: on_owner_def, subst read_loop.simps, simp)
qed

theorem webget_outcome_witness:
  "\<exists>cout s' r. http_session closing_sys id ''h'' ''/'' closing_socket = Some ((cout, s'), r) \<and>
     closing_sent 5 (ss_sys s') = map of_char (concat (http_request ''h'' ''/''))"
proof -
  have io: "io_spec closing_sys (\<lambda>_ _. []) closing_sent"
    by (auto simp: io_spec_def closing_sys_def writev_spec_def read_spec_def quiet_def closing_sent_def Let_def take_min_length)
  have cl: "close_spec closing_sys (\<lambda>_ _. []) closing_sent" by (auto simp: close_spec_def closing_sys_def quiet_def closing_sent_def)
  have takes: "writev_takes closing_sys" by (auto simp: writev_takes_def closing_sys_def Let_def)
  obtain s1 r1 where w: "write_lines closing_sys (http_request ''h'' ''/'') closing_socket = (s1, r1)" by fastforce
  then have r1: "r1 = Inr ()" using write_lines_sent [OF io http_request_short w] takes by auto
  obtain s2 where "read_loop closing_sys [] s1 = Some (([], s2), Inr ())" using closing_read_loop by blast
  then obtain cout s' r where run: "http_session closing_sys id ''h'' ''/'' closing_socket = Some ((cout, s'), r)"
    by (cases "call_on (on_owner (fd_close closing_sys) s2) (\<lambda>s _. wait_until_closed closing_sys id s)") (simp add: http_session_def w r1)
  note session = conjunct2 [OF webget_outcome [OF io cl, where join = id], rule_format, of "''h''" "''/''" closing_socket cout s' r]
  have "closing_sent 5 (ss_sys s') = closing_sent 5 ([], []) @ map of_char (concat (http_request ''h'' ''/''))"
    using session run takes by (auto simp: closing_socket_def demo_fd_def)
  then show ?thesis using run by (auto simp: closing_sent_def)
qed

end
