(* ===== verification/Program_Descriptors.thy ===== *)
theory Program_Descriptors
  imports Descriptors Web_Get
begin

text \<open>
  The programs and the table of descriptors: sockets are made and ended with exactly the descriptors they hold, and every program closes what it
  has opened on every path.
\<close>

subsection \<open>Making and ending a socket\<close>

lemma socket_pair_table:
  assumes t: "fd_table K fds" and run: "socket_pair_helper K type k = (k', r)"
  shows "(\<exists>e. r = Inl e) \<and> fds k' = fds k \<or>
    (\<exists>f0 f1 a b. r = Inr (f0, f1) \<and> ident f0 = (a, False) \<and> ident f1 = (b, False) \<and> a \<noteq> b \<and> a \<notin> fds k \<and> b \<notin> fds k \<and>
       fds k' = insert a (insert b (fds k)))"
proof -
  obtain k1 v e a b where p: "k_socketpair K AF_UNIX type k = (k1, (v, e), a, b)" by (metis prod.exhaust)
  have "case k_socketpair K AF_UNIX type k of (k', (v, e), fd0, fd1) \<Rightarrow>
        v = - 1 \<and> e > 0 \<and> fds k' = fds k \<or>
        v = 0 \<and> 0 \<le> fd0 \<and> 0 \<le> fd1 \<and> fd0 \<noteq> fd1 \<and> fd0 \<notin> fds k \<and> fd1 \<notin> fds k \<and> fds k' = insert fd0 (insert fd1 (fds k))"
    by (rule t [unfolded fd_table_def, THEN conjunct2, THEN conjunct2, THEN conjunct2, THEN conjunct2, THEN conjunct1, rule_format])
  then consider "v = - 1" "e > 0" "fds k1 = fds k"
    | "v = 0" "0 \<le> a" "0 \<le> b" "a \<noteq> b" "a \<notin> fds k" "b \<notin> fds k" "fds k1 = insert a (insert b (fds k))" by (auto simp: p)
  then show ?thesis
  proof cases
    case 1
    then show ?thesis using run by (auto simp: socket_pair_helper_def p SystemCall_def)
  next
    case 2
    then show ?thesis using run by (auto simp: socket_pair_helper_def p SystemCall_def fd_new_def ident_def)
  qed
qed

text \<open>A socket holds three descriptors that were not open in \<open>F\<close>, and nothing else is open.\<close>

definition sponge_held :: "('a, 'k) adapter_ops \<Rightarrow> ('k \<Rightarrow> int set) \<Rightarrow> int set \<Rightarrow> ('a, 'k) sponge \<Rightarrow> bool" where
  "sponge_held A fds F s \<longleftrightarrow>
     (\<exists>a b d. sponge_seen A fds s = (F \<union> {a, b, d}, (a, False), (b, False), (d, False)) \<and> a \<noteq> b \<and> a \<noteq> d \<and> b \<noteq> d \<and> F \<inter> {a, b, d} = {})"

lemma sponge_new_table:
  assumes t: "fd_table K fds" and run: "sponge_new K adapter k = (k', r)"
  shows "(\<exists>e. r = Inl e) \<and> fds k' = fds k \<or>
    (\<exists>s a b. r = Inr s \<and> ss_datagram_adapter s = adapter \<and> ss_sys s = k' \<and> ident (ss_owner s) = (a, False) \<and>
       ident (ss_thread_data s) = (b, False) \<and> a \<noteq> b \<and> a \<notin> fds k \<and> b \<notin> fds k \<and> fds k' = insert a (insert b (fds k)))"
proof -
  obtain k1 r1 where p: "socket_pair_helper K SOCK_STREAM k = (k1, r1)" by fastforce
  from socket_pair_table [OF t p] show ?thesis
  proof (elim disjE exE conjE)
    fix e assume "r1 = Inl e" "fds k1 = fds k"
    then show ?thesis using run p by (auto simp: sponge_new_def)
  next
    fix f0 f1 a b assume r1: "r1 = Inr (f0, f1)" and i: "ident f0 = (a, False)" "ident f1 = (b, False)" "a \<noteq> b" "a \<notin> fds k" "b \<notin> fds k"
      and k1: "fds k1 = insert a (insert b (fds k))"
    obtain g0 k2 r2 where x: "local_stream_socket_of_fd K (f0, k1) = ((g0, k2), r2)" by (metis prod.exhaust)
    obtain g1 k3 r3 where y: "local_stream_socket_of_fd K (f1, k2) = ((g1, k3), r3)" by (metis prod.exhaust)
    obtain h1 k4 r4 where z: "set_blocking K False (g1, k3) = ((h1, k4), r4)" by (metis prod.exhaust)
    note q = seen_eqs(6) [OF t x [unfolded local_stream_socket_of_fd_def]] seen_eqs(6) [OF t y [unfolded local_stream_socket_of_fd_def]]
      seen_eqs(4) [OF t z]
    have d: "fds (snd (fd_destroy K (f, snd (fd_destroy K (g, kk))))) = fds k"
      if "ident f = (a, False) \<and> ident g = (b, False) \<or> ident f = (b, False) \<and> ident g = (a, False)" "fds kk = fds k1" for f g kk
      using that i k1 by (auto simp: fd_destroy_table [OF t] ident_def)
    show ?thesis
    proof (cases r2)
      case (Inl e)
      then show ?thesis using run p r1 x q i d [of f1 g0 k2] by (auto simp: sponge_new_def)
    next
      case 2: (Inr u2)
      show ?thesis
      proof (cases r3)
        case (Inl e)
        then show ?thesis using run p r1 x y 2 q i d [of g0 g1 k3] by (auto simp: sponge_new_def)
      next
        case 3: (Inr u3)
        show ?thesis
        proof (cases r4)
          case (Inl e)
          then show ?thesis using run p r1 x y z 2 3 q i d [of g0 h1 k4] by (auto simp: sponge_new_def)
        next
          case (Inr u4)
          then show ?thesis using run p r1 x y z 2 3 q i k1 by (auto simp: sponge_new_def)
        qed
      qed
    qed
  qed
qed

lemma socket_on_table:
  assumes t: "fd_table K fds" and f: "ident f = (d, False)" "d \<notin> F" "fds k = insert d F"
    and a: "\<And>x. adapter = Inr x \<Longrightarrow> ident (at_fd A x) = (d, False)" and run: "socket_on K f k adapter = (k', r)"
  shows "(\<exists>e. r = Inl e) \<and> fds k' = F \<or> (\<exists>s. r = Inr s \<and> sponge_held A fds F s)"
proof (cases adapter)
  case (Inl e)
  then show ?thesis using run f by (auto simp: socket_on_def fd_destroy_table [OF t] ident_def)
next
  case (Inr x)
  obtain k1 r1 where n: "sponge_new K x k = (k1, r1)" by fastforce
  from sponge_new_table [OF t n] show ?thesis
  proof (elim disjE exE conjE)
    fix e assume "r1 = Inl e" "fds k1 = fds k"
    then show ?thesis using run f Inr n by (auto simp: socket_on_def fd_destroy_table [OF t] ident_def)
  next
    fix s a b assume "r1 = Inr s" "ss_datagram_adapter s = x" "ss_sys s = k1" "ident (ss_owner s) = (a, False)"
       "ident (ss_thread_data s) = (b, False)" "a \<noteq> b" "a \<notin> fds k" "b \<notin> fds k" "fds k1 = insert a (insert b (fds k))"
    moreover from this have "sponge_seen A fds s = (F \<union> {a, b, d}, (a, False), (b, False), (d, False))"
      using f a [OF Inr] by (auto simp: sponge_seen_def)
    ultimately show ?thesis using run f Inr n by (auto simp: socket_on_def sponge_held_def)
  qed
qed

definition keeps_table :: "('k \<Rightarrow> int set) \<Rightarrow> ('k \<Rightarrow> 'k) \<Rightarrow> bool" where
  "keeps_table fds m \<longleftrightarrow> (\<forall>k. fds (m k) = fds k)"

lemma sponge_end_table:
  assumes t: "fd_table K fds" and j: "keeps_table fds join" "keeps_table fds store_abort"
    and s: "fds (ss_sys s) = G" "ident (ss_owner s) = (a, ca)" "ident (ss_thread_data s) = (b, False)"
      "ident (at_fd A (ss_datagram_adapter s)) = (d, False)"
  shows "fds (sponge_end K A store_abort join s) = G - (if ca then {b, d} else {a, b, d})"
proof -
  let ?s = "sponge_destroy store_abort join s"
  have "fds (ss_sys ?s) = G" "ss_owner ?s = ss_owner s" "ss_thread_data ?s = ss_thread_data s" "ss_datagram_adapter ?s = ss_datagram_adapter s"
    using j s(1) by (simp_all add: sponge_destroy_def join_thread_def keeps_table_def)
  then show ?thesis using s(2-)
    by (auto simp: sponge_end_def Let_def case_prod_beta fd_destroy_table [OF t] ident_def)
qed

subsection \<open>Programs\<close>

definition released :: "('k \<Rightarrow> int set) \<Rightarrow> int set \<Rightarrow> 'k \<Rightarrow> bool" where
  "released fds F k \<longleftrightarrow> fds k = F \<or> fds k = F - {0, 1}"

lemma wait_until_closed_seen:
  assumes t: "fd_table K fds" and j: "keeps_table fds join"
  shows "sponge_seen A fds (fst (wait_until_closed K join s)) = sponge_seen A fds s"
proof -
  have o: "sponge_seen A fds (fst (on_owner (socket_shutdown K SHUT_RDWR) s)) = sponge_seen A fds s"
    by (rule on_owner_seen) (rule socket_shutdown_keeps [OF t])
  have "sponge_seen A fds (join_thread join s) = sponge_seen A fds s" for s
    using j by (simp add: join_thread_def sponge_seen_def keeps_table_def)
  then show ?thesis using o by (simp add: wait_until_closed_def fst_call_on split: sum.split)
qed

lemma copy_session_seen:
  assumes w: "sys_table K fds" and j: "keeps_table fds join" and run: "copy_session K join s = Some (s', r)"
    and s: "sponge_seen A fds s = (G, x, y, z)"
  shows "sponge_seen A fds s' = (G - {0, 1}, x, y, z)"
proof -
  obtain f k r1 where c: "bidirectional_stream_copy K (ss_owner s, ss_sys s) = Some ((f, k), r1)"
    using run by (auto simp: copy_session_def split: option.splits)
  note q = stream_copy_table [OF w c]
  have s1: "sponge_seen A fds (s\<lparr>ss_owner := f, ss_sys := k\<rparr>) = (G - {0, 1}, x, y, z)" using s q by (simp add: sponge_seen_def)
  have "s' = s\<lparr>ss_owner := f, ss_sys := k\<rparr> \<or> s' = fst (wait_until_closed K join (s\<lparr>ss_owner := f, ss_sys := k\<rparr>))"
    using run c by (cases r1) (auto simp: copy_session_def Let_def)
  then show ?thesis using s1 wait_until_closed_seen [OF sys_tableD(1) [OF w] j] by metis
qed

lemma sponge_end_held:
  assumes t: "fd_table K fds" and j: "keeps_table fds join" "keeps_table fds store_abort"
    and s: "sponge_seen A fds s = (G, (a, False), (b, False), (d, False))"
  shows "fds (sponge_end K A store_abort join s) = G - {a, b, d}"
  using sponge_end_table [OF t j, of s G a False b A d] s by (simp add: sponge_seen_def)

lemma program_session_released:
  assumes w: "sys_table K fds" and ad: "adapter_keeps A fds" and j: "keeps_table fds join" "keeps_table fds store_abort"
    and h: "sponge_held A fds F s" and run: "program_session K A gni store_abort join listen c_fsm c_filt s = Some (k', r)"
  shows "released fds F k'"
proof -
  obtain a b d where s: "sponge_seen A fds s = (F \<union> {a, b, d}, (a, False), (b, False), (d, False))" "F \<inter> {a, b, d} = {}"
    using h by (auto simp: sponge_held_def)
  obtain rules1 s1 r1 where c: "(if listen then listen_and_accept K A gni c_fsm c_filt ([], s) else sponge_connect K A gni c_fsm c_filt ([], s)) =
      Some ((rules1, s1), r1)" using run by (auto simp: program_session_def split: option.splits)
  have "sponge_frame K A fds (sponge_seen A fds s) s" using w ad by (simp add: sponge_frame_def)
  then have "sponge_frame K A fds (sponge_seen A fds s) s1"
    using c by (auto split: if_splits dest: sponge_connect_frame listen_and_accept_frame)
  then have s1: "sponge_seen A fds s1 = (F \<union> {a, b, d}, (a, False), (b, False), (d, False))" using s(1) by (simp add: sponge_frame_def)
  note e = sponge_end_held [OF sys_tableD(1) [OF w] j]
  show ?thesis
  proof (cases r1)
    case (Inl x)
    then have "k' = sponge_end K A store_abort join s1" using run c by (simp add: program_session_def)
    then show ?thesis using e [OF s1] s(2) by (auto simp: released_def)
  next
    case (Inr u)
    then obtain s2 r2 where cs: "copy_session K join s1 = Some (s2, r2)" and k': "k' = sponge_end K A store_abort join s2"
      using run c by (auto simp: program_session_def split: option.splits)
    from e [OF copy_session_seen [OF w j(1) cs s1]] k' have "fds k' = F \<union> {a, b, d} - {0, 1} - {a, b, d}" by simp
    moreover have "F \<union> {a, b, d} - {0, 1} - {a, b, d} = F - {0, 1}" using s(2) by blast
    ultimately show ?thesis by (simp add: released_def)
  qed
qed

lemma with_socket_released:
  assumes "with_socket (k1, res) f = Some (k', r)" "(\<exists>e. res = Inl e) \<and> fds k1 = F \<or> (\<exists>s. res = Inr s \<and> sponge_held A fds F s)"
    "\<And>s. sponge_held A fds F s \<Longrightarrow> f s = Some (k', r) \<Longrightarrow> released fds F k'"
  shows "released fds F k'"
proof (cases res)
  case (Inl e)
  then show ?thesis using assms(1,2) by (simp add: with_socket_def released_def)
next
  case (Inr s)
  then show ?thesis using assms by (simp add: with_socket_def)
qed

lemma draw_port_table: "sys_table K fds \<Longrightarrow> draw_port K gai k = (k', rnd) \<Longrightarrow> fds k' = fds k"
  using sys_tableD(4) [of K fds k] by (auto simp: draw_port_def split: sum.splits)

lemma adapter_new_fd:
  "map_sum id (\<lambda>a. (a, g)) (tun_adapter_new gai f) = Inr x \<Longrightarrow> ident (at_fd (lossy_ops rand (tun_ops K gai gni)) x) = ident f"
  "map_sum id (\<lambda>a. (a, g)) (udp_adapter_new gai f) = Inr x \<Longrightarrow> ident (at_fd (lossy_ops rand (udp_ops K gni)) x) = ident f"
  by (cases "fd_adapter_config_new gai"; auto simp: tun_adapter_new_def udp_adapter_new_def lossy_ops_def tun_ops_def udp_ops_def base_ops_def)+

lemma tap_adapter_new_table:
  assumes t: "fd_table K fds" and run: "tap_adapter_new K gai e ip hop (f, k) = ((f', k'), r)"
  shows "fds k' = fds k" "ident f' = ident f" "r = Inr x \<Longrightarrow> ident (at_fd (tap_ops K gai2 gni) x) = ident f"
proof -
  obtain f1 k1 r1 where w: "fd_write K [ethernet_frame_serialize ethernet_frame_new] True (f, k) = ((f1, k1), r1)" by (metis prod.exhaust)
  note q = seen_eqs(2) [OF t w]
  have "fds k' = fds k \<and> ident f' = ident f \<and> (\<forall>x. r = Inr x \<longrightarrow> fst x = f')"
    using run w q by (auto simp: tap_adapter_new_def call_def call_on_def split: sum.splits)
  then show "fds k' = fds k" "ident f' = ident f" "r = Inr x \<Longrightarrow> ident (at_fd (tap_ops K gai2 gni) x) = ident f"
    by (auto simp: tap_ops_def)
qed

text \<open>A constructed socket holds its descriptors; a constructor that throws leaves none open.\<close>

lemma made_then_socket:
  assumes t: "fd_table K fds" and m: "made fds k (k1, Inr f)" and g: "fds kk = fds k1" "ident g = ident f"
    and a: "\<And>x. adapter = Inr x \<Longrightarrow> ident (at_fd A x) = ident g" and run: "socket_on K g kk adapter = (k2, r)"
  shows "(\<exists>e. r = Inl e) \<and> fds k2 = fds k \<or> (\<exists>s. r = Inr s \<and> sponge_held A fds (fds k) s)"
proof -
  have i: "ident g = (fw_fd f, False)" "fw_fd f \<notin> fds k" "fds kk = insert (fw_fd f) (fds k)" using m g by (simp_all add: made_def ident_def)
  show ?thesis by (rule socket_on_table [OF t i _ run]) (simp add: a i(1))
qed

lemma ipv4_socket_table:
  assumes t: "fd_table K fds" and run: "ipv4_socket K g gai dev k = (k', r)"
  shows "(\<exists>e. r = Inl e) \<and> fds k' = fds k \<or> (\<exists>s. r = Inr s \<and> sponge_held (lossy_ops rand (tun_ops K gai gni)) fds (fds k) s)"
proof -
  obtain k1 r1 where n: "tun_tap_new K (map of_char (case dev of None \<Rightarrow> TUN_DFLT | Some d \<Rightarrow> d)) True k = (k1, r1)" by fastforce
  have m: "made fds k (k1, r1)" using tun_tap_new_made [OF t] n by metis
  show ?thesis
  proof (cases r1)
    case (Inl e)
    then show ?thesis using run n m by (auto simp: ipv4_socket_def made_def)
  next
    case (Inr f)
    then have "socket_on K f k1 (map_sum id (\<lambda>a. (a, g)) (tun_adapter_new gai f)) = (k', r)" using run n by (simp add: ipv4_socket_def)
    then show ?thesis by (rule made_then_socket [OF t m [unfolded Inr] refl refl adapter_new_fd(1), rotated])
  qed
qed

lemma udp_socket_table:
  assumes t: "fd_table K fds" and run: "udp_socket K g gai listen c_filt k = (k', r)"
  shows "(\<exists>e. r = Inl e) \<and> fds k' = fds k \<or> (\<exists>s. r = Inr s \<and> sponge_held (lossy_ops rand (udp_ops K gni)) fds (fds k) s)"
proof -
  obtain k1 r1 where n: "udp_socket_new K k = (k1, r1)" by fastforce
  have m: "made fds k (k1, r1)" using socket_new_made [OF t] n unfolding udp_socket_new_def by metis
  show ?thesis
  proof (cases r1)
    case (Inl e)
    then show ?thesis using run n m by (auto simp: udp_socket_def made_def)
  next
    case (Inr f)
    obtain f2 k2 r2 where b: "(if listen then socket_bind K (fa_source c_filt) (f, k1) else ((f, k1), Inr ())) = ((f2, k2), r2)" by (metis prod.exhaust)
    have q: "fds k2 = fds k1" "ident f2 = ident f" using b seen_eqs(7) [OF t, of "fa_source c_filt" f k1 f2 k2 r2] by (auto split: if_splits)
    show ?thesis
    proof (cases r2)
      case (Inl e)
      then show ?thesis using run n Inr b q m by (auto simp: udp_socket_def made_def fd_destroy_table [OF t] ident_def)
    next
      case Inr2: (Inr u)
      have "socket_on K f2 k2 (map_sum id (\<lambda>a. (a, g)) (udp_adapter_new gai f2)) = (k', r)" using run n b Inr Inr2 by (simp add: udp_socket_def)
      then show ?thesis by (rule made_then_socket [OF t m [unfolded Inr] q adapter_new_fd(2), rotated])
    qed
  qed
qed

lemma ethernet_socket_table:
  assumes t: "fd_table K fds" and run: "ethernet_socket K gai mac c_filt hop name k = (k', r)"
  shows "(\<exists>e. r = Inl e) \<and> fds k' = fds k \<or> (\<exists>s. r = Inr s \<and> sponge_held (tap_ops K gai gni) fds (fds k) s)"
proof -
  obtain k1 r1 where n: "tun_tap_new K (map of_char name) False k = (k1, r1)" by fastforce
  have m: "made fds k (k1, r1)" using tun_tap_new_made [OF t] n by metis
  show ?thesis
  proof (cases r1)
    case (Inl e)
    then show ?thesis using run n m by (auto simp: ethernet_socket_def made_def)
  next
    case (Inr f)
    obtain f2 k2 ad where b: "tap_adapter_new K gai mac (fa_source c_filt) hop (f, k1) = ((f2, k2), ad)" by (metis prod.exhaust)
    note q = tap_adapter_new_table [OF t b]
    have "socket_on K f2 k2 ad = (k', r)" using run n b Inr by (simp add: ethernet_socket_def)
    then show ?thesis by (rule made_then_socket [OF t m [unfolded Inr] q(1,2), rotated]) (simp add: q)
  qed
qed

lemma ipv4_main_released:
  assumes w: "sys_table K fds" and j: "keeps_table fds join" "keeps_table fds store_abort"
    and run: "ipv4_main K rand g gai gni store_abort join argv k = Some (k', r)"
  shows "released fds (fds k) k'"
proof -
  note t = sys_tableD(1) [OF w]
  note session = program_session_released [OF w lossy_ops_keeps [OF tun_ops_keeps [OF t]] j]
  obtain k1 rnd where d: "draw_port K gai k = (k1, rnd)" by fastforce
  have k1: "fds k1 = fds k" by (rule draw_port_table [OF w d])
  show ?thesis
  proof (cases "length argv < 3 \<or> (\<forall>x. ipv4_get_config gai gni rnd argv \<noteq> Done x)")
    case True
    then have "k' = k \<or> k' = k1" using run d
      by (cases "ipv4_get_config gai gni rnd argv") (auto simp: ipv4_main_def with_config_def split: if_splits)
    then show ?thesis using k1 by (auto simp: released_def)
  next
    case False
    then obtain c_fsm c_filt listen dev where c: "ipv4_get_config gai gni rnd argv = Done (c_fsm, c_filt, listen, dev)" by auto
    obtain k2 res where s: "ipv4_socket K g gai dev k1 = (k2, res)" by fastforce
    have "with_socket (k2, res) (program_session K (lossy_ops rand (tun_ops K gai gni)) gni store_abort join listen c_fsm c_filt) = Some (k', r)"
      using run False d c s by (simp add: ipv4_main_def with_config_def)
    then show ?thesis unfolding k1 [symmetric] by (rule with_socket_released [OF _ ipv4_socket_table [OF t s]]) (rule session)
  qed
qed

lemma udp_main_released:
  assumes w: "sys_table K fds" and j: "keeps_table fds join" "keeps_table fds store_abort"
    and run: "udp_main K rand g gai gni store_abort join argv k = Some (k', r)"
  shows "released fds (fds k) k'"
proof -
  note t = sys_tableD(1) [OF w]
  note session = program_session_released [OF w lossy_ops_keeps [OF udp_ops_keeps [OF t]] j]
  show ?thesis
  proof (cases "length argv < 3 \<or> (\<forall>x. udp_get_config gai argv \<noteq> Done x)")
    case True
    then have "k' = k" using run by (cases "udp_get_config gai argv") (auto simp: udp_main_def with_config_def split: if_splits)
    then show ?thesis by (simp add: released_def)
  next
    case False
    then obtain c_fsm c_filt listen where c: "udp_get_config gai argv = Done (c_fsm, c_filt, listen)" by auto
    obtain k2 res where s: "udp_socket K g gai listen c_filt k = (k2, res)" by fastforce
    have "with_socket (k2, res) (program_session K (lossy_ops rand (udp_ops K gni)) gni store_abort join listen c_fsm c_filt) = Some (k', r)"
      using run False c s by (simp add: udp_main_def with_config_def)
    then show ?thesis by (rule with_socket_released [OF _ udp_socket_table [OF t s]]) (rule session)
  qed
qed

lemma random_address_table:
  assumes w: "sys_table K fds" and run: "random_private_ethernet_address K k = (k', mac)"
  shows "fds k' = fds k"
proof -
  have b: "fds (fst (random_byte K k)) = fds k" for k using sys_tableD(4) [OF w, of k] by (simp add: random_byte_def case_prod_beta)
  have "k' = fst (random_private_ethernet_address K k)" using run by simp
  also have "fds \<dots> = fds k" unfolding random_private_ethernet_address_def Let_def case_prod_beta fst_conv b ..
  finally show ?thesis .
qed

lemma ethernet_main_released:
  assumes w: "sys_table K fds" and j: "keeps_table fds join" "keeps_table fds store_abort"
    and run: "ethernet_main K gai gni store_abort join argv k = Some (k', r)"
  shows "released fds (fds k) k'"
proof -
  note t = sys_tableD(1) [OF w]
  note session = program_session_released [OF w tap_ops_keeps [OF t] j]
  obtain k0 mac where m: "random_private_ethernet_address K k = (k0, mac)" by fastforce
  obtain k1 rnd where d: "draw_port K gai k0 = (k1, rnd)" by fastforce
  have k1: "fds k1 = fds k" using draw_port_table [OF w d] random_address_table [OF w m] by simp
  show ?thesis
  proof (cases "length argv < 3 \<or> (\<forall>x. ethernet_get_config gai rnd argv \<noteq> Done x)")
    case True
    then have "k' = k \<or> k' = k1" using run m d
      by (cases "ethernet_get_config gai rnd argv") (auto simp: ethernet_main_def with_config_def split: if_splits)
    then show ?thesis using k1 by (auto simp: released_def)
  next
    case False
    then obtain c_fsm c_filt hop name where c: "ethernet_get_config gai rnd argv = Done (c_fsm, c_filt, hop, name)" by auto
    obtain k2 res where s: "ethernet_socket K gai mac c_filt hop name k1 = (k2, res)" by fastforce
    have "with_socket (k2, res) (program_session K (tap_ops K gai gni) gni store_abort join False c_fsm c_filt) = Some (k', r)"
      using run False m d c s by (simp add: ethernet_main_def with_config_def)
    then show ?thesis unfolding k1 [symmetric] by (rule with_socket_released [OF _ ethernet_socket_table [OF t s]]) (rule session)
  qed
qed

lemma native_client_made:
  assumes t: "fd_table K fds"
  shows "made fds k (native_client K gai host service k)"
proof -
  obtain k1 r1 where n: "tcp_socket_new K k = (k1, r1)" by fastforce
  have m: "made fds k (k1, r1)" using socket_new_made [OF t] n unfolding tcp_socket_new_def by metis
  show ?thesis
  proof (cases r1)
    case (Inl e)
    then show ?thesis using n m by (simp add: native_client_def made_def)
  next
    case (Inr f)
    have x: "ident f = (fw_fd f, False)" "fw_fd f \<notin> fds k" "fds k1 = insert (fw_fd f) (fds k)" using m Inr by (simp_all add: made_def ident_def)
    obtain f2 k2 r2 where c: "call (f, k1) (address_of_host gai host service) (\<lambda>a. socket_connect K a (f, k1)) = ((f2, k2), r2)" by (metis prod.exhaust)
    have "fds k2 = fds k1 \<and> ident f2 = ident f" using c seen_eqs(8) [OF t] by (cases "address_of_host gai host service") auto
    then show ?thesis using n Inr c x by (cases r2) (auto simp: native_client_def made_def fd_destroy_table [OF t] ident_def)
  qed
qed

text \<open>An operation on a descriptor that opens another one.\<close>

definition accepts :: "('k \<Rightarrow> int set) \<Rightarrow> fd_wrapper \<times> 'k \<Rightarrow> (fd_wrapper \<times> 'k) \<times> (exn + fd_wrapper) \<Rightarrow> bool" where
  "accepts fds y z \<longleftrightarrow> ident (fst (fst z)) = ident (fst y) \<and> made fds (snd y) (snd (fst z), snd z)"

lemma accepts_call_on:
  assumes "seen fds (fst m) = seen fds y" "\<And>y' u. seen fds y' = seen fds y \<Longrightarrow> accepts fds y' (h y' u)"
  shows "accepts fds y (call_on m h)"
proof (cases m)
  case (Pair y' r)
  then show ?thesis using assms(1) assms(2) [of y'] by (cases r) (auto simp: accepts_def seen_def made_def split: sum.splits)
qed

lemma accepts_call: "(\<And>a. m = Inr a \<Longrightarrow> accepts fds y (h a)) \<Longrightarrow> accepts fds y (call y m h)"
  by (cases m) (simp_all add: accepts_def made_def)

lemma tcp_accept_accepts: "fd_table K fds \<Longrightarrow> accepts fds y (tcp_accept K y)"
  using tcp_accept_made [where K = K and fds = fds and f = "fst y" and k = "snd y"] by (simp add: accepts_def)

lemma native_server_made:
  assumes t: "fd_table K fds"
  shows "made fds k (native_server K gai host service k)"
proof -
  obtain k1 r1 where n: "tcp_socket_new K k = (k1, r1)" by fastforce
  have m: "made fds k (k1, r1)" using socket_new_made [OF t] n unfolding tcp_socket_new_def by metis
  show ?thesis
  proof (cases r1)
    case (Inl e)
    then show ?thesis using n m by (simp add: native_server_def made_def)
  next
    case (Inr f)
    have x: "ident f = (fw_fd f, False)" "fw_fd f \<notin> fds k" "fds k1 = insert (fw_fd f) (fds k)" using m Inr by (simp_all add: made_def ident_def)
    define z where "z = call_on (set_reuseaddr K (f, k1)) (\<lambda>x _. call x (address_of_host gai host service) (\<lambda>address.
        call_on (socket_bind K address x) (\<lambda>x _. call_on (tcp_listen K 16 x) (\<lambda>x _. tcp_accept K x))))"
    have "accepts fds (f, k1) z"
      unfolding z_def by (intro accepts_call_on accepts_call tcp_accept_accepts keeps t)
    moreover obtain f2 k2 r2 where z: "z = ((f2, k2), r2)" by (metis prod.exhaust)
    ultimately have q: "ident f2 = ident f" "made fds k1 (k2, r2)" by (simp_all add: accepts_def)
    have "native_server K gai host service k = (snd (fd_destroy K (f2, k2)), r2)" using n Inr z z_def by (simp add: native_server_def)
    then show ?thesis using q x by (cases r2) (auto simp: made_def fd_destroy_table [OF t] ident_def)
  qed
qed

lemma native_main_released:
  assumes w: "sys_table K fds" and run: "native_main K gai argv k = Some (k', r)"
  shows "released fds (fds k) k'"
proof -
  note t = sys_tableD(1) [OF w]
  let ?new = "if strncmp_same ''-l'' (argv ! 1) 3 then native_server K gai (argv ! 2) (argv ! 3) k else native_client K gai (argv ! 1) (argv ! 2) k"
  obtain k1 r1 where n: "?new = (k1, r1)" by fastforce
  have m: "made fds k (k1, r1)" using native_server_made [OF t] native_client_made [OF t] n by metis
  show ?thesis
  proof (cases "length argv < 3 \<or> strncmp_same ''-l'' (argv ! 1) 3 \<and> length argv < 4")
    case True
    then have "k' = k" using run by (simp add: native_main_def)
    then show ?thesis by (simp add: released_def)
  next
    case False
    show ?thesis
    proof (cases r1)
      case (Inl e)
      then have "k' = k1" using run [unfolded native_main_def if_not_P [OF False] n] by simp
      then show ?thesis using m Inl by (simp add: made_def released_def)
    next
      case (Inr f)
      then obtain f2 k2 r2 where c: "bidirectional_stream_copy K (f, k1) = Some ((f2, k2), r2)" and k': "k' = snd (fd_destroy K (f2, k2))"
        using run [unfolded native_main_def if_not_P [OF False] n] by (auto split: option.splits)
      note q = stream_copy_table [OF w c]
      have x: "\<not> fw_closed f" "fw_fd f \<notin> fds k" "fds k1 = insert (fw_fd f) (fds k)" using m Inr by (simp_all add: made_def)
      have "fds k' = insert (fw_fd f) (fds k) - {0, 1} - {fw_fd f}" using q x by (simp add: k' fd_destroy_table [OF t] ident_def)
      moreover have "insert (fw_fd f) (fds k) - {0, 1} - {fw_fd f} = fds k - {0, 1}" using x by blast
      ultimately show ?thesis by (simp add: released_def)
    qed
  qed
qed

lemma tun_loop_table:
  fixes K :: "('k, 'z) net_kernel_scheme"
  assumes t: "fd_table K fds" and run: "tun_loop K cout x = Some ((cout', y), e)"
  shows "seen fds y = seen fds x"
proof -
  have "fd_table K fds \<longrightarrow> seen fds (snd (fst ((cout', y), e))) = seen fds x"
  proof (rule tun_loop.raw_induct [where P = "\<lambda>K cout x y. fd_table K fds \<longrightarrow> seen fds (snd (fst y)) = seen fds x"
        and xa = "((K, cout), x)" and y = "((cout', y), e)", unfolded prod.case])
    fix loop :: "('k, 'z) net_kernel_scheme \<Rightarrow> string \<Rightarrow> fd_wrapper \<times> 'k \<Rightarrow> ((string \<times> fd_wrapper \<times> 'k) \<times> exn) option" and K cout x y
    assume IH: "\<And>K cout x y. loop K cout x = Some y \<Longrightarrow> fd_table K fds \<longrightarrow> seen fds (snd (fst y)) = seen fds x"
      and eq: "(case fd_read K SIZE_MAX x of (x, Inl e) \<Rightarrow> Some ((cout, x), e) | (x, Inr buffer) \<Rightarrow> loop K (cout @ tun_report buffer) x) = Some y"
    show "fd_table K fds \<longrightarrow> seen fds (snd (fst y)) = seen fds x"
    proof
      assume t: "fd_table K fds"
      obtain x1 r1 where rd: "fd_read K SIZE_MAX x = (x1, r1)" by fastforce
      have "seen fds x1 = seen fds x" using fd_read_keeps [OF t, of SIZE_MAX x] rd by simp
      then show "seen fds (snd (fst y)) = seen fds x" using eq rd IH [of K _ x1 y] t by (cases r1) auto
    qed
  qed (use run in simp)
  then show ?thesis using t by simp
qed

lemma tun_main_released:
  assumes t: "fd_table K fds" and run: "tun_main K k = Some ((cout, k'), e)"
  shows "fds k' = fds k"
proof -
  obtain k1 r1 where n: "tun_tap_new K (map of_char ''tun144'') True k = (k1, r1)" by fastforce
  have m: "made fds k (k1, r1)" using tun_tap_new_made [OF t] n by metis
  show ?thesis
  proof (cases r1)
    case (Inl e)
    then show ?thesis using run n m by (simp add: tun_main_def made_def)
  next
    case (Inr f)
    then obtain f2 k2 where l: "tun_loop K [] (f, k1) = Some ((cout, f2, k2), e)" and k': "k' = snd (fd_destroy K (f2, k2))"
      using run n by (auto simp: tun_main_def split: option.splits)
    then show ?thesis using tun_loop_table [OF t l] m Inr by (auto simp: seen_def made_def ident_def fd_destroy_table [OF t])
  qed
qed

lemma full_stack_new_table:
  assumes w: "sys_table K fds" and run: "full_stack_new K gai k = (k', r)"
  shows "(\<exists>e. r = Inl e) \<and> fds k' = fds k \<or> (\<exists>s. r = Inr s \<and> sponge_held (tap_ops K gai gni) fds (fds k) s)"
proof -
  note t = sys_tableD(1) [OF w]
  obtain k1 r1 where n: "tun_tap_new K (map of_char ''tap10'') False k = (k1, r1)" by fastforce
  have m: "made fds k (k1, r1)" using tun_tap_new_made [OF t] n by metis
  show ?thesis
  proof (cases r1)
    case (Inl e)
    then show ?thesis using run n m by (auto simp: full_stack_new_def made_def)
  next
    case (Inr f)
    obtain k2 mac where rnd: "random_private_ethernet_address K k1 = (k2, mac)" by fastforce
    have k2: "fds k2 = fds k1" by (rule random_address_table [OF w rnd])
    have gone: "fds (snd (fd_destroy K (f2, kk))) = fds k" if "ident f2 = ident f" "fds kk = fds k1" for f2 kk
      using that m Inr by (auto simp: made_def ident_def fd_destroy_table [OF t])
    show ?thesis
    proof (cases "(address_of_host gai LOCAL_TAP_IP_ADDRESS ''0'', address_of_host gai LOCAL_TAP_NEXT_HOP_ADDRESS ''0'')")
      case (Pair x y)
      then consider e where "x = Inl e" | a e where "x = Inr a" "y = Inl e" | a b where "x = Inr a" "y = Inr b" by (cases x; cases y) auto
      then show ?thesis
      proof cases
        case 1
        then show ?thesis using run n Inr rnd Pair gone [OF refl k2] by (auto simp: full_stack_new_def)
      next
        case 2
        then show ?thesis using run n Inr rnd Pair gone [OF refl k2] by (auto simp: full_stack_new_def)
      next
        case 3
        obtain f3 k3 ad where b: "tap_adapter_new K gai mac a b (f, k2) = ((f3, k3), ad)" by (metis prod.exhaust)
        note q = tap_adapter_new_table [OF t b]
        have "socket_on K f3 k3 ad = (k', r)" using run n Inr rnd Pair 3 b
          by (cases ad) (simp_all add: full_stack_new_def socket_on_def split: prod.splits sum.splits)
        then show ?thesis by (rule made_then_socket [OF t m [unfolded Inr] _ q(2), rotated 2]) (simp_all add: q k2)
      qed
    qed
  qed
qed

lemma local_connect_frame:
  assumes f: "sponge_frame K A fds v s" and run: "local_connect K A gai gni ip address ([], s) = Some ((rules', s'), r)"
  shows "sponge_frame K A fds v s'"
proof -
  obtain k rnd where d: "k_random_device K (ss_sys s) = (k, rnd)" by fastforce
  have "sponge_frame K A fds v (s\<lparr>ss_sys := k\<rparr>)"
    using f sys_tableD(4) [of K fds "ss_sys s"] d by (simp add: sponge_frame_def sponge_seen_def)
  then show ?thesis using run f d by (auto simp: local_connect_def Let_def split: sum.splits dest: sponge_connect_frame)
qed

lemma write_lines_seen:
  assumes t: "fd_table K fds"
  shows "sponge_seen A fds (fst (write_lines K ls s)) = sponge_seen A fds s"
proof (induction ls arbitrary: s)
  case (Cons l ls)
  have "sponge_seen A fds (fst (on_owner (fd_write_string K (map of_char l) True) s)) = sponge_seen A fds s"
    by (rule on_owner_seen) (rule fd_write_string_keeps [OF t])
  then show ?case using Cons by (simp add: fst_call_on split: sum.split)
qed simp

lemma read_loop_seen:
  fixes K :: "('k, 'z) net_kernel_scheme" and s :: "('a, 'k) sponge"
  assumes t: "fd_table K fds" and run: "read_loop K cout s = Some ((cout', s'), r)"
  shows "sponge_seen A fds s' = sponge_seen A fds s"
proof -
  have "fd_table K fds \<longrightarrow> sponge_seen A fds (snd (fst ((cout', s'), r))) = sponge_seen A fds s"
  proof (rule read_loop.raw_induct [where P = "\<lambda>K cout s y. fd_table K fds \<longrightarrow> sponge_seen A fds (snd (fst y)) = sponge_seen A fds s"
        and K = K and cout = cout and s = s and y = "((cout', s'), r)"])
    fix loop :: "('k, 'z) net_kernel_scheme \<Rightarrow> bytes \<Rightarrow> ('a, 'k) sponge \<Rightarrow> ((bytes \<times> ('a, 'k) sponge) \<times> (exn + unit)) option" and K cout s y
    assume IH: "\<And>K cout s y. loop K cout s = Some y \<Longrightarrow> fd_table K fds \<longrightarrow> sponge_seen A fds (snd (fst y)) = sponge_seen A fds s"
      and eq: "(if fw_eof (ss_owner s) then Some ((cout, s), Inr ())
        else (case on_owner (fd_read K SIZE_MAX) s of (s, Inl e) \<Rightarrow> Some ((cout, s), Inl e) | (s, Inr rsp) \<Rightarrow> loop K (cout @ rsp) s)) = Some y"
    show "fd_table K fds \<longrightarrow> sponge_seen A fds (snd (fst y)) = sponge_seen A fds s"
    proof
      assume t: "fd_table K fds"
      obtain s1 r1 where rd: "on_owner (fd_read K SIZE_MAX) s = (s1, r1)" by fastforce
      have "sponge_seen A fds s1 = sponge_seen A fds s"
        using on_owner_seen [where m = "fd_read K SIZE_MAX", OF fd_read_keeps [OF t], of A s] rd by simp
      then show "sponge_seen A fds (snd (fst y)) = sponge_seen A fds s" using eq rd IH [of K _ s1 y] t by (cases r1) (auto split: if_splits)
    qed
  qed (use run in simp)
  then show ?thesis using t by simp
qed

text \<open>The owner's end of the pair may have been closed.\<close>

lemma http_session_table:
  assumes t: "fd_table K fds" and j: "keeps_table fds join" and run: "http_session K join host path s = Some ((cout, s'), r)"
    and s: "sponge_seen A fds s = (G, (a, False), y, z)" "a \<in> G"
  shows "\<exists>c. sponge_seen A fds s' = (if c then G - {a} else G, (a, c), y, z)"
proof -
  obtain s1 r1 where wl: "write_lines K (http_request host path) s = (s1, r1)" by fastforce
  have s1: "sponge_seen A fds s1 = (G, (a, False), y, z)" using write_lines_seen [OF t, of A "http_request host path" s] wl s(1) by simp
  show ?thesis
  proof (cases "r1 = Inr () \<and> (\<exists>c2 s2. read_loop K [] s1 = Some ((c2, s2), Inr ()))")
    case True
    then obtain c2 s2 where rl: "r1 = Inr ()" "read_loop K [] s1 = Some ((c2, s2), Inr ())" by blast
    have s2: "sponge_seen A fds s2 = (G, (a, False), y, z)" using read_loop_seen [OF t rl(2)] s1 by simp
    obtain f k r3 where cl: "fd_close K (ss_owner s2, ss_sys s2) = ((f, k), r3)" by (metis prod.exhaust)
    note q = fd_close_table [OF t cl]
    let ?s3 = "s2\<lparr>ss_owner := f, ss_sys := k\<rparr>"
    have "sponge_seen A fds ?s3 = (G - {a}, (a, True), y, z)" using s2 q s(2) by (auto simp: sponge_seen_def ident_def)
    moreover have "s' = ?s3 \<or> s' = fst (wait_until_closed K join ?s3)"
      using run wl rl cl by (cases r3) (auto simp: http_session_def on_owner_def split: prod.splits)
    ultimately have "sponge_seen A fds s' = (G - {a}, (a, True), y, z)" using wait_until_closed_seen [OF t j] by metis
    then show ?thesis by (intro exI [of _ True]) simp
  next
    case False
    then have "s' = s1 \<or> (\<exists>c r. read_loop K [] s1 = Some ((c, s'), r))"
      using run wl by (auto simp: http_session_def split: option.splits sum.splits prod.splits)
    then have "sponge_seen A fds s' = (G, (a, False), y, z)" using s1 read_loop_seen [OF t] by metis
    then show ?thesis by (intro exI [of _ False]) simp
  qed
qed

lemma sponge_end_owner:
  assumes t: "fd_table K fds" and j: "keeps_table fds join" "keeps_table fds store_abort" and F: "F \<inter> {a, b, d} = {}"
    and s: "sponge_seen A fds s = (if c then F \<union> {a, b, d} - {a} else F \<union> {a, b, d}, (a, c), (b, False), (d, False))"
  shows "fds (sponge_end K A store_abort join s) = F"
proof -
  have "fds (sponge_end K A store_abort join s) = (if c then F \<union> {a, b, d} - {a} else F \<union> {a, b, d}) - (if c then {b, d} else {a, b, d})"
    by (rule sponge_end_table [OF t j]) (use s in \<open>simp_all add: sponge_seen_def\<close>)
  also have "\<dots> = F" using F by auto
  finally show ?thesis .
qed

lemma get_URL_released:
  assumes w: "sys_table K fds" and j: "keeps_table fds join" "keeps_table fds store_abort"
    and run: "get_URL K gai gni store_abort join host path k = Some ((cout, k'), r)"
  shows "fds k' = fds k"
proof -
  note t = sys_tableD(1) [OF w]
  let ?A = "tap_ops K gai gni"
  obtain k1 r1 where n: "full_stack_new K gai k = (k1, r1)" by fastforce
  have "(\<exists>e. r1 = Inl e) \<and> fds k1 = fds k \<or> (\<exists>s. r1 = Inr s \<and> sponge_held ?A fds (fds k) s)" by (rule full_stack_new_table [OF w n])
  then show ?thesis
  proof (elim disjE conjE exE)
    fix e assume "r1 = Inl e" "fds k1 = fds k"
    then show ?thesis using run n by (simp add: get_URL_def)
  next
    fix s assume r1: "r1 = Inr s" and h: "sponge_held ?A fds (fds k) s"
    then obtain a b d where s: "sponge_seen ?A fds s = (fds k \<union> {a, b, d}, (a, False), (b, False), (d, False))" "fds k \<inter> {a, b, d} = {}"
      by (auto simp: sponge_held_def)
    note ends = sponge_end_owner [OF t j s(2), of ?A]
    note early = ends [where c = False, simplified]
    show ?thesis
    proof (cases "address_of_host gai host ''http''")
      case (Inl e)
      then show ?thesis using run n r1 early [of s] s(1) by (simp add: get_URL_def)
    next
      case address: (Inr address)
      obtain rules s2 r2 where c: "full_stack_connect K gai gni address ([], s) = Some ((rules, s2), r2)"
        using run n r1 address by (auto simp: get_URL_def Let_def split: option.splits)
      have "sponge_frame K ?A fds (sponge_seen ?A fds s) s" using tap_ops_keeps [OF t] w by (simp add: sponge_frame_def)
      from local_connect_frame [OF this c [unfolded full_stack_connect_def]]
      have s2: "sponge_seen ?A fds s2 = (fds k \<union> {a, b, d}, (a, False), (b, False), (d, False))" using s(1) by (simp add: sponge_frame_def)
      show ?thesis
      proof (cases r2)
        case (Inl e)
        then show ?thesis using run n r1 address c early [of s2] s2 by (simp add: get_URL_def)
      next
        case (Inr u)
        then obtain s3 where h: "http_session K join host path s2 = Some ((cout, s3), r)" "k' = sponge_end K ?A store_abort join s3"
          using run n r1 address c by (auto simp: get_URL_def Let_def split: option.splits)
        have "a \<in> fds k \<union> {a, b, d}" by simp
        from http_session_table [OF t j(1) h(1) s2 this] show ?thesis using ends h(2) by blast
      qed
    qed
  qed
qed

subsection \<open>lab7\<close>

lemma ia_send_pending_keeps:
  assumes "fd_table K fds" "ia_send_pending K (a, k) = ((a', k'), r)"
  shows "fds k' = fds k \<and> ident (ia_first a') = ident (ia_first a)"
  using assms send_frames_keeps [OF assms(1), of "ni_frames_out (ia_interface a)" "(ia_first a, k)"]
  by (auto simp: ia_send_pending_def seen_def split: prod.splits)

lemma ia_ops_keeps:
  assumes t: "fd_table K fds"
  shows "adapter_keeps (ia_ops K gai gni) fds"
proof (rule adapter_keepsI, goal_cases)
  case (1 a k a' k' r)
  then show ?case
    by (auto simp: ia_ops_def ia_read_def call_def call_on_def Let_def split: prod.splits sum.splits if_splits option.splits
        dest!: ia_send_pending_keeps [OF t] seen_eqs(1) [OF t])
next
  case (2 seg a k seg' a' k' r)
  then show ?case
    by (auto simp: ia_ops_def ia_write_def call_def Let_def split: prod.splits sum.splits dest!: ia_send_pending_keeps [OF t])
next
  case (3 ms a k a' k' r)
  then show ?case by (auto simp: ia_ops_def ia_tick_def call_def Let_def split: prod.splits sum.splits dest!: ia_send_pending_keeps [OF t])
qed (simp_all add: ia_ops_def)

lemma ia_new_table:
  assumes t: "fd_table K fds" and run: "ia_new K rd gai ip next_hop (g, k) = ((g', k'), r)"
  shows "(\<exists>e. r = Inl e) \<and> fds k' = fds k \<or>
    (\<exists>x a b. r = Inr x \<and> ident (ia_first x) = (a, False) \<and> ident (ia_second x) = (b, False) \<and> a \<noteq> b \<and> a \<notin> fds k \<and> b \<notin> fds k \<and>
       fds k' = insert a (insert b (fds k)))"
proof (cases "fd_adapter_config_new gai")
  case (Inl e)
  then show ?thesis using run by (auto simp: ia_new_def)
next
  case (Inr cfg)
  obtain g1 mac where m: "random_host_ethernet_address rd g = (g1, mac)" by fastforce
  obtain k1 p where p: "socket_pair_helper K SOCK_DGRAM k = (k1, p)" by fastforce
  from socket_pair_table [OF t p] show ?thesis using run Inr m p by (auto simp: ia_new_def)
qed

definition lab7_held :: "('k, 'z) net_kernel_scheme \<Rightarrow> resolver \<Rightarrow> namer \<Rightarrow> ('k \<Rightarrow> int set) \<Rightarrow> int set \<Rightarrow> (interface_adapter, 'k) sponge \<Rightarrow> bool" where
  "lab7_held K gai gni fds F s \<longleftrightarrow>
     (\<exists>e. ident (ia_second (ss_datagram_adapter s)) = (e, False) \<and> e \<notin> F \<and> sponge_held (ia_ops K gai gni) fds (insert e F) s)"

lemma lab7_socket_table:
  assumes t: "fd_table K fds" and run: "lab7_socket_new K rd gai ip next_hop (g, k) = ((g', k'), r)"
  shows "(\<exists>e. r = Inl e) \<and> fds k' = fds k \<or> (\<exists>s a. r = Inr (s, a) \<and> lab7_held K gai gni fds (fds k) s)"
proof -
  obtain g1 k1 r1 where n: "ia_new K rd gai ip next_hop (g, k) = ((g1, k1), r1)" by (metis prod.exhaust)
  from ia_new_table [OF t n] show ?thesis
  proof (elim disjE exE conjE)
    fix e assume "r1 = Inl e" "fds k1 = fds k"
    then show ?thesis using run n by (auto simp: lab7_socket_new_def)
  next
    fix x d e assume r1: "r1 = Inr x" and x: "ident (ia_first x) = (d, False)" "ident (ia_second x) = (e, False)" "d \<noteq> e" "d \<notin> fds k" "e \<notin> fds k"
      and k1: "fds k1 = insert d (insert e (fds k))"
    obtain k2 r2 where s: "sponge_new K x k1 = (k2, r2)" by fastforce
    from sponge_new_table [OF t s] show ?thesis
    proof (elim disjE exE conjE)
      fix err assume "r2 = Inl err" "fds k2 = fds k1"
      then show ?thesis using run n r1 s x k1 by (auto simp: lab7_socket_new_def fd_destroy_table [OF t] ident_def)
    next
      fix sp a b assume sp: "r2 = Inr sp" "ss_datagram_adapter sp = x" "ss_sys sp = k2" "ident (ss_owner sp) = (a, False)"
        "ident (ss_thread_data sp) = (b, False)" "a \<noteq> b" "a \<notin> fds k1" "b \<notin> fds k1" "fds k2 = insert a (insert b (fds k1))"
      have "sponge_seen (ia_ops K gai gni) fds sp = (insert e (fds k) \<union> {a, b, d}, (a, False), (b, False), (d, False))"
        using sp x k1 by (auto simp: sponge_seen_def ia_ops_def)
      moreover have "a \<noteq> d" "b \<noteq> d" "insert e (fds k) \<inter> {a, b, d} = {}" using sp(7,8) x k1 by auto
      ultimately have "lab7_held K gai gni fds (fds k) sp" using sp(2,6) x(2,5) unfolding lab7_held_def sponge_held_def by blast
      then show ?thesis using run n r1 s sp(1) by (auto simp: lab7_socket_new_def)
    qed
  qed
qed

lemma hello_seen: "fd_table K fds \<Longrightarrow> seen fds (fst (hello K a x)) = seen fds x"
  by (simp add: hello_def fst_call_on udp_sendto_keeps split: sum.split)

lemma lab7_setup_table:
  assumes t: "fd_table K fds" and run: "lab7_setup K rd gai gni is_client host port (g, k) = ((g', k'), r)"
  shows "(\<exists>e. r = Inl e) \<and> fds k' = fds k \<or>
    (\<exists>f b rt s l n. r = Inr (f, b, rt, s, l) \<and> ident f = (n, False) \<and> n \<notin> fds k \<and> lab7_held K gai gni fds (insert n (fds k)) s)"
proof -
  obtain k1 r1 where n: "udp_socket_new K k = (k1, r1)" by fastforce
  have m: "made fds k (k1, r1)" using socket_new_made [OF t] n by (metis udp_socket_new_def)
  show ?thesis
  proof (cases r1)
    case (Inl e)
    then have "fds k1 = fds k" using m by (simp add: made_def)
    moreover have "k' = k1" "r = Inl e" using run n Inl by (simp_all add: lab7_setup_def)
    ultimately show ?thesis by simp
  next
    case (Inr f)
    then obtain n' where f: "ident f = (n', False)" "n' \<notin> fds k" "fds k1 = insert n' (fds k)" using m by (auto simp: made_def ident_def)
    let ?h = "call (f, k1) (address_of_host gai host port) (\<lambda>a. call_on (hello K a (f, k1)) (\<lambda>x _. (x, Inr a)))"
    obtain f2 k2 r2 where h: "?h = ((f2, k2), r2)" by (rule that [of "fst (fst ?h)" "snd (fst ?h)" "snd ?h"]) simp
    have "seen fds (fst ?h) = seen fds (f, k1)" by (simp add: fst_call fst_call_on hello_seen [OF t] split: sum.split)
    then have f2: "ident f2 = (n', False)" "fds k2 = insert n' (fds k)" using h f by (simp_all add: seen_def)
    have d: "fds (snd (fd_destroy K (f2, kk))) = fds k" if "fds kk = insert n' (fds k)" for kk
      using that f2 f by (auto simp: fd_destroy_table [OF t] ident_def)
    show ?thesis
    proof (cases r2)
      case (Inl e)
      then show ?thesis using run n Inr h d [OF f2(2)] by (auto simp: lab7_setup_def)
    next
      case 2: (Inr bounce)
      obtain g3 r3 where r3: "lab7_router rd gai gni is_client g = (g3, r3)" by fastforce
      show ?thesis
      proof (cases r3)
        case (Inl e)
        then show ?thesis using run n Inr h 2 r3 d [OF f2(2)] by (auto simp: lab7_setup_def)
      next
        case 3: (Inr rt)
        show ?thesis
        proof (cases "lab7_host gai is_client")
          case (Inl e)
          then show ?thesis using run n Inr h 2 r3 3 d [OF f2(2)] by (auto simp: lab7_setup_def)
        next
          case 4: (Inr ipn)
          obtain ip nh where ipn: "ipn = (ip, nh)" by fastforce
          obtain g5 k5 r5 where s: "lab7_socket_new K rd gai ip nh (g3, k2) = ((g5, k5), r5)" by (metis prod.exhaust)
          from lab7_socket_table [OF t s, of gni] show ?thesis
          proof (elim disjE exE conjE)
            fix e assume "r5 = Inl e" "fds k5 = fds k2"
            then show ?thesis using run n Inr h 2 r3 3 4 ipn s d [of k5] f2(2) by (auto simp: lab7_setup_def)
          next
            fix sp a assume "r5 = Inr (sp, a)" "lab7_held K gai gni fds (fds k2) sp"
            moreover from this have "r = Inr (f2, bounce, rt, sp, a)" using run n Inr h 2 r3 3 4 ipn s by (simp add: lab7_setup_def)
            ultimately show ?thesis using f(2) f2 by (cases rt) auto
          qed
        qed
      qed
    qed
  qed
qed

lemma lab7_session_seen:
  assumes w: "sys_table K fds" and j: "keeps_table fds join" and run: "lab7_session K gai gni join is_client (s, local) = Some (s', r)"
    and s: "sponge_seen (ia_ops K gai gni) fds s = (G, v)"
  shows "sponge_seen (ia_ops K gai gni) fds s' = (G, v) \<or> sponge_seen (ia_ops K gai gni) fds s' = (G - {0, 1}, v)"
proof -
  let ?A = "ia_ops K gai gni"
  have fr: "sponge_frame K ?A fds (G, v) s" using w ia_ops_keeps [OF sys_tableD(1) [OF w]] s by (simp add: sponge_frame_def)
  have con: "sponge_frame K ?A fds (G, v) s1" if "lab7_connect K gai gni local server ([], s) = Some ((rules, s1), r1)" for server rules s1 r1
  proof -
    obtain k rnd where rnd: "k_random_device K (ss_sys s) = (k, rnd)" by fastforce
    have fr1: "sponge_frame K ?A fds (G, v) (s\<lparr>ss_sys := k\<rparr>)"
      using fr rnd sys_tableD(4) [OF w, of "ss_sys s"] by (simp add: sponge_frame_def sponge_seen_def)
    show ?thesis using that fr fr1 rnd
      by (auto simp: lab7_connect_def Let_def split: sum.splits dest: sponge_connect_frame)
  qed
  have lis: "sponge_frame K ?A fds (G, v) s1" if "lab7_listen K gai gni l ([], s) = Some ((rules, s1), r1)" for l rules s1 r1
    using that fr by (auto simp: lab7_listen_def split: sum.splits dest: listen_and_accept_frame)
  have copied: ?thesis if "copy_session K join s1 = Some (s', r)" "sponge_frame K ?A fds (G, v) s1" for s1
    using copy_session_seen [OF w j that(1), of ?A G] that(2) by (cases v) (auto simp: sponge_frame_def)
  show ?thesis using run fr con lis copied s
    by (auto simp: lab7_session_def sponge_frame_def split: sum.splits option.splits if_splits)
qed

lemma lab7_main_released:
  assumes w: "sys_table K fds" and j: "keeps_table fds join" "keeps_table fds store_abort" "keeps_table fds stop_network"
    and run: "lab7_main K rd gai gni store_abort join stop_network argv (g, k) = Some ((g', k'), r)"
  shows "released fds (fds k) k'"
proof -
  note t = sys_tableD(1) [OF w]
  let ?A = "ia_ops K gai gni"
  have "released fds (fds k) k'" if body: "program_body K rd gai gni store_abort join stop_network c host port (g, k) = Some ((g', k'), r1)" for c host port r1
  proof -
    obtain g1 k1 r2 where st: "lab7_setup K rd gai gni c host port (g, k) = ((g1, k1), r2)" by (metis prod.exhaust)
    from lab7_setup_table [OF t st] show ?thesis
    proof (elim disjE exE conjE)
      fix e assume "r2 = Inl e" "fds k1 = fds k"
      then show ?thesis using body st by (simp add: program_body_def released_def)
    next
      fix f b rt s l n assume r2: "r2 = Inr (f, b, rt, s, l)" and f: "ident f = (n, False)" "n \<notin> fds k"
        and h: "lab7_held K gai gni fds (insert n (fds k)) s"
      then obtain e x y z where e: "ident (ia_second (ss_datagram_adapter s)) = (e, False)" "e \<notin> insert n (fds k)"
        and s: "sponge_seen ?A fds s = (insert e (insert n (fds k)) \<union> {x, y, z}, (x, False), (y, False), (z, False))"
        and d: "insert e (insert n (fds k)) \<inter> {x, y, z} = {}"
        by (auto simp: lab7_held_def sponge_held_def)
      obtain s1 r3 where se: "lab7_session K gai gni join c (s, l) = Some (s1, r3)"
        using body st r2 by (auto simp: program_body_def split: option.splits prod.splits)
      define s2 where "s2 = sponge_destroy store_abort join (s1\<lparr>ss_sys := stop_network (ss_sys s1)\<rparr>)"
      define k2 where "k2 = snd (fd_destroy K (ia_second (ss_datagram_adapter s), ss_sys s2))"
      have k': "k' = snd (fd_destroy K (f, sponge_end K ?A store_abort join (s2\<lparr>ss_sys := k2\<rparr>)))"
        using body st r2 se by (simp add: program_body_def s2_def k2_def Let_def case_prod_beta)
      have s2: "sponge_seen ?A fds s2 = sponge_seen ?A fds s1"
        using j by (simp add: s2_def sponge_destroy_def join_thread_def sponge_seen_def keeps_table_def)
      have end_at: "fds k' = G - {e} - {x, y, z} - {n}" if "sponge_seen ?A fds s1 = (G, (x, False), (y, False), (z, False))" for G
      proof -
        have "fds k2 = G - {e}" using that s2 e(1) by (simp add: k2_def fd_destroy_table [OF t] ident_def sponge_seen_def)
        then have "sponge_seen ?A fds (s2\<lparr>ss_sys := k2\<rparr>) = (G - {e}, (x, False), (y, False), (z, False))"
          using that s2 by (simp add: sponge_seen_def)
        from sponge_end_held [OF t j(1,2) this] show ?thesis using f(1) by (simp add: k' fd_destroy_table [OF t] ident_def)
      qed
      from lab7_session_seen [OF w j(1) se s] show ?thesis
      proof
        assume "sponge_seen ?A fds s1 = (insert e (insert n (fds k)) \<union> {x, y, z}, (x, False), (y, False), (z, False))"
        from end_at [OF this] show ?thesis using e(2) f(2) d by (auto simp: released_def)
      next
        assume "sponge_seen ?A fds s1 = (insert e (insert n (fds k)) \<union> {x, y, z} - {0, 1}, (x, False), (y, False), (z, False))"
        from end_at [OF this] have "fds k' = fds k - {0, 1}" using e(2) f(2) d by auto
        then show ?thesis by (simp add: released_def)
      qed
    qed
  qed
  moreover have "released fds (fds k) k" by (simp add: released_def)
  ultimately show ?thesis using run unfolding lab7_main_def by (fastforce split: option.splits)
qed

subsection \<open>Properties\<close>

text \<open>C8. The programs leak no descriptor.  However a program ends (a wrong command line, a device or socket that cannot be opened, a failed
  connection, an exception in the middle of a transfer, a normal end), the descriptors open afterwards are those open before, without standard
  input and output if the copy had begun; \<^verbatim>\<open>webget\<close> and \<^verbatim>\<open>tun\<close> leave the table as it was.  The threads are assumed to keep the table, and
  a close of an open descriptor to succeed.\<close>

theorem programs_release_descriptors:
  assumes "sys_table K fds" "keeps_table fds join" "keeps_table fds store_abort" "keeps_table fds stop_network"
  shows "(\<forall>k' r. ipv4_main K rand g gai gni store_abort join argv k = Some (k', r) \<longrightarrow> released fds (fds k) k') \<and>
    (\<forall>k' r. udp_main K rand g gai gni store_abort join argv k = Some (k', r) \<longrightarrow> released fds (fds k) k') \<and>
    (\<forall>k' r. ethernet_main K gai gni store_abort join argv k = Some (k', r) \<longrightarrow> released fds (fds k) k') \<and>
    (\<forall>k' r. native_main K gai argv k = Some (k', r) \<longrightarrow> released fds (fds k) k') \<and>
    (\<forall>g' k' r. lab7_main K rd gai gni store_abort join stop_network argv (g0, k) = Some ((g', k'), r) \<longrightarrow> released fds (fds k) k') \<and>
    (\<forall>cout k' r. webget_main K gai gni store_abort join argv k = Some ((cout, k'), r) \<longrightarrow> fds k' = fds k) \<and>
    (\<forall>cout k' e. tun_main K k = Some ((cout, k'), e) \<longrightarrow> fds k' = fds k)"
proof (intro conjI allI impI)
  show "released fds (fds k) k'" if "ipv4_main K rand g gai gni store_abort join argv k = Some (k', r)" for k' r
    by (rule ipv4_main_released [OF assms(1-3) that])
  show "released fds (fds k) k'" if "udp_main K rand g gai gni store_abort join argv k = Some (k', r)" for k' r
    by (rule udp_main_released [OF assms(1-3) that])
  show "released fds (fds k) k'" if "ethernet_main K gai gni store_abort join argv k = Some (k', r)" for k' r
    by (rule ethernet_main_released [OF assms(1-3) that])
  show "released fds (fds k) k'" if "native_main K gai argv k = Some (k', r)" for k' r
    by (rule native_main_released [OF assms(1) that])
  show "released fds (fds k) k'" if "lab7_main K rd gai gni store_abort join stop_network argv (g0, k) = Some ((g', k'), r)" for g' k' r
    by (rule lab7_main_released [OF assms that])
  show "fds k' = fds k" if "webget_main K gai gni store_abort join argv k = Some ((cout, k'), r)" for cout k' r
    using that get_URL_released [OF assms(1-3)] by (auto simp: webget_main_def split: if_splits option.splits)
  show "fds k' = fds k" if "tun_main K k = Some ((cout, k'), e)" for cout k' e
    by (rule tun_main_released [OF sys_tableD(1) [OF assms(1)] that])
qed

text \<open>A system for examples: the state is the list of open descriptors; reading and polling find the end of everything.\<close>

definition list_opens :: "int list \<Rightarrow> int list \<times> sys_result" where
  "list_opens k = (if Max (insert 2 (set k)) < 1000 then ((Max (insert 2 (set k)) + 1) # k, Max (insert 2 (set k)) + 1, 0) else (k, - 1, 24))"

definition list_sys :: "int list sys" where
  "list_sys =
     \<lparr>k_close = (\<lambda>fd k. (filter (\<lambda>x. x \<noteq> fd) k, if fd \<in> set k then (0, 0) else (- 1, EBADF))),
      k_read = (\<lambda>fd n k. (k, (- 1, 5), [])), k_writev = (\<lambda>fd iov k. (k, - 1, 5)),
      k_getfl = (\<lambda>fd k. (k, 2, 0)), k_setfl = (\<lambda>fd fl k. (k, 0, 0)), k_socket = (\<lambda>d t k. list_opens k),
      k_getsockopt = (\<lambda>fd l opt k. (k, (0, 0), 1, 4)), k_setsockopt = (\<lambda>fd l opt v k. (k, 0, 0)),
      k_getsockname = (\<lambda>fd k. (k, (0, 0), [])), k_getpeername = (\<lambda>fd k. (k, (0, 0), [])), k_bind = (\<lambda>fd a k. (k, 0, 0)),
      k_connect = (\<lambda>fd a k. (k, - 1, 111)), k_shutdown = (\<lambda>fd how k. (k, 0, 0)),
      k_recvfrom = (\<lambda>fd n k. (k, (0, 0), [], [])), k_sendmsg = (\<lambda>fd dst iov k. (k, 0, 0)), k_listen = (\<lambda>fd b k. (k, 0, 0)),
      k_accept = (\<lambda>fd k. list_opens k), k_socketpair = (\<lambda>d t k. (k, (- 1, 24), 0, 0)), k_open = (\<lambda>path fl k. list_opens k),
      k_tunsetiff = (\<lambda>fd fl name k. (k, 0, 0)), k_poll = (\<lambda>ps t k. (k, (0, 0), \<lambda>i. 0)),
      k_timestamp_ms = (\<lambda>k. (k, 5)), k_random_device = (\<lambda>k. (k, 77)), k_abort = (\<lambda>k. False)\<rparr>"

lemma list_opens_one: "opens_one set k (list_opens k)"
proof -
  define m where "m = Max (insert 2 (set k))"
  have "2 \<le> m" "m + 1 \<notin> set k" using Max_ge [of "insert 2 (set k)" 2] Max_ge [of "insert 2 (set k)" "m + 1"] by (auto simp: m_def)
  then show ?thesis unfolding opens_one_def list_opens_def m_def [symmetric] by auto
qed

lemma list_sys_table: "sys_table list_sys set"
  by (auto simp: sys_table_def fd_table_def list_sys_def list_opens_one)

text \<open>A client whose connection is refused: the socket is closed again.\<close>

theorem programs_release_descriptors_witness:
  "\<exists>k' r. native_main list_sys (\<lambda>_ _ _. (0, Some [])) [''tcp_native'', ''host'', ''80''] [0, 1, 2] = Some (k', r) \<and> r \<noteq> Done () \<and>
     released set {0, 1, 2} k'"
proof -
  have k: "keeps_table set (id :: int list \<Rightarrow> int list)" by (simp add: keeps_table_def)
  obtain k' e where "native_main list_sys (\<lambda>_ _ _. (0, Some [])) [''tcp_native'', ''host'', ''80''] [0, 1, 2] = Some (k', Threw e)"
    by (simp add: native_main_def strncmp_same_def native_client_def tcp_socket_new_def socket_new_def list_sys_def list_opens_def SystemCall_def fd_new_def
        address_of_host_def address_resolve_def address_of_sockaddr_def socket_connect_def)
  moreover from this programs_release_descriptors [OF list_sys_table k k k, of undefined undefined "\<lambda>_ _ _. (0, Some [])" undefined
      "[''tcp_native'', ''host'', ''80'']" "[0, 1, 2]" undefined undefined]
  have "released set (set [0, 1, 2]) k'" by blast
  ultimately show ?thesis by auto
qed

end
