(* ===== verification/Segment_Types.thy ===== *)
theory Segment_Types
  imports TCP_Connection Adapters
begin

text \<open>
  The type of the segments of a connection: which headers and payloads its sender, its stamping and its resets can produce.  The invariant is a type of
  the queues and needs no assumption on the use of the connection: the owner may call anything at any time and any segments may arrive.
\<close>

definition segment_type :: "tcp_segment \<Rightarrow> bool" where
  "segment_type seg \<longleftrightarrow>
     (let h = sg_header seg
      in th_doff h = 5 \<and> \<not> th_urg h \<and> \<not> th_psh h \<and> th_uptr h = 0 \<and> th_sport h = 0 \<and> th_dport h = 0 \<and> th_cksum h = 0 \<and>
         length (sg_payload seg) \<le> MAX_PAYLOAD_SIZE \<and> (th_syn h \<longrightarrow> \<not> th_fin h \<and> \<not> th_rst h \<and> sg_payload seg = []) \<and>
         (th_rst h \<longrightarrow> \<not> th_fin h \<and> \<not> th_ack h \<and> sg_payload seg = []))"

text \<open>The segments in the queue and those kept for retransmission; before the stamping none of them is a reset.\<close>

definition sender_type :: "tcp_sender \<Rightarrow> bool" where
  "sender_type s \<longleftrightarrow> list_all (\<lambda>seg. segment_type seg \<and> \<not> th_rst (sg_header seg)) (sd_segments_out s @ map sn_seg (sd_seg_buffer s))"

definition connection_type :: "tcp_connection \<Rightarrow> bool" where
  "connection_type c \<longleftrightarrow> list_all segment_type (cn_segments_out c) \<and> sender_type (cn_sender c)"

subsection \<open>The sender\<close>

lemma init_seg_type:
  "length d \<le> MAX_PAYLOAD_SIZE \<Longrightarrow> segment_type ((get_init_seg s)\<lparr>sg_payload := d\<rparr>)"
  "length d \<le> MAX_PAYLOAD_SIZE \<Longrightarrow> segment_type ((get_init_seg s)\<lparr>sg_header := (sg_header (get_init_seg s))\<lparr>th_fin := f\<rparr>, sg_payload := d\<rparr>)"
  "segment_type ((get_init_seg s)\<lparr>sg_header := (sg_header (get_init_seg s))\<lparr>th_syn := True\<rparr>\<rparr>)"
  "segment_type ((get_init_seg s)\<lparr>sg_header := (sg_header (get_init_seg s))\<lparr>th_fin := True\<rparr>\<rparr>)"
  "segment_type (get_init_seg s)" "\<not> th_rst (sg_header (get_init_seg s))"
  by (simp_all add: segment_type_def get_init_seg_def tcp_segment_new_def tcp_header_new_def)

lemma send_new_seg_type:
  "sender_type (send_new_seg seg s) \<longleftrightarrow> sender_type s \<and> segment_type seg \<and> \<not> th_rst (sg_header seg)"
  by (auto simp: sender_type_def send_new_seg_def Let_def)

lemma sender_type_update [simp]:
  "sender_type (s\<lparr>sd_stream := st\<rparr>) = sender_type s" "sender_type (s\<lparr>sd_fin_ack_index := n\<rparr>) = sender_type s"
  "sender_type (s\<lparr>sd_wd_right_edge := n\<rparr>) = sender_type s" "sender_type (s\<lparr>sd_RTO := n\<rparr>) = sender_type s"
  "sender_type (s\<lparr>sd_timer := t\<rparr>) = sender_type s" "sender_type (s\<lparr>sd_retrans_num := n\<rparr>) = sender_type s"
  "sender_type (s\<lparr>sd_cur_ack_index := n\<rparr>) = sender_type s"
  by (simp_all add: sender_type_def)

lemma split_loop_type:
  "split_loop i d s = (j, s') \<Longrightarrow> sender_type s \<Longrightarrow> sender_type s' \<and> length d \<le> j + MAX_PAYLOAD_SIZE"
proof (induction i d s rule: split_loop.induct)
  case (1 i d s)
  then show ?case
    by (cases "i + MAX_PAYLOAD_SIZE < length d") (simp_all add: split_loop.simps [of i d s] send_new_seg_type init_seg_type)
qed

lemma fill_window_type: "sender_type s \<Longrightarrow> sender_type (fill_window s)"
  by (auto simp: fill_window_def Let_def send_new_seg_type init_seg_type split: prod.splits dest!: split_loop_type)

lemma ack_loop_suffix: "ack_loop ack f a ns = (f', a', rest) \<Longrightarrow> set rest \<subseteq> set ns"
  by (induction ns arbitrary: f a) (fastforce split: if_splits)+

lemma ack_received_type:
  assumes "sender_type s"
  shows "sender_type (ack_received a w s)"
proof -
  obtain f cur rest where l: "ack_loop (unwrap a (sd_isn s) (sd_next_seqno s)) False (sd_cur_ack_index s) (sd_seg_buffer s) = (f, cur, rest)"
    by (metis prod.exhaust)
  have "sender_type (s\<lparr>sd_cur_ack_index := cur, sd_seg_buffer := rest\<rparr>)"
    using assms ack_loop_suffix [OF l] by (auto simp: sender_type_def list_all_iff)
  then show ?thesis using assms by (simp add: ack_received_def Let_def l fill_window_type)
qed

lemma sd_tick_type: "sender_type s \<Longrightarrow> sender_type (sd_tick ms s)"
  by (auto simp: sd_tick_def Let_def sender_type_def split: list.split)

lemma send_empty_ack_type: "sender_type s \<Longrightarrow> sender_type (send_empty_ack s)"
  by (simp add: send_empty_ack_def Let_def send_new_seg_type init_seg_type) (simp add: sender_type_def init_seg_type)

lemmas sender_types = fill_window_type ack_received_type sd_tick_type send_empty_ack_type

subsection \<open>The connection\<close>

lemma stamp_type: "segment_type seg \<Longrightarrow> \<not> th_rst (sg_header seg) \<Longrightarrow> segment_type (stamp r seg)"
  by (simp add: segment_type_def stamp_def Let_def split: option.split)

lemma clean_type: "connection_type c \<Longrightarrow> connection_type (clean c)"
  by (auto simp: connection_type_def clean_eq sender_type_def list_all_iff stamp_type)

lemma bad_shutdown_type: "connection_type c \<Longrightarrow> connection_type (bad_shutdown rst c)"
  by (simp add: connection_type_def bad_shutdown_def Let_def) (simp add: segment_type_def tcp_segment_new_def tcp_header_new_def)

lemma sender_changed_type: "connection_type c \<Longrightarrow> (sender_type (cn_sender c) \<Longrightarrow> sender_type s) \<Longrightarrow> connection_type (clean (c\<lparr>cn_sender := s\<rparr>))"
  by (rule clean_type) (simp add: connection_type_def)

lemma connection_type_update [simp]:
  "connection_type (c\<lparr>cn_receiver := r\<rparr>) = connection_type c" "connection_type (c\<lparr>cn_last_recive_time := t\<rparr>) = connection_type c"
  "connection_type (c\<lparr>cn_now_time := t\<rparr>) = connection_type c" "connection_type (c\<lparr>cn_linger_after_streams_finish := l\<rparr>) = connection_type c"
  by (simp_all add: connection_type_def)

lemma segment_received_type: "connection_type c \<Longrightarrow> connection_type (cn_segment_received seg c)"
  by (simp add: cn_segment_received_def Let_def bad_shutdown_type)
    (intro conjI impI clean_type; simp add: connection_type_def sender_types)

lemma cn_step_type:
  assumes "connection_type (fst x)"
  shows "connection_type (fst (cn_step x op))"
proof -
  obtain c W where x: "x = (c, W)" by fastforce
  have c: "connection_type c" using assms x by simp
  show ?thesis
  proof (cases op)
    case (CRead n)
    then show ?thesis using c by (simp add: x split: prod.split)
  next
    case CTake
    then show ?thesis using c by (simp add: x connection_type_def)
  next
    case (CWrite d)
    then show ?thesis using c by (simp add: x cn_write_def sender_changed_type fill_window_type split: prod.split)
  next
    case (CTick ms)
    have "connection_type (c\<lparr>cn_now_time := t\<rparr>)" for t using c by simp
    from sender_changed_type [OF this sd_tick_type] c CTick show ?thesis by (simp add: x cn_tick_def Let_def bad_shutdown_type)
  qed (use c in \<open>simp_all add: x cn_connect_def cn_end_input_stream_def cn_destroy_def Let_def segment_received_type bad_shutdown_type
        sender_changed_type sender_types\<close>)
qed

interpretation typed: step_system "\<lambda>x. \<exists>cfg rnd. fst x = tcp_connection_new cfg rnd" cn_step "\<lambda>x op. True" "\<lambda>x. connection_type (fst x)"
proof (unfold_locales, goal_cases)
  case (1 x)
  then show ?case by (auto simp: connection_type_def tcp_connection_new_def sender_type_def tcp_sender_new_def)
qed (rule cn_step_type)

lemma segment_type_sendable: "segment_type seg \<Longrightarrow> sendable seg"
  by (simp add: segment_type_def sendable_def tcp_header_wf_def Let_def MAX_PAYLOAD_SIZE_def)

text \<open>C20. The type of outgoing segments.  Whatever calls are made on a connection, in whatever order, and whatever segments it is given, every segment in
  its queue has a header of five words without options, the urgent and push flags and pointer unset, ports and checksum left to the layers below and at most
  \<^verbatim>\<open>MAX_PAYLOAD_SIZE\<close> bytes of payload; a SYN has neither payload nor FIN, and an RST has neither payload nor SYN, FIN or ACK.  So every segment
  satisfies what the adapters require of the segments they wrap.\<close>

theorem connection_segment_type:
  "list_all segment_type (cn_segments_out (fst (run_steps cn_step (tcp_connection_new cfg rnd, W) ops))) \<and>
   list_all sendable (cn_segments_out (fst (run_steps cn_step (tcp_connection_new cfg rnd, W) ops)))"
proof -
  have "connection_type (fst (run_steps cn_step (tcp_connection_new cfg rnd, W) ops))"
    using typed.reachable_inv [OF _ allowed_any, of "(tcp_connection_new cfg rnd, W)" ops] by auto
  then show ?thesis using segment_type_sendable by (auto simp: connection_type_def list_all_iff)
qed

end
