(* ===== verification/Spec2Isabelle.thy ===== *)
theory Spec2Isabelle
  imports TCP_Benchmark Lab7_Network Packet_Dump Command_Words Program_Descriptors Segment_Types
begin

text \<open>
  \<^bold>\<open>A verification development for the sponge TCP/IP stack.\<close>

  The program is a user-space TCP/IP stack in C++ (\<^verbatim>\<open>src/libsponge\<close>).  An application writes bytes into a
  \<^verbatim>\<open>TCPConnection\<close>; its \<^verbatim>\<open>TCPSender\<close> cuts them into segments, keeps them until they are acknowledged and sends them again on a
  timer; an adapter wraps each segment in an IPv4 datagram (or a UDP payload), a \<^verbatim>\<open>NetworkInterface\<close> puts datagrams into
  Ethernet frames and finds Ethernet addresses with ARP, and a \<^verbatim>\<open>Router\<close> passes datagrams between interfaces.  On the
  other side the frames, datagrams and segments are parsed and checked, and the \<^verbatim>\<open>TCPReceiver\<close> puts the payloads in order with
  a \<^verbatim>\<open>StreamReassembler\<close> into the \<^verbatim>\<open>ByteStream\<close> the application reads.  A \<^verbatim>\<open>TCPSpongeSocket\<close> runs a connection over an adapter with
  an \<^verbatim>\<open>EventLoop\<close> around \<^verbatim>\<open>poll\<close>; the programs under \<^verbatim>\<open>src/apps\<close> use these sockets or join the classes directly.

  \<^bold>\<open>Theories and what they model.\<close>
  \<^item> \<open>Sponge_Prelude\<close>: 64-bit arithmetic on \<open>nat\<close> with the wrap written out (\<open>add64\<close>, \<open>sub64\<close>), exceptions as values
    (\<open>exn\<close>), \<^verbatim>\<open>std::set\<close> as a list in iteration order, and the locale \<open>step_system\<close> (start, step, invariant) that the stateful
    components interpret.
  \<^item> \<open>Byte_Stream\<close>, \<open>Stream_Reassembler\<close>, \<open>Wrapping_Integers\<close>: \<^verbatim>\<open>byte_stream\<close>, \<^verbatim>\<open>stream_reassembler\<close> and
    \<^verbatim>\<open>wrapping_integers\<close>; one record per class and one definition per method, \<^verbatim>\<open>push_substring\<close> split into its parts.
  \<^item> \<open>Buffers\<close>, \<open>Net_Parser\<close>, \<open>Internet_Checksum\<close>: \<^verbatim>\<open>util/buffer\<close>, \<^verbatim>\<open>util/parser\<close> and the checksum of \<^verbatim>\<open>util/util\<close>.
    \<open>Net_Parser\<close> states three interfaces as locales: \<open>field_codec\<close> (a field that was written is read back), \<open>wire_format\<close>
    (a header) and \<open>message_format\<close> (a whole message, up to fields that serialization fills in).
  \<^item> \<open>TCP_Segment\<close>, \<open>IPv4\<close>, \<open>Ethernet\<close>, \<open>ARP_Message\<close>: headers and messages with \<^verbatim>\<open>parse\<close> and \<^verbatim>\<open>serialize\<close>, each an instance
    of these interfaces.
  \<^item> \<open>TCP_Config\<close>, \<open>TCP_Receiver\<close>, \<open>TCP_Sender\<close>, \<open>TCP_State\<close>, \<open>TCP_Connection\<close>: the TCP machine.  The sender's timer, the
    queue of segments in flight and the window, the receiver's sequence numbers, and in the connection every public method, the
    two ways of shutting down and the destructor.  Sender, receiver and connection interpret \<open>step_system\<close> with their
    operations.
  \<^item> \<open>Segment_Types\<close>: the type of the segments a connection produces.
  \<^item> \<open>Address\<close>: \<^verbatim>\<open>util/address\<close> over the byte layout of socket addresses.
  \<^item> \<open>Network_Interface\<close>, \<open>Router\<close>: \<^verbatim>\<open>network_interface\<close> (an instance of \<open>step_system\<close>) and \<^verbatim>\<open>router\<close>.
  \<^item> \<open>Adapters\<close>: \<^verbatim>\<open>fd_adapter\<close>, \<^verbatim>\<open>tcp_over_ip\<close>, \<^verbatim>\<open>tuntap_adapter\<close> and \<^verbatim>\<open>lossy_fd_adapter\<close>; the locale \<open>segment_link\<close>, what a
    connection expects of an adapter, is interpreted for the TUN and the UDP adapter.
  \<^item> \<open>Number_Text\<close>: numbers as text, as \<^verbatim>\<open>std::to_string\<close>, \<^verbatim>\<open>std::stoi\<close> and the stream manipulators write and read them.
  \<^item> \<open>File_Descriptor\<close>, \<open>Event_Loop\<close>, \<open>Sockets\<close>, \<open>Devices\<close>: \<^verbatim>\<open>util/file_descriptor\<close>, \<^verbatim>\<open>util/eventloop\<close>, \<^verbatim>\<open>util/socket\<close>, \<^verbatim>\<open>util/tun\<close> and the adapters on
    real descriptors; the locale \<open>guarded_rules\<close> is what the users of the event loop prove of their rules.
  \<^item> \<open>Sponge_Socket\<close>, \<open>Sponge_Owner\<close>: \<^verbatim>\<open>tcp_helpers/tcp_sponge_socket\<close>, with its four rules, its loop and the thread's body, and the end of its life
    as the owner sees it.
  \<^item> \<open>Connection_Link\<close>, \<open>TCP_Pair\<close>: a connection as one end of a link, and two connections with a network between them as a step
    relation.
  \<^item> \<open>Header_Text\<close>: the texts of headers and messages (\<^verbatim>\<open>to_string\<close>, \<^verbatim>\<open>summary\<close>) and \<^verbatim>\<open>hexdump\<close>.
  \<^item> \<open>Network_Simulator\<close>, \<open>Network_Delivery\<close>: the program \<^verbatim>\<open>apps/network_simulator.cc\<close>, and that its tests succeed.
  \<^item> \<open>Packet_Dump\<close>: the program \<^verbatim>\<open>apps/udp_tcpdump.cc\<close>.
  \<^item> \<open>TCP_Benchmark\<close>, \<open>Stream_Copy\<close>: the programs \<^verbatim>\<open>apps/tcp_benchmark.cc\<close> and \<^verbatim>\<open>apps/bidirectional_stream_copy.cc\<close>.
  \<^item> \<open>Lab7\<close>, \<open>Lab7_Network\<close>: the program \<^verbatim>\<open>apps/lab7.cc\<close>, a host and its router in one process; what its network thread does and that two such
    programs carry a datagram.
  \<^item> \<open>C_Numbers\<close>, \<open>Command_Line\<close>, \<open>Command_Words\<close>: \<^verbatim>\<open>strtol\<close>, \<^verbatim>\<open>strtof\<close> and arithmetic in \<^verbatim>\<open>float\<close>, the option parsers of \<^verbatim>\<open>apps/tcp_ipv4.cc\<close>,
    \<^verbatim>\<open>apps/tcp_udp.cc\<close> and \<^verbatim>\<open>apps/tcp_ip_ethernet.cc\<close>, and what they make of a command line; the locale \<open>option_table\<close> is the contract between the loop
    over the arguments and the table of options, interpreted for the three programs.
  \<^item> \<open>Programs\<close>, \<open>Web_Get\<close>: the main functions of these programs and of \<^verbatim>\<open>apps/tcp_native.cc\<close>, \<^verbatim>\<open>apps/webget.cc\<close>, \<^verbatim>\<open>apps/tun.cc\<close> and \<^verbatim>\<open>apps/lab7.cc\<close>.
  \<^item> \<open>Descriptors\<close>, \<open>Program_Descriptors\<close>: which descriptors are open, for every operation and for whole programs.
  \<^item> this theory: what spans sender and receiver.

  \<^bold>\<open>What the theorems show.\<close>
  \<^item> Data integrity: the reassembler gives exactly the longest prefix that has arrived, whatever excerpts arrive
    (\<open>reassembler_integrity\<close>, \<open>push_substring_refines\<close>, \<open>reassembler_complete\<close>); the sender's segments carry what was written
    (\<open>sender_segments_faithful\<close>); the receiver delivers a prefix of the peer's stream (\<open>receiver_stream_integrity\<close>); together,
    across any loss, reordering and duplication, \<open>end_to_end_integrity\<close>; for whole connections, both directions at once,
    \<open>connections_integrity\<close>, on which \<open>benchmark_transfers\<close> rests.
  \<^item> Histories as references: what a state should be is computed from the operations alone and compared with the state that the code has.
    \<open>ar_exec\<close> are the bytes that have arrived inside the window and those that were read (\<open>reassembler_integrity\<close>), \<open>hs_step\<close> adds the segment
    with SYN that started the stream (\<open>receiver_ackno_window\<close>), \<open>retx_since_ack\<close> are the segments sent again into an open window since the
    last progress (\<open>connection_outgoing_segments\<close>), \<open>cache_step\<close> the Ethernet addresses taught less than thirty seconds ago
    (\<open>network_interface_run\<close>).
  \<^item> Programs around \<^verbatim>\<open>poll\<close>: the socket hands on what arrives and sends what is written, whatever calls fail
    (\<open>sponge_socket_integrity\<close>, \<open>segments_reach_peer\<close>); the copy loop loses nothing (\<open>stream_copy_integrity\<close>) and has flushed its input
    when it ends (\<open>stream_copy_flushes\<close>).
  \<^item> Whole programs: no program leaks a descriptor on any path (\<open>programs_release_descriptors\<close>), their command lines are read within bounds, in server
    mode without the host argument, and back to the settings they were written from (\<open>get_config_in_bounds\<close>, \<open>command_lines_read_back\<close>), and \<^verbatim>\<open>webget\<close> prints what it receives but never
    succeeds (\<open>webget_outcome\<close>).
  \<^item> Control: window, acknowledgments, retransmission with back-off, handshake, reset and close; the segments of a connection are well
    typed whatever is done with it (\<open>connection_segment_type\<close>).
  \<^item> Wire formats: round trips of every header and message, the value of the checksum, and what the parsers accept.
  \<^item> Below TCP: address resolution, no loss in the interface, choice of route, forwarding, \<^verbatim>\<open>route\<close> as a sequence of single
    steps, and segments carried by the adapters, with and without random losses.
  \<^item> The parts together: \<open>network_simulator_succeeds\<close>, hosts, interfaces, address resolution, the router and its table in one
    network; \<open>lab7_delivers\<close>, two routers in two processes; \<open>lab7_thread_defined\<close>, the loop around such a router; \<open>lab7_adapter_is_tap\<close>, two
    adapters that are one.
  \<^item> Error behaviour, including places where the code has no defined meaning (\<open>tick_expiry_undefined\<close>, \<open>match_prefix_bits\<close>)
    or accepts what it should not (\<open>ipv4_datagram_parse_drops_answer\<close>).

  \<^bold>\<open>Modelling.\<close>  Quantities on the wire are words; \<^verbatim>\<open>size_t\<close> and \<^verbatim>\<open>uint64_t\<close> are \<open>nat\<close> with explicit wrap-around, so that theorems
  on unbounded runs carry bounds: streams below \<open>2^32 - 1\<close> bytes in the reassembler, whose end mark is a 32-bit number;
  distances below \<open>2^31\<close> where sequence numbers are unwrapped; below \<open>2^62\<close> bytes and retransmissions in the sender.  A method that
  throws returns \<open>Inl\<close>; where it leaves a changed object behind, the state is returned beside the outcome.  A step without a
  meaning in C++ is \<open>Undefined_behaviour\<close>.  In \<^verbatim>\<open>NetworkInterface::tick\<close>, which erases elements of the map that it iterates over, this outcome is
  returned together with the state in which all expired mappings are erased, the one that the tests of the repository expect; a caller such as the
  loop of \<^verbatim>\<open>lab7\<close> stops there, and \<open>network_interface_run\<close> goes on with that state.  Loops are total functions, except those that wait for the outside (the loops of the
  socket, of the stream copy, of the benchmark and of the programs), which are partial functions whose value \<open>None\<close> is a run without end; no fuel is used.  A payload
  (\<^verbatim>\<open>BufferList\<close>) is the byte string it stands for.

  \<^bold>\<open>Parameters.\<close>  \<^verbatim>\<open>getaddrinfo\<close> and \<^verbatim>\<open>getnameinfo\<close> are arguments, with their documented behaviour on numeric hosts and services
  as the hypotheses \<open>numeric_resolver\<close> and \<open>numeric_namer\<close>, which \<open>number_resolver\<close> and \<open>number_namer\<close> satisfy; random
  numbers are arguments as well.  The system calls are the records \<open>kernel\<close>, \<open>net_kernel\<close> and \<open>sys\<close> of functions on a state of the system; what
  their documentation promises of reads and writes is \<open>io_spec\<close>, and \<open>world_ok\<close> and \<open>copy_world\<close> say what the descriptors of the socket and of the
  copy loop have passed on, \<open>sys_table\<close> which calls open and close descriptors.  A thread that another one waits for is a function on that state:
  what happens until it has been joined.

  \<^bold>\<open>Not modelled.\<close>  The interleaving of a socket's thread with its owner, except through the system's state; clocks and the source of random numbers;
  debugging output; in \<^verbatim>\<open>udp_tcpdump\<close> the calls that open a capture; the tests.
\<close>

section \<open>From one application to the other\<close>

lemma adapters_carry: "same_segment (with_ports sp dp seg) seg' \<Longrightarrow> carries seg seg'"
proof -
  assume same: "same_segment (with_ports sp dp seg) seg'"
  have eq: "(sg_header seg')\<lparr>th_cksum := 0\<rparr> = (sg_header (with_ports sp dp seg))\<lparr>th_cksum := 0\<rparr>"
    using same by (simp add: same_segment_def)
  have f: "f (sg_header seg') = f (sg_header (with_ports sp dp seg))" if "\<And>h. f (h\<lparr>th_cksum := 0\<rparr>) = f h"
    for f :: "tcp_header \<Rightarrow> 'x"
    using eq that by metis
  have "th_seqno (sg_header seg') = th_seqno (sg_header (with_ports sp dp seg))"
    "th_syn (sg_header seg') = th_syn (sg_header (with_ports sp dp seg))"
    "th_fin (sg_header seg') = th_fin (sg_header (with_ports sp dp seg))"
    by (rule f; simp)+
  then show ?thesis using same by (simp add: carries_def same_segment_def) (simp add: with_ports_def)
qed

lemma emitted_allowed:
  assumes inv: "rc_inv W isn x" and len: "length W < 2 ^ 31"
    and seg: "emitted_ok W e isn seg" "carries seg seg'"
  shows "rc_allowed W isn x (Segment seg')"
proof (cases "length_in_sequence_space seg = 0")
  case True
  then show ?thesis using carries_length [OF seg(2)] by (simp add: rc_allowed_def)
next
  case False
  then obtain a where "sent_seg W e isn a seg" using seg(1) by (auto simp: emitted_ok_def)
  then obtain idx where idx: "idx \<le> length W" "segment_of W isn idx seg'" using sent_segment_of [OF _ seg(2)] by blast
  have "sr_cur_idx (rc_reassembler (fst x)) \<le> length W"
    using inv sr_coreD [of W "rc_reassembler (fst x)"] by (simp add: rc_inv_def rc_core_def sr_inv_def)
  then have "adist idx (sr_cur_idx (rc_reassembler (fst x))) < 2 ^ 31" using idx(1) len by (simp add: adist_def)
  with idx(2) show ?thesis by (auto simp: rc_allowed_def)
qed

text \<open>C2. End to end.  A sender is used in any way (writes, acknowledgments with any content, ticks and
  retransmissions, calls of \<^verbatim>\<open>fill_window\<close>), and a receiver is given any of the segments the sender has queued, in any order,
  any number of times or never, with whatever acknowledgment, window, ports and checksum are put on them, while the
  application at the receiver reads at any time.  Then what that application has read, followed by what it can still
  read, is a prefix of what the application at the sender has written; and all of it once the receiver reports the end.\<close>

theorem end_to_end_integrity:
  assumes "sd_start s0" "allowed_run sd_step sd_allowed s0 ops" "run_steps sd_step s0 ops = (s, W)" "length W < 2 ^ 31"
    and "0 < capacity" "capacity < 2 ^ 32"
    and "\<forall>seg'. Segment seg' \<in> set rops \<longrightarrow> (\<exists>seg \<in> set (sd_segments_out s). carries seg seg')"
    and "run_steps rc_step (tcp_receiver_new capacity, []) rops = (r, outs)"
  shows "outs @ bs_buffer (rc_stream_out r) = take (sr_cur_idx (rc_reassembler r)) W \<and>
    (bs_input_ended (rc_stream_out r) \<longrightarrow> outs @ bs_buffer (rc_stream_out r) = W)"
proof -
  let ?r0 = "(tcp_receiver_new capacity, [])"
  have out: "sd_out W s" using sd_reachable [OF assms(1-3)] by (simp add: sd_inv_def)
  have start: "rc_start W capacity ?r0" using assms(4-6) by (simp add: rc_start_def)
  have "rc_allowed W (sd_isn s) x e" if inv: "rc_inv W (sd_isn s) x" and e: "e \<in> set rops" for x e
  proof (cases e)
    case (Segment seg')
    then obtain seg where "seg \<in> set (sd_segments_out s)" "carries seg seg'" using assms(7) e by blast
    then show ?thesis using emitted_allowed [OF inv assms(4)] out Segment by (auto simp: sd_out_def)
  qed (simp add: rc_allowed_def)
  then have "allowed_run rc_step (rc_allowed W (sd_isn s)) ?r0 rops"
    using rcv.allowed_run_if [OF _ rcv.start_inv [OF start]] by blast
  from rcv.reachable_inv [OF start this] have inv: "rc_inv W (sd_isn s) (r, outs)" using assms(8) by simp
  then have "sr_inv W (rc_reassembler r)" by (simp add: rc_inv_def rc_core_def)
  with inv sr_ended_iff show ?thesis by (auto simp: rc_inv_def rc_stream_out_def)
qed

theorem end_to_end_integrity_witness:
  "\<exists>s W r outs. run_steps sd_step (tcp_sender_new 10 1000 (Some 7) 0, []) [SFill, SWrite [1, 2]] = (s, W) \<and>
     run_steps rc_step (tcp_receiver_new 4, []) (map Segment (rev (sd_segments_out s)) @ [ReadOut 1]) = (r, outs) \<and>
     outs @ bs_buffer (rc_stream_out r) = take (sr_cur_idx (rc_reassembler r)) W"
proof -
  let ?s = "(tcp_sender_new 10 1000 (Some 7) 0, []) :: tcp_sender \<times> bytes" and ?ops = "[SFill, SWrite [1, 2]]"
  have start: "sd_start ?s" unfolding sd_start_def by (intro exI conjI) (auto intro: refl)
  have "bs_inputEnd (sd_stream (fill_window (tcp_sender_new 10 1000 (Some 7) 0))) = False"
    using fill_window_inv(2) [OF tcp_sender_new_inv, of 10 1000 "Some 7" 0]
    by (simp add: fill_ok_def sd_same_def tcp_sender_new_def bs_new_def)
  then have allowed: "allowed_run sd_step sd_allowed ?s ?ops" by (simp add: sd_allowed_def)
  obtain s W where run: "run_steps sd_step ?s ?ops = (s, W)" by fastforce
  have W: "length W < 2 ^ 31" using run by (auto split: prod.splits)
  obtain r outs where rr: "run_steps rc_step (tcp_receiver_new 4, []) (map Segment (rev (sd_segments_out s)) @ [ReadOut 1]) = (r, outs)"
    by fastforce
  have "\<forall>seg'. Segment seg' \<in> set (map Segment (rev (sd_segments_out s)) @ [ReadOut 1]) \<longrightarrow>
      (\<exists>seg \<in> set (sd_segments_out s). carries seg seg')" using carries_refl by auto
  with end_to_end_integrity [OF start allowed run W _ _ _ rr] run rr show ?thesis by auto
qed

end
